(* ===== verification/DSP_Prelude.thy ===== *)
theory DSP_Prelude
  imports Main "HOL-Library.Word"
begin

text \<open>
  Shared vocabulary of the development: the machine-integer types of
  \<^verbatim>\<open>Common/CommonTypes.h\<close>, the result type of the fallible operations, the
  collections of simplification rules and the generic facts on words the
  components use.

  A C++ value of type \<^verbatim>\<open>u16\<close>, \<^verbatim>\<open>u32\<close>, \<^verbatim>\<open>u64\<close> is a word of that width, and so
  is a value of the signed type of the same width: the bits are the same, and
  the places where the source reads them as signed use \<^term>\<open>sint\<close>,
  \<^term>\<open>signed_drop_bit\<close>, \<^term>\<open>scast\<close> or \<open><s\<close>.
\<close>

unbundle bit_operations_syntax

type_synonym u8 = "8 word"
type_synonym u16 = "16 word"
type_synonym u32 = "32 word"
type_synonym u64 = "64 word"
type_synonym s16 = "16 word"
type_synonym s32 = "32 word"
type_synonym s64 = "64 word"

text \<open>\<open>UDSPInstruction\<close> of \<^verbatim>\<open>DSPCommon.h\<close>: one 16-bit instruction word.\<close>

type_synonym UDSPInstruction = u16

named_theorems field_defs \<open>definitions of the parts of the union-typed registers\<close>
named_theorems flag_simps \<open>bits of the status register after an update\<close>
named_theorems range40 \<open>ranges of 40-bit values\<close>

subsection \<open>Fallible operations\<close>

text \<open>
  Errors are the left summand. \<open>and_then\<close> sequences two fallible operations; it
  stops at the first error, as the process would.
\<close>

definition and_then :: "'e + 'a \<Rightarrow> ('a \<Rightarrow> 'e + 'b) \<Rightarrow> 'e + 'b" where
  "and_then m f = (case m of Inl e \<Rightarrow> Inl e | Inr x \<Rightarrow> f x)"

lemma and_then_Inr [simp]: "and_then (Inr x) f = f x"
  by (simp add: and_then_def)

lemma and_then_Inl [simp]: "and_then (Inl e) f = Inl e"
  by (simp add: and_then_def)

lemma and_then_eq_Inr_conv:
  "and_then m f = Inr y \<longleftrightarrow> (\<exists>x. m = Inr x \<and> f x = Inr y)"
  by (cases m) simp_all

lemma and_then_InrE:
  assumes "and_then m f = Inr y"
  obtains x where "m = Inr x" and "f x = Inr y"
  using assms by (auto simp: and_then_eq_Inr_conv)

lemma and_then_assoc: "and_then (and_then m f) g = and_then m (\<lambda>x. and_then (f x) g)"
  by (cases m) simp_all

subsection \<open>Single bits and small index words\<close>

lemma word1_cases: "x = 0 \<or> x = 1" for x :: "1 word"
proof -
  have "unat x < 2" using unsigned_less [of x] by simp
  then have "unat x = 0 \<or> unat x = 1" by arith
  then show ?thesis
    by (metis unat_0 unat_1 unsigned_word_eqI)
qed

lemma word1_exhaust [case_names zero one]:
  fixes x :: "1 word"
  obtains "x = 0" | "x = 1"
  using word1_cases by blast

lemma word1_flip_neq [simp]: "1 - x \<noteq> x" "x \<noteq> 1 - x" for x :: "1 word"
  by (cases x rule: word1_exhaust; simp)+

lemma and_eq_take_bit:
  fixes x :: "'a::len word"
  shows "x AND 1 = take_bit 1 x" "x AND 3 = take_bit 2 x" "x AND 7 = take_bit 3 x"
    "x AND 0xF = take_bit 4 x" "x AND 0x1F = take_bit 5 x" "x AND 0x3F = take_bit 6 x"
    "x AND 0x7F = take_bit 7 x" "x AND 0xFF = take_bit 8 x" "x AND 0x7FF = take_bit 11 x"
    "x AND 0xFFF = take_bit 12 x" "x AND 0xFFFF = take_bit 16 x"
    "x AND 0xFFFFFFFFFF = take_bit 40 x"
  by (simp_all add: take_bit_eq_mask mask_eq_exp_minus_1 flip: and.commute [of x])

lemma bit_numeral_power_iff:
  "bit (x AND 2 ^ n) m \<longleftrightarrow> m = n \<and> bit x n" for x :: "'a::len word"
  by (auto simp: bit_simps bit_imp_le_length)

lemma and_exp_eq_0_iff: "x AND 2 ^ n = 0 \<longleftrightarrow> \<not> bit x n" for x :: "'a::len word"
proof
  assume "x AND 2 ^ n = 0"
  then have "\<not> bit (x AND 2 ^ n) n" by simp
  then show "\<not> bit x n" by (auto simp: bit_simps dest: bit_imp_le_length)
next
  assume "\<not> bit x n"
  then show "x AND 2 ^ n = 0"
    by (intro bit_word_eqI) (auto simp: bit_simps)
qed

lemma unat_take_bit: "unat (take_bit n x) = unat x mod 2 ^ n" for x :: "'a::len word"
  by (simp only: unsigned_take_bit_eq) (simp only: take_bit_eq_mod)

lemma word_unat_eqI: "unat x = unat y \<Longrightarrow> x = y" for x y :: "'a::len word"
  by (rule unsigned_word_eqI)

lemma mod_add_eq_self_iff: "(b + c) mod m = b mod m \<longleftrightarrow> m dvd c" for b c m :: nat
  using mod_eq_dvd_iff_nat [of b "b + c" m] by simp

subsection \<open>Sign extension from 40 bits\<close>

text \<open>
  The accumulators are 40 bits wide; the interpreter keeps them in 64-bit fields
  and sign-extends with a pair of shifts.
\<close>

definition sext40 :: "s64 \<Rightarrow> s64" where
  "sext40 v = signed_drop_bit 24 (push_bit 24 v)"

definition wrap40 :: "int \<Rightarrow> int" where
  "wrap40 k = signed_take_bit 39 k"

definition s40 :: "int \<Rightarrow> bool" where
  "s40 k \<longleftrightarrow> - (2 ^ 39) \<le> k \<and> k < 2 ^ 39"

lemma sext40_word_of_int: "sext40 v = word_of_int (signed_take_bit 39 (uint v))"
  unfolding sext40_def by (rule bit_word_eqI) (auto simp: bit_simps)

lemma sint_sext40: "sint (sext40 v) = wrap40 (sint v)"
proof -
  have "sint (sext40 v) = signed_take_bit 63 (signed_take_bit 39 (uint v))"
    by (simp add: sext40_word_of_int sint_sbintrunc')
  also have "\<dots> = signed_take_bit 39 (uint v)"
    by (simp add: signed_take_bit_signed_take_bit)
  also have "\<dots> = signed_take_bit 39 (sint v)"
    by (simp add: signed_take_bit_eq_iff_take_bit_eq sint_uint take_bit_signed_take_bit)
  finally show ?thesis by (simp add: wrap40_def)
qed

lemma sext40_eq_word_of_int: "sext40 v = word_of_int (wrap40 (sint v))"
  by (simp flip: sint_sext40)

lemma s40_wrap40 [simp, intro]: "s40 (wrap40 k)"
  using signed_take_bit_int_greater_eq_minus_exp [of 39 k] signed_take_bit_int_less_exp [of 39 k]
  by (simp add: s40_def wrap40_def)

lemma wrap40_id [simp]: "s40 k \<Longrightarrow> wrap40 k = k"
  by (simp add: s40_def wrap40_def signed_take_bit_int_eq_self)

lemma wrap40_idem [simp]: "wrap40 (wrap40 k) = wrap40 k"
  by simp

lemma wrap40_eq_iff: "wrap40 a = wrap40 b \<longleftrightarrow> a mod 2 ^ 40 = b mod 2 ^ 40"
  by (simp add: wrap40_def signed_take_bit_eq_iff_take_bit_eq take_bit_eq_mod)

lemma wrap40_mod: "wrap40 a mod 2 ^ 40 = a mod 2 ^ 40"
  using wrap40_eq_iff [of "wrap40 a" a] by simp

lemma wrap40_alt: "wrap40 k = (k + 2 ^ 39) mod 2 ^ 40 - 2 ^ 39"
  by (simp add: wrap40_def signed_take_bit_eq_take_bit_shift take_bit_eq_mod)

lemma s40_sext40 [simp, range40]: "s40 (sint (sext40 v))"
  by (simp add: sint_sext40)

lemma sext40_id: "s40 (sint v) \<Longrightarrow> sext40 v = v"
  by (simp add: sext40_eq_word_of_int)

lemma sext40_sext40 [simp]: "sext40 (sext40 v) = sext40 v"
  by (simp add: sext40_id)

lemma sint_mod_40: "sint v mod 2 ^ 40 = uint v mod 2 ^ 40" for v :: s64
proof -
  have "take_bit 40 (sint v) = take_bit 40 (uint v)"
    by (simp add: sint_uint take_bit_signed_take_bit)
  then show ?thesis by (simp add: take_bit_eq_mod)
qed

text \<open>Sums, differences and negations computed in 64 bits and read back in 40.\<close>

lemma wrap40_sint_add: "wrap40 (sint (a + b)) = wrap40 (sint a + sint b)" for a b :: s64
proof -
  have "sint (a + b) mod 2 ^ 40 = (uint a + uint b) mod 2 ^ 40"
    unfolding sint_mod_40 by (simp add: uint_word_ariths mod_mod_cancel)
  also have "\<dots> = (sint a + sint b) mod 2 ^ 40"
    by (intro mod_add_cong) (simp_all only: sint_mod_40)
  finally show ?thesis by (simp only: wrap40_eq_iff)
qed

lemma wrap40_sint_diff: "wrap40 (sint (a - b)) = wrap40 (sint a - sint b)" for a b :: s64
proof -
  have "sint (a - b) mod 2 ^ 40 = (uint a - uint b) mod 2 ^ 40"
    unfolding sint_mod_40 by (simp add: uint_word_ariths mod_mod_cancel)
  also have "\<dots> = (sint a - sint b) mod 2 ^ 40"
    by (intro mod_diff_cong) (simp_all only: sint_mod_40)
  finally show ?thesis by (simp only: wrap40_eq_iff)
qed

lemma wrap40_sint_minus: "wrap40 (sint (- a)) = wrap40 (- sint a)" for a :: s64
  using wrap40_sint_diff [of 0 a] by simp

lemma sint_sext40_add: "sint (sext40 (a + b)) = wrap40 (sint a + sint b)"
  by (simp add: sint_sext40 wrap40_sint_add)

lemma sint_sext40_diff: "sint (sext40 (a - b)) = wrap40 (sint a - sint b)"
  by (simp add: sint_sext40 wrap40_sint_diff)

text \<open>Unsigned comparison of two sign-extended values is comparison of the 40-bit patterns.\<close>

lemma mod_wrap_negative: "- m \<le> k \<Longrightarrow> k < 0 \<Longrightarrow> k mod m = k + m" for k m :: int
  using mod_add_self2 [of k m] mod_pos_pos_trivial [of "k + m" m] by simp

lemma uint_of_s40: "s40 (sint v) \<Longrightarrow> uint v = (if 0 \<le> sint v then sint v else sint v + 2 ^ 64)"
  for v :: s64
  using mod_wrap_negative [of "2 ^ 64" "sint v"]
  by (simp add: s40_def uint_sint take_bit_eq_mod)

lemma mod_40_of_s40: "s40 k \<Longrightarrow> k mod 2 ^ 40 = (if 0 \<le> k then k else k + 2 ^ 40)"
  using mod_wrap_negative [of "2 ^ 40" k] by (simp add: s40_def)

lemma less_s40_iff:
  fixes a b :: s64
  assumes "s40 (sint a)" and "s40 (sint b)"
  shows "a < b \<longleftrightarrow> sint a mod 2 ^ 40 < sint b mod 2 ^ 40"
  using assms unfolding word_less_def
  by (simp only: uint_of_s40 mod_40_of_s40) (simp add: s40_def)

end
