(* ===== verification/DSP_State.thy ===== *)
theory DSP_State
  imports DSP_Prelude
begin

text \<open>
  The state of the low-level DSP emulation (\<^verbatim>\<open>Core/DSP/DSPCore.h\<close>): the
  enumerations, the register file \<open>DSP_Regs\<close>, the accelerator registers and the
  structure \<open>SDSP\<close> of which the source keeps one global instance, \<^verbatim>\<open>g_dsp\<close>.

  A field \<^verbatim>\<open>g_dsp.f\<close> is the record field \<open>g_f\<close>, and \<^verbatim>\<open>g_dsp.r.f\<close> is \<open>r_f\<close> of the
  register file \<open>g_r\<close>. The record also holds the other globals of the DSP core
  (the write-back log, the analyser's code flags, the core state) and the parts
  of the host the DSP reaches through \<^verbatim>\<open>DSPHost.cpp\<close>.

  An array whose size is a power of two and that the source only indexes with a
  value masked to that size is a function on words of that many bits, so an index
  out of range cannot be written; the register stacks and the DSP memories, which
  the source indexes with wider values, are functions on those wider values and
  their bounds are proved or checked.

  The unions \<open>prod\<close>, \<open>ax[i]\<close> and \<open>ac[i]\<close> are their \<open>val\<close> member; the members
  \<open>l\<close>, \<open>m\<close>, \<open>h\<close>, \<open>m2\<close> are its 16-bit slices, least significant first, as on the
  little-endian hosts the emulator runs on.
\<close>

unbundle bit_operations_syntax

subsection \<open>Enumerations\<close>

definition DSP_IRAM_BYTE_SIZE :: nat where "DSP_IRAM_BYTE_SIZE = 0x2000"
definition DSP_IRAM_SIZE :: nat where "DSP_IRAM_SIZE = 0x1000"
definition DSP_IRAM_MASK :: u16 where "DSP_IRAM_MASK = 0xFFF"
definition DSP_IROM_MASK :: u16 where "DSP_IROM_MASK = 0xFFF"
definition DSP_DRAM_BYTE_SIZE :: nat where "DSP_DRAM_BYTE_SIZE = 0x2000"
definition DSP_DRAM_MASK :: u16 where "DSP_DRAM_MASK = 0xFFF"
definition DSP_COEF_MASK :: u16 where "DSP_COEF_MASK = 0x7FF"
definition DSP_RESET_VECTOR :: u16 where "DSP_RESET_VECTOR = 0x8000"
definition DSP_STACK_MASK :: u8 where "DSP_STACK_MASK = 0x1F"

lemmas mem_consts = DSP_IRAM_BYTE_SIZE_def DSP_IRAM_SIZE_def DSP_IRAM_MASK_def DSP_IROM_MASK_def
  DSP_DRAM_BYTE_SIZE_def DSP_DRAM_MASK_def DSP_COEF_MASK_def DSP_RESET_VECTOR_def
  DSP_STACK_MASK_def

text \<open>The register numbers (\<^verbatim>\<open>DSP_REG_AR0\<close> and so on).\<close>

abbreviation (input) DSP_REG_AR0 :: nat where "DSP_REG_AR0 \<equiv> 0x00"
abbreviation (input) DSP_REG_AR3 :: nat where "DSP_REG_AR3 \<equiv> 0x03"
abbreviation (input) DSP_REG_IX0 :: nat where "DSP_REG_IX0 \<equiv> 0x04"
abbreviation (input) DSP_REG_WR0 :: nat where "DSP_REG_WR0 \<equiv> 0x08"
abbreviation (input) DSP_REG_ST0 :: nat where "DSP_REG_ST0 \<equiv> 0x0C"
abbreviation (input) DSP_REG_ACH0 :: nat where "DSP_REG_ACH0 \<equiv> 0x10"
abbreviation (input) DSP_REG_CR :: nat where "DSP_REG_CR \<equiv> 0x12"
abbreviation (input) DSP_REG_SR :: nat where "DSP_REG_SR \<equiv> 0x13"
abbreviation (input) DSP_REG_PRODL :: nat where "DSP_REG_PRODL \<equiv> 0x14"
abbreviation (input) DSP_REG_PRODM :: nat where "DSP_REG_PRODM \<equiv> 0x15"
abbreviation (input) DSP_REG_PRODH :: nat where "DSP_REG_PRODH \<equiv> 0x16"
abbreviation (input) DSP_REG_PRODM2 :: nat where "DSP_REG_PRODM2 \<equiv> 0x17"
abbreviation (input) DSP_REG_AXL0 :: nat where "DSP_REG_AXL0 \<equiv> 0x18"
abbreviation (input) DSP_REG_AXL1 :: nat where "DSP_REG_AXL1 \<equiv> 0x19"
abbreviation (input) DSP_REG_AXH0 :: nat where "DSP_REG_AXH0 \<equiv> 0x1A"
abbreviation (input) DSP_REG_ACL0 :: nat where "DSP_REG_ACL0 \<equiv> 0x1C"
abbreviation (input) DSP_REG_ACM0 :: nat where "DSP_REG_ACM0 \<equiv> 0x1E"

text \<open>The bits of the status register, by their positions.\<close>

abbreviation (input) SR_CARRY :: u16 where "SR_CARRY \<equiv> 0x0001"
abbreviation (input) SR_OVERFLOW :: u16 where "SR_OVERFLOW \<equiv> 0x0002"
abbreviation (input) SR_ARITH_ZERO :: u16 where "SR_ARITH_ZERO \<equiv> 0x0004"
abbreviation (input) SR_SIGN :: u16 where "SR_SIGN \<equiv> 0x0008"
abbreviation (input) SR_OVER_S32 :: u16 where "SR_OVER_S32 \<equiv> 0x0010"
abbreviation (input) SR_TOP2BITS :: u16 where "SR_TOP2BITS \<equiv> 0x0020"
abbreviation (input) SR_LOGIC_ZERO :: u16 where "SR_LOGIC_ZERO \<equiv> 0x0040"
abbreviation (input) SR_OVERFLOW_STICKY :: u16 where "SR_OVERFLOW_STICKY \<equiv> 0x0080"
abbreviation (input) SR_INT_ENABLE :: u16 where "SR_INT_ENABLE \<equiv> 0x0200"
abbreviation (input) SR_EXT_INT_ENABLE :: u16 where "SR_EXT_INT_ENABLE \<equiv> 0x0800"
abbreviation (input) SR_MUL_MODIFY :: u16 where "SR_MUL_MODIFY \<equiv> 0x2000"
abbreviation (input) SR_40_MODE_BIT :: u16 where "SR_40_MODE_BIT \<equiv> 0x4000"
abbreviation (input) SR_MUL_UNSIGNED :: u16 where "SR_MUL_UNSIGNED \<equiv> 0x8000"
abbreviation (input) SR_CMP_MASK :: u16 where "SR_CMP_MASK \<equiv> 0x3F"

text \<open>The bits of \<^verbatim>\<open>g_dsp.cr\<close> and the exception numbers.\<close>

abbreviation (input) CR_EXTERNAL_INT :: u16 where "CR_EXTERNAL_INT \<equiv> 0x0002"
abbreviation (input) CR_HALT :: u16 where "CR_HALT \<equiv> 0x0004"
abbreviation (input) EXP_ACCOV :: nat where "EXP_ACCOV \<equiv> 5"
abbreviation (input) EXP_INT :: nat where "EXP_INT \<equiv> 7"

datatype StackRegister = Call | Data | LoopAddress | LoopCounter

datatype Mailbox = MAILBOX_CPU | MAILBOX_DSP

datatype core_state = Stopped | Running | Stepping

text \<open>
  What ends an operation without a result: \<^verbatim>\<open>exit(0)\<close> in \<open>gdsp_do_dma\<close>, an access
  past the end of one of the DSP's own buffers, an access to a host address
  nothing is mapped at, and a loop that does not end.
\<close>

datatype dsp_error = DMA_Exit | Out_Of_Bounds | Unmapped | No_Return

subsection \<open>Records\<close>

record DSP_Regs =
  r_ar :: "2 word \<Rightarrow> u16"
  r_ix :: "2 word \<Rightarrow> u16"
  r_wr :: "2 word \<Rightarrow> u16"
  r_st :: "2 word \<Rightarrow> u16"
  r_cr :: u16
  r_sr :: u16
  r_prod :: u64
  r_ax :: "1 word \<Rightarrow> u32"
  r_ac :: "1 word \<Rightarrow> u64"

record Accelerator =
  m_start_address :: u32
  m_end_address :: u32
  m_current_address :: u32
  m_sample_format :: u16
  m_yn1 :: s16
  m_yn2 :: s16
  m_pred_scale :: u16
  m_reads_stopped :: bool

text \<open>
  \<open>g_cpu_ram\<close> is the physical address space \<^verbatim>\<open>Memory::physical_base\<close>: \<open>None\<close> where
  nothing is mapped. \<open>g_aram\<close> and \<open>g_aram_mask\<close> are \<^verbatim>\<open>s_ARAM\<close> of \<^verbatim>\<open>HW/DSP.cpp\<close> in
  GameCube mode; in Wii mode (\<open>g_aram_wii\<close>) that pointer is the EXRAM, which is also
  mapped in the physical address space, so it is read there.
  \<open>g_int_requests\<close> counts the calls of \<^verbatim>\<open>Host::InterruptRequest\<close>.
\<close>

record SDSP =
  g_r :: DSP_Regs
  g_pc :: u16
  g_cr :: u16
  g_reg_stack_ptr :: "2 word \<Rightarrow> u8"
  g_exceptions :: u8
  g_external_interrupt_waiting :: bool
  g_reg_stack :: "2 word \<Rightarrow> u8 \<Rightarrow> u16"
  g_iram_crc :: u32
  g_step_counter :: u64
  g_mbox :: "Mailbox \<Rightarrow> u32"
  g_ifx_regs :: "u8 \<Rightarrow> u16"
  g_accelerator :: Accelerator
  g_iram :: "u16 \<Rightarrow> u16"
  g_dram :: "u16 \<Rightarrow> u16"
  g_irom :: "u16 \<Rightarrow> u16"
  g_coef :: "u16 \<Rightarrow> u16"
  g_cpu_ram :: "u32 \<Rightarrow> u8 option"
  g_init_hax :: bool
  g_writeBackLog :: "u16 list"
  g_writeBackLogIdx :: "int list"
  g_code_flags :: "u16 \<Rightarrow> u8"
  g_core_state :: core_state
  g_aram :: "u32 \<Rightarrow> u8"
  g_aram_mask :: u32
  g_aram_wii :: bool
  g_int_requests :: nat
  g_bSSSE3 :: bool

type_synonym dsp_result = "dsp_error + SDSP"

text \<open>The globals before anything runs: zeroed storage, nothing mapped.\<close>

definition regs_zero :: DSP_Regs where
  "regs_zero = \<lparr>r_ar = (\<lambda>_. 0), r_ix = (\<lambda>_. 0), r_wr = (\<lambda>_. 0), r_st = (\<lambda>_. 0), r_cr = 0, r_sr = 0,
     r_prod = 0, r_ax = (\<lambda>_. 0), r_ac = (\<lambda>_. 0)\<rparr>"

definition accelerator_zero :: Accelerator where
  "accelerator_zero = \<lparr>m_start_address = 0, m_end_address = 0, m_current_address = 0,
     m_sample_format = 0, m_yn1 = 0, m_yn2 = 0, m_pred_scale = 0, m_reads_stopped = False\<rparr>"

definition dsp_zero :: SDSP where
  "dsp_zero = \<lparr>g_r = regs_zero, g_pc = 0, g_cr = 0, g_reg_stack_ptr = (\<lambda>_. 0), g_exceptions = 0,
     g_external_interrupt_waiting = False, g_reg_stack = (\<lambda>_ _. 0), g_iram_crc = 0,
     g_step_counter = 0, g_mbox = (\<lambda>_. 0), g_ifx_regs = (\<lambda>_. 0),
     g_accelerator = accelerator_zero, g_iram = (\<lambda>_. 0), g_dram = (\<lambda>_. 0), g_irom = (\<lambda>_. 0),
     g_coef = (\<lambda>_. 0), g_cpu_ram = (\<lambda>_. None), g_init_hax = False,
     g_writeBackLog = replicate 5 0, g_writeBackLogIdx = replicate 5 0, g_code_flags = (\<lambda>_. 0),
     g_core_state = Stopped, g_aram = (\<lambda>_. 0), g_aram_mask = 0, g_aram_wii = False,
     g_int_requests = 0, g_bSSSE3 = False\<rparr>"

lemmas zero_defs = dsp_zero_def regs_zero_def accelerator_zero_def

subsection \<open>Members of the unions\<close>

definition u_l :: "u64 \<Rightarrow> u16" where "u_l v = ucast v"
definition u_m :: "u64 \<Rightarrow> u16" where "u_m v = ucast (drop_bit 16 v)"
definition u_h :: "u64 \<Rightarrow> u16" where "u_h v = ucast (drop_bit 32 v)"
definition u_m2 :: "u64 \<Rightarrow> u16" where "u_m2 v = ucast (drop_bit 48 v)"

definition set_u_l :: "u16 \<Rightarrow> u64 \<Rightarrow> u64" where
  "set_u_l x v = (v AND NOT (mask 16)) OR ucast x"
definition set_u_m :: "u16 \<Rightarrow> u64 \<Rightarrow> u64" where
  "set_u_m x v = (v AND NOT (push_bit 16 (mask 16))) OR push_bit 16 (ucast x)"
definition set_u_h :: "u16 \<Rightarrow> u64 \<Rightarrow> u64" where
  "set_u_h x v = (v AND NOT (push_bit 32 (mask 16))) OR push_bit 32 (ucast x)"
definition set_u_m2 :: "u16 \<Rightarrow> u64 \<Rightarrow> u64" where
  "set_u_m2 x v = (v AND NOT (push_bit 48 (mask 16))) OR push_bit 48 (ucast x)"

definition ax_l :: "u32 \<Rightarrow> u16" where "ax_l v = ucast v"
definition ax_h :: "u32 \<Rightarrow> u16" where "ax_h v = ucast (drop_bit 16 v)"
definition set_ax_l :: "u16 \<Rightarrow> u32 \<Rightarrow> u32" where
  "set_ax_l x v = (v AND NOT (mask 16)) OR ucast x"
definition set_ax_h :: "u16 \<Rightarrow> u32 \<Rightarrow> u32" where
  "set_ax_h x v = (v AND NOT (push_bit 16 (mask 16))) OR push_bit 16 (ucast x)"

lemmas [field_defs] = u_l_def u_m_def u_h_def u_m2_def set_u_l_def set_u_m_def set_u_h_def
  set_u_m2_def ax_l_def ax_h_def set_ax_l_def set_ax_h_def

text \<open>Access to one register of the file, as the source writes \<^verbatim>\<open>g_dsp.r.ac[i].m\<close>.\<close>

abbreviation g_ar :: "2 word \<Rightarrow> SDSP \<Rightarrow> u16" where "g_ar i d \<equiv> r_ar (g_r d) i"
abbreviation g_ix :: "2 word \<Rightarrow> SDSP \<Rightarrow> u16" where "g_ix i d \<equiv> r_ix (g_r d) i"
abbreviation g_wr :: "2 word \<Rightarrow> SDSP \<Rightarrow> u16" where "g_wr i d \<equiv> r_wr (g_r d) i"
abbreviation g_st :: "2 word \<Rightarrow> SDSP \<Rightarrow> u16" where "g_st i d \<equiv> r_st (g_r d) i"
abbreviation g_sr :: "SDSP \<Rightarrow> u16" where "g_sr d \<equiv> r_sr (g_r d)"
abbreviation g_ac :: "1 word \<Rightarrow> SDSP \<Rightarrow> u64" where "g_ac i d \<equiv> r_ac (g_r d) i"
abbreviation g_ax :: "1 word \<Rightarrow> SDSP \<Rightarrow> u32" where "g_ax i d \<equiv> r_ax (g_r d) i"
abbreviation g_prod :: "SDSP \<Rightarrow> u64" where "g_prod d \<equiv> r_prod (g_r d)"

abbreviation set_ar :: "2 word \<Rightarrow> u16 \<Rightarrow> SDSP \<Rightarrow> SDSP" where
  "set_ar i v d \<equiv> g_r_update (r_ar_update (\<lambda>a. a(i := v))) d"
abbreviation set_ix :: "2 word \<Rightarrow> u16 \<Rightarrow> SDSP \<Rightarrow> SDSP" where
  "set_ix i v d \<equiv> g_r_update (r_ix_update (\<lambda>a. a(i := v))) d"
abbreviation set_wr :: "2 word \<Rightarrow> u16 \<Rightarrow> SDSP \<Rightarrow> SDSP" where
  "set_wr i v d \<equiv> g_r_update (r_wr_update (\<lambda>a. a(i := v))) d"
abbreviation set_st :: "2 word \<Rightarrow> u16 \<Rightarrow> SDSP \<Rightarrow> SDSP" where
  "set_st i v d \<equiv> g_r_update (r_st_update (\<lambda>a. a(i := v))) d"
abbreviation set_sr :: "u16 \<Rightarrow> SDSP \<Rightarrow> SDSP" where
  "set_sr v d \<equiv> g_r_update (r_sr_update (\<lambda>_. v)) d"
abbreviation set_ac :: "1 word \<Rightarrow> u64 \<Rightarrow> SDSP \<Rightarrow> SDSP" where
  "set_ac i v d \<equiv> g_r_update (r_ac_update (\<lambda>a. a(i := v))) d"
abbreviation set_ax :: "1 word \<Rightarrow> u32 \<Rightarrow> SDSP \<Rightarrow> SDSP" where
  "set_ax i v d \<equiv> g_r_update (r_ax_update (\<lambda>a. a(i := v))) d"
abbreviation set_prod :: "u64 \<Rightarrow> SDSP \<Rightarrow> SDSP" where
  "set_prod v d \<equiv> g_r_update (r_prod_update (\<lambda>_. v)) d"

subsection \<open>Laws of the union members\<close>

text \<open>Each member reads back what was written to it and is untouched by writes to the others.\<close>

lemma u_l_set [simp]: "u_l (set_u_l x v) = x" "u_l (set_u_m x v) = u_l v"
  "u_l (set_u_h x v) = u_l v" "u_l (set_u_m2 x v) = u_l v"
  by (rule bit_word_eqI; auto simp: field_defs bit_simps dest: bit_imp_le_length)+

lemma u_m_set [simp]: "u_m (set_u_l x v) = u_m v" "u_m (set_u_m x v) = x"
  "u_m (set_u_h x v) = u_m v" "u_m (set_u_m2 x v) = u_m v"
  by (rule bit_word_eqI; auto simp: field_defs bit_simps dest: bit_imp_le_length)+

lemma u_h_set [simp]: "u_h (set_u_l x v) = u_h v" "u_h (set_u_m x v) = u_h v"
  "u_h (set_u_h x v) = x" "u_h (set_u_m2 x v) = u_h v"
  by (rule bit_word_eqI; auto simp: field_defs bit_simps dest: bit_imp_le_length)+

lemma u_m2_set [simp]: "u_m2 (set_u_l x v) = u_m2 v" "u_m2 (set_u_m x v) = u_m2 v"
  "u_m2 (set_u_h x v) = u_m2 v" "u_m2 (set_u_m2 x v) = x"
  by (rule bit_word_eqI; auto simp: field_defs bit_simps dest: bit_imp_le_length)+

lemma ax_set [simp]: "ax_l (set_ax_l x w) = x" "ax_l (set_ax_h x w) = ax_l w"
  "ax_h (set_ax_l x w) = ax_h w" "ax_h (set_ax_h x w) = x"
  by (rule bit_word_eqI; auto simp: field_defs bit_simps dest: bit_imp_le_length)+

end
