(* ===== verification/DSP_Stacks.thy ===== *)
theory DSP_Stacks
  imports DSP_State
begin

text \<open>
  The four hardware stacks (\<^verbatim>\<open>Core/DSP/DSPStacks.cpp\<close>). The top of a stack is the
  register \<open>st[i]\<close>; the words below it are in a ring of 32 entries. The theory shows
  that the ring never indexes past its end and that it implements a stack of
  bounded depth: the interface \<open>lifo\<close> states what the interpreter relies on, and
  is interpreted on the four stacks.
\<close>

unbundle bit_operations_syntax

definition dsp_reg_stack_push :: "2 word \<Rightarrow> SDSP \<Rightarrow> SDSP" where
  "dsp_reg_stack_push i d =
     (let p = (g_reg_stack_ptr d i + 1) AND DSP_STACK_MASK in
      d\<lparr>g_reg_stack_ptr := (g_reg_stack_ptr d)(i := p),
        g_reg_stack := (g_reg_stack d)(i := (g_reg_stack d i)(p := g_st i d))\<rparr>)"

definition dsp_reg_stack_pop :: "2 word \<Rightarrow> SDSP \<Rightarrow> SDSP" where
  "dsp_reg_stack_pop i d =
     (let d1 = set_st i (g_reg_stack d i (g_reg_stack_ptr d i)) d in
      d1\<lparr>g_reg_stack_ptr :=
          (g_reg_stack_ptr d1)(i := (g_reg_stack_ptr d1 i - 1) AND DSP_STACK_MASK)\<rparr>)"

text \<open>\<^verbatim>\<open>static_cast<size_t>(stack_reg)\<close>.\<close>

primrec stack_index :: "StackRegister \<Rightarrow> 2 word" where
  "stack_index Call = 0"
| "stack_index Data = 1"
| "stack_index LoopAddress = 2"
| "stack_index LoopCounter = 3"

definition dsp_reg_store_stack :: "2 word \<Rightarrow> u16 \<Rightarrow> SDSP \<Rightarrow> SDSP" where
  "dsp_reg_store_stack i val d = set_st i val (dsp_reg_stack_push i d)"

definition dsp_reg_load_stack :: "2 word \<Rightarrow> SDSP \<Rightarrow> u16 \<times> SDSP" where
  "dsp_reg_load_stack i d = (g_st i d, dsp_reg_stack_pop i d)"


subsection \<open>Positions in the ring\<close>

lemma unat_stack_mask: "unat (x AND DSP_STACK_MASK) = unat x mod 32"
  by (simp add: and_eq_take_bit DSP_STACK_MASK_def unat_take_bit)

lemma stack_mask_bound: "x AND DSP_STACK_MASK < 32"
  by (simp add: word_less_nat_alt unat_stack_mask)

lemma ring_pos:
  assumes "k \<le> 32"
  shows "unat ((p - of_nat k) AND DSP_STACK_MASK) = (unat p + (32 - k)) mod 32"
proof -
  have "p - of_nat k = p + of_nat (256 - k)"
    using assms by simp
  then have "unat (p - of_nat k) = unat (p + of_nat (256 - k))"
    by (rule arg_cong)
  also have "\<dots> = (unat p + (256 - k)) mod 256"
    by (simp only: unat_word_ariths unat_of_nat) (simp add: mod_simps)
  finally have "unat ((p - of_nat k) AND DSP_STACK_MASK) = (unat p + (256 - k)) mod 32"
    by (simp add: unat_stack_mask mod_mod_cancel)
  also have "unat p + (256 - k) = unat p + (32 - k) + 7 * 32"
    using assms by simp
  finally show ?thesis by (simp only: mod_mult_self1)
qed

lemma ring_succ: "unat ((p + 1) AND DSP_STACK_MASK) = (unat p + 1) mod 32" for p :: u8
  by (simp add: unat_stack_mask unat_word_ariths mod_mod_cancel)

lemma ring_pred: "unat ((p - 1) AND DSP_STACK_MASK) = (unat p + 31) mod 32" for p :: u8
  using ring_pos [of 1 p] by simp

lemma ring_push_new:
  fixes p :: u8
  assumes "0 < k" and "k < 32"
  shows "((p + 1) AND DSP_STACK_MASK) - of_nat k AND DSP_STACK_MASK \<noteq> (p + 1) AND DSP_STACK_MASK"
proof
  assume "((p + 1) AND DSP_STACK_MASK) - of_nat k AND DSP_STACK_MASK = (p + 1) AND DSP_STACK_MASK"
  from arg_cong [OF this, of unat]
  have "((unat p + 1) mod 32 + (32 - k)) mod 32 = (unat p + 1) mod 32"
    using assms by (simp only: ring_pos ring_succ less_imp_le)
  then have "32 dvd 32 - k"
    by (simp only: mod_add_left_eq mod_add_eq_self_iff)
  with assms show False by (simp add: nat_dvd_not_less)
qed

lemma ring_push_old:
  fixes p :: u8
  assumes "k < 32"
  shows "((p + 1) AND DSP_STACK_MASK) - of_nat (Suc k) AND DSP_STACK_MASK
    = (p - of_nat k) AND DSP_STACK_MASK"
proof -
  have "((unat p + 1) mod 32 + (32 - Suc k)) mod 32 = (unat p + 1 + (32 - Suc k)) mod 32"
    by (rule mod_add_left_eq)
  also have "unat p + 1 + (32 - Suc k) = unat p + (32 - k)"
    using assms by simp
  finally show ?thesis
    using assms ring_pos [of "Suc k" "(p + 1) AND DSP_STACK_MASK"]
    by (intro word_unat_eqI) (simp add: ring_pos ring_succ del: of_nat_Suc)
qed

lemma ring_push_fresh:
  "k < 31 \<Longrightarrow> (p - of_nat k) AND DSP_STACK_MASK \<noteq> (p + 1) AND DSP_STACK_MASK" for p :: u8
  using ring_push_new [of "Suc k" p] ring_push_old [of k p] by simp

lemma ring_pop:
  fixes p :: u8
  assumes "k < 32"
  shows "((p - 1) AND DSP_STACK_MASK) - of_nat k AND DSP_STACK_MASK
    = (p - of_nat (Suc k)) AND DSP_STACK_MASK"
proof -
  have "((unat p + 31) mod 32 + (32 - k)) mod 32 = (unat p + 31 + (32 - k)) mod 32"
    by (rule mod_add_left_eq)
  also have "unat p + 31 + (32 - k) = (unat p + (32 - Suc k)) + 32"
    using assms by simp
  finally have "((unat p + 31) mod 32 + (32 - k)) mod 32 = (unat p + (32 - Suc k)) mod 32"
    by simp
  then show ?thesis
    using assms ring_pos [of "Suc k" p]
    by (intro word_unat_eqI) (simp add: ring_pos ring_pred del: of_nat_Suc)
qed

subsection \<open>The bounded stack the ring implements\<close>

text \<open>
  \<open>stack_view n i d\<close> is the top \<open>n + 1\<close> words of stack \<open>i\<close>: the register, then
  the ring downwards from its pointer. With 32 ring entries the view is
  meaningful for \<open>n \<le> 32\<close>.
\<close>

definition stack_view :: "nat \<Rightarrow> 2 word \<Rightarrow> SDSP \<Rightarrow> u16 list" where
  "stack_view n i d = g_st i d #
     map (\<lambda>k. g_reg_stack d i ((g_reg_stack_ptr d i - of_nat k) AND DSP_STACK_MASK)) [0..<n]"

text \<open>Memory safety: every pointer is an index of the 32-entry array.\<close>

definition stack_ptr_ok :: "SDSP \<Rightarrow> bool" where
  "stack_ptr_ok d \<longleftrightarrow> (\<forall>i. g_reg_stack_ptr d i < 32)"

lemma stack_ptr_ok_store [simp]: "stack_ptr_ok d \<Longrightarrow> stack_ptr_ok (dsp_reg_store_stack i v d)"
  by (simp add: stack_ptr_ok_def dsp_reg_store_stack_def dsp_reg_stack_push_def
      stack_mask_bound Let_def)

lemma stack_ptr_ok_load [simp]: "stack_ptr_ok d \<Longrightarrow> stack_ptr_ok (snd (dsp_reg_load_stack i d))"
  by (simp add: stack_ptr_ok_def dsp_reg_load_stack_def dsp_reg_stack_pop_def
      stack_mask_bound Let_def)

lemma length_stack_view [simp]: "length (stack_view n i d) = Suc n"
  by (simp add: stack_view_def)

lemma mask_of_ptr_ok: "x < 32 \<Longrightarrow> x AND DSP_STACK_MASK = x" for x :: u8
  by (intro word_unat_eqI) (simp add: unat_stack_mask word_less_nat_alt)

lemma stack_view_store:
  assumes "n < 32"
  shows "stack_view (Suc n) i (dsp_reg_store_stack i v d) = v # stack_view n i d"
  using assms mask_of_ptr_ok [OF stack_mask_bound]
  by (simp add: stack_view_def dsp_reg_store_stack_def dsp_reg_stack_push_def Let_def
      ring_push_fresh ring_push_old upt_conv_Cons flip: map_Suc_upt del: upt_Suc of_nat_Suc)

lemma stack_view_store_other:
  "j \<noteq> i \<Longrightarrow> stack_view n j (dsp_reg_store_stack i v d) = stack_view n j d"
  by (simp add: stack_view_def dsp_reg_store_stack_def dsp_reg_stack_push_def Let_def)

lemma fst_load_stack: "fst (dsp_reg_load_stack i d) = hd (stack_view n i d)"
  by (simp add: dsp_reg_load_stack_def stack_view_def)

lemma stack_view_load:
  assumes "stack_ptr_ok d" and "n < 32"
  shows "stack_view n i (snd (dsp_reg_load_stack i d)) = tl (stack_view (Suc n) i d)"
  using assms
  by (simp add: stack_view_def dsp_reg_load_stack_def dsp_reg_stack_pop_def Let_def
      stack_ptr_ok_def mask_of_ptr_ok ring_pop upt_conv_Cons flip: map_Suc_upt
      del: upt_Suc of_nat_Suc)

lemma stack_view_load_other:
  "j \<noteq> i \<Longrightarrow> stack_view n j (snd (dsp_reg_load_stack i d)) = stack_view n j d"
  by (simp add: stack_view_def dsp_reg_load_stack_def dsp_reg_stack_pop_def Let_def)

subsection \<open>The contract of a family of bounded stacks\<close>

text \<open>
  The specification: one list per stack. A push fails when \<open>cap\<close> words are
  already below the top, a pop fails when nothing is left below the top.
\<close>

datatype ('i, 'v) stack_op = Push 'i 'v | Pop 'i

fun spec_run ::
  "nat \<Rightarrow> ('i, 'v) stack_op list \<Rightarrow> ('i \<Rightarrow> 'v list) \<Rightarrow> ('v list \<times> ('i \<Rightarrow> 'v list)) option" where
  "spec_run cap [] a = Some ([], a)"
| "spec_run cap (Push i v # ops) a =
     (if length (a i) \<le> cap then spec_run cap ops (a(i := v # a i)) else None)"
| "spec_run cap (Pop i # ops) a =
     (case a i of
        x # y # ys \<Rightarrow> map_option (\<lambda>(outs, b). (x # outs, b)) (spec_run cap ops (a(i := y # ys)))
      | _ \<Rightarrow> None)"

fun impl_run ::
  "('i \<Rightarrow> 'v \<Rightarrow> 's \<Rightarrow> 's) \<Rightarrow> ('i \<Rightarrow> 's \<Rightarrow> 'v \<times> 's) \<Rightarrow> ('i, 'v) stack_op list \<Rightarrow> 's \<Rightarrow> 'v list \<times> 's" where
  "impl_run push pop [] d = ([], d)"
| "impl_run push pop (Push i v # ops) d = impl_run push pop ops (push i v d)"
| "impl_run push pop (Pop i # ops) d =
     (let (x, d1) = pop i d; (outs, d2) = impl_run push pop ops d1 in (x # outs, d2))"

locale lifo =
  fixes push :: "'i \<Rightarrow> 'v \<Rightarrow> 's \<Rightarrow> 's"
    and pop :: "'i \<Rightarrow> 's \<Rightarrow> 'v \<times> 's"
    and view :: "nat \<Rightarrow> 'i \<Rightarrow> 's \<Rightarrow> 'v list"
    and ok :: "'s \<Rightarrow> bool"
    and cap :: nat
  assumes view_length: "length (view n i d) = Suc n"
    and view_push: "n < cap \<Longrightarrow> view (Suc n) i (push i v d) = v # view n i d"
    and view_push_other: "j \<noteq> i \<Longrightarrow> view n j (push i v d) = view n j d"
    and pop_top: "fst (pop i d) = hd (view n i d)"
    and view_pop: "ok d \<Longrightarrow> n < cap \<Longrightarrow> view n i (snd (pop i d)) = tl (view (Suc n) i d)"
    and view_pop_other: "j \<noteq> i \<Longrightarrow> view n j (snd (pop i d)) = view n j d"
    and ok_push: "ok d \<Longrightarrow> ok (push i v d)"
    and ok_pop: "ok d \<Longrightarrow> ok (snd (pop i d))"
begin

text \<open>The simulation relation: each list of the specification is what the view shows.\<close>

definition sim :: "('i \<Rightarrow> 'v list) \<Rightarrow> 's \<Rightarrow> bool" where
  "sim a d \<longleftrightarrow> ok d \<and>
     (\<forall>i. a i \<noteq> [] \<and> length (a i) \<le> Suc cap \<and> a i = view (length (a i) - 1) i d)"

lemma pop_push:
  assumes "ok d" and "n < cap"
  shows "fst (pop i (push i v d)) = v" and "view n j (snd (pop i (push i v d))) = view n j d"
proof -
  show "fst (pop i (push i v d)) = v"
    using assms by (simp add: pop_top [of i _ "Suc n"] view_push)
  show "view n j (snd (pop i (push i v d))) = view n j d"
    using assms by (cases "j = i")
      (simp_all add: view_pop view_push ok_push view_pop_other view_push_other)
qed

lemma sim_push:
  assumes "sim a d" and "length (a i) \<le> cap"
  shows "sim (a(i := v # a i)) (push i v d)"
proof -
  from assms(1) have a: "a i \<noteq> []" "a i = view (length (a i) - 1) i d"
    unfolding sim_def by blast+
  then obtain n where n: "length (a i) = Suc n" "a i = view n i d"
    by (cases "length (a i)") simp_all
  with assms have "view (Suc n) i (push i v d) = v # a i"
    by (simp add: view_push)
  with assms n show ?thesis
    by (auto simp: sim_def ok_push view_push_other)
qed

lemma sim_pop:
  assumes "sim a d" and "a i = x # y # ys"
  shows "fst (pop i d) = x" and "sim (a(i := y # ys)) (snd (pop i d))"
proof -
  from assms have v: "view (Suc (length ys)) i d = x # y # ys" and l: "length ys < cap"
    and ok: "ok d"
    unfolding sim_def by (metis diff_Suc_1 length_Cons, metis Suc_le_eq Suc_le_mono length_Cons, simp)
  show "fst (pop i d) = x"
    by (simp add: pop_top [of i d "Suc (length ys)"] v)
  have "view (length ys) i (snd (pop i d)) = y # ys"
    using ok l v by (simp add: view_pop)
  with assms l show "sim (a(i := y # ys)) (snd (pop i d))"
    by (auto simp: sim_def ok_pop view_pop_other)
qed

lemma refines:
  assumes "sim a d" and "spec_run cap ops a = Some (outs, b)"
  shows "fst (impl_run push pop ops d) = outs \<and> sim b (snd (impl_run push pop ops d))"
  using assms
proof (induction ops arbitrary: a d outs)
  case Nil
  then show ?case by simp
next
  case (Cons opn ops)
  show ?case
  proof (cases opn)
    case (Push i v)
    with Cons.prems(2) have "length (a i) \<le> cap"
      and r: "spec_run cap ops (a(i := v # a i)) = Some (outs, b)"
      by (simp_all split: if_splits)
    then have "sim (a(i := v # a i)) (push i v d)"
      using Cons.prems(1) by (simp add: sim_push)
    from Cons.IH [OF this r] Push show ?thesis by simp
  next
    case (Pop i)
    with Cons.prems(2) obtain x y ys outs' where
      a: "a i = x # y # ys" and r: "spec_run cap ops (a(i := y # ys)) = Some (outs', b)"
      and o: "outs = x # outs'"
      by (auto split: list.splits)
    from sim_pop [OF Cons.prems(1) a] Cons.IH r Pop o show ?thesis
      by (auto simp: split_beta)
  qed
qed

end

interpretation dsp_stacks: lifo dsp_reg_store_stack dsp_reg_load_stack stack_view stack_ptr_ok 32
  by unfold_locales
    (simp_all add: stack_view_store stack_view_store_other fst_load_stack stack_view_load
      stack_view_load_other)

text \<open>
  The words a push saves and a pop brings back, as equations on the state; the
  other register fields are untouched.
\<close>

lemma load_store_stack [simp]:
  "fst (dsp_reg_load_stack i (dsp_reg_store_stack i v d)) = v"
  by (simp add: dsp_reg_load_stack_def dsp_reg_store_stack_def)

text \<open>
  C19. The four hardware stacks implement four independent stacks of bounded depth: a
  sequence of pushes and pops that never has more than 33 words on a stack nor takes
  the last one returns exactly the words of list stacks, leaves the stacks showing
  the remaining lists, and never moves a pointer outside its 32-entry array.
\<close>

theorem hardware_stacks_refine:
  assumes "stack_ptr_ok d" and "\<forall>i. n i \<le> 32"
    and "spec_run 32 ops (\<lambda>i. stack_view (n i) i d) = Some (outs, b)"
  shows "fst (impl_run dsp_reg_store_stack dsp_reg_load_stack ops d) = outs \<and>
    stack_ptr_ok (snd (impl_run dsp_reg_store_stack dsp_reg_load_stack ops d)) \<and>
    (\<forall>i. stack_view (length (b i) - 1) i (snd (impl_run dsp_reg_store_stack dsp_reg_load_stack ops d)) = b i)"
proof -
  have "dsp_stacks.sim (\<lambda>i. stack_view (n i) i d) d"
    unfolding dsp_stacks.sim_def using assms(1,2) by (auto simp: stack_view_def)
  from dsp_stacks.refines [OF this assms(3)] show ?thesis
    unfolding dsp_stacks.sim_def by metis
qed

theorem hardware_stacks_refine_witness:
  "fst (impl_run dsp_reg_store_stack dsp_reg_load_stack [Push 0 5, Push 2 7, Push 0 6, Pop 0, Pop 2, Pop 0] dsp_zero)
     = [6, 7, 5]"
  using hardware_stacks_refine [of dsp_zero "\<lambda>_. 0" "[Push 0 5, Push 2 7, Push 0 6, Pop 0, Pop 2, Pop 0]"]
  by (simp add: stack_view_def stack_ptr_ok_def zero_defs)

end
