(* ===== verification/DSP_Tables.thy ===== *)
theory DSP_Tables
  imports DSP_State
begin

text \<open>
  The instruction tables (\<^verbatim>\<open>Core/DSP/DSPTables.cpp\<close>): the templates of the 214 main
  and 25 extended opcodes and their lookup. The pointer to the interpreter
  function of a template is a name of that function (\<open>int_func\<close>), grouped by
  the source file that defines it; the dispatch on it is in the theory of the
  interpreter loop. The column of JIT functions is left out.
\<close>

unbundle bit_operations_syntax

subsection \<open>Names of the interpreter functions\<close>

datatype arith_func = I_lsl | I_lsr | I_asl | I_asr | I_lsrn | I_asrn | I_addis | I_cmpis |
  I_addi | I_xori | I_andi | I_ori | I_cmpi | I_andf | I_andcf | I_xorr | I_andr | I_orr | I_andc
  | I_orc | I_xorc | I_notc | I_lsrnrx | I_asrnrx | I_lsrnr | I_asrnr | I_addr | I_addax | I_add |
  I_addp | I_subr | I_subax | I_sub | I_subp | I_movr | I_movax | I_mov | I_addaxl | I_incm |
  I_inc | I_decm | I_dec | I_neg | I_clr | I_cmp | I_tstaxh | I_asr16 | I_abs | I_tst | I_cmpar |
  I_lsl16 | I_lsr16 | I_clrl

datatype mult_func = I_movp | I_movnp | I_mulaxh | I_clrp | I_tstprod | I_mul | I_mulmvz |
  I_mulac | I_mulmv | I_mulx | I_mulxmvz | I_mulxac | I_mulxmv | I_mulc | I_mulcmvz | I_mulcac |
  I_mulcmv | I_maddx | I_msubx | I_maddc | I_msubc | I_madd | I_msub | I_addpaxz | I_movpz

datatype ls_func = I_lr | I_sr | I_si | I_ilrr | I_ilrrd | I_ilrri | I_ilrrn | I_lrr | I_lrrd |
  I_lrri | I_lrrn | I_srr | I_srrd | I_srri | I_srrn | I_lrs | I_srs

datatype misc_func = I_nop | I_dar | I_iar | I_subarn | I_addarn | I_sbclr | I_sbset | I_lri |
  I_mrr | I_lris | I_nx | I_srbith

datatype branch_func = I_halt | I_ret | I_rti | I_call | I_ifcc | I_jcc | I_jmprcc | I_callr |
  I_loop | I_bloop | I_loopi | I_bloopi

datatype ext_func = E_nop | E_dr | E_ir | E_nr | E_mv | E_s | E_sn | E_l | E_ln | E_ls | E_sl |
  E_lsn | E_sln | E_lsm | E_slm | E_lsnm | E_slnm | E_ldax | E_ldaxn | E_ldaxm | E_ldaxnm | E_ld |
  E_ldn | E_ldm | E_ldnm

datatype int_func = F_arith arith_func | F_mult mult_func | F_ls ls_func | F_misc misc_func
  | F_branch branch_func | F_ext ext_func

subsection \<open>Templates\<close>

text \<open>\<^verbatim>\<open>partype_t\<close>: the kinds of instruction parameters, with the values of the enumeration.\<close>

abbreviation (input) P_VAL :: nat where "P_VAL \<equiv> 0x0001"
abbreviation (input) P_IMM :: nat where "P_IMM \<equiv> 0x0002"
abbreviation (input) P_MEM :: nat where "P_MEM \<equiv> 0x0003"
abbreviation (input) P_STR :: nat where "P_STR \<equiv> 0x0004"
abbreviation (input) P_ADDR_I :: nat where "P_ADDR_I \<equiv> 0x0005"
abbreviation (input) P_ADDR_D :: nat where "P_ADDR_D \<equiv> 0x0006"
abbreviation (input) P_REG :: nat where "P_REG \<equiv> 0x8000"
abbreviation (input) P_REG04 :: nat where "P_REG04 \<equiv> 0x8400"
abbreviation (input) P_REG18 :: nat where "P_REG18 \<equiv> 0x9800"
abbreviation (input) P_REGM18 :: nat where "P_REGM18 \<equiv> 0x9810"
abbreviation (input) P_REG19 :: nat where "P_REG19 \<equiv> 0x9900"
abbreviation (input) P_REGM19 :: nat where "P_REGM19 \<equiv> 0x9910"
abbreviation (input) P_REG1A :: nat where "P_REG1A \<equiv> 0x9A80"
abbreviation (input) P_ACCL :: nat where "P_ACCL \<equiv> 0x9C00"
abbreviation (input) P_REG1C :: nat where "P_REG1C \<equiv> 0x9C10"
abbreviation (input) P_ACCM :: nat where "P_ACCM \<equiv> 0x9E00"
abbreviation (input) P_ACCM_D :: nat where "P_ACCM_D \<equiv> 0x9E80"
abbreviation (input) P_ACC :: nat where "P_ACC \<equiv> 0xA000"
abbreviation (input) P_ACC_D :: nat where "P_ACC_D \<equiv> 0xA080"
abbreviation (input) P_AX :: nat where "P_AX \<equiv> 0xA200"
abbreviation (input) P_PRG :: nat where "P_PRG \<equiv> 0xC000"

text \<open>\<open>param2_t\<close>: type, size, location, left shift and mask.\<close>

datatype param2_t = Par (par_type: nat) (par_size: nat) (par_loc: nat) (par_lshift: nat) (par_mask: u16)

datatype DSPOPCTemplate = OPC (op_name: string) (op_opcode: u16) (op_mask: u16)
  (op_intFunc: int_func) (op_size: u16) (op_param_count: nat) (op_params: "param2_t list")
  (op_extended: bool) (op_branch: bool) (op_uncond_branch: bool) (op_reads_pc: bool)
  (op_updates_sr: bool)

definition s_opcodes_flow :: "DSPOPCTemplate list" where
  "s_opcodes_flow = [
    OPC ''NOP'' 0x0000 0xfffc (F_misc I_nop) 1 0 [] False False False False False,
    OPC ''DAR'' 0x0004 0xfffc (F_misc I_dar) 1 1 [Par P_REG 1 0 0 0x0003] False False False False False,
    OPC ''IAR'' 0x0008 0xfffc (F_misc I_iar) 1 1 [Par P_REG 1 0 0 0x0003] False False False False False,
    OPC ''SUBARN'' 0x000c 0xfffc (F_misc I_subarn) 1 1 [Par P_REG 1 0 0 0x0003] False False False False False,
    OPC ''ADDARN'' 0x0010 0xfff0 (F_misc I_addarn) 1 2 [Par P_REG 1 0 0 0x0003, Par P_REG04 1 0 2 0x000c] False False False False False,
    OPC ''HALT'' 0x0021 0xffff (F_branch I_halt) 1 0 [] False True True False False,
    OPC ''RETGE'' 0x02d0 0xffff (F_branch I_ret) 1 0 [] False True False True False,
    OPC ''RETL'' 0x02d1 0xffff (F_branch I_ret) 1 0 [] False True False True False,
    OPC ''RETG'' 0x02d2 0xffff (F_branch I_ret) 1 0 [] False True False True False,
    OPC ''RETLE'' 0x02d3 0xffff (F_branch I_ret) 1 0 [] False True False True False,
    OPC ''RETNZ'' 0x02d4 0xffff (F_branch I_ret) 1 0 [] False True False True False,
    OPC ''RETZ'' 0x02d5 0xffff (F_branch I_ret) 1 0 [] False True False True False,
    OPC ''RETNC'' 0x02d6 0xffff (F_branch I_ret) 1 0 [] False True False True False,
    OPC ''RETC'' 0x02d7 0xffff (F_branch I_ret) 1 0 [] False True False True False,
    OPC ''RETx8'' 0x02d8 0xffff (F_branch I_ret) 1 0 [] False True False True False,
    OPC ''RETx9'' 0x02d9 0xffff (F_branch I_ret) 1 0 [] False True False True False,
    OPC ''RETxA'' 0x02da 0xffff (F_branch I_ret) 1 0 [] False True False True False,
    OPC ''RETxB'' 0x02db 0xffff (F_branch I_ret) 1 0 [] False True False True False,
    OPC ''RETLNZ'' 0x02dc 0xffff (F_branch I_ret) 1 0 [] False True False True False,
    OPC ''RETLZ'' 0x02dd 0xffff (F_branch I_ret) 1 0 [] False True False True False,
    OPC ''RETO'' 0x02de 0xffff (F_branch I_ret) 1 0 [] False True False True False,
    OPC ''RET'' 0x02df 0xffff (F_branch I_ret) 1 0 [] False True True False False,
    OPC ''RTI'' 0x02ff 0xffff (F_branch I_rti) 1 0 [] False True True False False,
    OPC ''CALLGE'' 0x02b0 0xffff (F_branch I_call) 2 1 [Par P_ADDR_I 2 1 0 0xffff] False True False True False,
    OPC ''CALLL'' 0x02b1 0xffff (F_branch I_call) 2 1 [Par P_ADDR_I 2 1 0 0xffff] False True False True False,
    OPC ''CALLG'' 0x02b2 0xffff (F_branch I_call) 2 1 [Par P_ADDR_I 2 1 0 0xffff] False True False True False,
    OPC ''CALLLE'' 0x02b3 0xffff (F_branch I_call) 2 1 [Par P_ADDR_I 2 1 0 0xffff] False True False True False,
    OPC ''CALLNZ'' 0x02b4 0xffff (F_branch I_call) 2 1 [Par P_ADDR_I 2 1 0 0xffff] False True False True False,
    OPC ''CALLZ'' 0x02b5 0xffff (F_branch I_call) 2 1 [Par P_ADDR_I 2 1 0 0xffff] False True False True False,
    OPC ''CALLNC'' 0x02b6 0xffff (F_branch I_call) 2 1 [Par P_ADDR_I 2 1 0 0xffff] False True False True False,
    OPC ''CALLC'' 0x02b7 0xffff (F_branch I_call) 2 1 [Par P_ADDR_I 2 1 0 0xffff] False True False True False,
    OPC ''CALLx8'' 0x02b8 0xffff (F_branch I_call) 2 1 [Par P_ADDR_I 2 1 0 0xffff] False True False True False,
    OPC ''CALLx9'' 0x02b9 0xffff (F_branch I_call) 2 1 [Par P_ADDR_I 2 1 0 0xffff] False True False True False,
    OPC ''CALLxA'' 0x02ba 0xffff (F_branch I_call) 2 1 [Par P_ADDR_I 2 1 0 0xffff] False True False True False,
    OPC ''CALLxB'' 0x02bb 0xffff (F_branch I_call) 2 1 [Par P_ADDR_I 2 1 0 0xffff] False True False True False,
    OPC ''CALLLNZ'' 0x02bc 0xffff (F_branch I_call) 2 1 [Par P_ADDR_I 2 1 0 0xffff] False True False True False,
    OPC ''CALLLZ'' 0x02bd 0xffff (F_branch I_call) 2 1 [Par P_ADDR_I 2 1 0 0xffff] False True False True False,
    OPC ''CALLO'' 0x02be 0xffff (F_branch I_call) 2 1 [Par P_ADDR_I 2 1 0 0xffff] False True False True False,
    OPC ''CALL'' 0x02bf 0xffff (F_branch I_call) 2 1 [Par P_ADDR_I 2 1 0 0xffff] False True True True False,
    OPC ''IFGE'' 0x0270 0xffff (F_branch I_ifcc) 1 0 [] False True False True False,
    OPC ''IFL'' 0x0271 0xffff (F_branch I_ifcc) 1 0 [] False True False True False,
    OPC ''IFG'' 0x0272 0xffff (F_branch I_ifcc) 1 0 [] False True False True False,
    OPC ''IFLE'' 0x0273 0xffff (F_branch I_ifcc) 1 0 [] False True False True False,
    OPC ''IFNZ'' 0x0274 0xffff (F_branch I_ifcc) 1 0 [] False True False True False,
    OPC ''IFZ'' 0x0275 0xffff (F_branch I_ifcc) 1 0 [] False True False True False,
    OPC ''IFNC'' 0x0276 0xffff (F_branch I_ifcc) 1 0 [] False True False True False,
    OPC ''IFC'' 0x0277 0xffff (F_branch I_ifcc) 1 0 [] False True False True False,
    OPC ''IFx8'' 0x0278 0xffff (F_branch I_ifcc) 1 0 [] False True False True False,
    OPC ''IFx9'' 0x0279 0xffff (F_branch I_ifcc) 1 0 [] False True False True False,
    OPC ''IFxA'' 0x027a 0xffff (F_branch I_ifcc) 1 0 [] False True False True False,
    OPC ''IFxB'' 0x027b 0xffff (F_branch I_ifcc) 1 0 [] False True False True False,
    OPC ''IFLNZ'' 0x027c 0xffff (F_branch I_ifcc) 1 0 [] False True False True False,
    OPC ''IFLZ'' 0x027d 0xffff (F_branch I_ifcc) 1 0 [] False True False True False,
    OPC ''IFO'' 0x027e 0xffff (F_branch I_ifcc) 1 0 [] False True False True False,
    OPC ''IF'' 0x027f 0xffff (F_branch I_ifcc) 1 0 [] False True True True False,
    OPC ''JGE'' 0x0290 0xffff (F_branch I_jcc) 2 1 [Par P_ADDR_I 2 1 0 0xffff] False True False True False,
    OPC ''JL'' 0x0291 0xffff (F_branch I_jcc) 2 1 [Par P_ADDR_I 2 1 0 0xffff] False True False True False,
    OPC ''JG'' 0x0292 0xffff (F_branch I_jcc) 2 1 [Par P_ADDR_I 2 1 0 0xffff] False True False True False,
    OPC ''JLE'' 0x0293 0xffff (F_branch I_jcc) 2 1 [Par P_ADDR_I 2 1 0 0xffff] False True False True False,
    OPC ''JNZ'' 0x0294 0xffff (F_branch I_jcc) 2 1 [Par P_ADDR_I 2 1 0 0xffff] False True False True False,
    OPC ''JZ'' 0x0295 0xffff (F_branch I_jcc) 2 1 [Par P_ADDR_I 2 1 0 0xffff] False True False True False,
    OPC ''JNC'' 0x0296 0xffff (F_branch I_jcc) 2 1 [Par P_ADDR_I 2 1 0 0xffff] False True False True False,
    OPC ''JC'' 0x0297 0xffff (F_branch I_jcc) 2 1 [Par P_ADDR_I 2 1 0 0xffff] False True False True False,
    OPC ''JMPx8'' 0x0298 0xffff (F_branch I_jcc) 2 1 [Par P_ADDR_I 2 1 0 0xffff] False True False True False,
    OPC ''JMPx9'' 0x0299 0xffff (F_branch I_jcc) 2 1 [Par P_ADDR_I 2 1 0 0xffff] False True False True False,
    OPC ''JMPxA'' 0x029a 0xffff (F_branch I_jcc) 2 1 [Par P_ADDR_I 2 1 0 0xffff] False True False True False,
    OPC ''JMPxB'' 0x029b 0xffff (F_branch I_jcc) 2 1 [Par P_ADDR_I 2 1 0 0xffff] False True False True False,
    OPC ''JLNZ'' 0x029c 0xffff (F_branch I_jcc) 2 1 [Par P_ADDR_I 2 1 0 0xffff] False True False True False,
    OPC ''JLZ'' 0x029d 0xffff (F_branch I_jcc) 2 1 [Par P_ADDR_I 2 1 0 0xffff] False True False True False,
    OPC ''JO'' 0x029e 0xffff (F_branch I_jcc) 2 1 [Par P_ADDR_I 2 1 0 0xffff] False True False True False,
    OPC ''JMP'' 0x029f 0xffff (F_branch I_jcc) 2 1 [Par P_ADDR_I 2 1 0 0xffff] False True True True False,
    OPC ''JRGE'' 0x1700 0xff1f (F_branch I_jmprcc) 1 1 [Par P_REG 1 0 5 0x00e0] False True False False False,
    OPC ''JRL'' 0x1701 0xff1f (F_branch I_jmprcc) 1 1 [Par P_REG 1 0 5 0x00e0] False True False False False,
    OPC ''JRG'' 0x1702 0xff1f (F_branch I_jmprcc) 1 1 [Par P_REG 1 0 5 0x00e0] False True False False False,
    OPC ''JRLE'' 0x1703 0xff1f (F_branch I_jmprcc) 1 1 [Par P_REG 1 0 5 0x00e0] False True False False False,
    OPC ''JRNZ'' 0x1704 0xff1f (F_branch I_jmprcc) 1 1 [Par P_REG 1 0 5 0x00e0] False True False False False,
    OPC ''JRZ'' 0x1705 0xff1f (F_branch I_jmprcc) 1 1 [Par P_REG 1 0 5 0x00e0] False True False False False,
    OPC ''JRNC'' 0x1706 0xff1f (F_branch I_jmprcc) 1 1 [Par P_REG 1 0 5 0x00e0] False True False False False,
    OPC ''JRC'' 0x1707 0xff1f (F_branch I_jmprcc) 1 1 [Par P_REG 1 0 5 0x00e0] False True False False False,
    OPC ''JMPRx8'' 0x1708 0xff1f (F_branch I_jmprcc) 1 1 [Par P_REG 1 0 5 0x00e0] False True False False False,
    OPC ''JMPRx9'' 0x1709 0xff1f (F_branch I_jmprcc) 1 1 [Par P_REG 1 0 5 0x00e0] False True False False False,
    OPC ''JMPRxA'' 0x170a 0xff1f (F_branch I_jmprcc) 1 1 [Par P_REG 1 0 5 0x00e0] False True False False False,
    OPC ''JMPRxB'' 0x170b 0xff1f (F_branch I_jmprcc) 1 1 [Par P_REG 1 0 5 0x00e0] False True False False False,
    OPC ''JRLNZ'' 0x170c 0xff1f (F_branch I_jmprcc) 1 1 [Par P_REG 1 0 5 0x00e0] False True False False False,
    OPC ''JRLZ'' 0x170d 0xff1f (F_branch I_jmprcc) 1 1 [Par P_REG 1 0 5 0x00e0] False True False False False,
    OPC ''JRO'' 0x170e 0xff1f (F_branch I_jmprcc) 1 1 [Par P_REG 1 0 5 0x00e0] False True False False False,
    OPC ''JMPR'' 0x170f 0xff1f (F_branch I_jmprcc) 1 1 [Par P_REG 1 0 5 0x00e0] False True True False False,
    OPC ''CALLRGE'' 0x1710 0xff1f (F_branch I_callr) 1 1 [Par P_REG 1 0 5 0x00e0] False True False True False,
    OPC ''CALLRL'' 0x1711 0xff1f (F_branch I_callr) 1 1 [Par P_REG 1 0 5 0x00e0] False True False True False,
    OPC ''CALLRG'' 0x1712 0xff1f (F_branch I_callr) 1 1 [Par P_REG 1 0 5 0x00e0] False True False True False,
    OPC ''CALLRLE'' 0x1713 0xff1f (F_branch I_callr) 1 1 [Par P_REG 1 0 5 0x00e0] False True False True False,
    OPC ''CALLRNZ'' 0x1714 0xff1f (F_branch I_callr) 1 1 [Par P_REG 1 0 5 0x00e0] False True False True False,
    OPC ''CALLRZ'' 0x1715 0xff1f (F_branch I_callr) 1 1 [Par P_REG 1 0 5 0x00e0] False True False True False,
    OPC ''CALLRNC'' 0x1716 0xff1f (F_branch I_callr) 1 1 [Par P_REG 1 0 5 0x00e0] False True False True False,
    OPC ''CALLRC'' 0x1717 0xff1f (F_branch I_callr) 1 1 [Par P_REG 1 0 5 0x00e0] False True False True False,
    OPC ''CALLRx8'' 0x1718 0xff1f (F_branch I_callr) 1 1 [Par P_REG 1 0 5 0x00e0] False True False True False,
    OPC ''CALLRx9'' 0x1719 0xff1f (F_branch I_callr) 1 1 [Par P_REG 1 0 5 0x00e0] False True False True False,
    OPC ''CALLRxA'' 0x171a 0xff1f (F_branch I_callr) 1 1 [Par P_REG 1 0 5 0x00e0] False True False True False,
    OPC ''CALLRxB'' 0x171b 0xff1f (F_branch I_callr) 1 1 [Par P_REG 1 0 5 0x00e0] False True False True False,
    OPC ''CALLRLNZ'' 0x171c 0xff1f (F_branch I_callr) 1 1 [Par P_REG 1 0 5 0x00e0] False True False True False,
    OPC ''CALLRLZ'' 0x171d 0xff1f (F_branch I_callr) 1 1 [Par P_REG 1 0 5 0x00e0] False True False True False,
    OPC ''CALLRO'' 0x171e 0xff1f (F_branch I_callr) 1 1 [Par P_REG 1 0 5 0x00e0] False True False True False,
    OPC ''CALLR'' 0x171f 0xff1f (F_branch I_callr) 1 1 [Par P_REG 1 0 5 0x00e0] False True True True False]"

definition s_opcodes_data :: "DSPOPCTemplate list" where
  "s_opcodes_data = [
    OPC ''SBCLR'' 0x1200 0xff00 (F_misc I_sbclr) 1 1 [Par P_IMM 1 0 0 0x0007] False False False False False,
    OPC ''SBSET'' 0x1300 0xff00 (F_misc I_sbset) 1 1 [Par P_IMM 1 0 0 0x0007] False False False False False,
    OPC ''LSL'' 0x1400 0xfec0 (F_arith I_lsl) 1 2 [Par P_ACC 1 0 8 0x0100, Par P_IMM 1 0 0 0x003f] False False False False True,
    OPC ''LSR'' 0x1440 0xfec0 (F_arith I_lsr) 1 2 [Par P_ACC 1 0 8 0x0100, Par P_IMM 1 0 0 0x003f] False False False False True,
    OPC ''ASL'' 0x1480 0xfec0 (F_arith I_asl) 1 2 [Par P_ACC 1 0 8 0x0100, Par P_IMM 1 0 0 0x003f] False False False False True,
    OPC ''ASR'' 0x14c0 0xfec0 (F_arith I_asr) 1 2 [Par P_ACC 1 0 8 0x0100, Par P_IMM 1 0 0 0x003f] False False False False True,
    OPC ''LSRN'' 0x02ca 0xffff (F_arith I_lsrn) 1 0 [] False False False False True,
    OPC ''ASRN'' 0x02cb 0xffff (F_arith I_asrn) 1 0 [] False False False False True,
    OPC ''LRI'' 0x0080 0xffe0 (F_misc I_lri) 2 2 [Par P_REG 1 0 0 0x001f, Par P_IMM 2 1 0 0xffff] False False False True False,
    OPC ''LR'' 0x00c0 0xffe0 (F_ls I_lr) 2 2 [Par P_REG 1 0 0 0x001f, Par P_MEM 2 1 0 0xffff] False False False True False,
    OPC ''SR'' 0x00e0 0xffe0 (F_ls I_sr) 2 2 [Par P_MEM 2 1 0 0xffff, Par P_REG 1 0 0 0x001f] False False False True False,
    OPC ''MRR'' 0x1c00 0xfc00 (F_misc I_mrr) 1 2 [Par P_REG 1 0 5 0x03e0, Par P_REG 1 0 0 0x001f] False False False False False,
    OPC ''SI'' 0x1600 0xff00 (F_ls I_si) 2 2 [Par P_MEM 1 0 0 0x00ff, Par P_IMM 2 1 0 0xffff] False False False True False,
    OPC ''ADDIS'' 0x0400 0xfe00 (F_arith I_addis) 1 2 [Par P_ACCM 1 0 8 0x0100, Par P_IMM 1 0 0 0x00ff] False False False False True,
    OPC ''CMPIS'' 0x0600 0xfe00 (F_arith I_cmpis) 1 2 [Par P_ACCM 1 0 8 0x0100, Par P_IMM 1 0 0 0x00ff] False False False False True,
    OPC ''LRIS'' 0x0800 0xf800 (F_misc I_lris) 1 2 [Par P_REG18 1 0 8 0x0700, Par P_IMM 1 0 0 0x00ff] False False False False True,
    OPC ''ADDI'' 0x0200 0xfeff (F_arith I_addi) 2 2 [Par P_ACCM 1 0 8 0x0100, Par P_IMM 2 1 0 0xffff] False False False True True,
    OPC ''XORI'' 0x0220 0xfeff (F_arith I_xori) 2 2 [Par P_ACCM 1 0 8 0x0100, Par P_IMM 2 1 0 0xffff] False False False True True,
    OPC ''ANDI'' 0x0240 0xfeff (F_arith I_andi) 2 2 [Par P_ACCM 1 0 8 0x0100, Par P_IMM 2 1 0 0xffff] False False False True True,
    OPC ''ORI'' 0x0260 0xfeff (F_arith I_ori) 2 2 [Par P_ACCM 1 0 8 0x0100, Par P_IMM 2 1 0 0xffff] False False False True True,
    OPC ''CMPI'' 0x0280 0xfeff (F_arith I_cmpi) 2 2 [Par P_ACCM 1 0 8 0x0100, Par P_IMM 2 1 0 0xffff] False False False True True,
    OPC ''ANDF'' 0x02a0 0xfeff (F_arith I_andf) 2 2 [Par P_ACCM 1 0 8 0x0100, Par P_IMM 2 1 0 0xffff] False False False True True,
    OPC ''ANDCF'' 0x02c0 0xfeff (F_arith I_andcf) 2 2 [Par P_ACCM 1 0 8 0x0100, Par P_IMM 2 1 0 0xffff] False False False True True,
    OPC ''ILRR'' 0x0210 0xfefc (F_ls I_ilrr) 1 2 [Par P_ACCM 1 0 8 0x0100, Par P_PRG 1 0 0 0x0003] False False False False False,
    OPC ''ILRRD'' 0x0214 0xfefc (F_ls I_ilrrd) 1 2 [Par P_ACCM 1 0 8 0x0100, Par P_PRG 1 0 0 0x0003] False False False False False,
    OPC ''ILRRI'' 0x0218 0xfefc (F_ls I_ilrri) 1 2 [Par P_ACCM 1 0 8 0x0100, Par P_PRG 1 0 0 0x0003] False False False False False,
    OPC ''ILRRN'' 0x021c 0xfefc (F_ls I_ilrrn) 1 2 [Par P_ACCM 1 0 8 0x0100, Par P_PRG 1 0 0 0x0003] False False False False False,
    OPC ''LOOP'' 0x0040 0xffe0 (F_branch I_loop) 1 1 [Par P_REG 1 0 0 0x001f] False True True True False,
    OPC ''BLOOP'' 0x0060 0xffe0 (F_branch I_bloop) 2 2 [Par P_REG 1 0 0 0x001f, Par P_ADDR_I 2 1 0 0xffff] False True True True False,
    OPC ''LOOPI'' 0x1000 0xff00 (F_branch I_loopi) 1 1 [Par P_IMM 1 0 0 0x00ff] False True True True False,
    OPC ''BLOOPI'' 0x1100 0xff00 (F_branch I_bloopi) 2 2 [Par P_IMM 1 0 0 0x00ff, Par P_ADDR_I 2 1 0 0xffff] False True True True False,
    OPC ''LRR'' 0x1800 0xff80 (F_ls I_lrr) 1 2 [Par P_REG 1 0 0 0x001f, Par P_PRG 1 0 5 0x0060] False False False False False,
    OPC ''LRRD'' 0x1880 0xff80 (F_ls I_lrrd) 1 2 [Par P_REG 1 0 0 0x001f, Par P_PRG 1 0 5 0x0060] False False False False False,
    OPC ''LRRI'' 0x1900 0xff80 (F_ls I_lrri) 1 2 [Par P_REG 1 0 0 0x001f, Par P_PRG 1 0 5 0x0060] False False False False False,
    OPC ''LRRN'' 0x1980 0xff80 (F_ls I_lrrn) 1 2 [Par P_REG 1 0 0 0x001f, Par P_PRG 1 0 5 0x0060] False False False False False,
    OPC ''SRR'' 0x1a00 0xff80 (F_ls I_srr) 1 2 [Par P_PRG 1 0 5 0x0060, Par P_REG 1 0 0 0x001f] False False False False False,
    OPC ''SRRD'' 0x1a80 0xff80 (F_ls I_srrd) 1 2 [Par P_PRG 1 0 5 0x0060, Par P_REG 1 0 0 0x001f] False False False False False,
    OPC ''SRRI'' 0x1b00 0xff80 (F_ls I_srri) 1 2 [Par P_PRG 1 0 5 0x0060, Par P_REG 1 0 0 0x001f] False False False False False,
    OPC ''SRRN'' 0x1b80 0xff80 (F_ls I_srrn) 1 2 [Par P_PRG 1 0 5 0x0060, Par P_REG 1 0 0 0x001f] False False False False False,
    OPC ''LRS'' 0x2000 0xf800 (F_ls I_lrs) 1 2 [Par P_REG18 1 0 8 0x0700, Par P_MEM 1 0 0 0x00ff] False False False False False,
    OPC ''SRS'' 0x2800 0xf800 (F_ls I_srs) 1 2 [Par P_MEM 1 0 0 0x00ff, Par P_REG18 1 0 8 0x0700] False False False False False]"

definition s_opcodes_extendable :: "DSPOPCTemplate list" where
  "s_opcodes_extendable = [
    OPC ''XORR'' 0x3000 0xfc80 (F_arith I_xorr) 1 2 [Par P_ACCM 1 0 8 0x0100, Par P_REG1A 1 0 9 0x0200] True False False False True,
    OPC ''ANDR'' 0x3400 0xfc80 (F_arith I_andr) 1 2 [Par P_ACCM 1 0 8 0x0100, Par P_REG1A 1 0 9 0x0200] True False False False True,
    OPC ''ORR'' 0x3800 0xfc80 (F_arith I_orr) 1 2 [Par P_ACCM 1 0 8 0x0100, Par P_REG1A 1 0 9 0x0200] True False False False True,
    OPC ''ANDC'' 0x3c00 0xfe80 (F_arith I_andc) 1 2 [Par P_ACCM 1 0 8 0x0100, Par P_ACCM_D 1 0 8 0x0100] True False False False True,
    OPC ''ORC'' 0x3e00 0xfe80 (F_arith I_orc) 1 2 [Par P_ACCM 1 0 8 0x0100, Par P_ACCM_D 1 0 8 0x0100] True False False False True,
    OPC ''XORC'' 0x3080 0xfe80 (F_arith I_xorc) 1 2 [Par P_ACCM 1 0 8 0x0100, Par P_ACCM_D 1 0 8 0x0100] True False False False True,
    OPC ''NOT'' 0x3280 0xfe80 (F_arith I_notc) 1 1 [Par P_ACCM 1 0 8 0x0100] True False False False True,
    OPC ''LSRNRX'' 0x3480 0xfc80 (F_arith I_lsrnrx) 1 2 [Par P_ACC 1 0 8 0x0100, Par P_REG1A 1 0 9 0x0200] True False False False True,
    OPC ''ASRNRX'' 0x3880 0xfc80 (F_arith I_asrnrx) 1 2 [Par P_ACC 1 0 8 0x0100, Par P_REG1A 1 0 9 0x0200] True False False False True,
    OPC ''LSRNR'' 0x3c80 0xfe80 (F_arith I_lsrnr) 1 2 [Par P_ACC 1 0 8 0x0100, Par P_ACCM_D 1 0 8 0x0100] True False False False True,
    OPC ''ASRNR'' 0x3e80 0xfe80 (F_arith I_asrnr) 1 2 [Par P_ACC 1 0 8 0x0100, Par P_ACCM_D 1 0 8 0x0100] True False False False True,
    OPC ''ADDR'' 0x4000 0xf800 (F_arith I_addr) 1 2 [Par P_ACC 1 0 8 0x0100, Par P_REG18 1 0 9 0x0600] True False False False True,
    OPC ''ADDAX'' 0x4800 0xfc00 (F_arith I_addax) 1 2 [Par P_ACC 1 0 8 0x0100, Par P_AX 1 0 9 0x0200] True False False False True,
    OPC ''ADD'' 0x4c00 0xfe00 (F_arith I_add) 1 2 [Par P_ACC 1 0 8 0x0100, Par P_ACC_D 1 0 8 0x0100] True False False False True,
    OPC ''ADDP'' 0x4e00 0xfe00 (F_arith I_addp) 1 1 [Par P_ACC 1 0 8 0x0100] True False False False True,
    OPC ''SUBR'' 0x5000 0xf800 (F_arith I_subr) 1 2 [Par P_ACC 1 0 8 0x0100, Par P_REG18 1 0 9 0x0600] True False False False True,
    OPC ''SUBAX'' 0x5800 0xfc00 (F_arith I_subax) 1 2 [Par P_ACC 1 0 8 0x0100, Par P_AX 1 0 9 0x0200] True False False False True,
    OPC ''SUB'' 0x5c00 0xfe00 (F_arith I_sub) 1 2 [Par P_ACC 1 0 8 0x0100, Par P_ACC_D 1 0 8 0x0100] True False False False True,
    OPC ''SUBP'' 0x5e00 0xfe00 (F_arith I_subp) 1 1 [Par P_ACC 1 0 8 0x0100] True False False False True,
    OPC ''MOVR'' 0x6000 0xf800 (F_arith I_movr) 1 2 [Par P_ACC 1 0 8 0x0100, Par P_REG18 1 0 9 0x0600] True False False False True,
    OPC ''MOVAX'' 0x6800 0xfc00 (F_arith I_movax) 1 2 [Par P_ACC 1 0 8 0x0100, Par P_AX 1 0 9 0x0200] True False False False True,
    OPC ''MOV'' 0x6c00 0xfe00 (F_arith I_mov) 1 2 [Par P_ACC 1 0 8 0x0100, Par P_ACC_D 1 0 8 0x0100] True False False False True,
    OPC ''MOVP'' 0x6e00 0xfe00 (F_mult I_movp) 1 1 [Par P_ACC 1 0 8 0x0100] True False False False True,
    OPC ''ADDAXL'' 0x7000 0xfc00 (F_arith I_addaxl) 1 2 [Par P_ACC 1 0 8 0x0100, Par P_REG18 1 0 9 0x0200] True False False False True,
    OPC ''INCM'' 0x7400 0xfe00 (F_arith I_incm) 1 1 [Par P_ACCM 1 0 8 0x0100] True False False False True,
    OPC ''INC'' 0x7600 0xfe00 (F_arith I_inc) 1 1 [Par P_ACC 1 0 8 0x0100] True False False False True,
    OPC ''DECM'' 0x7800 0xfe00 (F_arith I_decm) 1 1 [Par P_ACCM 1 0 8 0x0100] True False False False True,
    OPC ''DEC'' 0x7a00 0xfe00 (F_arith I_dec) 1 1 [Par P_ACC 1 0 8 0x0100] True False False False True,
    OPC ''NEG'' 0x7c00 0xfe00 (F_arith I_neg) 1 1 [Par P_ACC 1 0 8 0x0100] True False False False True,
    OPC ''MOVNP'' 0x7e00 0xfe00 (F_mult I_movnp) 1 1 [Par P_ACC 1 0 8 0x0100] True False False False True,
    OPC ''NX'' 0x8000 0xf700 (F_misc I_nx) 1 0 [] True False False False False,
    OPC ''CLR'' 0x8100 0xf700 (F_arith I_clr) 1 1 [Par P_ACC 1 0 11 0x0800] True False False False True,
    OPC ''CMP'' 0x8200 0xff00 (F_arith I_cmp) 1 0 [] True False False False True,
    OPC ''MULAXH'' 0x8300 0xff00 (F_mult I_mulaxh) 1 0 [] True False False False True,
    OPC ''CLRP'' 0x8400 0xff00 (F_mult I_clrp) 1 0 [] True False False False True,
    OPC ''TSTPROD'' 0x8500 0xff00 (F_mult I_tstprod) 1 0 [] True False False False True,
    OPC ''TSTAXH'' 0x8600 0xfe00 (F_arith I_tstaxh) 1 1 [Par P_REG1A 1 0 8 0x0100] True False False False True,
    OPC ''M2'' 0x8a00 0xff00 (F_misc I_srbith) 1 0 [] True False False False False,
    OPC ''M0'' 0x8b00 0xff00 (F_misc I_srbith) 1 0 [] True False False False False,
    OPC ''CLR15'' 0x8c00 0xff00 (F_misc I_srbith) 1 0 [] True False False False False,
    OPC ''SET15'' 0x8d00 0xff00 (F_misc I_srbith) 1 0 [] True False False False False,
    OPC ''SET16'' 0x8e00 0xff00 (F_misc I_srbith) 1 0 [] True False False False False,
    OPC ''SET40'' 0x8f00 0xff00 (F_misc I_srbith) 1 0 [] True False False False False,
    OPC ''MUL'' 0x9000 0xf700 (F_mult I_mul) 1 2 [Par P_REG18 1 0 11 0x0800, Par P_REG1A 1 0 11 0x0800] True False False False True,
    OPC ''ASR16'' 0x9100 0xf700 (F_arith I_asr16) 1 1 [Par P_ACC 1 0 11 0x0800] True False False False True,
    OPC ''MULMVZ'' 0x9200 0xf600 (F_mult I_mulmvz) 1 3 [Par P_REG18 1 0 11 0x0800, Par P_REG1A 1 0 11 0x0800, Par P_ACC 1 0 8 0x0100] True False False False True,
    OPC ''MULAC'' 0x9400 0xf600 (F_mult I_mulac) 1 3 [Par P_REG18 1 0 11 0x0800, Par P_REG1A 1 0 11 0x0800, Par P_ACC 1 0 8 0x0100] True False False False True,
    OPC ''MULMV'' 0x9600 0xf600 (F_mult I_mulmv) 1 3 [Par P_REG18 1 0 11 0x0800, Par P_REG1A 1 0 11 0x0800, Par P_ACC 1 0 8 0x0100] True False False False True,
    OPC ''MULX'' 0xa000 0xe700 (F_mult I_mulx) 1 2 [Par P_REGM18 1 0 11 0x1000, Par P_REGM19 1 0 10 0x0800] True False False False True,
    OPC ''ABS'' 0xa100 0xf700 (F_arith I_abs) 1 1 [Par P_ACC 1 0 11 0x0800] True False False False True,
    OPC ''MULXMVZ'' 0xa200 0xe600 (F_mult I_mulxmvz) 1 3 [Par P_REGM18 1 0 11 0x1000, Par P_REGM19 1 0 10 0x0800, Par P_ACC 1 0 8 0x0100] True False False False True,
    OPC ''MULXAC'' 0xa400 0xe600 (F_mult I_mulxac) 1 3 [Par P_REGM18 1 0 11 0x1000, Par P_REGM19 1 0 10 0x0800, Par P_ACC 1 0 8 0x0100] True False False False True,
    OPC ''MULXMV'' 0xa600 0xe600 (F_mult I_mulxmv) 1 3 [Par P_REGM18 1 0 11 0x1000, Par P_REGM19 1 0 10 0x0800, Par P_ACC 1 0 8 0x0100] True False False False True,
    OPC ''TST'' 0xb100 0xf700 (F_arith I_tst) 1 1 [Par P_ACC 1 0 11 0x0800] True False False False True,
    OPC ''MULC'' 0xc000 0xe700 (F_mult I_mulc) 1 2 [Par P_ACCM 1 0 12 0x1000, Par P_REG1A 1 0 11 0x0800] True False False False True,
    OPC ''CMPAR'' 0xc100 0xe700 (F_arith I_cmpar) 1 2 [Par P_ACC 1 0 11 0x0800, Par P_REG1A 1 0 12 0x1000] True False False False True,
    OPC ''MULCMVZ'' 0xc200 0xe600 (F_mult I_mulcmvz) 1 3 [Par P_ACCM 1 0 12 0x1000, Par P_REG1A 1 0 11 0x0800, Par P_ACC 1 0 8 0x0100] True False False False True,
    OPC ''MULCAC'' 0xc400 0xe600 (F_mult I_mulcac) 1 3 [Par P_ACCM 1 0 12 0x1000, Par P_REG1A 1 0 11 0x0800, Par P_ACC 1 0 8 0x0100] True False False False True,
    OPC ''MULCMV'' 0xc600 0xe600 (F_mult I_mulcmv) 1 3 [Par P_ACCM 1 0 12 0x1000, Par P_REG1A 1 0 11 0x0800, Par P_ACC 1 0 8 0x0100] True False False False True,
    OPC ''MADDX'' 0xe000 0xfc00 (F_mult I_maddx) 1 2 [Par P_REGM18 1 0 8 0x0200, Par P_REGM19 1 0 7 0x0100] True False False False True,
    OPC ''MSUBX'' 0xe400 0xfc00 (F_mult I_msubx) 1 2 [Par P_REGM18 1 0 8 0x0200, Par P_REGM19 1 0 7 0x0100] True False False False True,
    OPC ''MADDC'' 0xe800 0xfc00 (F_mult I_maddc) 1 2 [Par P_ACCM 1 0 9 0x0200, Par P_REG19 1 0 7 0x0100] True False False False True,
    OPC ''MSUBC'' 0xec00 0xfc00 (F_mult I_msubc) 1 2 [Par P_ACCM 1 0 9 0x0200, Par P_REG19 1 0 7 0x0100] True False False False True,
    OPC ''LSL16'' 0xf000 0xfe00 (F_arith I_lsl16) 1 1 [Par P_ACC 1 0 8 0x0100] True False False False True,
    OPC ''MADD'' 0xf200 0xfe00 (F_mult I_madd) 1 2 [Par P_REG18 1 0 8 0x0100, Par P_REG1A 1 0 8 0x0100] True False False False True,
    OPC ''LSR16'' 0xf400 0xfe00 (F_arith I_lsr16) 1 1 [Par P_ACC 1 0 8 0x0100] True False False False True,
    OPC ''MSUB'' 0xf600 0xfe00 (F_mult I_msub) 1 2 [Par P_REG18 1 0 8 0x0100, Par P_REG1A 1 0 8 0x0100] True False False False True,
    OPC ''ADDPAXZ'' 0xf800 0xfc00 (F_mult I_addpaxz) 1 2 [Par P_ACC 1 0 9 0x0200, Par P_AX 1 0 8 0x0100] True False False False True,
    OPC ''CLRL'' 0xfc00 0xfe00 (F_arith I_clrl) 1 1 [Par P_ACCL 1 0 11 0x0800] True False False False True,
    OPC ''MOVPZ'' 0xfe00 0xfe00 (F_mult I_movpz) 1 1 [Par P_ACC 1 0 8 0x0100] True False False False True]"

definition s_opcodes :: "DSPOPCTemplate list" where
  "s_opcodes = s_opcodes_flow @ s_opcodes_data @ s_opcodes_extendable"

definition cw :: DSPOPCTemplate where
  "cw = OPC ''CW'' 0x0000 0x0000 (F_misc I_nop) 1 1 [Par P_VAL 2 0 0 0xffff] False False False False False"

definition s_opcodes_ext :: "DSPOPCTemplate list" where
  "s_opcodes_ext = [
    OPC ''XXX'' 0x0000 0x00fc (F_ext E_nop) 1 1 [Par P_VAL 1 0 0 0x00ff] False False False False False,
    OPC ''DR'' 0x0004 0x00fc (F_ext E_dr) 1 1 [Par P_REG 1 0 0 0x0003] False False False False False,
    OPC ''IR'' 0x0008 0x00fc (F_ext E_ir) 1 1 [Par P_REG 1 0 0 0x0003] False False False False False,
    OPC ''NR'' 0x000c 0x00fc (F_ext E_nr) 1 1 [Par P_REG 1 0 0 0x0003] False False False False False,
    OPC ''MV'' 0x0010 0x00f0 (F_ext E_mv) 1 2 [Par P_REG18 1 0 2 0x000c, Par P_REG1C 1 0 0 0x0003] False False False False False,
    OPC ''S'' 0x0020 0x00e4 (F_ext E_s) 1 2 [Par P_PRG 1 0 0 0x0003, Par P_REG1C 1 0 3 0x0018] False False False False False,
    OPC ''SN'' 0x0024 0x00e4 (F_ext E_sn) 1 2 [Par P_PRG 1 0 0 0x0003, Par P_REG1C 1 0 3 0x0018] False False False False False,
    OPC ''L'' 0x0040 0x00c4 (F_ext E_l) 1 2 [Par P_REG18 1 0 3 0x0038, Par P_PRG 1 0 0 0x0003] False False False False False,
    OPC ''LN'' 0x0044 0x00c4 (F_ext E_ln) 1 2 [Par P_REG18 1 0 3 0x0038, Par P_PRG 1 0 0 0x0003] False False False False False,
    OPC ''LS'' 0x0080 0x00ce (F_ext E_ls) 1 2 [Par P_REG18 1 0 4 0x0030, Par P_ACCM 1 0 0 0x0001] False False False False False,
    OPC ''SL'' 0x0082 0x00ce (F_ext E_sl) 1 2 [Par P_ACCM 1 0 0 0x0001, Par P_REG18 1 0 4 0x0030] False False False False False,
    OPC ''LSN'' 0x0084 0x00ce (F_ext E_lsn) 1 2 [Par P_REG18 1 0 4 0x0030, Par P_ACCM 1 0 0 0x0001] False False False False False,
    OPC ''SLN'' 0x0086 0x00ce (F_ext E_sln) 1 2 [Par P_ACCM 1 0 0 0x0001, Par P_REG18 1 0 4 0x0030] False False False False False,
    OPC ''LSM'' 0x0088 0x00ce (F_ext E_lsm) 1 2 [Par P_REG18 1 0 4 0x0030, Par P_ACCM 1 0 0 0x0001] False False False False False,
    OPC ''SLM'' 0x008a 0x00ce (F_ext E_slm) 1 2 [Par P_ACCM 1 0 0 0x0001, Par P_REG18 1 0 4 0x0030] False False False False False,
    OPC ''LSNM'' 0x008c 0x00ce (F_ext E_lsnm) 1 2 [Par P_REG18 1 0 4 0x0030, Par P_ACCM 1 0 0 0x0001] False False False False False,
    OPC ''SLNM'' 0x008e 0x00ce (F_ext E_slnm) 1 2 [Par P_ACCM 1 0 0 0x0001, Par P_REG18 1 0 4 0x0030] False False False False False,
    OPC ''LDAX'' 0x00c3 0x00cf (F_ext E_ldax) 1 2 [Par P_AX 1 0 4 0x0010, Par P_PRG 1 0 5 0x0020] False False False False False,
    OPC ''LDAXN'' 0x00c7 0x00cf (F_ext E_ldaxn) 1 2 [Par P_AX 1 0 4 0x0010, Par P_PRG 1 0 5 0x0020] False False False False False,
    OPC ''LDAXM'' 0x00cb 0x00cf (F_ext E_ldaxm) 1 2 [Par P_AX 1 0 4 0x0010, Par P_PRG 1 0 5 0x0020] False False False False False,
    OPC ''LDAXNM'' 0x00cf 0x00cf (F_ext E_ldaxnm) 1 2 [Par P_AX 1 0 4 0x0010, Par P_PRG 1 0 5 0x0020] False False False False False,
    OPC ''LD'' 0x00c0 0x00cc (F_ext E_ld) 1 3 [Par P_REGM18 1 0 4 0x0020, Par P_REGM19 1 0 3 0x0010, Par P_PRG 1 0 0 0x0003] False False False False False,
    OPC ''LDN'' 0x00c4 0x00cc (F_ext E_ldn) 1 3 [Par P_REGM18 1 0 4 0x0020, Par P_REGM19 1 0 3 0x0010, Par P_PRG 1 0 0 0x0003] False False False False False,
    OPC ''LDM'' 0x00c8 0x00cc (F_ext E_ldm) 1 3 [Par P_REGM18 1 0 4 0x0020, Par P_REGM19 1 0 3 0x0010, Par P_PRG 1 0 0 0x0003] False False False False False,
    OPC ''LDNM'' 0x00cc 0x00cc (F_ext E_ldnm) 1 3 [Par P_REGM18 1 0 4 0x0020, Par P_REGM19 1 0 3 0x0010, Par P_PRG 1 0 0 0x0003] False False False False False]"

subsection \<open>Labels\<close>

text \<open>\<open>pdlabel_t\<close>: address, name and description (\<^verbatim>\<open>nullptr\<close> is \<open>None\<close>).\<close>

type_synonym pdlabel_t = "u16 \<times> string \<times> string option"

definition pdlabels :: "pdlabel_t list" where
  "pdlabels = [
    (0xffa0, ''COEF_A1_0'', Some ''COEF_A1_0''), (0xffa1, ''COEF_A2_0'', Some ''COEF_A2_0''),
    (0xffa2, ''COEF_A1_1'', Some ''COEF_A1_1''), (0xffa3, ''COEF_A2_1'', Some ''COEF_A2_1''),
    (0xffa4, ''COEF_A1_2'', Some ''COEF_A1_2''), (0xffa5, ''COEF_A2_2'', Some ''COEF_A2_2''),
    (0xffa6, ''COEF_A1_3'', Some ''COEF_A1_3''), (0xffa7, ''COEF_A2_3'', Some ''COEF_A2_3''),
    (0xffa8, ''COEF_A1_4'', Some ''COEF_A1_4''), (0xffa9, ''COEF_A2_4'', Some ''COEF_A2_4''),
    (0xffaa, ''COEF_A1_5'', Some ''COEF_A1_5''), (0xffab, ''COEF_A2_5'', Some ''COEF_A2_5''),
    (0xffac, ''COEF_A1_6'', Some ''COEF_A1_6''), (0xffad, ''COEF_A2_6'', Some ''COEF_A2_6''),
    (0xffae, ''COEF_A1_7'', Some ''COEF_A1_7''), (0xffaf, ''COEF_A2_7'', Some ''COEF_A2_7''),
    (0xffb0, ''0xffb0'', None), (0xffb1, ''0xffb1'', None),
    (0xffb2, ''0xffb2'', None), (0xffb3, ''0xffb3'', None),
    (0xffb4, ''0xffb4'', None), (0xffb5, ''0xffb5'', None),
    (0xffb6, ''0xffb6'', None), (0xffb7, ''0xffb7'', None),
    (0xffb8, ''0xffb8'', None), (0xffb9, ''0xffb9'', None),
    (0xffba, ''0xffba'', None), (0xffbb, ''0xffbb'', None),
    (0xffbc, ''0xffbc'', None), (0xffbd, ''0xffbd'', None),
    (0xffbe, ''0xffbe'', None), (0xffbf, ''0xffbf'', None),
    (0xffc0, ''0xffc0'', None), (0xffc1, ''0xffc1'', None),
    (0xffc2, ''0xffc2'', None), (0xffc3, ''0xffc3'', None),
    (0xffc4, ''0xffc4'', None), (0xffc5, ''0xffc5'', None),
    (0xffc6, ''0xffc6'', None), (0xffc7, ''0xffc7'', None),
    (0xffc8, ''0xffc8'', None), (0xffc9, ''DSCR'', Some ''DSP DMA Control Reg''),
    (0xffca, ''0xffca'', None), (0xffcb, ''DSBL'', Some ''DSP DMA Block Length''),
    (0xffcc, ''0xffcc'', None), (0xffcd, ''DSPA'', Some ''DSP DMA DMEM Address''),
    (0xffce, ''DSMAH'', Some ''DSP DMA Mem Address H''), (0xffcf, ''DSMAL'', Some ''DSP DMA Mem Address L''),
    (0xffd0, ''0xffd0'', None), (0xffd1, ''SampleFormat'', Some ''SampleFormat''),
    (0xffd2, ''0xffd2'', None), (0xffd3, ''UnkZelda'', Some ''Unk Zelda reads/writes from/to it''),
    (0xffd4, ''ACSAH'', Some ''Accelerator start address H''), (0xffd5, ''ACSAL'', Some ''Accelerator start address L''),
    (0xffd6, ''ACEAH'', Some ''Accelerator end address H''), (0xffd7, ''ACEAL'', Some ''Accelerator end address L''),
    (0xffd8, ''ACCAH'', Some ''Accelerator current address H''), (0xffd9, ''ACCAL'', Some ''Accelerator current address L''),
    (0xffda, ''pred_scale'', Some ''pred_scale''), (0xffdb, ''yn1'', Some ''yn1''),
    (0xffdc, ''yn2'', Some ''yn2''), (0xffdd, ''ARAM'', Some ''Direct Read from ARAM (uses ADPCM)''),
    (0xffde, ''GAIN'', Some ''Gain''), (0xffdf, ''0xffdf'', None),
    (0xffe0, ''0xffe0'', None), (0xffe1, ''0xffe1'', None),
    (0xffe2, ''0xffe2'', None), (0xffe3, ''0xffe3'', None),
    (0xffe4, ''0xffe4'', None), (0xffe5, ''0xffe5'', None),
    (0xffe6, ''0xffe6'', None), (0xffe7, ''0xffe7'', None),
    (0xffe8, ''0xffe8'', None), (0xffe9, ''0xffe9'', None),
    (0xffea, ''0xffea'', None), (0xffeb, ''0xffeb'', None),
    (0xffec, ''0xffec'', None), (0xffed, ''0xffed'', None),
    (0xffee, ''0xffee'', None), (0xffef, ''AMDM'', Some ''ARAM DMA Request Mask''),
    (0xfff0, ''0xfff0'', None), (0xfff1, ''0xfff1'', None),
    (0xfff2, ''0xfff2'', None), (0xfff3, ''0xfff3'', None),
    (0xfff4, ''0xfff4'', None), (0xfff5, ''0xfff5'', None),
    (0xfff6, ''0xfff6'', None), (0xfff7, ''0xfff7'', None),
    (0xfff8, ''0xfff8'', None), (0xfff9, ''0xfff9'', None),
    (0xfffa, ''0xfffa'', None), (0xfffb, ''DIRQ'', Some ''DSP IRQ Request''),
    (0xfffc, ''DMBH'', Some ''DSP Mailbox H''), (0xfffd, ''DMBL'', Some ''DSP Mailbox L''),
    (0xfffe, ''CMBH'', Some ''CPU Mailbox H''), (0xffff, ''CMBL'', Some ''CPU Mailbox L'')]"

definition regnames :: "(u16 \<times> string \<times> string) list" where
  "regnames = [
    (0x00, ''AR0'', ''Addr Reg 00''), (0x01, ''AR1'', ''Addr Reg 01''),
    (0x02, ''AR2'', ''Addr Reg 02''), (0x03, ''AR3'', ''Addr Reg 03''),
    (0x04, ''IX0'', ''Index Reg 0''), (0x05, ''IX1'', ''Index Reg 1''),
    (0x06, ''IX2'', ''Index Reg 2''), (0x07, ''IX3'', ''Index Reg 3''),
    (0x08, ''WR0'', ''Wrapping Register 0''), (0x09, ''WR1'', ''Wrapping Register 1''),
    (0x0a, ''WR2'', ''Wrapping Register 2''), (0x0b, ''WR3'', ''Wrapping Register 3''),
    (0x0c, ''ST0'', ''Call stack''), (0x0d, ''ST1'', ''Data stack''),
    (0x0e, ''ST2'', ''Loop addr stack''), (0x0f, ''ST3'', ''Loop counter''),
    (0x10, ''AC0.H'', ''Accu High 0''), (0x11, ''AC1.H'', ''Accu High 1''),
    (0x12, ''CR'', ''Config Register''), (0x13, ''SR'', ''Special Register''),
    (0x14, ''PROD.L'', ''Prod L''), (0x15, ''PROD.M1'', ''Prod M1''),
    (0x16, ''PROD.H'', ''Prod H''), (0x17, ''PROD.M2'', ''Prod M2''),
    (0x18, ''AX0.L'', ''Extra Accu L 0''), (0x19, ''AX1.L'', ''Extra Accu L 1''),
    (0x1a, ''AX0.H'', ''Extra Accu H 0''), (0x1b, ''AX1.H'', ''Extra Accu H 1''),
    (0x1c, ''AC0.L'', ''Accu Low 0''), (0x1d, ''AC1.L'', ''Accu Low 1''),
    (0x1e, ''AC0.M'', ''Accu Mid 0''), (0x1f, ''AC1.M'', ''Accu Mid 1''),
    (0x20, ''ACC0'', ''Accu Full 0''), (0x21, ''ACC1'', ''Accu Full 1''),
    (0x22, ''AX0'', ''Extra Accu 0''), (0x23, ''AX1'', ''Extra Accu 1'')]"

text \<open>\<^verbatim>\<open>sprintf(tmpstr, "0x%04x", val)\<close>.\<close>

definition hex_digit :: "nat \<Rightarrow> char" where
  "hex_digit n = ''0123456789abcdef'' ! n"

definition hex4 :: "u16 \<Rightarrow> string" where
  "hex4 v = map (\<lambda>k. hex_digit (unat (drop_bit (4 * k) v AND 0xF))) [3, 2, 1, 0]"

definition pdname :: "u16 \<Rightarrow> string" where
  "pdname val = (case List.find (\<lambda>(a, _, _). a = val) pdlabels of
       Some (_, name, _) \<Rightarrow> name
     | None \<Rightarrow> ''0x'' @ hex4 val)"

definition pdregname :: "nat \<Rightarrow> string option" where
  "pdregname val = (if val < length regnames then Some (fst (snd (regnames ! val))) else None)"

definition pdregnamelong :: "nat \<Rightarrow> string option" where
  "pdregnamelong val = (if val < length regnames then Some (snd (snd (regnames ! val))) else None)"

subsection \<open>Lookup\<close>

definition op_matches :: "UDSPInstruction \<Rightarrow> DSPOPCTemplate \<Rightarrow> bool" where
  "op_matches opcode info \<longleftrightarrow> opcode AND op_mask info = op_opcode info"

definition FindByOpcode :: "UDSPInstruction \<Rightarrow> DSPOPCTemplate list \<Rightarrow> DSPOPCTemplate option" where
  "FindByOpcode opcode data = List.find (op_matches opcode) data"

definition FindByName :: "string \<Rightarrow> DSPOPCTemplate list \<Rightarrow> DSPOPCTemplate option" where
  "FindByName name data = List.find (\<lambda>info. name = op_name info) data"

definition FindOpInfoByOpcode :: "UDSPInstruction \<Rightarrow> DSPOPCTemplate option" where
  "FindOpInfoByOpcode opcode = FindByOpcode opcode s_opcodes"

definition FindOpInfoByName :: "string \<Rightarrow> DSPOPCTemplate option" where
  "FindOpInfoByName name = FindByName name s_opcodes"

definition FindExtOpInfoByOpcode :: "UDSPInstruction \<Rightarrow> DSPOPCTemplate option" where
  "FindExtOpInfoByOpcode opcode = FindByOpcode opcode s_opcodes_ext"

definition FindExtOpInfoByName :: "string \<Rightarrow> DSPOPCTemplate option" where
  "FindExtOpInfoByName name = FindByName name s_opcodes_ext"

text \<open>
  \<open>InitInstructionTable\<close> fills the two tables from the searches: an index nothing
  matches keeps \<open>cw\<close>. The branches of the source that report an entry already in
  use are never taken: each entry is \<open>cw\<close> when the search for it is made.
\<close>

definition s_op_table :: "u16 \<Rightarrow> DSPOPCTemplate" where
  "s_op_table i = (case FindByOpcode i s_opcodes of None \<Rightarrow> cw | Some info \<Rightarrow> info)"

definition s_ext_op_table :: "u16 \<Rightarrow> DSPOPCTemplate" where
  "s_ext_op_table i = (case FindByOpcode i s_opcodes_ext of None \<Rightarrow> cw | Some info \<Rightarrow> info)"

definition GetOpTemplate :: "UDSPInstruction \<Rightarrow> DSPOPCTemplate" where
  "GetOpTemplate inst = s_op_table inst"

definition GetExtOpTemplate :: "UDSPInstruction \<Rightarrow> DSPOPCTemplate" where
  "GetExtOpTemplate inst =
     (if drop_bit 12 inst = 0x3 then s_ext_op_table (inst AND 0x7F)
      else s_ext_op_table (inst AND 0xFF))"

text \<open>The effect of \<open>InitInstructionTable\<close> on the state: the write-back log is empty.\<close>

definition InitInstructionTable :: "SDSP \<Rightarrow> SDSP" where
  "InitInstructionTable d = d\<lparr>g_writeBackLogIdx := replicate 5 (- 1)\<rparr>"

subsection \<open>Matching as patterns of bits\<close>

text \<open>
  An opcode and its mask are a pattern of 16 fixed or free bits. A set of patterns
  is examined bit by bit, most significant first: \<open>clash_free\<close> finds that no word
  fits two of them, \<open>covers\<close> that every word fits one.
\<close>

definition pat_bit :: "u16 \<Rightarrow> u16 \<Rightarrow> nat \<Rightarrow> bool option" where
  "pat_bit v m n = (if bit m n then Some (bit v n) else None)"

definition pat :: "DSPOPCTemplate \<Rightarrow> bool option list" where
  "pat t = map (pat_bit (op_opcode t) (op_mask t)) [15, 14, 13, 12, 11, 10, 9, 8, 7, 6, 5, 4, 3, 2, 1, 0]"

definition bits_of :: "u16 \<Rightarrow> bool list" where
  "bits_of w = map (bit w) [15, 14, 13, 12, 11, 10, 9, 8, 7, 6, 5, 4, 3, 2, 1, 0]"

fun fits :: "bool list \<Rightarrow> bool option list \<Rightarrow> bool" where
  "fits (b # bs) (None # p) = fits bs p"
| "fits (b # bs) (Some c # p) = (b = c \<and> fits bs p)"
| "fits [] [] = True"
| "fits _ _ = False"

fun side :: "bool \<Rightarrow> bool option list list \<Rightarrow> bool option list list" where
  "side b [] = []"
| "side b ((None # p) # ps) = p # side b ps"
| "side b ((Some c # p) # ps) = (if b = c then p # side b ps else side b ps)"
| "side b ([] # ps) = side b ps"

fun clash_free :: "nat \<Rightarrow> bool option list list \<Rightarrow> bool" where
  "clash_free n [] = True"
| "clash_free n [x] = True"
| "clash_free 0 (x # y # xs) = False"
| "clash_free (Suc n) (x # y # xs) =
     (clash_free n (side False (x # y # xs)) \<and> clash_free n (side True (x # y # xs)))"

fun covers :: "nat \<Rightarrow> bool option list list \<Rightarrow> bool" where
  "covers n [] = False"
| "covers n (p # ps) = (list_all (\<lambda>x. x = None) p \<and> length p = n \<or>
     (case n of 0 \<Rightarrow> False | Suc k \<Rightarrow>
        covers k (side False (p # ps)) \<and>
        (side True (p # ps) = side False (p # ps) \<or> covers k (side True (p # ps)))))"

lemma filter_fits_side:
  "length (filter (fits (b # bs)) ps) = length (filter (fits bs) (side b ps))"
  by (induction b ps rule: side.induct) auto

lemma clash_free_filter:
  "clash_free n ps \<Longrightarrow> length bs = n \<Longrightarrow> length (filter (fits bs) ps) \<le> 1"
proof (induction n ps arbitrary: bs rule: clash_free.induct)
  case (4 n x y xs)
  from 4(4) obtain b bs' where bs: "bs = b # bs'" and len: "length bs' = n"
    by (cases bs) auto
  have "length (filter (fits bs') (side b (x # y # xs))) \<le> 1"
    using 4(1-3) len by (cases b) auto
  then show ?case unfolding bs filter_fits_side .
qed auto

lemma fits_free: "list_all (\<lambda>x. x = None) p \<Longrightarrow> length bs = length p \<Longrightarrow> fits bs p"
  by (induction bs p rule: fits.induct) auto

lemma covers_filter: "covers n ps \<Longrightarrow> length bs = n \<Longrightarrow> filter (fits bs) ps \<noteq> []"
proof (induction n ps arbitrary: bs rule: covers.induct)
  case (2 n p ps)
  show ?case
  proof (cases "list_all (\<lambda>x. x = None) p \<and> length p = n")
    case True
    then show ?thesis using 2(4) fits_free [of p bs] by simp
  next
    case False
    with 2(3) obtain k where n: "n = Suc k"
      and c: "covers k (side False (p # ps))" "covers k (side True (p # ps))"
      by (auto split: nat.splits simp del: side.simps)
    from 2(4) n obtain b bs' where bs: "bs = b # bs'" and len: "length bs' = k"
      by (cases bs) auto
    have "filter (fits bs') (side b (p # ps)) \<noteq> []"
      using 2(1,2) [OF n _ len] c by (cases b) auto
    then show ?thesis
      unfolding bs using filter_fits_side [of b bs' "p # ps"] by (metis length_0_conv)
  qed
qed simp

definition op_wf :: "DSPOPCTemplate \<Rightarrow> bool" where
  "op_wf t \<longleftrightarrow> op_opcode t AND op_mask t = op_opcode t"

lemma all_bits_16: "(\<forall>n < 16. P n) \<longleftrightarrow> list_all P [15, 14, 13, 12, 11, 10, 9, 8, 7, 6, 5, 4, 3, 2, 1, 0 :: nat]"
proof -
  have "[15, 14, 13, 12, 11, 10, 9, 8, 7, 6, 5, 4, 3, 2, 1, 0] = rev [0..<16]"
    by (simp add: upt_rec)
  then show ?thesis by (simp only: list_all_iff set_rev set_upt) auto
qed

lemma word16_eq_iff: "x = y \<longleftrightarrow> (\<forall>n < 16. bit x n = bit y n)" for x y :: u16
  by (simp add: bit_eq_iff)

lemma fits_map: "fits (map (bit w) ns) (map (pat_bit v m) ns) \<longleftrightarrow> (\<forall>n\<in>set ns. bit m n \<longrightarrow> bit w n = bit v n)"
  by (induction ns) (auto simp: pat_bit_def)

lemma op_matches_iff_fits:
  assumes "op_wf t"
  shows "op_matches w t \<longleftrightarrow> fits (bits_of w) (pat t)"
proof -
  have wf: "bit (op_opcode t) n \<Longrightarrow> bit (op_mask t) n" for n
    using assms unfolding op_wf_def by (metis bit_and_iff)
  have "op_matches w t \<longleftrightarrow> (\<forall>n < 16. bit (op_mask t) n \<longrightarrow> bit w n = bit (op_opcode t) n)"
    unfolding op_matches_def word16_eq_iff bit_and_iff using wf by blast
  then show ?thesis
    unfolding bits_of_def pat_def fits_map all_bits_16 by (simp add: list_all_iff)
qed

lemma filter_matches_length:
  assumes "list_all op_wf ts"
  shows "length (filter (op_matches w) ts) = length (filter (fits (bits_of w)) (map pat ts))"
  using assms by (induction ts) (simp_all add: op_matches_iff_fits)


subsection \<open>Decoding is unambiguous and the extensions are complete\<close>

lemma s_opcodes_wf: "list_all op_wf s_opcodes"
  by (simp add: s_opcodes_def s_opcodes_flow_def s_opcodes_data_def s_opcodes_extendable_def op_wf_def)

lemma s_opcodes_ext_wf: "list_all op_wf s_opcodes_ext"
  by (simp add: s_opcodes_ext_def op_wf_def)

lemma sixteen: "16 = Suc (Suc (Suc (Suc (Suc (Suc (Suc (Suc (Suc (Suc (Suc (Suc (Suc (Suc (Suc (Suc 0)))))))))))))))"
  by simp

text \<open>Evaluation does not descend into the list that is being split.\<close>

lemma side_weak_cong: "b = c \<Longrightarrow> side b ps = side c ps"
  by simp

lemma s_opcodes_clash_free: "clash_free 16 (map pat s_opcodes)"
  apply (simp only: s_opcodes_def s_opcodes_flow_def s_opcodes_data_def s_opcodes_extendable_def
      append_Cons append_Nil list.map pat_def DSPOPCTemplate.sel)
  apply (simp add: pat_bit_def)
  apply (simp only: sixteen)
  apply (simp only: side.simps clash_free.simps if_True if_False simp_thms
      cong: if_weak_cong side_weak_cong)
  done

lemma bits_of_length [simp]: "length (bits_of w) = 16"
  by (simp add: bits_of_def)

lemma at_most_one_match: "length (filter (op_matches w) s_opcodes) \<le> 1"
  using clash_free_filter [OF s_opcodes_clash_free, of "bits_of w"]
  by (simp only: filter_matches_length [OF s_opcodes_wf] bits_of_length)

lemma filter_length_le_1_unique:
  "length (filter P xs) \<le> 1 \<Longrightarrow> x \<in> set xs \<Longrightarrow> y \<in> set xs \<Longrightarrow> P x \<Longrightarrow> P y \<Longrightarrow> x = y"
  by (induction xs) (auto split: if_splits simp: filter_empty_conv)

lemma find_eq_Some_unique:
  assumes "length (filter P xs) \<le> 1" and "x \<in> set xs"
  shows "List.find P xs = Some x \<longleftrightarrow> P x"
proof
  assume "P x"
  with assms(2) obtain y where y: "List.find P xs = Some y"
    by (cases "List.find P xs") (auto simp: find_None_iff)
  then have "P y" "y \<in> set xs" by (auto simp: find_Some_iff)
  with assms \<open>P x\<close> have "x = y" using filter_length_le_1_unique by metis
  with y show "List.find P xs = Some x" by simp
qed (auto simp: find_Some_iff)

lemma cw_notin: "cw \<notin> set s_opcodes"
  by (simp add: cw_def s_opcodes_def s_opcodes_flow_def s_opcodes_data_def s_opcodes_extendable_def)

lemma s_op_table_iff:
  assumes "t \<in> set s_opcodes"
  shows "s_op_table w = t \<longleftrightarrow> op_matches w t"
proof -
  have "s_op_table w = t \<longleftrightarrow> FindByOpcode w s_opcodes = Some t"
    using assms cw_notin by (auto simp: s_op_table_def split: option.splits)
  then show ?thesis
    unfolding FindByOpcode_def by (simp add: find_eq_Some_unique [OF at_most_one_match assms])
qed

lemma FindByOpcode_SomeD: "FindByOpcode w ts = Some t \<Longrightarrow> t \<in> set ts \<and> op_matches w t"
  by (auto simp: FindByOpcode_def find_Some_iff)

lemma s_op_table_cases:
  obtains "s_op_table w = cw" | "s_op_table w \<in> set s_opcodes" and "op_matches w (s_op_table w)"
  by (cases "FindByOpcode w s_opcodes") (auto simp: s_op_table_def dest: FindByOpcode_SomeD)

text \<open>
  The extended opcodes are looked up with 8 bits: padded with free high bits, their
  patterns cover every word.
\<close>

lemma s_opcodes_ext_covers: "covers 16 (map pat s_opcodes_ext)"
  apply (simp only: s_opcodes_ext_def list.map pat_def DSPOPCTemplate.sel)
  apply (simp add: pat_bit_def)
  done

lemma s_ext_op_table_in: "s_ext_op_table w \<in> set s_opcodes_ext \<and> op_matches w (s_ext_op_table w)"
proof -
  have "length (filter (op_matches w) s_opcodes_ext) \<noteq> 0"
    using covers_filter [OF s_opcodes_ext_covers, of "bits_of w"]
    by (simp only: filter_matches_length [OF s_opcodes_ext_wf] bits_of_length length_0_conv not_False_eq_True)
  then obtain t where "FindByOpcode w s_opcodes_ext = Some t"
    unfolding FindByOpcode_def by (cases "List.find (op_matches w) s_opcodes_ext") (auto simp: find_None_iff filter_empty_conv)
  then show ?thesis
    by (auto simp: s_ext_op_table_def dest: FindByOpcode_SomeD)
qed

text \<open>The bits an extension occupies are free in the main opcode of an extendable template.\<close>

definition ext_bits_free :: "DSPOPCTemplate \<Rightarrow> bool" where
  "ext_bits_free t \<longleftrightarrow> (op_extended t \<longrightarrow>
     op_mask t AND (if drop_bit 12 (op_opcode t) = 0x3 then 0x7F else 0xFF) = 0)"

lemma s_opcodes_ext_bits_free: "list_all ext_bits_free s_opcodes"
  by (simp add: s_opcodes_def s_opcodes_flow_def s_opcodes_data_def s_opcodes_extendable_def ext_bits_free_def)

lemma s_opcodes_size: "list_all (\<lambda>t. op_size t = 1 \<or> op_size t = 2) s_opcodes"
  by (simp add: s_opcodes_def s_opcodes_flow_def s_opcodes_data_def s_opcodes_extendable_def)

lemma s_op_table_size: "op_size (s_op_table w) = 1 \<or> op_size (s_op_table w) = 2"
  using s_opcodes_size by (cases w rule: s_op_table_cases) (auto simp: cw_def list_all_iff)

definition ext_func_ok :: "DSPOPCTemplate \<Rightarrow> bool" where
  "ext_func_ok t \<longleftrightarrow> (case op_intFunc t of F_ext _ \<Rightarrow> True | _ \<Rightarrow> False)"

lemma s_opcodes_no_ext: "list_all (\<lambda>t. \<not> ext_func_ok t) s_opcodes"
  by (simp add: s_opcodes_def s_opcodes_flow_def s_opcodes_data_def s_opcodes_extendable_def ext_func_ok_def)

lemma s_opcodes_ext_ext: "list_all ext_func_ok s_opcodes_ext"
  by (simp add: s_opcodes_ext_def ext_func_ok_def)

text \<open>
  C28. Decoding: for each of the 65536 instruction words at most one template of the main table matches the word under its
  mask, and the opcode table holds this template where there is one and the template \<open>CW\<close> for a constant word where there is none.
\<close>

theorem GetOpTemplate_iff:
  "length (filter (op_matches w) s_opcodes) \<le> 1 \<and>
   GetOpTemplate w = (case filter (op_matches w) s_opcodes of [] \<Rightarrow> cw | t # ts \<Rightarrow> t)"
proof -
  have "List.find P xs = (case filter P xs of [] \<Rightarrow> None | t # ts \<Rightarrow> Some t)" for P and xs :: "DSPOPCTemplate list"
    by (induction xs) auto
  then show ?thesis
    using at_most_one_match [of w] by (simp add: GetOpTemplate_def s_op_table_def FindByOpcode_def split: list.split)
qed

text \<open>
  The extension of every instruction word decodes: the template the
  interpreter gets for the extension of any word is an entry of the extended
  table, matches the word's low 8 bits (7 bits for the opcodes \<open>3xxx\<close>) and is an
  extension function; and no template of an extendable main opcode constrains
  those bits.
\<close>

theorem GetExtOpTemplate_total:
  "GetExtOpTemplate w \<in> set s_opcodes_ext \<and> ext_func_ok (GetExtOpTemplate w) \<and>
   op_matches (w AND (if drop_bit 12 w = 0x3 then 0x7F else 0xFF)) (GetExtOpTemplate w) \<and>
   list_all ext_bits_free s_opcodes"
  using s_ext_op_table_in [of "w AND 0x7F"] s_ext_op_table_in [of "w AND 0xFF"] s_opcodes_ext_ext
    s_opcodes_ext_bits_free
  by (auto simp: GetExtOpTemplate_def list_all_iff)

end
