(* ===== verification/DSP_IMem.thy ===== *)
theory DSP_IMem
  imports DSP_Tables
begin

text \<open>
  Instruction memory (the first and last functions of \<^verbatim>\<open>Core/DSP/DSPMemoryMap.cpp\<close>):
  reads of IRAM and IROM, the fetch that advances the program counter, and the
  skip of one instruction of one or two words.
\<close>

unbundle bit_operations_syntax

definition dsp_imem_read :: "SDSP \<Rightarrow> u16 \<Rightarrow> u16" where
  "dsp_imem_read d addr =
     (if drop_bit 12 addr = 0 then g_iram d (addr AND DSP_IRAM_MASK)
      else if drop_bit 12 addr = 8 then g_irom d (addr AND DSP_IROM_MASK)
      else 0)"

definition dsp_fetch_code :: "SDSP \<Rightarrow> u16 \<times> SDSP" where
  "dsp_fetch_code d = (dsp_imem_read d (g_pc d), d\<lparr>g_pc := g_pc d + 1\<rparr>)"

definition dsp_peek_code :: "SDSP \<Rightarrow> u16" where
  "dsp_peek_code d = dsp_imem_read d (g_pc d)"

definition dsp_skip_inst :: "SDSP \<Rightarrow> SDSP" where
  "dsp_skip_inst d = d\<lparr>g_pc := g_pc d + op_size (GetOpTemplate (dsp_peek_code d))\<rparr>"

lemma dsp_imem_read_cong:
  "g_iram d = g_iram d' \<Longrightarrow> g_irom d = g_irom d' \<Longrightarrow> dsp_imem_read d = dsp_imem_read d'"
  by (rule ext) (simp add: dsp_imem_read_def)

lemma dsp_imem_read_flags [simp]: "dsp_imem_read (d\<lparr>g_code_flags := f\<rparr>) = dsp_imem_read d"
  by (rule dsp_imem_read_cong) simp_all

text \<open>The index of either array stays below its 4096 words.\<close>

lemma dsp_imem_index_bound: "unat (addr AND DSP_IRAM_MASK) < 0x1000" "unat (addr AND DSP_IROM_MASK) < 0x1000"
  by (simp_all add: mem_consts and_eq_take_bit unat_take_bit)

end
