(* ===== verification/DSP_Analyzer.thy ===== *)
theory DSP_Analyzer
  imports DSP_IMem
begin

text \<open>
  The static analyser (\<^verbatim>\<open>Core/DSP/DSPAnalyzer.cpp\<close>), run each time a program is
  loaded. It marks the starts of instructions, the ends of hardware loops (the only
  addresses at which the interpreter looks at its loop stacks) and the mail-wait
  loops that may be skipped when idle. The walk over the instructions is a partial
  function, because a 16-bit address that steps over its bound would wrap; it is
  shown to return for the ranges the program analyses.
\<close>

unbundle bit_operations_syntax

abbreviation (input) CODE_START_OF_INST :: u8 where "CODE_START_OF_INST \<equiv> 1"
abbreviation (input) CODE_IDLE_SKIP :: u8 where "CODE_IDLE_SKIP \<equiv> 2"
abbreviation (input) CODE_LOOP_START :: u8 where "CODE_LOOP_START \<equiv> 4"
abbreviation (input) CODE_LOOP_END :: u8 where "CODE_LOOP_END \<equiv> 8"
abbreviation (input) CODE_UPDATE_SR :: u8 where "CODE_UPDATE_SR \<equiv> 16"
abbreviation (input) CODE_CHECK_INT :: u8 where "CODE_CHECK_INT \<equiv> 32"

type_synonym code_flags = "u16 \<Rightarrow> u8"

definition idle_skip_sigs :: "u16 list list" where
  "idle_skip_sigs = [
    [0x26fc, 0x02c0, 0x8000, 0x029d, 0xFFFF, 0, 0],
    [0x27fc, 0x03c0, 0x8000, 0x029d, 0xFFFF, 0, 0],
    [0x26fe, 0x02c0, 0x8000, 0x029c, 0xFFFF, 0, 0],
    [0x27fe, 0x03c0, 0x8000, 0x029c, 0xFFFF, 0, 0],
    [0x26fc, 0x02a0, 0x8000, 0x029c, 0xFFFF, 0, 0],
    [0x27fc, 0x03a0, 0x8000, 0x029c, 0xFFFF, 0, 0],
    [0x00de, 0xFFFE, 0x02c0, 0x8000, 0x029c, 0xFFFF, 0],
    [0x00da, 0x0352, 0x8600, 0x0295, 0xFFFF, 0, 0]]"

definition or_flag :: "u16 \<Rightarrow> u8 \<Rightarrow> code_flags \<Rightarrow> code_flags" where
  "or_flag a b f = f(a := f a OR b)"

definition Analyzer_Reset :: "SDSP \<Rightarrow> SDSP" where
  "Analyzer_Reset d = d\<lparr>g_code_flags := (\<lambda>_. 0)\<rparr>"

definition is_BLOOP :: "UDSPInstruction \<Rightarrow> bool" where
  "is_BLOOP inst \<longleftrightarrow> inst AND 0xffe0 = 0x0060 \<or> inst AND 0xff00 = 0x1100"

definition is_LOOP :: "UDSPInstruction \<Rightarrow> bool" where
  "is_LOOP inst \<longleftrightarrow> inst AND 0xffe0 = 0x0040 \<or> inst AND 0xff00 = 0x1000"

text \<open>The body of the first loop of \<open>AnalyzeRange\<close>, for the instruction at \<open>addr\<close>.\<close>

definition analyze_inst :: "SDSP \<Rightarrow> u16 \<Rightarrow> u16 \<Rightarrow> code_flags \<Rightarrow> u16 \<times> code_flags" where
  "analyze_inst d addr last_arithmetic flags =
    (let inst = dsp_imem_read d addr;
         opcode = GetOpTemplate inst;
         f1 = or_flag addr CODE_START_OF_INST flags;
         f2 = (if is_BLOOP inst then
                 or_flag (dsp_imem_read d (addr + 1)) CODE_LOOP_END (or_flag addr CODE_LOOP_START f1)
               else if is_LOOP inst then
                 or_flag (addr + 1) CODE_LOOP_END (or_flag addr CODE_LOOP_START f1)
               else f1);
         la = (if op_updates_sr opcode then addr else last_arithmetic);
         f3 = (if op_branch opcode \<and> \<not> op_uncond_branch opcode
               then or_flag la CODE_UPDATE_SR f2 else f2);
         f4 = (if op_opcode opcode \<in> {0x00c0, 0x1800, 0x1880, 0x1900, 0x1980, 0x2000}
                  \<or> op_extended opcode
               then or_flag (addr + op_size opcode) CODE_CHECK_INT f3 else f3)
     in (la, f4))"

definition next_inst :: "SDSP \<Rightarrow> u16 \<Rightarrow> u16" where
  "next_inst d addr = addr + op_size (GetOpTemplate (dsp_imem_read d addr))"

partial_function (option) scan_insts ::
    "SDSP \<Rightarrow> u16 \<Rightarrow> u16 \<Rightarrow> u16 \<Rightarrow> code_flags \<Rightarrow> code_flags option" where
  "scan_insts d end_addr addr last_arithmetic flags =
     (if addr < end_addr then
        scan_insts d end_addr (next_inst d addr)
          (fst (analyze_inst d addr last_arithmetic flags))
          (snd (analyze_inst d addr last_arithmetic flags))
      else Some flags)"

text \<open>The innermost loop: the words of a signature, from position \<open>i\<close> on.\<close>

fun sig_found :: "SDSP \<Rightarrow> u16 \<Rightarrow> bool \<Rightarrow> u16 list \<Rightarrow> bool" where
  "sig_found d a found [] = found"
| "sig_found d a found (s # sig) =
     (let found' = (s = 0 \<or> found) in
      if s = 0xFFFF then sig_found d (a + 1) found' sig
      else if s \<noteq> dsp_imem_read d a then found'
      else sig_found d (a + 1) found' sig)"

definition mark_idle :: "SDSP \<Rightarrow> u16 list \<Rightarrow> u16 \<Rightarrow> code_flags \<Rightarrow> code_flags" where
  "mark_idle d sig addr f = (if sig_found d addr False sig then or_flag addr CODE_IDLE_SKIP f else f)"

definition addr_range :: "u16 \<Rightarrow> u16 \<Rightarrow> u16 list" where
  "addr_range start_addr end_addr = map of_nat [unat start_addr..<unat end_addr]"

definition scan_idle :: "SDSP \<Rightarrow> u16 \<Rightarrow> u16 \<Rightarrow> code_flags \<Rightarrow> code_flags" where
  "scan_idle d start_addr end_addr f =
     fold (\<lambda>sig f. fold (mark_idle d sig) (addr_range start_addr end_addr) f) idle_skip_sigs f"

definition AnalyzeRange :: "u16 \<Rightarrow> u16 \<Rightarrow> SDSP \<Rightarrow> dsp_result" where
  "AnalyzeRange start_addr end_addr d =
     (case scan_insts d end_addr start_addr 0 (g_code_flags d) of
        None \<Rightarrow> Inl No_Return
      | Some f \<Rightarrow> Inr (d\<lparr>g_code_flags := scan_idle d start_addr end_addr f\<rparr>))"

definition Analyze :: "SDSP \<Rightarrow> dsp_result" where
  "Analyze d = and_then (AnalyzeRange 0x0000 0x1000 (Analyzer_Reset d)) (AnalyzeRange 0x8000 0x9000)"

definition GetCodeFlags :: "SDSP \<Rightarrow> u16 \<Rightarrow> u8" where
  "GetCodeFlags d address = g_code_flags d address"

subsection \<open>Flags are only ever added\<close>

definition flags_le :: "code_flags \<Rightarrow> code_flags \<Rightarrow> bool" where
  "flags_le f g \<longleftrightarrow> (\<forall>a n. bit (f a) n \<longrightarrow> bit (g a) n)"

lemma flags_le_refl [simp]: "flags_le f f"
  by (simp add: flags_le_def)

lemma flags_le_trans [trans]: "flags_le f g \<Longrightarrow> flags_le g h \<Longrightarrow> flags_le f h"
  by (simp add: flags_le_def)

lemma flags_leD: "flags_le f g \<Longrightarrow> bit (f a) n \<Longrightarrow> bit (g a) n"
  by (simp add: flags_le_def)

lemma or_flag_le [simp]: "flags_le f g \<Longrightarrow> flags_le f (or_flag a b g)"
  by (simp add: flags_le_def or_flag_def bit_or_iff)

lemma bit_or_flag: "bit (or_flag a b f x) n \<longleftrightarrow> bit (f x) n \<or> x = a \<and> bit b n"
  by (auto simp: or_flag_def bit_or_iff)

lemma analyze_inst_le: "flags_le f (snd (analyze_inst d addr la f))"
  by (simp add: analyze_inst_def Let_def)

lemma fold_le: "(\<And>x f. flags_le f (g x f)) \<Longrightarrow> flags_le f (fold g xs f)"
  by (induction xs arbitrary: f) (auto intro: flags_le_trans)

lemma scan_idle_le: "flags_le f (scan_idle d s e f)"
  unfolding scan_idle_def by (intro fold_le) (simp add: mark_idle_def)

subsection \<open>The walk over the instructions returns\<close>

lemma next_inst_unat:
  assumes "addr < e" and "unat e \<le> 0xFFFE"
  shows "unat addr < unat (next_inst d addr)" and "unat (next_inst d addr) \<le> unat addr + 2"
proof -
  have "unat addr < unat e" using assms(1) by (simp add: word_less_nat_alt)
  with assms(2) have small: "unat addr + 2 < 65536" by simp
  show "unat addr < unat (next_inst d addr)" "unat (next_inst d addr) \<le> unat addr + 2"
    using s_op_table_size [of "dsp_imem_read d addr"] small
    by (auto simp: next_inst_def GetOpTemplate_def unat_word_ariths)
qed

lemma scan_insts_returns:
  assumes "unat e \<le> 0xFFFE"
  shows "\<exists>g. scan_insts d e addr la f = Some g \<and> flags_le f g"
proof (induction "unat e - unat addr" arbitrary: addr la f rule: less_induct)
  case less
  show ?case
  proof (cases "addr < e")
    case True
    have "unat e - unat (next_inst d addr) < unat e - unat addr"
      using next_inst_unat(1) [OF True assms, of d] True by (simp add: word_less_nat_alt)
    from less [OF this] obtain g
      where "scan_insts d e (next_inst d addr) (fst (analyze_inst d addr la f))
          (snd (analyze_inst d addr la f)) = Some g"
        and "flags_le (snd (analyze_inst d addr la f)) g"
      by blast
    then show ?thesis
      using True by (subst scan_insts.simps) (auto intro: flags_le_trans [OF analyze_inst_le])
  qed (simp add: scan_insts.simps)
qed

lemma AnalyzeRange_returns:
  assumes "unat e \<le> 0xFFFE"
  obtains f where "AnalyzeRange s e d = Inr (d\<lparr>g_code_flags := f\<rparr>)" and "flags_le (g_code_flags d) f"
proof -
  obtain g where "scan_insts d e s 0 (g_code_flags d) = Some g" and "flags_le (g_code_flags d) g"
    using scan_insts_returns [OF assms] by blast
  then show thesis
    by (intro that [of "scan_idle d s e g"])
      (auto simp: AnalyzeRange_def intro: flags_le_trans scan_idle_le)
qed

lemma Analyze_cases:
  obtains f where "Analyze d = Inr (d\<lparr>g_code_flags := f\<rparr>)"
proof -
  obtain f where f: "AnalyzeRange 0 0x1000 (Analyzer_Reset d) = Inr ((Analyzer_Reset d)\<lparr>g_code_flags := f\<rparr>)"
    by (rule AnalyzeRange_returns [of "0x1000" 0 "Analyzer_Reset d"]) simp_all
  obtain h where "AnalyzeRange 0x8000 0x9000 ((Analyzer_Reset d)\<lparr>g_code_flags := f\<rparr>)
      = Inr ((Analyzer_Reset d)\<lparr>g_code_flags := h\<rparr>)"
    by (rule AnalyzeRange_returns [of "0x9000" "0x8000" "(Analyzer_Reset d)\<lparr>g_code_flags := f\<rparr>"]) simp_all
  with f have "Analyze d = Inr (d\<lparr>g_code_flags := h\<rparr>)"
    by (simp add: Analyze_def Analyzer_Reset_def)
  then show thesis by (rule that)
qed

subsection \<open>Loop ends are marked\<close>

text \<open>The addresses the walk visits: it starts at \<open>s\<close> and steps from instruction to instruction.\<close>

inductive inst_at :: "SDSP \<Rightarrow> u16 \<Rightarrow> u16 \<Rightarrow> u16 \<Rightarrow> bool" for d s e where
  start: "inst_at d s e s"
| step: "inst_at d s e a \<Longrightarrow> a < e \<Longrightarrow> inst_at d s e (next_inst d a)"

text \<open>The end address a loop instruction at \<open>a\<close> puts on the loop-address stack.\<close>

definition loop_end :: "SDSP \<Rightarrow> u16 \<Rightarrow> u16 option" where
  "loop_end d a = (let inst = dsp_imem_read d a in
     if is_BLOOP inst then Some (dsp_imem_read d (a + 1))
     else if is_LOOP inst then Some (a + 1) else None)"

definition marked :: "SDSP \<Rightarrow> u16 \<Rightarrow> code_flags \<Rightarrow> bool" where
  "marked d a f \<longleftrightarrow> bit (f a) 0 \<and> (\<forall>l. loop_end d a = Some l \<longrightarrow> bit (f a) 2 \<and> bit (f l) 3)"

lemma marked_mono: "marked d a f \<Longrightarrow> flags_le f g \<Longrightarrow> marked d a g"
  by (auto simp: marked_def dest: flags_leD)

lemma analyze_inst_marked: "marked d a (snd (analyze_inst d a la f))"
  by (auto simp: marked_def loop_end_def analyze_inst_def Let_def bit_or_flag split: if_splits)

lemma scan_insts_marked:
  assumes "unat e \<le> 0xFFFE" and "inst_at d addr e a" and "a < e"
    and "scan_insts d e addr la f = Some g"
  shows "marked d a g"
  using assms(2-4)
proof (induction "unat e - unat addr" arbitrary: addr la f rule: less_induct)
  case less
  from less(2,3) have lt: "addr < e"
    by (induction rule: inst_at.induct)
      (use next_inst_unat(1) [OF _ assms(1)] in \<open>auto simp: word_less_nat_alt intro: less_trans\<close>)
  let ?r = "analyze_inst d addr la f"
  from less(4) lt have g: "scan_insts d e (next_inst d addr) (fst ?r) (snd ?r) = Some g"
    by (subst (asm) scan_insts.simps) simp
  show ?case
  proof (cases "a = addr")
    case True
    have "flags_le (snd ?r) g"
      using scan_insts_returns [OF assms(1), of d "next_inst d addr" "fst ?r" "snd ?r"] g by simp
    then show ?thesis
      unfolding True by (rule marked_mono [OF analyze_inst_marked])
  next
    case False
    have "inst_at d (next_inst d addr) e a"
      using less(2) False
    proof (induction rule: inst_at.induct)
      case (step a)
      then show ?case by (cases "a = addr") (auto intro: inst_at.intros)
    qed simp
    moreover have "unat e - unat (next_inst d addr) < unat e - unat addr"
      using next_inst_unat(1) [OF lt assms(1), of d] lt by (simp add: word_less_nat_alt)
    ultimately show ?thesis using less(1,3) g by blast
  qed
qed

lemma AnalyzeRange_marked:
  assumes "unat e \<le> 0xFFFE" and "inst_at d s e a" and "a < e" and "AnalyzeRange s e d = Inr d'"
  shows "marked d a (g_code_flags d')"
proof -
  from assms(4) obtain f where f: "scan_insts d e s 0 (g_code_flags d) = Some f"
    and d': "d' = d\<lparr>g_code_flags := scan_idle d s e f\<rparr>"
    by (auto simp: AnalyzeRange_def split: option.splits)
  from scan_insts_marked [OF assms(1-3) f] show ?thesis
    unfolding d' by (auto intro: marked_mono scan_idle_le)
qed

lemma inst_at_cong:
  assumes "dsp_imem_read d = dsp_imem_read d'"
  shows "inst_at d s e a \<longleftrightarrow> inst_at d' s e a"
proof -
  have n: "next_inst d = next_inst d'" by (rule ext) (simp add: next_inst_def assms)
  have "inst_at x s e a \<Longrightarrow> next_inst x = next_inst y \<Longrightarrow> inst_at y s e a" for x y
    by (induction rule: inst_at.induct) (auto intro: inst_at.intros)
  with n show ?thesis by metis
qed

lemma marked_cong: "dsp_imem_read d = dsp_imem_read d' \<Longrightarrow> marked d a f \<longleftrightarrow> marked d' a f"
  by (simp add: marked_def loop_end_def Let_def)

lemma Analyze_marks:
  "\<exists>f. Analyze d = Inr (d\<lparr>g_code_flags := f\<rparr>) \<and>
     (\<forall>a. inst_at d 0 0x1000 a \<and> a < 0x1000 \<or> inst_at d 0x8000 0x9000 a \<and> a < 0x9000 \<longrightarrow>
        marked d a f)"
proof -
  let ?d0 = "Analyzer_Reset d"
  have im: "dsp_imem_read ?d0 = dsp_imem_read d" by (simp add: Analyzer_Reset_def)
  obtain f where f: "AnalyzeRange 0 0x1000 ?d0 = Inr (?d0\<lparr>g_code_flags := f\<rparr>)"
    by (rule AnalyzeRange_returns [of "0x1000" 0 ?d0]) simp_all
  obtain h where h: "AnalyzeRange 0x8000 0x9000 (?d0\<lparr>g_code_flags := f\<rparr>)
      = Inr (?d0\<lparr>g_code_flags := h\<rparr>)" and fh: "flags_le f h"
    by (rule AnalyzeRange_returns [of "0x9000" "0x8000" "?d0\<lparr>g_code_flags := f\<rparr>"]) simp_all
  have imf: "dsp_imem_read (?d0\<lparr>g_code_flags := f\<rparr>) = dsp_imem_read d"
    by (simp add: im)
  have "marked d a h" if "inst_at d 0 0x1000 a" "a < 0x1000" for a
    using AnalyzeRange_marked [OF _ _ that(2) f] that(1)
    by (simp add: inst_at_cong [OF im] marked_cong [OF im] marked_mono [OF _ fh])
  moreover have "marked d a h" if "inst_at d 0x8000 0x9000 a" "a < 0x9000" for a
    using AnalyzeRange_marked [OF _ _ that(2) h] that(1)
    by (simp add: inst_at_cong [OF imf] marked_cong [OF imf])
  moreover have "Analyze d = Inr (d\<lparr>g_code_flags := h\<rparr>)"
    using f h by (simp add: Analyze_def Analyzer_Reset_def)
  ultimately show ?thesis by blast
qed

text \<open>
  \<open>program_marked iram irom f\<close>: the flags \<open>f\<close> mark the instructions and loops of a program in
  the two instruction memories.
\<close>

definition program_marked :: "(u16 \<Rightarrow> u16) \<Rightarrow> (u16 \<Rightarrow> u16) \<Rightarrow> code_flags \<Rightarrow> bool" where
  "program_marked iram irom f \<longleftrightarrow>
     (let p = dsp_zero\<lparr>g_iram := iram, g_irom := irom\<rparr> in
      \<forall>a. inst_at p 0 0x1000 a \<and> a < 0x1000 \<or> inst_at p 0x8000 0x9000 a \<and> a < 0x9000 \<longrightarrow> marked p a f)"

abbreviation analysed :: "SDSP \<Rightarrow> bool" where
  "analysed d \<equiv> program_marked (g_iram d) (g_irom d) (g_code_flags d)"

lemma analysed_iff:
  "analysed d \<longleftrightarrow> (\<forall>a. inst_at d 0 0x1000 a \<and> a < 0x1000 \<or> inst_at d 0x8000 0x9000 a \<and> a < 0x9000 \<longrightarrow>
     marked d a (g_code_flags d))"
proof -
  have "dsp_imem_read (dsp_zero\<lparr>g_iram := g_iram d, g_irom := g_irom d\<rparr>) = dsp_imem_read d"
    by (rule dsp_imem_read_cong) simp_all
  from inst_at_cong [OF this] marked_cong [OF this] show ?thesis
    by (simp add: program_marked_def)
qed

lemma Analyze_analysed: "Analyze d = Inr d' \<Longrightarrow> analysed d'"
proof -
  assume a: "Analyze d = Inr d'"
  from Analyze_marks [of d] obtain f where d': "d' = d\<lparr>g_code_flags := f\<rparr>" and
    m: "\<forall>a. inst_at d 0 0x1000 a \<and> a < 0x1000 \<or> inst_at d 0x8000 0x9000 a \<and> a < 0x9000 \<longrightarrow> marked d a f"
    unfolding a by auto
  have c: "dsp_imem_read d' = dsp_imem_read d" unfolding d' by simp
  show ?thesis
    unfolding analysed_iff inst_at_cong [OF c] marked_cong [OF c] using m unfolding d' by simp
qed

text \<open>
  C35. The analysis of a loaded program returns, changes nothing but the code flags,
  and marks what the interpreter relies on: every instruction the walk over IRAM
  and IROM reaches is flagged as a start, and where it is a loop instruction it is
  flagged as a loop start and the last address of its body as a loop end.
\<close>

theorem Analyze_marks_loops:
  "\<exists>f. Analyze d = Inr (d\<lparr>g_code_flags := f\<rparr>) \<and>
     (\<forall>a. inst_at d 0 0x1000 a \<and> a < 0x1000 \<or> inst_at d 0x8000 0x9000 a \<and> a < 0x9000 \<longrightarrow>
        marked d a f)"
  by (rule Analyze_marks)

definition bloop_program :: SDSP where
  "bloop_program = dsp_zero\<lparr>g_iram := (\<lambda>_. 0)(0 := 0x1103, 1 := 0x0005)\<rparr>"

theorem Analyze_marks_loops_witness:
  "\<exists>f. Analyze bloop_program = Inr (bloop_program\<lparr>g_code_flags := f\<rparr>) \<and> bit (f 0) 2 \<and> bit (f 5) 3"
proof -
  have "inst_at bloop_program 0 0x1000 0" by (rule inst_at.start)
  moreover have "loop_end bloop_program 0 = Some 5"
    by (simp add: loop_end_def bloop_program_def dsp_imem_read_def is_BLOOP_def mem_consts)
  moreover obtain f where "Analyze bloop_program = Inr (bloop_program\<lparr>g_code_flags := f\<rparr>)"
      and "inst_at bloop_program 0 0x1000 0 \<Longrightarrow> marked bloop_program 0 f"
    using Analyze_marks_loops [of bloop_program] by (auto simp: word_less_def)
  ultimately show ?thesis by (auto simp: marked_def)
qed

end
