(* ===== verification/DSP_Accelerator.thy ===== *)
theory DSP_Accelerator
  imports DSP_State
begin

text \<open>
  The audio accelerator (\<^verbatim>\<open>Core/DSP/DSPAccelerator.cpp\<close>), which streams samples from
  audio memory and decodes ADPCM. The virtual functions \<open>ReadMemory\<close> and
  \<open>WriteMemory\<close> of the class are arguments of the operations, and the call of
  \<open>OnEndException\<close> is a flag of the result. The interface \<open>audio_memory\<close> states
  what the accelerator needs of those functions; it is interpreted in the theory of
  the hardware interface on the memory functions of the low-level emulation.
\<close>

unbundle bit_operations_syntax

definition START_END_ADDRESS_MASK :: u32 where "START_END_ADDRESS_MASK = 0x3fffffff"
definition CURRENT_ADDRESS_MASK :: u32 where "CURRENT_ADDRESS_MASK = 0xbfffffff"

definition SetStartAddress :: "u32 \<Rightarrow> Accelerator \<Rightarrow> Accelerator" where
  "SetStartAddress address a = a\<lparr>m_start_address := address AND START_END_ADDRESS_MASK\<rparr>"

definition SetEndAddress :: "u32 \<Rightarrow> Accelerator \<Rightarrow> Accelerator" where
  "SetEndAddress address a = a\<lparr>m_end_address := address AND START_END_ADDRESS_MASK\<rparr>"

definition SetCurrentAddress :: "u32 \<Rightarrow> Accelerator \<Rightarrow> Accelerator" where
  "SetCurrentAddress address a = a\<lparr>m_current_address := address AND CURRENT_ADDRESS_MASK\<rparr>"

definition SetSampleFormat :: "u16 \<Rightarrow> Accelerator \<Rightarrow> Accelerator" where
  "SetSampleFormat format a = a\<lparr>m_sample_format := format\<rparr>"

definition SetYn1 :: "s16 \<Rightarrow> Accelerator \<Rightarrow> Accelerator" where
  "SetYn1 yn1 a = a\<lparr>m_yn1 := yn1\<rparr>"

definition SetYn2 :: "s16 \<Rightarrow> Accelerator \<Rightarrow> Accelerator" where
  "SetYn2 yn2 a = a\<lparr>m_yn2 := yn2, m_reads_stopped := False\<rparr>"

definition SetPredScale :: "u16 \<Rightarrow> Accelerator \<Rightarrow> Accelerator" where
  "SetPredScale pred_scale a = a\<lparr>m_pred_scale := pred_scale AND 0x7f\<rparr>"

text \<open>A big-endian halfword of audio memory: two reads, the high byte first.\<close>

definition read_be16 :: "(u32 \<Rightarrow> dsp_error + u8) \<Rightarrow> u32 \<Rightarrow> dsp_error + u16" where
  "read_be16 ReadMemory address =
     and_then (ReadMemory address) (\<lambda>hi. and_then (ReadMemory (address + 1)) (\<lambda>lo.
       Inr (push_bit 8 (ucast hi) OR ucast lo)))"

definition ReadD3 ::
  "(u32 \<Rightarrow> dsp_error + u8) \<Rightarrow> Accelerator \<Rightarrow> dsp_error + (u16 \<times> Accelerator)" where
  "ReadD3 ReadMemory a =
     and_then
       (if m_sample_format a = 0x5 then
          and_then (ReadMemory (m_current_address a)) (\<lambda>b.
            Inr (ucast b, a\<lparr>m_current_address := m_current_address a + 1\<rparr>))
        else if m_sample_format a = 0x6 then
          and_then (read_be16 ReadMemory (m_current_address a * 2)) (\<lambda>v.
            Inr (v, a\<lparr>m_current_address := m_current_address a + 1\<rparr>))
        else Inr (0, a))
       (\<lambda>(val, a1).
          Inr (val, if m_current_address a1 \<ge> m_end_address a1
                    then a1\<lparr>m_current_address := m_start_address a1\<rparr> else a1))"

definition WriteD3 ::
  "(u32 \<Rightarrow> u8 \<Rightarrow> 's \<Rightarrow> dsp_error + 's) \<Rightarrow> u16 \<Rightarrow> Accelerator \<Rightarrow> 's \<Rightarrow> dsp_error + (Accelerator \<times> 's)" where
  "WriteD3 WriteMemory value a s =
     (if m_sample_format a = 0xA then
        and_then (WriteMemory (m_current_address a * 2) (ucast (drop_bit 8 value)) s) (\<lambda>s1.
        and_then (WriteMemory (m_current_address a * 2 + 1) (ucast (value AND 0xFF)) s1) (\<lambda>s2.
          Inr (a\<lparr>m_current_address := m_current_address a + 1\<rparr>, s2)))
      else Inr (a, s))"

subsection \<open>Sample reads\<close>

text \<open>\<^verbatim>\<open>MathUtil::Clamp<s32>\<close>.\<close>

definition clamp_s32 :: "s32 \<Rightarrow> int \<Rightarrow> int \<Rightarrow> int" where
  "clamp_s32 v lo hi = max lo (min (sint v) hi)"

definition adpcm_nibble :: "u32 \<Rightarrow> u8 \<Rightarrow> s32" where
  "adpcm_nibble address b =
     (let temp = (if address AND 1 \<noteq> 0 then ucast b AND 0xF else drop_bit 4 (ucast b)) in
      if temp \<ge> 8 then temp - 16 else temp)"

definition adpcm_sample :: "(nat \<Rightarrow> s16) \<Rightarrow> Accelerator \<Rightarrow> u8 \<Rightarrow> s16" where
  "adpcm_sample coefs a b =
     (let scale = push_bit (unat (m_pred_scale a AND 0xF)) (1 :: s32);
          coef_idx = unat (drop_bit 4 (m_pred_scale a) AND 0x7);
          coef1 = scast (coefs (coef_idx * 2 + 0)) :: s32;
          coef2 = scast (coefs (coef_idx * 2 + 1)) :: s32;
          temp = adpcm_nibble (m_current_address a) b;
          val32 = scale * temp +
            signed_drop_bit 11 (0x400 + coef1 * scast (m_yn1 a) + coef2 * scast (m_yn2 a))
      in word_of_int (clamp_s32 val32 (- 0x7FFF) 0x7FFF))"

text \<open>The address after an ADPCM sample, with the two special cases of the end of the sound.\<close>

definition adpcm_advance ::
  "(u32 \<Rightarrow> dsp_error + u8) \<Rightarrow> Accelerator \<Rightarrow> dsp_error + (u32 \<times> Accelerator)" where
  "adpcm_advance ReadMemory a =
     (if m_end_address a AND 0xf = 0x0 \<and> m_current_address a = m_end_address a then
        Inr (2, a\<lparr>m_current_address := m_start_address a + 1\<rparr>)
      else if m_end_address a AND 0xf = 0x1 \<and> m_current_address a = m_end_address a - 1 then
        Inr (2, a\<lparr>m_current_address := m_start_address a\<rparr>)
      else if m_current_address a AND 15 = 0 then
        and_then (ReadMemory (drop_bit 1 (m_current_address a AND NOT 15))) (\<lambda>b.
          Inr (4, a\<lparr>m_pred_scale := ucast b, m_current_address := m_current_address a + 2\<rparr>))
      else Inr (2, a))"

text \<open>The switch on the sample format: the sample, \<open>step_size_bytes\<close> and the registers.\<close>

definition decode_sample :: "(u32 \<Rightarrow> dsp_error + u8) \<Rightarrow> (nat \<Rightarrow> s16) \<Rightarrow> Accelerator
    \<Rightarrow> dsp_error + (u16 \<times> u32 \<times> Accelerator)" where
  "decode_sample ReadMemory coefs a =
     (if m_sample_format a = 0x00 then
        and_then (ReadMemory (drop_bit 1 (m_current_address a))) (\<lambda>b.
          let val = adpcm_sample coefs a b in
          and_then (adpcm_advance ReadMemory (a\<lparr>m_yn2 := m_yn1 a, m_yn1 := val,
              m_current_address := m_current_address a + 1\<rparr>))
            (\<lambda>(step_size_bytes, a1). Inr (val, step_size_bytes, a1)))
      else if m_sample_format a = 0x0A then
        and_then (read_be16 ReadMemory (m_current_address a * 2)) (\<lambda>val.
          Inr (val, 2, a\<lparr>m_yn2 := m_yn1 a, m_yn1 := val,
              m_current_address := m_current_address a + 1\<rparr>))
      else if m_sample_format a = 0x19 then
        and_then (ReadMemory (m_current_address a)) (\<lambda>b.
          let val = push_bit 8 (ucast b) in
          Inr (val, 2, a\<lparr>m_yn2 := m_yn1 a, m_yn1 := val,
              m_current_address := m_current_address a + 1\<rparr>))
      else Inr (0, 2, a\<lparr>m_current_address := m_current_address a + 1\<rparr>))"

text \<open>The check for the end of the sound; the flag is the call of \<open>OnEndException\<close>.\<close>

definition check_end :: "u32 \<Rightarrow> Accelerator \<Rightarrow> Accelerator \<times> bool" where
  "check_end step_size_bytes a =
     (if m_current_address a = m_end_address a + step_size_bytes - 1
      then (a\<lparr>m_current_address := m_start_address a, m_reads_stopped := True\<rparr>, True)
      else (a, False))"

definition Accelerator_Read :: "(u32 \<Rightarrow> dsp_error + u8) \<Rightarrow> (nat \<Rightarrow> s16) \<Rightarrow> Accelerator
    \<Rightarrow> dsp_error + (u16 \<times> Accelerator \<times> bool)" where
  "Accelerator_Read ReadMemory coefs a =
     (if m_reads_stopped a then Inr (0x0000, a, False)
      else and_then (decode_sample ReadMemory coefs a) (\<lambda>(val, step_size_bytes, a1).
        let (a2, end_exception) = check_end step_size_bytes a1
        in Inr (val, SetCurrentAddress (m_current_address a2) a2, end_exception)))"

subsection \<open>What the accelerator needs of audio memory\<close>

text \<open>
  \<open>rd\<close> and \<open>wr\<close> are total in the states \<open>ok\<close> accepts, a byte written reads back, and
  a write leaves the bytes at addresses of the other parity alone.
\<close>

locale audio_memory =
  fixes rd :: "'s \<Rightarrow> u32 \<Rightarrow> dsp_error + u8"
    and wr :: "u32 \<Rightarrow> u8 \<Rightarrow> 's \<Rightarrow> dsp_error + 's"
    and ok :: "'s \<Rightarrow> bool"
  assumes rd_total: "ok s \<Longrightarrow> \<exists>b. rd s a = Inr b"
    and wr_total: "ok s \<Longrightarrow> \<exists>s'. wr a v s = Inr s' \<and> ok s'"
    and rd_wr_same: "ok s \<Longrightarrow> wr a v s = Inr s' \<Longrightarrow> rd s' a = Inr v"
    and rd_wr_other: "ok s \<Longrightarrow> wr a v s = Inr s' \<Longrightarrow> bit a 0 \<noteq> bit b 0 \<Longrightarrow> rd s' b = rd s b"
begin

lemma wr_cases:
  assumes "ok s"
  obtains s' where "wr a v s = Inr s'" and "ok s'"
  using wr_total [OF assms] by blast

lemma rd_cases:
  assumes "ok s"
  obtains b where "rd s a = Inr b"
  using rd_total [OF assms] by blast

lemma read_be16_total: "ok s \<Longrightarrow> \<exists>v. read_be16 (rd s) a = Inr v"
  by (rule rd_cases [of s a], assumption, rule rd_cases [of s "a + 1"])
    (auto simp: read_be16_def)

lemma adpcm_advance_total: "ok s \<Longrightarrow> \<exists>r. adpcm_advance (rd s) a = Inr r"
  by (rule rd_cases [of s "drop_bit 1 (m_current_address a AND NOT 15)"])
    (auto simp: adpcm_advance_def)

lemma decode_sample_total:
  assumes "ok s"
  shows "\<exists>r. decode_sample (rd s) coefs a = Inr r"
proof -
  obtain b b' where b: "rd s (drop_bit 1 (m_current_address a)) = Inr b"
      and b': "rd s (m_current_address a) = Inr b'"
    using rd_total [OF assms] by blast
  let ?a = "a\<lparr>m_yn2 := m_yn1 a, m_yn1 := adpcm_sample coefs a b,
      m_current_address := m_current_address a + 1\<rparr>"
  obtain v r where "read_be16 (rd s) (m_current_address a * 2) = Inr v"
      and "adpcm_advance (rd s) ?a = Inr r"
    using read_be16_total [OF assms] adpcm_advance_total [OF assms] by blast
  with b b' show ?thesis by (cases r) (auto simp: decode_sample_def Let_def)
qed

lemma read_total: "ok s \<Longrightarrow> \<exists>r. Accelerator_Read (rd s) coefs a = Inr r"
  using decode_sample_total [of s coefs a]
  by (auto simp: Accelerator_Read_def check_end_def split: prod.splits)

text \<open>What \<open>WriteD3\<close> stores is what a 16-bit read at the same address returns.\<close>

lemma d3_roundtrip:
  assumes "ok s" and "m_sample_format a = 0xA"
  shows "\<exists>a' s'. WriteD3 wr v a s = Inr (a', s') \<and> ok s' \<and>
    read_be16 (rd s') (m_current_address a * 2) = Inr v"
proof -
  let ?p = "m_current_address a * 2"
  obtain s1 where s1: "wr ?p (ucast (drop_bit 8 v)) s = Inr s1" "ok s1"
    by (rule wr_cases [OF assms(1)])
  obtain s2 where s2: "wr (?p + 1) (ucast (v AND 0xFF)) s1 = Inr s2" "ok s2"
    by (rule wr_cases [OF s1(2)])
  have par: "bit (?p + 1) 0 \<noteq> bit ?p 0"
    by (simp add: bit_0)
  have "rd s2 ?p = Inr (ucast (drop_bit 8 v))"
    using rd_wr_other [OF s1(2) s2(1) par] rd_wr_same [OF assms(1) s1(1)] by simp
  moreover have "rd s2 (?p + 1) = Inr (ucast (v AND 0xFF))"
    by (rule rd_wr_same [OF s1(2) s2(1)])
  moreover have "push_bit 8 (ucast (ucast (drop_bit 8 v) :: u8)) OR ucast (ucast (v AND 0xFF) :: u8) = v"
    by (rule bit_word_eqI) (auto simp: bit_simps and_eq_take_bit)
  ultimately show ?thesis
    using assms(2) s1(1) s2 by (auto simp: WriteD3_def read_be16_def)
qed

end

subsection \<open>Streaming of PCM samples\<close>

lemma current_mask_id: "\<not> bit x 30 \<Longrightarrow> x AND CURRENT_ADDRESS_MASK = x"
proof -
  assume x: "\<not> bit x 30"
  have m: "CURRENT_ADDRESS_MASK = NOT (2 ^ 30)" by (simp add: CURRENT_ADDRESS_MASK_def)
  show ?thesis
    unfolding m using x
    by (intro bit_word_eqI) (auto simp only: bit_and_iff bit_not_iff bit_exp_iff possible_bit_word)
qed

lemma bit_30_of_small: "x < 0x40000000 \<Longrightarrow> \<not> bit x 30" for x :: u32
proof -
  assume "x < 0x40000000"
  then have "unat x < 2 ^ 30" by (simp add: word_less_nat_alt)
  then have "take_bit 30 x = x"
    by (intro word_unat_eqI) (simp add: unat_take_bit)
  then show ?thesis by (metis bit_take_bit_iff less_irrefl)
qed

definition pcm_format :: "u16 \<Rightarrow> bool" where
  "pcm_format f \<longleftrightarrow> f = 0x0A \<or> f = 0x19"

definition pcm_at :: "(u32 \<Rightarrow> u8) \<Rightarrow> u16 \<Rightarrow> u32 \<Rightarrow> u16" where
  "pcm_at mem f c = (if f = 0x0A then push_bit 8 (ucast (mem (c * 2))) OR ucast (mem (c * 2 + 1))
     else push_bit 8 (ucast (mem c)))"

lemma decode_pcm:
  "pcm_format (m_sample_format a) \<Longrightarrow> decode_sample (\<lambda>x. Inr (mem x)) coefs a =
     Inr (pcm_at mem (m_sample_format a) (m_current_address a), 2,
       a\<lparr>m_yn2 := m_yn1 a, m_yn1 := pcm_at mem (m_sample_format a) (m_current_address a),
         m_current_address := m_current_address a + 1\<rparr>)"
  by (auto simp: pcm_format_def decode_sample_def read_be16_def pcm_at_def Let_def)

text \<open>\<open>n\<close> successive reads: the samples, the registers after them and the end exceptions.\<close>

fun read_samples :: "nat \<Rightarrow> (u32 \<Rightarrow> dsp_error + u8) \<Rightarrow> (nat \<Rightarrow> s16) \<Rightarrow> Accelerator
    \<Rightarrow> dsp_error + (u16 list \<times> bool list \<times> Accelerator)" where
  "read_samples 0 rd coefs a = Inr ([], [], a)"
| "read_samples (Suc n) rd coefs a =
     and_then (Accelerator_Read rd coefs a) (\<lambda>(v, a1, x).
     and_then (read_samples n rd coefs a1) (\<lambda>(vs, xs, a2). Inr (v # vs, x # xs, a2)))"

lemma read_pcm:
  assumes "pcm_format (m_sample_format a)" and "\<not> m_reads_stopped a"
    and "m_end_address a < 0x3fffffff" and "m_current_address a < m_end_address a"
  shows "Accelerator_Read (\<lambda>x. Inr (mem x)) coefs a =
    Inr (pcm_at mem (m_sample_format a) (m_current_address a),
      a\<lparr>m_yn2 := m_yn1 a, m_yn1 := pcm_at mem (m_sample_format a) (m_current_address a),
        m_current_address := m_current_address a + 1\<rparr>, False)"
proof -
  have "m_current_address a + 1 < 0x40000000"
    using assms(3,4) by (simp add: word_less_nat_alt unat_word_ariths)
  then have "(m_current_address a + 1) AND CURRENT_ADDRESS_MASK = m_current_address a + 1"
    by (rule current_mask_id [OF bit_30_of_small])
  moreover have "m_current_address a + 1 \<noteq> m_end_address a + 2 - 1"
    using assms(4) by simp
  ultimately show ?thesis
    using assms(2)
    by (simp add: Accelerator_Read_def decode_pcm [OF assms(1)] check_end_def SetCurrentAddress_def)
qed

lemma read_pcm_end:
  assumes "pcm_format (m_sample_format a)" and "\<not> m_reads_stopped a"
    and "m_current_address a = m_end_address a"
  shows "Accelerator_Read (\<lambda>x. Inr (mem x)) coefs a =
    Inr (pcm_at mem (m_sample_format a) (m_end_address a),
      a\<lparr>m_yn2 := m_yn1 a, m_yn1 := pcm_at mem (m_sample_format a) (m_end_address a),
        m_current_address := m_start_address a AND CURRENT_ADDRESS_MASK, m_reads_stopped := True\<rparr>, True)"
  using assms(2,3)
  by (simp add: Accelerator_Read_def decode_pcm [OF assms(1)] check_end_def SetCurrentAddress_def)

lemma read_samples_pcm:
  assumes "pcm_format (m_sample_format a)" and "\<not> m_reads_stopped a" and "m_end_address a < 0x3fffffff"
    and "unat (m_current_address a) + n = unat (m_end_address a)"
  shows "\<exists>a'. read_samples (Suc n) (\<lambda>x. Inr (mem x)) coefs a =
    Inr (map (\<lambda>k. pcm_at mem (m_sample_format a) (m_current_address a + of_nat k)) [0..<Suc n],
      replicate n False @ [True], a') \<and> m_reads_stopped a' \<and>
      m_current_address a' = m_start_address a AND CURRENT_ADDRESS_MASK"
  using assms
proof (induction n arbitrary: a)
  case 0
  then have "m_current_address a = m_end_address a" by (intro word_unat_eqI) simp
  with read_pcm_end [OF 0(1,2) this] show ?case by simp
next
  case (Suc n)
  let ?c = "m_current_address a" and ?v = "pcm_at mem (m_sample_format a) (m_current_address a)"
  let ?a = "a\<lparr>m_yn2 := m_yn1 a, m_yn1 := ?v, m_current_address := ?c + 1\<rparr>"
  have lt: "?c < m_end_address a" using Suc(5) by (simp add: word_less_nat_alt)
  have "unat (?c + 1) = unat ?c + 1"
    using lt Suc(4) by (simp add: word_less_nat_alt unat_word_ariths)
  then have "unat (m_current_address ?a) + n = unat (m_end_address ?a)" using Suc(5) by simp
  with Suc(1) [of ?a] Suc(2-4) obtain a' where
    r: "read_samples (Suc n) (\<lambda>x. Inr (mem x)) coefs ?a =
      Inr (map (\<lambda>k. pcm_at mem (m_sample_format a) (?c + 1 + of_nat k)) [0..<Suc n],
        replicate n False @ [True], a')"
    and "m_reads_stopped a'" "m_current_address a' = m_start_address a AND CURRENT_ADDRESS_MASK"
    by (auto simp del: read_samples.simps upt_Suc)
  moreover have "map (\<lambda>k. pcm_at mem (m_sample_format a) (?c + of_nat k)) [0..<Suc (Suc n)] =
      ?v # map (\<lambda>k. pcm_at mem (m_sample_format a) (?c + 1 + of_nat k)) [0..<Suc n]"
    unfolding upt_conv_Cons [OF zero_less_Suc] map_Suc_upt [symmetric] by (simp add: ac_simps)
  ultimately show ?case
    by (subst read_samples.simps) (simp add: read_pcm [OF Suc(2-4) lt] r del: read_samples.simps upt_Suc)
qed

text \<open>
  Playing a PCM sound: from any position up to the end address, reads deliver
  the samples of the remaining positions one by one and in order, the end included;
  exactly the last of them raises the overflow exception, sends the current address
  back to the start and stops the accelerator, so that later reads give 0 and change
  nothing until the second history register is written.
\<close>

theorem Accelerator_pcm_stream:
  assumes "pcm_format (m_sample_format a)" and "\<not> m_reads_stopped a"
    and "m_end_address a < 0x3fffffff" and "m_current_address a \<le> m_end_address a"
    and "n = unat (m_end_address a) - unat (m_current_address a)"
  shows "\<exists>a'. read_samples (Suc n) (\<lambda>x. Inr (mem x)) coefs a =
      Inr (map (\<lambda>k. pcm_at mem (m_sample_format a) (m_current_address a + of_nat k)) [0..<Suc n],
        replicate n False @ [True], a') \<and>
      m_current_address a' = m_start_address a AND CURRENT_ADDRESS_MASK \<and>
      Accelerator_Read (\<lambda>x. Inr (mem x)) coefs a' = Inr (0, a', False) \<and>
      \<not> m_reads_stopped (SetYn2 y a')"
proof -
  have "unat (m_current_address a) + n = unat (m_end_address a)"
    using assms(4,5) by (simp add: word_le_nat_alt)
  from read_samples_pcm [OF assms(1-3) this, of mem coefs] show ?thesis
    by (auto simp: Accelerator_Read_def SetYn2_def simp del: read_samples.simps upt_Suc)
qed

definition pcm_test :: Accelerator where
  "pcm_test = accelerator_zero\<lparr>m_sample_format := 0x0A, m_start_address := 1, m_end_address := 2,
     m_current_address := 1\<rparr>"

theorem Accelerator_pcm_stream_witness:
  "\<exists>a'. read_samples 2 (\<lambda>x. Inr (ucast x)) (\<lambda>_. 0) pcm_test =
      Inr ([0x0203, 0x0405], [False, True], a') \<and>
      Accelerator_Read (\<lambda>x. Inr (ucast x)) (\<lambda>_. 0) a' = Inr (0, a', False)"
proof -
  let ?mem = "\<lambda>x. ucast x :: u8"
  have "\<exists>a'. read_samples (Suc 1) (\<lambda>x. Inr (?mem x)) (\<lambda>_. 0) pcm_test =
      Inr (map (\<lambda>k. pcm_at ?mem (m_sample_format pcm_test) (m_current_address pcm_test + of_nat k)) [0..<Suc 1],
        replicate 1 False @ [True], a') \<and>
      m_current_address a' = m_start_address pcm_test AND CURRENT_ADDRESS_MASK \<and>
      Accelerator_Read (\<lambda>x. Inr (?mem x)) (\<lambda>_. 0) a' = Inr (0, a', False) \<and>
      \<not> m_reads_stopped (SetYn2 0 a')"
    by (rule Accelerator_pcm_stream) (simp_all add: pcm_test_def accelerator_zero_def pcm_format_def)
  moreover have "map (\<lambda>k. pcm_at ?mem (m_sample_format pcm_test) (m_current_address pcm_test + of_nat k)) [0..<Suc 1]
      = [0x0203, 0x0405]"
    by (simp add: pcm_test_def pcm_at_def)
  ultimately show ?thesis
    unfolding numeral_2_eq_2 One_nat_def by (auto simp del: read_samples.simps)
qed

subsection \<open>ADPCM samples\<close>

text \<open>
  Whatever the coefficients, the history and the bits of the sound, an ADPCM
  sample is clamped to the symmetric 16-bit range.
\<close>

theorem adpcm_sample_range: "\<bar>sint (adpcm_sample coefs a b)\<bar> \<le> 0x7FFF"
proof -
  have "\<bar>sint (word_of_int (clamp_s32 v (- 0x7FFF) 0x7FFF) :: s16)\<bar> \<le> 0x7FFF" for v
  proof -
    have "- 0x7FFF \<le> clamp_s32 v (- 0x7FFF) 0x7FFF" "clamp_s32 v (- 0x7FFF) 0x7FFF \<le> 0x7FFF"
      by (simp_all add: clamp_s32_def)
    then show ?thesis
      by (simp add: sint_sbintrunc' signed_take_bit_int_eq_self)
  qed
  then show ?thesis by (simp add: adpcm_sample_def Let_def)
qed

end
