(* ===== verification/DSP_HWInterface.thy ===== *)
theory DSP_HWInterface
  imports DSP_Analyzer DSP_Accelerator
begin

text \<open>
  The hardware registers of the DSP (\<^verbatim>\<open>Core/DSP/DSPHWInterface.cpp\<close>): the mailboxes
  shared with the main CPU, the accelerator registers and the DMA engine, with the
  functions of the host they call (\<^verbatim>\<open>HW/DSPLLE/DSPHost.cpp\<close>, \<^verbatim>\<open>HW/DSP.cpp\<close>). The
  capture logger and the symbol database of the debugger are left out: nothing
  reads them back.

  An operation that can leave the memory it may use returns an error: a DMA longer
  than \<open>0x4000\<close> bytes exits, one past the end of IRAM or DRAM is \<open>Out_Of_Bounds\<close>, one
  at an unmapped host address is \<open>Unmapped\<close>.
\<close>

unbundle bit_operations_syntax

abbreviation (input) DSP_COEF_A1_0 :: u8 where "DSP_COEF_A1_0 \<equiv> 0xa0"
abbreviation (input) DSP_DSCR :: u8 where "DSP_DSCR \<equiv> 0xc9"
abbreviation (input) DSP_DSBL :: u8 where "DSP_DSBL \<equiv> 0xcb"
abbreviation (input) DSP_DSPA :: u8 where "DSP_DSPA \<equiv> 0xcd"
abbreviation (input) DSP_DSMAH :: u8 where "DSP_DSMAH \<equiv> 0xce"
abbreviation (input) DSP_DSMAL :: u8 where "DSP_DSMAL \<equiv> 0xcf"
abbreviation (input) DSP_FORMAT :: u8 where "DSP_FORMAT \<equiv> 0xd1"
abbreviation (input) DSP_ACDATA1 :: u8 where "DSP_ACDATA1 \<equiv> 0xd3"
abbreviation (input) DSP_ACSAH :: u8 where "DSP_ACSAH \<equiv> 0xd4"
abbreviation (input) DSP_ACSAL :: u8 where "DSP_ACSAL \<equiv> 0xd5"
abbreviation (input) DSP_ACEAH :: u8 where "DSP_ACEAH \<equiv> 0xd6"
abbreviation (input) DSP_ACEAL :: u8 where "DSP_ACEAL \<equiv> 0xd7"
abbreviation (input) DSP_ACCAH :: u8 where "DSP_ACCAH \<equiv> 0xd8"
abbreviation (input) DSP_ACCAL :: u8 where "DSP_ACCAL \<equiv> 0xd9"
abbreviation (input) DSP_PRED_SCALE :: u8 where "DSP_PRED_SCALE \<equiv> 0xda"
abbreviation (input) DSP_YN1 :: u8 where "DSP_YN1 \<equiv> 0xdb"
abbreviation (input) DSP_YN2 :: u8 where "DSP_YN2 \<equiv> 0xdc"
abbreviation (input) DSP_ACCELERATOR :: u8 where "DSP_ACCELERATOR \<equiv> 0xdd"
abbreviation (input) DSP_AMDM :: u8 where "DSP_AMDM \<equiv> 0xef"
abbreviation (input) DSP_DIRQ :: u8 where "DSP_DIRQ \<equiv> 0xfb"
abbreviation (input) DSP_DMBH :: u8 where "DSP_DMBH \<equiv> 0xfc"
abbreviation (input) DSP_DMBL :: u8 where "DSP_DMBL \<equiv> 0xfd"
abbreviation (input) DSP_CMBH :: u8 where "DSP_CMBH \<equiv> 0xfe"
abbreviation (input) DSP_CMBL :: u8 where "DSP_CMBL \<equiv> 0xff"

subsection \<open>Host memory\<close>

definition REALRAM_SIZE :: u32 where "REALRAM_SIZE = 0x01800000"
definition RAM_MASK :: u32 where "RAM_MASK = 0x01ffffff"

definition cpu_byte :: "SDSP \<Rightarrow> u32 \<Rightarrow> dsp_error + u8" where
  "cpu_byte d p = (case g_cpu_ram d p of None \<Rightarrow> Inl Unmapped | Some b \<Rightarrow> Inr b)"

definition cpu_put :: "u32 \<Rightarrow> u8 \<Rightarrow> SDSP \<Rightarrow> dsp_result" where
  "cpu_put p b d = (case g_cpu_ram d p of None \<Rightarrow> Inl Unmapped
     | Some _ \<Rightarrow> Inr (d\<lparr>g_cpu_ram := (g_cpu_ram d)(p := Some b)\<rparr>))"

text \<open>\<^verbatim>\<open>Memory::Read_U8\<close> of an address below \<open>RAM_MASK\<close>: a null pointer past the real RAM.\<close>

definition Read_U8 :: "SDSP \<Rightarrow> u32 \<Rightarrow> dsp_error + u8" where
  "Read_U8 d address = (if address < REALRAM_SIZE then cpu_byte d address else Inl Unmapped)"

definition ReadARAM :: "SDSP \<Rightarrow> u32 \<Rightarrow> dsp_error + u8" where
  "ReadARAM d address =
     (if g_aram_wii d then
        (if address AND 0x10000000 \<noteq> 0 then cpu_byte d (0x10000000 + (address AND g_aram_mask d))
         else Read_U8 d (address AND RAM_MASK))
      else Inr (g_aram d (address AND g_aram_mask d)))"

definition WriteARAM :: "u8 \<Rightarrow> u32 \<Rightarrow> SDSP \<Rightarrow> dsp_result" where
  "WriteARAM value address d =
     (if g_aram_wii d then cpu_put (0x10000000 + (address AND g_aram_mask d)) value d
      else Inr (d\<lparr>g_aram := (g_aram d)(address AND g_aram_mask d := value)\<rparr>))"

definition ReadHostMemory :: "SDSP \<Rightarrow> u32 \<Rightarrow> dsp_error + u8" where
  "ReadHostMemory d addr = ReadARAM d addr"

definition WriteHostMemory :: "u32 \<Rightarrow> u8 \<Rightarrow> SDSP \<Rightarrow> dsp_result" where
  "WriteHostMemory addr value d = WriteARAM value addr d"

definition InterruptRequest :: "SDSP \<Rightarrow> SDSP" where
  "InterruptRequest d = d\<lparr>g_int_requests := g_int_requests d + 1\<rparr>"

text \<open>\<open>CodeLoaded\<close>: of its effects, the analysis is the one the emulation depends on.\<close>

definition CodeLoaded :: "SDSP \<Rightarrow> dsp_result" where
  "CodeLoaded d = Analyze d"

subsection \<open>Functions of the core the registers call\<close>

definition DSPCore_Reset :: "SDSP \<Rightarrow> dsp_result" where
  "DSPCore_Reset d =
     Analyze (d\<lparr>g_pc := DSP_RESET_VECTOR, g_r := (g_r d)\<lparr>r_wr := (\<lambda>_. 0xffff)\<rparr>\<rparr>)"

definition DSPCore_SetException :: "nat \<Rightarrow> SDSP \<Rightarrow> SDSP" where
  "DSPCore_SetException level d = d\<lparr>g_exceptions := g_exceptions d OR push_bit level 1\<rparr>"

subsection \<open>Mailboxes\<close>

definition gdsp_ifx_init :: "SDSP \<Rightarrow> SDSP" where
  "gdsp_ifx_init d = d\<lparr>g_ifx_regs := (\<lambda>_. 0),
     g_mbox := (g_mbox d)(MAILBOX_CPU := 0, MAILBOX_DSP := 0)\<rparr>"

definition gdsp_mbox_peek :: "Mailbox \<Rightarrow> SDSP \<Rightarrow> u32" where
  "gdsp_mbox_peek mbx d = g_mbox d mbx"

definition gdsp_mbox_write_h :: "Mailbox \<Rightarrow> u16 \<Rightarrow> SDSP \<Rightarrow> SDSP" where
  "gdsp_mbox_write_h mbx val d =
     (let old_value = g_mbox d mbx;
          new_value = (old_value AND 0xffff) OR push_bit 16 (ucast val)
      in d\<lparr>g_mbox := (g_mbox d)(mbx := new_value AND NOT 0x80000000)\<rparr>)"

definition gdsp_mbox_write_l :: "Mailbox \<Rightarrow> u16 \<Rightarrow> SDSP \<Rightarrow> SDSP" where
  "gdsp_mbox_write_l mbx val d =
     (let old_value = g_mbox d mbx;
          new_value = (old_value AND NOT 0xffff) OR ucast val
      in d\<lparr>g_mbox := (g_mbox d)(mbx := new_value OR 0x80000000)\<rparr>)"

definition gdsp_mbox_read_h :: "Mailbox \<Rightarrow> SDSP \<Rightarrow> u16" where
  "gdsp_mbox_read_h mbx d =
     (if g_init_hax d \<and> mbx = MAILBOX_DSP then 0x8054
      else ucast (drop_bit 16 (g_mbox d mbx)))"

definition gdsp_mbox_read_l :: "Mailbox \<Rightarrow> SDSP \<Rightarrow> dsp_error + (u16 \<times> SDSP)" where
  "gdsp_mbox_read_l mbx d =
     (let value = g_mbox d mbx;
          d1 = d\<lparr>g_mbox := (g_mbox d)(mbx := value AND NOT 0x80000000)\<rparr>
      in if g_init_hax d \<and> mbx = MAILBOX_DSP then
           and_then (DSPCore_Reset (d1\<lparr>g_init_hax := False\<rparr>)) (\<lambda>d2. Inr (0x4348, d2))
         else Inr (ucast value, d1))"

subsection \<open>DMA\<close>

definition swap16 :: "u16 \<Rightarrow> u16" where
  "swap16 v = push_bit 8 v OR drop_bit 8 v"

text \<open>A 16-bit value in host memory, on a little-endian host.\<close>

definition le16 :: "u8 \<Rightarrow> u8 \<Rightarrow> u16" where
  "le16 lo hi = ucast lo OR push_bit 8 (ucast hi)"

fun read_bytes :: "SDSP \<Rightarrow> u32 \<Rightarrow> nat \<Rightarrow> dsp_error + u8 list" where
  "read_bytes d p 0 = Inr []"
| "read_bytes d p (Suc n) =
     and_then (cpu_byte d p) (\<lambda>b. and_then (read_bytes d (p + 1) n) (\<lambda>bs. Inr (b # bs)))"

fun write_bytes :: "u32 \<Rightarrow> u8 list \<Rightarrow> SDSP \<Rightarrow> dsp_result" where
  "write_bytes p [] d = Inr d"
| "write_bytes p (b # bs) d = and_then (cpu_put p b d) (write_bytes (p + 1) bs)"

definition cpu_half :: "SDSP \<Rightarrow> u32 \<Rightarrow> dsp_error + u16" where
  "cpu_half d p = and_then (cpu_byte d p) (\<lambda>lo. and_then (cpu_byte d (p + 1)) (\<lambda>hi. Inr (le16 lo hi)))"

definition cpu_put_half :: "u32 \<Rightarrow> u16 \<Rightarrow> SDSP \<Rightarrow> dsp_result" where
  "cpu_put_half p v d = and_then (cpu_put p (ucast v) d) (cpu_put (p + 1) (ucast (drop_bit 8 v)))"

text \<open>\<^verbatim>\<open>HashEctor\<close> of \<^verbatim>\<open>Common/Hash.cpp\<close>.\<close>

definition HashEctor :: "u8 list \<Rightarrow> u32" where
  "HashEctor bytes =
     fold (\<lambda>b crc. let c = crc XOR ucast b in push_bit 3 c OR drop_bit 29 c) bytes 0"

text \<open>\<^verbatim>\<open>memcpy\<close> into 16-bit words (an odd last byte sets the low half of a word), then the swap.\<close>

fun memcpy_words :: "u16 \<Rightarrow> u8 list \<Rightarrow> (u16 \<Rightarrow> u16) \<Rightarrow> u16 \<Rightarrow> u16" where
  "memcpy_words a [] m = m"
| "memcpy_words a [lo] m = m(a := (m a AND 0xFF00) OR ucast lo)"
| "memcpy_words a (lo # hi # bs) m = memcpy_words (a + 1) bs (m(a := le16 lo hi))"

fun swap_words :: "u16 \<Rightarrow> nat \<Rightarrow> (u16 \<Rightarrow> u16) \<Rightarrow> u16 \<Rightarrow> u16" where
  "swap_words a 0 m = m"
| "swap_words a (Suc n) m = swap_words (a + 1) n (m(a := swap16 (m a)))"

definition gdsp_idma_in :: "u16 \<Rightarrow> u32 \<Rightarrow> nat \<Rightarrow> SDSP \<Rightarrow> dsp_result" where
  "gdsp_idma_in dsp_addr addr sz d =
     and_then (read_bytes d (addr AND 0x0fffffff) sz) (\<lambda>code.
       let d1 = d\<lparr>g_iram_crc := HashEctor code\<rparr>; dst = dsp_addr div 2 in
       if 2 * unat dst + sz > DSP_IRAM_BYTE_SIZE then Inl Out_Of_Bounds
       else CodeLoaded (d1\<lparr>g_iram := swap_words dst (sz div 2) (memcpy_words dst code (g_iram d1))\<rparr>))"

definition gdsp_idma_out :: "u16 \<Rightarrow> u32 \<Rightarrow> nat \<Rightarrow> SDSP \<Rightarrow> dsp_result" where
  "gdsp_idma_out dsp_addr addr sz d = Inr d"

text \<open>One 16-bit word of DRAM, by its byte address (always even).\<close>

definition dram_put :: "nat \<Rightarrow> u16 \<Rightarrow> SDSP \<Rightarrow> dsp_result" where
  "dram_put b v d = (if b + 2 > DSP_DRAM_BYTE_SIZE then Inl Out_Of_Bounds
     else Inr (d\<lparr>g_dram := (g_dram d)(of_nat (b div 2) := v)\<rparr>))"

definition dram_get :: "nat \<Rightarrow> SDSP \<Rightarrow> dsp_error + u16" where
  "dram_get b d = (if b + 2 > DSP_DRAM_BYTE_SIZE then Inl Out_Of_Bounds
     else Inr (g_dram d (of_nat (b div 2))))"

text \<open>\<^verbatim>\<open>_mm_shuffle_epi8\<close> with \<open>s_mask\<close>, least significant byte first.\<close>

definition s_mask :: "nat list" where
  "s_mask = [0x01, 0x00, 0x03, 0x02, 0x05, 0x04, 0x07, 0x06, 0x09, 0x08, 0x0B, 0x0A, 0x0D, 0x0C, 0x0F, 0x0E]"

definition shuffle_epi8 :: "u8 list \<Rightarrow> u8 list" where
  "shuffle_epi8 bs = map (\<lambda>k. bs ! k) s_mask"

fun dram_store :: "nat \<Rightarrow> u8 list \<Rightarrow> SDSP \<Rightarrow> dsp_result" where
  "dram_store b (lo # hi # bs) d = and_then (dram_put b (le16 lo hi) d) (dram_store (b + 2) bs)"
| "dram_store b _ d = Inr d"

fun dram_load :: "nat \<Rightarrow> nat \<Rightarrow> SDSP \<Rightarrow> dsp_error + u8 list" where
  "dram_load b 0 d = Inr []"
| "dram_load b (Suc n) d = and_then (dram_get b d) (\<lambda>v.
     and_then (dram_load (b + 2) n d) (\<lambda>bs. Inr (ucast v # ucast (drop_bit 8 v) # bs)))"

text \<open>The loops \<^verbatim>\<open>for (i = 0; i < size; i += 16)\<close> and \<^verbatim>\<open>i += 2\<close>, from \<open>i\<close> on.\<close>

function gdsp_ddma_in_SSSE3 :: "nat \<Rightarrow> u16 \<Rightarrow> u32 \<Rightarrow> nat \<Rightarrow> SDSP \<Rightarrow> dsp_result" where
  "gdsp_ddma_in_SSSE3 i dsp_addr addr sz d =
     (if i < sz then
        and_then (read_bytes d ((addr + of_nat i) AND 0x7FFFFFFF) 16) (\<lambda>bs.
        and_then (dram_store (unat dsp_addr + i) (shuffle_epi8 bs) d)
          (gdsp_ddma_in_SSSE3 (i + 16) dsp_addr addr sz))
      else Inr d)"
  by pat_completeness auto
termination by (relation "measure (\<lambda>(i, _, _, sz, _). sz - i)") auto

function gdsp_ddma_out_SSSE3 :: "nat \<Rightarrow> u16 \<Rightarrow> u32 \<Rightarrow> nat \<Rightarrow> SDSP \<Rightarrow> dsp_result" where
  "gdsp_ddma_out_SSSE3 i dsp_addr addr sz d =
     (if i < sz then
        and_then (dram_load (unat dsp_addr + i) 8 d) (\<lambda>bs.
        and_then (write_bytes ((addr + of_nat i) AND 0x7FFFFFFF) (shuffle_epi8 bs) d)
          (gdsp_ddma_out_SSSE3 (i + 16) dsp_addr addr sz))
      else Inr d)"
  by pat_completeness auto
termination by (relation "measure (\<lambda>(i, _, _, sz, _). sz - i)") auto

function ddma_in_loop :: "nat \<Rightarrow> u16 \<Rightarrow> u32 \<Rightarrow> nat \<Rightarrow> SDSP \<Rightarrow> dsp_result" where
  "ddma_in_loop i dsp_addr addr sz d =
     (if i < sz then
        and_then (cpu_half d ((addr + of_nat i) AND 0x7FFFFFFF)) (\<lambda>v.
        and_then (dram_put (unat dsp_addr + i) (swap16 v) d)
          (ddma_in_loop (i + 2) dsp_addr addr sz))
      else Inr d)"
  by pat_completeness auto
termination by (relation "measure (\<lambda>(i, _, _, sz, _). sz - i)") auto

function ddma_out_loop :: "nat \<Rightarrow> u16 \<Rightarrow> u32 \<Rightarrow> nat \<Rightarrow> SDSP \<Rightarrow> dsp_result" where
  "ddma_out_loop i dsp_addr addr sz d =
     (if i < sz then
        and_then (dram_get (unat dsp_addr + i) d) (\<lambda>v.
        and_then (cpu_put_half ((addr + of_nat i) AND 0x7FFFFFFF) (swap16 v) d)
          (ddma_out_loop (i + 2) dsp_addr addr sz))
      else Inr d)"
  by pat_completeness auto
termination by (relation "measure (\<lambda>(i, _, _, sz, _). sz - i)") auto

declare gdsp_ddma_in_SSSE3.simps [simp del] gdsp_ddma_out_SSSE3.simps [simp del]
  ddma_in_loop.simps [simp del] ddma_out_loop.simps [simp del]

definition gdsp_ddma_in :: "u16 \<Rightarrow> u32 \<Rightarrow> nat \<Rightarrow> SDSP \<Rightarrow> dsp_result" where
  "gdsp_ddma_in dsp_addr addr sz d =
     (if g_bSSSE3 d \<and> sz mod 16 = 0 then gdsp_ddma_in_SSSE3 0 dsp_addr addr sz d
      else ddma_in_loop 0 dsp_addr addr sz d)"

definition gdsp_ddma_out :: "u16 \<Rightarrow> u32 \<Rightarrow> nat \<Rightarrow> SDSP \<Rightarrow> dsp_result" where
  "gdsp_ddma_out dsp_addr addr sz d =
     (if g_bSSSE3 d \<and> sz mod 16 = 0 then gdsp_ddma_out_SSSE3 0 dsp_addr addr sz d
      else ddma_out_loop 0 dsp_addr addr sz d)"

definition gdsp_do_dma :: "SDSP \<Rightarrow> dsp_result" where
  "gdsp_do_dma d =
     (let addr = push_bit 16 (ucast (g_ifx_regs d DSP_DSMAH)) OR ucast (g_ifx_regs d DSP_DSMAL);
          ctl = g_ifx_regs d DSP_DSCR;
          dsp_addr = g_ifx_regs d DSP_DSPA * 2;
          len = g_ifx_regs d DSP_DSBL
      in if len > 0x4000 then Inl DMA_Exit
         else if ctl AND 0x3 = 1 then gdsp_ddma_out dsp_addr addr (unat len) d
         else if ctl AND 0x3 = 0 then gdsp_ddma_in dsp_addr addr (unat len) d
         else if ctl AND 0x3 = 3 then gdsp_idma_out dsp_addr addr (unat len) d
         else gdsp_idma_in dsp_addr addr (unat len) d)"

subsection \<open>Register reads and writes\<close>

definition set_ifx :: "u8 \<Rightarrow> u16 \<Rightarrow> SDSP \<Rightarrow> SDSP" where
  "set_ifx i v d = d\<lparr>g_ifx_regs := (g_ifx_regs d)(i := v)\<rparr>"

definition set_hi :: "u16 \<Rightarrow> u32 \<Rightarrow> u32" where
  "set_hi val x = push_bit 16 (ucast val) OR ucast (ucast x :: u16)"

definition set_lo :: "u16 \<Rightarrow> u32 \<Rightarrow> u32" where
  "set_lo val x = push_bit 16 (ucast (ucast (drop_bit 16 x) :: u16)) OR ucast val"

definition upd_acc :: "(Accelerator \<Rightarrow> Accelerator) \<Rightarrow> SDSP \<Rightarrow> SDSP" where
  "upd_acc f d = d\<lparr>g_accelerator := f (g_accelerator d)\<rparr>"

definition gdsp_ifx_write :: "u16 \<Rightarrow> u16 \<Rightarrow> SDSP \<Rightarrow> dsp_result" where
  "gdsp_ifx_write addr val d =
     (let r = ucast addr :: u8; acc = g_accelerator d in
      if r = DSP_DIRQ then Inr (if val AND 1 \<noteq> 0 then InterruptRequest d else d)
      else if r = DSP_DMBH then Inr (gdsp_mbox_write_h MAILBOX_DSP val d)
      else if r = DSP_DMBL then Inr (gdsp_mbox_write_l MAILBOX_DSP val d)
      else if r = DSP_CMBH then Inr (gdsp_mbox_write_h MAILBOX_CPU val d)
      else if r = DSP_CMBL then Inr (gdsp_mbox_write_l MAILBOX_CPU val d)
      else if r = DSP_DSBL then
        (let d1 = set_ifx DSP_DSBL val d;
             d2 = set_ifx DSP_DSCR (g_ifx_regs d1 DSP_DSCR OR 4) d1
         in and_then (if g_ifx_regs d2 DSP_AMDM = 0 then gdsp_do_dma d2 else Inr d2) (\<lambda>d3.
              Inr (set_ifx DSP_DSBL 0 (set_ifx DSP_DSCR (g_ifx_regs d3 DSP_DSCR AND NOT 4) d3))))
      else if r = DSP_ACSAH then Inr (upd_acc (SetStartAddress (set_hi val (m_start_address acc))) d)
      else if r = DSP_ACSAL then Inr (upd_acc (SetStartAddress (set_lo val (m_start_address acc))) d)
      else if r = DSP_ACEAH then Inr (upd_acc (SetEndAddress (set_hi val (m_end_address acc))) d)
      else if r = DSP_ACEAL then Inr (upd_acc (SetEndAddress (set_lo val (m_end_address acc))) d)
      else if r = DSP_ACCAH then Inr (upd_acc (SetCurrentAddress (set_hi val (m_current_address acc))) d)
      else if r = DSP_ACCAL then Inr (upd_acc (SetCurrentAddress (set_lo val (m_current_address acc))) d)
      else if r = DSP_FORMAT then Inr (upd_acc (SetSampleFormat val) d)
      else if r = DSP_YN1 then Inr (upd_acc (SetYn1 val) d)
      else if r = DSP_YN2 then Inr (upd_acc (SetYn2 val) d)
      else if r = DSP_PRED_SCALE then Inr (upd_acc (SetPredScale val) d)
      else if r = DSP_ACDATA1 then
        and_then (WriteD3 WriteHostMemory val acc d) (\<lambda>(a1, d1). Inr (d1\<lparr>g_accelerator := a1\<rparr>))
      else Inr (set_ifx r val d))"

definition accelerator_read_reg :: "SDSP \<Rightarrow> dsp_error + (u16 \<times> SDSP)" where
  "accelerator_read_reg d =
     and_then (Accelerator_Read (ReadHostMemory d) (\<lambda>n. g_ifx_regs d (DSP_COEF_A1_0 + of_nat n))
         (g_accelerator d))
       (\<lambda>(val, a1, end_exception).
          let d1 = d\<lparr>g_accelerator := a1\<rparr>
          in Inr (val, if end_exception then DSPCore_SetException EXP_ACCOV d1 else d1))"

definition gdsp_ifx_read :: "u16 \<Rightarrow> SDSP \<Rightarrow> dsp_error + (u16 \<times> SDSP)" where
  "gdsp_ifx_read addr d =
     (let r = ucast addr :: u8; acc = g_accelerator d in
      if r = DSP_DMBH then Inr (gdsp_mbox_read_h MAILBOX_DSP d, d)
      else if r = DSP_DMBL then gdsp_mbox_read_l MAILBOX_DSP d
      else if r = DSP_CMBH then Inr (gdsp_mbox_read_h MAILBOX_CPU d, d)
      else if r = DSP_CMBL then gdsp_mbox_read_l MAILBOX_CPU d
      else if r = DSP_DSCR then Inr (g_ifx_regs d r, d)
      else if r = DSP_ACSAH then Inr (ucast (drop_bit 16 (m_start_address acc)), d)
      else if r = DSP_ACSAL then Inr (ucast (m_start_address acc), d)
      else if r = DSP_ACEAH then Inr (ucast (drop_bit 16 (m_end_address acc)), d)
      else if r = DSP_ACEAL then Inr (ucast (m_end_address acc), d)
      else if r = DSP_ACCAH then Inr (ucast (drop_bit 16 (m_current_address acc)), d)
      else if r = DSP_ACCAL then Inr (ucast (m_current_address acc), d)
      else if r = DSP_FORMAT then Inr (m_sample_format acc, d)
      else if r = DSP_YN1 then Inr (m_yn1 acc, d)
      else if r = DSP_YN2 then Inr (m_yn2 acc, d)
      else if r = DSP_PRED_SCALE then Inr (m_pred_scale acc, d)
      else if r = DSP_ACCELERATOR then accelerator_read_reg d
      else if r = DSP_ACDATA1 then
        and_then (ReadD3 (ReadHostMemory d) acc) (\<lambda>(val, a1). Inr (val, d\<lparr>g_accelerator := a1\<rparr>))
      else Inr (g_ifx_regs d r, d))"

subsection \<open>What the registers leave alone\<close>

text \<open>
  The start and end addresses of the accelerator keep within their 30 bits, and no
  register access touches the hardware stacks, the write-back log, the control
  register, the core state or the ROMs. The loops of the program stay marked, since
  whatever loads a program analyses it; and only the boot protocol that a mailbox read
  completes, while \<open>g_init_hax\<close> is set, reaches the registers.
\<close>

definition acc_ok :: "Accelerator \<Rightarrow> bool" where
  "acc_ok a \<longleftrightarrow> m_start_address a AND START_END_ADDRESS_MASK = m_start_address a \<and>
     m_end_address a AND START_END_ADDRESS_MASK = m_end_address a"

definition hw_frame :: "SDSP \<Rightarrow> SDSP \<Rightarrow> bool" where
  "hw_frame d d' \<longleftrightarrow> g_reg_stack_ptr d' = g_reg_stack_ptr d \<and> g_reg_stack d' = g_reg_stack d \<and>
     g_writeBackLog d' = g_writeBackLog d \<and> g_writeBackLogIdx d' = g_writeBackLogIdx d \<and>
     g_cr d' = g_cr d \<and> g_core_state d' = g_core_state d \<and> g_step_counter d' = g_step_counter d \<and>
     g_irom d' = g_irom d \<and> g_coef d' = g_coef d \<and>
     (acc_ok (g_accelerator d) \<longrightarrow> acc_ok (g_accelerator d')) \<and>
     (analysed d \<longrightarrow> analysed d') \<and>
     (\<not> g_init_hax d \<longrightarrow> \<not> g_init_hax d' \<and> g_pc d' = g_pc d \<and> g_r d' = g_r d)"

lemma hw_frame_refl [simp]: "hw_frame d d"
  by (simp add: hw_frame_def)

lemma hw_frame_trans [trans]: "hw_frame a b \<Longrightarrow> hw_frame b c \<Longrightarrow> hw_frame a c"
  by (auto simp: hw_frame_def)

lemma acc_ok_set [simp]: "acc_ok a \<Longrightarrow> acc_ok (SetStartAddress x a)"
  "acc_ok a \<Longrightarrow> acc_ok (SetEndAddress x a)" "acc_ok (SetCurrentAddress x a) = acc_ok a"
  "acc_ok (SetSampleFormat f a) = acc_ok a" "acc_ok (SetYn1 y a) = acc_ok a"
  "acc_ok (SetYn2 y a) = acc_ok a" "acc_ok (SetPredScale f a) = acc_ok a"
  by (simp_all add: acc_ok_def SetStartAddress_def SetEndAddress_def SetCurrentAddress_def
      SetSampleFormat_def SetYn1_def SetYn2_def SetPredScale_def and.assoc)

lemma acc_ok_cong:
  "m_start_address a = m_start_address b \<Longrightarrow> m_end_address a = m_end_address b \<Longrightarrow> acc_ok a = acc_ok b"
  by (simp add: acc_ok_def)

lemma ReadD3_keeps:
  "ReadD3 rd a = Inr (v, a') \<Longrightarrow> m_start_address a' = m_start_address a \<and> m_end_address a' = m_end_address a"
  by (auto simp: ReadD3_def and_then_eq_Inr_conv split: if_splits prod.splits)

lemma WriteD3_keeps:
  "WriteD3 wr v a s = Inr (a', s') \<Longrightarrow> m_start_address a' = m_start_address a \<and> m_end_address a' = m_end_address a"
  by (auto simp: WriteD3_def and_then_eq_Inr_conv split: if_splits prod.splits)

lemma decode_sample_keeps:
  "decode_sample rd c a = Inr (v, n, a') \<Longrightarrow>
   m_start_address a' = m_start_address a \<and> m_end_address a' = m_end_address a"
  by (auto simp: decode_sample_def adpcm_advance_def and_then_eq_Inr_conv Let_def
      split: if_splits prod.splits)

lemma Accelerator_Read_keeps:
  "Accelerator_Read rd c a = Inr (v, a', x) \<Longrightarrow>
   m_start_address a' = m_start_address a \<and> m_end_address a' = m_end_address a"
  by (auto simp: Accelerator_Read_def check_end_def SetCurrentAddress_def and_then_eq_Inr_conv
      dest!: decode_sample_keeps split: if_splits prod.splits)

lemma cpu_put_frame: "cpu_put p b d = Inr d' \<Longrightarrow> hw_frame d d'"
  by (auto simp: cpu_put_def hw_frame_def split: option.splits)

lemma cpu_put_half_frame: "cpu_put_half p v d = Inr d' \<Longrightarrow> hw_frame d d'"
  by (auto simp: cpu_put_half_def and_then_eq_Inr_conv dest: cpu_put_frame intro: hw_frame_trans)

lemma dram_put_frame: "dram_put p b d = Inr d' \<Longrightarrow> hw_frame d d'"
  by (auto simp: dram_put_def hw_frame_def split: if_splits)

lemma WriteHostMemory_frame: "WriteHostMemory a v d = Inr d' \<Longrightarrow> hw_frame d d' \<and> g_accelerator d' = g_accelerator d"
  by (auto simp: WriteHostMemory_def WriteARAM_def cpu_put_def hw_frame_def split: if_splits option.splits)

lemma WriteD3_frame: "WriteD3 WriteHostMemory v a d = Inr (a', d') \<Longrightarrow> hw_frame d d'"
  by (auto simp: WriteD3_def and_then_eq_Inr_conv split: if_splits
      dest!: WriteHostMemory_frame intro: hw_frame_trans)

lemma write_bytes_frame: "write_bytes p bs d = Inr d' \<Longrightarrow> hw_frame d d'"
  by (induction p bs d rule: write_bytes.induct)
    (auto simp: and_then_eq_Inr_conv dest: cpu_put_frame intro: hw_frame_trans)

lemma dram_store_frame: "dram_store p bs d = Inr d' \<Longrightarrow> hw_frame d d'"
  by (induction p bs d rule: dram_store.induct)
    (auto simp: and_then_eq_Inr_conv dest: dram_put_frame intro: hw_frame_trans)

lemma ddma_in_SSSE3_frame: "gdsp_ddma_in_SSSE3 i a p n d = Inr d' \<Longrightarrow> hw_frame d d'"
proof (induction i a p n d rule: gdsp_ddma_in_SSSE3.induct)
  case (1 i a p n d)
  from 1(2) show ?case
    by (subst (asm) gdsp_ddma_in_SSSE3.simps)
      (auto simp: and_then_eq_Inr_conv split: if_splits dest: dram_store_frame 1(1) intro: hw_frame_trans)
qed

lemma ddma_out_SSSE3_frame: "gdsp_ddma_out_SSSE3 i a p n d = Inr d' \<Longrightarrow> hw_frame d d'"
proof (induction i a p n d rule: gdsp_ddma_out_SSSE3.induct)
  case (1 i a p n d)
  from 1(2) show ?case
    by (subst (asm) gdsp_ddma_out_SSSE3.simps)
      (auto simp: and_then_eq_Inr_conv split: if_splits dest: write_bytes_frame 1(1) intro: hw_frame_trans)
qed

lemma ddma_in_loop_frame: "ddma_in_loop i a p n d = Inr d' \<Longrightarrow> hw_frame d d'"
proof (induction i a p n d rule: ddma_in_loop.induct)
  case (1 i a p n d)
  from 1(2) show ?case
    by (subst (asm) ddma_in_loop.simps)
      (auto simp: and_then_eq_Inr_conv simp del: add_2_eq_Suc' split: if_splits
        dest: dram_put_frame 1(1) intro: hw_frame_trans)
qed

lemma ddma_out_loop_frame: "ddma_out_loop i a p n d = Inr d' \<Longrightarrow> hw_frame d d'"
proof (induction i a p n d rule: ddma_out_loop.induct)
  case (1 i a p n d)
  from 1(2) show ?case
    by (subst (asm) ddma_out_loop.simps)
      (auto simp: and_then_eq_Inr_conv simp del: add_2_eq_Suc' split: if_splits
        dest: cpu_put_half_frame 1(1) intro: hw_frame_trans)
qed

lemma Analyze_frame: "Analyze d = Inr d' \<Longrightarrow> hw_frame d d'"
  by (frule Analyze_analysed, rule Analyze_cases [of d]) (auto simp: hw_frame_def)

lemma Analyze_frame_load: "Analyze (d\<lparr>g_iram_crc := c, g_iram := m\<rparr>) = Inr d' \<Longrightarrow> hw_frame d d'"
  by (frule Analyze_analysed, drule Analyze_frame) (auto simp: hw_frame_def)

lemma DSPCore_Reset_frame:
  "DSPCore_Reset d = Inr d' \<Longrightarrow> g_init_hax e \<Longrightarrow> hw_frame (e\<lparr>g_init_hax := False\<rparr>) d \<Longrightarrow> hw_frame e d'"
  unfolding DSPCore_Reset_def
  by (frule Analyze_analysed, drule Analyze_frame) (auto simp: hw_frame_def)

lemma gdsp_do_dma_frame: "gdsp_do_dma d = Inr d' \<Longrightarrow> hw_frame d d'"
  by (auto simp: gdsp_do_dma_def gdsp_ddma_in_def gdsp_ddma_out_def gdsp_idma_out_def
      gdsp_idma_in_def CodeLoaded_def and_then_eq_Inr_conv Let_def split: if_splits
      dest: ddma_in_SSSE3_frame ddma_out_SSSE3_frame ddma_in_loop_frame ddma_out_loop_frame
        Analyze_frame_load)

lemma set_acc_frame:
  "hw_frame d e \<Longrightarrow> m_start_address a = m_start_address (g_accelerator d) \<and>
     m_end_address a = m_end_address (g_accelerator d) \<Longrightarrow> hw_frame d (e\<lparr>g_accelerator := a\<rparr>)"
  by (auto simp: hw_frame_def acc_ok_def)

lemma SetException_frame [simp]: "hw_frame d (DSPCore_SetException l e) = hw_frame d e"
  by (simp add: DSPCore_SetException_def hw_frame_def)

lemma set_ifx_frame [simp]: "hw_frame d (set_ifx i v d') = hw_frame d d'" "hw_frame (set_ifx i v d) d' = hw_frame d d'"
  by (simp_all add: set_ifx_def hw_frame_def)

lemma upd_acc_frame: "(acc_ok (g_accelerator d) \<Longrightarrow> acc_ok (f (g_accelerator d))) \<Longrightarrow> hw_frame d (upd_acc f d)"
  by (simp add: upd_acc_def hw_frame_def)

lemma mbox_frame [simp]: "hw_frame d (gdsp_mbox_write_h m v d)" "hw_frame d (gdsp_mbox_write_l m v d)"
  "hw_frame d (InterruptRequest d)"
  by (simp_all add: gdsp_mbox_write_h_def gdsp_mbox_write_l_def InterruptRequest_def hw_frame_def Let_def)

lemma mbox_read_l_frame: "gdsp_mbox_read_l m d = Inr (v, d') \<Longrightarrow> hw_frame d d'"
  by (auto simp: gdsp_mbox_read_l_def Let_def and_then_eq_Inr_conv split: if_splits
      elim!: DSPCore_Reset_frame) (simp_all add: hw_frame_def)

lemma gdsp_ifx_write_frame: "gdsp_ifx_write a v d = Inr d' \<Longrightarrow> hw_frame d d'"
  unfolding gdsp_ifx_write_def Let_def
  by (auto simp: and_then_eq_Inr_conv upd_acc_frame split: if_splits dest!: gdsp_do_dma_frame
      intro!: set_acc_frame dest: WriteD3_frame WriteD3_keeps)

lemma accelerator_read_reg_frame: "accelerator_read_reg d = Inr (v, d') \<Longrightarrow> hw_frame d d'"
  unfolding accelerator_read_reg_def and_then_eq_Inr_conv
  by (auto simp: Let_def split: if_splits intro!: set_acc_frame dest: Accelerator_Read_keeps)

lemma gdsp_ifx_read_frame: "gdsp_ifx_read a d = Inr (v, d') \<Longrightarrow> hw_frame d d'"
  unfolding gdsp_ifx_read_def Let_def
  by (auto simp: and_then_eq_Inr_conv split: if_splits intro!: set_acc_frame
      dest: mbox_read_l_frame accelerator_read_reg_frame ReadD3_keeps)

subsection \<open>Mailboxes carry a 31-bit message\<close>

lemma bit_top_u32: "bit (0x80000000 :: u32) n \<longleftrightarrow> n = 31"
  using bit_exp_iff [of 31 n, where 'a = u32] by auto

lemma bit_low_u32: "bit (0xffff :: u32) n \<longleftrightarrow> n < 16"
  using bit_mask_iff [of 16 n, where 'a = u32] by (simp add: mask_eq_exp_minus_1) auto

lemma bit_top_u16: "bit (0x8000 :: u16) n \<longleftrightarrow> n = 15"
  using bit_exp_iff [of 15 n, where 'a = u16] by auto

lemma bit_low_u16: "bit (0x7FFF :: u16) n \<longleftrightarrow> n < 15"
  using bit_mask_iff [of 15 n, where 'a = u16] by (simp add: mask_eq_exp_minus_1) auto

lemmas mbox_bits = bit_top_u32 bit_low_u32 bit_top_u16 bit_low_u16 bit_and_iff bit_or_iff
  bit_not_iff bit_drop_bit_eq comp_apply bit_push_bit_iff bit_ucast_iff possible_bit_word

lemma mbox_lo:
  "ucast ((((x AND NOT 0x80000000) AND NOT 0xffff) OR ucast lo) OR 0x80000000 :: u32) = lo" for lo :: u16
  by (rule bit_word_eqI, simp only: mbox_bits, auto)

lemma mbox_hi_full:
  "ucast (drop_bit 16 ((((((x AND 0xffff) OR push_bit 16 (ucast hi)) AND NOT 0x80000000) AND NOT 0xffff)
     OR ucast lo) OR 0x80000000 :: u32)) = hi OR 0x8000" for lo hi :: u16
  by (rule bit_word_eqI, simp only: mbox_bits, auto dest: bit_imp_le_length)

lemma mbox_hi_empty:
  "ucast (drop_bit 16 (((((((x AND 0xffff) OR push_bit 16 (ucast hi)) AND NOT 0x80000000) AND NOT 0xffff)
     OR ucast lo) OR 0x80000000) AND NOT 0x80000000 :: u32)) = hi AND 0x7FFF" for lo hi :: u16
  by (rule bit_word_eqI, simp only: mbox_bits, auto dest: bit_imp_le_length)

text \<open>
  The mailbox protocol: writing the high and then the low half leaves a message
  whose bit 31, the \<open>full\<close> mark, is set only by the second write; the reader gets the
  31 bits back from the two halves, the read of the low half clears the mark and
  nothing else of the message, and the other mailbox is untouched. (The mailbox of
  the DSP answers differently while the start-up hack of the core is on.)
\<close>

theorem mailbox_roundtrip:
  assumes "\<not> (g_init_hax d \<and> mbx = MAILBOX_DSP)"
    and d1: "d1 = gdsp_mbox_write_h mbx hi d" and d2: "d2 = gdsp_mbox_write_l mbx lo d1"
  shows "\<not> bit (gdsp_mbox_peek mbx d1) 31 \<and> bit (gdsp_mbox_peek mbx d2) 31 \<and>
    gdsp_mbox_read_h mbx d2 = hi OR 0x8000 \<and>
    (\<exists>d3. gdsp_mbox_read_l mbx d2 = Inr (lo, d3) \<and>
      gdsp_mbox_read_h mbx d3 = hi AND 0x7FFF \<and> \<not> bit (gdsp_mbox_peek mbx d3) 31 \<and>
      (\<forall>m. m \<noteq> mbx \<longrightarrow> gdsp_mbox_peek m d3 = gdsp_mbox_peek m d))"
proof -
  let ?w1 = "((g_mbox d mbx AND 0xffff) OR push_bit 16 (ucast hi)) AND NOT 0x80000000 :: u32"
  let ?w2 = "((?w1 AND NOT 0xffff) OR ucast lo) OR 0x80000000 :: u32"
  have m1: "g_mbox d1 = (g_mbox d)(mbx := ?w1)" and h1: "g_init_hax d1 = g_init_hax d"
    by (simp_all add: d1 gdsp_mbox_write_h_def Let_def)
  have m2: "g_mbox d2 = (g_mbox d)(mbx := ?w2)" and h2: "g_init_hax d2 = g_init_hax d"
    by (simp_all add: d2 gdsp_mbox_write_l_def Let_def m1 h1)
  have "\<not> bit ?w1 31" by (simp add: bit_simps)
  moreover have "bit ?w2 31" by (simp add: bit_simps)
  moreover have "ucast (drop_bit 16 ?w2) = hi OR 0x8000" by (rule mbox_hi_full)
  moreover have "ucast ?w2 = lo" by (rule mbox_lo)
  moreover have "ucast (drop_bit 16 (?w2 AND NOT 0x80000000)) = hi AND 0x7FFF" by (rule mbox_hi_empty)
  moreover have "\<not> bit (?w2 AND NOT 0x80000000) 31" by (simp add: bit_simps)
  ultimately show ?thesis
    using assms(1)
    by (auto simp: gdsp_mbox_peek_def gdsp_mbox_read_h_def gdsp_mbox_read_l_def Let_def m1 m2 h1 h2)
qed

subsection \<open>The vector copy and the scalar copy agree\<close>

fun swap_pairs :: "u8 list \<Rightarrow> u8 list" where
  "swap_pairs (x # y # bs) = y # x # swap_pairs bs"
| "swap_pairs bs = bs"

lemma read_bytes_length: "read_bytes d p n = Inr bs \<Longrightarrow> length bs = n"
  by (induction d p n arbitrary: bs rule: read_bytes.induct) (auto simp: and_then_eq_Inr_conv)

lemma shuffle_epi8_swap_pairs: "length bs = 16 \<Longrightarrow> shuffle_epi8 bs = swap_pairs bs"
  by (simp add: shuffle_epi8_def s_mask_def numeral_eq_Suc length_Suc_conv) force

lemma swap16_le16 [simp]: "swap16 (le16 lo hi) = le16 hi lo"
  unfolding swap16_def le16_def by (rule bit_word_eqI) (auto simp: bit_simps dest: bit_imp_le_length)

lemma dram_put_keeps: "dram_put b v d = Inr d' \<Longrightarrow> g_cpu_ram d' = g_cpu_ram d"
  by (auto simp: dram_put_def split: if_splits)

lemma cpu_byte_cong: "g_cpu_ram d' = g_cpu_ram d \<Longrightarrow> cpu_byte d' = cpu_byte d"
  by (rule ext) (simp add: cpu_byte_def)

lemma read_bytes_cong: "g_cpu_ram d' = g_cpu_ram d \<Longrightarrow> read_bytes d' p n = read_bytes d p n"
  by (induction n arbitrary: p) (simp_all add: cpu_byte_cong [of d' d])

lemma dram_store_keeps: "dram_store b bs d = Inr d' \<Longrightarrow> g_cpu_ram d' = g_cpu_ram d"
  by (induction b bs d rule: dram_store.induct) (auto simp: and_then_eq_Inr_conv dest: dram_put_keeps)

lemma mask31_add:
  fixes x :: u32
  assumes "unat (x AND 0x7FFFFFFF) + k < 2 ^ 31"
  shows "(x + of_nat k) AND 0x7FFFFFFF = (x AND 0x7FFFFFFF) + of_nat k"
proof -
  have m: "y AND 0x7FFFFFFF = take_bit 31 y" for y :: u32
    using take_bit_eq_mask [of 31 y] by (simp add: mask_eq_exp_minus_1)
  have k: "k < 2 ^ 31" using assms by simp
  have "unat (take_bit 31 (x + of_nat k)) = (unat x + k) mod 2 ^ 31"
    using k by (simp add: unat_take_bit unat_word_ariths unat_of_nat mod_simps mod_mod_cancel)
  also have "\<dots> = (unat x mod 2 ^ 31 + k) mod 2 ^ 31"
    by (simp add: mod_simps)
  also have "\<dots> = unat (take_bit 31 x + of_nat k)"
    using assms k unfolding m by (simp add: unat_take_bit unat_word_ariths unat_of_nat)
  finally show ?thesis unfolding m by (rule word_unat_eqI)
qed

lemma ddma_in_loop_block:
  fixes addr :: u32
  assumes "i + 2 * n \<le> sz" and "unat ((addr + of_nat i) AND 0x7FFFFFFF) + 2 * n \<le> 2 ^ 31"
  shows "ddma_in_loop i dsp_addr addr sz d = Inr d' \<longleftrightarrow>
    (\<exists>bs d1. read_bytes d ((addr + of_nat i) AND 0x7FFFFFFF) (2 * n) = Inr bs \<and>
       dram_store (unat dsp_addr + i) (swap_pairs bs) d = Inr d1 \<and>
       ddma_in_loop (i + 2 * n) dsp_addr addr sz d1 = Inr d')"
  using assms
proof (induction n arbitrary: i d)
  case (Suc n)
  let ?p = "\<lambda>i. (addr + of_nat i) AND 0x7FFFFFFF"
  have nxt: "?p (i + 2) = ?p i + 2" if "0 < n"
    using mask31_add [of "addr + of_nat i" 2] Suc(3) that by (simp add: ac_simps)
  have IH: "ddma_in_loop (i + 2) dsp_addr addr sz e = Inr d' \<longleftrightarrow>
    (\<exists>bs d1. read_bytes d (?p i + 2) (2 * n) = Inr bs \<and>
       dram_store (unat dsp_addr + i + 2) (swap_pairs bs) e = Inr d1 \<and>
       ddma_in_loop (i + 2 * Suc n) dsp_addr addr sz d1 = Inr d')"
    if "g_cpu_ram e = g_cpu_ram d" for e
  proof (cases "0 < n")
    case True
    have b: "unat (?p (i + 2)) + 2 * n \<le> 2 ^ 31"
      using nxt [OF True] Suc(3) True by (simp add: unat_word_ariths)
    have a: "i + 2 + 2 * n \<le> sz" using Suc(2) by simp
    have e: "i + 2 + 2 * n = i + 2 * Suc n" "unat dsp_addr + (i + 2) = unat dsp_addr + i + 2"
      by simp_all
    show ?thesis
      using Suc(1) [OF a b, of e] unfolding nxt [OF True] e read_bytes_cong [OF that] .
  qed simp
  have i: "i < sz" using Suc(2) by simp
  have n: "2 * Suc n = Suc (Suc (2 * n))" by simp
  have p: "?p i + 1 + 1 = ?p i + 2" by simp
  show ?case
  proof (cases "\<exists>lo hi. cpu_byte d (?p i) = Inr lo \<and> cpu_byte d (?p i + 1) = Inr hi")
    case True
    then obtain lo hi where lo: "cpu_byte d (?p i) = Inr lo" and hi: "cpu_byte d (?p i + 1) = Inr hi"
      by blast
    let ?B = "unat dsp_addr + i"
    have L: "ddma_in_loop i dsp_addr addr sz d = Inr d' \<longleftrightarrow>
      (\<exists>e. dram_put ?B (le16 hi lo) d = Inr e \<and> ddma_in_loop (i + 2) dsp_addr addr sz e = Inr d')"
      by (subst ddma_in_loop.simps)
        (simp add: cpu_half_def lo hi i and_then_eq_Inr_conv del: add_2_eq_Suc')
    have rb: "read_bytes d (?p i) (2 * Suc n) = Inr bs \<longleftrightarrow>
        (\<exists>bs'. bs = lo # hi # bs' \<and> read_bytes d (?p i + 2) (2 * n) = Inr bs')" for bs
      unfolding n by (auto simp: lo hi p and_then_eq_Inr_conv)
    have ds: "dram_store ?B (swap_pairs (lo # hi # bs')) d = Inr d1 \<longleftrightarrow>
        (\<exists>e. dram_put ?B (le16 hi lo) d = Inr e \<and> dram_store (?B + 2) (swap_pairs bs') e = Inr d1)" for bs' d1
      by (simp add: and_then_eq_Inr_conv del: add_2_eq_Suc')
    have R: "(\<exists>bs d1. read_bytes d (?p i) (2 * Suc n) = Inr bs \<and>
        dram_store ?B (swap_pairs bs) d = Inr d1 \<and> X d1) \<longleftrightarrow>
      (\<exists>e. dram_put ?B (le16 hi lo) d = Inr e \<and> (\<exists>bs d1. read_bytes d (?p i + 2) (2 * n) = Inr bs \<and>
        dram_store (?B + 2) (swap_pairs bs) e = Inr d1 \<and> X d1))" for X
      unfolding rb using ds by blast
    show ?thesis
      unfolding L R using IH dram_put_keeps [of ?B "le16 hi lo" d] by blast
  next
    case False
    then show ?thesis
      unfolding n by (subst ddma_in_loop.simps) (auto simp: cpu_half_def i and_then_eq_Inr_conv)
  qed
qed simp

text \<open>
  The two implementations of a DMA into data memory agree: for a transfer in
  blocks of 16 bytes that does not run past the end of the host's address space, the
  SSSE3 loop, which moves 16 bytes and swaps their pairs with one shuffle, succeeds
  exactly when the loop over single words does, and with the same final state.
\<close>

theorem ddma_in_SSSE3_equiv:
  assumes "sz mod 16 = 0" and "unat (addr AND 0x7FFFFFFF) + sz \<le> 2 ^ 31"
  shows "gdsp_ddma_in_SSSE3 0 dsp_addr addr sz d = Inr d' \<longleftrightarrow> ddma_in_loop 0 dsp_addr addr sz d = Inr d'"
proof -
  have "gdsp_ddma_in_SSSE3 i dsp_addr addr sz d = Inr d' \<longleftrightarrow> ddma_in_loop i dsp_addr addr sz d = Inr d'"
    if "i mod 16 = 0" for i d
    using that
  proof (induction "sz - i" arbitrary: i d rule: less_induct)
    case less
    show ?case
    proof (cases "i < sz")
      case True
      with less(2) assms(1) have le: "i + 2 * 8 \<le> sz" by presburger
      let ?p = "(addr + of_nat i) AND 0x7FFFFFFF"
      have p: "?p = (addr AND 0x7FFFFFFF) + of_nat i"
        by (rule mask31_add) (use assms(2) True in simp)
      have "unat ?p + 2 * 8 \<le> 2 ^ 31"
        unfolding p using assms(2) le by (simp add: unat_word_ariths unat_of_nat)
      from ddma_in_loop_block [OF le this, of dsp_addr d d']
      have L: "ddma_in_loop i dsp_addr addr sz d = Inr d' \<longleftrightarrow>
        (\<exists>bs d1. read_bytes d ?p 16 = Inr bs \<and> dram_store (unat dsp_addr + i) (swap_pairs bs) d = Inr d1 \<and>
          ddma_in_loop (i + 16) dsp_addr addr sz d1 = Inr d')"
        by simp
      have S: "gdsp_ddma_in_SSSE3 i dsp_addr addr sz d = Inr d' \<longleftrightarrow>
        (\<exists>bs d1. read_bytes d ?p 16 = Inr bs \<and> dram_store (unat dsp_addr + i) (shuffle_epi8 bs) d = Inr d1 \<and>
          gdsp_ddma_in_SSSE3 (i + 16) dsp_addr addr sz d1 = Inr d')"
        using True by (subst gdsp_ddma_in_SSSE3.simps) (simp add: and_then_eq_Inr_conv)
      have R: "gdsp_ddma_in_SSSE3 (i + 16) dsp_addr addr sz d1 = Inr d' \<longleftrightarrow>
          ddma_in_loop (i + 16) dsp_addr addr sz d1 = Inr d'" for d1
        using less(1) [of "i + 16"] less(2) True by simp
      have "shuffle_epi8 bs = swap_pairs bs" if "read_bytes d ?p 16 = Inr bs" for bs
        using shuffle_epi8_swap_pairs read_bytes_length [OF that] .
      then show ?thesis unfolding L S R by auto
    qed (simp add: gdsp_ddma_in_SSSE3.simps ddma_in_loop.simps)
  qed
  from this [of 0 d] show ?thesis by simp
qed


definition dma_test :: SDSP where
  "dma_test = dsp_zero\<lparr>g_cpu_ram := (\<lambda>p. if p < 0x100 then Some (ucast p) else None)\<rparr>"

theorem ddma_in_SSSE3_equiv_witness:
  "\<exists>d'. gdsp_ddma_in_SSSE3 0 8 0x40 16 dma_test = Inr d' \<and> g_dram d' 4 = 0x4041 \<and> g_dram d' 11 = 0x4E4F"
proof -
  have "\<exists>d'. ddma_in_loop 0 8 0x40 16 dma_test = Inr d' \<and> g_dram d' 4 = 0x4041 \<and> g_dram d' 11 = 0x4E4F"
    by (simp add: ddma_in_loop.simps cpu_half_def cpu_byte_def dram_put_def dma_test_def zero_defs
        mem_consts le16_def swap16_def)
  then show ?thesis
    using ddma_in_SSSE3_equiv [of 16 "0x40" 8 dma_test] by simp
qed

subsection \<open>What a DMA out of data memory stores, a DMA into it reads back\<close>

text \<open>The bytes at \<open>p\<close> and \<open>p + 1\<close> are the DRAM word at byte address \<open>b\<close>, high byte first.\<close>

definition holds_word :: "SDSP \<Rightarrow> u32 \<Rightarrow> nat \<Rightarrow> bool" where
  "holds_word d p b \<longleftrightarrow> b + 2 \<le> DSP_DRAM_BYTE_SIZE \<and>
     g_cpu_ram d p = Some (ucast (drop_bit 8 (g_dram d (of_nat (b div 2))))) \<and>
     g_cpu_ram d (p + 1) = Some (ucast (g_dram d (of_nat (b div 2))))"

lemma le16_bytes [simp]: "le16 (ucast v) (ucast (drop_bit 8 v)) = v"
  unfolding le16_def by (rule bit_word_eqI) (auto simp: bit_simps)

lemma swap16_swap16 [simp]: "swap16 (swap16 v) = v"
  unfolding swap16_def by (rule bit_word_eqI) (auto simp: bit_simps dest: bit_imp_le_length)

lemma ucast_swap16: "(ucast (swap16 v) :: u8) = ucast (drop_bit 8 v)"
  "(ucast (drop_bit 8 (swap16 v)) :: u8) = ucast v"
  unfolding swap16_def by (rule bit_word_eqI; auto simp: bit_simps)+

lemma cpu_put_half_spec:
  assumes "cpu_put_half p (swap16 v) d = Inr d'" and "dram_get b d = Inr v"
  shows "holds_word d' p b" and "g_dram d' = g_dram d"
    and "q \<noteq> p \<Longrightarrow> q \<noteq> p + 1 \<Longrightarrow> g_cpu_ram d' q = g_cpu_ram d q"
  using assms
  by (auto simp: cpu_put_half_def cpu_put_def dram_get_def holds_word_def and_then_eq_Inr_conv
      ucast_swap16 split: option.splits if_splits)

lemma ddma_out_loop_spec:
  fixes addr :: u32
  assumes "ddma_out_loop i a addr (i + 2 * n) d = Inr d'"
    and "unat ((addr + of_nat i) AND 0x7FFFFFFF) + 2 * n \<le> 2 ^ 31"
  shows "g_dram d' = g_dram d \<and>
    (\<forall>q. unat q < unat ((addr + of_nat i) AND 0x7FFFFFFF) \<longrightarrow> g_cpu_ram d' q = g_cpu_ram d q) \<and>
    (\<forall>k < n. holds_word d' ((addr + of_nat (i + 2 * k)) AND 0x7FFFFFFF) (unat a + (i + 2 * k)))"
  using assms
proof (induction n arbitrary: i d)
  case 0
  then show ?case by (simp add: ddma_out_loop.simps)
next
  case (Suc n)
  let ?p = "\<lambda>i. (addr + of_nat i) AND 0x7FFFFFFF"
  from Suc(2) obtain v e where v: "dram_get (unat a + i) d = Inr v"
    and e: "cpu_put_half (?p i) (swap16 v) d = Inr e"
    and r: "ddma_out_loop (i + 2) a addr (i + 2 + 2 * n) e = Inr d'"
    by (subst (asm) ddma_out_loop.simps) (auto simp: and_then_eq_Inr_conv)
  note sp = cpu_put_half_spec [OF e v]
  show ?case
  proof (cases "n = 0")
    case True
    with r have "d' = e" by (simp add: ddma_out_loop.simps)
    moreover have "g_cpu_ram e q = g_cpu_ram d q" if "unat q < unat (?p i)" for q
      using that Suc(3) by (intro sp(3)) (auto simp: unat_word_ariths)
    ultimately show ?thesis using True sp by simp
  next
    case False
    have nxt: "?p (i + 2) = ?p i + 2"
      using mask31_add [of "addr + of_nat i" 2] Suc(3) False by (simp add: ac_simps)
    have u: "unat (?p i + 2) = unat (?p i) + 2" "unat (?p i + 1) = unat (?p i) + 1"
      using Suc(3) False by (simp_all add: unat_word_ariths)
    have "unat (?p (i + 2)) + 2 * n \<le> 2 ^ 31" unfolding nxt u using Suc(3) by simp
    note IH = Suc(1) [OF r this]
    have low: "g_cpu_ram d' q = g_cpu_ram e q" if "unat q < unat (?p i) + 2" for q
      using IH that u unfolding nxt by simp
    have "holds_word d' (?p i) (unat a + i)"
      using sp(1) IH low [of "?p i"] low [of "?p i + 1"] u by (simp add: holds_word_def)
    moreover have "g_cpu_ram d' q = g_cpu_ram d q" if "unat q < unat (?p i)" for q
    proof -
      have "unat q \<noteq> unat (?p i)" "unat q \<noteq> unat (?p i + 1)" using that u by simp_all
      then have "q \<noteq> ?p i" "q \<noteq> ?p i + 1" by blast+
      then show ?thesis using low [of q] sp(3) [of q] that by simp
    qed
    moreover have "holds_word d' (?p (i + 2 * k)) (unat a + (i + 2 * k))" if "k < Suc n" for k
    proof (cases k)
      case 0
      then show ?thesis using \<open>holds_word d' (?p i) (unat a + i)\<close> by simp
    next
      case (Suc j)
      then have "i + 2 * k = i + 2 + 2 * j" by simp
      then show ?thesis using IH Suc that by (simp only: Suc_less_eq)
    qed
    ultimately show ?thesis
      using IH sp(2) by simp
  qed
qed

lemma holds_word_step:
  assumes "holds_word d p b"
  shows "cpu_half d p = Inr (swap16 (g_dram d (of_nat (b div 2))))"
    and "dram_put b (g_dram d (of_nat (b div 2))) d = Inr d"
  using assms
  by (auto simp: holds_word_def cpu_half_def cpu_byte_def dram_put_def le16_def swap16_def
      intro!: bit_word_eqI) (auto simp: bit_simps dest: bit_imp_le_length)

lemma ddma_in_loop_unchanged:
  assumes "\<forall>k < n. holds_word d ((addr + of_nat (i + 2 * k)) AND 0x7FFFFFFF) (unat a + (i + 2 * k))"
  shows "ddma_in_loop i a addr (i + 2 * n) d = Inr d"
  using assms
proof (induction n arbitrary: i)
  case 0
  then show ?case by (simp add: ddma_in_loop.simps)
next
  case (Suc n)
  have "holds_word d ((addr + of_nat i) AND 0x7FFFFFFF) (unat a + i)"
    using Suc(2) by (simp add: All_less_Suc2)
  moreover have "ddma_in_loop (i + 2) a addr (i + 2 + 2 * n) d = Inr d"
    using Suc(1) [of "i + 2"] Suc(2) by (simp add: All_less_Suc2 ac_simps)
  ultimately show ?case
    by (subst ddma_in_loop.simps) (simp add: holds_word_step)
qed

text \<open>
  A DMA of data memory to the CPU and the DMA back are inverse: after a transfer
  out succeeds, the data memory is as before, and the transfer of the same block back
  in succeeds and changes nothing. In particular both keep the DSP's words in the big
  byte order of the CPU's memory.
\<close>

theorem ddma_out_in_roundtrip:
  fixes addr :: u32
  assumes "ddma_out_loop 0 dsp_addr addr (2 * n) d = Inr d1"
    and "unat (addr AND 0x7FFFFFFF) + 2 * n \<le> 2 ^ 31"
  shows "g_dram d1 = g_dram d \<and> ddma_in_loop 0 dsp_addr addr (2 * n) d1 = Inr d1"
  using ddma_out_loop_spec [of 0 dsp_addr addr n d d1] ddma_in_loop_unchanged [of n d1 addr 0 dsp_addr] assms
  by simp

theorem ddma_out_in_roundtrip_witness:
  "\<exists>d1. ddma_out_loop 0 8 0x40 4 dma_test = Inr d1 \<and> ddma_in_loop 0 8 0x40 4 d1 = Inr d1"
proof -
  obtain d1 where "ddma_out_loop 0 8 0x40 4 dma_test = Inr d1"
    by (simp add: ddma_out_loop.simps cpu_put_half_def cpu_put_def dram_get_def dma_test_def zero_defs
        mem_consts swap16_def)
  then show ?thesis
    using ddma_out_in_roundtrip [of 8 "0x40" 2 dma_test d1] by simp
qed

subsection \<open>Program loading and the bound of a transfer\<close>

definition be16 :: "u8 \<Rightarrow> u8 \<Rightarrow> u16" where
  "be16 hi lo = le16 lo hi"

lemma memcpy_words_outside:
  "\<forall>k < (length bs + 1) div 2. w \<noteq> a + of_nat k \<Longrightarrow> memcpy_words a bs m w = m w"
  by (induction a bs m rule: memcpy_words.induct) (simp_all add: All_less_Suc2 add.assoc)

lemma swap_words_outside: "\<forall>k < n. w \<noteq> a + of_nat k \<Longrightarrow> swap_words a n m w = m w"
  by (induction a n m rule: swap_words.induct) (simp_all add: All_less_Suc2 add.assoc)

lemma u16_offset_neq: "k < 0x10000 \<Longrightarrow> 0 < k \<Longrightarrow> (a :: u16) + of_nat k \<noteq> a"
proof
  assume "k < 0x10000" "0 < k" and "a + of_nat k = a"
  then have "unat (of_nat k :: u16) = 0" by simp
  with \<open>k < 0x10000\<close> \<open>0 < k\<close> show False by (simp add: unat_of_nat)
qed

text \<open>The copy and the swap together: word \<open>k\<close> is the big-endian reading of two bytes.\<close>

lemma memcpy_words_nth:
  "k < length bs div 2 \<Longrightarrow> length bs \<le> 0x2000 \<Longrightarrow>
   memcpy_words a bs m (a + of_nat k) = le16 (bs ! (2 * k)) (bs ! (2 * k + 1))"
proof (induction a bs m arbitrary: k rule: memcpy_words.induct)
  case (3 a lo hi bs m)
  show ?case
  proof (cases k)
    case 0
    have "memcpy_words (a + 1) bs (m(a := le16 lo hi)) a = (m(a := le16 lo hi)) a"
    proof (rule memcpy_words_outside, intro allI impI)
      fix j assume "j < (length bs + 1) div 2"
      with 3(3) show "a \<noteq> a + 1 + of_nat j"
        using u16_offset_neq [of "Suc j" a] by (simp add: add.assoc)
    qed
    with 0 show ?thesis by simp
  next
    case (Suc j)
    with 3 show ?thesis by (simp add: add.assoc del: fun_upd_apply)
  qed
qed simp_all

lemma swap_words_nth:
  "k < n \<Longrightarrow> n \<le> 0x1000 \<Longrightarrow> swap_words a n m (a + of_nat k) = swap16 (m (a + of_nat k))"
proof (induction a n m arbitrary: k rule: swap_words.induct)
  case (2 a n m)
  show ?case
  proof (cases k)
    case 0
    have "swap_words (a + 1) n (m(a := swap16 (m a))) a = (m(a := swap16 (m a))) a"
    proof (rule swap_words_outside, intro allI impI)
      fix j assume "j < n"
      with 2(3) show "a \<noteq> a + 1 + of_nat j"
        using u16_offset_neq [of "Suc j" a] by (simp add: add.assoc)
    qed
    with 0 show ?thesis by simp
  next
    case (Suc j)
    have "a + of_nat k \<noteq> a" using 2(2,3) Suc by (intro u16_offset_neq) simp_all
    moreover have "swap_words (a + 1) n (m(a := swap16 (m a))) (a + 1 + of_nat j) =
        swap16 ((m(a := swap16 (m a))) (a + 1 + of_nat j))"
      by (rule 2(1)) (use 2(2,3) Suc in simp_all)
    ultimately show ?thesis using Suc by (simp add: add.assoc)
  qed
qed simp

lemma read_bytes_nth:
  "read_bytes d p n = Inr bs \<Longrightarrow> k < n \<Longrightarrow> g_cpu_ram d (p + of_nat k) = Some (bs ! k)"
proof (induction d p n arbitrary: bs k rule: read_bytes.induct)
  case (2 d p n)
  then show ?case
    by (cases k) (auto simp: and_then_eq_Inr_conv cpu_byte_def add.assoc split: option.splits)
qed simp

lemma Analyze_shape: "Analyze d = Inr d' \<Longrightarrow> \<exists>f. d' = d\<lparr>g_code_flags := f\<rparr>"
  by (rule Analyze_cases [of d]) auto

lemma Analyze_total: "\<exists>d'. Analyze d = Inr d'"
  by (rule Analyze_cases [of d]) auto

lemma gdsp_idma_in_total:
  "read_bytes d (addr AND 0x0fffffff) sz = Inr code \<Longrightarrow>
   2 * unat (dsp_addr div 2) + sz \<le> DSP_IRAM_BYTE_SIZE \<Longrightarrow> \<exists>d'. gdsp_idma_in dsp_addr addr sz d = Inr d'"
  by (simp add: gdsp_idma_in_def CodeLoaded_def Let_def Analyze_total)

lemma Analyze_flags: "Analyze (d\<lparr>g_code_flags := f\<rparr>) = Analyze d"
  by (simp add: Analyze_def Analyzer_Reset_def)

text \<open>
  Loading a program: when a DMA into instruction memory succeeds, it stayed
  within IRAM, every word of the block is the big-endian value of the two bytes of
  the CPU's memory it comes from, the words outside the block are unchanged, the
  stored checksum is the hash of the bytes, and the code flags are those of an
  analysis of the new program.
\<close>

theorem gdsp_idma_in_loads:
  assumes "gdsp_idma_in dsp_addr addr sz d = Inr d'"
  shows "2 * unat (dsp_addr div 2) + sz \<le> DSP_IRAM_BYTE_SIZE \<and>
    (\<exists>code. read_bytes d (addr AND 0x0fffffff) sz = Inr code \<and> length code = sz \<and>
      g_iram_crc d' = HashEctor code \<and>
      (\<forall>k < sz div 2. g_iram d' (dsp_addr div 2 + of_nat k) = be16 (code ! (2 * k)) (code ! (2 * k + 1))) \<and>
      (\<forall>w. (\<forall>k < (sz + 1) div 2. w \<noteq> dsp_addr div 2 + of_nat k) \<longrightarrow> g_iram d' w = g_iram d w) \<and>
      Analyze d' = Inr d')"
proof -
  let ?dst = "dsp_addr div 2"
  from assms obtain code where code: "read_bytes d (addr AND 0x0fffffff) sz = Inr code"
    and le: "2 * unat ?dst + sz \<le> DSP_IRAM_BYTE_SIZE"
    and an: "Analyze (d\<lparr>g_iram_crc := HashEctor code,
        g_iram := swap_words ?dst (sz div 2) (memcpy_words ?dst code (g_iram d))\<rparr>) = Inr d'"
    by (auto simp: gdsp_idma_in_def CodeLoaded_def and_then_eq_Inr_conv Let_def split: if_splits)
  have len: "length code = sz" using code by (rule read_bytes_length)
  have small: "sz \<le> 0x2000" using le by (simp add: mem_consts)
  obtain f where d': "d' = d\<lparr>g_iram_crc := HashEctor code,
        g_iram := swap_words ?dst (sz div 2) (memcpy_words ?dst code (g_iram d)), g_code_flags := f\<rparr>"
    using Analyze_shape [OF an] by auto
  have "g_iram d' (?dst + of_nat k) = be16 (code ! (2 * k)) (code ! (2 * k + 1))" if "k < sz div 2" for k
    using that small by (simp add: d' swap_words_nth memcpy_words_nth len be16_def)
  moreover have "g_iram d' w = g_iram d w" if "\<forall>k < (sz + 1) div 2. w \<noteq> ?dst + of_nat k" for w
    using that by (simp add: d' swap_words_outside memcpy_words_outside len)
  moreover have "Analyze d' = Inr d'"
    using an unfolding d' by (simp only: Analyze_flags)
  ultimately show ?thesis using le code len by (simp add: d')
qed

theorem gdsp_idma_in_loads_witness:
  "\<exists>d'. gdsp_idma_in 2 0x40 4 dma_test = Inr d' \<and> g_iram d' 1 = 0x4041 \<and> g_iram d' 2 = 0x4243"
proof -
  let ?code = "[0x40, 0x41, 0x42, 0x43] :: u8 list"
  have four: "(4 :: nat) = Suc (Suc (Suc (Suc 0)))" by simp
  have code: "read_bytes dma_test (0x40 AND 0x0fffffff) 4 = Inr ?code"
    unfolding four by (simp add: cpu_byte_def dma_test_def)
  obtain d' where d': "gdsp_idma_in 2 0x40 4 dma_test = Inr d'"
    using gdsp_idma_in_total [OF code, of 2] by (auto simp: mem_consts)
  from gdsp_idma_in_loads [OF this] code
  have all: "\<forall>k < 4 div 2. g_iram d' (2 div 2 + of_nat k) = be16 (?code ! (2 * k)) (?code ! (2 * k + 1))"
    by force
  have "g_iram d' 1 = be16 0x40 0x41" "g_iram d' 2 = be16 0x42 0x43"
    using all [rule_format, of 0] all [rule_format, of 1] by simp_all
  with d' show ?thesis by (auto simp: be16_def le16_def)
qed

lemma cpu_half_mapped: "\<forall>p. g_cpu_ram d p \<noteq> None \<Longrightarrow> \<exists>v. cpu_half d p = Inr v"
  by (auto simp: cpu_half_def cpu_byte_def and_then_eq_Inr_conv split: option.splits)

lemma ddma_in_loop_bounds:
  assumes "\<forall>p. g_cpu_ram d p \<noteq> None" and "sz mod 2 = 0" and "i mod 2 = 0"
  shows "if i < sz \<and> unat dsp_addr + sz > DSP_DRAM_BYTE_SIZE
    then ddma_in_loop i dsp_addr addr sz d = Inl Out_Of_Bounds
    else \<exists>d'. ddma_in_loop i dsp_addr addr sz d = Inr d'"
  using assms
proof (induction "sz - i" arbitrary: i d rule: less_induct)
  case less
  show ?case
  proof (cases "i < sz")
    case True
    obtain v where v: "cpu_half d ((addr + of_nat i) AND 0x7FFFFFFF) = Inr v"
      using cpu_half_mapped [OF less(2)] by blast
    have i2: "i + 2 \<le> sz" using True less(3,4) by presburger
    show ?thesis
    proof (cases "unat dsp_addr + i + 2 > DSP_DRAM_BYTE_SIZE")
      case True
      with i2 v show ?thesis
        by (subst ddma_in_loop.simps) (simp add: dram_put_def del: add_2_eq_Suc')
    next
      case False
      then obtain d1 where d1: "dram_put (unat dsp_addr + i) (swap16 v) d = Inr d1" "g_cpu_ram d1 = g_cpu_ram d"
        by (simp add: dram_put_def)
      have step: "ddma_in_loop i dsp_addr addr sz d = ddma_in_loop (i + 2) dsp_addr addr sz d1"
        using True v d1 by (subst ddma_in_loop.simps) (simp del: add_2_eq_Suc')
      have "\<not> i + 2 < sz \<Longrightarrow> unat dsp_addr + sz \<le> DSP_DRAM_BYTE_SIZE" using False i2 by linarith
      with less(1) [of "i + 2" d1] less(2-4) d1(2) True False show ?thesis
        unfolding step by (auto simp del: add_2_eq_Suc')
    qed
  qed (simp add: ddma_in_loop.simps)
qed

text \<open>
  Exactly when a data DMA into DRAM is rejected: with all of the CPU's memory mapped and without SSSE3, a
  transfer of an even number of bytes into DRAM exits for a length above \<open>0x4000\<close>,
  runs past the end of DRAM when the block does not fit in its \<open>0x2000\<close> bytes, and
  succeeds otherwise. The length check of \<open>gdsp_do_dma\<close> alone therefore does not keep
  a transfer inside data memory.
\<close>

theorem gdsp_do_dma_overrun:
  fixes d :: SDSP
  assumes "\<forall>p. g_cpu_ram d p \<noteq> None" and "\<not> g_bSSSE3 d" and "g_ifx_regs d DSP_DSCR AND 3 = 0"
    and "unat (g_ifx_regs d DSP_DSBL) mod 2 = 0"
  shows "(gdsp_do_dma d = Inl DMA_Exit \<longleftrightarrow> g_ifx_regs d DSP_DSBL > 0x4000) \<and>
    (gdsp_do_dma d = Inl Out_Of_Bounds \<longleftrightarrow> 0 < g_ifx_regs d DSP_DSBL \<and> g_ifx_regs d DSP_DSBL \<le> 0x4000 \<and>
       unat (g_ifx_regs d DSP_DSPA * 2) + unat (g_ifx_regs d DSP_DSBL) > DSP_DRAM_BYTE_SIZE) \<and>
    ((\<exists>d'. gdsp_do_dma d = Inr d') \<longleftrightarrow> g_ifx_regs d DSP_DSBL = 0 \<or> g_ifx_regs d DSP_DSBL \<le> 0x4000 \<and>
       unat (g_ifx_regs d DSP_DSPA * 2) + unat (g_ifx_regs d DSP_DSBL) \<le> DSP_DRAM_BYTE_SIZE)"
proof -
  let ?len = "g_ifx_regs d DSP_DSBL"
  have pos: "0 < unat ?len \<longleftrightarrow> ?len \<noteq> 0" by (simp add: unat_gt_0)
  show ?thesis
  proof (cases "?len > 0x4000")
    case True
    then show ?thesis by (auto simp: gdsp_do_dma_def Let_def not_le)
  next
    case False
    have dma: "gdsp_do_dma d = ddma_in_loop 0 (g_ifx_regs d DSP_DSPA * 2)
        (push_bit 16 (ucast (g_ifx_regs d DSP_DSMAH)) OR ucast (g_ifx_regs d DSP_DSMAL)) (unat ?len) d"
      using False assms by (simp add: gdsp_do_dma_def gdsp_ddma_in_def Let_def)
    show ?thesis
      unfolding dma
      using False ddma_in_loop_bounds [OF assms(1,4), of 0 "g_ifx_regs d DSP_DSPA * 2"
          "push_bit 16 (ucast (g_ifx_regs d DSP_DSMAH)) OR ucast (g_ifx_regs d DSP_DSMAL)"] pos
      by (auto simp: not_less word_gt_0 split: if_splits)
  qed
qed

definition overrun_test :: SDSP where
  "overrun_test = dsp_zero\<lparr>g_cpu_ram := (\<lambda>_. Some 0),
     g_ifx_regs := (\<lambda>_. 0)(DSP_DSPA := 0x1000, DSP_DSBL := 2)\<rparr>"

theorem gdsp_do_dma_overrun_witness:
  "g_ifx_regs overrun_test DSP_DSBL \<le> 0x4000 \<and> gdsp_do_dma overrun_test = Inl Out_Of_Bounds"
  using gdsp_do_dma_overrun [of overrun_test]
  by (simp add: overrun_test_def zero_defs mem_consts)

subsection \<open>The accelerator on the memory of the low-level emulation\<close>

definition gamecube_aram :: "SDSP \<Rightarrow> bool" where
  "gamecube_aram d \<longleftrightarrow> \<not> g_aram_wii d \<and> bit (g_aram_mask d) 0"

interpretation lle_memory: audio_memory ReadHostMemory WriteHostMemory gamecube_aram
proof
  fix s s' :: SDSP and a b :: u32 and v :: u8
  assume ok: "gamecube_aram s"
  show "\<exists>b. ReadHostMemory s a = Inr b" "\<exists>s'. WriteHostMemory a v s = Inr s' \<and> gamecube_aram s'"
    using ok by (simp_all add: gamecube_aram_def ReadHostMemory_def ReadARAM_def WriteHostMemory_def WriteARAM_def)
  assume w: "WriteHostMemory a v s = Inr s'"
  show "ReadHostMemory s' a = Inr v"
    using ok w by (auto simp: gamecube_aram_def ReadHostMemory_def ReadARAM_def WriteHostMemory_def WriteARAM_def)
  assume "bit a 0 \<noteq> bit b 0"
  moreover have "bit (a AND g_aram_mask s) 0 = bit a 0" "bit (b AND g_aram_mask s) 0 = bit b 0"
    using ok by (simp_all add: gamecube_aram_def bit_and_iff)
  ultimately have "b AND g_aram_mask s \<noteq> a AND g_aram_mask s" by metis
  then show "ReadHostMemory s' b = ReadHostMemory s b"
    using ok w by (auto simp: gamecube_aram_def ReadHostMemory_def ReadARAM_def WriteHostMemory_def WriteARAM_def)
qed

text \<open>
  The audio memory of the GameCube through the accelerator: a read of the
  accelerator's data register never fails there, and a halfword written through the
  raw data register is what a 16-bit read of the same position returns.
\<close>

theorem accelerator_memory_total:
  assumes "gamecube_aram d" and "m_sample_format (g_accelerator d) = 0xA"
  shows "(\<exists>v d'. gdsp_ifx_read 0xFFDD d = Inr (v, d')) \<and>
    (\<exists>d'. gdsp_ifx_write 0xFFD3 val d = Inr d' \<and>
       read_be16 (ReadHostMemory d') (m_current_address (g_accelerator d) * 2) = Inr val \<and>
       m_current_address (g_accelerator d') = m_current_address (g_accelerator d) + 1)"
proof
  obtain v a x where "Accelerator_Read (ReadHostMemory d) (\<lambda>n. g_ifx_regs d (0xa0 + of_nat n))
      (g_accelerator d) = Inr (v, a, x)"
    using lle_memory.read_total [OF assms(1), of "\<lambda>n. g_ifx_regs d (0xa0 + of_nat n)" "g_accelerator d"]
    by auto
  then show "\<exists>v d'. gdsp_ifx_read 0xFFDD d = Inr (v, d')"
    by (simp add: gdsp_ifx_read_def accelerator_read_reg_def Let_def)
  obtain a' s' where w: "WriteD3 WriteHostMemory val (g_accelerator d) d = Inr (a', s')"
    and r: "read_be16 (ReadHostMemory s') (m_current_address (g_accelerator d) * 2) = Inr val"
    using lle_memory.d3_roundtrip [OF assms] by blast
  have "ReadHostMemory (s'\<lparr>g_accelerator := a'\<rparr>) = ReadHostMemory s'"
    by (rule ext) (simp add: ReadHostMemory_def ReadARAM_def Read_U8_def cpu_byte_def)
  moreover have "m_current_address a' = m_current_address (g_accelerator d) + 1"
    using w assms(2) by (auto simp: WriteD3_def and_then_eq_Inr_conv)
  ultimately show "\<exists>d'. gdsp_ifx_write 0xFFD3 val d = Inr d' \<and>
       read_be16 (ReadHostMemory d') (m_current_address (g_accelerator d) * 2) = Inr val \<and>
       m_current_address (g_accelerator d') = m_current_address (g_accelerator d) + 1"
    by (simp add: gdsp_ifx_write_def Let_def w r)
qed

definition aram_test :: SDSP where
  "aram_test = dsp_zero\<lparr>g_aram_mask := 0xFFFFFF, g_accelerator := accelerator_zero\<lparr>m_sample_format := 0xA\<rparr>\<rparr>"

theorem accelerator_memory_total_witness:
  "\<exists>d'. gdsp_ifx_write 0xFFD3 0x1234 aram_test = Inr d' \<and> read_be16 (ReadHostMemory d') 0 = Inr 0x1234"
  using accelerator_memory_total [of aram_test "0x1234"]
  by (auto simp: aram_test_def gamecube_aram_def zero_defs)

theorem mailbox_roundtrip_witness:
  "\<exists>d3. gdsp_mbox_read_l MAILBOX_CPU
      (gdsp_mbox_write_l MAILBOX_CPU 0x5678 (gdsp_mbox_write_h MAILBOX_CPU 0x1234 dsp_zero)) = Inr (0x5678, d3) \<and>
    gdsp_mbox_read_h MAILBOX_CPU d3 = 0x1234"
  using mailbox_roundtrip [of dsp_zero MAILBOX_CPU _ "0x1234" _ "0x5678", OF _ refl refl] by auto

end
