(* ===== verification/DSP_MemoryMap.thy ===== *)
theory DSP_MemoryMap
  imports DSP_HWInterface
begin

text \<open>
  Data memory (\<open>dsp_dmem_read\<close> and \<open>dsp_dmem_write\<close> of \<^verbatim>\<open>Core/DSP/DSPMemoryMap.cpp\<close>):
  DRAM, the coefficient ROM and the hardware registers. An address nothing answers
  at reads 0 and ignores writes. The interface \<open>data_memory\<close> states what the
  load and store instructions rely on; it is interpreted on these two functions.
\<close>

unbundle bit_operations_syntax

definition dsp_dmem_read :: "u16 \<Rightarrow> SDSP \<Rightarrow> dsp_error + (u16 \<times> SDSP)" where
  "dsp_dmem_read addr d =
     (if drop_bit 12 addr = 0x0 then Inr (g_dram d (addr AND DSP_DRAM_MASK), d)
      else if drop_bit 12 addr = 0x1 then Inr (g_coef d (addr AND DSP_COEF_MASK), d)
      else if drop_bit 12 addr = 0xf then gdsp_ifx_read addr d
      else Inr (0, d))"

definition dsp_dmem_write :: "u16 \<Rightarrow> u16 \<Rightarrow> SDSP \<Rightarrow> dsp_result" where
  "dsp_dmem_write addr val d =
     (if drop_bit 12 addr = 0x0 then Inr (d\<lparr>g_dram := (g_dram d)(addr AND DSP_DRAM_MASK := val)\<rparr>)
      else if drop_bit 12 addr = 0xf then gdsp_ifx_write addr val d
      else Inr d)"

lemma dsp_dmem_read_frame: "dsp_dmem_read a d = Inr (v, d') \<Longrightarrow> hw_frame d d'"
  by (auto simp: dsp_dmem_read_def split: if_splits dest: gdsp_ifx_read_frame)

lemma dsp_dmem_write_frame: "dsp_dmem_write a v d = Inr d' \<Longrightarrow> hw_frame d d'"
  by (auto simp: dsp_dmem_write_def split: if_splits dest: gdsp_ifx_write_frame) (simp add: hw_frame_def)

lemma dram_mask_id: "drop_bit 12 a = 0 \<Longrightarrow> a AND DSP_DRAM_MASK = a" for a :: u16
proof -
  assume "drop_bit 12 a = 0"
  moreover have "a = push_bit 12 (drop_bit 12 a) OR take_bit 12 a"
    by (rule bit_word_eqI) (auto simp: bit_simps)
  ultimately show ?thesis by (simp add: mem_consts and_eq_take_bit)
qed

subsection \<open>What loads and stores rely on\<close>

text \<open>Writes of values to a list of addresses, in order, with a write function \<open>wr\<close>.\<close>

fun mem_writes :: "(u16 \<Rightarrow> u16 \<Rightarrow> 's \<Rightarrow> dsp_error + 's) \<Rightarrow> (u16 \<times> u16) list \<Rightarrow> 's \<Rightarrow> dsp_error + 's" where
  "mem_writes wr [] s = Inr s"
| "mem_writes wr ((a, v) # avs) s = and_then (wr a v s) (mem_writes wr avs)"

locale data_memory =
  fixes rd :: "u16 \<Rightarrow> 's \<Rightarrow> dsp_error + (u16 \<times> 's)"
    and wr :: "u16 \<Rightarrow> u16 \<Rightarrow> 's \<Rightarrow> dsp_error + 's"
    and ram :: "u16 \<Rightarrow> bool"
    and frame :: "'s \<Rightarrow> 's \<Rightarrow> bool"
  assumes ram_read: "ram a \<Longrightarrow> \<exists>v. rd a s = Inr (v, s)"
    and ram_write: "ram a \<Longrightarrow> \<exists>s'. wr a v s = Inr s' \<and> rd a s' = Inr (v, s')"
    and ram_other: "ram a \<Longrightarrow> ram b \<Longrightarrow> a \<noteq> b \<Longrightarrow> wr a v s = Inr s' \<Longrightarrow> rd b s = Inr (w, s) \<Longrightarrow> rd b s' = Inr (w, s')"
    and read_frame: "rd a s = Inr (v, s') \<Longrightarrow> frame s s'"
    and write_frame: "wr a v s = Inr s' \<Longrightarrow> frame s s'"
    and frame_refl: "frame s s"
    and frame_trans: "frame s t \<Longrightarrow> frame t u \<Longrightarrow> frame s u"
begin

lemma writes_frame: "mem_writes wr avs s = Inr s' \<Longrightarrow> frame s s'"
proof (induction avs arbitrary: s)
  case (Cons av avs)
  obtain a v s1 where "wr a v s = Inr s1" and "mem_writes wr avs s1 = Inr s'"
    using Cons(2) by (cases av) (auto simp: and_then_eq_Inr_conv)
  then show ?case using Cons(1) write_frame frame_trans by blast
qed (simp add: frame_refl)

lemma writes_keep:
  "b \<notin> fst ` set avs \<Longrightarrow> ram b \<Longrightarrow> \<forall>a\<in>fst ` set avs. ram a \<Longrightarrow> rd b s = Inr (w, s) \<Longrightarrow>
   mem_writes wr avs s = Inr s' \<Longrightarrow> rd b s' = Inr (w, s')"
proof (induction avs arbitrary: s)
  case (Cons av avs)
  obtain a v where av: "av = (a, v)" by fastforce
  with Cons(6) obtain s1 where s1: "wr a v s = Inr s1" "mem_writes wr avs s1 = Inr s'"
    by (auto simp: and_then_eq_Inr_conv)
  have "rd b s1 = Inr (w, s1)"
    using Cons(2-5) s1(1) av by (intro ram_other [of a b v s s1 w]) auto
  with Cons(1) [of s1] Cons(2-4) s1(2) show ?case by auto
qed simp

lemma writes_read:
  assumes "distinct (map fst avs)" and "\<forall>a\<in>fst ` set avs. ram a"
  shows "\<exists>s'. mem_writes wr avs s = Inr s' \<and> (\<forall>(a, v)\<in>set avs. rd a s' = Inr (v, s'))"
  using assms
proof (induction avs arbitrary: s)
  case (Cons av avs)
  obtain a v where av: "av = (a, v)" by fastforce
  with Cons have "ram a" by simp
  then obtain s1 where s1: "wr a v s = Inr s1" "rd a s1 = Inr (v, s1)" using ram_write by blast
  with Cons(1) [of s1] Cons(2,3) obtain s' where s': "mem_writes wr avs s1 = Inr s'"
    "\<forall>(a, v)\<in>set avs. rd a s' = Inr (v, s')" by auto
  have "rd a s' = Inr (v, s')"
    by (rule writes_keep [OF _ \<open>ram a\<close> _ s1(2) s'(1)]) (use Cons(2,3) av in auto)
  with s1(1) s' av show ?case by auto
qed simp

end

interpretation dmem: data_memory dsp_dmem_read dsp_dmem_write "\<lambda>a. drop_bit 12 a = 0" hw_frame
proof
  fix a b v w :: u16 and s s' :: SDSP
  show "drop_bit 12 a = 0 \<Longrightarrow> \<exists>v. dsp_dmem_read a s = Inr (v, s)"
    by (simp add: dsp_dmem_read_def)
  show "drop_bit 12 a = 0 \<Longrightarrow> \<exists>s'. dsp_dmem_write a v s = Inr s' \<and> dsp_dmem_read a s' = Inr (v, s')"
    by (simp add: dsp_dmem_read_def dsp_dmem_write_def)
  show "drop_bit 12 a = 0 \<Longrightarrow> drop_bit 12 b = 0 \<Longrightarrow> a \<noteq> b \<Longrightarrow> dsp_dmem_write a v s = Inr s' \<Longrightarrow>
      dsp_dmem_read b s = Inr (w, s) \<Longrightarrow> dsp_dmem_read b s' = Inr (w, s')"
    by (auto simp: dsp_dmem_read_def dsp_dmem_write_def dram_mask_id)
qed (auto intro: dsp_dmem_read_frame dsp_dmem_write_frame hw_frame_trans)

text \<open>
  Data memory is memory: after writes of values to distinct DRAM addresses, each
  address reads back its value, and no such access touches the register stacks, the
  write-back log or the control register.
\<close>

theorem dmem_writes_read:
  assumes "distinct (map fst avs)" and "\<forall>a\<in>fst ` set avs. drop_bit 12 a = 0"
  shows "\<exists>d'. mem_writes dsp_dmem_write avs d = Inr d' \<and> hw_frame d d' \<and>
    (\<forall>(a, v)\<in>set avs. dsp_dmem_read a d' = Inr (v, d'))"
  using dmem.writes_read [OF assms] dmem.writes_frame by blast

theorem dmem_writes_read_witness:
  "\<exists>d'. mem_writes dsp_dmem_write [(0, 5), (0xFFF, 7)] dsp_zero = Inr d' \<and> dsp_dmem_read 0xFFF d' = Inr (7, d') \<and>
     dsp_dmem_read 0 d' = Inr (5, d')"
  using dmem_writes_read [of "[(0, 5), (0xFFF, 7)]" dsp_zero] by auto

text \<open>
  The program cannot modify itself except by DMA: a data write changes what
  instruction reads return only when it goes to the DMA length register.
\<close>

theorem dmem_write_keeps_code:
  assumes "dsp_dmem_write addr val d = Inr d'" and "\<not> (drop_bit 12 addr = 0xf \<and> (ucast addr :: u8) = DSP_DSBL)"
  shows "dsp_imem_read d' = dsp_imem_read d \<and> g_code_flags d' = g_code_flags d"
proof -
  have "g_iram d' = g_iram d \<and> g_irom d' = g_irom d \<and> g_code_flags d' = g_code_flags d"
    using assms
    by (auto simp: dsp_dmem_write_def gdsp_ifx_write_def Let_def InterruptRequest_def
        gdsp_mbox_write_h_def gdsp_mbox_write_l_def upd_acc_def set_ifx_def and_then_eq_Inr_conv
        WriteD3_def WriteHostMemory_def WriteARAM_def cpu_put_def split: if_splits option.splits)
  then show ?thesis using dsp_imem_read_cong by metis
qed

theorem dmem_write_keeps_code_witness:
  "\<exists>d'. dsp_dmem_write 0x0123 7 dsp_zero = Inr d' \<and> dsp_imem_read d' = dsp_imem_read dsp_zero"
  using dmem_write_keeps_code [of "0x0123" 7 dsp_zero] by (auto simp: dsp_dmem_write_def)

end
