(* ===== verification/DSP_IntUtil.thy ===== *)
theory DSP_IntUtil
  imports DSP_Stacks DSP_MemoryMap
begin

text \<open>
  Register access of the interpreter (\<^verbatim>\<open>Core/DSP/Interpreter/DSPIntUtil.h\<close>): the
  address registers with their wrapping buffers, the 32 numbered registers, and the
  40-bit values of the product and the accumulators.
\<close>

unbundle bit_operations_syntax

subsection \<open>The status register\<close>

definition dsp_SR_set_flag :: "u16 \<Rightarrow> SDSP \<Rightarrow> SDSP" where
  "dsp_SR_set_flag flag d = set_sr (g_sr d OR flag) d"

definition dsp_SR_is_flag_set :: "u16 \<Rightarrow> SDSP \<Rightarrow> bool" where
  "dsp_SR_is_flag_set flag d \<longleftrightarrow> g_sr d AND flag \<noteq> 0"

subsection \<open>Address registers\<close>

definition dsp_increase_addr_reg :: "2 word \<Rightarrow> s16 \<Rightarrow> SDSP \<Rightarrow> u16" where
  "dsp_increase_addr_reg reg ix0 d =
     (let ar = ucast (g_ar reg d) :: u32;
          wr = ucast (g_wr reg d) :: u32;
          ix = scast ix0 :: u32;
          mx = push_bit 1 (wr OR 1);
          nar = ar + ix;
          dar = (nar XOR ar XOR ix) AND mx
      in ucast
        (if 0 \<le> sint ix then
           (if dar > wr then nar - (wr + 1) else nar)
         else
           (if ((nar + wr + 1) XOR nar) AND dar \<le> wr then nar + (wr + 1) else nar)))"

definition dsp_decrease_addr_reg :: "2 word \<Rightarrow> s16 \<Rightarrow> SDSP \<Rightarrow> u16" where
  "dsp_decrease_addr_reg reg ix0 d =
     (let ar = ucast (g_ar reg d) :: u32;
          wr = ucast (g_wr reg d) :: u32;
          ix = scast ix0 :: u32;
          mx = push_bit 1 (wr OR 1);
          nar = ar - ix;
          dar = (nar XOR ar XOR NOT ix) AND mx
      in ucast
        (if ix > 0xFFFF8000 then
           (if dar > wr then nar - (wr + 1) else nar)
         else
           (if ((nar + wr + 1) XOR nar) AND dar \<le> wr then nar + (wr + 1) else nar)))"

definition dsp_increment_addr_reg :: "2 word \<Rightarrow> SDSP \<Rightarrow> u16" where
  "dsp_increment_addr_reg reg d =
     (let ar = ucast (g_ar reg d) :: u32;
          wr = ucast (g_wr reg d) :: u32;
          nar = ar + 1
      in ucast (if nar XOR ar > push_bit 1 (wr OR 1) then nar - (wr + 1) else nar))"

definition dsp_decrement_addr_reg :: "2 word \<Rightarrow> SDSP \<Rightarrow> u16" where
  "dsp_decrement_addr_reg reg d =
     (let ar = ucast (g_ar reg d) :: u32;
          wr = ucast (g_wr reg d) :: u32;
          nar = ar + wr
      in ucast (if (nar XOR ar) AND push_bit 1 (wr OR 1) > wr then nar - (wr + 1) else nar))"

subsection \<open>Numbered registers\<close>

definition dsp_op_read_reg :: "nat \<Rightarrow> SDSP \<Rightarrow> u16 \<times> SDSP" where
  "dsp_op_read_reg reg0 d =
     (let reg = reg0 mod 0x20 in
      if DSP_REG_ST0 \<le> reg \<and> reg \<le> 0x0F then dsp_reg_load_stack (of_nat (reg - DSP_REG_ST0)) d
      else if reg \<le> 0x03 then (g_ar (of_nat (reg - DSP_REG_AR0)) d, d)
      else if reg \<le> 0x07 then (g_ix (of_nat (reg - DSP_REG_IX0)) d, d)
      else if reg \<le> 0x0B then (g_wr (of_nat (reg - DSP_REG_WR0)) d, d)
      else if reg \<le> 0x11 then (u_h (g_ac (of_nat (reg - DSP_REG_ACH0)) d), d)
      else if reg = DSP_REG_CR then (r_cr (g_r d), d)
      else if reg = DSP_REG_SR then (g_sr d, d)
      else if reg = DSP_REG_PRODL then (u_l (g_prod d), d)
      else if reg = DSP_REG_PRODM then (u_m (g_prod d), d)
      else if reg = DSP_REG_PRODH then (u_h (g_prod d), d)
      else if reg = DSP_REG_PRODM2 then (u_m2 (g_prod d), d)
      else if reg \<le> 0x19 then (ax_l (g_ax (of_nat (reg - DSP_REG_AXL0)) d), d)
      else if reg \<le> 0x1B then (ax_h (g_ax (of_nat (reg - DSP_REG_AXH0)) d), d)
      else if reg \<le> 0x1D then (u_l (g_ac (of_nat (reg - DSP_REG_ACL0)) d), d)
      else (u_m (g_ac (of_nat (reg - DSP_REG_ACM0)) d), d))"

definition dsp_op_write_reg :: "nat \<Rightarrow> u16 \<Rightarrow> SDSP \<Rightarrow> SDSP" where
  "dsp_op_write_reg reg0 val d =
     (let reg = reg0 mod 0x20 in
      if DSP_REG_ACH0 \<le> reg \<and> reg \<le> 0x11 then
        (let i = of_nat (reg - DSP_REG_ACH0)
         in set_ac i (set_u_h (scast (ucast val :: u8)) (g_ac i d)) d)
      else if DSP_REG_ST0 \<le> reg \<and> reg \<le> 0x0F then dsp_reg_store_stack (of_nat (reg - DSP_REG_ST0)) val d
      else if reg \<le> 0x03 then set_ar (of_nat (reg - DSP_REG_AR0)) val d
      else if reg \<le> 0x07 then set_ix (of_nat (reg - DSP_REG_IX0)) val d
      else if reg \<le> 0x0B then set_wr (of_nat (reg - DSP_REG_WR0)) val d
      else if reg = DSP_REG_CR then d\<lparr>g_r := (g_r d)\<lparr>r_cr := val\<rparr>\<rparr>
      else if reg = DSP_REG_SR then set_sr val d
      else if reg = DSP_REG_PRODL then set_prod (set_u_l val (g_prod d)) d
      else if reg = DSP_REG_PRODM then set_prod (set_u_m val (g_prod d)) d
      else if reg = DSP_REG_PRODH then set_prod (set_u_h val (g_prod d)) d
      else if reg = DSP_REG_PRODM2 then set_prod (set_u_m2 val (g_prod d)) d
      else if reg \<le> 0x19 then
        (let i = of_nat (reg - DSP_REG_AXL0) in set_ax i (set_ax_l val (g_ax i d)) d)
      else if reg \<le> 0x1B then
        (let i = of_nat (reg - DSP_REG_AXH0) in set_ax i (set_ax_h val (g_ax i d)) d)
      else if reg \<le> 0x1D then
        (let i = of_nat (reg - DSP_REG_ACL0) in set_ac i (set_u_l val (g_ac i d)) d)
      else
        (let i = of_nat (reg - DSP_REG_ACM0) in set_ac i (set_u_m val (g_ac i d)) d))"

definition dsp_conditional_extend_accum :: "nat \<Rightarrow> SDSP \<Rightarrow> SDSP" where
  "dsp_conditional_extend_accum reg d =
     (if (reg = 0x1E \<or> reg = 0x1F) \<and> g_sr d AND SR_40_MODE_BIT \<noteq> 0 then
        (let i = of_nat (reg - DSP_REG_ACM0);
             val = u_m (g_ac i d)
         in set_ac i (set_u_l 0 (set_u_h (if val AND 0x8000 \<noteq> 0 then 0xFFFF else 0x0000) (g_ac i d))) d)
      else d)"

subsection \<open>The product\<close>

definition dsp_get_long_prod :: "SDSP \<Rightarrow> s64" where
  "dsp_get_long_prod d =
     (let val = push_bit 32 (scast (ucast (u_h (g_prod d)) :: u8));
          low_prod = push_bit 16 (ucast (u_m (g_prod d)) + ucast (u_m2 (g_prod d))) OR ucast (u_l (g_prod d))
      in val + low_prod)"

text \<open>Rounding to the nearest multiple of \<open>0x10000\<close>, a half to the even one.\<close>

definition dsp_round_long_acc :: "s64 \<Rightarrow> s64" where
  "dsp_round_long_acc val =
     (if val AND 0x10000 \<noteq> 0 then (val + 0x8000) AND NOT 0xffff
      else (val + 0x7fff) AND NOT 0xffff)"

definition dsp_get_long_prod_round_prodl :: "SDSP \<Rightarrow> s64" where
  "dsp_get_long_prod_round_prodl d =
     (let prod = dsp_get_long_prod d in
      if prod AND 0x10000 \<noteq> 0 then (prod + 0x8000) AND NOT 0xffff
      else (prod + 0x7fff) AND NOT 0xffff)"

definition dsp_set_long_prod :: "s64 \<Rightarrow> SDSP \<Rightarrow> SDSP" where
  "dsp_set_long_prod val d = set_prod (val AND 0x000000FFFFFFFFFF) d"

subsection \<open>The accumulators\<close>

definition dsp_get_long_acc :: "1 word \<Rightarrow> SDSP \<Rightarrow> s64" where
  "dsp_get_long_acc reg d = sext40 (g_ac reg d)"

definition dsp_set_long_acc :: "1 word \<Rightarrow> s64 \<Rightarrow> SDSP \<Rightarrow> SDSP" where
  "dsp_set_long_acc reg0 val d = set_ac reg0 val d"

definition dsp_convert_long_acc :: "s64 \<Rightarrow> s64" where
  "dsp_convert_long_acc val = sext40 val"

definition dsp_get_acc_l :: "1 word \<Rightarrow> SDSP \<Rightarrow> s16" where
  "dsp_get_acc_l reg0 d = u_l (g_ac reg0 d)"

definition dsp_get_acc_m :: "1 word \<Rightarrow> SDSP \<Rightarrow> s16" where
  "dsp_get_acc_m reg0 d = u_m (g_ac reg0 d)"

definition dsp_get_acc_h :: "1 word \<Rightarrow> SDSP \<Rightarrow> s16" where
  "dsp_get_acc_h reg0 d = u_h (g_ac reg0 d)"

text \<open>\<^verbatim>\<open>(s32)acc\<close>, widened again.\<close>

definition to_s32 :: "s64 \<Rightarrow> s64" where
  "to_s32 v = scast (ucast v :: s32)"

definition dsp_op_read_reg_and_saturate :: "1 word \<Rightarrow> SDSP \<Rightarrow> u16" where
  "dsp_op_read_reg_and_saturate reg0 d =
     (if g_sr d AND SR_40_MODE_BIT \<noteq> 0 then
        (let acc = dsp_get_long_acc reg0 d in
         if acc \<noteq> to_s32 acc then (if sint acc > 0 then 0x7fff else 0x8000)
         else u_m (g_ac reg0 d))
      else u_m (g_ac reg0 d))"

subsection \<open>The extra accumulators\<close>

definition dsp_get_long_acx :: "1 word \<Rightarrow> SDSP \<Rightarrow> s32" where
  "dsp_get_long_acx reg0 d =
     push_bit 16 (ucast (ax_h (g_ax reg0 d))) OR ucast (ax_l (g_ax reg0 d))"

definition dsp_get_ax_l :: "1 word \<Rightarrow> SDSP \<Rightarrow> s16" where
  "dsp_get_ax_l reg0 d = ax_l (g_ax reg0 d)"

definition dsp_get_ax_h :: "1 word \<Rightarrow> SDSP \<Rightarrow> s16" where
  "dsp_get_ax_h reg0 d = ax_h (g_ax reg0 d)"

end
