(* ===== verification/DSP_IntCC.thy ===== *)
theory DSP_IntCC
  imports DSP_IntUtil
begin

text \<open>
  Flags and conditions (\<^verbatim>\<open>Core/DSP/Interpreter/DSPIntCCUtil.cpp\<close> and \<^verbatim>\<open>.h\<close>): the
  update of the status register after an operation and the 16 conditions the
  branches test.
\<close>

unbundle bit_operations_syntax

text \<open>\<^verbatim>\<open>if (c) g_dsp.r.sr |= flag;\<close>\<close>

definition flag_if :: "bool \<Rightarrow> u16 \<Rightarrow> u16 \<Rightarrow> u16" where
  "flag_if c flag sr = (if c then sr OR flag else sr)"

definition Update_SR_Register64 :: "s64 \<Rightarrow> bool \<Rightarrow> bool \<Rightarrow> SDSP \<Rightarrow> SDSP" where
  "Update_SR_Register64 Value carry overflow d =
     (let sr0 = g_sr d AND NOT SR_CMP_MASK;
          sr1 = flag_if carry SR_CARRY sr0;
          sr2 = flag_if overflow SR_OVERFLOW_STICKY (flag_if overflow SR_OVERFLOW sr1);
          sr3 = flag_if (Value = 0) SR_ARITH_ZERO sr2;
          sr4 = flag_if (sint Value < 0) SR_SIGN sr3;
          sr5 = flag_if (Value \<noteq> to_s32 Value) SR_OVER_S32 sr4;
          sr6 = flag_if (Value AND 0xc0000000 = 0 \<or> Value AND 0xc0000000 = 0xc0000000) SR_TOP2BITS sr5
      in set_sr sr6 d)"

definition Update_SR_Register16 :: "s16 \<Rightarrow> bool \<Rightarrow> bool \<Rightarrow> bool \<Rightarrow> SDSP \<Rightarrow> SDSP" where
  "Update_SR_Register16 Value carry overflow overS32 d =
     (let sr0 = g_sr d AND NOT SR_CMP_MASK;
          sr1 = flag_if carry SR_CARRY sr0;
          sr2 = flag_if overflow SR_OVERFLOW_STICKY (flag_if overflow SR_OVERFLOW sr1);
          sr3 = flag_if (Value = 0) SR_ARITH_ZERO sr2;
          sr4 = flag_if (sint Value < 0) SR_SIGN sr3;
          sr5 = flag_if overS32 SR_OVER_S32 sr4;
          sr6 = flag_if (drop_bit 14 Value = 0 \<or> drop_bit 14 Value = 3) SR_TOP2BITS sr5
      in set_sr sr6 d)"

definition Update_SR_LZ :: "bool \<Rightarrow> SDSP \<Rightarrow> SDSP" where
  "Update_SR_LZ value d =
     set_sr (if value then g_sr d OR SR_LOGIC_ZERO else g_sr d AND NOT SR_LOGIC_ZERO) d"

definition IsCarry :: "SDSP \<Rightarrow> bool" where "IsCarry d \<longleftrightarrow> g_sr d AND SR_CARRY \<noteq> 0"
definition IsOverflow :: "SDSP \<Rightarrow> bool" where "IsOverflow d \<longleftrightarrow> g_sr d AND SR_OVERFLOW \<noteq> 0"
definition IsOverS32 :: "SDSP \<Rightarrow> bool" where "IsOverS32 d \<longleftrightarrow> g_sr d AND SR_OVER_S32 \<noteq> 0"
definition IsLess :: "SDSP \<Rightarrow> bool" where
  "IsLess d \<longleftrightarrow> (g_sr d AND SR_OVERFLOW = 0) \<noteq> (g_sr d AND SR_SIGN = 0)"
definition IsZero :: "SDSP \<Rightarrow> bool" where "IsZero d \<longleftrightarrow> g_sr d AND SR_ARITH_ZERO \<noteq> 0"
definition IsLogicZero :: "SDSP \<Rightarrow> bool" where "IsLogicZero d \<longleftrightarrow> g_sr d AND SR_LOGIC_ZERO \<noteq> 0"
definition IsConditionA :: "SDSP \<Rightarrow> bool" where
  "IsConditionA d \<longleftrightarrow> (g_sr d AND SR_OVER_S32 \<noteq> 0 \<or> g_sr d AND SR_TOP2BITS \<noteq> 0) \<and> g_sr d AND SR_ARITH_ZERO = 0"

definition CheckCondition :: "u16 \<Rightarrow> SDSP \<Rightarrow> bool" where
  "CheckCondition Condition d =
     (let c = Condition AND 0xf in
      if c = 0xf then True
      else if c = 0x0 then \<not> IsLess d
      else if c = 0x1 then IsLess d
      else if c = 0x2 then \<not> IsLess d \<and> \<not> IsZero d
      else if c = 0x3 then IsLess d \<or> IsZero d
      else if c = 0x4 then \<not> IsZero d
      else if c = 0x5 then IsZero d
      else if c = 0x6 then \<not> IsCarry d
      else if c = 0x7 then IsCarry d
      else if c = 0x8 then \<not> IsOverS32 d
      else if c = 0x9 then IsOverS32 d
      else if c = 0xa then IsConditionA d
      else if c = 0xb then \<not> IsConditionA d
      else if c = 0xc then \<not> IsLogicZero d
      else if c = 0xd then IsLogicZero d
      else IsOverflow d)"

definition isCarry :: "u64 \<Rightarrow> u64 \<Rightarrow> bool" where
  "isCarry val result \<longleftrightarrow> val > result"

definition isCarry2 :: "u64 \<Rightarrow> u64 \<Rightarrow> bool" where
  "isCarry2 val result \<longleftrightarrow> val \<ge> result"

definition isOverflow :: "s64 \<Rightarrow> s64 \<Rightarrow> s64 \<Rightarrow> bool" where
  "isOverflow val1 val2 res \<longleftrightarrow> sint ((val1 XOR res) AND (val2 XOR res)) < 0"

definition isOverS32 :: "s64 \<Rightarrow> bool" where
  "isOverS32 acc \<longleftrightarrow> acc \<noteq> to_s32 acc"

subsection \<open>Bits of the status register after an update\<close>

lemma sr_bit_tests:
  "x AND SR_CARRY = 0 \<longleftrightarrow> \<not> bit x 0" "x AND SR_OVERFLOW = 0 \<longleftrightarrow> \<not> bit x 1"
  "x AND SR_ARITH_ZERO = 0 \<longleftrightarrow> \<not> bit x 2" "x AND SR_SIGN = 0 \<longleftrightarrow> \<not> bit x 3"
  "x AND SR_OVER_S32 = 0 \<longleftrightarrow> \<not> bit x 4" "x AND SR_TOP2BITS = 0 \<longleftrightarrow> \<not> bit x 5"
  "x AND SR_LOGIC_ZERO = 0 \<longleftrightarrow> \<not> bit x 6" "x AND SR_INT_ENABLE = 0 \<longleftrightarrow> \<not> bit x 9"
  "x AND SR_EXT_INT_ENABLE = 0 \<longleftrightarrow> \<not> bit x 11" "x AND SR_MUL_MODIFY = 0 \<longleftrightarrow> \<not> bit x 13"
  "x AND SR_40_MODE_BIT = 0 \<longleftrightarrow> \<not> bit x 14" "x AND SR_MUL_UNSIGNED = 0 \<longleftrightarrow> \<not> bit x 15"
  for x :: u16
  using and_exp_eq_0_iff [of x 0] and_exp_eq_0_iff [of x 1] and_exp_eq_0_iff [of x 2]
    and_exp_eq_0_iff [of x 3] and_exp_eq_0_iff [of x 4] and_exp_eq_0_iff [of x 5]
    and_exp_eq_0_iff [of x 6] and_exp_eq_0_iff [of x 9] and_exp_eq_0_iff [of x 11]
    and_exp_eq_0_iff [of x 13] and_exp_eq_0_iff [of x 14] and_exp_eq_0_iff [of x 15]
  by simp_all

lemma bit_pow16: "bit (2 ^ k :: u16) n \<longleftrightarrow> n = k \<and> k < 16"
  by (auto simp: bit_exp_iff possible_bit_word)

lemma bit_cmp_mask: "bit (SR_CMP_MASK :: u16) n \<longleftrightarrow> n < 6"
  using bit_mask_iff [of 6 n, where 'a = u16] by (simp add: mask_eq_exp_minus_1) auto

lemma bit_single_flags:
  "bit (SR_CARRY :: u16) n \<longleftrightarrow> n = 0" "bit (SR_OVERFLOW :: u16) n \<longleftrightarrow> n = 1"
  "bit (SR_ARITH_ZERO :: u16) n \<longleftrightarrow> n = 2" "bit (SR_SIGN :: u16) n \<longleftrightarrow> n = 3"
  "bit (SR_OVER_S32 :: u16) n \<longleftrightarrow> n = 4" "bit (SR_TOP2BITS :: u16) n \<longleftrightarrow> n = 5"
  "bit (SR_LOGIC_ZERO :: u16) n \<longleftrightarrow> n = 6" "bit (SR_OVERFLOW_STICKY :: u16) n \<longleftrightarrow> n = 7"
  "bit (SR_INT_ENABLE :: u16) n \<longleftrightarrow> n = 9" "bit (SR_EXT_INT_ENABLE :: u16) n \<longleftrightarrow> n = 11"
  subgoal using bit_pow16 [of 0 n] by simp
  subgoal using bit_pow16 [of 1 n] by simp
  subgoal using bit_pow16 [of 2 n] by simp
  subgoal using bit_pow16 [of 3 n] by simp
  subgoal using bit_pow16 [of 4 n] by simp
  subgoal using bit_pow16 [of 5 n] by simp
  subgoal using bit_pow16 [of 6 n] by simp
  subgoal using bit_pow16 [of 7 n] by simp
  subgoal using bit_pow16 [of 9 n] by simp
  subgoal using bit_pow16 [of 11 n] by simp
  done

lemma bit_flag_if: "bit (flag_if c flag sr) n \<longleftrightarrow> bit sr n \<or> c \<and> bit flag n"
  by (simp add: flag_if_def bit_or_iff)

lemmas flag_bits = bit_single_flags bit_cmp_mask bit_flag_if bit_or_iff bit_and_iff bit_not_iff possible_bit_word

lemma g_sr_set_sr [simp]: "g_sr (set_sr v d) = v"
  by simp

definition top2_equal64 :: "s64 \<Rightarrow> bool" where
  "top2_equal64 v \<longleftrightarrow> v AND 0xc0000000 = 0 \<or> v AND 0xc0000000 = 0xc0000000"

lemma bit_Update_SR_Register64 [flag_simps]:
  "n < 16 \<Longrightarrow> bit (g_sr (Update_SR_Register64 v c ov d)) n \<longleftrightarrow>
     (if n = 0 then c else if n = 1 then ov else if n = 2 then v = 0 else if n = 3 then sint v < 0
      else if n = 4 then v \<noteq> to_s32 v else if n = 5 then top2_equal64 v
      else if n = 7 then ov \<or> bit (g_sr d) 7 else bit (g_sr d) n)"
  unfolding Update_SR_Register64_def Let_def top2_equal64_def g_sr_set_sr flag_bits by auto

lemma bit_Update_SR_Register16 [flag_simps]:
  "n < 16 \<Longrightarrow> bit (g_sr (Update_SR_Register16 v c ov s32 d)) n \<longleftrightarrow>
     (if n = 0 then c else if n = 1 then ov else if n = 2 then v = 0 else if n = 3 then sint v < 0
      else if n = 4 then s32 else if n = 5 then drop_bit 14 v = 0 \<or> drop_bit 14 v = 3
      else if n = 7 then ov \<or> bit (g_sr d) 7 else bit (g_sr d) n)"
  unfolding Update_SR_Register16_def Let_def g_sr_set_sr flag_bits by auto

lemma bit_Update_SR_LZ [flag_simps]:
  "n < 16 \<Longrightarrow> bit (g_sr (Update_SR_LZ b d)) n \<longleftrightarrow> (if n = 6 then b else bit (g_sr d) n)"
  unfolding Update_SR_LZ_def g_sr_set_sr by (cases b; simp only: if_True if_False flag_bits; auto)

text \<open>The updates touch nothing but the status register.\<close>

lemma Update_SR_regs [simp]:
  "r_ac (g_r (Update_SR_Register64 v c ov d)) = r_ac (g_r d)"
  "r_prod (g_r (Update_SR_Register64 v c ov d)) = r_prod (g_r d)"
  "r_ax (g_r (Update_SR_Register64 v c ov d)) = r_ax (g_r d)"
  "g_pc (Update_SR_Register64 v c ov d) = g_pc d"
  "r_ac (g_r (Update_SR_Register16 w c ov s32 d)) = r_ac (g_r d)"
  "r_prod (g_r (Update_SR_Register16 w c ov s32 d)) = r_prod (g_r d)"
  "r_ax (g_r (Update_SR_Register16 w c ov s32 d)) = r_ax (g_r d)"
  "g_pc (Update_SR_Register16 w c ov s32 d) = g_pc d"
  "r_ac (g_r (Update_SR_LZ b d)) = r_ac (g_r d)" "g_pc (Update_SR_LZ b d) = g_pc d"
  by (simp_all add: Update_SR_Register64_def Update_SR_Register16_def Update_SR_LZ_def Let_def)

lemma Conditions_flags:
  "IsCarry d \<longleftrightarrow> bit (g_sr d) 0" "IsOverflow d \<longleftrightarrow> bit (g_sr d) 1" "IsZero d \<longleftrightarrow> bit (g_sr d) 2"
  "IsLess d \<longleftrightarrow> bit (g_sr d) 1 \<noteq> bit (g_sr d) 3" "IsOverS32 d \<longleftrightarrow> bit (g_sr d) 4"
  "IsLogicZero d \<longleftrightarrow> bit (g_sr d) 6"
  by (auto simp: IsCarry_def IsOverflow_def IsZero_def IsLess_def IsOverS32_def IsLogicZero_def sr_bit_tests)

subsection \<open>Carry and overflow of 40-bit sums and differences\<close>

lemma sint_neg_bit: "sint v < 0 \<longleftrightarrow> bit v 63" for v :: s64
  using bit_last_iff [of v] by simp

lemma isOverflow_signs:
  "isOverflow a b r \<longleftrightarrow> (sint a < 0) \<noteq> (sint r < 0) \<and> (sint b < 0) \<noteq> (sint r < 0)"
  unfolding isOverflow_def sint_neg_bit by (simp add: bit_simps)

lemma wrap40_near:
  assumes "- (2 ^ 40) \<le> k" and "k \<le> 2 ^ 40"
  shows "wrap40 k = (if s40 k then k else if 0 \<le> k then k - 2 ^ 40 else k + 2 ^ 40)"
proof (cases "s40 k")
  case False
  with assms have r: "0 \<le> k \<and> s40 (k - 2 ^ 40) \<or> k < 0 \<and> s40 (k + 2 ^ 40)"
    by (auto simp: s40_def)
  moreover have "wrap40 (k - 2 ^ 40) = wrap40 k" "wrap40 (k + 2 ^ 40) = wrap40 k"
    by (simp_all only: wrap40_eq_iff) simp_all
  ultimately show ?thesis using False by (metis wrap40_id not_le)
qed simp

lemma isOverflow_add:
  assumes "s40 (sint a)" and "- (2 ^ 39) \<le> sint b" and "sint b \<le> 2 ^ 39"
  shows "isOverflow a b (sext40 (a + b)) \<longleftrightarrow> \<not> s40 (sint a + sint b)"
proof -
  have "sint (sext40 (a + b)) = wrap40 (sint a + sint b)" by (rule sint_sext40_add)
  with wrap40_near [of "sint a + sint b"] assms show ?thesis
    unfolding isOverflow_signs by (auto simp: s40_def)
qed

lemma isCarry_add:
  assumes "s40 (sint a)" and "s40 (sint b)"
  shows "isCarry a (sext40 (a + b)) \<longleftrightarrow> sint a mod 2 ^ 40 + sint b mod 2 ^ 40 \<ge> 2 ^ 40"
proof -
  have "sint (sext40 (a + b)) mod 2 ^ 40 = (sint a mod 2 ^ 40 + sint b mod 2 ^ 40) mod 2 ^ 40"
    by (simp only: sint_sext40_add wrap40_mod mod_add_eq)
  moreover have "(x + y) mod 2 ^ 40 < x \<longleftrightarrow> x + y \<ge> 2 ^ 40"
    if "0 \<le> x" "x < 2 ^ 40" "0 \<le> y" "y < 2 ^ 40" for x y :: int
    using that mod_pos_pos_trivial [of "x + y - 2 ^ 40" "2 ^ 40"]
    by (cases "x + y < 2 ^ 40") (simp_all add: mod_pos_pos_trivial)
  ultimately show ?thesis
    unfolding isCarry_def less_s40_iff [OF s40_sext40 assms(1)] by simp
qed

lemma isCarry2_sub:
  assumes "s40 (sint a)" and "s40 (sint b)"
  shows "isCarry2 a (sext40 (a - b)) \<longleftrightarrow> sint b mod 2 ^ 40 \<le> sint a mod 2 ^ 40"
proof -
  have "sint (sext40 (a - b)) mod 2 ^ 40 = (sint a mod 2 ^ 40 - sint b mod 2 ^ 40) mod 2 ^ 40"
    by (simp only: sint_sext40_diff wrap40_mod mod_diff_eq)
  moreover have "x < (x - y) mod 2 ^ 40 \<longleftrightarrow> x < y"
    if "0 \<le> x" "x < 2 ^ 40" "0 \<le> y" "y < 2 ^ 40" for x y :: int
    using that mod_wrap_negative [of "2 ^ 40" "x - y"]
    by (cases "y \<le> x") (simp_all add: mod_pos_pos_trivial)
  ultimately show ?thesis
    unfolding isCarry2_def linorder_not_less [symmetric] less_s40_iff [OF assms(1) s40_sext40] by simp
qed

lemma to_s32_iff: "to_s32 v = v \<longleftrightarrow> - (2 ^ 31) \<le> sint v \<and> sint v < 2 ^ 31"
proof -
  have "sint (to_s32 v) = sint (ucast v :: s32)"
    unfolding to_s32_def by (rule sint_up_scast) (simp add: is_up)
  also have "\<dots> = signed_take_bit 31 (sint v)"
    by (simp add: sint_uint unsigned_ucast_eq signed_take_bit_take_bit
        signed_take_bit_eq_iff_take_bit_eq take_bit_signed_take_bit)
  finally have s: "sint (to_s32 v) = signed_take_bit 31 (sint v)" .
  have "to_s32 v = v \<longleftrightarrow> sint (to_s32 v) = sint v" by (metis signed_word_eqI)
  then show ?thesis
    unfolding s by (simp add: signed_take_bit_int_eq_self_iff)
qed

end
