(* ===== verification/DSP_Arithmetic.thy ===== *)
theory DSP_Arithmetic
  imports DSP_IntCC
begin

text \<open>
  The arithmetic instructions (\<^verbatim>\<open>Core/DSP/Interpreter/DSPIntArithmetic.cpp\<close>): one
  definition \<open>f_op\<close> for each function \<open>f\<close>, in the order of the source. The calls of
  \<open>zeroWriteBackLog\<close> and \<open>zeroWriteBackLogPreserveAcc\<close> are left out: their bodies are
  compiled only with \<^verbatim>\<open>PRECISE_BACKLOG\<close>, which is not defined.

  The lines the additions share (store the sum, read it back in 40 bits, set the
  flags) are \<open>add_to_acc\<close>, those of the subtractions \<open>sub_from_acc\<close>, those of the
  comparisons \<open>compare_acc\<close>, and those of the logic operations \<open>put_acc_m\<close>. The
  theory shows what the flags mean: for every comparison the conditions decide the
  order of the two 40-bit numbers, and for every addition and subtraction the flags
  are those of 40-bit two's-complement arithmetic.
\<close>

unbundle bit_operations_syntax

text \<open>\<^verbatim>\<open>(opc >> n) & 0x1\<close>, used as a register number.\<close>

definition opc_bit :: "nat \<Rightarrow> UDSPInstruction \<Rightarrow> 1 word" where
  "opc_bit n opc = ucast (drop_bit n opc)"

definition add_to_acc :: "1 word \<Rightarrow> s64 \<Rightarrow> SDSP \<Rightarrow> SDSP" where
  "add_to_acc dreg x d =
     (let acc = dsp_get_long_acc dreg d;
          d1 = dsp_set_long_acc dreg (acc + x) d;
          res = dsp_get_long_acc dreg d1
      in Update_SR_Register64 res (isCarry acc res) (isOverflow acc x res) d1)"

definition sub_from_acc :: "1 word \<Rightarrow> s64 \<Rightarrow> SDSP \<Rightarrow> SDSP" where
  "sub_from_acc dreg x d =
     (let acc = dsp_get_long_acc dreg d;
          d1 = dsp_set_long_acc dreg (acc - x) d;
          res = dsp_get_long_acc dreg d1
      in Update_SR_Register64 res (isCarry2 acc res) (isOverflow acc (- x) res) d1)"

definition compare_acc :: "s64 \<Rightarrow> s64 \<Rightarrow> SDSP \<Rightarrow> SDSP" where
  "compare_acc acc x d =
     (let res = dsp_convert_long_acc (acc - x)
      in Update_SR_Register64 res (isCarry2 acc res) (isOverflow acc (- x) res) d)"

definition put_acc_m :: "1 word \<Rightarrow> u16 \<Rightarrow> SDSP \<Rightarrow> SDSP" where
  "put_acc_m dreg accm d =
     (let d1 = set_ac dreg (set_u_m accm (g_ac dreg d)) d
      in Update_SR_Register16 accm False False (isOverS32 (dsp_get_long_acc dreg d1)) d1)"

definition put_acc :: "1 word \<Rightarrow> s64 \<Rightarrow> SDSP \<Rightarrow> SDSP" where
  "put_acc dreg acc d =
     (let d1 = dsp_set_long_acc dreg acc d
      in Update_SR_Register64 (dsp_get_long_acc dreg d1) False False d1)"

subsection \<open>Clear, test and compare\<close>

definition clr_op :: "UDSPInstruction \<Rightarrow> SDSP \<Rightarrow> SDSP" where
  "clr_op opc d = Update_SR_Register64 0 False False (dsp_set_long_acc (opc_bit 11 opc) 0 d)"

definition clrl_op :: "UDSPInstruction \<Rightarrow> SDSP \<Rightarrow> SDSP" where
  "clrl_op opc d =
     (let reg = opc_bit 8 opc;
          acc = dsp_round_long_acc (dsp_get_long_acc reg d)
      in Update_SR_Register64 acc False False (dsp_set_long_acc reg acc d))"

definition andcf_op :: "UDSPInstruction \<Rightarrow> SDSP \<Rightarrow> SDSP" where
  "andcf_op opc d =
     (let reg = opc_bit 8 opc;
          (imm, d1) = dsp_fetch_code d;
          val = dsp_get_acc_m reg d1
      in Update_SR_LZ (val AND imm = imm) d1)"

definition andf_op :: "UDSPInstruction \<Rightarrow> SDSP \<Rightarrow> SDSP" where
  "andf_op opc d =
     (let reg = opc_bit 8 opc;
          (imm, d1) = dsp_fetch_code d;
          val = dsp_get_acc_m reg d1
      in Update_SR_LZ (val AND imm = 0) d1)"

definition tst_op :: "UDSPInstruction \<Rightarrow> SDSP \<Rightarrow> SDSP" where
  "tst_op opc d = Update_SR_Register64 (dsp_get_long_acc (opc_bit 11 opc) d) False False d"

definition tstaxh_op :: "UDSPInstruction \<Rightarrow> SDSP \<Rightarrow> SDSP" where
  "tstaxh_op opc d = Update_SR_Register16 (dsp_get_ax_h (opc_bit 8 opc) d) False False False d"

definition cmp_op :: "UDSPInstruction \<Rightarrow> SDSP \<Rightarrow> SDSP" where
  "cmp_op opc d = compare_acc (dsp_get_long_acc 0 d) (dsp_get_long_acc 1 d) d"

definition cmpar_op :: "UDSPInstruction \<Rightarrow> SDSP \<Rightarrow> SDSP" where
  "cmpar_op opc d =
     (let rreg = opc_bit 12 opc;
          sreg = opc_bit 11 opc;
          sr = dsp_get_long_acc sreg d;
          rr = push_bit 16 (scast (ax_h (g_ax rreg d)))
      in compare_acc sr rr d)"

definition cmpi_op :: "UDSPInstruction \<Rightarrow> SDSP \<Rightarrow> SDSP" where
  "cmpi_op opc d =
     (let reg = opc_bit 8 opc;
          val = dsp_get_long_acc reg d;
          (imm, d1) = dsp_fetch_code d
      in compare_acc val (push_bit 16 (scast imm)) d1)"

definition cmpis_op :: "UDSPInstruction \<Rightarrow> SDSP \<Rightarrow> SDSP" where
  "cmpis_op opc d =
     (let areg = opc_bit 8 opc;
          acc = dsp_get_long_acc areg d;
          val = push_bit 16 (scast (ucast opc :: u8))
      in compare_acc acc val d)"

subsection \<open>Logic\<close>

definition xorr_op :: "UDSPInstruction \<Rightarrow> SDSP \<Rightarrow> SDSP" where
  "xorr_op opc d =
     (let dreg = opc_bit 8 opc; sreg = opc_bit 9 opc
      in put_acc_m dreg (u_m (g_ac dreg d) XOR ax_h (g_ax sreg d)) d)"

definition andr_op :: "UDSPInstruction \<Rightarrow> SDSP \<Rightarrow> SDSP" where
  "andr_op opc d =
     (let dreg = opc_bit 8 opc; sreg = opc_bit 9 opc
      in put_acc_m dreg (u_m (g_ac dreg d) AND ax_h (g_ax sreg d)) d)"

definition orr_op :: "UDSPInstruction \<Rightarrow> SDSP \<Rightarrow> SDSP" where
  "orr_op opc d =
     (let dreg = opc_bit 8 opc; sreg = opc_bit 9 opc
      in put_acc_m dreg (u_m (g_ac dreg d) OR ax_h (g_ax sreg d)) d)"

definition andc_op :: "UDSPInstruction \<Rightarrow> SDSP \<Rightarrow> SDSP" where
  "andc_op opc d =
     (let dreg = opc_bit 8 opc in put_acc_m dreg (u_m (g_ac dreg d) AND u_m (g_ac (1 - dreg) d)) d)"

definition orc_op :: "UDSPInstruction \<Rightarrow> SDSP \<Rightarrow> SDSP" where
  "orc_op opc d =
     (let dreg = opc_bit 8 opc in put_acc_m dreg (u_m (g_ac dreg d) OR u_m (g_ac (1 - dreg) d)) d)"

definition xorc_op :: "UDSPInstruction \<Rightarrow> SDSP \<Rightarrow> SDSP" where
  "xorc_op opc d =
     (let dreg = opc_bit 8 opc in put_acc_m dreg (u_m (g_ac dreg d) XOR u_m (g_ac (1 - dreg) d)) d)"

definition notc_op :: "UDSPInstruction \<Rightarrow> SDSP \<Rightarrow> SDSP" where
  "notc_op opc d =
     (let dreg = opc_bit 8 opc in put_acc_m dreg (u_m (g_ac dreg d) XOR 0xffff) d)"

definition xori_op :: "UDSPInstruction \<Rightarrow> SDSP \<Rightarrow> SDSP" where
  "xori_op opc d =
     (let reg = opc_bit 8 opc; (imm, d1) = dsp_fetch_code d
      in put_acc_m reg (u_m (g_ac reg d1) XOR imm) d1)"

definition andi_op :: "UDSPInstruction \<Rightarrow> SDSP \<Rightarrow> SDSP" where
  "andi_op opc d =
     (let reg = opc_bit 8 opc; (imm, d1) = dsp_fetch_code d
      in put_acc_m reg (u_m (g_ac reg d1) AND imm) d1)"

definition ori_op :: "UDSPInstruction \<Rightarrow> SDSP \<Rightarrow> SDSP" where
  "ori_op opc d =
     (let reg = opc_bit 8 opc; (imm, d1) = dsp_fetch_code d
      in put_acc_m reg (u_m (g_ac reg d1) OR imm) d1)"

subsection \<open>Addition\<close>

text \<open>The half of an extra accumulator selected by two bits of the opcode, at M level.\<close>

definition ax_half :: "UDSPInstruction \<Rightarrow> SDSP \<Rightarrow> s64" where
  "ax_half opc d =
     (let sreg = unat (drop_bit 9 opc AND 0x3) + DSP_REG_AXL0;
          ax = (if sreg = 0x18 \<or> sreg = 0x19 then scast (ax_l (g_ax (of_nat (sreg - DSP_REG_AXL0)) d))
                else if sreg = 0x1A \<or> sreg = 0x1B then scast (ax_h (g_ax (of_nat (sreg - DSP_REG_AXH0)) d))
                else 0)
      in push_bit 16 ax)"

definition addr_op :: "UDSPInstruction \<Rightarrow> SDSP \<Rightarrow> SDSP" where
  "addr_op opc d = add_to_acc (opc_bit 8 opc) (ax_half opc d) d"

definition addax_op :: "UDSPInstruction \<Rightarrow> SDSP \<Rightarrow> SDSP" where
  "addax_op opc d = add_to_acc (opc_bit 8 opc) (scast (dsp_get_long_acx (opc_bit 9 opc) d)) d"

definition add_op :: "UDSPInstruction \<Rightarrow> SDSP \<Rightarrow> SDSP" where
  "add_op opc d = (let dreg = opc_bit 8 opc in add_to_acc dreg (dsp_get_long_acc (1 - dreg) d) d)"

definition addp_op :: "UDSPInstruction \<Rightarrow> SDSP \<Rightarrow> SDSP" where
  "addp_op opc d = add_to_acc (opc_bit 8 opc) (dsp_get_long_prod d) d"

definition addaxl_op :: "UDSPInstruction \<Rightarrow> SDSP \<Rightarrow> SDSP" where
  "addaxl_op opc d = add_to_acc (opc_bit 8 opc) (ucast (dsp_get_ax_l (opc_bit 9 opc) d)) d"

definition addi_op :: "UDSPInstruction \<Rightarrow> SDSP \<Rightarrow> SDSP" where
  "addi_op opc d =
     (let (imm, d1) = dsp_fetch_code d in add_to_acc (opc_bit 8 opc) (push_bit 16 (scast imm)) d1)"

definition addis_op :: "UDSPInstruction \<Rightarrow> SDSP \<Rightarrow> SDSP" where
  "addis_op opc d = add_to_acc (opc_bit 8 opc) (push_bit 16 (scast (ucast opc :: u8))) d"

definition incm_op :: "UDSPInstruction \<Rightarrow> SDSP \<Rightarrow> SDSP" where
  "incm_op opc d = add_to_acc (opc_bit 8 opc) 0x10000 d"

definition inc_op :: "UDSPInstruction \<Rightarrow> SDSP \<Rightarrow> SDSP" where
  "inc_op opc d = add_to_acc (opc_bit 8 opc) 1 d"

subsection \<open>Subtraction\<close>

definition subr_op :: "UDSPInstruction \<Rightarrow> SDSP \<Rightarrow> SDSP" where
  "subr_op opc d = sub_from_acc (opc_bit 8 opc) (ax_half opc d) d"

definition subax_op :: "UDSPInstruction \<Rightarrow> SDSP \<Rightarrow> SDSP" where
  "subax_op opc d = sub_from_acc (opc_bit 8 opc) (scast (dsp_get_long_acx (opc_bit 9 opc) d)) d"

definition sub_op :: "UDSPInstruction \<Rightarrow> SDSP \<Rightarrow> SDSP" where
  "sub_op opc d = (let dreg = opc_bit 8 opc in sub_from_acc dreg (dsp_get_long_acc (1 - dreg) d) d)"

definition subp_op :: "UDSPInstruction \<Rightarrow> SDSP \<Rightarrow> SDSP" where
  "subp_op opc d = sub_from_acc (opc_bit 8 opc) (dsp_get_long_prod d) d"

definition decm_op :: "UDSPInstruction \<Rightarrow> SDSP \<Rightarrow> SDSP" where
  "decm_op opc d = sub_from_acc (opc_bit 8 opc) 0x10000 d"

definition dec_op :: "UDSPInstruction \<Rightarrow> SDSP \<Rightarrow> SDSP" where
  "dec_op opc d = sub_from_acc (opc_bit 8 opc) 1 d"

definition neg_op :: "UDSPInstruction \<Rightarrow> SDSP \<Rightarrow> SDSP" where
  "neg_op opc d = (let dreg = opc_bit 8 opc in put_acc dreg (0 - dsp_get_long_acc dreg d) d)"

definition abs_op :: "UDSPInstruction \<Rightarrow> SDSP \<Rightarrow> SDSP" where
  "abs_op opc d =
     (let dreg = opc_bit 11 opc; acc = dsp_get_long_acc dreg d
      in put_acc dreg (if sint acc < 0 then 0 - acc else acc) d)"

subsection \<open>Moves\<close>

definition movr_op :: "UDSPInstruction \<Rightarrow> SDSP \<Rightarrow> SDSP" where
  "movr_op opc d =
     (let ax = ax_half opc d AND NOT 0xffff
      in Update_SR_Register64 ax False False (dsp_set_long_acc (opc_bit 8 opc) ax d))"

definition movax_op :: "UDSPInstruction \<Rightarrow> SDSP \<Rightarrow> SDSP" where
  "movax_op opc d =
     (let acx = scast (dsp_get_long_acx (opc_bit 9 opc) d)
      in Update_SR_Register64 acx False False (dsp_set_long_acc (opc_bit 8 opc) acx d))"

definition mov_op :: "UDSPInstruction \<Rightarrow> SDSP \<Rightarrow> SDSP" where
  "mov_op opc d =
     (let dreg = opc_bit 8 opc; acc = dsp_get_long_acc (1 - dreg) d
      in Update_SR_Register64 acc False False (dsp_set_long_acc dreg acc d))"

subsection \<open>Shifts\<close>

definition lsl16_op :: "UDSPInstruction \<Rightarrow> SDSP \<Rightarrow> SDSP" where
  "lsl16_op opc d =
     (let areg = opc_bit 8 opc in put_acc areg (push_bit 16 (dsp_get_long_acc areg d)) d)"

definition lsr16_op :: "UDSPInstruction \<Rightarrow> SDSP \<Rightarrow> SDSP" where
  "lsr16_op opc d =
     (let areg = opc_bit 8 opc
      in put_acc areg (drop_bit 16 (dsp_get_long_acc areg d AND 0x000000FFFFFFFFFF)) d)"

definition asr16_op :: "UDSPInstruction \<Rightarrow> SDSP \<Rightarrow> SDSP" where
  "asr16_op opc d =
     (let areg = opc_bit 11 opc in put_acc areg (signed_drop_bit 16 (dsp_get_long_acc areg d)) d)"

definition lsl_op :: "UDSPInstruction \<Rightarrow> SDSP \<Rightarrow> SDSP" where
  "lsl_op opc d =
     (let rreg = opc_bit 8 opc; shift = unat (opc AND 0x3f)
      in put_acc rreg (push_bit shift (dsp_get_long_acc rreg d)) d)"

text \<open>The right shifts with an immediate encode the amount as \<open>0x40\<close> minus the field.\<close>

definition right_shift :: "UDSPInstruction \<Rightarrow> nat" where
  "right_shift opc = (if opc AND 0x3f = 0 then 0 else 0x40 - unat (opc AND 0x3f))"

definition lsr_op :: "UDSPInstruction \<Rightarrow> SDSP \<Rightarrow> SDSP" where
  "lsr_op opc d =
     (let rreg = opc_bit 8 opc;
          acc = dsp_get_long_acc rreg d AND 0x000000FFFFFFFFFF
      in put_acc rreg (drop_bit (right_shift opc) acc) d)"

definition asl_op :: "UDSPInstruction \<Rightarrow> SDSP \<Rightarrow> SDSP" where
  "asl_op opc d =
     (let rreg = opc_bit 8 opc; shift = unat (opc AND 0x3f)
      in put_acc rreg (push_bit shift (dsp_get_long_acc rreg d)) d)"

definition asr_op :: "UDSPInstruction \<Rightarrow> SDSP \<Rightarrow> SDSP" where
  "asr_op opc d =
     (let dreg = opc_bit 8 opc
      in put_acc dreg (signed_drop_bit (right_shift opc) (dsp_get_long_acc dreg d)) d)"

text \<open>The shift amount in a register: a signed 7-bit number, except that \<open>0x40\<close> is 0.\<close>

definition reg_shift :: "u16 \<Rightarrow> int" where
  "reg_shift r =
     (if r AND 0x3f = 0 then 0
      else if r AND 0x40 \<noteq> 0 then - 0x40 + uint (r AND 0x3f)
      else uint (r AND 0x3f))"

definition lsrn_op :: "UDSPInstruction \<Rightarrow> SDSP \<Rightarrow> SDSP" where
  "lsrn_op opc d =
     (let shift = reg_shift (dsp_get_acc_m 1 d);
          acc = dsp_get_long_acc 0 d AND 0x000000FFFFFFFFFF
      in put_acc 0 (if shift > 0 then drop_bit (nat shift) acc
                    else if shift < 0 then push_bit (nat (- shift)) acc else acc) d)"

definition asrn_op :: "UDSPInstruction \<Rightarrow> SDSP \<Rightarrow> SDSP" where
  "asrn_op opc d =
     (let shift = reg_shift (dsp_get_acc_m 1 d);
          acc = dsp_get_long_acc 0 d
      in put_acc 0 (if shift > 0 then signed_drop_bit (nat shift) acc
                    else if shift < 0 then push_bit (nat (- shift)) acc else acc) d)"

definition lsrnrx_op :: "UDSPInstruction \<Rightarrow> SDSP \<Rightarrow> SDSP" where
  "lsrnrx_op opc d =
     (let dreg = opc_bit 8 opc;
          shift = reg_shift (ax_h (g_ax (opc_bit 9 opc) d));
          acc = dsp_get_long_acc dreg d AND 0x000000FFFFFFFFFF
      in put_acc dreg (if shift > 0 then push_bit (nat shift) acc
                       else if shift < 0 then drop_bit (nat (- shift)) acc else acc) d)"

definition asrnrx_op :: "UDSPInstruction \<Rightarrow> SDSP \<Rightarrow> SDSP" where
  "asrnrx_op opc d =
     (let dreg = opc_bit 8 opc;
          shift = reg_shift (ax_h (g_ax (opc_bit 9 opc) d));
          acc = dsp_get_long_acc dreg d
      in put_acc dreg (if shift > 0 then push_bit (nat shift) acc
                       else if shift < 0 then signed_drop_bit (nat (- shift)) acc else acc) d)"

definition lsrnr_op :: "UDSPInstruction \<Rightarrow> SDSP \<Rightarrow> SDSP" where
  "lsrnr_op opc d =
     (let dreg = opc_bit 8 opc;
          shift = reg_shift (dsp_get_acc_m (1 - dreg) d);
          acc = dsp_get_long_acc dreg d AND 0x000000FFFFFFFFFF
      in put_acc dreg (if shift > 0 then push_bit (nat shift) acc
                       else if shift < 0 then drop_bit (nat (- shift)) acc else acc) d)"

definition asrnr_op :: "UDSPInstruction \<Rightarrow> SDSP \<Rightarrow> SDSP" where
  "asrnr_op opc d =
     (let dreg = opc_bit 8 opc;
          shift = reg_shift (dsp_get_acc_m (1 - dreg) d);
          acc = dsp_get_long_acc dreg d
      in put_acc dreg (if shift > 0 then push_bit (nat shift) acc
                       else if shift < 0 then signed_drop_bit (nat (- shift)) acc else acc) d)"

subsection \<open>Operands as integers\<close>

lemma sint_word_of_int64: "- (2 ^ 63) \<le> k \<Longrightarrow> k < 2 ^ 63 \<Longrightarrow> sint (word_of_int k :: s64) = k"
  by (simp add: sint_sbintrunc' signed_take_bit_int_eq_self)

lemma sint_eq_0_iff: "sint v = 0 \<longleftrightarrow> v = 0" for v :: s64
  by (metis signed_0 signed_word_eqI)

lemma sint_minus_s40: "s40 (sint v) \<Longrightarrow> sint (- v) = - sint v" for v :: s64
proof -
  assume "s40 (sint v)"
  then have "sint (word_of_int (- sint v) :: s64) = - sint v"
    by (intro sint_word_of_int64) (simp_all add: s40_def)
  then show ?thesis by simp
qed

lemma sint16_range: "- (2 ^ 15) \<le> sint w" "sint w < 2 ^ 15" for w :: u16
  using sint_greater_eq [of w] sint_less [of w] by simp_all

lemma sint8_range: "- (2 ^ 7) \<le> sint w" "sint w < 2 ^ 7" for w :: u8
  using sint_greater_eq [of w] sint_less [of w] by simp_all

lemma sint32_range: "- (2 ^ 31) \<le> sint w" "sint w < 2 ^ 31" for w :: u32
  using sint_greater_eq [of w] sint_less [of w] by simp_all

lemma push_bit_16_word_of_int: "push_bit 16 (word_of_int k :: s64) = word_of_int (k * 2 ^ 16)"
  by (simp add: push_bit_eq_mult)

lemma sint_M_level16: "sint (push_bit 16 (scast w) :: s64) = sint w * 2 ^ 16" for w :: u16
  using sint16_range [of w] unfolding scast_eq push_bit_16_word_of_int
  by (intro sint_word_of_int64) simp_all

lemma sint_M_level8: "sint (push_bit 16 (scast w) :: s64) = sint w * 2 ^ 16" for w :: u8
  using sint8_range [of w] unfolding scast_eq push_bit_16_word_of_int
  by (intro sint_word_of_int64) simp_all

lemma sint_scast32: "sint (scast w :: s64) = sint w" for w :: u32
  using sint32_range [of w] unfolding scast_eq by (intro sint_word_of_int64) simp_all

lemma nonpos_le_uint: "k \<le> 0 \<Longrightarrow> k \<le> uint w" for w :: "'a::len word"
  by (rule order_trans [OF _ uint_ge_0])

lemma sint_ucast16: "sint (ucast w :: s64) = uint w" for w :: u16
  using uint_lt2p [of w] unfolding ucast_eq
  by (intro sint_word_of_int64) (simp_all add: nonpos_le_uint)

lemma s40_operands [range40]:
  "s40 (sint (push_bit 16 (scast w) :: s64))" "s40 (sint (push_bit 16 (scast b) :: s64))"
  "s40 (sint (scast l :: s64))" "s40 (sint (ucast w :: s64))"
  for w :: u16 and b :: u8 and l :: u32
  using sint16_range [of w] sint8_range [of b] sint32_range [of l] uint_lt2p [of w]
  by (simp_all add: nonpos_le_uint sint_M_level16 sint_M_level8 sint_scast32 sint_ucast16 s40_def)

lemma s40_get_long_acc [range40, simp]: "s40 (sint (dsp_get_long_acc r d))"
  by (simp add: dsp_get_long_acc_def)

lemma s40_ax_half [range40]: "s40 (sint (ax_half opc d))"
  by (simp add: ax_half_def Let_def range40) (simp add: s40_def)

subsection \<open>Comparisons\<close>
definition decides_order :: "SDSP \<Rightarrow> int \<Rightarrow> int \<Rightarrow> bool" where
  "decides_order d x y \<longleftrightarrow>
     (CheckCondition 0x0 d \<longleftrightarrow> y \<le> x) \<and> (CheckCondition 0x1 d \<longleftrightarrow> x < y) \<and>
     (CheckCondition 0x2 d \<longleftrightarrow> y < x) \<and> (CheckCondition 0x3 d \<longleftrightarrow> x \<le> y) \<and>
     (CheckCondition 0x4 d \<longleftrightarrow> x \<noteq> y) \<and> (CheckCondition 0x5 d \<longleftrightarrow> x = y) \<and>
     (CheckCondition 0x6 d \<longleftrightarrow> x mod 2 ^ 40 < y mod 2 ^ 40) \<and>
     (CheckCondition 0x7 d \<longleftrightarrow> y mod 2 ^ 40 \<le> x mod 2 ^ 40)"

lemma compare_flags:
  assumes "s40 x" and "s40 y"
    and "IsCarry d \<longleftrightarrow> y mod 2 ^ 40 \<le> x mod 2 ^ 40" and "IsOverflow d \<longleftrightarrow> \<not> s40 (x - y)"
    and "IsZero d \<longleftrightarrow> wrap40 (x - y) = 0" and "bit (g_sr d) 3 \<longleftrightarrow> wrap40 (x - y) < 0"
  shows "decides_order d x y"
proof -
  have w: "wrap40 (x - y) = (if s40 (x - y) then x - y else if 0 \<le> x - y then x - y - 2 ^ 40 else x - y + 2 ^ 40)"
    by (rule wrap40_near) (use assms(1,2) in \<open>simp_all add: s40_def\<close>)
  have z: "IsZero d \<longleftrightarrow> x = y"
    unfolding assms(5) w using assms(1,2) by (auto simp: s40_def)
  have "IsLess d \<longleftrightarrow> IsOverflow d \<noteq> bit (g_sr d) 3" by (simp add: Conditions_flags)
  also have "\<dots> \<longleftrightarrow> x < y"
    unfolding assms(4,6) w using assms(1,2) by (auto simp: s40_def)
  finally have l: "IsLess d \<longleftrightarrow> x < y" .
  show ?thesis
    unfolding decides_order_def CheckCondition_def Let_def by (auto simp: l z assms(3))
qed

lemma compare_acc_decides:
  assumes "s40 (sint a)" and "s40 (sint x)"
  shows "decides_order (compare_acc a x d) (sint a) (sint x)"
proof (rule compare_flags [OF assms])
  let ?r = "sext40 (a - x)"
  have r: "sint ?r = wrap40 (sint a - sint x)" by (rule sint_sext40_diff)
  have e: "compare_acc a x d = Update_SR_Register64 ?r (isCarry2 a ?r) (isOverflow a (- x) ?r) d"
    by (simp add: compare_acc_def dsp_convert_long_acc_def Let_def)
  show "IsCarry (compare_acc a x d) \<longleftrightarrow> sint x mod 2 ^ 40 \<le> sint a mod 2 ^ 40"
    unfolding e by (simp add: Conditions_flags flag_simps isCarry2_sub [OF assms])
  have "isOverflow a (- x) (sext40 (a + - x)) \<longleftrightarrow> \<not> s40 (sint a + sint (- x))"
    by (rule isOverflow_add) (use assms in \<open>simp_all add: sint_minus_s40 s40_def\<close>)
  then show "IsOverflow (compare_acc a x d) \<longleftrightarrow> \<not> s40 (sint a - sint x)"
    unfolding e by (simp add: Conditions_flags flag_simps sint_minus_s40 [OF assms(2)])
  show "IsZero (compare_acc a x d) \<longleftrightarrow> wrap40 (sint a - sint x) = 0"
    unfolding e r [symmetric] by (simp add: Conditions_flags flag_simps sint_eq_0_iff)
  show "bit (g_sr (compare_acc a x d)) 3 \<longleftrightarrow> wrap40 (sint a - sint x) < 0"
    unfolding e r [symmetric] by (simp add: flag_simps)
qed

text \<open>
  C22. What a comparison decides: after each of the four compare instructions, the
  branch conditions \<open>GE\<close>, \<open>L\<close>, \<open>G\<close>, \<open>LE\<close>, \<open>NZ\<close>, \<open>Z\<close> hold exactly when the signed 40-bit
  numbers compared stand in that order, and \<open>C\<close>, \<open>NC\<close> when they do as unsigned 40-bit
  numbers, whatever the two values are: the flags are right even where the
  difference overflows 40 bits.
\<close>

theorem compare_family_decides:
  "decides_order (cmp_op opc d) (sint (dsp_get_long_acc 0 d)) (sint (dsp_get_long_acc 1 d)) \<and>
   decides_order (cmpar_op opc d) (sint (dsp_get_long_acc (opc_bit 11 opc) d))
     (sint (ax_h (g_ax (opc_bit 12 opc) d)) * 2 ^ 16) \<and>
   decides_order (cmpi_op opc d) (sint (dsp_get_long_acc (opc_bit 8 opc) d))
     (sint (dsp_imem_read d (g_pc d)) * 2 ^ 16) \<and>
   decides_order (cmpis_op opc d) (sint (dsp_get_long_acc (opc_bit 8 opc) d))
     (sint (ucast opc :: u8) * 2 ^ 16)"
proof -
  note c = compare_acc_decides [OF s40_get_long_acc]
  show ?thesis
    using c [OF s40_get_long_acc] c [OF s40_operands(1)] c [OF s40_operands(2)]
    by (simp add: cmp_op_def cmpar_op_def cmpi_op_def cmpis_op_def dsp_fetch_code_def Let_def
        sint_M_level16 sint_M_level8)
qed

subsection \<open>Additions and subtractions\<close>

text \<open>
  \<open>acc_result d d' r k\<close>: from \<open>d\<close> to \<open>d'\<close>, accumulator \<open>r\<close> has become the 40-bit value of
  \<open>k\<close>, the other accumulator is unchanged, and the zero, sign, overflow and range flags
  are those of the result.
\<close>

definition acc_result :: "SDSP \<Rightarrow> SDSP \<Rightarrow> 1 word \<Rightarrow> int \<Rightarrow> bool" where
  "acc_result d d' r k \<longleftrightarrow>
     sint (dsp_get_long_acc r d') = wrap40 k \<and> g_ac (1 - r) d' = g_ac (1 - r) d \<and>
     (IsZero d' \<longleftrightarrow> wrap40 k = 0) \<and> (bit (g_sr d') 3 \<longleftrightarrow> wrap40 k < 0) \<and>
     (IsOverflow d' \<longleftrightarrow> \<not> s40 k) \<and> (bit (g_sr d') 7 \<longleftrightarrow> \<not> s40 k \<or> bit (g_sr d) 7) \<and>
     (IsOverS32 d' \<longleftrightarrow> \<not> (- (2 ^ 31) \<le> wrap40 k \<and> wrap40 k < 2 ^ 31))"

definition adds40 :: "SDSP \<Rightarrow> SDSP \<Rightarrow> 1 word \<Rightarrow> int \<Rightarrow> bool" where
  "adds40 d d' r k \<longleftrightarrow> (let a = sint (dsp_get_long_acc r d) in
     acc_result d d' r (a + k) \<and> (IsCarry d' \<longleftrightarrow> 2 ^ 40 \<le> a mod 2 ^ 40 + k mod 2 ^ 40))"

definition subs40 :: "SDSP \<Rightarrow> SDSP \<Rightarrow> 1 word \<Rightarrow> int \<Rightarrow> bool" where
  "subs40 d d' r k \<longleftrightarrow> (let a = sint (dsp_get_long_acc r d) in
     acc_result d d' r (a - k) \<and> (IsCarry d' \<longleftrightarrow> k mod 2 ^ 40 \<le> a mod 2 ^ 40))"

lemma get_set_long_acc [simp]: "dsp_get_long_acc r (dsp_set_long_acc r v d) = sext40 v"
  by (simp add: dsp_get_long_acc_def dsp_set_long_acc_def)

lemma get_long_acc_cong: "r_ac (g_r d) = r_ac (g_r d') \<Longrightarrow> dsp_get_long_acc r d = dsp_get_long_acc r d'"
  by (simp add: dsp_get_long_acc_def)

lemma acc_result_update:
  assumes "sint v = wrap40 k" and "ov \<longleftrightarrow> \<not> s40 k" and "sext40 w = v" and "g_r d0 = g_r d"
  shows "acc_result d (Update_SR_Register64 v c ov (dsp_set_long_acc r w d0)) r k"
proof -
  have "sext40 w = v" by fact
  then show ?thesis
    unfolding acc_result_def assms(1) [symmetric]
    using to_s32_iff [of v] assms
    by (auto simp: Conditions_flags flag_simps sint_eq_0_iff dsp_set_long_acc_def dsp_get_long_acc_def)
qed

lemma add_to_acc_adds:
  assumes "s40 (sint x)" and "g_r d0 = g_r d"
  shows "adds40 d (add_to_acc r x d0) r (sint x)"
proof -
  let ?a = "dsp_get_long_acc r d" and ?r = "sext40 (dsp_get_long_acc r d + x)"
  have a: "dsp_get_long_acc r d0 = ?a" using assms(2) by (simp add: dsp_get_long_acc_def)
  have e: "add_to_acc r x d0 = Update_SR_Register64 ?r (isCarry ?a ?r) (isOverflow ?a x ?r) (dsp_set_long_acc r (?a + x) d0)"
    by (simp add: add_to_acc_def Let_def a)
  have "isOverflow ?a x ?r \<longleftrightarrow> \<not> s40 (sint ?a + sint x)"
    by (rule isOverflow_add [OF s40_get_long_acc]) (use assms(1) in \<open>simp_all add: s40_def\<close>)
  then have "acc_result d (add_to_acc r x d0) r (sint ?a + sint x)"
    unfolding e using assms(2) by (intro acc_result_update) (simp_all add: sint_sext40_add)
  moreover have "IsCarry (add_to_acc r x d0) \<longleftrightarrow> 2 ^ 40 \<le> sint ?a mod 2 ^ 40 + sint x mod 2 ^ 40"
    unfolding e using isCarry_add [OF s40_get_long_acc assms(1)] by (simp add: Conditions_flags flag_simps)
  ultimately show ?thesis by (simp add: adds40_def Let_def)
qed

lemma sub_from_acc_subs:
  assumes "s40 (sint x)" and "g_r d0 = g_r d"
  shows "subs40 d (sub_from_acc r x d0) r (sint x)"
proof -
  let ?a = "dsp_get_long_acc r d" and ?r = "sext40 (dsp_get_long_acc r d - x)"
  have a: "dsp_get_long_acc r d0 = ?a" using assms(2) by (simp add: dsp_get_long_acc_def)
  have e: "sub_from_acc r x d0 = Update_SR_Register64 ?r (isCarry2 ?a ?r) (isOverflow ?a (- x) ?r) (dsp_set_long_acc r (?a - x) d0)"
    by (simp add: sub_from_acc_def Let_def a)
  have "isOverflow ?a (- x) (sext40 (?a + - x)) \<longleftrightarrow> \<not> s40 (sint ?a + sint (- x))"
    by (rule isOverflow_add [OF s40_get_long_acc]) (use assms(1) in \<open>simp_all add: sint_minus_s40 s40_def\<close>)
  then have "acc_result d (sub_from_acc r x d0) r (sint ?a - sint x)"
    unfolding e using assms by (intro acc_result_update) (simp_all add: sint_sext40_diff sint_minus_s40)
  moreover have "IsCarry (sub_from_acc r x d0) \<longleftrightarrow> sint x mod 2 ^ 40 \<le> sint ?a mod 2 ^ 40"
    unfolding e using isCarry2_sub [OF s40_get_long_acc assms(1)] by (simp add: Conditions_flags flag_simps)
  ultimately show ?thesis by (simp add: subs40_def Let_def)
qed

text \<open>
  \<open>adds_only d d' r k pc\<close>: besides, the flag of the two equal top bits is that of the sum, the program counter is
  \<open>pc\<close>, and nothing else of the machine has changed: no other register, no other bit of the status register, no stack, memory or device.
\<close>

definition adds_only :: "SDSP \<Rightarrow> SDSP \<Rightarrow> 1 word \<Rightarrow> int \<Rightarrow> u16 \<Rightarrow> bool" where
  "adds_only d d' r k pc \<longleftrightarrow> adds40 d d' r k \<and> (bit (g_sr d') 5 \<longleftrightarrow> top2_equal64 (dsp_get_long_acc r d')) \<and>
     d'\<lparr>g_r := g_r d\<rparr> = d\<lparr>g_pc := pc\<rparr> \<and> (g_r d')\<lparr>r_ac := r_ac (g_r d), r_sr := r_sr (g_r d)\<rparr> = g_r d \<and>
     (\<forall>n. n \<notin> {0, 1, 2, 3, 4, 5, 7} \<longrightarrow> bit (g_sr d') n = bit (g_sr d) n)"

lemma add_to_acc_only:
  assumes "s40 (sint x)"
  shows "adds_only d (add_to_acc r x (d\<lparr>g_pc := pc\<rparr>)) r (sint x) pc"
proof -
  let ?d' = "add_to_acc r x (d\<lparr>g_pc := pc\<rparr>)"
  have "adds40 d ?d' r (sint x)" by (rule add_to_acc_adds [OF assms]) simp
  moreover have "bit (g_sr ?d') 5 \<longleftrightarrow> top2_equal64 (dsp_get_long_acc r ?d')"
    by (simp add: add_to_acc_def Let_def flag_simps) (simp add: dsp_get_long_acc_def dsp_set_long_acc_def)
  moreover have "bit (g_sr ?d') n = bit (g_sr d) n" if "n \<notin> {0, 1, 2, 3, 4, 5, 7}" for n
  proof (cases "n < 16")
    case True
    with that show ?thesis by (simp add: add_to_acc_def Let_def flag_simps dsp_set_long_acc_def)
  qed (auto dest: bit_imp_le_length)
  moreover have "?d'\<lparr>g_r := g_r d\<rparr> = d\<lparr>g_pc := pc\<rparr>" "(g_r ?d')\<lparr>r_ac := r_ac (g_r d), r_sr := r_sr (g_r d)\<rparr> = g_r d"
    by (simp_all add: add_to_acc_def Let_def Update_SR_Register64_def dsp_set_long_acc_def)
  ultimately show ?thesis by (simp add: adds_only_def)
qed

text \<open>
  The contract of an instruction that adds an operand to the accumulator selected
  by bit 8 of the opcode, and of one that subtracts it.
\<close>

locale acc_adder =
  fixes op :: "UDSPInstruction \<Rightarrow> SDSP \<Rightarrow> SDSP"
    and operand :: "UDSPInstruction \<Rightarrow> SDSP \<Rightarrow> s64"
    and next_pc :: "SDSP \<Rightarrow> u16"
  assumes as_add: "op opc d = add_to_acc (opc_bit 8 opc) (operand opc d) (d\<lparr>g_pc := next_pc d\<rparr>)"
    and add_range: "s40 (sint (operand opc d))"
begin

lemma only: "adds_only d (op opc d) (opc_bit 8 opc) (sint (operand opc d)) (next_pc d)"
  unfolding as_add by (rule add_to_acc_only [OF add_range])

lemma adds: "adds40 d (op opc d) (opc_bit 8 opc) (sint (operand opc d))"
  using only [of d opc] by (simp add: adds_only_def)

lemma sum: "sint (dsp_get_long_acc (opc_bit 8 opc) (op opc d)) =
    wrap40 (sint (dsp_get_long_acc (opc_bit 8 opc) d) + sint (operand opc d))"
  using adds [of d opc] by (simp add: adds40_def acc_result_def Let_def)

end

locale acc_subtractor =
  fixes op :: "UDSPInstruction \<Rightarrow> SDSP \<Rightarrow> SDSP"
    and operand :: "UDSPInstruction \<Rightarrow> SDSP \<Rightarrow> s64"
  assumes as_sub: "\<exists>d0. g_r d0 = g_r d \<and> op opc d = sub_from_acc (opc_bit 8 opc) (operand opc d) d0"
    and sub_range: "s40 (sint (operand opc d))"
begin

lemma subs: "subs40 d (op opc d) (opc_bit 8 opc) (sint (operand opc d))"
  using as_sub [of d opc] sub_from_acc_subs [OF sub_range] by auto

lemma difference: "sint (dsp_get_long_acc (opc_bit 8 opc) (op opc d)) =
    wrap40 (sint (dsp_get_long_acc (opc_bit 8 opc) d) - sint (operand opc d))"
  using subs [of d opc] by (simp add: subs40_def acc_result_def Let_def)

end

lemma wrap40_diff_wrap: "wrap40 (wrap40 m - k) = wrap40 (m - k)"
  unfolding wrap40_eq_iff by (intro mod_diff_cong wrap40_mod refl)

text \<open>An addition and a subtraction of the same operand, which the addition does not change.\<close>

locale acc_inverse = a: acc_adder op operand g_pc + s: acc_subtractor op' operand
  for op op' :: "UDSPInstruction \<Rightarrow> SDSP \<Rightarrow> SDSP"
    and operand :: "UDSPInstruction \<Rightarrow> SDSP \<Rightarrow> s64" +
  assumes stable: "operand opc' (op opc d) = operand opc' d"
begin

lemma sub_add:
  assumes "opc_bit 8 opc' = opc_bit 8 opc" and "operand opc' d = operand opc d"
  shows "dsp_get_long_acc (opc_bit 8 opc) (op' opc' (op opc d)) = dsp_get_long_acc (opc_bit 8 opc) d"
proof -
  let ?a = "sint (dsp_get_long_acc (opc_bit 8 opc) d)" and ?x = "sint (operand opc d)"
  have "sint (dsp_get_long_acc (opc_bit 8 opc) (op' opc' (op opc d))) = wrap40 (wrap40 (?a + ?x) - ?x)"
    using s.difference [of opc' "op opc d"] a.sum [of opc d] by (simp add: assms stable)
  also have "\<dots> = wrap40 ?a" by (simp add: wrap40_diff_wrap)
  finally show ?thesis by (simp add: signed_word_eqI)
qed

end

lemma add_to_acc_keeps:
  "r_ax (g_r (add_to_acc r x d)) = r_ax (g_r d)" "r_prod (g_r (add_to_acc r x d)) = r_prod (g_r d)"
  "g_ac (1 - r) (add_to_acc r x d) = g_ac (1 - r) d"
  by (simp_all add: add_to_acc_def Let_def dsp_set_long_acc_def)

lemmas addition_defs = addr_op_def addax_op_def add_op_def addaxl_op_def addi_op_def addis_op_def
  incm_op_def inc_op_def
lemmas subtraction_defs = subr_op_def subax_op_def sub_op_def decm_op_def dec_op_def

lemma ax_half_cong: "r_ax (g_r d) = r_ax (g_r d') \<Longrightarrow> ax_half opc d = ax_half opc d'"
  by (simp add: ax_half_def Let_def)

lemma s40_literals [range40]: "s40 1" "s40 0x10000"
  by (simp_all add: s40_def)

interpretation addr: acc_adder addr_op ax_half g_pc
  by unfold_locales (auto simp: addr_op_def range40)

interpretation addax: acc_adder addax_op "\<lambda>opc d. scast (dsp_get_long_acx (opc_bit 9 opc) d)" g_pc
  by unfold_locales (auto simp: addax_op_def range40)

interpretation add: acc_adder add_op "\<lambda>opc d. dsp_get_long_acc (1 - opc_bit 8 opc) d" g_pc
  by unfold_locales (auto simp: add_op_def range40 Let_def)

interpretation addaxl: acc_adder addaxl_op "\<lambda>opc d. ucast (dsp_get_ax_l (opc_bit 9 opc) d)" g_pc
  by unfold_locales (auto simp: addaxl_op_def range40)

interpretation addi: acc_adder addi_op "\<lambda>opc d. push_bit 16 (scast (dsp_imem_read d (g_pc d)))" "\<lambda>d. g_pc d + 1"
  by unfold_locales (auto simp: addi_op_def dsp_fetch_code_def range40)

interpretation addis: acc_adder addis_op "\<lambda>opc d. push_bit 16 (scast (ucast opc :: u8))" g_pc
  by unfold_locales (auto simp: addis_op_def range40)

interpretation incm: acc_adder incm_op "\<lambda>opc d. 0x10000" g_pc
  by unfold_locales (auto simp: incm_op_def range40)

interpretation inc: acc_adder inc_op "\<lambda>opc d. 1" g_pc
  by unfold_locales (auto simp: inc_op_def range40)

interpretation subr: acc_inverse addr_op subr_op ax_half
  by unfold_locales (auto simp: subr_op_def addr_op_def range40 add_to_acc_keeps intro: ax_half_cong)

interpretation subax: acc_inverse addax_op subax_op "\<lambda>opc d. scast (dsp_get_long_acx (opc_bit 9 opc) d)"
  by unfold_locales (auto simp: subax_op_def addax_op_def dsp_get_long_acx_def range40 add_to_acc_keeps)

interpretation sub: acc_subtractor sub_op "\<lambda>opc d. dsp_get_long_acc (1 - opc_bit 8 opc) d"
  by unfold_locales (auto simp: sub_op_def range40 Let_def)

interpretation decm: acc_inverse incm_op decm_op "\<lambda>opc d. 0x10000"
  by unfold_locales (auto simp: decm_op_def range40)

interpretation dec: acc_inverse inc_op dec_op "\<lambda>opc d. 1"
  by unfold_locales (auto simp: dec_op_def range40)

text \<open>
  C23. Every addition into an accumulator is 40-bit two's-complement addition: the
  accumulator becomes the sum modulo \<open>2^40\<close>, the zero, sign, carry, overflow and range flags and that of the two top bits are those
  of the sum, the sticky overflow flag is also set where the sum overflows, and nothing else changes, but that \<open>ADDI\<close>
  moves the program counter past its operand. (\<open>ADDP\<close> is the same under the range of the product, see the multiplier.)
\<close>

theorem addition_family:
  "adds_only d (add_op opc d) (opc_bit 8 opc) (sint (dsp_get_long_acc (1 - opc_bit 8 opc) d)) (g_pc d) \<and>
   adds_only d (addr_op opc d) (opc_bit 8 opc) (sint (ax_half opc d)) (g_pc d) \<and>
   adds_only d (addax_op opc d) (opc_bit 8 opc) (sint (dsp_get_long_acx (opc_bit 9 opc) d)) (g_pc d) \<and>
   adds_only d (addaxl_op opc d) (opc_bit 8 opc) (uint (ax_l (g_ax (opc_bit 9 opc) d))) (g_pc d) \<and>
   adds_only d (addi_op opc d) (opc_bit 8 opc) (sint (dsp_imem_read d (g_pc d)) * 2 ^ 16) (g_pc d + 1) \<and>
   adds_only d (addis_op opc d) (opc_bit 8 opc) (sint (ucast opc :: u8) * 2 ^ 16) (g_pc d) \<and>
   adds_only d (incm_op opc d) (opc_bit 8 opc) (2 ^ 16) (g_pc d) \<and>
   adds_only d (inc_op opc d) (opc_bit 8 opc) 1 (g_pc d)"
  using add.only [of d opc] addr.only [of d opc] addax.only [of d opc] addaxl.only [of d opc]
    addi.only [of d opc] addis.only [of d opc] incm.only [of d opc] inc.only [of d opc]
  by (simp add: sint_scast32 sint_ucast16 sint_M_level16 sint_M_level8 dsp_get_ax_l_def)

text \<open>
  Every subtraction from an accumulator is 40-bit two's-complement subtraction,
  with the carry flag set when there is no borrow.
\<close>

theorem subtraction_family:
  "subs40 d (sub_op opc d) (opc_bit 8 opc) (sint (dsp_get_long_acc (1 - opc_bit 8 opc) d)) \<and>
   subs40 d (subr_op opc d) (opc_bit 8 opc) (sint (ax_half opc d)) \<and>
   subs40 d (subax_op opc d) (opc_bit 8 opc) (sint (dsp_get_long_acx (opc_bit 9 opc) d)) \<and>
   subs40 d (decm_op opc d) (opc_bit 8 opc) (2 ^ 16) \<and>
   subs40 d (dec_op opc d) (opc_bit 8 opc) 1"
  using sub.subs [of d opc] subr.s.subs [of d opc] subax.s.subs [of d opc] decm.s.subs [of d opc]
    dec.s.subs [of d opc]
  by (simp add: sint_scast32)

text \<open>
  Subtracting what was added gives the accumulator back, whatever wrapped in
  between: \<open>SUBR\<close> undoes \<open>ADDR\<close>, \<open>SUBAX\<close> undoes \<open>ADDAX\<close>, \<open>DECM\<close> undoes \<open>INCM\<close>, \<open>DEC\<close> undoes
  \<open>INC\<close>.
\<close>

theorem subtraction_undoes_addition:
  "dsp_get_long_acc (opc_bit 8 opc) (subr_op opc (addr_op opc d)) = dsp_get_long_acc (opc_bit 8 opc) d \<and>
   dsp_get_long_acc (opc_bit 8 opc) (subax_op opc (addax_op opc d)) = dsp_get_long_acc (opc_bit 8 opc) d \<and>
   dsp_get_long_acc (opc_bit 8 opc) (decm_op opc (incm_op opc d)) = dsp_get_long_acc (opc_bit 8 opc) d \<and>
   dsp_get_long_acc (opc_bit 8 opc) (dec_op opc (inc_op opc d)) = dsp_get_long_acc (opc_bit 8 opc) d"
  using subr.sub_add [of opc opc d] subax.sub_add [of opc opc d] decm.sub_add [of opc opc d]
    dec.sub_add [of opc opc d]
  by simp


subsection \<open>Shifts, negation and rounding\<close>

lemma get_put_acc [simp]: "dsp_get_long_acc r (put_acc r v d) = sext40 v"
  by (simp add: put_acc_def Let_def dsp_set_long_acc_def dsp_get_long_acc_def)

lemma sint_asr: "sint (signed_drop_bit n v) = sint v div 2 ^ n" for v :: s64
  by (simp add: sint_signed_drop_bit_eq drop_bit_eq_div)

lemma s40_div: "s40 k \<Longrightarrow> s40 (k div 2 ^ n)"
proof -
  assume k: "s40 k"
  show ?thesis
  proof (cases "0 \<le> k")
    case True
    have "k * 1 \<le> k * 2 ^ n" using True by (intro mult_left_mono) simp_all
    then have "k div 2 ^ n \<le> k * 2 ^ n div 2 ^ n" by (intro zdiv_mono1) simp_all
    then have "k div 2 ^ n \<le> k" by simp
    moreover have "0 \<le> k div 2 ^ n" using True by (simp add: pos_imp_zdiv_nonneg_iff)
    ultimately show ?thesis using k by (simp add: s40_def)
  next
    case False
    have "k * 2 ^ n \<le> k * 1" using False by (intro mult_left_mono_neg) simp_all
    then have "k * 2 ^ n div 2 ^ n \<le> k div 2 ^ n" by (intro zdiv_mono1) simp_all
    then have "k \<le> k div 2 ^ n" by simp
    moreover have "k div 2 ^ n < 0" using False by (simp add: div_neg_pos_less0)
    ultimately show ?thesis using k by (simp add: s40_def)
  qed
qed

lemma wrap40_uint: "wrap40 (sint v) = wrap40 (uint v)" for v :: s64
  by (simp only: wrap40_eq_iff sint_mod_40)

lemma wrap40_lsl: "sint (sext40 (push_bit n v)) = wrap40 (sint v * 2 ^ n)" for v :: s64
proof -
  have "uint (push_bit n v) = take_bit 64 (push_bit n (uint v))"
    by (simp only: unsigned_push_bit_eq) simp
  then have "uint (push_bit n v) mod 2 ^ 40 = (uint v * 2 ^ n) mod 2 ^ 40"
    by (simp only: take_bit_eq_mod push_bit_eq_mult) (simp add: mod_mod_cancel)
  also have "\<dots> = (sint v * 2 ^ n) mod 2 ^ 40"
    by (intro mod_mult_cong refl) (simp only: sint_mod_40)
  finally show ?thesis by (simp only: sint_sext40 wrap40_uint) (simp only: wrap40_eq_iff)
qed

lemma uint_and_mask40: "uint (v AND 0xFFFFFFFFFF) = sint v mod 2 ^ 40" for v :: s64
  unfolding sint_mod_40 and_eq_take_bit unsigned_take_bit_eq by (rule take_bit_eq_mod)

lemma uint_drop_bit: "uint (drop_bit n w) = uint w div 2 ^ n" for w :: "'a::len word"
proof -
  have "uint (drop_bit n w) = drop_bit n (uint w)"
    by (simp only: unsigned_drop_bit_eq bintr_uint [OF order_refl])
  then show ?thesis by (simp only: drop_bit_eq_div)
qed

lemma sint_lsr: "sint (sext40 (drop_bit n (v AND 0xFFFFFFFFFF))) = wrap40 (sint v mod 2 ^ 40 div 2 ^ n)" for v :: s64
proof -
  have "uint (drop_bit n (v AND 0xFFFFFFFFFF)) = sint v mod 2 ^ 40 div 2 ^ n"
    by (simp only: uint_drop_bit uint_and_mask40)
  then show ?thesis by (simp only: sint_sext40 wrap40_uint)
qed

text \<open>
  The shifts: a left shift multiplies by a power of two and wraps to 40 bits, an
  arithmetic right shift divides rounding down, and a logical right shift divides
  the unsigned 40-bit pattern.
\<close>

theorem shift_family:
  fixes opc :: UDSPInstruction
  defines "r \<equiv> opc_bit 8 opc"
  shows "sint (dsp_get_long_acc r (lsl_op opc d)) = wrap40 (sint (dsp_get_long_acc r d) * 2 ^ unat (opc AND 0x3f)) \<and>
   sint (dsp_get_long_acc r (asl_op opc d)) = wrap40 (sint (dsp_get_long_acc r d) * 2 ^ unat (opc AND 0x3f)) \<and>
   sint (dsp_get_long_acc r (asr_op opc d)) = sint (dsp_get_long_acc r d) div 2 ^ right_shift opc \<and>
   sint (dsp_get_long_acc r (lsr_op opc d)) =
     wrap40 (sint (dsp_get_long_acc r d) mod 2 ^ 40 div 2 ^ right_shift opc) \<and>
   sint (dsp_get_long_acc r (lsl16_op opc d)) = wrap40 (sint (dsp_get_long_acc r d) * 2 ^ 16) \<and>
   sint (dsp_get_long_acc r (lsr16_op opc d)) = sint (dsp_get_long_acc r d) mod 2 ^ 40 div 2 ^ 16 \<and>
   sint (dsp_get_long_acc (opc_bit 11 opc) (asr16_op opc d)) =
     sint (dsp_get_long_acc (opc_bit 11 opc) d) div 2 ^ 16"
proof -
  have asr: "sint (sext40 (signed_drop_bit n (dsp_get_long_acc q d))) = sint (dsp_get_long_acc q d) div 2 ^ n" for n q
    by (simp add: sint_sext40 sint_asr s40_div)
  have "s40 (m div 2 ^ 16)" if "0 \<le> m" "m < 2 ^ 40" for m :: int
  proof -
    have "m div 2 ^ 16 \<le> (2 ^ 40 - 1) div 2 ^ 16" using that by (intro zdiv_mono1) simp_all
    moreover have "0 \<le> m div 2 ^ 16" using that by (simp add: pos_imp_zdiv_nonneg_iff)
    ultimately show ?thesis by (simp add: s40_def)
  qed
  then have "s40 (sint (dsp_get_long_acc r d) mod 2 ^ 40 div 2 ^ 16)" by simp
  then have lsr16: "wrap40 (sint (dsp_get_long_acc r d) mod 2 ^ 40 div 2 ^ 16) =
      sint (dsp_get_long_acc r d) mod 2 ^ 40 div 2 ^ 16"
    by (rule wrap40_id)
  show ?thesis
    unfolding lsl_op_def asl_op_def asr_op_def lsr_op_def lsl16_op_def lsr16_op_def asr16_op_def
      Let_def r_def [symmetric] get_put_acc
    by (simp only: wrap40_lsl asr sint_lsr lsr16 simp_thms)
qed

text \<open>
  Negation and absolute value of an accumulator, with their flags; the most
  negative 40-bit number is its own negative.
\<close>

theorem neg_abs_result:
  "acc_result d (neg_op opc d) (opc_bit 8 opc) (wrap40 (- sint (dsp_get_long_acc (opc_bit 8 opc) d))) \<and>
   acc_result d (abs_op opc d) (opc_bit 11 opc) (wrap40 \<bar>sint (dsp_get_long_acc (opc_bit 11 opc) d)\<bar>)"
proof
  have p: "acc_result d (put_acc r v d) r (wrap40 (sint v))" for r v
    unfolding put_acc_def Let_def get_set_long_acc by (rule acc_result_update) (simp_all add: sint_sext40)
  show "acc_result d (neg_op opc d) (opc_bit 8 opc) (wrap40 (- sint (dsp_get_long_acc (opc_bit 8 opc) d)))"
    using p [of "opc_bit 8 opc" "- dsp_get_long_acc (opc_bit 8 opc) d"]
    by (simp add: neg_op_def Let_def sint_minus_s40)
  show "acc_result d (abs_op opc d) (opc_bit 11 opc) (wrap40 \<bar>sint (dsp_get_long_acc (opc_bit 11 opc) d)\<bar>)"
    using p [of "opc_bit 11 opc" "- dsp_get_long_acc (opc_bit 11 opc) d"]
      p [of "opc_bit 11 opc" "dsp_get_long_acc (opc_bit 11 opc) d"]
    by (auto simp: abs_op_def Let_def sint_minus_s40)
qed

subsection \<open>Rounding\<close>

lemma and_not_mask16: "v AND NOT 0xffff = v - take_bit 16 v" for v :: s64
proof -
  have "v AND NOT (mask 16) = push_bit 16 (drop_bit 16 v)"
    by (rule bit_word_eqI) (auto simp: bit_simps)
  then have "(v AND NOT (mask 16)) + take_bit 16 v = v" by (simp only: bits_ident)
  moreover have "(mask 16 :: s64) = 0xffff" by (simp add: mask_eq_exp_minus_1)
  ultimately show ?thesis by (simp only: eq_diff_eq)
qed

lemma sint_mod_16: "sint v mod 2 ^ 16 = uint v mod 2 ^ 16" for v :: s64
proof -
  have "take_bit 16 (sint v) = take_bit 16 (uint v)"
    by (simp add: sint_uint take_bit_signed_take_bit)
  then show ?thesis by (simp add: take_bit_eq_mod)
qed

lemma take_bit_16_word_of_int: "take_bit 16 v = word_of_int (sint v mod 2 ^ 16)" for v :: s64
proof -
  have "take_bit 16 v = word_of_int (uint (take_bit 16 v))" by simp
  also have "uint (take_bit 16 v) = take_bit 16 (uint v)" by (rule unsigned_take_bit_eq)
  also have "\<dots> = uint v mod 2 ^ 16" by (rule take_bit_eq_mod)
  finally show ?thesis by (simp only: sint_mod_16)
qed

lemma sint_clear16:
  fixes v :: s64
  assumes "- (2 ^ 62) \<le> sint v" and "sint v < 2 ^ 62"
  shows "sint (v AND NOT 0xffff) = sint v - sint v mod 2 ^ 16"
proof -
  have "v AND NOT 0xffff = v - word_of_int (sint v mod 2 ^ 16)"
    by (simp only: and_not_mask16 take_bit_16_word_of_int)
  then have e: "v AND NOT 0xffff = word_of_int (sint v - sint v mod 2 ^ 16)"
    by simp
  have "0 \<le> sint v mod 2 ^ 16" "sint v mod 2 ^ 16 < 2 ^ 16" by simp_all
  with assms show ?thesis unfolding e by (intro sint_word_of_int64) simp_all
qed

text \<open>\<open>q\<close> is \<open>k\<close> rounded to a multiple of \<open>2^16\<close>, a half to the even multiple.\<close>

definition rounds16 :: "int \<Rightarrow> int \<Rightarrow> bool" where
  "rounds16 k q \<longleftrightarrow> q mod 2 ^ 16 = 0 \<and> \<bar>k - q\<bar> \<le> 2 ^ 15 \<and> (\<bar>k - q\<bar> = 2 ^ 15 \<longrightarrow> even (q div 2 ^ 16))"

lemma round_bit16: "v AND 0x10000 \<noteq> 0 \<longleftrightarrow> odd (sint v div 2 ^ 16)" for v :: s64
proof -
  have "v AND 0x10000 = 0 \<longleftrightarrow> \<not> bit v 16" using and_exp_eq_0_iff [of v 16] by simp
  moreover have "bit v 16 \<longleftrightarrow> bit (sint v) 16" by (simp add: bit_sint_iff)
  ultimately show ?thesis by (simp add: bit_iff_odd)
qed

lemma rounds16_up:
  fixes k :: int
  defines "h \<equiv> (if odd (k div 2 ^ 16) then 0x8000 else 0x7fff)"
  shows "rounds16 k (k + h - (k + h) mod 2 ^ 16)"
proof -
  obtain q m where k: "k = q * 65536 + m" and m: "0 \<le> m" "m < 65536"
    using div_mult_mod_eq [of k 65536] pos_mod_sign [of 65536 k] pos_mod_bound [of 65536 k] by (metis zero_less_numeral)
  have q: "k div 2 ^ 16 = q" using m by (simp add: k)
  define c where "c = (if m + h < 65536 then 0 else 1 :: int)"
  have h: "h = (if odd q then 0x8000 else 0x7fff)" by (simp only: h_def q)
  define t where "t = m + h - c * 65536"
  have kh: "k + h = (q + c) * 65536 + t" by (simp add: k t_def algebra_simps)
  have t: "0 \<le> t" "t < 65536" using m by (auto simp: t_def c_def h)
  have "(k + h) mod 65536 = t mod 65536" unfolding kh by (rule mod_mult_self3)
  also have "\<dots> = t" by (rule mod_pos_pos_trivial [OF t])
  finally have "(k + h) mod 2 ^ 16 = t" by simp
  then have r: "k + h - (k + h) mod 2 ^ 16 = (q + c) * 65536" by (simp only: kh add_diff_cancel_right')
  have "\<bar>k - (q + c) * 65536\<bar> \<le> 2 ^ 15 \<and> (\<bar>k - (q + c) * 65536\<bar> = 2 ^ 15 \<longrightarrow> even (q + c))"
    using m by (auto simp: c_def h k algebra_simps)
  then show ?thesis unfolding r by (simp add: rounds16_def)
qed

lemma sint_round_long_acc:
  assumes "s40 (sint v)"
  shows "rounds16 (sint v) (sint (dsp_round_long_acc v))"
proof -
  define h :: int where "h = (if odd (sint v div 2 ^ 16) then 0x8000 else 0x7fff)"
  have h: "0 \<le> h" "h \<le> 0x8000" by (simp_all add: h_def)
  have "sint v + h = sint (v + word_of_int h)"
  proof -
    have "sint (word_of_int (sint v + h) :: s64) = sint v + h"
      using assms h by (intro sint_word_of_int64) (simp_all add: s40_def)
    then show ?thesis by simp
  qed
  then have "sint ((v + word_of_int h) AND NOT 0xffff) = sint v + h - (sint v + h) mod 2 ^ 16"
    using assms h sint_clear16 [of "v + word_of_int h"] by (simp add: s40_def)
  moreover have "dsp_round_long_acc v = (v + word_of_int h) AND NOT 0xffff"
    by (simp add: dsp_round_long_acc_def round_bit16 h_def)
  ultimately show ?thesis using rounds16_up [of "sint v"] by (simp add: h_def)
qed

text \<open>
  Rounding: \<open>CLRL\<close> replaces the accumulator by the nearest multiple of \<open>2^16\<close>, a tie
  going to the even multiple, wrapped to 40 bits.
\<close>

theorem clrl_rounds:
  "\<exists>q. rounds16 (sint (dsp_get_long_acc (opc_bit 8 opc) d)) q \<and>
    sint (dsp_get_long_acc (opc_bit 8 opc) (clrl_op opc d)) = wrap40 q"
proof -
  let ?r = "dsp_round_long_acc (dsp_get_long_acc (opc_bit 8 opc) d)"
  have "sint (dsp_get_long_acc (opc_bit 8 opc) (clrl_op opc d)) = wrap40 (sint ?r)"
    by (simp add: clrl_op_def Let_def dsp_get_long_acc_def dsp_set_long_acc_def sint_sext40)
  then show ?thesis using sint_round_long_acc [OF s40_get_long_acc] by blast
qed


end
