(* ===== verification/DSP_Multiplier.thy ===== *)
theory DSP_Multiplier
  imports DSP_Arithmetic
begin

text \<open>
  The multiplier (\<^verbatim>\<open>Core/DSP/Interpreter/DSPIntMultiplier.cpp\<close>). Most instructions
  use the product of an earlier multiplication for the accumulator and start the
  next one in the same step, so the order in which the product register is read and
  written matters. The theory shows that products are exact in the signed, unsigned
  and mixed modes and that the product register holds them in 40 bits.

  The product \<^verbatim>\<open>(u32)(a * b)\<close> of two 16-bit values is computed by the source in
  \<^verbatim>\<open>int\<close>, where it can overflow; the model takes the wrapped value every compiler
  of the project produces.
\<close>

unbundle bit_operations_syntax

definition dsp_get_multiply_prod :: "u16 \<Rightarrow> u16 \<Rightarrow> nat \<Rightarrow> SDSP \<Rightarrow> s64" where
  "dsp_get_multiply_prod a b sign d =
     (let prod =
        (if sign = 1 \<and> g_sr d AND SR_MUL_UNSIGNED \<noteq> 0 then ucast (ucast a * ucast b :: u32)
         else if sign = 2 \<and> g_sr d AND SR_MUL_UNSIGNED \<noteq> 0 then scast (ucast a * scast b :: s32)
         else scast (scast a * scast b :: s32))
      in if g_sr d AND SR_MUL_MODIFY = 0 then push_bit 1 prod else prod)"

definition dsp_multiply :: "u16 \<Rightarrow> u16 \<Rightarrow> nat \<Rightarrow> SDSP \<Rightarrow> s64" where
  "dsp_multiply a b sign d = dsp_get_multiply_prod a b sign d"

definition dsp_multiply_add :: "u16 \<Rightarrow> u16 \<Rightarrow> nat \<Rightarrow> SDSP \<Rightarrow> s64" where
  "dsp_multiply_add a b sign d = dsp_get_long_prod d + dsp_get_multiply_prod a b sign d"

definition dsp_multiply_sub :: "u16 \<Rightarrow> u16 \<Rightarrow> nat \<Rightarrow> SDSP \<Rightarrow> s64" where
  "dsp_multiply_sub a b sign d = dsp_get_long_prod d - dsp_get_multiply_prod a b sign d"

definition dsp_multiply_mulx :: "1 word \<Rightarrow> 1 word \<Rightarrow> u16 \<Rightarrow> u16 \<Rightarrow> SDSP \<Rightarrow> s64" where
  "dsp_multiply_mulx axh0 axh1 val1 val2 d =
     (if axh0 = 0 \<and> axh1 = 0 then dsp_multiply val1 val2 1 d
      else if axh0 = 0 \<and> axh1 = 1 then dsp_multiply val1 val2 2 d
      else if axh0 = 1 \<and> axh1 = 0 then dsp_multiply val2 val1 2 d
      else dsp_multiply val1 val2 0 d)"

definition clrp_op :: "UDSPInstruction \<Rightarrow> SDSP \<Rightarrow> SDSP" where
  "clrp_op opc d =
     set_prod (set_u_m2 0x0010 (set_u_h 0x00ff (set_u_m 0xfff0 (set_u_l 0x0000 (g_prod d))))) d"

definition tstprod_op :: "UDSPInstruction \<Rightarrow> SDSP \<Rightarrow> SDSP" where
  "tstprod_op opc d = Update_SR_Register64 (dsp_get_long_prod d) False False d"

definition movp_op :: "UDSPInstruction \<Rightarrow> SDSP \<Rightarrow> SDSP" where
  "movp_op opc d =
     (let acc = dsp_get_long_prod d
      in Update_SR_Register64 acc False False (dsp_set_long_acc (opc_bit 8 opc) acc d))"

definition movnp_op :: "UDSPInstruction \<Rightarrow> SDSP \<Rightarrow> SDSP" where
  "movnp_op opc d =
     (let acc = - dsp_get_long_prod d
      in Update_SR_Register64 acc False False (dsp_set_long_acc (opc_bit 8 opc) acc d))"

definition movpz_op :: "UDSPInstruction \<Rightarrow> SDSP \<Rightarrow> SDSP" where
  "movpz_op opc d =
     (let acc = dsp_get_long_prod_round_prodl d
      in Update_SR_Register64 acc False False (dsp_set_long_acc (opc_bit 8 opc) acc d))"

definition addpaxz_op :: "UDSPInstruction \<Rightarrow> SDSP \<Rightarrow> SDSP" where
  "addpaxz_op opc d =
     (let dreg = opc_bit 8 opc;
          sreg = opc_bit 9 opc;
          oldprod = dsp_get_long_prod d;
          prod = dsp_get_long_prod_round_prodl d;
          ax = scast (dsp_get_long_acx sreg d);
          d1 = dsp_set_long_acc dreg (prod + (ax AND NOT 0xffff)) d;
          res = dsp_get_long_acc dreg d1
      in Update_SR_Register64 res (isCarry oldprod res) False d1)"

definition mulaxh_op :: "UDSPInstruction \<Rightarrow> SDSP \<Rightarrow> SDSP" where
  "mulaxh_op opc d = dsp_set_long_prod (dsp_multiply (dsp_get_ax_h 0 d) (dsp_get_ax_h 0 d) 0 d) d"

subsection \<open>Multiply a half with the other half of the same register\<close>

definition mul_op :: "UDSPInstruction \<Rightarrow> SDSP \<Rightarrow> SDSP" where
  "mul_op opc d =
     (let sreg = opc_bit 11 opc
      in dsp_set_long_prod (dsp_multiply (dsp_get_ax_h sreg d) (dsp_get_ax_l sreg d) 0 d) d)"

text \<open>
  The last lines of the multiply-and-move instructions: the new product, then the
  accumulator, then the flags of its 40-bit value.
\<close>

definition put_prod_acc :: "s64 \<Rightarrow> 1 word \<Rightarrow> s64 \<Rightarrow> SDSP \<Rightarrow> SDSP" where
  "put_prod_acc new_prod rreg acc d =
     (let d1 = dsp_set_long_acc rreg acc (dsp_set_long_prod new_prod d)
      in Update_SR_Register64 (dsp_get_long_acc rreg d1) False False d1)"

definition ax_product :: "UDSPInstruction \<Rightarrow> SDSP \<Rightarrow> s64" where
  "ax_product opc d =
     (let sreg = opc_bit 11 opc in dsp_multiply (dsp_get_ax_l sreg d) (dsp_get_ax_h sreg d) 0 d)"

definition mulac_op :: "UDSPInstruction \<Rightarrow> SDSP \<Rightarrow> SDSP" where
  "mulac_op opc d =
     (let rreg = opc_bit 8 opc; acc = dsp_get_long_acc rreg d + dsp_get_long_prod d
      in put_prod_acc (ax_product opc d) rreg acc d)"

definition mulmv_op :: "UDSPInstruction \<Rightarrow> SDSP \<Rightarrow> SDSP" where
  "mulmv_op opc d = put_prod_acc (ax_product opc d) (opc_bit 8 opc) (dsp_get_long_prod d) d"

definition mulmvz_op :: "UDSPInstruction \<Rightarrow> SDSP \<Rightarrow> SDSP" where
  "mulmvz_op opc d = put_prod_acc (ax_product opc d) (opc_bit 8 opc) (dsp_get_long_prod_round_prodl d) d"

subsection \<open>Multiply a half of one register with a half of the other\<close>

definition ax_select :: "1 word \<Rightarrow> 1 word \<Rightarrow> SDSP \<Rightarrow> u16" where
  "ax_select half i d = (if half = 0 then dsp_get_ax_l i d else dsp_get_ax_h i d)"

definition mulx_product :: "UDSPInstruction \<Rightarrow> SDSP \<Rightarrow> s64" where
  "mulx_product opc d =
     (let treg = opc_bit 11 opc; sreg = opc_bit 12 opc
      in dsp_multiply_mulx sreg treg (ax_select sreg 0 d) (ax_select treg 1 d) d)"

definition mulx_op :: "UDSPInstruction \<Rightarrow> SDSP \<Rightarrow> SDSP" where
  "mulx_op opc d = dsp_set_long_prod (mulx_product opc d) d"

definition mulxac_op :: "UDSPInstruction \<Rightarrow> SDSP \<Rightarrow> SDSP" where
  "mulxac_op opc d =
     (let rreg = opc_bit 8 opc; acc = dsp_get_long_acc rreg d + dsp_get_long_prod d
      in put_prod_acc (mulx_product opc d) rreg acc d)"

definition mulxmv_op :: "UDSPInstruction \<Rightarrow> SDSP \<Rightarrow> SDSP" where
  "mulxmv_op opc d = put_prod_acc (mulx_product opc d) (opc_bit 8 opc) (dsp_get_long_prod d) d"

definition mulxmvz_op :: "UDSPInstruction \<Rightarrow> SDSP \<Rightarrow> SDSP" where
  "mulxmvz_op opc d = put_prod_acc (mulx_product opc d) (opc_bit 8 opc) (dsp_get_long_prod_round_prodl d) d"

subsection \<open>Multiply the middle of an accumulator with a high half\<close>

definition mulc_product :: "UDSPInstruction \<Rightarrow> SDSP \<Rightarrow> s64" where
  "mulc_product opc d =
     (let treg = opc_bit 11 opc; sreg = opc_bit 12 opc
      in dsp_multiply (dsp_get_acc_m sreg d) (dsp_get_ax_h treg d) 0 d)"

definition mulc_op :: "UDSPInstruction \<Rightarrow> SDSP \<Rightarrow> SDSP" where
  "mulc_op opc d = dsp_set_long_prod (mulc_product opc d) d"

definition mulcac_op :: "UDSPInstruction \<Rightarrow> SDSP \<Rightarrow> SDSP" where
  "mulcac_op opc d =
     (let rreg = opc_bit 8 opc; acc = dsp_get_long_acc rreg d + dsp_get_long_prod d
      in put_prod_acc (mulc_product opc d) rreg acc d)"

definition mulcmv_op :: "UDSPInstruction \<Rightarrow> SDSP \<Rightarrow> SDSP" where
  "mulcmv_op opc d = put_prod_acc (mulc_product opc d) (opc_bit 8 opc) (dsp_get_long_prod d) d"

definition mulcmvz_op :: "UDSPInstruction \<Rightarrow> SDSP \<Rightarrow> SDSP" where
  "mulcmvz_op opc d = put_prod_acc (mulc_product opc d) (opc_bit 8 opc) (dsp_get_long_prod_round_prodl d) d"

subsection \<open>Multiply and accumulate in the product register\<close>

definition maddx_op :: "UDSPInstruction \<Rightarrow> SDSP \<Rightarrow> SDSP" where
  "maddx_op opc d =
     (let treg = opc_bit 8 opc; sreg = opc_bit 9 opc
      in dsp_set_long_prod (dsp_multiply_add (ax_select sreg 0 d) (ax_select treg 1 d) 0 d) d)"

definition msubx_op :: "UDSPInstruction \<Rightarrow> SDSP \<Rightarrow> SDSP" where
  "msubx_op opc d =
     (let treg = opc_bit 8 opc; sreg = opc_bit 9 opc
      in dsp_set_long_prod (dsp_multiply_sub (ax_select sreg 0 d) (ax_select treg 1 d) 0 d) d)"

definition maddc_op :: "UDSPInstruction \<Rightarrow> SDSP \<Rightarrow> SDSP" where
  "maddc_op opc d =
     (let treg = opc_bit 8 opc; sreg = opc_bit 9 opc
      in dsp_set_long_prod (dsp_multiply_add (dsp_get_acc_m sreg d) (dsp_get_ax_h treg d) 0 d) d)"

definition msubc_op :: "UDSPInstruction \<Rightarrow> SDSP \<Rightarrow> SDSP" where
  "msubc_op opc d =
     (let treg = opc_bit 8 opc; sreg = opc_bit 9 opc
      in dsp_set_long_prod (dsp_multiply_sub (dsp_get_acc_m sreg d) (dsp_get_ax_h treg d) 0 d) d)"

definition madd_op :: "UDSPInstruction \<Rightarrow> SDSP \<Rightarrow> SDSP" where
  "madd_op opc d =
     (let sreg = opc_bit 8 opc
      in dsp_set_long_prod (dsp_multiply_add (dsp_get_ax_l sreg d) (dsp_get_ax_h sreg d) 0 d) d)"

definition msub_op :: "UDSPInstruction \<Rightarrow> SDSP \<Rightarrow> SDSP" where
  "msub_op opc d =
     (let sreg = opc_bit 8 opc
      in dsp_set_long_prod (dsp_multiply_sub (dsp_get_ax_l sreg d) (dsp_get_ax_h sreg d) 0 d) d)"

subsection \<open>Products are exact\<close>

text \<open>The integer product a multiplication stands for.\<close>

definition product_of :: "u16 \<Rightarrow> u16 \<Rightarrow> nat \<Rightarrow> SDSP \<Rightarrow> int" where
  "product_of a b sign d =
     (let k = (if sign = 1 \<and> bit (g_sr d) 15 then uint a * uint b
               else if sign = 2 \<and> bit (g_sr d) 15 then uint a * sint b
               else sint a * sint b)
      in if bit (g_sr d) 13 then k else 2 * k)"

lemma abs_mult_le: "\<bar>x\<bar> \<le> m \<Longrightarrow> \<bar>y\<bar> \<le> n \<Longrightarrow> \<bar>x * y\<bar> \<le> m * n" for x y m n :: int
  by (simp add: abs_mult mult_mono')

lemma abs_u16: "\<bar>uint w\<bar> \<le> 65535" "\<bar>sint w\<bar> \<le> 32768" for w :: u16
  using uint_lt2p [of w] sint16_range [of w] by simp_all

lemma sint_word_of_int32: "- (2 ^ 31) \<le> k \<Longrightarrow> k < 2 ^ 31 \<Longrightarrow> sint (word_of_int k :: s32) = k"
  by (simp add: sint_sbintrunc' signed_take_bit_int_eq_self)

lemma uint_word_of_int32: "0 \<le> k \<Longrightarrow> k < 2 ^ 32 \<Longrightarrow> uint (word_of_int k :: u32) = k"
  by (simp add: uint_word_of_int take_bit_int_eq_self)

lemma product_signed: "sint (scast (scast a * scast b :: s32) :: s64) = sint a * sint b" for a b :: u16
proof -
  have le: "\<bar>sint a * sint b\<bar> \<le> 32768 * 32768" by (rule abs_mult_le; rule abs_u16)
  have "(scast a * scast b :: s32) = word_of_int (sint a * sint b)"
    by (simp only: scast_eq of_int_mult)
  also have "sint \<dots> = sint a * sint b"
    by (rule sint_word_of_int32) (use le in \<open>simp add: abs_le_iff\<close>)+
  finally show ?thesis by (simp only: sint_scast32)
qed

lemma product_mixed: "sint (scast (ucast a * scast b :: s32) :: s64) = uint a * sint b" for a b :: u16
proof -
  have le: "\<bar>uint a * sint b\<bar> \<le> 65535 * 32768" by (rule abs_mult_le; rule abs_u16)
  have "(ucast a * scast b :: s32) = word_of_int (uint a * sint b)"
    by (simp only: scast_eq ucast_eq of_int_mult)
  also have "sint \<dots> = uint a * sint b"
    by (rule sint_word_of_int32) (use le in \<open>simp add: abs_le_iff\<close>)+
  finally show ?thesis by (simp only: sint_scast32)
qed

lemma product_unsigned: "sint (ucast (ucast a * ucast b :: u32) :: s64) = uint a * uint b" for a b :: u16
proof -
  have le: "\<bar>uint a * uint b\<bar> \<le> 65535 * 65535" by (rule abs_mult_le; rule abs_u16)
  have big: "sint (word_of_int k :: s64) = k" if "0 \<le> k" "k \<le> 65535 * 65535" for k
    using that by (intro sint_word_of_int64) simp_all
  have nn: "0 \<le> uint a * uint b" by (rule mult_nonneg_nonneg; rule uint_ge_0)
  have "(ucast a * ucast b :: u32) = word_of_int (uint a * uint b)"
    by (simp only: ucast_eq of_int_mult)
  also have "uint \<dots> = uint a * uint b"
    by (rule uint_word_of_int32 [OF nn]) (use le in \<open>simp add: abs_le_iff\<close>)
  finally have u: "uint (ucast a * ucast b :: u32) = uint a * uint b" .
  have "(ucast (ucast a * ucast b :: u32) :: s64) = word_of_int (uint (ucast a * ucast b :: u32))"
    by (rule ucast_eq)
  also have "\<dots> = word_of_int (uint a * uint b)" unfolding u ..
  also have "sint \<dots> = uint a * uint b" by (rule big [OF nn abs_le_D1 [OF le]])
  finally show ?thesis .
qed

lemma sint_double: "\<bar>sint v\<bar> \<le> 2 ^ 34 \<Longrightarrow> sint (push_bit 1 v) = 2 * sint v" for v :: s64
proof -
  assume le: "\<bar>sint v\<bar> \<le> 2 ^ 34"
  have "push_bit 1 v = word_of_int (2 * sint v)" by (simp add: push_bit_eq_mult mult.commute)
  also have "sint \<dots> = 2 * sint v"
    by (rule sint_word_of_int64) (use le in \<open>simp add: abs_le_iff\<close>)+
  finally show ?thesis .
qed

lemma product_of_bound: "\<bar>product_of a b md d\<bar> \<le> 2 * (65535 * 65535)"
proof -
  have "\<bar>uint a * uint b\<bar> \<le> 65535 * 65535" by (rule abs_mult_le; rule abs_u16)
  moreover have "\<bar>uint a * sint b\<bar> \<le> 65535 * 32768" by (rule abs_mult_le; rule abs_u16)
  moreover have "\<bar>sint a * sint b\<bar> \<le> 32768 * 32768" by (rule abs_mult_le; rule abs_u16)
  ultimately show ?thesis by (auto simp: product_of_def Let_def)
qed

lemma sint_multiply: "sint (dsp_get_multiply_prod a b md d) = product_of a b md d"
proof -
  define p :: s64 where "p =
    (if md = 1 \<and> g_sr d AND SR_MUL_UNSIGNED \<noteq> 0 then ucast (ucast a * ucast b :: u32)
     else if md = 2 \<and> g_sr d AND SR_MUL_UNSIGNED \<noteq> 0 then scast (ucast a * scast b :: s32)
     else scast (scast a * scast b :: s32))"
  define k where "k = (if md = 1 \<and> bit (g_sr d) 15 then uint a * uint b
     else if md = 2 \<and> bit (g_sr d) 15 then uint a * sint b else sint a * sint b)"
  have p: "sint p = k"
    unfolding p_def k_def sr_bit_tests if_distrib [of sint] product_signed product_mixed product_unsigned
    by simp
  have "\<bar>uint a * uint b\<bar> \<le> 65535 * 65535" "\<bar>uint a * sint b\<bar> \<le> 65535 * 32768"
    "\<bar>sint a * sint b\<bar> \<le> 32768 * 32768" by (rule abs_mult_le; rule abs_u16)+
  then have "\<bar>sint p\<bar> \<le> 2 ^ 34" unfolding p k_def by auto
  then have "sint (push_bit 1 p) = 2 * k" using sint_double p by metis
  moreover have "dsp_get_multiply_prod a b md d = (if g_sr d AND SR_MUL_MODIFY = 0 then push_bit 1 p else p)"
    by (simp only: dsp_get_multiply_prod_def p_def Let_def)
  moreover have "product_of a b md d = (if bit (g_sr d) 13 then k else 2 * k)"
    by (simp only: product_of_def k_def Let_def)
  ultimately show ?thesis using p by (simp only: sr_bit_tests) simp
qed

subsection \<open>The product register\<close>

lemma prod_members:
  "u_l (v AND 0xFFFFFFFFFF) = ucast v" "u_m (v AND 0xFFFFFFFFFF) = ucast (drop_bit 16 v)"
  "(ucast (u_h (v AND 0xFFFFFFFFFF)) :: u8) = ucast (drop_bit 32 v)" "u_m2 (v AND 0xFFFFFFFFFF) = 0"
  unfolding and_eq_take_bit field_defs
  by (rule bit_word_eqI; auto simp: bit_simps)+

lemma bit_sext40: "bit (sext40 v) n \<longleftrightarrow> n < 64 \<and> bit v (min n 39)"
  unfolding sext40_word_of_int by (auto simp: bit_simps min_def)

lemma get_set_long_prod: "dsp_get_long_prod (dsp_set_long_prod v d) = sext40 v"
proof -
  let ?h = "push_bit 32 (scast (ucast (drop_bit 32 v) :: u8)) :: s64"
  let ?l = "push_bit 16 (ucast (ucast (drop_bit 16 v) :: u16)) OR ucast (ucast v :: u16) :: s64"
  have "dsp_get_long_prod (dsp_set_long_prod v d) = ?h + ?l"
    by (simp add: dsp_get_long_prod_def dsp_set_long_prod_def prod_members Let_def)
  also have "\<dots> = ?h OR ?l"
    by (rule disjunctive_add_eq_or) (rule bit_word_eqI, auto simp: bit_simps)
  also have "\<dots> = sext40 v"
  proof (rule bit_word_eqI)
    fix n assume "n < LENGTH(64)"
    then show "bit (?h OR ?l) n = bit (sext40 v) n"
      by (cases "n < 16"; cases "n < 32"; cases "n < 40"; cases "n = 39") (auto simp: bit_simps bit_sext40 min_def)
  qed
  finally show ?thesis .
qed

lemma long_prod_range: "s40 (sint (dsp_get_long_prod (dsp_set_long_prod v d)))"
  by (simp add: get_set_long_prod)

lemma s40_product: "s40 (product_of a b md d)"
  using product_of_bound [of a b md d] by (simp add: s40_def abs_le_iff)

lemma multiply_exact_aux: "sint (dsp_multiply a b md d) = product_of a b md d"
  unfolding dsp_multiply_def by (rule sint_multiply)

lemma clrp_zero: "dsp_get_long_prod (clrp_op opc d) = 0"
  by (simp add: clrp_op_def dsp_get_long_prod_def Let_def mask_eq_exp_minus_1)

text \<open>
  Products are exact: the multiplier returns the mathematical product of its two
  16-bit operands, both signed, both unsigned or the first unsigned and the second
  signed as the instruction and the status register say, doubled unless the status
  register turns the doubling off.
\<close>

theorem multiply_exact: "sint (dsp_multiply a b md d) = product_of a b md d"
  by (rule multiply_exact_aux)

text \<open>
  The product register keeps 40 bits: what is stored in it reads back as the
  40-bit value of what was stored, so a product reads back exactly; and the special
  pattern \<open>CLRP\<close> stores reads as zero.
\<close>

theorem product_register:
  "dsp_get_long_prod (dsp_set_long_prod v d) = sext40 v \<and>
   sint (dsp_get_long_prod (dsp_set_long_prod (dsp_multiply a b md d) d)) = product_of a b md d \<and>
   dsp_get_long_prod (clrp_op opc d) = 0"
  by (simp add: get_set_long_prod clrp_zero sint_sext40 multiply_exact_aux s40_product)


subsection \<open>Instructions that use the multiplier\<close>

text \<open>
  The contract of a multiply-and-move instruction: the accumulator selected by bit
  8 takes a value computed from the old state, the product register takes the new
  product, and the flags are those of the accumulator.
\<close>

locale mult_move =
  fixes op :: "UDSPInstruction \<Rightarrow> SDSP \<Rightarrow> SDSP"
    and new_prod :: "UDSPInstruction \<Rightarrow> SDSP \<Rightarrow> s64"
    and acc :: "UDSPInstruction \<Rightarrow> SDSP \<Rightarrow> s64"
  assumes shape: "op opc d = put_prod_acc (new_prod opc d) (opc_bit 8 opc) (acc opc d) d"
begin

lemma new_acc: "dsp_get_long_acc (opc_bit 8 opc) (op opc d) = sext40 (acc opc d)"
  unfolding shape
  by (simp add: put_prod_acc_def Let_def dsp_set_long_acc_def dsp_set_long_prod_def dsp_get_long_acc_def)

lemma new_product: "dsp_get_long_prod (op opc d) = sext40 (new_prod opc d)"
  using get_set_long_prod [of "new_prod opc d" d] unfolding shape
  by (simp add: put_prod_acc_def Let_def dsp_set_long_acc_def dsp_set_long_prod_def dsp_get_long_prod_def)

lemma acc_flags: "acc_result d (op opc d) (opc_bit 8 opc) (wrap40 (sint (acc opc d)))"
proof -
  let ?d1 = "dsp_set_long_prod (new_prod opc d) d" and ?r = "opc_bit 8 opc"
  have "acc_result ?d1 (op opc d) ?r (wrap40 (sint (acc opc d)))"
    unfolding shape put_prod_acc_def Let_def get_set_long_acc
    by (rule acc_result_update) (simp_all add: sint_sext40)
  then show ?thesis by (simp add: acc_result_def dsp_set_long_prod_def)
qed

end

lemmas mult_move_defs = mulac_op_def mulxac_op_def mulcac_op_def mulmv_op_def mulxmv_op_def
  mulcmv_op_def mulmvz_op_def mulxmvz_op_def mulcmvz_op_def

interpretation mulac: mult_move mulac_op ax_product "\<lambda>opc d. dsp_get_long_acc (opc_bit 8 opc) d + dsp_get_long_prod d"
  by unfold_locales (simp add: mult_move_defs Let_def)
interpretation mulxac: mult_move mulxac_op mulx_product "\<lambda>opc d. dsp_get_long_acc (opc_bit 8 opc) d + dsp_get_long_prod d"
  by unfold_locales (simp add: mult_move_defs Let_def)
interpretation mulcac: mult_move mulcac_op mulc_product "\<lambda>opc d. dsp_get_long_acc (opc_bit 8 opc) d + dsp_get_long_prod d"
  by unfold_locales (simp add: mult_move_defs Let_def)
interpretation mulmv: mult_move mulmv_op ax_product "\<lambda>opc d. dsp_get_long_prod d"
  by unfold_locales (simp add: mult_move_defs)
interpretation mulxmv: mult_move mulxmv_op mulx_product "\<lambda>opc d. dsp_get_long_prod d"
  by unfold_locales (simp add: mult_move_defs)
interpretation mulcmv: mult_move mulcmv_op mulc_product "\<lambda>opc d. dsp_get_long_prod d"
  by unfold_locales (simp add: mult_move_defs)
interpretation mulmvz: mult_move mulmvz_op ax_product "\<lambda>opc d. dsp_get_long_prod_round_prodl d"
  by unfold_locales (simp add: mult_move_defs)
interpretation mulxmvz: mult_move mulxmvz_op mulx_product "\<lambda>opc d. dsp_get_long_prod_round_prodl d"
  by unfold_locales (simp add: mult_move_defs)
interpretation mulcmvz: mult_move mulcmvz_op mulc_product "\<lambda>opc d. dsp_get_long_prod_round_prodl d"
  by unfold_locales (simp add: mult_move_defs)

lemma s40_products [range40]:
  "s40 (sint (ax_product opc d))" "s40 (sint (mulx_product opc d))" "s40 (sint (mulc_product opc d))"
  by (simp_all add: ax_product_def mulx_product_def mulc_product_def dsp_multiply_mulx_def Let_def
      multiply_exact_aux s40_product)

text \<open>
  The pipelined multiply-accumulate: \<open>MULAC\<close>, \<open>MULXAC\<close> and \<open>MULCAC\<close> add the
  product of the previous multiplication to the accumulator modulo \<open>2^40\<close>, with the
  flags of the sum, and leave exactly their own product in the product register.
\<close>

theorem multiply_accumulate_pipeline:
  fixes opc :: UDSPInstruction
  defines "r \<equiv> opc_bit 8 opc"
  shows "(let s = wrap40 (sint (dsp_get_long_acc r d) + sint (dsp_get_long_prod d)) in
    acc_result d (mulac_op opc d) r s \<and> dsp_get_long_prod (mulac_op opc d) = ax_product opc d \<and>
    acc_result d (mulxac_op opc d) r s \<and> dsp_get_long_prod (mulxac_op opc d) = mulx_product opc d \<and>
    acc_result d (mulcac_op opc d) r s \<and> dsp_get_long_prod (mulcac_op opc d) = mulc_product opc d)"
  using mulac.acc_flags [of d opc] mulxac.acc_flags [of d opc] mulcac.acc_flags [of d opc]
    mulac.new_product [of opc d] mulxac.new_product [of opc d] mulcac.new_product [of opc d]
  by (simp add: r_def Let_def wrap40_sint_add sext40_id range40)

text \<open>
  A dot product: \<open>MADD\<close>, \<open>MADDX\<close> and \<open>MADDC\<close> add the exact product of their
  operands to the product register modulo \<open>2^40\<close>, and \<open>MSUB\<close>, \<open>MSUBX\<close>, \<open>MSUBC\<close> subtract
  it.
\<close>

theorem multiply_add_family:
  fixes opc :: UDSPInstruction
  defines "s \<equiv> opc_bit 9 opc" and "t \<equiv> opc_bit 8 opc"
  shows "let P = sint (dsp_get_long_prod d);
      m = product_of (ax_l (g_ax t d)) (ax_h (g_ax t d)) 0 d;
      x = product_of (ax_select s 0 d) (ax_select t 1 d) 0 d;
      c = product_of (u_m (g_ac s d)) (ax_h (g_ax t d)) 0 d
    in sint (dsp_get_long_prod (madd_op opc d)) = wrap40 (P + m) \<and>
       sint (dsp_get_long_prod (msub_op opc d)) = wrap40 (P - m) \<and>
       sint (dsp_get_long_prod (maddx_op opc d)) = wrap40 (P + x) \<and>
       sint (dsp_get_long_prod (msubx_op opc d)) = wrap40 (P - x) \<and>
       sint (dsp_get_long_prod (maddc_op opc d)) = wrap40 (P + c) \<and>
       sint (dsp_get_long_prod (msubc_op opc d)) = wrap40 (P - c)"
  unfolding madd_op_def msub_op_def maddx_op_def msubx_op_def maddc_op_def msubc_op_def
    dsp_multiply_add_def dsp_multiply_sub_def Let_def get_set_long_prod s_def t_def
  by (simp add: sint_sext40_add sint_sext40_diff sint_multiply dsp_get_ax_l_def dsp_get_ax_h_def
      dsp_get_acc_m_def)

text \<open>
  Adding the product register to an accumulator and subtracting it are 40-bit
  operations with the right flags, provided the product register holds a 40-bit
  value, as it does after every multiplication.
\<close>

theorem addp_subp:
  assumes "s40 (sint (dsp_get_long_prod d))"
  shows "adds40 d (addp_op opc d) (opc_bit 8 opc) (sint (dsp_get_long_prod d)) \<and>
    subs40 d (subp_op opc d) (opc_bit 8 opc) (sint (dsp_get_long_prod d))"
  unfolding addp_op_def subp_op_def
  using add_to_acc_adds [OF assms] sub_from_acc_subs [OF assms] by blast

theorem addp_subp_witness:
  "adds40 (clrp_op 0 dsp_zero) (addp_op 0x4e00 (clrp_op 0 dsp_zero)) (opc_bit 8 0x4e00) 0"
  using addp_subp [of "clrp_op 0 dsp_zero" "0x4e00"]
  by (simp add: clrp_zero s40_def)

end
