(* ===== verification/DSP_AddrRing.thy ===== *)
theory DSP_AddrRing
  imports DSP_IntUtil
begin

text \<open>
  The address registers as pointers into circular buffers. The register \<open>wr[i]\<close>
  holds the length of the buffer minus one; the buffer ends just below a multiple of
  the next power of two. The four routines of \<^verbatim>\<open>DSPIntUtil.h\<close> that advance an
  address register find the ends of the buffer from the carries of a 32-bit
  addition; the theory shows that they add modulo the length of the buffer.
\<close>

unbundle bit_operations_syntax

subsection \<open>Carries and borrows\<close>

lemma bit_of_word: "bit (uint w) k \<longleftrightarrow> bit w k" "bit (unat w) k \<longleftrightarrow> bit w k" for w :: "'a::len word"
  by (simp_all add: bit_unsigned_iff)

lemma bit_add_carry:
  fixes a b :: int
  shows "bit (a + b) k \<longleftrightarrow> ((bit a k \<noteq> bit b k) \<noteq> (2 ^ k \<le> a mod 2 ^ k + b mod 2 ^ k))"
proof -
  let ?m = "2 ^ k :: int"
  have r: "0 \<le> a mod ?m" "a mod ?m < ?m" "0 \<le> b mod ?m" "b mod ?m < ?m" by simp_all
  have "(a mod ?m + b mod ?m) div ?m = of_bool (?m \<le> a mod ?m + b mod ?m)"
  proof (cases "?m \<le> a mod ?m + b mod ?m")
    case True
    then have "(a mod ?m + b mod ?m - ?m) div ?m = 0" using r by (intro div_pos_pos_trivial) linarith+
    then show ?thesis using True div_add_self2 [of ?m "a mod ?m + b mod ?m - ?m"] by simp
  qed (use r in \<open>simp add: div_pos_pos_trivial\<close>)
  then show ?thesis by (auto simp: bit_iff_odd div_add1_eq [of a b])
qed

lemma bit_diff_borrow:
  fixes a b :: int
  shows "bit (a - b) k \<longleftrightarrow> ((bit a k \<noteq> bit b k) \<noteq> (a mod 2 ^ k < b mod 2 ^ k))"
proof -
  let ?m = "2 ^ k :: int"
  have r: "0 \<le> a mod ?m" "a mod ?m < ?m" "0 \<le> b mod ?m" "b mod ?m < ?m" by simp_all
  have "a - b = (a mod ?m - b mod ?m) + (a div ?m - b div ?m) * ?m"
    by (simp add: algebra_simps flip: minus_mod_eq_mult_div)
  then have "(a - b) div ?m = (a div ?m - b div ?m) + (a mod ?m - b mod ?m) div ?m"
    by (metis div_mult_self1 power_not_zero zero_neq_numeral)
  moreover have "(a mod ?m - b mod ?m) div ?m = - of_bool (a mod ?m < b mod ?m)"
  proof (cases "a mod ?m < b mod ?m")
    case True
    then have "(a mod ?m - b mod ?m + ?m) div ?m = 0" using r by (intro div_pos_pos_trivial) linarith+
    then show ?thesis using True div_add_self2 [of ?m "a mod ?m - b mod ?m"] by simp
  next
    case False
    then show ?thesis using r by (simp, intro div_pos_pos_trivial) linarith+
  qed
  ultimately show ?thesis by (auto simp: bit_iff_odd)
qed

lemma word_add_carry:
  fixes a b :: u32
  assumes "k < 32"
  shows "bit ((a + b) XOR a XOR b) k \<longleftrightarrow> 2 ^ k \<le> uint a mod 2 ^ k + uint b mod 2 ^ k"
proof -
  have "uint (a + b) = take_bit 32 (uint a + uint b)"
    by (simp add: uint_word_ariths take_bit_eq_mod)
  then have "bit (a + b) k \<longleftrightarrow> bit (uint a + uint b) k"
    using assms by (metis bit_take_bit_iff bit_of_word(1))
  then show ?thesis using bit_add_carry [of "uint a" "uint b" k] assms
    by (auto simp: bit_xor_iff bit_of_word)
qed

lemma word_diff_borrow:
  fixes a b :: u32
  assumes "k < 32"
  shows "bit ((a - b) XOR a XOR NOT b) k \<longleftrightarrow> uint b mod 2 ^ k \<le> uint a mod 2 ^ k"
proof -
  have "uint (a - b) = take_bit 32 (uint a - uint b)"
    by (simp add: uint_word_ariths take_bit_eq_mod)
  then have "bit (a - b) k \<longleftrightarrow> bit (uint a - uint b) k"
    using assms by (metis bit_take_bit_iff bit_of_word(1))
  then show ?thesis using bit_diff_borrow [of "uint a" "uint b" k] assms
    by (auto simp: bit_xor_iff bit_not_iff bit_of_word)
qed

subsection \<open>The mask of a buffer\<close>

lemma unat_and_le: "unat (a AND b) \<le> unat b" for a b :: "'a::len word"
proof -
  have "uint (a AND b) \<le> uint b" by (simp add: unsigned_and_eq AND_upper2)
  then show ?thesis by (simp only: word_le_def [symmetric] word_le_nat_alt)
qed

text \<open>The buffer with last index \<open>w\<close> lies in a block of \<open>2 ^ k\<close> addresses.\<close>

definition ring_bits :: "nat \<Rightarrow> nat \<Rightarrow> bool" where
  "ring_bits k w \<longleftrightarrow> 1 \<le> k \<and> w < 2 ^ k \<and> (k = 1 \<or> 2 ^ (k - 1) \<le> w)"

lemma ring_mask_top:
  fixes w :: u32
  assumes "ring_bits k (unat w)" and "k \<le> 16"
  shows "bit (push_bit 1 (w OR 1)) k"
proof (cases "k = 1")
  case True
  then show ?thesis by (simp only: bit_push_bit_iff) (simp add: bit_simps)
next
  case False
  then have "2 ^ (k - 1) \<le> unat w" "unat w < 2 * 2 ^ (k - 1)"
    using assms(1) by (simp_all add: ring_bits_def flip: power_Suc)
  then have "unat w div 2 ^ (k - 1) = 1" by (simp add: div_nat_eqI)
  then have "bit w (k - 1)" using bit_of_word(2) [of w "k - 1"] by (simp add: bit_iff_odd)
  then show ?thesis using assms by (simp only: bit_push_bit_iff) (simp add: bit_or_iff ring_bits_def)
qed

lemma bit_imp_exp_le: "bit w k \<Longrightarrow> 2 ^ k \<le> unat w" for w :: "'a::len word"
  using bit_of_word(2) [of w k] by (metis bit_iff_odd div_less even_zero not_le)

lemma ring_mask_gt:
  fixes x w :: u32
  assumes "ring_bits k (unat w)" and "k \<le> 16"
  shows "x AND push_bit 1 (w OR 1) > w \<longleftrightarrow> bit x k"
proof -
  let ?mx = "push_bit 1 (w OR 1)"
  let ?y = "x AND ?mx"
  have k: "1 \<le> k" "unat w < 2 ^ k" using assms by (simp_all add: ring_bits_def)
  note top = ring_mask_top [OF assms]
  show ?thesis
  proof (cases "bit x k")
    case True
    with top have "2 ^ k \<le> unat ?y" by (intro bit_imp_exp_le) (simp add: bit_and_iff)
    with k True show ?thesis by (simp add: word_less_nat_alt)
  next
    case False
    have sum: "?y + 2 ^ k = (x OR 2 ^ k) AND ?mx"
    proof -
      have "?y AND 2 ^ k = 0" using False by (simp add: and_exp_eq_0_iff bit_and_iff)
      then have "?y + 2 ^ k = ?y OR 2 ^ k" by (simp add: disjunctive_add_eq_or)
      also have "\<dots> = (x OR 2 ^ k) AND ?mx"
        using top by (intro bit_word_eqI) (auto simp: bit_simps)
      finally show ?thesis .
    qed
    have pow: "(2::nat) ^ k \<le> 2 ^ 16" using assms(2) by (intro power_increasing) simp_all
    have or1: "unat (w OR 1) = unat w + of_bool (even (unat w))"
      by (subst unsigned_or_eq) (simp only: unsigned_1 or_one_eq)
    have mx: "unat ?mx = 2 * unat (w OR 1)"
      using k pow or1 by (simp add: push_bit_eq_mult unat_word_ariths)
    have y: "unat ?y \<le> unat ?mx" by (rule unat_and_le)
    have "unat (of_nat (2 ^ k) :: u32) = 2 ^ k" using pow by (simp only: unat_of_nat) simp
    then have two: "unat ((2::u32) ^ k) = 2 ^ k" by (simp only: of_nat_power of_nat_numeral)
    have "unat ?y + 2 ^ k < 2 ^ 32" using y mx or1 k pow by (cases "even (unat w)") simp_all
    then have "unat ?y + 2 ^ k = unat (?y + 2 ^ k)" by (subst unat_word_ariths(1)) (simp add: two)
    also have "\<dots> \<le> unat ?mx" unfolding sum by (rule unat_and_le)
    finally have "unat ?y + 2 ^ k \<le> 2 * unat w + 2 * of_bool (even (unat w))"
      using mx or1 by simp
    moreover have "even ((2::nat) ^ k)" using k by simp
    then have "even (unat w) \<Longrightarrow> unat w + 2 \<le> 2 ^ k" using k(2) by presburger
    ultimately have "unat ?y \<le> unat w" using k(2) by (cases "even (unat w)") simp_all
    with False show ?thesis by (simp add: word_less_nat_alt)
  qed
qed

subsection \<open>Moving within the buffer\<close>

text \<open>
  \<open>in_ring k w blk pos a\<close>: the address \<open>a\<close> is element \<open>pos\<close> of the buffer with last index
  \<open>w\<close> in block \<open>blk\<close> of size \<open>2 ^ k\<close>.
\<close>

definition ring_base :: "nat \<Rightarrow> nat \<Rightarrow> nat \<Rightarrow> nat" where
  "ring_base k w blk = blk * 2 ^ k + (2 ^ k - 1 - w)"

lemma int_less_power: "w < 2 ^ k \<Longrightarrow> int w < 2 ^ k"
  by (metis of_nat_less_iff of_nat_numeral of_nat_power)

lemma ring_base_mod:
  assumes "w < 2 ^ k" and "pos \<le> w"
  shows "int (ring_base k w blk + pos) mod 2 ^ k = 2 ^ k - 1 - int w + int pos"
proof -
  have "int (ring_base k w blk + pos) = 2 ^ k - 1 - int w + int pos + int blk * 2 ^ k"
    using assms by (simp add: ring_base_def of_nat_diff)
  moreover have "0 \<le> 2 ^ k - 1 - int w + int pos" "2 ^ k - 1 - int w + int pos < 2 ^ k"
    using assms int_less_power [OF assms(1)] by linarith+
  ultimately show ?thesis by (simp only: mod_mult_self1 mod_pos_pos_trivial)
qed

lemma ring_step:
  assumes "w < 2 ^ k" and "pos \<le> w" and "ring_base k w blk + w < 2 ^ 16" and "\<bar>t\<bar> \<le> int w"
    and "z = int (ring_base k w blk + pos) + t +
      (if int pos + t > int w then - (int w + 1) else if int pos + t < 0 then int w + 1 else 0)"
  shows "uint (word_of_int z :: u16) = int (ring_base k w blk) + (int pos + t) mod (int w + 1)"
proof -
  have m: "(int pos + t) mod (int w + 1) = int pos + t +
      (if int pos + t > int w then - (int w + 1) else if int pos + t < 0 then int w + 1 else 0)"
  proof -
    consider "int pos + t > int w" | "int pos + t < 0" | "0 \<le> int pos + t" "int pos + t \<le> int w" by linarith
    then show ?thesis
    proof cases
      case 1
      have "(int pos + t) mod (int w + 1) = (int pos + t - (int w + 1)) mod (int w + 1)" by simp
      also have "\<dots> = int pos + t - (int w + 1)"
        using 1 assms(2,4) by (intro mod_pos_pos_trivial) linarith+
      finally show ?thesis using 1 by simp
    next
      case 2
      have "(int pos + t) mod (int w + 1) = (int pos + t + (int w + 1)) mod (int w + 1)" by simp
      also have "\<dots> = int pos + t + (int w + 1)"
        using 2 assms(2,4) by (intro mod_pos_pos_trivial) linarith+
      finally show ?thesis using 2 assms(2) by simp
    next
      case 3
      then show ?thesis by (simp add: mod_pos_pos_trivial)
    qed
  qed
  have z: "z = int (ring_base k w blk) + (int pos + t) mod (int w + 1)"
    using assms(5) m by simp
  have "(int pos + t) mod (int w + 1) \<le> int w" "0 \<le> (int pos + t) mod (int w + 1)"
    using pos_mod_bound [of "int w + 1" "int pos + t"] by simp_all
  moreover have "int (ring_base k w blk) + int w < 65536" using assms(3) by simp
  ultimately have "0 \<le> z" "z < 65536" unfolding z by linarith+
  then have "uint (word_of_int z :: u16) = z" by (simp add: uint_word_of_int mod_pos_pos_trivial)
  then show ?thesis unfolding z .
qed

lemma ring_bits_le:
  assumes "ring_bits k w" and "w < 2 ^ 16"
  shows "k \<le> 16"
proof (rule ccontr)
  assume "\<not> k \<le> 16"
  then have "(2::nat) ^ 16 \<le> 2 ^ (k - 1)" by (intro power_increasing) simp_all
  with assms \<open>\<not> k \<le> 16\<close> show False by (auto simp: ring_bits_def)
qed

lemma ring_top_bound:
  assumes "k \<le> 16" and "w < 2 ^ k" and "ring_base k w blk + pos < 2 ^ 16"
  shows "ring_base k w blk + w < 2 ^ 16"
proof -
  have p: "(2::nat) ^ 16 = 2 ^ (16 - k) * 2 ^ k" using assms(1) by (simp flip: power_add)
  have "blk * 2 ^ k < 2 ^ (16 - k) * 2 ^ k" using assms(3) p by (simp add: ring_base_def)
  then have "Suc blk \<le> 2 ^ (16 - k)" by simp
  then have "Suc blk * 2 ^ k \<le> 2 ^ 16" unfolding p by (rule mult_le_mono1)
  moreover have "ring_base k w blk + w + 1 = Suc blk * 2 ^ k"
    using assms(2) by (simp add: ring_base_def)
  ultimately show ?thesis by linarith
qed

lemma ucast_of_int: "ucast (word_of_int z :: u32) = (word_of_int z :: u16)"
  by (rule bit_word_eqI) (auto simp: bit_simps)

text \<open>The test of the two routines for movement to lower addresses.\<close>

lemma ring_below:
  fixes nar w c :: u32
  assumes "ring_bits k (unat w)" and "k \<le> 16" and "pos \<le> unat w" and "- uint w \<le> t" and "t \<le> 0"
    and "nar = word_of_int (int (ring_base k (unat w) blk + pos) + t)"
    and "bit c k \<longleftrightarrow> 0 \<le> 2 ^ k - 1 - uint w + int pos + t"
  shows "((nar + w + 1) XOR nar) AND (c AND push_bit 1 (w OR 1)) \<le> w \<longleftrightarrow> int pos + t < 0"
proof -
  let ?m = "2 ^ k - 1 - uint w + int pos"
  have k: "unat w < 2 ^ k" using assms(1) by (simp add: ring_bits_def)
  have wi: "int (unat w) = uint w" by simp
  have wk: "uint w < 2 ^ k" using int_less_power [OF k] by simp
  have pw: "int pos \<le> uint w" using assms(3) wi by linarith
  have v: "uint (w + 1) = uint w + 1"
  proof -
    have "(2::int) ^ k \<le> 2 ^ 16" using assms(2) by (intro power_increasing) simp_all
    then show ?thesis using wk by (simp add: uint_word_ariths)
  qed
  have le: "((nar + w + 1) XOR nar) AND (c AND push_bit 1 (w OR 1)) \<le> w \<longleftrightarrow>
      \<not> bit (((nar + (w + 1)) XOR nar) AND c) k"
    using ring_mask_gt [OF assms(1,2), of "((nar + (w + 1)) XOR nar) AND c"]
    by (simp add: not_less [symmetric] ac_simps)
  show ?thesis
  proof (cases "0 \<le> ?m + t")
    case False
    then show ?thesis using le assms(7) wk by (simp add: bit_and_iff)
  next
    case True
    have "uint nar mod 2 ^ k = (int (ring_base k (unat w) blk + pos) + t) mod 2 ^ k"
      unfolding assms(6) uint_word_of_int using assms(2)
      by (intro mod_mod_cancel le_imp_power_dvd) simp
    also have "\<dots> = (int (ring_base k (unat w) blk + pos) mod 2 ^ k + t) mod 2 ^ k"
      by (simp add: mod_add_left_eq)
    also have "\<dots> = ?m + t"
      unfolding ring_base_mod [OF k assms(3)] wi
      using True assms(5) pw by (intro mod_pos_pos_trivial) linarith+
    finally have nar: "uint nar mod 2 ^ k = ?m + t" .
    have "bit ((nar + (w + 1)) XOR nar) k \<longleftrightarrow> 0 \<le> int pos + t"
    proof (cases "uint w + 1 = 2 ^ k")
      case True
      have "bit (w + 1) k" using v True by (metis bit_exp_iff bit_of_word(1) possible_bit_int)
      then show ?thesis
        using word_add_carry [of k nar "w + 1"] assms(2) nar v True \<open>0 \<le> ?m + t\<close> assms(5) pw
        by (auto simp: bit_xor_iff)
    next
      case False
      then have "uint w + 1 < 2 ^ k" using wk by linarith
      then have "uint (w + 1) mod 2 ^ k = uint w + 1" "uint (w + 1) div 2 ^ k = 0"
        by (simp_all add: v mod_pos_pos_trivial div_pos_pos_trivial)
      then have "\<not> bit (w + 1) k" using bit_of_word(1) [of "w + 1" k] by (simp add: bit_iff_odd)
      then show ?thesis
        using word_add_carry [of k nar "w + 1"] assms(2) nar \<open>uint (w + 1) mod 2 ^ k = uint w + 1\<close>
        by (auto simp: bit_xor_iff)
    qed
    then show ?thesis using le assms(7) True by (auto simp: bit_and_iff)
  qed
qed

subsection \<open>The four routines\<close>

text \<open>The address register \<open>r\<close> points at element \<open>pos\<close> of its buffer.\<close>

definition at_ring :: "nat \<Rightarrow> nat \<Rightarrow> nat \<Rightarrow> 2 word \<Rightarrow> SDSP \<Rightarrow> bool" where
  "at_ring k blk pos r d \<longleftrightarrow> ring_bits k (unat (g_wr r d)) \<and> pos \<le> unat (g_wr r d) \<and>
     unat (g_ar r d) = ring_base k (unat (g_wr r d)) blk + pos"

lemma uint_widen: "uint (ucast v :: u32) = uint v" "unat (ucast v :: u32) = unat v" for v :: u16
proof -
  have "uint v < 2 ^ 16" using unsigned_less [of v, where ?'a = int] by simp
  then show "uint (ucast v :: u32) = uint v"
    by (simp add: unsigned_ucast_eq take_bit_int_eq_self)
  then show "unat (ucast v :: u32) = unat v" unfolding unat_eq_nat_uint by (rule arg_cong)
qed

lemma sint_widen: "sint (scast v :: u32) = sint v" for v :: s16
proof -
  have "- (2 ^ 15) \<le> sint v" "sint v < 2 ^ 15" using sint_ge [of v] sint_lt [of v] by simp_all
  moreover have "sint (word_of_int (sint v) :: u32) = signed_take_bit 31 (sint v)"
    by (subst sint_sbintrunc') simp
  ultimately show ?thesis unfolding scast_eq by (simp only:) (simp add: signed_take_bit_int_eq_self)
qed

lemma uint_sint_nonneg: "0 \<le> sint x \<Longrightarrow> uint x = sint x" for x :: u32
proof -
  assume "0 \<le> sint x"
  moreover have "sint x < 2 ^ 31" using sint_lt [of x] by simp
  ultimately show ?thesis by (simp add: uint_sint take_bit_int_eq_self)
qed

lemma uint_sint_neg_mod:
  fixes x :: u32
  assumes "sint x = t" and "- (2 ^ k) \<le> t" and "t < 0" and "k \<le> 16"
  shows "uint x mod 2 ^ k = 2 ^ k + t"
proof -
  have "uint x mod 2 ^ k = t mod 2 ^ k"
    unfolding uint_sint assms(1) take_bit_eq_mod using assms(4)
    by (intro mod_mod_cancel le_imp_power_dvd) simp
  also have "\<dots> = t + 2 ^ k" using assms(2,3) by (rule mod_wrap_negative)
  finally show ?thesis by simp
qed

lemma at_ring_facts:
  assumes "at_ring k blk pos r d"
  shows "ring_bits k (unat (ucast (g_wr r d) :: u32))" and "k \<le> 16" and "pos \<le> unat (ucast (g_wr r d) :: u32)"
    and "uint (ucast (g_ar r d) :: u32) = int (ring_base k (unat (g_wr r d)) blk + pos)"
    and "unat (g_wr r d) < 2 ^ k" and "pos \<le> unat (g_wr r d)"
    and "ring_base k (unat (g_wr r d)) blk + unat (g_wr r d) < 2 ^ 16"
    and "uint (ucast (g_ar r d) :: u32) mod 2 ^ k = 2 ^ k - 1 - uint (g_wr r d) + int pos"
    and "(ucast (g_ar r d) :: u32) = word_of_int (int (ring_base k (unat (g_wr r d)) blk + pos))"
    and "(ucast (g_wr r d) :: u32) = word_of_int (uint (g_wr r d))"
proof -
  have small: "unat (g_wr r d) < 2 ^ 16" "unat (g_ar r d) < 2 ^ 16"
    using unsigned_less [of "g_wr r d", where ?'a = nat] unsigned_less [of "g_ar r d", where ?'a = nat] by simp_all
  from assms have a: "ring_bits k (unat (g_wr r d))" "pos \<le> unat (g_wr r d)"
    "unat (g_ar r d) = ring_base k (unat (g_wr r d)) blk + pos" by (simp_all add: at_ring_def)
  show k: "k \<le> 16" using a(1) small(1) by (rule ring_bits_le)
  show wk: "unat (g_wr r d) < 2 ^ k" using a(1) by (simp add: ring_bits_def)
  show "ring_bits k (unat (ucast (g_wr r d) :: u32))" "pos \<le> unat (ucast (g_wr r d) :: u32)"
    "pos \<le> unat (g_wr r d)" using a by (simp_all only: uint_widen)
  show A: "uint (ucast (g_ar r d) :: u32) = int (ring_base k (unat (g_wr r d)) blk + pos)"
    unfolding uint_widen using a(3) by (metis uint_nat)
  show "ring_base k (unat (g_wr r d)) blk + unat (g_wr r d) < 2 ^ 16"
    using k wk small(2) unfolding a(3) by (rule ring_top_bound)
  show "uint (ucast (g_ar r d) :: u32) mod 2 ^ k = 2 ^ k - 1 - uint (g_wr r d) + int pos"
    unfolding A ring_base_mod [OF wk a(2)] by simp
  show "(ucast (g_ar r d) :: u32) = word_of_int (int (ring_base k (unat (g_wr r d)) blk + pos))"
    by (metis A word_of_int_uint)
  show "(ucast (g_wr r d) :: u32) = word_of_int (uint (g_wr r d))"
    by (metis uint_widen(1) word_of_int_uint)
qed

lemma ring_result:
  fixes x :: u32
  assumes "at_ring k blk pos r d" and "\<bar>t\<bar> \<le> uint (g_wr r d)"
    and "x = word_of_int (int (ring_base k (unat (g_wr r d)) blk + pos) + t +
      (if int pos + t > uint (g_wr r d) then - (uint (g_wr r d) + 1)
       else if int pos + t < 0 then uint (g_wr r d) + 1 else 0))"
  shows "uint (ucast x :: u16) = int (ring_base k (unat (g_wr r d)) blk) + (int pos + t) mod (uint (g_wr r d) + 1)"
proof -
  have u: "uint (g_wr r d) = int (unat (g_wr r d))" by simp
  show ?thesis
    unfolding assms(3) ucast_of_int u
    by (rule ring_step [OF at_ring_facts(5,6,7) [OF assms(1)] _ refl]) (use assms(2) u in linarith)
qed

lemma increase_ring:
  assumes "at_ring k blk pos r d" and "\<bar>sint ix\<bar> \<le> uint (g_wr r d)"
  shows "uint (dsp_increase_addr_reg r ix d) =
    int (ring_base k (unat (g_wr r d)) blk) + (int pos + sint ix) mod (uint (g_wr r d) + 1)"
proof -
  note f = at_ring_facts [OF assms(1)]
  let ?a = "ucast (g_ar r d) :: u32" and ?w = "ucast (g_wr r d) :: u32" and ?x = "scast ix :: u32"
  let ?t = "sint ix"
  have x: "?x = word_of_int ?t" by (rule scast_eq)
  have nar: "?a + ?x = word_of_int (int (ring_base k (unat (g_wr r d)) blk + pos) + ?t)"
    unfolding x f(9) by (simp del: of_nat_add)
  have w1: "?w + 1 = word_of_int (uint (g_wr r d) + 1)" by (subst f(10)) simp
  have wk: "uint (g_wr r d) < 2 ^ k" using int_less_power [OF f(5)] by simp
  have sx: "sint ?x = ?t" by (rule sint_widen)
  show ?thesis
  proof (cases "0 \<le> ?t")
    case True
    have "uint ?x = ?t" using uint_sint_nonneg [of ?x] True sx by simp
    then have "uint ?x mod 2 ^ k = ?t" using True assms(2) wk by (simp add: mod_pos_pos_trivial)
    then have c: "((?a + ?x) XOR ?a XOR ?x) AND push_bit 1 (?w OR 1) > ?w \<longleftrightarrow> int pos + ?t > uint (g_wr r d)"
      using ring_mask_gt [OF f(1,2)] word_add_carry [of k ?a ?x] f(2,8) by auto
    show ?thesis
      unfolding dsp_increase_addr_reg_def Let_def sx if_P [OF True] c
      by (rule ring_result [OF assms]) (use True w1 nar in \<open>auto simp: algebra_simps simp del: of_nat_add\<close>)
  next
    case False
    then have t: "?t < 0" by simp
    have "uint ?x mod 2 ^ k = 2 ^ k + ?t"
      using t assms(2) wk f(2) sx by (intro uint_sint_neg_mod) auto
    then have c: "bit ((?a + ?x) XOR ?a XOR ?x) k \<longleftrightarrow> 0 \<le> 2 ^ k - 1 - uint ?w + int pos + ?t"
      using word_add_carry [of k ?a ?x] f(2,8) by (simp add: uint_widen)
    have b: "((?a + ?x + ?w + 1) XOR (?a + ?x)) AND (((?a + ?x) XOR ?a XOR ?x) AND push_bit 1 (?w OR 1)) \<le> ?w
        \<longleftrightarrow> int pos + ?t < 0"
      using assms(2) t nar
      by (intro ring_below [OF f(1,2,3) _ _ _ c]) (simp_all add: uint_widen del: of_nat_add)
    have "\<not> uint (g_wr r d) < int pos + ?t" using t f(6) uint_nat [of "g_wr r d"] by linarith
    then show ?thesis
      unfolding dsp_increase_addr_reg_def Let_def sx if_not_P [OF False] b
      by (intro ring_result [OF assms]) (use w1 nar in \<open>auto simp: algebra_simps simp del: of_nat_add\<close>)
  qed
qed

lemma decrease_ring:
  assumes "at_ring k blk pos r d" and "\<bar>sint ix\<bar> \<le> uint (g_wr r d)" and "sint ix \<noteq> - 0x8000"
  shows "uint (dsp_decrease_addr_reg r ix d) =
    int (ring_base k (unat (g_wr r d)) blk) + (int pos - sint ix) mod (uint (g_wr r d) + 1)"
proof -
  note f = at_ring_facts [OF assms(1)]
  let ?a = "ucast (g_ar r d) :: u32" and ?w = "ucast (g_wr r d) :: u32" and ?x = "scast ix :: u32"
  let ?t = "- sint ix" and ?c = "(?a - ?x) XOR ?a XOR NOT ?x"
  have nar: "?a - ?x = word_of_int (int (ring_base k (unat (g_wr r d)) blk + pos) + ?t)"
    unfolding scast_eq [of ix] f(9) by (simp del: of_nat_add)
  have w1: "?w + 1 = word_of_int (uint (g_wr r d) + 1)" by (subst f(10)) simp
  have wk: "uint (g_wr r d) < 2 ^ k" using int_less_power [OF f(5)] by simp
  have pw: "int pos \<le> uint (g_wr r d)" using f(6) uint_nat [of "g_wr r d"] by linarith
  have sx: "sint ?x = sint ix" by (rule sint_widen)
  have t: "\<bar>?t\<bar> \<le> uint (g_wr r d)" using assms(2) by simp
  have neg: "?x > 0xFFFF8000 \<longleftrightarrow> sint ix < 0"
  proof -
    have "- 0x8000 \<le> sint ix" "sint ix < 0x8000" using sint_ge [of ix] sint_lt [of ix] by simp_all
    moreover have "uint ?x = (if sint ix < 0 then sint ix + 2 ^ 32 else sint ix)"
      using uint_sint_nonneg [of ?x] uint_sint [of ?x] mod_wrap_negative [of "2 ^ 32" "sint ix"] calculation
      by (simp add: sx take_bit_eq_mod)
    ultimately show ?thesis using assms(3) by (simp add: word_less_def)
  qed
  show ?thesis
  proof (cases "sint ix < 0")
    case True
    have "uint ?x mod 2 ^ k = 2 ^ k + sint ix"
      using True assms(2) wk f(2) sx by (intro uint_sint_neg_mod) auto
    then have c: "?c AND push_bit 1 (?w OR 1) > ?w \<longleftrightarrow> int pos + ?t > uint (g_wr r d)"
      using ring_mask_gt [OF f(1,2), of ?c] word_diff_borrow [of k ?a ?x] f(2,8) by auto
    have "\<not> int pos + ?t < 0" using True by simp
    then have "uint (dsp_decrease_addr_reg r ix d) =
        int (ring_base k (unat (g_wr r d)) blk) + (int pos + ?t) mod (uint (g_wr r d) + 1)"
      unfolding dsp_decrease_addr_reg_def Let_def if_P [OF True [folded neg]] c
      by (intro ring_result [OF assms(1) t]) (use w1 nar in \<open>auto simp: algebra_simps simp del: of_nat_add\<close>)
    then show ?thesis by simp
  next
    case False
    have "uint ?x = sint ix" using uint_sint_nonneg [of ?x] False sx by simp
    then have "uint ?x mod 2 ^ k = sint ix" using False assms(2) wk by (simp add: mod_pos_pos_trivial)
    then have c: "bit ?c k \<longleftrightarrow> 0 \<le> 2 ^ k - 1 - uint ?w + int pos + ?t"
      using word_diff_borrow [of k ?a ?x] f(2,8) by (simp add: uint_widen)
    have b: "((?a - ?x + ?w + 1) XOR (?a - ?x)) AND (?c AND push_bit 1 (?w OR 1)) \<le> ?w \<longleftrightarrow> int pos + ?t < 0"
      using assms(2) False nar
      by (intro ring_below [OF f(1,2,3) _ _ _ c]) (simp_all add: uint_widen del: of_nat_add)
    have "\<not> uint (g_wr r d) < int pos + ?t" using False pw by simp
    then have "uint (dsp_decrease_addr_reg r ix d) =
        int (ring_base k (unat (g_wr r d)) blk) + (int pos + ?t) mod (uint (g_wr r d) + 1)"
      unfolding dsp_decrease_addr_reg_def Let_def if_not_P [OF False [folded neg]] b
      by (intro ring_result [OF assms(1) t]) (use w1 nar in \<open>auto simp: algebra_simps simp del: of_nat_add\<close>)
    then show ?thesis by simp
  qed
qed

lemma decrement_ring:
  assumes "at_ring k blk pos r d"
  shows "uint (dsp_decrement_addr_reg r d) =
    int (ring_base k (unat (g_wr r d)) blk) + (int pos + uint (g_wr r d)) mod (uint (g_wr r d) + 1)"
proof -
  note f = at_ring_facts [OF assms]
  let ?a = "ucast (g_ar r d) :: u32" and ?w = "ucast (g_wr r d) :: u32"
  have wk: "uint (g_wr r d) < 2 ^ k" using int_less_power [OF f(5)] by simp
  have nar: "?a + ?w = word_of_int (int (ring_base k (unat (g_wr r d)) blk + pos) + uint (g_wr r d))"
    by (subst f(9), subst f(10)) (simp del: of_nat_add)
  have w1: "?w + 1 = word_of_int (uint (g_wr r d) + 1)" by (subst f(10)) simp
  have "uint ?w mod 2 ^ k = uint (g_wr r d)" using wk by (simp add: uint_widen mod_pos_pos_trivial)
  then have "bit ((?a + ?w) XOR ?a XOR ?w) k \<longleftrightarrow> int pos + uint (g_wr r d) > uint (g_wr r d)"
    using word_add_carry [of k ?a ?w] f(2,8) by auto
  moreover have "\<not> bit ?w k"
    using bit_of_word(1) [of ?w k] wk by (simp add: bit_iff_odd uint_widen div_pos_pos_trivial)
  ultimately have c: "((?a + ?w) XOR ?a) AND push_bit 1 (?w OR 1) > ?w \<longleftrightarrow>
      int pos + uint (g_wr r d) > uint (g_wr r d)"
    using ring_mask_gt [OF f(1,2), of "(?a + ?w) XOR ?a"] by (simp add: bit_xor_iff)
  show ?thesis
    unfolding dsp_decrement_addr_reg_def Let_def c
    by (rule ring_result [OF assms]) (use w1 nar in \<open>auto simp: algebra_simps simp del: of_nat_add\<close>)
qed

lemma bit_increment:
  fixes a :: u32
  assumes "i < 32"
  shows "bit ((a + 1) XOR a) i \<longleftrightarrow> uint a mod 2 ^ i + 1 = 2 ^ i"
proof (cases "i = 0")
  case True
  moreover have "bit ((a + 1) XOR a) 0"
    unfolding bit_xor_iff by (simp add: bit_0)
  ultimately show ?thesis by simp
next
  case False
  then have "(2::int) \<le> 2 ^ i" by (simp add: self_le_power)
  then have "1 mod 2 ^ i = (1::int)" by (intro mod_pos_pos_trivial) linarith+
  moreover have "uint a mod 2 ^ i < 2 ^ i" by simp
  then have "2 ^ i \<le> uint a mod 2 ^ i + 1 \<longleftrightarrow> uint a mod 2 ^ i + 1 = 2 ^ i" by linarith
  ultimately show ?thesis using False word_add_carry [OF assms, of a 1] by (auto simp: bit_xor_iff bit_1_iff)
qed

lemma increment_mask:
  fixes a w :: u32
  assumes "ring_bits k (unat w)" and "k \<le> 16"
  shows "(a + 1) XOR a > push_bit 1 (w OR 1) \<longleftrightarrow> bit ((a + 1) XOR a) k"
proof -
  let ?x = "(a + 1) XOR a" and ?mx = "push_bit 1 (w OR 1)"
  have mono: "bit ?x j" if "bit ?x i" "j \<le> i" "i < 32" for i j
  proof -
    have "uint a mod 2 ^ j = (uint a mod 2 ^ i) mod 2 ^ j"
      using that(2) by (intro mod_mod_cancel [symmetric] le_imp_power_dvd)
    also have "uint a mod 2 ^ i = 2 ^ i - 1" using that bit_increment [of i a] by simp
    also have "(2 ^ i - 1) mod 2 ^ j = (2 ^ j - 1 :: int)"
      using that(2) by (metis mask_eq_exp_minus_1 min.absorb1 take_bit_eq_mod take_bit_of_mask)
    finally show ?thesis using that bit_increment [of j a] by simp
  qed
  show ?thesis
  proof (cases "bit ?x k")
    case True
    have mx: "bit ?mx i \<Longrightarrow> i \<le> k" for i
    proof (rule ccontr)
      assume "bit ?mx i" "\<not> i \<le> k"
      then have "bit (w OR 1) (i - 1)" "k \<le> i - 1" by (simp_all only: bit_push_bit_iff)
      moreover have "unat w < 2 ^ k" "1 \<le> k" using assms(1) by (simp_all add: ring_bits_def)
      ultimately have "bit w (i - 1)" by (auto simp: bit_or_iff bit_1_iff)
      then have "2 ^ (i - 1) \<le> unat w" by (rule bit_imp_exp_le)
      moreover have "(2::nat) ^ k \<le> 2 ^ (i - 1)" using \<open>k \<le> i - 1\<close> by (intro power_increasing) simp_all
      ultimately show False using \<open>unat w < 2 ^ k\<close> by linarith
    qed
    have "?x AND ?mx = ?mx"
      using mono [OF True] mx assms(2) by (intro bit_word_eqI) (auto simp: bit_and_iff)
    then have "unat ?mx \<le> unat ?x" using unat_and_le [of ?mx ?x] by (simp add: and.commute)
    moreover have "?x \<noteq> ?mx"
    proof -
      have "bit ?x 0" using bit_increment [of 0 a] by simp
      moreover have "\<not> bit ?mx 0" by (simp only: bit_push_bit_iff) simp
      ultimately show ?thesis by metis
    qed
    ultimately show ?thesis using True by (auto simp: word_less_nat_alt word_unat_eqI le_less)
  next
    case False
    have "i < k" if "bit ?x i" "i < 32" for i
      using False mono [OF that(1), of k] that(2) by linarith
    then have "?x = take_bit k ?x"
      by (intro bit_word_eqI) (simp only: bit_take_bit_iff, auto)
    then have "unat ?x < 2 ^ k" using unat_take_bit [of k ?x] by (metis mod_less_divisor zero_less_numeral zero_less_power)
    moreover have "2 ^ k \<le> unat ?mx" using ring_mask_top [OF assms] by (rule bit_imp_exp_le)
    ultimately show ?thesis using False by (simp add: word_less_nat_alt)
  qed
qed

lemma increment_ring:
  assumes "at_ring k blk pos r d"
  shows "uint (dsp_increment_addr_reg r d) =
    int (ring_base k (unat (g_wr r d)) blk) + (int pos + 1) mod (uint (g_wr r d) + 1)"
proof -
  note f = at_ring_facts [OF assms]
  let ?a = "ucast (g_ar r d) :: u32" and ?w = "ucast (g_wr r d) :: u32"
  have pw: "int pos \<le> uint (g_wr r d)" using f(6) uint_nat [of "g_wr r d"] by linarith
  have nar: "?a + 1 = word_of_int (int (ring_base k (unat (g_wr r d)) blk + pos) + 1)"
    by (subst f(9)) (simp del: of_nat_add)
  have w1: "?w + 1 = word_of_int (uint (g_wr r d) + 1)" by (subst f(10)) simp
  have c: "(?a + 1) XOR ?a > push_bit 1 (?w OR 1) \<longleftrightarrow> int pos + 1 > uint (g_wr r d)"
    using increment_mask [OF f(1,2), of ?a] bit_increment [of k ?a] f(2,8) pw by auto
  show ?thesis
  proof (cases "uint (g_wr r d) = 0")
    case True
    then have "pos = 0" using pw by simp
    have "uint (dsp_increment_addr_reg r d) =
        int (ring_base k (unat (g_wr r d)) blk) + (int pos + 0) mod (uint (g_wr r d) + 1)"
      unfolding dsp_increment_addr_reg_def Let_def c
      by (rule ring_result [OF assms]) (use True \<open>pos = 0\<close> w1 nar in \<open>auto simp del: of_nat_add\<close>)
    then show ?thesis using True by simp
  next
    case False
    then have "\<bar>1\<bar> \<le> uint (g_wr r d)" using uint_ge_0 [of "g_wr r d"] by linarith
    then show ?thesis
      unfolding dsp_increment_addr_reg_def Let_def c
      by (intro ring_result [OF assms]) (use w1 nar in \<open>auto simp: algebra_simps simp del: of_nat_add\<close>)
  qed
qed

text \<open>
  C34. The address registers are pointers into circular buffers: for a register that
  points at element \<open>pos\<close> of its buffer of \<open>wr + 1\<close> words, incrementing, decrementing,
  and adding or subtracting an index of at most \<open>wr\<close> in magnitude move it by that
  amount modulo the length of the buffer, and never out of it. Subtracting \<open>-0x8000\<close> is
  excepted: the code treats this index as one that moves backwards, and the result is another element
  (\<open>decrease_by_most_negative\<close>).
\<close>

theorem address_registers_wrap:
  assumes "at_ring k blk pos r d"
  defines "base \<equiv> int (ring_base k (unat (g_wr r d)) blk)" and "len \<equiv> uint (g_wr r d) + 1"
  shows "uint (dsp_increment_addr_reg r d) = base + (int pos + 1) mod len \<and>
    uint (dsp_decrement_addr_reg r d) = base + (int pos - 1) mod len \<and>
    (\<bar>sint ix\<bar> < len \<longrightarrow> uint (dsp_increase_addr_reg r ix d) = base + (int pos + sint ix) mod len) \<and>
    (\<bar>sint ix\<bar> < len \<and> sint ix \<noteq> - 0x8000 \<longrightarrow>
       uint (dsp_decrease_addr_reg r ix d) = base + (int pos - sint ix) mod len)"
proof -
  have "(int pos + uint (g_wr r d)) mod (uint (g_wr r d) + 1) = (int pos - 1) mod (uint (g_wr r d) + 1)"
    using mod_add_self2 [of "int pos - 1" "uint (g_wr r d) + 1"] by (simp add: algebra_simps)
  then show ?thesis
    using increment_ring [OF assms(1)] decrement_ring [OF assms(1)] increase_ring [OF assms(1), of ix]
      decrease_ring [OF assms(1), of ix]
    unfolding base_def len_def by auto
qed

text \<open>A buffer of five words, \<open>0x10B\<close> to \<open>0x10F\<close>, with the pointer at its last word.\<close>

definition ring_test :: SDSP where
  "ring_test = dsp_zero\<lparr>g_r := regs_zero\<lparr>r_ar := (\<lambda>_. 0x10F), r_wr := (\<lambda>_. 4)\<rparr>\<rparr>"

theorem address_registers_wrap_witness:
  "uint (dsp_increment_addr_reg 0 ring_test) = 0x10B \<and> uint (dsp_increase_addr_reg 0 3 ring_test) = 0x10D"
  using address_registers_wrap [of 3 33 4 0 ring_test 3]
  by (simp add: at_ring_def ring_bits_def ring_base_def ring_test_def)

text \<open>Subtracting \<open>-0x8000\<close> in a buffer of \<open>0x8001\<close> words leads from its first element to the second instead of the last.\<close>

lemma decrease_by_most_negative:
  assumes "at_ring 16 0 0 r d" and "g_wr r d = 0x8000"
  shows "uint (dsp_decrease_addr_reg r (- 0x8000) d) = 0x8000"
    and "int (ring_base 16 (unat (g_wr r d)) 0) + (int 0 - sint (- 0x8000 :: s16)) mod (uint (g_wr r d) + 1) = 0xFFFF"
proof -
  have "unat (g_ar r d) = 0x7FFF" using assms by (simp add: at_ring_def ring_base_def)
  then have a: "g_ar r d = 0x7FFF" by (intro word_unat_eqI) simp
  show "uint (dsp_decrease_addr_reg r (- 0x8000) d) = 0x8000" by (simp add: dsp_decrease_addr_reg_def a assms(2))
  show "int (ring_base 16 (unat (g_wr r d)) 0) + (int 0 - sint (- 0x8000 :: s16)) mod (uint (g_wr r d) + 1) = 0xFFFF"
    by (simp add: assms(2) ring_base_def)
qed

end
