(* ===== verification/DSP_Misc.thy ===== *)
theory DSP_Misc
  imports DSP_Multiplier DSP_AddrRing
begin

text \<open>
  Register moves, address-register arithmetic and status-bit instructions
  (\<^verbatim>\<open>Core/DSP/Interpreter/DSPIntMisc.cpp\<close> and \<open>nop\<close> of \<^verbatim>\<open>DSPInterpreter.cpp\<close>): one
  definition \<open>f_op\<close> for each function \<open>f\<close>. The calls of \<open>zeroWriteBackLog\<close> are left out,
  as in the arithmetic instructions. The theory also shows what a read of a numbered
  register returns after a write, and what saturation does.
\<close>

unbundle bit_operations_syntax

text \<open>\<^verbatim>\<open>(opc >> n) & 0x3\<close>, used as the number of an address register, and \<^verbatim>\<open>(opc >> n) & 0x1f\<close>.\<close>

definition opc_ar :: "nat \<Rightarrow> UDSPInstruction \<Rightarrow> 2 word" where
  "opc_ar n opc = ucast (drop_bit n opc)"

definition opc_reg :: "nat \<Rightarrow> UDSPInstruction \<Rightarrow> nat" where
  "opc_reg n opc = unat (drop_bit n opc AND 0x1f)"

text \<open>\<^verbatim>\<open>(s8)opc\<close>, widened to 16 bits.\<close>

definition opc_s8 :: "UDSPInstruction \<Rightarrow> u16" where
  "opc_s8 opc = scast (ucast opc :: u8)"

text \<open>
  The value the instructions store from register \<open>reg\<close>: the middle part of an
  accumulator is saturated, every other register is read as it is.
\<close>

definition read_reg_saturated :: "nat \<Rightarrow> SDSP \<Rightarrow> u16 \<times> SDSP" where
  "read_reg_saturated reg d =
     (if reg \<ge> DSP_REG_ACM0 then (dsp_op_read_reg_and_saturate (of_nat (reg - DSP_REG_ACM0)) d, d)
      else dsp_op_read_reg reg d)"

text \<open>\<open>dsp_op_write_reg\<close> followed by \<open>dsp_conditional_extend_accum\<close>.\<close>

definition write_reg_extend :: "nat \<Rightarrow> u16 \<Rightarrow> SDSP \<Rightarrow> SDSP" where
  "write_reg_extend reg val d = dsp_conditional_extend_accum reg (dsp_op_write_reg reg val d)"

definition mrr_op :: "UDSPInstruction \<Rightarrow> SDSP \<Rightarrow> SDSP" where
  "mrr_op opc d =
     (let sreg = opc_reg 0 opc;
          dreg = opc_reg 5 opc;
          (val, d1) = read_reg_saturated sreg d
      in write_reg_extend dreg val d1)"

definition lri_op :: "UDSPInstruction \<Rightarrow> SDSP \<Rightarrow> SDSP" where
  "lri_op opc d =
     (let reg = opc_reg 0 opc;
          (imm, d1) = dsp_fetch_code d
      in write_reg_extend reg imm d1)"

definition lris_op :: "UDSPInstruction \<Rightarrow> SDSP \<Rightarrow> SDSP" where
  "lris_op opc d =
     (let reg = unat (drop_bit 8 opc AND 0x7) + DSP_REG_AXL0
      in write_reg_extend reg (opc_s8 opc) d)"

definition nx_op :: "UDSPInstruction \<Rightarrow> SDSP \<Rightarrow> SDSP" where
  "nx_op opc d = d"

text \<open>The branch for a word other than 0 only writes to the log.\<close>

definition nop_op :: "UDSPInstruction \<Rightarrow> SDSP \<Rightarrow> SDSP" where
  "nop_op opc d = d"

definition dar_op :: "UDSPInstruction \<Rightarrow> SDSP \<Rightarrow> SDSP" where
  "dar_op opc d = set_ar (opc_ar 0 opc) (dsp_decrement_addr_reg (opc_ar 0 opc) d) d"

definition iar_op :: "UDSPInstruction \<Rightarrow> SDSP \<Rightarrow> SDSP" where
  "iar_op opc d = set_ar (opc_ar 0 opc) (dsp_increment_addr_reg (opc_ar 0 opc) d) d"

definition subarn_op :: "UDSPInstruction \<Rightarrow> SDSP \<Rightarrow> SDSP" where
  "subarn_op opc d =
     (let dreg = opc_ar 0 opc in set_ar dreg (dsp_decrease_addr_reg dreg (g_ix dreg d) d) d)"

definition addarn_op :: "UDSPInstruction \<Rightarrow> SDSP \<Rightarrow> SDSP" where
  "addarn_op opc d =
     (let dreg = opc_ar 0 opc;
          sreg = opc_ar 2 opc
      in set_ar dreg (dsp_increase_addr_reg dreg (g_ix sreg d) d) d)"

definition sbclr_op :: "UDSPInstruction \<Rightarrow> SDSP \<Rightarrow> SDSP" where
  "sbclr_op opc d =
     (let b = unat (opc AND 0x7) + 6 in set_sr (g_sr d AND NOT (push_bit b 1)) d)"

definition sbset_op :: "UDSPInstruction \<Rightarrow> SDSP \<Rightarrow> SDSP" where
  "sbset_op opc d =
     (let b = unat (opc AND 0x7) + 6 in set_sr (g_sr d OR push_bit b 1) d)"

definition srbith_op :: "UDSPInstruction \<Rightarrow> SDSP \<Rightarrow> SDSP" where
  "srbith_op opc d =
     (let c = drop_bit 8 opc AND 0xf in
      if c = 0xa then set_sr (g_sr d AND NOT SR_MUL_MODIFY) d
      else if c = 0xb then set_sr (g_sr d OR SR_MUL_MODIFY) d
      else if c = 0xc then set_sr (g_sr d AND NOT SR_MUL_UNSIGNED) d
      else if c = 0xd then set_sr (g_sr d OR SR_MUL_UNSIGNED) d
      else if c = 0xe then set_sr (g_sr d AND NOT SR_40_MODE_BIT) d
      else if c = 0xf then set_sr (g_sr d OR SR_40_MODE_BIT) d
      else d)"

subsection \<open>The numbered registers\<close>

text \<open>
  Each register number names one slot of the state; reads and writes by number are
  reads and writes of slots, and no two numbers share a slot.
\<close>

datatype slot = AR "2 word" | IX "2 word" | WR "2 word" | ST "2 word" | ACH "1 word" | CR | SR
  | PRODL | PRODM | PRODH | PRODM2 | AXL "1 word" | AXH "1 word" | ACL "1 word" | ACM "1 word"

definition slot_of :: "nat \<Rightarrow> slot" where
  "slot_of r = [AR 0, AR 1, AR 2, AR 3, IX 0, IX 1, IX 2, IX 3, WR 0, WR 1, WR 2, WR 3,
     ST 0, ST 1, ST 2, ST 3, ACH 0, ACH 1, CR, SR, PRODL, PRODM, PRODH, PRODM2,
     AXL 0, AXL 1, AXH 0, AXH 1, ACL 0, ACL 1, ACM 0, ACM 1] ! r"

primrec slot_read :: "slot \<Rightarrow> SDSP \<Rightarrow> u16" where
  "slot_read (AR i) d = g_ar i d"
| "slot_read (IX i) d = g_ix i d"
| "slot_read (WR i) d = g_wr i d"
| "slot_read (ST i) d = g_st i d"
| "slot_read (ACH i) d = u_h (g_ac i d)"
| "slot_read CR d = r_cr (g_r d)"
| "slot_read SR d = g_sr d"
| "slot_read PRODL d = u_l (g_prod d)"
| "slot_read PRODM d = u_m (g_prod d)"
| "slot_read PRODH d = u_h (g_prod d)"
| "slot_read PRODM2 d = u_m2 (g_prod d)"
| "slot_read (AXL i) d = ax_l (g_ax i d)"
| "slot_read (AXH i) d = ax_h (g_ax i d)"
| "slot_read (ACL i) d = u_l (g_ac i d)"
| "slot_read (ACM i) d = u_m (g_ac i d)"

primrec slot_write :: "slot \<Rightarrow> u16 \<Rightarrow> SDSP \<Rightarrow> SDSP" where
  "slot_write (AR i) v d = set_ar i v d"
| "slot_write (IX i) v d = set_ix i v d"
| "slot_write (WR i) v d = set_wr i v d"
| "slot_write (ST i) v d = set_st i v d"
| "slot_write (ACH i) v d = set_ac i (set_u_h v (g_ac i d)) d"
| "slot_write CR v d = d\<lparr>g_r := (g_r d)\<lparr>r_cr := v\<rparr>\<rparr>"
| "slot_write SR v d = set_sr v d"
| "slot_write PRODL v d = set_prod (set_u_l v (g_prod d)) d"
| "slot_write PRODM v d = set_prod (set_u_m v (g_prod d)) d"
| "slot_write PRODH v d = set_prod (set_u_h v (g_prod d)) d"
| "slot_write PRODM2 v d = set_prod (set_u_m2 v (g_prod d)) d"
| "slot_write (AXL i) v d = set_ax i (set_ax_l v (g_ax i d)) d"
| "slot_write (AXH i) v d = set_ax i (set_ax_h v (g_ax i d)) d"
| "slot_write (ACL i) v d = set_ac i (set_u_l v (g_ac i d)) d"
| "slot_write (ACM i) v d = set_ac i (set_u_m v (g_ac i d)) d"

lemma slot_read_write: "slot_read s (slot_write t v d) = (if s = t then v else slot_read s d)"
  by (cases t; cases s) simp_all

lemma all_regs:
  "r < 32 \<Longrightarrow> P 0 \<Longrightarrow> P 1 \<Longrightarrow> P 2 \<Longrightarrow> P 3
   \<Longrightarrow> P 4 \<Longrightarrow> P 5 \<Longrightarrow> P 6 \<Longrightarrow> P 7
   \<Longrightarrow> P 8 \<Longrightarrow> P 9 \<Longrightarrow> P 10 \<Longrightarrow> P 11
   \<Longrightarrow> P 12 \<Longrightarrow> P 13 \<Longrightarrow> P 14 \<Longrightarrow> P 15
   \<Longrightarrow> P 16 \<Longrightarrow> P 17 \<Longrightarrow> P 18 \<Longrightarrow> P 19
   \<Longrightarrow> P 20 \<Longrightarrow> P 21 \<Longrightarrow> P 22 \<Longrightarrow> P 23
   \<Longrightarrow> P 24 \<Longrightarrow> P 25 \<Longrightarrow> P 26 \<Longrightarrow> P 27
   \<Longrightarrow> P 28 \<Longrightarrow> P 29 \<Longrightarrow> P 30 \<Longrightarrow> P 31
   \<Longrightarrow> P (r :: nat)"
  by (simp add: less_Suc_eq numeral_eq_Suc) (elim disjE; simp)

primrec slot_num :: "slot \<Rightarrow> nat" where
  "slot_num (AR i) = unat i"
| "slot_num (IX i) = 4 + unat i"
| "slot_num (WR i) = 8 + unat i"
| "slot_num (ST i) = 12 + unat i"
| "slot_num (ACH i) = 16 + unat i"
| "slot_num CR = 18"
| "slot_num SR = 19"
| "slot_num PRODL = 20"
| "slot_num PRODM = 21"
| "slot_num PRODH = 22"
| "slot_num PRODM2 = 23"
| "slot_num (AXL i) = 24 + unat i"
| "slot_num (AXH i) = 26 + unat i"
| "slot_num (ACL i) = 28 + unat i"
| "slot_num (ACM i) = 30 + unat i"

lemma slot_num_of: "r < 32 \<Longrightarrow> slot_num (slot_of r) = r"
  by (erule all_regs; simp add: slot_of_def)

lemma slot_of_eq_iff: "r < 32 \<Longrightarrow> s < 32 \<Longrightarrow> slot_of r = slot_of s \<longleftrightarrow> r = s"
  by (metis slot_num_of)

lemma read_reg_slot: "r < 32 \<Longrightarrow> fst (dsp_op_read_reg r d) = slot_read (slot_of r) d"
  by (erule all_regs; simp add: slot_of_def dsp_op_read_reg_def dsp_reg_load_stack_def)

text \<open>
  A write by an instruction is a write of the slot, but the high part of an
  accumulator keeps only eight bits, sign-extended, and a stack register is pushed.
\<close>

definition reg_value :: "nat \<Rightarrow> u16 \<Rightarrow> u16" where
  "reg_value r v = (if r = 0x10 \<or> r = 0x11 then scast (ucast v :: u8) else v)"

lemma write_reg_slot:
  "r < 32 \<Longrightarrow> g_r (dsp_op_write_reg r v d) = g_r (slot_write (slot_of r) (reg_value r v) d)"
  by (erule all_regs; simp add: slot_of_def dsp_op_write_reg_def dsp_reg_store_stack_def
      dsp_reg_stack_push_def reg_value_def Let_def)

lemma slot_read_cong: "g_r d = g_r d' \<Longrightarrow> slot_read s d = slot_read s d'"
  by (cases s) simp_all

subsection \<open>The contract of a register file\<close>

locale register_file =
  fixes rd :: "nat \<Rightarrow> 's \<Rightarrow> u16"
    and wr :: "nat \<Rightarrow> u16 \<Rightarrow> 's \<Rightarrow> 's"
    and kept :: "nat \<Rightarrow> u16 \<Rightarrow> u16"
  assumes read_write: "r < 32 \<Longrightarrow> s < 32 \<Longrightarrow> rd s (wr r v d) = (if s = r then kept r v else rd s d)"
begin

text \<open>After a sequence of writes a register holds the last value written to it.\<close>

lemma read_writes:
  assumes "\<forall>(r, v) \<in> set rvs. r < 32" and "s < 32"
  shows "rd s (fold (\<lambda>(r, v). wr r v) rvs d) =
    (case map_of (rev rvs) s of Some v \<Rightarrow> kept s v | None \<Rightarrow> rd s d)"
  using assms
proof (induction rvs rule: rev_induct)
  case (snoc rv rvs)
  then show ?case by (cases rv) (auto simp: read_write)
qed simp

end

interpretation interpreter_regs: register_file "\<lambda>r d. fst (dsp_op_read_reg r d)" dsp_op_write_reg reg_value
proof
  fix r s :: nat and v :: u16 and d :: SDSP
  assume r: "r < 32" and s: "s < 32"
  have "fst (dsp_op_read_reg s (dsp_op_write_reg r v d)) = slot_read (slot_of s) (slot_write (slot_of r) (reg_value r v) d)"
    unfolding read_reg_slot [OF s] by (rule slot_read_cong) (rule write_reg_slot [OF r])
  then show "fst (dsp_op_read_reg s (dsp_op_write_reg r v d)) =
      (if s = r then reg_value r v else fst (dsp_op_read_reg s d))"
    using r s by (simp add: slot_read_write slot_of_eq_iff read_reg_slot)
qed

text \<open>
  The numbered registers of the interpreter are a register file: after any
  sequence of writes by number, each of the 32 registers reads the last value written
  to it (the high part of an accumulator its low byte, sign-extended; a stack register
  the value on top), and registers not written to are unchanged.
\<close>

theorem interpreter_register_file:
  assumes "\<forall>(r, v) \<in> set rvs. r < 32" and "s < 32"
  shows "fst (dsp_op_read_reg s (fold (\<lambda>(r, v). dsp_op_write_reg r v) rvs d)) =
    (case map_of (rev rvs) s of Some v \<Rightarrow> reg_value s v | None \<Rightarrow> fst (dsp_op_read_reg s d))"
  by (rule interpreter_regs.read_writes [OF assms])

theorem interpreter_register_file_witness:
  "fst (dsp_op_read_reg 0x1E (fold (\<lambda>(r, v). dsp_op_write_reg r v) [(0x1E, 5), (0x10, 0x80), (0x0C, 7)] dsp_zero)) = 5 \<and>
   fst (dsp_op_read_reg 0x10 (fold (\<lambda>(r, v). dsp_op_write_reg r v) [(0x1E, 5), (0x10, 0x80), (0x0C, 7)] dsp_zero)) = 0xFF80"
  using interpreter_register_file [of "[(0x1E, 5), (0x10, 0x80), (0x0C, 7)]" "0x1E" dsp_zero]
    interpreter_register_file [of "[(0x1E, 5), (0x10, 0x80), (0x0C, 7)]" "0x10" dsp_zero]
  by (simp add: reg_value_def)

subsection \<open>Saturation\<close>

lemma u_m_sext40: "u_m (sext40 v) = u_m v"
  by (rule bit_word_eqI) (auto simp: field_defs sext40_def bit_simps dest: bit_imp_le_length)

lemma u_m_word_of_int: "u_m v = word_of_int (sint v div 2 ^ 16)"
  unfolding field_defs drop_bit_eq_div [symmetric]
  by (rule bit_word_eqI) (auto simp: bit_simps)

text \<open>
  Reading the middle part of an accumulator for a store saturates in 40-bit mode:
  the result is bits 16 to 31 of the 40-bit number clamped to the 32-bit range. In
  16-bit mode it is the middle part itself.
\<close>

theorem saturated_read:
  "sint (dsp_op_read_reg_and_saturate r d) =
    (if g_sr d AND SR_40_MODE_BIT \<noteq> 0
     then max (- (2 ^ 31)) (min (2 ^ 31 - 1) (sint (dsp_get_long_acc r d))) div 2 ^ 16
     else sint (u_m (g_ac r d)))"
proof -
  let ?acc = "dsp_get_long_acc r d"
  have m: "u_m (g_ac r d) = word_of_int (sint ?acc div 2 ^ 16)"
    unfolding dsp_get_long_acc_def u_m_word_of_int [symmetric] u_m_sext40 ..
  consider "sint ?acc < - (2 ^ 31)" | "sint ?acc \<ge> 2 ^ 31" | "- (2 ^ 31) \<le> sint ?acc" "sint ?acc < 2 ^ 31" by linarith
  then show ?thesis
  proof cases
    case 3
    then have "- (2 ^ 15) \<le> sint ?acc div 2 ^ 16" "sint ?acc div 2 ^ 16 < 2 ^ 15" by auto
    then have "sint (u_m (g_ac r d)) = sint ?acc div 2 ^ 16"
      unfolding m by (subst sint_sbintrunc') (simp add: signed_take_bit_int_eq_self)
    with 3 show ?thesis
      using to_s32_iff [of ?acc] by (auto simp: dsp_op_read_reg_and_saturate_def Let_def)
  qed (use to_s32_iff [of ?acc] in \<open>auto simp: dsp_op_read_reg_and_saturate_def Let_def\<close>)
qed

end
