(* ===== verification/DSP_LoadStore.thy ===== *)
theory DSP_LoadStore
  imports DSP_Misc
begin

text \<open>
  Loads and stores (\<^verbatim>\<open>Core/DSP/Interpreter/DSPIntLoadStore.cpp\<close>): one definition
  \<open>f_op\<close> for each function \<open>f\<close>. Data memory includes the hardware registers, so an
  access can fail (\<open>dsp_result\<close>); instruction memory cannot.
\<close>

unbundle bit_operations_syntax

text \<open>The lines the loads share and those the stores share.\<close>

definition load_reg :: "u16 \<Rightarrow> nat \<Rightarrow> SDSP \<Rightarrow> dsp_result" where
  "load_reg addr reg d =
     and_then (dsp_dmem_read addr d) (\<lambda>(val, d1). Inr (write_reg_extend reg val d1))"

definition store_reg :: "u16 \<Rightarrow> nat \<Rightarrow> SDSP \<Rightarrow> dsp_result" where
  "store_reg addr reg d =
     (let (val, d1) = read_reg_saturated reg d in dsp_dmem_write addr val d1)"

text \<open>The address of the short forms: the low byte of \<open>r.cr\<close> is the page.\<close>

definition short_addr :: "UDSPInstruction \<Rightarrow> SDSP \<Rightarrow> u16" where
  "short_addr opc d = push_bit 8 (r_cr (g_r d)) OR (opc AND 0xFF)"

definition short_reg :: "UDSPInstruction \<Rightarrow> nat" where
  "short_reg opc = unat (drop_bit 8 opc AND 0x7) + 0x18"

definition srs_op :: "UDSPInstruction \<Rightarrow> SDSP \<Rightarrow> dsp_result" where
  "srs_op opc d = store_reg (short_addr opc d) (short_reg opc) d"

definition lrs_op :: "UDSPInstruction \<Rightarrow> SDSP \<Rightarrow> dsp_result" where
  "lrs_op opc d = load_reg (short_addr opc d) (short_reg opc) d"

definition lr_op :: "UDSPInstruction \<Rightarrow> SDSP \<Rightarrow> dsp_result" where
  "lr_op opc d = (let (addr, d1) = dsp_fetch_code d in load_reg addr (opc_reg 0 opc) d1)"

definition sr_op :: "UDSPInstruction \<Rightarrow> SDSP \<Rightarrow> dsp_result" where
  "sr_op opc d = (let (addr, d1) = dsp_fetch_code d in store_reg addr (opc_reg 0 opc) d1)"

definition si_op :: "UDSPInstruction \<Rightarrow> SDSP \<Rightarrow> dsp_result" where
  "si_op opc d =
     (let addr = opc_s8 opc;
          (imm, d1) = dsp_fetch_code d
      in dsp_dmem_write addr imm d1)"

subsection \<open>Loads through an address register\<close>

text \<open>\<open>dsp_op_read_reg\<close> of one of the registers 0 to 3 is \<open>ar\<close>.\<close>

definition lrr_op :: "UDSPInstruction \<Rightarrow> SDSP \<Rightarrow> dsp_result" where
  "lrr_op opc d =
     (let (addr, d1) = dsp_op_read_reg (unat (opc_ar 5 opc)) d in load_reg addr (opc_reg 0 opc) d1)"

definition lrrd_op :: "UDSPInstruction \<Rightarrow> SDSP \<Rightarrow> dsp_result" where
  "lrrd_op opc d =
     (let sreg = opc_ar 5 opc; (addr, d1) = dsp_op_read_reg (unat sreg) d
      in and_then (load_reg addr (opc_reg 0 opc) d1)
           (\<lambda>d2. Inr (set_ar sreg (dsp_decrement_addr_reg sreg d2) d2)))"

definition lrri_op :: "UDSPInstruction \<Rightarrow> SDSP \<Rightarrow> dsp_result" where
  "lrri_op opc d =
     (let sreg = opc_ar 5 opc; (addr, d1) = dsp_op_read_reg (unat sreg) d
      in and_then (load_reg addr (opc_reg 0 opc) d1)
           (\<lambda>d2. Inr (set_ar sreg (dsp_increment_addr_reg sreg d2) d2)))"

definition lrrn_op :: "UDSPInstruction \<Rightarrow> SDSP \<Rightarrow> dsp_result" where
  "lrrn_op opc d =
     (let sreg = opc_ar 5 opc; (addr, d1) = dsp_op_read_reg (unat sreg) d
      in and_then (load_reg addr (opc_reg 0 opc) d1)
           (\<lambda>d2. Inr (set_ar sreg (dsp_increase_addr_reg sreg (g_ix sreg d2) d2) d2)))"

subsection \<open>Stores through an address register\<close>

text \<open>
  \<^verbatim>\<open>g_dsp.r.ar[dreg]\<close> is an argument of \<open>dsp_dmem_write\<close> next to the register read;
  that read changes no address register, so the order of the two does not matter.
\<close>

definition srr_op :: "UDSPInstruction \<Rightarrow> SDSP \<Rightarrow> dsp_result" where
  "srr_op opc d = store_reg (g_ar (opc_ar 5 opc) d) (opc_reg 0 opc) d"

definition srrd_op :: "UDSPInstruction \<Rightarrow> SDSP \<Rightarrow> dsp_result" where
  "srrd_op opc d =
     (let dreg = opc_ar 5 opc
      in and_then (store_reg (g_ar dreg d) (opc_reg 0 opc) d)
           (\<lambda>d1. Inr (set_ar dreg (dsp_decrement_addr_reg dreg d1) d1)))"

definition srri_op :: "UDSPInstruction \<Rightarrow> SDSP \<Rightarrow> dsp_result" where
  "srri_op opc d =
     (let dreg = opc_ar 5 opc
      in and_then (store_reg (g_ar dreg d) (opc_reg 0 opc) d)
           (\<lambda>d1. Inr (set_ar dreg (dsp_increment_addr_reg dreg d1) d1)))"

definition srrn_op :: "UDSPInstruction \<Rightarrow> SDSP \<Rightarrow> dsp_result" where
  "srrn_op opc d =
     (let dreg = opc_ar 5 opc
      in and_then (store_reg (g_ar dreg d) (opc_reg 0 opc) d)
           (\<lambda>d1. Inr (set_ar dreg (dsp_increase_addr_reg dreg (g_ix dreg d1) d1) d1)))"

subsection \<open>Loads from instruction memory\<close>

definition ilrr_op :: "UDSPInstruction \<Rightarrow> SDSP \<Rightarrow> SDSP" where
  "ilrr_op opc d =
     (let reg = opc_ar 0 opc;
          i = opc_bit 8 opc;
          d1 = set_ac i (set_u_m (dsp_imem_read d (g_ar reg d)) (g_ac i d)) d
      in dsp_conditional_extend_accum (DSP_REG_ACM0 + unat i) d1)"

definition ilrrd_op :: "UDSPInstruction \<Rightarrow> SDSP \<Rightarrow> SDSP" where
  "ilrrd_op opc d =
     (let reg = opc_ar 0 opc;
          i = opc_bit 8 opc;
          d1 = set_ac i (set_u_m (dsp_imem_read d (g_ar reg d)) (g_ac i d)) d;
          d2 = dsp_conditional_extend_accum (DSP_REG_ACM0 + unat i) d1
      in set_ar reg (dsp_decrement_addr_reg reg d2) d2)"

definition ilrri_op :: "UDSPInstruction \<Rightarrow> SDSP \<Rightarrow> SDSP" where
  "ilrri_op opc d =
     (let reg = opc_ar 0 opc;
          i = opc_bit 8 opc;
          d1 = set_ac i (set_u_m (dsp_imem_read d (g_ar reg d)) (g_ac i d)) d;
          d2 = dsp_conditional_extend_accum (DSP_REG_ACM0 + unat i) d1
      in set_ar reg (dsp_increment_addr_reg reg d2) d2)"

definition ilrrn_op :: "UDSPInstruction \<Rightarrow> SDSP \<Rightarrow> SDSP" where
  "ilrrn_op opc d =
     (let reg = opc_ar 0 opc;
          i = opc_bit 8 opc;
          d1 = set_ac i (set_u_m (dsp_imem_read d (g_ar reg d)) (g_ac i d)) d;
          d2 = dsp_conditional_extend_accum (DSP_REG_ACM0 + unat i) d1
      in set_ar reg (dsp_increase_addr_reg reg (g_ix reg d2) d2) d2)"

end
