(* ===== verification/DSP_Branch.thy ===== *)
theory DSP_Branch
  imports DSP_LoadStore
begin

text \<open>
  Branches, calls, loops and \<open>HandleLoop\<close>
  (\<^verbatim>\<open>Core/DSP/Interpreter/DSPIntBranch.cpp\<close>): one definition \<open>f_op\<close> for each function
  \<open>f\<close>. The program counter already points past the instruction word when an
  operation runs.
\<close>

unbundle bit_operations_syntax

abbreviation store_stack :: "StackRegister \<Rightarrow> u16 \<Rightarrow> SDSP \<Rightarrow> SDSP" where
  "store_stack s v d \<equiv> dsp_reg_store_stack (stack_index s) v d"

abbreviation load_stack :: "StackRegister \<Rightarrow> SDSP \<Rightarrow> u16 \<times> SDSP" where
  "load_stack s d \<equiv> dsp_reg_load_stack (stack_index s) d"

definition call_op :: "UDSPInstruction \<Rightarrow> SDSP \<Rightarrow> SDSP" where
  "call_op opc d =
     (let (dest, d1) = dsp_fetch_code d in
      if CheckCondition (opc AND 0xf) d1 then (store_stack Call (g_pc d1) d1)\<lparr>g_pc := dest\<rparr>
      else d1)"

definition callr_op :: "UDSPInstruction \<Rightarrow> SDSP \<Rightarrow> SDSP" where
  "callr_op opc d =
     (if CheckCondition (opc AND 0xf) d then
        (let reg = unat (drop_bit 5 opc AND 0x7);
             (addr, d1) = dsp_op_read_reg reg d
         in (store_stack Call (g_pc d1) d1)\<lparr>g_pc := addr\<rparr>)
      else d)"

definition ifcc_op :: "UDSPInstruction \<Rightarrow> SDSP \<Rightarrow> SDSP" where
  "ifcc_op opc d = (if \<not> CheckCondition (opc AND 0xf) d then dsp_skip_inst d else d)"

definition jcc_op :: "UDSPInstruction \<Rightarrow> SDSP \<Rightarrow> SDSP" where
  "jcc_op opc d =
     (let (dest, d1) = dsp_fetch_code d in
      if CheckCondition (opc AND 0xf) d1 then d1\<lparr>g_pc := dest\<rparr> else d1)"

definition jmprcc_op :: "UDSPInstruction \<Rightarrow> SDSP \<Rightarrow> SDSP" where
  "jmprcc_op opc d =
     (if CheckCondition (opc AND 0xf) d then
        (let reg = unat (drop_bit 5 opc AND 0x7);
             (addr, d1) = dsp_op_read_reg reg d
         in d1\<lparr>g_pc := addr\<rparr>)
      else d)"

definition ret_op :: "UDSPInstruction \<Rightarrow> SDSP \<Rightarrow> SDSP" where
  "ret_op opc d =
     (if CheckCondition (opc AND 0xf) d then (let (addr, d1) = load_stack Call d in d1\<lparr>g_pc := addr\<rparr>)
      else d)"

definition rti_op :: "UDSPInstruction \<Rightarrow> SDSP \<Rightarrow> SDSP" where
  "rti_op opc d =
     (let (sr, d1) = load_stack Data d;
          d2 = set_sr sr d1;
          (pc, d3) = load_stack Call d2
      in d3\<lparr>g_pc := pc\<rparr>)"

definition halt_op :: "UDSPInstruction \<Rightarrow> SDSP \<Rightarrow> SDSP" where
  "halt_op opc d = d\<lparr>g_cr := g_cr d OR 0x4, g_pc := g_pc d - 1\<rparr>"

text \<open>\<^verbatim>\<open>g_dsp.pc - 1\<close> is computed in \<^verbatim>\<open>int\<close>, so it is \<open>-1\<close> at 0.\<close>

definition HandleLoop :: "SDSP \<Rightarrow> SDSP" where
  "HandleLoop d =
     (let rCallAddress = g_st 0 d;
          rLoopAddress = g_st 2 d;
          rLoopCounter = g_st 3 d
      in if rLoopAddress > 0 \<and> rLoopCounter > 0 then
           (if uint (g_pc d) - 1 = uint rLoopAddress then
              (let d1 = set_st 3 (rLoopCounter - 1) d in
               if g_st 3 d1 > 0 then d1\<lparr>g_pc := rCallAddress\<rparr>
               else snd (load_stack LoopCounter (snd (load_stack LoopAddress (snd (load_stack Call d1))))))
            else d)
         else d)"

text \<open>The lines the four loop instructions share: push the loop, from the current pc to \<open>loop_pc\<close>.\<close>

definition push_loop :: "u16 \<Rightarrow> u16 \<Rightarrow> SDSP \<Rightarrow> SDSP" where
  "push_loop loop_pc cnt d =
     store_stack LoopCounter cnt (store_stack LoopAddress loop_pc (store_stack Call (g_pc d) d))"

definition loop_op :: "UDSPInstruction \<Rightarrow> SDSP \<Rightarrow> SDSP" where
  "loop_op opc d =
     (let reg = opc_reg 0 opc;
          (cnt, d1) = dsp_op_read_reg reg d;
          loop_pc = g_pc d1
      in if cnt \<noteq> 0 then push_loop loop_pc cnt d1 else dsp_skip_inst d1)"

definition loopi_op :: "UDSPInstruction \<Rightarrow> SDSP \<Rightarrow> SDSP" where
  "loopi_op opc d =
     (let cnt = opc AND 0xff;
          loop_pc = g_pc d
      in if cnt \<noteq> 0 then push_loop loop_pc cnt d else dsp_skip_inst d)"

definition bloop_op :: "UDSPInstruction \<Rightarrow> SDSP \<Rightarrow> SDSP" where
  "bloop_op opc d =
     (let reg = opc_reg 0 opc;
          (cnt, d1) = dsp_op_read_reg reg d;
          (loop_pc, d2) = dsp_fetch_code d1
      in if cnt \<noteq> 0 then push_loop loop_pc cnt d2 else dsp_skip_inst (d2\<lparr>g_pc := loop_pc\<rparr>))"

definition bloopi_op :: "UDSPInstruction \<Rightarrow> SDSP \<Rightarrow> SDSP" where
  "bloopi_op opc d =
     (let cnt = opc AND 0xff;
          (loop_pc, d1) = dsp_fetch_code d
      in if cnt \<noteq> 0 then push_loop loop_pc cnt d1 else dsp_skip_inst (d1\<lparr>g_pc := loop_pc\<rparr>))"

subsection \<open>The loop hardware\<close>

text \<open>
  What a stack shows depends only on its register, its ring and its pointer; code that
  leaves those alone is transparent to loops, calls and exceptions.
\<close>

definition same_stacks :: "SDSP \<Rightarrow> SDSP \<Rightarrow> bool" where
  "same_stacks d d' \<longleftrightarrow> r_st (g_r d') = r_st (g_r d) \<and> g_reg_stack d' = g_reg_stack d \<and>
     g_reg_stack_ptr d' = g_reg_stack_ptr d"

lemma same_stacks_view: "same_stacks d d' \<Longrightarrow> stack_view n i d' = stack_view n i d"
  by (simp add: same_stacks_def stack_view_def)

lemma same_stacks_ok: "same_stacks d d' \<Longrightarrow> stack_ptr_ok d \<Longrightarrow> stack_ptr_ok d'"
  by (simp add: same_stacks_def stack_ptr_ok_def)

text \<open>A body of a loop that ends at \<open>l\<close>: whatever it does, it leaves the stacks as they were.\<close>

definition loop_body :: "u16 \<Rightarrow> (SDSP \<Rightarrow> SDSP) \<Rightarrow> bool" where
  "loop_body l f \<longleftrightarrow> (\<forall>d. g_pc (f d) = l + 1 \<and> same_stacks d (f d))"

text \<open>In the loop, before a pass with \<open>c\<close> passes to go.\<close>

definition looping :: "SDSP \<Rightarrow> u16 \<Rightarrow> u16 \<Rightarrow> SDSP \<Rightarrow> bool" where
  "looping d l c e \<longleftrightarrow> g_pc e = g_pc d \<and> same_stacks (set_st 3 c (push_loop l c d)) e"

lemma stack_index_neq [simp]: "(0::2 word) \<noteq> 2" "(0::2 word) \<noteq> 3" "(2::2 word) \<noteq> 3" "(3::2 word) \<noteq> 2"
    "(2::2 word) \<noteq> 0" "(3::2 word) \<noteq> 0"
  by simp_all

lemma push_loop_st: "g_st 0 (push_loop l c d) = g_pc d" "g_st 2 (push_loop l c d) = l" "g_st 3 (push_loop l c d) = c"
  "g_pc (push_loop l c d) = g_pc d"
  by (simp_all add: push_loop_def dsp_reg_store_stack_def dsp_reg_stack_push_def Let_def)

lemma push_loop_count: "same_stacks (set_st 3 c (push_loop l b d)) (set_st 3 c (push_loop l c d))"
  by (simp add: push_loop_def dsp_reg_store_stack_def dsp_reg_stack_push_def Let_def same_stacks_def)

lemma looping_regs:
  assumes "loop_body l f" and "looping d l c e"
  shows "g_st 0 (f e) = g_pc d" and "g_st 2 (f e) = l" and "g_st 3 (f e) = c" and "g_pc (f e) = l + 1"
    and "same_stacks (set_st 3 c (push_loop l c d)) (f e)"
proof -
  have "same_stacks e (f e)" and pc: "g_pc (f e) = l + 1" using assms(1) by (simp_all add: loop_body_def)
  with assms(2) have "same_stacks (set_st 3 c (push_loop l c d)) (f e)"
    by (simp add: looping_def same_stacks_def)
  then show "same_stacks (set_st 3 c (push_loop l c d)) (f e)"
    and "g_st 0 (f e) = g_pc d" "g_st 2 (f e) = l" "g_st 3 (f e) = c"
    by (simp_all add: same_stacks_def push_loop_st)
  show "g_pc (f e) = l + 1" by (rule pc)
qed

lemma uint_succ: "l < 0xFFFF \<Longrightarrow> uint (l + 1) - 1 = uint l" for l :: u16
  by (simp add: word_less_def uint_word_ariths)

lemma looping_again:
  assumes "loop_body l f" and "0 < l" and "l < 0xFFFF" and "1 < c" and "looping d l c e"
  shows "looping d l (c - 1) (HandleLoop (f e))"
proof -
  note r = looping_regs [OF assms(1,5)]
  have "0 < c - 1" "0 < c" using assms(4) by (simp_all add: word_less_nat_alt unat_sub word_le_nat_alt)
  then have "HandleLoop (f e) = (set_st 3 (c - 1) (f e))\<lparr>g_pc := g_pc d\<rparr>"
    using assms(2) by (simp add: HandleLoop_def Let_def r(1-4) uint_succ [OF assms(3)])
  then show ?thesis
    using r(5) push_loop_count [of "c - 1" l c d] by (simp add: looping_def same_stacks_def)
qed

lemma looping_done:
  assumes "loop_body l f" and "0 < l" and "l < 0xFFFF" and "looping d l 1 e" and "stack_ptr_ok d"
  shows "g_pc (HandleLoop (f e)) = l + 1" and "n < 32 \<Longrightarrow> stack_view n i (HandleLoop (f e)) = stack_view n i d"
    and "stack_ptr_ok (HandleLoop (f e))"
proof -
  note r = looping_regs [OF assms(1,4)]
  let ?d1 = "set_st 3 0 (f e)"
  have h: "HandleLoop (f e) = snd (dsp_reg_load_stack 3 (snd (dsp_reg_load_stack 2 (snd (dsp_reg_load_stack 0 ?d1)))))"
    using assms(2) by (simp add: HandleLoop_def Let_def r(1-4) uint_succ [OF assms(3)])
  have pc: "g_pc (snd (dsp_reg_load_stack j x)) = g_pc x" for j x
    by (simp add: dsp_reg_load_stack_def dsp_reg_stack_pop_def Let_def)
  show "g_pc (HandleLoop (f e)) = l + 1" unfolding h pc using r(4) by simp
  let ?p = "push_loop l 1 d"
  have okp: "stack_ptr_ok ?p" using assms(5) by (simp add: push_loop_def)
  have ok: "stack_ptr_ok ?d1" using okp r(5) by (simp add: stack_ptr_ok_def same_stacks_def)
  then show "stack_ptr_ok (HandleLoop (f e))" unfolding h by simp
  have tl: "tl (stack_view (Suc n) j ?d1) = tl (stack_view (Suc n) j ?p)" for j n
    using r(5) by (simp add: stack_view_def same_stacks_def)
  show "stack_view n i (HandleLoop (f e)) = stack_view n i d" if n: "n < 32"
  proof -
    have view: "stack_view (Suc n) j ?p = (if j = 0 then g_pc d # stack_view n j d else if j = 2 then l # stack_view n j d
        else if j = 3 then 1 # stack_view n j d else stack_view (Suc n) j d)" for j
      using n by (simp add: push_loop_def stack_view_store stack_view_store_other)
    show ?thesis
    proof (cases "i = 0 \<or> i = 2 \<or> i = 3")
      case True
      then show ?thesis unfolding h using n ok tl view [of i]
        by (auto simp: stack_view_load stack_view_load_other)
    next
      case False
      have "stack_view n i ?d1 = stack_view n i ?p"
        using r(5) False by (simp add: stack_view_def same_stacks_def)
      also have "\<dots> = stack_view n i d"
        using False by (simp add: push_loop_def stack_view_store_other)
      finally show ?thesis unfolding h using False by (simp add: stack_view_load_other)
    qed
  qed
qed

text \<open>
  C21. The loop hardware runs the body of a loop exactly as often as the count says:
  after \<open>LOOP\<close>, \<open>LOOPI\<close>, \<open>BLOOP\<close> or \<open>BLOOPI\<close> has pushed a loop that ends at \<open>l\<close> with count
  \<open>cnt\<close>, each pass of a body that keeps the stacks starts again at the start address
  with the count one less; after the last pass control continues behind the loop, and
  all four stacks show what they showed before it.
\<close>

theorem hardware_loop_runs_count_times:
  assumes "loop_body l f" and "0 < l" and "l < 0xFFFF" and "cnt \<noteq> 0" and "stack_ptr_ok d"
  shows "(\<forall>k < unat cnt. g_pc (((HandleLoop \<circ> f) ^^ k) (push_loop l cnt d)) = g_pc d \<and>
      g_st 3 (((HandleLoop \<circ> f) ^^ k) (push_loop l cnt d)) = cnt - of_nat k) \<and>
    g_pc (((HandleLoop \<circ> f) ^^ unat cnt) (push_loop l cnt d)) = l + 1 \<and>
    (\<forall>n i. n < 32 \<longrightarrow> stack_view n i (((HandleLoop \<circ> f) ^^ unat cnt) (push_loop l cnt d)) = stack_view n i d)"
proof -
  let ?run = "\<lambda>k. ((HandleLoop \<circ> f) ^^ k) (push_loop l cnt d)"
  have inv: "k < unat cnt \<Longrightarrow> looping d l (cnt - of_nat k) (?run k)" for k
  proof (induction k)
    case 0
    then show ?case by (simp add: looping_def same_stacks_def push_loop_st)
       (simp add: push_loop_def dsp_reg_store_stack_def fun_upd_idem)
  next
    case (Suc k)
    have "1 < cnt - of_nat k"
      using Suc(2) by (simp add: word_less_nat_alt unat_sub word_le_nat_alt unat_of_nat take_bit_nat_eq_self)
    from looping_again [OF assms(1-3) this] Suc show ?case by simp (simp add: algebra_simps)
  qed
  have last: "unat cnt = Suc (unat cnt - 1)" using assms(4) by (simp add: unat_gt_0)
  have "looping d l (cnt - of_nat (unat cnt - 1)) (?run (unat cnt - 1))"
    using inv [of "unat cnt - 1"] last by linarith
  moreover have "cnt - of_nat (unat cnt - 1) = 1" using assms(4) by (simp add: of_nat_diff unat_gt_0 Suc_le_eq)
  ultimately have "looping d l 1 (?run (unat cnt - 1))" by simp
  from looping_done [OF assms(1-3) this assms(5)]
  have "g_pc (?run (unat cnt)) = l + 1" "\<And>n i. n < 32 \<Longrightarrow> stack_view n i (?run (unat cnt)) = stack_view n i d"
    by (subst last, simp)+
  moreover have "g_pc (?run k) = g_pc d \<and> g_st 3 (?run k) = cnt - of_nat k" if "k < unat cnt" for k
    using inv [OF that] by (simp add: looping_def same_stacks_def)
  ultimately show ?thesis by blast
qed

theorem hardware_loop_runs_count_times_witness:
  "g_pc (((HandleLoop \<circ> (\<lambda>d. d\<lparr>g_pc := 0x21\<rparr>)) ^^ 3) (push_loop 0x20 3 dsp_zero)) = 0x21"
  using hardware_loop_runs_count_times [of "0x20" "\<lambda>d. d\<lparr>g_pc := 0x21\<rparr>" 3 dsp_zero]
  by (simp add: loop_body_def same_stacks_def stack_ptr_ok_def zero_defs)

end
