(* ===== verification/DSP_ExtOps.thy ===== *)
theory DSP_ExtOps
  imports DSP_Branch
begin

text \<open>
  The extended opcodes (\<^verbatim>\<open>Core/DSP/Interpreter/DSPIntExtOps.cpp\<close>): one definition
  \<open>f_ext\<close> for each function \<open>f\<close> of \<^verbatim>\<open>Interpreter::Ext\<close>. An extended opcode runs before
  the opcode it is attached to and leaves its results in the write-back log, a pair
  of arrays of five entries in which the index \<open>-1\<close> marks a free entry;
  \<open>applyWriteBackLog\<close> writes them to the registers after the main opcode has run. It
  stops at the first free entry, so it would run past the arrays if there were none.
\<close>

unbundle bit_operations_syntax

definition WRITEBACK_LOG_SIZE :: nat where "WRITEBACK_LOG_SIZE = 5"

definition writeToBackLog :: "nat \<Rightarrow> nat \<Rightarrow> u16 \<Rightarrow> SDSP \<Rightarrow> SDSP" where
  "writeToBackLog i idx value d =
     d\<lparr>g_writeBackLog := (g_writeBackLog d)[i := value],
       g_writeBackLogIdx := (g_writeBackLogIdx d)[i := int idx]\<rparr>"

definition IsSameMemArea :: "u16 \<Rightarrow> u16 \<Rightarrow> bool" where
  "IsSameMemArea a b \<longleftrightarrow> drop_bit 10 a = drop_bit 10 b"

text \<open>\<^verbatim>\<open>writeToBackLog(i, reg, dsp_dmem_read(addr))\<close>.\<close>

definition log_read :: "nat \<Rightarrow> nat \<Rightarrow> u16 \<Rightarrow> SDSP \<Rightarrow> dsp_result" where
  "log_read i reg addr d =
     and_then (dsp_dmem_read addr d) (\<lambda>(val, d1). Inr (writeToBackLog i reg val d1))"

text \<open>The three ways an extended opcode advances address register \<open>reg\<close>, as entry \<open>i\<close> of the log.\<close>

definition log_decrement :: "nat \<Rightarrow> 2 word \<Rightarrow> SDSP \<Rightarrow> SDSP" where
  "log_decrement i reg d = writeToBackLog i (unat reg) (dsp_decrement_addr_reg reg d) d"

definition log_increment :: "nat \<Rightarrow> 2 word \<Rightarrow> SDSP \<Rightarrow> SDSP" where
  "log_increment i reg d = writeToBackLog i (unat reg) (dsp_increment_addr_reg reg d) d"

definition log_increase :: "nat \<Rightarrow> 2 word \<Rightarrow> SDSP \<Rightarrow> SDSP" where
  "log_increase i reg d = writeToBackLog i (unat reg) (dsp_increase_addr_reg reg (g_ix reg d) d) d"

subsection \<open>Address registers and moves\<close>

definition nop_ext :: "UDSPInstruction \<Rightarrow> SDSP \<Rightarrow> dsp_result" where
  "nop_ext opc d = Inr d"

definition dr_ext :: "UDSPInstruction \<Rightarrow> SDSP \<Rightarrow> dsp_result" where
  "dr_ext opc d = Inr (log_decrement 0 (opc_ar 0 opc) d)"

definition ir_ext :: "UDSPInstruction \<Rightarrow> SDSP \<Rightarrow> dsp_result" where
  "ir_ext opc d = Inr (log_increment 0 (opc_ar 0 opc) d)"

definition nr_ext :: "UDSPInstruction \<Rightarrow> SDSP \<Rightarrow> dsp_result" where
  "nr_ext opc d = Inr (log_increase 0 (opc_ar 0 opc) d)"

text \<open>
  The accumulator part a move or store selects with two bits: \<open>0\<close> and \<open>1\<close> are
  the low parts, \<open>2\<close> and \<open>3\<close> the middle parts, which are saturated.
\<close>

definition acc_part :: "nat \<Rightarrow> SDSP \<Rightarrow> u16" where
  "acc_part sreg d =
     (if sreg = 0x1C \<or> sreg = 0x1D then u_l (g_ac (of_nat (sreg - DSP_REG_ACL0)) d)
      else dsp_op_read_reg_and_saturate (of_nat (sreg - DSP_REG_ACM0)) d)"

definition mv_ext :: "UDSPInstruction \<Rightarrow> SDSP \<Rightarrow> dsp_result" where
  "mv_ext opc d =
     (let sreg = unat (opc AND 0x3) + DSP_REG_ACL0;
          dreg = unat (drop_bit 2 opc AND 0x3)
      in Inr (writeToBackLog 0 (dreg + DSP_REG_AXL0) (acc_part sreg d) d))"

subsection \<open>Stores and loads\<close>

definition s_ext :: "UDSPInstruction \<Rightarrow> SDSP \<Rightarrow> dsp_result" where
  "s_ext opc d =
     (let dreg = opc_ar 0 opc;
          sreg = unat (drop_bit 3 opc AND 0x3) + DSP_REG_ACL0
      in and_then (dsp_dmem_write (g_ar dreg d) (acc_part sreg d) d)
           (\<lambda>d1. Inr (log_increment 0 dreg d1)))"

definition sn_ext :: "UDSPInstruction \<Rightarrow> SDSP \<Rightarrow> dsp_result" where
  "sn_ext opc d =
     (let dreg = opc_ar 0 opc;
          sreg = unat (drop_bit 3 opc AND 0x3) + DSP_REG_ACL0
      in and_then (dsp_dmem_write (g_ar dreg d) (acc_part sreg d) d)
           (\<lambda>d1. Inr (log_increase 0 dreg d1)))"

definition l_ext :: "UDSPInstruction \<Rightarrow> SDSP \<Rightarrow> dsp_result" where
  "l_ext opc d =
     (let sreg = opc_ar 0 opc;
          dreg = unat (drop_bit 3 opc AND 0x7) + DSP_REG_AXL0
      in if dreg \<ge> DSP_REG_ACM0 \<and> g_sr d AND SR_40_MODE_BIT \<noteq> 0 then
           and_then (dsp_dmem_read (g_ar sreg d) d) (\<lambda>(val, d1).
             let d2 = writeToBackLog 0 (dreg - DSP_REG_ACM0 + DSP_REG_ACH0)
                        (if val AND 0x8000 \<noteq> 0 then 0xFFFF else 0x0000) d1;
                 d3 = writeToBackLog 1 dreg val d2;
                 d4 = writeToBackLog 2 (dreg - DSP_REG_ACM0 + DSP_REG_ACL0) 0 d3
             in Inr (log_increment 3 sreg d4))
         else
           and_then (log_read 0 dreg (g_ar sreg d) d) (\<lambda>d1. Inr (log_increment 1 sreg d1)))"

definition ln_ext :: "UDSPInstruction \<Rightarrow> SDSP \<Rightarrow> dsp_result" where
  "ln_ext opc d =
     (let sreg = opc_ar 0 opc;
          dreg = unat (drop_bit 3 opc AND 0x7) + DSP_REG_AXL0
      in if dreg \<ge> DSP_REG_ACM0 \<and> g_sr d AND SR_40_MODE_BIT \<noteq> 0 then
           and_then (dsp_dmem_read (g_ar sreg d) d) (\<lambda>(val, d1).
             let d2 = writeToBackLog 0 (dreg - DSP_REG_ACM0 + DSP_REG_ACH0)
                        (if val AND 0x8000 \<noteq> 0 then 0xFFFF else 0x0000) d1;
                 d3 = writeToBackLog 1 dreg val d2;
                 d4 = writeToBackLog 2 (dreg - DSP_REG_ACM0 + DSP_REG_ACL0) 0 d3
             in Inr (log_increase 3 sreg d4))
         else
           and_then (log_read 0 dreg (g_ar sreg d) d) (\<lambda>d1. Inr (log_increase 1 sreg d1)))"

subsection \<open>A load and a store at once\<close>

text \<open>
  The lines the eight functions share: store the middle part of an accumulator
  through \<open>ar[w]\<close>, then load through \<open>ar[r]\<close>.
\<close>

definition store_then_load :: "2 word \<Rightarrow> 2 word \<Rightarrow> UDSPInstruction \<Rightarrow> SDSP \<Rightarrow> dsp_result" where
  "store_then_load w r opc d =
     (let sreg = opc_bit 0 opc;
          dreg = unat (drop_bit 4 opc AND 0x3) + DSP_REG_AXL0
      in and_then (dsp_dmem_write (g_ar w d) (dsp_op_read_reg_and_saturate sreg d) d)
           (\<lambda>d1. log_read 0 dreg (g_ar r d1) d1))"

definition ls_ext :: "UDSPInstruction \<Rightarrow> SDSP \<Rightarrow> dsp_result" where
  "ls_ext opc d =
     and_then (store_then_load 3 0 opc d) (\<lambda>d1. Inr (log_increment 2 0 (log_increment 1 3 d1)))"

definition lsn_ext :: "UDSPInstruction \<Rightarrow> SDSP \<Rightarrow> dsp_result" where
  "lsn_ext opc d =
     and_then (store_then_load 3 0 opc d) (\<lambda>d1. Inr (log_increase 2 0 (log_increment 1 3 d1)))"

definition lsm_ext :: "UDSPInstruction \<Rightarrow> SDSP \<Rightarrow> dsp_result" where
  "lsm_ext opc d =
     and_then (store_then_load 3 0 opc d) (\<lambda>d1. Inr (log_increment 2 0 (log_increase 1 3 d1)))"

definition lsnm_ext :: "UDSPInstruction \<Rightarrow> SDSP \<Rightarrow> dsp_result" where
  "lsnm_ext opc d =
     and_then (store_then_load 3 0 opc d) (\<lambda>d1. Inr (log_increase 2 0 (log_increase 1 3 d1)))"

definition sl_ext :: "UDSPInstruction \<Rightarrow> SDSP \<Rightarrow> dsp_result" where
  "sl_ext opc d =
     and_then (store_then_load 0 3 opc d) (\<lambda>d1. Inr (log_increment 2 0 (log_increment 1 3 d1)))"

definition sln_ext :: "UDSPInstruction \<Rightarrow> SDSP \<Rightarrow> dsp_result" where
  "sln_ext opc d =
     and_then (store_then_load 0 3 opc d) (\<lambda>d1. Inr (log_increase 2 0 (log_increment 1 3 d1)))"

definition slm_ext :: "UDSPInstruction \<Rightarrow> SDSP \<Rightarrow> dsp_result" where
  "slm_ext opc d =
     and_then (store_then_load 0 3 opc d) (\<lambda>d1. Inr (log_increment 2 0 (log_increase 1 3 d1)))"

definition slnm_ext :: "UDSPInstruction \<Rightarrow> SDSP \<Rightarrow> dsp_result" where
  "slnm_ext opc d =
     and_then (store_then_load 0 3 opc d) (\<lambda>d1. Inr (log_increase 2 0 (log_increase 1 3 d1)))"

subsection \<open>Two loads at once\<close>

text \<open>
  The lines the eight functions share: load register \<open>r0\<close> through \<open>ar[s]\<close> and register \<open>r1\<close>
  through \<open>ar[3]\<close>, or through \<open>ar[s]\<close> again when both point into the same page.
\<close>

definition load_pair :: "nat \<Rightarrow> nat \<Rightarrow> 2 word \<Rightarrow> SDSP \<Rightarrow> dsp_result" where
  "load_pair r0 r1 s d =
     and_then (log_read 0 r0 (g_ar s d) d) (\<lambda>d1.
       if IsSameMemArea (g_ar s d1) (g_ar 3 d1) then log_read 1 r1 (g_ar s d1) d1
       else log_read 1 r1 (g_ar 3 d1) d1)"

text \<open>The registers of the two forms: \<open>ax0\<close>/\<open>ax1\<close> parts for \<open>ld\<close>, one whole \<open>ax\<close> for \<open>ldax\<close>.\<close>

definition ld_pair :: "UDSPInstruction \<Rightarrow> SDSP \<Rightarrow> dsp_result" where
  "ld_pair opc d =
     (let dreg = unat (opc_bit 5 opc);
          rreg = unat (opc_bit 4 opc)
      in load_pair (dreg * 2 + DSP_REG_AXL0) (rreg * 2 + DSP_REG_AXL1) (opc_ar 0 opc) d)"

definition ldax_reg :: "UDSPInstruction \<Rightarrow> 2 word" where
  "ldax_reg opc = ucast (opc_bit 5 opc)"

definition ldax_pair :: "UDSPInstruction \<Rightarrow> SDSP \<Rightarrow> dsp_result" where
  "ldax_pair opc d =
     (let rreg = unat (opc_bit 4 opc)
      in load_pair (rreg + DSP_REG_AXH0) (rreg + DSP_REG_AXL0) (ldax_reg opc) d)"

definition ld_ext :: "UDSPInstruction \<Rightarrow> SDSP \<Rightarrow> dsp_result" where
  "ld_ext opc d =
     and_then (ld_pair opc d) (\<lambda>d1. Inr (log_increment 3 3 (log_increment 2 (opc_ar 0 opc) d1)))"

definition ldax_ext :: "UDSPInstruction \<Rightarrow> SDSP \<Rightarrow> dsp_result" where
  "ldax_ext opc d =
     and_then (ldax_pair opc d) (\<lambda>d1. Inr (log_increment 3 3 (log_increment 2 (ldax_reg opc) d1)))"

definition ldn_ext :: "UDSPInstruction \<Rightarrow> SDSP \<Rightarrow> dsp_result" where
  "ldn_ext opc d =
     and_then (ld_pair opc d) (\<lambda>d1. Inr (log_increment 3 3 (log_increase 2 (opc_ar 0 opc) d1)))"

definition ldaxn_ext :: "UDSPInstruction \<Rightarrow> SDSP \<Rightarrow> dsp_result" where
  "ldaxn_ext opc d =
     and_then (ldax_pair opc d) (\<lambda>d1. Inr (log_increment 3 3 (log_increase 2 (ldax_reg opc) d1)))"

definition ldm_ext :: "UDSPInstruction \<Rightarrow> SDSP \<Rightarrow> dsp_result" where
  "ldm_ext opc d =
     and_then (ld_pair opc d) (\<lambda>d1. Inr (log_increase 3 3 (log_increment 2 (opc_ar 0 opc) d1)))"

definition ldaxm_ext :: "UDSPInstruction \<Rightarrow> SDSP \<Rightarrow> dsp_result" where
  "ldaxm_ext opc d =
     and_then (ldax_pair opc d) (\<lambda>d1. Inr (log_increase 3 3 (log_increment 2 (ldax_reg opc) d1)))"

definition ldnm_ext :: "UDSPInstruction \<Rightarrow> SDSP \<Rightarrow> dsp_result" where
  "ldnm_ext opc d =
     and_then (ld_pair opc d) (\<lambda>d1. Inr (log_increase 3 3 (log_increase 2 (opc_ar 0 opc) d1)))"

definition ldaxnm_ext :: "UDSPInstruction \<Rightarrow> SDSP \<Rightarrow> dsp_result" where
  "ldaxnm_ext opc d =
     and_then (ldax_pair opc d) (\<lambda>d1. Inr (log_increase 3 3 (log_increase 2 (ldax_reg opc) d1)))"

subsection \<open>Applying the log\<close>

lemma dsp_op_write_reg_log [simp]:
  "g_writeBackLog (dsp_op_write_reg r v d) = g_writeBackLog d"
  "g_writeBackLogIdx (dsp_op_write_reg r v d) = g_writeBackLogIdx d"
  by (simp_all add: dsp_op_write_reg_def dsp_reg_store_stack_def dsp_reg_stack_push_def Let_def)

function apply_log_from :: "nat \<Rightarrow> SDSP \<Rightarrow> dsp_result" where
  "apply_log_from i d =
     (if i \<ge> length (g_writeBackLogIdx d) \<or> i \<ge> length (g_writeBackLog d) then Inl Out_Of_Bounds
      else if g_writeBackLogIdx d ! i = -1 then Inr d
      else
        (let value = g_writeBackLog d ! i;
             d1 = dsp_op_write_reg (nat (g_writeBackLogIdx d ! i)) value d
         in apply_log_from (i + 1) (d1\<lparr>g_writeBackLogIdx := (g_writeBackLogIdx d1)[i := -1]\<rparr>)))"
  by pat_completeness auto
termination
  by (relation "measure (\<lambda>(i, d). length (g_writeBackLogIdx d) - i)") auto

declare apply_log_from.simps [simp del]

definition applyWriteBackLog :: "SDSP \<Rightarrow> dsp_result" where
  "applyWriteBackLog d = apply_log_from 0 d"

subsection \<open>The log as a list of pending writes\<close>

text \<open>\<open>logged k d\<close>: the first \<open>k\<close> entries of the log are used, the others are free.\<close>

definition logged :: "nat \<Rightarrow> SDSP \<Rightarrow> bool" where
  "logged k d \<longleftrightarrow> length (g_writeBackLog d) = WRITEBACK_LOG_SIZE \<and> length (g_writeBackLogIdx d) = WRITEBACK_LOG_SIZE \<and>
     (\<forall>i < WRITEBACK_LOG_SIZE. if i < k then 0 \<le> g_writeBackLogIdx d ! i else g_writeBackLogIdx d ! i = -1)"

definition pending :: "SDSP \<Rightarrow> (nat \<times> u16) list" where
  "pending d = map (\<lambda>(i, v). (nat i, v)) (takeWhile (\<lambda>(i, v). i \<noteq> -1) (zip (g_writeBackLogIdx d) (g_writeBackLog d)))"

definition write_regs :: "(nat \<times> u16) list \<Rightarrow> SDSP \<Rightarrow> SDSP" where
  "write_regs ws = fold (\<lambda>(r, v). dsp_op_write_reg r v) ws"

lemma logged_write: "logged i d \<Longrightarrow> i < WRITEBACK_LOG_SIZE \<Longrightarrow> logged (Suc i) (writeToBackLog i r v d)"
  by (auto simp: logged_def writeToBackLog_def nth_list_update less_Suc_eq)

lemma logged_frame: "hw_frame d d' \<Longrightarrow> logged k d' = logged k d"
  by (simp add: logged_def hw_frame_def)

lemma logged_free: "logged 0 d \<longleftrightarrow> length (g_writeBackLog d) = WRITEBACK_LOG_SIZE \<and>
    g_writeBackLogIdx d = replicate WRITEBACK_LOG_SIZE (-1)"
  by (auto simp: logged_def list_eq_iff_nth_eq)

lemma takeWhile_split:
  assumes "k < length xs" and "\<And>i. i < k \<Longrightarrow> P (xs ! i)" and "\<not> P (xs ! k)"
  shows "takeWhile P xs = take k xs"
proof (rule takeWhile_eq_take_P_nth)
  show "P (xs ! i)" if "i < k" "i < length xs" for i using assms(2) that by simp
  show "k < length xs \<Longrightarrow> \<not> P (xs ! k)" by (rule assms(3))
qed

lemma pending_logged:
  assumes "logged k d" and "k < WRITEBACK_LOG_SIZE"
  shows "pending d = map (\<lambda>j. (nat (g_writeBackLogIdx d ! j), g_writeBackLog d ! j)) [0..<k]"
proof -
  let ?z = "zip (g_writeBackLogIdx d) (g_writeBackLog d)"
  from assms have l: "length (g_writeBackLogIdx d) = WRITEBACK_LOG_SIZE" "length (g_writeBackLog d) = WRITEBACK_LOG_SIZE"
    and e: "\<And>i. i < k \<Longrightarrow> 0 \<le> g_writeBackLogIdx d ! i" "g_writeBackLogIdx d ! k = -1"
    by (auto simp: logged_def dest: spec [of _ k])
  have "takeWhile (\<lambda>(i, v). i \<noteq> -1) ?z = take k ?z"
    by (rule takeWhile_split) (use l e assms(2) in \<open>force+\<close>)
  also have "\<dots> = map (\<lambda>j. (g_writeBackLogIdx d ! j, g_writeBackLog d ! j)) [0..<k]"
    using l assms(2) by (intro nth_equalityI) auto
  finally show ?thesis by (simp add: pending_def)
qed

lemma dsp_op_write_reg_idx:
  "dsp_op_write_reg r v (d\<lparr>g_writeBackLogIdx := x\<rparr>) = (dsp_op_write_reg r v d)\<lparr>g_writeBackLogIdx := x\<rparr>"
proof -
  have "s < 32 \<Longrightarrow> dsp_op_write_reg s v (d\<lparr>g_writeBackLogIdx := x\<rparr>) = (dsp_op_write_reg s v d)\<lparr>g_writeBackLogIdx := x\<rparr>" for s
    by (erule all_regs; simp add: dsp_op_write_reg_def dsp_reg_store_stack_def dsp_reg_stack_push_def Let_def)
  from this [of "r mod 32"] show ?thesis by (simp add: dsp_op_write_reg_def)
qed

lemma write_regs_idx: "write_regs ws (d\<lparr>g_writeBackLogIdx := x\<rparr>) = (write_regs ws d)\<lparr>g_writeBackLogIdx := x\<rparr>"
  by (induction ws arbitrary: d) (auto simp: write_regs_def dsp_op_write_reg_idx)

lemma write_regs_log [simp]: "g_writeBackLog (write_regs ws d) = g_writeBackLog d"
  "g_writeBackLogIdx (write_regs ws d) = g_writeBackLogIdx d"
  by (induction ws arbitrary: d) (auto simp: write_regs_def)

lemma apply_log_from_pending:
  assumes "length (g_writeBackLog d) = n" and "length (g_writeBackLogIdx d) = n" and "i \<le> k" and "k < n"
    and "\<forall>j. i \<le> j \<and> j < k \<longrightarrow> g_writeBackLogIdx d ! j \<noteq> -1" and "g_writeBackLogIdx d ! k = -1"
  shows "apply_log_from i d =
    Inr ((write_regs (map (\<lambda>j. (nat (g_writeBackLogIdx d ! j), g_writeBackLog d ! j)) [i..<k]) d)
      \<lparr>g_writeBackLogIdx := map (\<lambda>j. if i \<le> j \<and> j < k then -1 else g_writeBackLogIdx d ! j) [0..<n]\<rparr>)"
  using assms
proof (induction "k - i" arbitrary: i d)
  case 0
  then have "i = k" and "map (\<lambda>j. if i \<le> j \<and> j < k then -1 else g_writeBackLogIdx d ! j) [0..<n] = g_writeBackLogIdx d"
    by (auto intro: nth_equalityI)
  with 0 show ?case by (subst apply_log_from.simps) (simp add: write_regs_def)
next
  case (Suc m)
  let ?r = "nat (g_writeBackLogIdx d ! i)" and ?v = "g_writeBackLog d ! i"
  let ?d1 = "(dsp_op_write_reg ?r ?v d)\<lparr>g_writeBackLogIdx := (g_writeBackLogIdx d)[i := -1]\<rparr>"
  from Suc have ik: "i < k" by simp
  have c: "map (\<lambda>j. (nat ((g_writeBackLogIdx d)[i := -1] ! j), g_writeBackLog d ! j)) [Suc i..<k]
      = map (\<lambda>j. (nat (g_writeBackLogIdx d ! j), g_writeBackLog d ! j)) [Suc i..<k]"
    by (rule map_cong) auto
  have b: "map (\<lambda>j. if Suc i \<le> j \<and> j < k then -1 else (g_writeBackLogIdx d)[i := -1] ! j) [0..<n]
      = map (\<lambda>j. if i \<le> j \<and> j < k then -1 else g_writeBackLogIdx d ! j) [0..<n]"
    using ik Suc(4,6) by (intro map_cong) (auto simp: nth_list_update)
  have ih: "apply_log_from (Suc i) ?d1 =
    Inr ((write_regs (map (\<lambda>j. (nat (g_writeBackLogIdx ?d1 ! j), g_writeBackLog ?d1 ! j)) [Suc i..<k]) ?d1)
      \<lparr>g_writeBackLogIdx := map (\<lambda>j. if Suc i \<le> j \<and> j < k then -1 else g_writeBackLogIdx ?d1 ! j) [0..<n]\<rparr>)"
    by (rule Suc(1)) (use Suc(2-8) ik in auto)
  have log: "g_writeBackLogIdx ?d1 = (g_writeBackLogIdx d)[i := -1]" "g_writeBackLog ?d1 = g_writeBackLog d"
    by simp_all
  have "apply_log_from i d = apply_log_from (i + 1) ?d1"
    using Suc ik by (subst apply_log_from.simps) (simp add: Let_def)
  also have "\<dots> = Inr ((write_regs (map (\<lambda>j. (nat (g_writeBackLogIdx d ! j), g_writeBackLog d ! j)) [Suc i..<k]) ?d1)
      \<lparr>g_writeBackLogIdx := map (\<lambda>j. if i \<le> j \<and> j < k then -1 else g_writeBackLogIdx d ! j) [0..<n]\<rparr>)"
    unfolding Suc_eq_plus1 [symmetric] ih log c b ..
  also have "\<dots> = Inr ((write_regs (map (\<lambda>j. (nat (g_writeBackLogIdx d ! j), g_writeBackLog d ! j)) [i..<k]) d)
      \<lparr>g_writeBackLogIdx := map (\<lambda>j. if i \<le> j \<and> j < k then -1 else g_writeBackLogIdx d ! j) [0..<n]\<rparr>)"
    using ik by (simp add: write_regs_idx upt_conv_Cons) (simp add: write_regs_def)
  finally show ?case .
qed

lemma applyWriteBackLog_pending:
  assumes "logged k d" and "k < WRITEBACK_LOG_SIZE"
  shows "applyWriteBackLog d =
    Inr ((write_regs (pending d) d)\<lparr>g_writeBackLogIdx := replicate WRITEBACK_LOG_SIZE (-1)\<rparr>)"
proof -
  have "map (\<lambda>j. if 0 \<le> j \<and> j < k then -1 else g_writeBackLogIdx d ! j) [0..<WRITEBACK_LOG_SIZE]
      = replicate WRITEBACK_LOG_SIZE (-1)"
    using assms by (intro nth_equalityI) (auto simp: logged_def)
  moreover have "g_writeBackLogIdx d ! j \<noteq> -1" if "j < k" for j
    using assms that by (auto simp: logged_def dest!: spec [of _ j])
  ultimately show ?thesis
    using apply_log_from_pending [of d WRITEBACK_LOG_SIZE 0 k] assms
    by (simp add: applyWriteBackLog_def pending_logged) (simp add: logged_def)
qed

subsection \<open>What an extended opcode does\<close>

lemmas ext_op_defs = nop_ext_def dr_ext_def ir_ext_def nr_ext_def mv_ext_def s_ext_def
  sn_ext_def l_ext_def ln_ext_def ls_ext_def lsn_ext_def lsm_ext_def lsnm_ext_def sl_ext_def
  sln_ext_def slm_ext_def slnm_ext_def ld_ext_def ldax_ext_def ldn_ext_def ldaxn_ext_def
  ldm_ext_def ldaxm_ext_def ldnm_ext_def ldaxnm_ext_def

text \<open>
  \<open>ext_frame k d d'\<close>: \<open>d'\<close> has \<open>k\<close> entries in the log and differs from \<open>d\<close> otherwise only as
  data memory accesses may make it.
\<close>

definition ext_frame :: "nat \<Rightarrow> SDSP \<Rightarrow> SDSP \<Rightarrow> bool" where
  "ext_frame k d d' \<longleftrightarrow> logged k d' \<and>
     hw_frame d (d'\<lparr>g_writeBackLog := g_writeBackLog d, g_writeBackLogIdx := g_writeBackLogIdx d\<rparr>)"

lemma ext_frame_start: "logged 0 d \<Longrightarrow> ext_frame 0 d d"
  by (simp add: ext_frame_def)

lemma ext_frame_write:
  "ext_frame i d e \<Longrightarrow> i < WRITEBACK_LOG_SIZE \<Longrightarrow> ext_frame (Suc i) d (writeToBackLog i r v e)"
  by (auto simp: ext_frame_def logged_write) (simp add: writeToBackLog_def)

lemma ext_frame_hw: "ext_frame i d e \<Longrightarrow> hw_frame e e' \<Longrightarrow> ext_frame i d e'"
  by (auto simp: ext_frame_def logged_frame) (auto simp: hw_frame_def)

lemma ext_frame_read:
  "ext_frame i d e \<Longrightarrow> log_read i r a e = Inr e' \<Longrightarrow> i < WRITEBACK_LOG_SIZE \<Longrightarrow> ext_frame (Suc i) d e'"
  by (auto simp: log_read_def and_then_eq_Inr_conv dest: dsp_dmem_read_frame intro: ext_frame_hw ext_frame_write)

lemma ext_frame_step:
  "ext_frame i d e \<Longrightarrow> i < WRITEBACK_LOG_SIZE \<Longrightarrow> ext_frame (Suc i) d (log_increment i a e)"
  "ext_frame i d e \<Longrightarrow> i < WRITEBACK_LOG_SIZE \<Longrightarrow> ext_frame (Suc i) d (log_decrement i a e)"
  "ext_frame i d e \<Longrightarrow> i < WRITEBACK_LOG_SIZE \<Longrightarrow> ext_frame (Suc i) d (log_increase i a e)"
  by (simp_all add: log_increment_def log_decrement_def log_increase_def ext_frame_write)

lemma ext_frame_store_then_load:
  "store_then_load w r opc d = Inr e \<Longrightarrow> logged 0 d \<Longrightarrow> ext_frame 1 d e"
  by (auto simp: store_then_load_def Let_def and_then_eq_Inr_conv WRITEBACK_LOG_SIZE_def
      dest!: dsp_dmem_write_frame ext_frame_start intro: ext_frame_read [where i = 0] ext_frame_hw)

lemma ext_frame_read_two:
  "ext_frame 0 d e \<Longrightarrow> log_read 0 r a e = Inr e1 \<Longrightarrow> log_read 1 r' a' e1 = Inr e2 \<Longrightarrow> ext_frame 2 d e2"
  using ext_frame_read [OF ext_frame_read, of 0 d e r a e1 r' a' e2]
  by (simp add: WRITEBACK_LOG_SIZE_def numeral_2_eq_2)

lemma ext_frame_load_pair:
  "load_pair r0 r1 s d = Inr e \<Longrightarrow> logged 0 d \<Longrightarrow> ext_frame 2 d e"
  unfolding load_pair_def and_then_eq_Inr_conv
  by (auto split: if_splits dest!: ext_frame_start dest: ext_frame_read_two)

text \<open>Every extended opcode fills the log from its first entry on and leaves the last one free.\<close>

lemma ext_frame_next:
  "ext_frame i d e \<Longrightarrow> j = Suc i \<Longrightarrow> i < WRITEBACK_LOG_SIZE \<Longrightarrow> ext_frame j d (writeToBackLog i r v e)"
  "ext_frame i d e \<Longrightarrow> j = Suc i \<Longrightarrow> i < WRITEBACK_LOG_SIZE \<Longrightarrow> ext_frame j d (log_increment i a e)"
  "ext_frame i d e \<Longrightarrow> j = Suc i \<Longrightarrow> i < WRITEBACK_LOG_SIZE \<Longrightarrow> ext_frame j d (log_decrement i a e)"
  "ext_frame i d e \<Longrightarrow> j = Suc i \<Longrightarrow> i < WRITEBACK_LOG_SIZE \<Longrightarrow> ext_frame j d (log_increase i a e)"
  by (simp_all add: ext_frame_write ext_frame_step)

lemma ext_frame_one:
  "logged 0 d \<Longrightarrow> dr_ext opc d = Inr e \<Longrightarrow> ext_frame 1 d e" "logged 0 d \<Longrightarrow> ir_ext opc d = Inr e \<Longrightarrow> ext_frame 1 d e"
  "logged 0 d \<Longrightarrow> nr_ext opc d = Inr e \<Longrightarrow> ext_frame 1 d e" "logged 0 d \<Longrightarrow> mv_ext opc d = Inr e \<Longrightarrow> ext_frame 1 d e"
  "logged 0 d \<Longrightarrow> nop_ext opc d = Inr e \<Longrightarrow> ext_frame 0 d e"
  by (auto simp: ext_op_defs Let_def WRITEBACK_LOG_SIZE_def intro!: ext_frame_next ext_frame_start)

lemma ext_frame_stores:
  "logged 0 d \<Longrightarrow> s_ext opc d = Inr e \<Longrightarrow> ext_frame 1 d e" "logged 0 d \<Longrightarrow> sn_ext opc d = Inr e \<Longrightarrow> ext_frame 1 d e"
  by (auto simp: ext_op_defs Let_def and_then_eq_Inr_conv WRITEBACK_LOG_SIZE_def
      dest!: dsp_dmem_write_frame ext_frame_start intro!: ext_frame_next intro: ext_frame_hw)

lemma ext_frame_dmem_read: "logged 0 d \<Longrightarrow> dsp_dmem_read a d = Inr (v, e) \<Longrightarrow> ext_frame 0 d e"
  using ext_frame_hw [OF ext_frame_start dsp_dmem_read_frame] .

lemma ext_frame_loads:
  assumes "logged 0 d" and "l_ext opc d = Inr e \<or> ln_ext opc d = Inr e"
  shows "ext_frame 2 d e \<or> ext_frame 4 d e"
proof (cases "unat (drop_bit 3 opc AND 0x7) + DSP_REG_AXL0 \<ge> DSP_REG_ACM0 \<and> g_sr d AND SR_40_MODE_BIT \<noteq> 0")
  case True
  with assms(2) have "ext_frame 4 d e"
    unfolding l_ext_def ln_ext_def Let_def if_P [OF True]
    by (auto simp: and_then_eq_Inr_conv WRITEBACK_LOG_SIZE_def
        intro!: ext_frame_next dest: ext_frame_dmem_read [OF assms(1)])
  then show ?thesis ..
next
  case False
  with assms(2) have "ext_frame 2 d e"
    unfolding l_ext_def ln_ext_def Let_def if_not_P [OF False] log_read_def
    by (auto simp: and_then_eq_Inr_conv WRITEBACK_LOG_SIZE_def
        intro!: ext_frame_next dest: ext_frame_dmem_read [OF assms(1)])
  then show ?thesis ..
qed

lemma ext_frame_load_store:
  assumes "logged 0 d"
  shows "ls_ext opc d = Inr e \<Longrightarrow> ext_frame 3 d e" "lsn_ext opc d = Inr e \<Longrightarrow> ext_frame 3 d e"
    "lsm_ext opc d = Inr e \<Longrightarrow> ext_frame 3 d e" "lsnm_ext opc d = Inr e \<Longrightarrow> ext_frame 3 d e"
    "sl_ext opc d = Inr e \<Longrightarrow> ext_frame 3 d e" "sln_ext opc d = Inr e \<Longrightarrow> ext_frame 3 d e"
    "slm_ext opc d = Inr e \<Longrightarrow> ext_frame 3 d e" "slnm_ext opc d = Inr e \<Longrightarrow> ext_frame 3 d e"
  by (auto simp: ext_op_defs and_then_eq_Inr_conv WRITEBACK_LOG_SIZE_def
      intro!: ext_frame_next dest: ext_frame_store_then_load [OF _ assms])

lemma ext_frame_load_two:
  assumes "logged 0 d"
  shows "ld_ext opc d = Inr e \<Longrightarrow> ext_frame 4 d e" "ldax_ext opc d = Inr e \<Longrightarrow> ext_frame 4 d e"
    "ldn_ext opc d = Inr e \<Longrightarrow> ext_frame 4 d e" "ldaxn_ext opc d = Inr e \<Longrightarrow> ext_frame 4 d e"
    "ldm_ext opc d = Inr e \<Longrightarrow> ext_frame 4 d e" "ldaxm_ext opc d = Inr e \<Longrightarrow> ext_frame 4 d e"
    "ldnm_ext opc d = Inr e \<Longrightarrow> ext_frame 4 d e" "ldaxnm_ext opc d = Inr e \<Longrightarrow> ext_frame 4 d e"
  by (auto simp: ext_op_defs ld_pair_def ldax_pair_def Let_def and_then_eq_Inr_conv WRITEBACK_LOG_SIZE_def
      intro!: ext_frame_next dest: ext_frame_load_pair [OF _ assms])

end
