(* ===== verification/DSP_Dispatch.thy ===== *)
theory DSP_Dispatch
  imports DSP_ExtOps
begin

text \<open>
  Dispatch of an instruction through the opcode tables (\<open>ExecuteInstruction\<close> of
  \<^verbatim>\<open>Core/DSP/Interpreter/DSPInterpreter.cpp\<close>) and what every instruction leaves alone:
  an instruction other than a load or store changes registers and stacks only, and an
  extended opcode reaches the registers through the write-back log only. From that
  follows what an instruction with an extended opcode does.
\<close>

unbundle bit_operations_syntax

subsection \<open>Dispatch\<close>

text \<open>The function pointers of the opcode table, by name.\<close>

primrec arith_fun :: "arith_func \<Rightarrow> UDSPInstruction \<Rightarrow> SDSP \<Rightarrow> SDSP" where
  "arith_fun I_lsl = lsl_op"
| "arith_fun I_lsr = lsr_op"
| "arith_fun I_asl = asl_op"
| "arith_fun I_asr = asr_op"
| "arith_fun I_lsrn = lsrn_op"
| "arith_fun I_asrn = asrn_op"
| "arith_fun I_addis = addis_op"
| "arith_fun I_cmpis = cmpis_op"
| "arith_fun I_addi = addi_op"
| "arith_fun I_xori = xori_op"
| "arith_fun I_andi = andi_op"
| "arith_fun I_ori = ori_op"
| "arith_fun I_cmpi = cmpi_op"
| "arith_fun I_andf = andf_op"
| "arith_fun I_andcf = andcf_op"
| "arith_fun I_xorr = xorr_op"
| "arith_fun I_andr = andr_op"
| "arith_fun I_orr = orr_op"
| "arith_fun I_andc = andc_op"
| "arith_fun I_orc = orc_op"
| "arith_fun I_xorc = xorc_op"
| "arith_fun I_notc = notc_op"
| "arith_fun I_lsrnrx = lsrnrx_op"
| "arith_fun I_asrnrx = asrnrx_op"
| "arith_fun I_lsrnr = lsrnr_op"
| "arith_fun I_asrnr = asrnr_op"
| "arith_fun I_addr = addr_op"
| "arith_fun I_addax = addax_op"
| "arith_fun I_add = add_op"
| "arith_fun I_addp = addp_op"
| "arith_fun I_subr = subr_op"
| "arith_fun I_subax = subax_op"
| "arith_fun I_sub = sub_op"
| "arith_fun I_subp = subp_op"
| "arith_fun I_movr = movr_op"
| "arith_fun I_movax = movax_op"
| "arith_fun I_mov = mov_op"
| "arith_fun I_addaxl = addaxl_op"
| "arith_fun I_incm = incm_op"
| "arith_fun I_inc = inc_op"
| "arith_fun I_decm = decm_op"
| "arith_fun I_dec = dec_op"
| "arith_fun I_neg = neg_op"
| "arith_fun I_clr = clr_op"
| "arith_fun I_cmp = cmp_op"
| "arith_fun I_tstaxh = tstaxh_op"
| "arith_fun I_asr16 = asr16_op"
| "arith_fun I_abs = abs_op"
| "arith_fun I_tst = tst_op"
| "arith_fun I_cmpar = cmpar_op"
| "arith_fun I_lsl16 = lsl16_op"
| "arith_fun I_lsr16 = lsr16_op"
| "arith_fun I_clrl = clrl_op"

primrec mult_fun :: "mult_func \<Rightarrow> UDSPInstruction \<Rightarrow> SDSP \<Rightarrow> SDSP" where
  "mult_fun I_movp = movp_op"
| "mult_fun I_movnp = movnp_op"
| "mult_fun I_mulaxh = mulaxh_op"
| "mult_fun I_clrp = clrp_op"
| "mult_fun I_tstprod = tstprod_op"
| "mult_fun I_mul = mul_op"
| "mult_fun I_mulmvz = mulmvz_op"
| "mult_fun I_mulac = mulac_op"
| "mult_fun I_mulmv = mulmv_op"
| "mult_fun I_mulx = mulx_op"
| "mult_fun I_mulxmvz = mulxmvz_op"
| "mult_fun I_mulxac = mulxac_op"
| "mult_fun I_mulxmv = mulxmv_op"
| "mult_fun I_mulc = mulc_op"
| "mult_fun I_mulcmvz = mulcmvz_op"
| "mult_fun I_mulcac = mulcac_op"
| "mult_fun I_mulcmv = mulcmv_op"
| "mult_fun I_maddx = maddx_op"
| "mult_fun I_msubx = msubx_op"
| "mult_fun I_maddc = maddc_op"
| "mult_fun I_msubc = msubc_op"
| "mult_fun I_madd = madd_op"
| "mult_fun I_msub = msub_op"
| "mult_fun I_addpaxz = addpaxz_op"
| "mult_fun I_movpz = movpz_op"

primrec misc_fun :: "misc_func \<Rightarrow> UDSPInstruction \<Rightarrow> SDSP \<Rightarrow> SDSP" where
  "misc_fun I_nop = nop_op"
| "misc_fun I_dar = dar_op"
| "misc_fun I_iar = iar_op"
| "misc_fun I_subarn = subarn_op"
| "misc_fun I_addarn = addarn_op"
| "misc_fun I_sbclr = sbclr_op"
| "misc_fun I_sbset = sbset_op"
| "misc_fun I_lri = lri_op"
| "misc_fun I_mrr = mrr_op"
| "misc_fun I_lris = lris_op"
| "misc_fun I_nx = nx_op"
| "misc_fun I_srbith = srbith_op"

primrec branch_fun :: "branch_func \<Rightarrow> UDSPInstruction \<Rightarrow> SDSP \<Rightarrow> SDSP" where
  "branch_fun I_halt = halt_op"
| "branch_fun I_ret = ret_op"
| "branch_fun I_rti = rti_op"
| "branch_fun I_call = call_op"
| "branch_fun I_ifcc = ifcc_op"
| "branch_fun I_jcc = jcc_op"
| "branch_fun I_jmprcc = jmprcc_op"
| "branch_fun I_callr = callr_op"
| "branch_fun I_loop = loop_op"
| "branch_fun I_bloop = bloop_op"
| "branch_fun I_loopi = loopi_op"
| "branch_fun I_bloopi = bloopi_op"

primrec ls_fun :: "ls_func \<Rightarrow> UDSPInstruction \<Rightarrow> SDSP \<Rightarrow> dsp_result" where
  "ls_fun I_lr = lr_op"
| "ls_fun I_sr = sr_op"
| "ls_fun I_si = si_op"
| "ls_fun I_ilrr = (\<lambda>opc d. Inr (ilrr_op opc d))"
| "ls_fun I_ilrrd = (\<lambda>opc d. Inr (ilrrd_op opc d))"
| "ls_fun I_ilrri = (\<lambda>opc d. Inr (ilrri_op opc d))"
| "ls_fun I_ilrrn = (\<lambda>opc d. Inr (ilrrn_op opc d))"
| "ls_fun I_lrr = lrr_op"
| "ls_fun I_lrrd = lrrd_op"
| "ls_fun I_lrri = lrri_op"
| "ls_fun I_lrrn = lrrn_op"
| "ls_fun I_srr = srr_op"
| "ls_fun I_srrd = srrd_op"
| "ls_fun I_srri = srri_op"
| "ls_fun I_srrn = srrn_op"
| "ls_fun I_lrs = lrs_op"
| "ls_fun I_srs = srs_op"

primrec ext_fun :: "ext_func \<Rightarrow> UDSPInstruction \<Rightarrow> SDSP \<Rightarrow> dsp_result" where
  "ext_fun E_nop = nop_ext"
| "ext_fun E_dr = dr_ext"
| "ext_fun E_ir = ir_ext"
| "ext_fun E_nr = nr_ext"
| "ext_fun E_mv = mv_ext"
| "ext_fun E_s = s_ext"
| "ext_fun E_sn = sn_ext"
| "ext_fun E_l = l_ext"
| "ext_fun E_ln = ln_ext"
| "ext_fun E_ls = ls_ext"
| "ext_fun E_sl = sl_ext"
| "ext_fun E_lsn = lsn_ext"
| "ext_fun E_sln = sln_ext"
| "ext_fun E_lsm = lsm_ext"
| "ext_fun E_slm = slm_ext"
| "ext_fun E_lsnm = lsnm_ext"
| "ext_fun E_slnm = slnm_ext"
| "ext_fun E_ldax = ldax_ext"
| "ext_fun E_ldaxn = ldaxn_ext"
| "ext_fun E_ldaxm = ldaxm_ext"
| "ext_fun E_ldaxnm = ldaxnm_ext"
| "ext_fun E_ld = ld_ext"
| "ext_fun E_ldn = ldn_ext"
| "ext_fun E_ldm = ldm_ext"
| "ext_fun E_ldnm = ldnm_ext"

primrec intFunc :: "int_func \<Rightarrow> UDSPInstruction \<Rightarrow> SDSP \<Rightarrow> dsp_result" where
  "intFunc (F_arith f) = (\<lambda>opc d. Inr (arith_fun f opc d))"
| "intFunc (F_mult f) = (\<lambda>opc d. Inr (mult_fun f opc d))"
| "intFunc (F_ls f) = ls_fun f"
| "intFunc (F_misc f) = (\<lambda>opc d. Inr (misc_fun f opc d))"
| "intFunc (F_branch f) = (\<lambda>opc d. Inr (branch_fun f opc d))"
| "intFunc (F_ext f) = ext_fun f"

definition ExecuteInstruction :: "UDSPInstruction \<Rightarrow> SDSP \<Rightarrow> dsp_result" where
  "ExecuteInstruction inst d =
     (let opcode_template = GetOpTemplate inst in
      and_then (if op_extended opcode_template then intFunc (op_intFunc (GetExtOpTemplate inst)) inst d
                else Inr d) (\<lambda>d1.
      and_then (intFunc (op_intFunc opcode_template) inst d1) (\<lambda>d2.
        if op_extended opcode_template then applyWriteBackLog d2 else Inr d2)))"

subsection \<open>What instructions leave alone\<close>

lemmas arith_op_defs = clr_op_def clrl_op_def andcf_op_def andf_op_def tst_op_def tstaxh_op_def
  cmp_op_def cmpar_op_def cmpi_op_def cmpis_op_def xorr_op_def andr_op_def orr_op_def
  andc_op_def orc_op_def xorc_op_def notc_op_def xori_op_def andi_op_def ori_op_def addr_op_def
  addax_op_def add_op_def addp_op_def addaxl_op_def addi_op_def addis_op_def incm_op_def
  inc_op_def subr_op_def subax_op_def sub_op_def subp_op_def decm_op_def dec_op_def neg_op_def
  abs_op_def movr_op_def movax_op_def mov_op_def lsl16_op_def lsr16_op_def asr16_op_def
  lsl_op_def lsr_op_def asl_op_def asr_op_def lsrn_op_def asrn_op_def lsrnrx_op_def
  asrnrx_op_def lsrnr_op_def asrnr_op_def

lemmas mult_op_defs = clrp_op_def tstprod_op_def movp_op_def movnp_op_def movpz_op_def
  addpaxz_op_def mulaxh_op_def mul_op_def mulac_op_def mulmv_op_def mulmvz_op_def mulx_op_def
  mulxac_op_def mulxmv_op_def mulxmvz_op_def mulc_op_def mulcac_op_def mulcmv_op_def
  mulcmvz_op_def maddx_op_def msubx_op_def maddc_op_def msubc_op_def madd_op_def msub_op_def

lemmas misc_op_defs = mrr_op_def lri_op_def lris_op_def nx_op_def nop_op_def dar_op_def
  iar_op_def subarn_op_def addarn_op_def sbclr_op_def sbset_op_def srbith_op_def

lemmas branch_op_defs = call_op_def callr_op_def ifcc_op_def jcc_op_def jmprcc_op_def
  ret_op_def rti_op_def halt_op_def loop_op_def loopi_op_def bloop_op_def bloopi_op_def


text \<open>The state without the registers, the program counter, the control register and the stacks.\<close>

definition outside :: "SDSP \<Rightarrow> SDSP" where
  "outside d = d\<lparr>g_r := regs_zero, g_pc := 0, g_cr := 0, g_reg_stack := (\<lambda>_ _. 0), g_reg_stack_ptr := (\<lambda>_. 0)\<rparr>"

definition op_frame :: "SDSP \<Rightarrow> SDSP \<Rightarrow> bool" where
  "op_frame d d' \<longleftrightarrow> outside d' = outside d \<and> (stack_ptr_ok d \<longrightarrow> stack_ptr_ok d')"

lemma outside_update [simp]: "outside (g_r_update f d) = outside d" "outside (g_pc_update p d) = outside d"
  "outside (g_cr_update c d) = outside d"
  by (simp_all add: outside_def)

lemma stack_ptr_ok_update [simp]: "stack_ptr_ok (g_r_update f d) = stack_ptr_ok d"
  "stack_ptr_ok (g_pc_update p d) = stack_ptr_ok d" "stack_ptr_ok (g_cr_update c d) = stack_ptr_ok d"
  by (simp_all add: stack_ptr_ok_def)

lemma outside_stack [simp]: "outside (dsp_reg_store_stack i v d) = outside d"
  "outside (snd (dsp_reg_load_stack i d)) = outside d"
  by (simp_all add: outside_def dsp_reg_store_stack_def dsp_reg_stack_push_def dsp_reg_load_stack_def
      dsp_reg_stack_pop_def Let_def)

lemma op_frame_refl [simp]: "op_frame d d"
  by (simp add: op_frame_def)

lemma op_frame_trans [trans]: "op_frame a b \<Longrightarrow> op_frame b c \<Longrightarrow> op_frame a c"
  by (simp add: op_frame_def)

lemma op_frame_update [simp]: "op_frame d (g_r_update f e) = op_frame d e"
  "op_frame d (g_pc_update p e) = op_frame d e" "op_frame d (g_cr_update c e) = op_frame d e"
  by (simp_all add: op_frame_def)

lemma op_frame_stack [simp]: "op_frame d e \<Longrightarrow> op_frame d (dsp_reg_store_stack i v e)"
  "op_frame d e \<Longrightarrow> op_frame d (snd (dsp_reg_load_stack i e))"
  by (simp_all add: op_frame_def)

lemma op_frame_registers [simp]:
  "op_frame d (Update_SR_Register64 x c v e) = op_frame d e"
  "op_frame d (Update_SR_Register16 y c v s e) = op_frame d e"
  "op_frame d (Update_SR_LZ z e) = op_frame d e"
  "op_frame d (dsp_set_long_acc i x e) = op_frame d e"
  "op_frame d (dsp_set_long_prod x e) = op_frame d e"
  "op_frame d (dsp_conditional_extend_accum r e) = op_frame d e"
  "op_frame d (snd (dsp_fetch_code e)) = op_frame d e"
  "op_frame d (dsp_skip_inst e) = op_frame d e"
  by (simp_all add: Update_SR_Register64_def Update_SR_Register16_def Update_SR_LZ_def dsp_set_long_acc_def
      dsp_set_long_prod_def dsp_conditional_extend_accum_def dsp_fetch_code_def dsp_skip_inst_def Let_def)

lemma op_frame_write_reg [simp]: "op_frame d e \<Longrightarrow> op_frame d (dsp_op_write_reg r v e)"
  by (simp add: dsp_op_write_reg_def Let_def)

lemma op_frame_read_reg [simp]: "op_frame d e \<Longrightarrow> op_frame d (snd (dsp_op_read_reg r e))"
  by (simp add: dsp_op_read_reg_def Let_def)

lemma op_frame_acc [simp]:
  "op_frame d (add_to_acc i x e) = op_frame d e" "op_frame d (sub_from_acc i x e) = op_frame d e"
  "op_frame d (compare_acc y x e) = op_frame d e" "op_frame d (put_acc_m i a e) = op_frame d e"
  "op_frame d (put_acc i x e) = op_frame d e" "op_frame d (put_prod_acc p i x e) = op_frame d e"
  by (simp_all add: add_to_acc_def sub_from_acc_def compare_acc_def put_acc_m_def put_acc_def put_prod_acc_def Let_def)

lemma op_frame_arith: "op_frame d (arith_fun f opc d)"
  by (cases f) (simp_all add: arith_op_defs dsp_fetch_code_def Let_def)

lemma op_frame_mult: "op_frame d (mult_fun f opc d)"
  by (cases f) (simp_all add: mult_op_defs Let_def)

lemma op_frame_reg_pair:
  "op_frame d (snd (read_reg_saturated r d))" "op_frame d e \<Longrightarrow> op_frame d (write_reg_extend r v e)"
  by (simp_all add: read_reg_saturated_def write_reg_extend_def)

lemma op_frame_misc: "op_frame d (misc_fun f opc d)"
  by (cases f) (simp_all add: misc_op_defs dsp_fetch_code_def op_frame_reg_pair Let_def split_beta)

lemma op_frame_push_loop [simp]: "op_frame d e \<Longrightarrow> op_frame d (push_loop l c e)"
  by (simp add: push_loop_def)

lemma op_frame_branch: "op_frame d (branch_fun f opc d)"
  by (cases f) (simp_all add: branch_op_defs Let_def split_beta)

lemma op_frame_HandleLoop: "op_frame d (HandleLoop d)"
  by (simp add: HandleLoop_def Let_def)

subsection \<open>What loads and stores keep\<close>

text \<open>
  \<open>keeps d d'\<close>: the write-back log and the core state are unchanged, and each condition the
  emulation maintains holds of \<open>d'\<close> when it holds of \<open>d\<close>.
\<close>

definition keeps :: "SDSP \<Rightarrow> SDSP \<Rightarrow> bool" where
  "keeps d d' \<longleftrightarrow> g_writeBackLog d' = g_writeBackLog d \<and> g_writeBackLogIdx d' = g_writeBackLogIdx d \<and>
     g_core_state d' = g_core_state d \<and> g_irom d' = g_irom d \<and> g_coef d' = g_coef d \<and>
     (stack_ptr_ok d \<longrightarrow> stack_ptr_ok d') \<and> (acc_ok (g_accelerator d) \<longrightarrow> acc_ok (g_accelerator d')) \<and>
     (analysed d \<longrightarrow> analysed d')"

lemma keeps_refl [simp]: "keeps d d"
  by (simp add: keeps_def)

lemma keeps_trans [trans]: "keeps a b \<Longrightarrow> keeps b c \<Longrightarrow> keeps a c"
  by (auto simp: keeps_def)

lemma outside_fields: "outside d' = outside d \<Longrightarrow> g_writeBackLog d' = g_writeBackLog d \<and>
    g_writeBackLogIdx d' = g_writeBackLogIdx d \<and> g_core_state d' = g_core_state d \<and> g_irom d' = g_irom d \<and>
    g_coef d' = g_coef d \<and> g_accelerator d' = g_accelerator d \<and> g_iram d' = g_iram d \<and>
    g_code_flags d' = g_code_flags d"
  by (cases d, cases d') (simp add: outside_def)

lemma op_frame_keeps: "op_frame d d' \<Longrightarrow> keeps d d'"
  by (auto simp: op_frame_def keeps_def dest!: outside_fields)

lemma hw_frame_keeps: "hw_frame d d' \<Longrightarrow> keeps d d'"
  by (auto simp: hw_frame_def keeps_def stack_ptr_ok_def)

lemma keeps_update [simp]: "keeps d (g_r_update f e) = keeps d e" "keeps d (g_pc_update p e) = keeps d e"
  "keeps d (g_cr_update c e) = keeps d e" "keeps (g_pc_update p d) e = keeps d e"
  by (simp_all add: keeps_def)

lemma keeps_load_reg: "load_reg a r d = Inr d' \<Longrightarrow> keeps d d'"
  by (auto simp: load_reg_def and_then_eq_Inr_conv dest!: dsp_dmem_read_frame hw_frame_keeps
      intro: keeps_trans op_frame_keeps op_frame_reg_pair(2) [OF op_frame_refl])

lemma keeps_store_reg: "store_reg a r d = Inr d' \<Longrightarrow> keeps d d'"
  by (auto simp: store_reg_def split_beta dest!: dsp_dmem_write_frame hw_frame_keeps
      intro: keeps_trans [OF op_frame_keeps [OF op_frame_reg_pair(1)]])

lemma keeps_read_reg: "dsp_op_read_reg r d = (v, e) \<Longrightarrow> keeps e d' \<Longrightarrow> keeps d d'"
  using op_frame_keeps [OF op_frame_read_reg [OF op_frame_refl, of d r]] keeps_trans by fastforce

lemmas ls_op_defs = srs_op_def lrs_op_def lr_op_def sr_op_def si_op_def lrr_op_def lrrd_op_def
  lrri_op_def lrrn_op_def srr_op_def srrd_op_def srri_op_def srrn_op_def ilrr_op_def
  ilrrd_op_def ilrri_op_def ilrrn_op_def

lemma keeps_ls: "ls_fun f opc d = Inr d' \<Longrightarrow> keeps d d'"
  by (cases f) (auto simp: ls_op_defs Let_def dsp_fetch_code_def and_then_eq_Inr_conv op_frame_keeps
      dest!: keeps_load_reg keeps_store_reg dsp_dmem_write_frame hw_frame_keeps split: prod.splits
      intro: keeps_read_reg)

lemma keeps_main:
  "\<not> ext_func_ok t \<Longrightarrow> intFunc (op_intFunc t) opc d = Inr d' \<Longrightarrow> keeps d d'"
  by (cases "op_intFunc t") (auto simp: ext_func_ok_def op_frame_arith op_frame_mult op_frame_misc
      op_frame_branch keeps_ls intro!: op_frame_keeps)

lemma main_not_ext: "\<not> ext_func_ok (GetOpTemplate w)"
  using s_opcodes_no_ext
  by (cases w rule: s_op_table_cases) (auto simp: GetOpTemplate_def list_all_iff cw_def ext_func_ok_def)

lemma ext_fun_frame:
  assumes "logged 0 d" and "ext_fun f opc d = Inr d'"
  obtains k where "k < WRITEBACK_LOG_SIZE" and "ext_frame k d d'"
proof -
  note l = assms(1)
  have "ext_frame 0 d d' \<or> ext_frame 1 d d' \<or> ext_frame 2 d d' \<or> ext_frame 3 d d' \<or> ext_frame 4 d d'"
    using assms(2) ext_frame_loads [OF l]
    by (cases f) (auto dest: ext_frame_one [OF l] ext_frame_stores [OF l] ext_frame_load_store [OF l] ext_frame_load_two [OF l])
  then show ?thesis
    using that [of 0] that [of 1] that [of 2] that [of 3] that [of 4] by (auto simp: WRITEBACK_LOG_SIZE_def)
qed

lemma ext_template_frame:
  assumes "logged 0 d" and "intFunc (op_intFunc (GetExtOpTemplate w)) opc d = Inr d'"
  obtains k where "k < WRITEBACK_LOG_SIZE" and "ext_frame k d d'"
proof -
  have "ext_func_ok (GetExtOpTemplate w)"
    using s_opcodes_ext_ext s_ext_op_table_in by (auto simp: GetExtOpTemplate_def list_all_iff)
  then obtain f where "op_intFunc (GetExtOpTemplate w) = F_ext f"
    by (auto simp: ext_func_ok_def split: int_func.splits)
  with assms(2) have "ext_fun f opc d = Inr d'" by simp
  from ext_fun_frame [OF assms(1) this] show ?thesis using that by blast
qed

subsection \<open>Instructions with an extended opcode\<close>

lemma ext_frame_hax:
  "ext_frame k d d' \<Longrightarrow> \<not> g_init_hax d \<Longrightarrow> g_r d' = g_r d \<and> g_pc d' = g_pc d \<and> \<not> g_init_hax d'"
  by (simp add: ext_frame_def hw_frame_def)

lemma pending_length: "logged k d \<Longrightarrow> k < WRITEBACK_LOG_SIZE \<Longrightarrow> length (pending d) = k"
  by (simp add: pending_logged)

lemma logged_keeps: "keeps d d' \<Longrightarrow> logged k d' = logged k d"
  by (simp add: logged_def keeps_def)

lemma pending_keeps: "keeps d d' \<Longrightarrow> pending d' = pending d"
  by (simp add: pending_def keeps_def)


text \<open>\<open>CLR $ACC0 : MV $AX0.L, $AC0.L\<close> moves the old value and clears the accumulator.\<close>

definition clr_mv_state :: SDSP where
  "clr_mv_state = set_ac 0 5 (InitInstructionTable dsp_zero)"

lemma clr_mv_templates:
  "op_extended (GetOpTemplate 0x8110)" "op_intFunc (GetOpTemplate 0x8110) = F_arith I_clr"
  "op_intFunc (GetExtOpTemplate 0x8110) = F_ext E_mv"
proof -
  have "s_op_table 0x8110 = OPC ''CLR'' 0x8100 0xf700 (F_arith I_clr) 1 1 [Par P_ACC 1 0 11 0x0800] True False False False True"
    by (subst s_op_table_iff) (simp_all add: op_matches_def s_opcodes_def s_opcodes_extendable_def)
  then show "op_extended (GetOpTemplate 0x8110)" "op_intFunc (GetOpTemplate 0x8110) = F_arith I_clr"
    by (simp_all add: GetOpTemplate_def)
  show "op_intFunc (GetExtOpTemplate 0x8110) = F_ext E_mv"
    by (simp add: GetExtOpTemplate_def s_ext_op_table_def FindByOpcode_def s_opcodes_ext_def op_matches_def)
qed


end
