(* ===== verification/Common_Hash.thy ===== *)
theory Common_Hash
  imports DSP_Prelude
begin

text \<open>
  \<open>HashAdler32\<close> of \<^verbatim>\<open>Common/Hash.cpp\<close>, with which the DSP core recognises its ROM
  images. The routine postpones the reduction modulo 65521 for up to 5550 bytes and
  then folds the upper half of each sum instead of dividing; the theory shows that
  no 32-bit sum overflows and that the result is the Adler-32 checksum.
\<close>

unbundle bit_operations_syntax

text \<open>The inner loop: one chunk of bytes added to both sums.\<close>

fun adler_chunk :: "u8 list \<Rightarrow> u32 \<times> u32 \<Rightarrow> u32 \<times> u32" where
  "adler_chunk [] (a, b) = (a, b)"
| "adler_chunk (x # xs) (a, b) = adler_chunk xs (a + ucast x, b + (a + ucast x))"

definition adler_fold :: "u32 \<Rightarrow> u32" where
  "adler_fold a = (a AND 0xffff) + drop_bit 16 a * (65536 - 65521)"

function adler_loop :: "u8 list \<Rightarrow> u32 \<times> u32 \<Rightarrow> u32 \<times> u32" where
  "adler_loop bs (a, b) =
     (if bs = [] then (a, b)
      else
        (let tlen = (if length bs > 5550 then 5550 else length bs);
             (a1, b1) = adler_chunk (take tlen bs) (a, b)
         in adler_loop (drop tlen bs) (adler_fold a1, adler_fold b1)))"
  by pat_completeness auto
termination
  by (relation "measure (\<lambda>(bs, _). length bs)") auto

declare adler_loop.simps [simp del]

definition HashAdler32 :: "u8 list \<Rightarrow> u32" where
  "HashAdler32 bs =
     (let (a, b) = adler_loop bs (1, 0);
          a1 = (if a \<ge> 65521 then a - 65521 else a);
          b1 = adler_fold b;
          b2 = (if b1 \<ge> 65521 then b1 - 65521 else b1)
      in push_bit 16 b2 OR a1)"

subsection \<open>The checksum\<close>

text \<open>Adler-32 as it is specified: two sums modulo 65521, over all bytes.\<close>

fun adler_sums :: "nat list \<Rightarrow> nat \<times> nat \<Rightarrow> nat \<times> nat" where
  "adler_sums [] (a, b) = (a, b)"
| "adler_sums (x # xs) (a, b) = adler_sums xs (a + x, b + (a + x))"

definition adler32_spec :: "nat list \<Rightarrow> nat" where
  "adler32_spec xs = (let (a, b) = adler_sums xs (1, 0) in (b mod 65521) * 65536 + a mod 65521)"


lemma adler_sums_append: "adler_sums (xs @ ys) s = adler_sums ys (adler_sums xs s)"
  by (induction xs s rule: adler_sums.induct) simp_all

definition adler_cong :: "nat \<times> nat \<Rightarrow> nat \<times> nat \<Rightarrow> bool" where
  "adler_cong s t \<longleftrightarrow> fst s mod 65521 = fst t mod 65521 \<and> snd s mod 65521 = snd t mod 65521"

lemma adler_sums_Nil [simp]: "adler_sums [] s = s"
  by (cases s) simp

lemma adler_sums_cong: "adler_cong s t \<Longrightarrow> adler_cong (adler_sums xs s) (adler_sums xs t)"
proof (induction xs arbitrary: s t)
  case (Cons x xs)
  obtain a b a' b' where st: "s = (a, b)" "t = (a', b')" by fastforce
  with Cons(2) have "a mod 65521 = a' mod 65521" "b mod 65521 = b' mod 65521"
    by (simp_all add: adler_cong_def)
  then have "(a + x) mod 65521 = (a' + x) mod 65521"
    and "(b + (a + x)) mod 65521 = (b' + (a' + x)) mod 65521"
    by (metis mod_add_cong)+
  then show ?case using Cons(1) st by (simp add: adler_cong_def)
qed (simp)

text \<open>The sums of a chunk stay below \<open>b + n a + 255 n (n + 1) / 2\<close>.\<close>

lemma adler_chunk_bound:
  assumes "unat a + 255 * length xs < 2 ^ 32"
    and "unat b + length xs * unat a + 255 * (length xs * Suc (length xs) div 2) < 2 ^ 32"
  shows "map_prod unat unat (adler_chunk xs (a, b)) = adler_sums (map unat xs) (unat a, unat b)
    \<and> unat (fst (adler_chunk xs (a, b))) \<le> unat a + 255 * length xs"
  using assms
proof (induction xs arbitrary: a b)
  case (Cons x xs)
  let ?n = "length xs" and ?a = "a + ucast x :: u32"
  have x: "unat x \<le> 255" using unsigned_less [of x, where ?'a = nat] by simp
  have tri: "Suc ?n * Suc (Suc ?n) div 2 = ?n * Suc ?n div 2 + Suc ?n" by simp
  have ux: "unat (ucast x :: u32) = unat x" using x by (simp add: unsigned_ucast_eq take_bit_nat_eq_self)
  have "unat a + unat x < 2 ^ 32" using Cons(2) x by simp
  then have ua: "unat ?a = unat a + unat x" using ux by (simp add: unat_word_ariths)
  have step: "unat b + length (x # xs) * unat a + 255 * (length (x # xs) * Suc (length (x # xs)) div 2)
      = unat b + unat a + ?n * unat a + 255 * (?n * Suc ?n div 2) + 255 * Suc ?n"
    using tri by (simp add: algebra_simps)
  have "unat b + unat ?a < 2 ^ 32" using Cons(3) x ua unfolding step by simp
  then have ub: "unat (b + ?a) = unat b + unat ?a" by (simp add: unat_word_ariths)
  have mult: "?n * unat ?a \<le> ?n * unat a + 255 * ?n" using x by (simp add: ua distrib_left)
  from Cons(1) [of ?a "b + ?a"] Cons(2,3) x ua ub mult
  show ?case unfolding step by simp
qed simp

lemma unat_adler_fold: "unat (adler_fold x) = unat x mod 65536 + unat x div 65536 * 15"
proof -
  have d: "unat x div 65536 < 65536" using unsigned_less [of x, where ?'a = nat] by simp
  have "unat (drop_bit 16 x * 15) = unat x div 65536 * 15"
    using d by (simp add: unat_word_ariths unsigned_drop_bit_eq drop_bit_eq_div)
  then show ?thesis using d unat_take_bit [of 16 x]
    by (simp add: adler_fold_def and_eq_take_bit unat_word_ariths)
qed

lemma adler_fold_mod: "unat (adler_fold x) mod 65521 = unat x mod 65521"
proof -
  have "unat x = unat (adler_fold x) + 65521 * (unat x div 65536)"
    using mult_div_mod_eq [of 65536 "unat x"] by (simp add: unat_adler_fold)
  then show ?thesis by (metis mod_mult_self2)
qed

lemma adler_fold_le: "unat x \<le> 1481115 \<Longrightarrow> unat (adler_fold x) \<le> 65865"
  by (simp add: unat_adler_fold) (use div_le_mono [of "unat x" 1481115 65536] in \<open>simp add: add_mono\<close>)

lemma adler_fold_le_any: "unat (adler_fold x) \<le> 1048560"
proof -
  have "unat x div 65536 \<le> 65535"
    using div_le_mono [of "unat x" 4294967295 65536] unsigned_less [of x, where ?'a = nat] by simp
  moreover have "unat x mod 65536 \<le> 65535" by (simp add: less_Suc_eq_le [symmetric])
  ultimately show ?thesis by (simp add: unat_adler_fold)
qed

lemma adler_loop_sums:
  assumes "unat a \<le> 65865" and "unat b \<le> 1048560"
  shows "adler_cong (map_prod unat unat (adler_loop bs (a, b))) (adler_sums (map unat bs) (unat a, unat b))
    \<and> unat (fst (adler_loop bs (a, b))) \<le> 65865 \<and> unat (snd (adler_loop bs (a, b))) \<le> 1048560"
  using assms
proof (induction bs "(a, b)" arbitrary: a b rule: adler_loop.induct)
  case (1 bs a b)
  show ?case
  proof (cases "bs = []")
    case True
    then show ?thesis using 1 by (simp add: adler_loop.simps adler_cong_def)
  next
    case False
    let ?t = "if length bs > 5550 then 5550 else length bs"
    let ?xs = "take ?t bs"
    obtain a1 b1 where c: "adler_chunk ?xs (a, b) = (a1, b1)" by fastforce
    have n: "length ?xs \<le> 5550" by simp
    have tri: "length ?xs * Suc (length ?xs) div 2 \<le> 15404025"
      using div_le_mono [OF mult_le_mono [OF n, of "Suc (length ?xs)" 5551], of 2] n by simp
    have prod: "length ?xs * unat a \<le> 5550 * 65865" using n 1(2) by (rule mult_le_mono)
    have ch: "map_prod unat unat (a1, b1) = adler_sums (map unat ?xs) (unat a, unat b) \<and> unat a1 \<le> 1481115"
      using adler_chunk_bound [of a ?xs b] n tri prod 1(2,3) unfolding c by (simp del: length_take)
    have ch1: "unat a1 \<le> 1481115" and ch2: "(unat a1, unat b1) = adler_sums (map unat ?xs) (unat a, unat b)"
      using ch by simp_all
    let ?s = "(unat (adler_fold a1), unat (adler_fold b1))"
    have "adler_cong ?s (unat a1, unat b1)"
      by (simp add: adler_cong_def adler_fold_mod)
    from adler_sums_cong [OF this, of "map unat (drop ?t bs)"]
    have e: "adler_cong (adler_sums (map unat (drop ?t bs)) ?s) (adler_sums (map unat bs) (unat a, unat b))"
      unfolding ch2 adler_sums_append [symmetric] map_append [symmetric] append_take_drop_id .
    have u: "adler_loop bs (a, b) = adler_loop (drop ?t bs) (adler_fold a1, adler_fold b1)"
      using False c by (subst adler_loop.simps) simp
    have "adler_cong (map_prod unat unat (adler_loop bs (a, b))) (adler_sums (map unat (drop ?t bs)) ?s)
        \<and> unat (fst (adler_loop bs (a, b))) \<le> 65865 \<and> unat (snd (adler_loop bs (a, b))) \<le> 1048560"
      unfolding u
      by (rule 1(1) [OF False refl c [symmetric] refl adler_fold_le [OF ch1] adler_fold_le_any])
    with e show ?thesis by (auto simp: adler_cong_def)
  qed
qed

lemma unat_reduce_once:
  fixes x :: u32
  assumes "unat x < 2 * 65521"
  shows "unat (if x \<ge> 65521 then x - 65521 else x) = unat x mod 65521"
  using assms by (auto simp: word_le_nat_alt unat_sub mod_if not_le)

lemma unat_high_low:
  fixes h l :: u32
  assumes "unat h < 65536" and "unat l < 65536"
  shows "unat (push_bit 16 h OR l) = unat h * 65536 + unat l"
proof -
  have "push_bit 16 h AND l = 0"
  proof (rule bit_word_eqI)
    fix n
    have "\<not> bit l n" if "n \<ge> 16"
    proof -
      have "take_bit 16 l = l"
        by (rule word_unat_eqI) (use assms(2) in \<open>simp add: unat_take_bit\<close>)
      then have "bit l n = bit (take_bit 16 l) n" by simp
      then show ?thesis using that by (simp add: bit_take_bit_iff)
    qed
    then show "bit (push_bit 16 h AND l) n = bit 0 n"
      by (auto simp: bit_simps not_le)
  qed
  then have "push_bit 16 h OR l = push_bit 16 h + l"
    by (simp add: disjunctive_add_eq_or)
  then show ?thesis
    using assms by (simp add: unat_word_ariths push_bit_eq_mult)
qed

text \<open>
  The checksum of the ROM images is Adler-32: for every byte string, the routine
  with its delayed and division-free reductions returns the two sums modulo 65521
  over all bytes, without overflow of a 32-bit sum.
\<close>

theorem HashAdler32_correct: "unat (HashAdler32 bs) = adler32_spec (map unat bs)"
proof -
  obtain a b where l: "adler_loop bs (1, 0) = (a, b)" by fastforce
  obtain sa sb where s: "adler_sums (map unat bs) (1, 0) = (sa, sb)" by fastforce
  have c: "unat a mod 65521 = sa mod 65521" "unat b mod 65521 = sb mod 65521" "unat a \<le> 65865"
      "unat b \<le> 1048560"
    using adler_loop_sums [of 1 0 bs] l s by (simp_all add: adler_cong_def)
  define b1 where "b1 = adler_fold b"
  define a2 where "a2 = (if a \<ge> 65521 then a - 65521 else a)"
  define b2 where "b2 = (if b1 \<ge> 65521 then b1 - 65521 else b1)"
  have "unat b1 \<le> 65760"
    unfolding b1_def unat_adler_fold using div_le_mono [OF c(4), of 65536] mod_less_divisor [of 65536 "unat b"]
    by simp
  then have b2: "unat b2 = sb mod 65521"
    using c(2) unat_reduce_once [of b1] by (simp add: b2_def b1_def adler_fold_mod)
  have a2: "unat a2 = sa mod 65521" using c unat_reduce_once [of a] by (simp add: a2_def)
  have h: "HashAdler32 bs = push_bit 16 b2 OR a2"
    by (simp add: HashAdler32_def l a2_def b2_def b1_def Let_def)
  show ?thesis
    unfolding h adler32_spec_def s using unat_high_low [of b2 a2] a2 b2 by simp
qed

end
