(* ===== verification/DSP_Core.thy ===== *)
theory DSP_Core
  imports DSP_Dispatch Common_Hash
begin

text \<open>
  Life cycle, interrupts and exceptions of the DSP (\<^verbatim>\<open>Core/DSP/DSPCore.cpp\<close>) for the
  interpreter core (\<^verbatim>\<open>opts.core_type = CORE_INTERPRETER\<close>, so \<open>g_dsp_jit\<close> is null).
  \<open>DSPCore_Reset\<close> and \<open>DSPCore_SetException\<close> are with the hardware registers that call
  them. The user's answer to the question of \<open>VerifyRoms\<close> is an argument; messages to
  the user, page protection and the capture logger have no effect on the state.
\<close>

unbundle bit_operations_syntax

subsection \<open>Initialisation\<close>

definition known_roms :: "(u32 \<times> u32) list" where
  "known_roms = [
     (0x66f334fe, 0xf3b93527),
     (0x9c8f593c, 0x10000001),
     (0xd9907f71, 0xb019c2fb),
     (0xd9907f71, 0xdb6880c1),
     (0x3aa4a793, 0xa4a575f5),
     (0x128ea7a2, 0xa4a575f5)]"

text \<open>The bytes of an array of \<open>n\<close> 16-bit words on a little-endian host.\<close>

definition words_bytes :: "nat \<Rightarrow> (u16 \<Rightarrow> u16) \<Rightarrow> u8 list" where
  "words_bytes n m = concat (map (\<lambda>i. [ucast (m (of_nat i)), ucast (drop_bit 8 (m (of_nat i)))]) [0..<n])"

text \<open>\<open>rom_idx\<close>: the last entry both hashes agree with, or \<open>None\<close> for \<open>-1\<close>.\<close>

definition rom_index :: "u32 \<Rightarrow> u32 \<Rightarrow> nat option" where
  "rom_index hash_irom hash_drom =
     fold (\<lambda>(i, rom) r. if hash_irom = fst rom \<and> hash_drom = snd rom then Some i else r)
       (enumerate 0 known_roms) None"

definition VerifyRoms :: "bool \<Rightarrow> SDSP \<Rightarrow> bool" where
  "VerifyRoms user_stops d =
     (let hash_irom = HashAdler32 (words_bytes 0x1000 (g_irom d));
          hash_drom = HashAdler32 (words_bytes 0x800 (g_coef d))
      in rom_index hash_irom hash_drom \<noteq> None \<or> \<not> user_stops)"

text \<open>\<open>None\<close> is the result \<^verbatim>\<open>false\<close>, with the memory released.\<close>

definition DSPCore_Init :: "(u16 \<Rightarrow> u16) \<Rightarrow> (u16 \<Rightarrow> u16) \<Rightarrow> bool \<Rightarrow> SDSP \<Rightarrow> SDSP option" where
  "DSPCore_Init irom_contents coef_contents user_stops d =
     (let d1 = d\<lparr>g_step_counter := 0, g_init_hax := False, g_accelerator := accelerator_zero,
                 g_irom := irom_contents, g_coef := coef_contents\<rparr>
      in if \<not> VerifyRoms user_stops d1 then None
         else
           (let d2 = d1\<lparr>g_r := regs_zero, g_reg_stack_ptr := (\<lambda>_. 0), g_reg_stack := (\<lambda>_ _. 0),
                        g_iram := (\<lambda>_. 0x0021), g_dram := (\<lambda>_. 0)\<rparr>;
                d3 = d2\<lparr>g_r := (g_r d2)\<lparr>r_wr := (\<lambda>_. 0xffff)\<rparr>\<rparr>;
                d4 = set_sr (g_sr d3 OR SR_INT_ENABLE) d3;
                d5 = set_sr (g_sr d4 OR SR_EXT_INT_ENABLE) d4;
                d6 = gdsp_ifx_init (d5\<lparr>g_cr := 0x804\<rparr>)
            in Some (d6\<lparr>g_core_state := Running\<rparr>)))"

text \<open>The released pages are not accessed again: a stopped core executes nothing.\<close>

definition DSPCore_Shutdown :: "SDSP \<Rightarrow> SDSP" where
  "DSPCore_Shutdown d = (if g_core_state d = Stopped then d else d\<lparr>g_core_state := Stopped\<rparr>)"

subsection \<open>Interrupts and exceptions\<close>

definition DSPCore_SetExternalInterrupt :: "bool \<Rightarrow> SDSP \<Rightarrow> SDSP" where
  "DSPCore_SetExternalInterrupt val d = d\<lparr>g_external_interrupt_waiting := val\<rparr>"

definition DSPCore_CheckExternalInterrupt :: "SDSP \<Rightarrow> SDSP" where
  "DSPCore_CheckExternalInterrupt d =
     (if \<not> dsp_SR_is_flag_set SR_EXT_INT_ENABLE d then d
      else
        (let d1 = DSPCore_SetException EXP_INT d in d1\<lparr>g_cr := g_cr d1 AND NOT CR_EXTERNAL_INT\<rparr>))"

text \<open>The loop of \<open>DSPCore_CheckExceptions\<close>, from exception \<open>i\<close> down to 1.\<close>

fun check_exceptions_from :: "nat \<Rightarrow> SDSP \<Rightarrow> SDSP" where
  "check_exceptions_from 0 d = d"
| "check_exceptions_from (Suc j) d =
     (let i = Suc j in
      if g_exceptions d AND push_bit i 1 \<noteq> 0 \<and> (dsp_SR_is_flag_set SR_INT_ENABLE d \<or> i = EXP_INT) then
        (let d1 = store_stack Call (g_pc d) d;
             d2 = store_stack Data (g_sr d1) d1;
             d3 = d2\<lparr>g_pc := of_nat (i * 2), g_exceptions := g_exceptions d2 AND NOT (push_bit i 1)\<rparr>
         in if i = 7 then set_sr (g_sr d3 AND NOT SR_EXT_INT_ENABLE) d3
            else set_sr (g_sr d3 AND NOT SR_INT_ENABLE) d3)
      else check_exceptions_from j d)"

definition DSPCore_CheckExceptions :: "SDSP \<Rightarrow> SDSP" where
  "DSPCore_CheckExceptions d = (if g_exceptions d = 0 then d else check_exceptions_from 7 d)"

subsection \<open>State and register access for the debugger\<close>

text \<open>The step event and the redraw of the debugger window are outside the state.\<close>

definition DSPCore_SetState :: "core_state \<Rightarrow> SDSP \<Rightarrow> SDSP" where
  "DSPCore_SetState new_state d = d\<lparr>g_core_state := new_state\<rparr>"

definition DSPCore_GetState :: "SDSP \<Rightarrow> core_state" where
  "DSPCore_GetState d = g_core_state d"

definition DSPCore_ReadRegister :: "nat \<Rightarrow> SDSP \<Rightarrow> u16" where
  "DSPCore_ReadRegister reg d =
     (if reg \<le> 0x03 then g_ar (of_nat (reg - DSP_REG_AR0)) d
      else if reg \<le> 0x07 then g_ix (of_nat (reg - DSP_REG_IX0)) d
      else if reg \<le> 0x0B then g_wr (of_nat (reg - DSP_REG_WR0)) d
      else if reg \<le> 0x0F then g_st (of_nat (reg - DSP_REG_ST0)) d
      else if reg \<le> 0x11 then u_h (g_ac (of_nat (reg - DSP_REG_ACH0)) d)
      else if reg = DSP_REG_CR then r_cr (g_r d)
      else if reg = DSP_REG_SR then g_sr d
      else if reg = DSP_REG_PRODL then u_l (g_prod d)
      else if reg = DSP_REG_PRODM then u_m (g_prod d)
      else if reg = DSP_REG_PRODH then u_h (g_prod d)
      else if reg = DSP_REG_PRODM2 then u_m2 (g_prod d)
      else if reg \<le> 0x19 then ax_l (g_ax (of_nat (reg - DSP_REG_AXL0)) d)
      else if reg \<le> 0x1B then ax_h (g_ax (of_nat (reg - DSP_REG_AXH0)) d)
      else if reg \<le> 0x1D then u_l (g_ac (of_nat (reg - DSP_REG_ACL0)) d)
      else if reg \<le> 0x1F then u_m (g_ac (of_nat (reg - DSP_REG_ACM0)) d)
      else 0)"

definition DSPCore_WriteRegister :: "nat \<Rightarrow> u16 \<Rightarrow> SDSP \<Rightarrow> SDSP" where
  "DSPCore_WriteRegister reg val d =
     (if reg \<le> 0x03 then set_ar (of_nat (reg - DSP_REG_AR0)) val d
      else if reg \<le> 0x07 then set_ix (of_nat (reg - DSP_REG_IX0)) val d
      else if reg \<le> 0x0B then set_wr (of_nat (reg - DSP_REG_WR0)) val d
      else if reg \<le> 0x0F then set_st (of_nat (reg - DSP_REG_ST0)) val d
      else if reg \<le> 0x11 then
        (let i = of_nat (reg - DSP_REG_ACH0) in set_ac i (set_u_h val (g_ac i d)) d)
      else if reg = DSP_REG_CR then d\<lparr>g_r := (g_r d)\<lparr>r_cr := val\<rparr>\<rparr>
      else if reg = DSP_REG_SR then set_sr val d
      else if reg = DSP_REG_PRODL then set_prod (set_u_l val (g_prod d)) d
      else if reg = DSP_REG_PRODM then set_prod (set_u_m val (g_prod d)) d
      else if reg = DSP_REG_PRODH then set_prod (set_u_h val (g_prod d)) d
      else if reg = DSP_REG_PRODM2 then set_prod (set_u_m2 val (g_prod d)) d
      else if reg \<le> 0x19 then
        (let i = of_nat (reg - DSP_REG_AXL0) in set_ax i (set_ax_l val (g_ax i d)) d)
      else if reg \<le> 0x1B then
        (let i = of_nat (reg - DSP_REG_AXH0) in set_ax i (set_ax_h val (g_ax i d)) d)
      else if reg \<le> 0x1D then
        (let i = of_nat (reg - DSP_REG_ACL0) in set_ac i (set_u_l val (g_ac i d)) d)
      else if reg \<le> 0x1F then
        (let i = of_nat (reg - DSP_REG_ACM0) in set_ac i (set_u_m val (g_ac i d)) d)
      else d)"

subsection \<open>Which exception is taken\<close>

text \<open>
  Exception \<open>i\<close> can be taken when it is pending and the interrupts are enabled; \<open>EXP_INT\<close>
  was admitted by \<open>DSPCore_CheckExternalInterrupt\<close> and needs no further enable.
\<close>

definition can_take :: "SDSP \<Rightarrow> nat \<Rightarrow> bool" where
  "can_take d i \<longleftrightarrow> 1 \<le> i \<and> i \<le> 7 \<and> bit (g_exceptions d) i \<and> (dsp_SR_is_flag_set SR_INT_ENABLE d \<or> i = EXP_INT)"

definition takes :: "SDSP \<Rightarrow> nat \<Rightarrow> bool" where
  "takes d i \<longleftrightarrow> can_take d i \<and> (\<forall>j > i. \<not> can_take d j)"

text \<open>The state after entering the handler of exception \<open>i\<close>.\<close>

definition entered :: "nat \<Rightarrow> SDSP \<Rightarrow> SDSP" where
  "entered i d =
     (let d2 = store_stack Data (g_sr d) (store_stack Call (g_pc d) d) in
      set_sr (g_sr d AND NOT (if i = EXP_INT then SR_EXT_INT_ENABLE else SR_INT_ENABLE))
        (d2\<lparr>g_pc := of_nat (i * 2), g_exceptions := g_exceptions d AND NOT (push_bit i 1)\<rparr>))"

lemma and_push_bit: "x AND push_bit n 1 \<noteq> 0 \<longleftrightarrow> bit x n" for x :: u8
proof -
  have "x AND push_bit n 1 = (if bit x n then push_bit n 1 else 0)"
    by (rule bit_word_eqI) (auto simp: bit_simps)
  moreover have "push_bit n 1 \<noteq> (0 :: u8)" if "bit x n"
    using bit_imp_le_length [OF that] by (simp add: push_bit_of_1)
  ultimately show ?thesis by simp
qed

lemma entered_regs: "g_sr (dsp_reg_store_stack i v d) = g_sr d"
  "g_exceptions (dsp_reg_store_stack i v d) = g_exceptions d"
  by (simp_all add: dsp_reg_store_stack_def dsp_reg_stack_push_def Let_def)

lemma check_exceptions_from_cases:
  assumes "n \<le> 7"
  shows "(\<exists>i. can_take d i \<and> i \<le> n \<and> (\<forall>j. i < j \<and> j \<le> n \<longrightarrow> \<not> can_take d j) \<and> check_exceptions_from n d = entered i d) \<or>
    (\<forall>j. j \<le> n \<longrightarrow> \<not> can_take d j) \<and> check_exceptions_from n d = d"
  using assms
proof (induction n)
  case 0
  then show ?case by (auto simp: can_take_def)
next
  case (Suc n)
  show ?case
  proof (cases "can_take d (Suc n)")
    case True
    then have "check_exceptions_from (Suc n) d = entered (Suc n) d"
      unfolding check_exceptions_from.simps Let_def and_push_bit
      by (auto simp: can_take_def entered_def entered_regs Let_def)
    with True show ?thesis by auto
  next
    case False
    then have "check_exceptions_from (Suc n) d = check_exceptions_from n d"
      unfolding check_exceptions_from.simps Let_def and_push_bit
      using Suc(2) by (auto simp: can_take_def)
    with Suc False show ?thesis by (auto simp: le_Suc_eq)
  qed
qed

lemma CheckExceptions_cases:
  obtains i where "takes d i" and "DSPCore_CheckExceptions d = entered i d"
    | "\<forall>i. \<not> can_take d i" and "DSPCore_CheckExceptions d = d"
proof (cases "g_exceptions d = 0")
  case True
  then show thesis using that(2) by (simp add: DSPCore_CheckExceptions_def can_take_def)
next
  case False
  have le: "can_take d j \<Longrightarrow> j \<le> 7" for j by (simp add: can_take_def)
  from check_exceptions_from_cases [of 7 d, simplified] show thesis
  proof (elim disjE exE conjE)
    fix i assume "can_take d i" "\<forall>j. i < j \<and> j \<le> 7 \<longrightarrow> \<not> can_take d j" "check_exceptions_from 7 d = entered i d"
    then show thesis using that(1) [of i] False le by (auto simp: takes_def DSPCore_CheckExceptions_def)
  next
    assume "\<forall>j. j \<le> 7 \<longrightarrow> \<not> can_take d j" "check_exceptions_from 7 d = d"
    then show thesis using that(2) False le by (auto simp: DSPCore_CheckExceptions_def)
  qed
qed

lemma takes_unique: "takes d i \<Longrightarrow> takes d j \<Longrightarrow> i = j"
  unfolding takes_def by (metis linorder_neqE_nat)

lemma CheckExceptions_takes: "takes d i \<Longrightarrow> DSPCore_CheckExceptions d = entered i d"
  by (rule CheckExceptions_cases [of d]) (use takes_unique in \<open>blast, simp add: takes_def\<close>)

lemma stack_view_update [simp]:
  "stack_view n i (g_pc_update p d) = stack_view n i d" "stack_view n i (g_exceptions_update x d) = stack_view n i d"
  "stack_view n i (set_sr v d) = stack_view n i d"
  by (simp_all add: stack_view_def)

lemma entered_stacks:
  assumes "n < 32"
  shows "stack_view (Suc n) 0 (entered i d) = g_pc d # stack_view n 0 d"
    and "stack_view (Suc n) 1 (entered i d) = g_sr d # stack_view n 1 d"
    and "j \<noteq> 0 \<Longrightarrow> j \<noteq> 1 \<Longrightarrow> stack_view n j (entered i d) = stack_view n j d"
  using assms by (simp_all add: entered_def Let_def stack_view_store stack_view_store_other)

lemma entered_ok: "stack_ptr_ok d \<Longrightarrow> stack_ptr_ok (entered i d)"
  by (simp add: entered_def Let_def) (simp add: stack_ptr_ok_def dsp_reg_store_stack_def dsp_reg_stack_push_def
      stack_mask_bound Let_def)

lemma entered_fields:
  "g_pc (entered i d) = of_nat (2 * i)"
  "bit (g_exceptions (entered i d)) j \<longleftrightarrow> bit (g_exceptions d) j \<and> j \<noteq> i"
  "g_sr (entered i d) = g_sr d AND NOT (if i = EXP_INT then SR_EXT_INT_ENABLE else SR_INT_ENABLE)"
  by (auto simp: entered_def Let_def mult.commute)
    (auto simp: bit_simps simp flip: push_bit_of_1 dest: bit_imp_le_length)

text \<open>
  C29. Of the pending exceptions that can be taken the one with the highest number is
  taken, and only that one: its pending bit is cleared and no other, the program counter
  goes to its vector, the interrupted program counter and status register are on top of
  the call and data stacks, and the enable bit that admits such exceptions is cleared.
  When none can be taken nothing changes.
\<close>

theorem exception_priority:
  "(\<forall>i. takes d i \<longrightarrow> (let d' = DSPCore_CheckExceptions d in
     g_pc d' = of_nat (2 * i) \<and> (\<forall>j. bit (g_exceptions d') j \<longleftrightarrow> bit (g_exceptions d) j \<and> j \<noteq> i) \<and>
     (\<forall>n < 32. stack_view (Suc n) 0 d' = g_pc d # stack_view n 0 d \<and>
        stack_view (Suc n) 1 d' = g_sr d # stack_view n 1 d \<and>
        stack_view n 2 d' = stack_view n 2 d \<and> stack_view n 3 d' = stack_view n 3 d) \<and>
     \<not> dsp_SR_is_flag_set (if i = EXP_INT then SR_EXT_INT_ENABLE else SR_INT_ENABLE) d')) \<and>
   ((\<forall>i. \<not> takes d i) \<longrightarrow> DSPCore_CheckExceptions d = d)"
proof (intro conjI allI impI)
  fix i assume "takes d i"
  from CheckExceptions_takes [OF this] show "let d' = DSPCore_CheckExceptions d in
     g_pc d' = of_nat (2 * i) \<and> (\<forall>j. bit (g_exceptions d') j \<longleftrightarrow> bit (g_exceptions d) j \<and> j \<noteq> i) \<and>
     (\<forall>n < 32. stack_view (Suc n) 0 d' = g_pc d # stack_view n 0 d \<and>
        stack_view (Suc n) 1 d' = g_sr d # stack_view n 1 d \<and>
        stack_view n 2 d' = stack_view n 2 d \<and> stack_view n 3 d' = stack_view n 3 d) \<and>
     \<not> dsp_SR_is_flag_set (if i = EXP_INT then SR_EXT_INT_ENABLE else SR_INT_ENABLE) d'"
    by (simp add: entered_fields entered_stacks dsp_SR_is_flag_set_def Let_def and.assoc)
next
  assume "\<forall>i. \<not> takes d i"
  then show "DSPCore_CheckExceptions d = d"
    by (auto intro: CheckExceptions_cases [of d])
qed

text \<open>With the accelerator and the external interrupt both pending, the interrupt goes first.\<close>

definition two_pending :: SDSP where
  "two_pending = set_sr SR_INT_ENABLE (dsp_zero\<lparr>g_pc := 0x123, g_exceptions := 0xA0\<rparr>)"

lemma two_pending_takes: "takes two_pending EXP_INT"
  by (simp add: takes_def can_take_def two_pending_def)

theorem exception_priority_witness:
  "takes two_pending EXP_INT \<and> g_pc (DSPCore_CheckExceptions two_pending) = 14 \<and>
   bit (g_exceptions (DSPCore_CheckExceptions two_pending)) EXP_ACCOV"
proof -
  have "bit (g_exceptions two_pending) EXP_ACCOV" by (simp add: two_pending_def)
  with exception_priority [of two_pending] two_pending_takes show ?thesis
    by (auto simp: Let_def)
qed

text \<open>
  C30. An exception handler is transparent: when the code between the entry of an
  exception and its \<open>RTI\<close> leaves the stacks as it found them, \<open>RTI\<close> restores the program
  counter, the status register with its enable bits, and what all four stacks show.
\<close>

theorem exception_return_restores:
  assumes "stack_ptr_ok d" and "takes d i" and "same_stacks (DSPCore_CheckExceptions d) e"
  shows "g_pc (rti_op opc e) = g_pc d \<and> g_sr (rti_op opc e) = g_sr d \<and> stack_ptr_ok (rti_op opc e) \<and>
    (\<forall>n j. n < 32 \<longrightarrow> stack_view n j (rti_op opc e) = stack_view n j d)"
proof -
  have s: "same_stacks (entered i d) e" using assms(3) CheckExceptions_takes [OF assms(2)] by simp
  have ok: "stack_ptr_ok e" by (rule same_stacks_ok [OF s entered_ok [OF assms(1)]])
  note v = same_stacks_view [OF s]
  have top: "g_st 0 e = g_pc d" "g_st 1 e = g_sr d"
    using entered_stacks(1,2) [of 0 i d] v [of 1] by (simp_all add: stack_view_def)
  let ?d1 = "snd (load_stack Data e)"
  have r: "rti_op opc e = (snd (dsp_reg_load_stack 0 (set_sr (g_st 1 e) (snd (dsp_reg_load_stack 1 e)))))\<lparr>g_pc := g_st 0 e\<rparr>"
    by (simp add: rti_op_def dsp_reg_load_stack_def dsp_reg_stack_pop_def Let_def split_beta)
  have "stack_view n j (rti_op opc e) = stack_view n j d" if n: "n < 32" for n j
  proof (cases "j = 0 \<or> j = 1")
    case True
    then show ?thesis unfolding r using n ok v entered_stacks(1,2) [OF n, of i d]
      by (auto simp: stack_view_load stack_view_load_other)
  next
    case False
    then show ?thesis unfolding r using n v entered_stacks(3) [OF n, of j i d]
      by (simp add: stack_view_load_other)
  qed
  moreover have "g_pc (rti_op opc e) = g_pc d" "g_sr (rti_op opc e) = g_sr d" "stack_ptr_ok (rti_op opc e)"
    unfolding r using ok by (simp_all add: top) (simp add: dsp_reg_load_stack_def dsp_reg_stack_pop_def top Let_def)
  ultimately show ?thesis by blast
qed

theorem exception_return_restores_witness:
  "g_pc (rti_op 0x02ff (DSPCore_CheckExceptions two_pending)) = 0x123"
proof -
  have "stack_ptr_ok two_pending" by (simp add: two_pending_def stack_ptr_ok_def zero_defs)
  from exception_return_restores [OF this two_pending_takes, of "DSPCore_CheckExceptions two_pending"]
  show ?thesis by (simp add: same_stacks_def) (simp add: two_pending_def)
qed

end
