(* ===== verification/DSP_Interpreter.thy ===== *)
theory DSP_Interpreter
  imports DSP_Core DSP_Dispatch
begin

text \<open>
  The interpreter loop (\<^verbatim>\<open>Core/DSP/Interpreter/DSPInterpreter.cpp\<close>): the control
  register, one step, and the loops that run a number of cycles; and \<open>DSPCore_RunCycles\<close> of \<^verbatim>\<open>Core/DSP/DSPCore.cpp\<close>, which calls them.
\<close>

unbundle bit_operations_syntax

subsection \<open>The control register\<close>

definition WriteCR :: "u16 \<Rightarrow> SDSP \<Rightarrow> dsp_result" where
  "WriteCR val d =
     (if val AND 1 \<noteq> 0 then
        and_then (DSPCore_Reset d) (\<lambda>d1. Inr (d1\<lparr>g_cr := val AND NOT 1\<rparr>))
      else if val = 4 then Inr (d\<lparr>g_init_hax := True, g_cr := val OR 0x800\<rparr>)
      else Inr (d\<lparr>g_cr := val\<rparr>))"

definition ReadCR :: "SDSP \<Rightarrow> u16 \<times> SDSP" where
  "ReadCR d =
     (let d1 = (if g_pc d AND 0x8000 \<noteq> 0 then d\<lparr>g_cr := g_cr d OR 0x800\<rparr>
                else d\<lparr>g_cr := g_cr d AND NOT 0x800\<rparr>)
      in (g_cr d1, d1))"

subsection \<open>One step\<close>

definition Step :: "SDSP \<Rightarrow> dsp_result" where
  "Step d =
     (let d1 = DSPCore_CheckExceptions d;
          d2 = d1\<lparr>g_step_counter := g_step_counter d1 + 1\<rparr>;
          (opc, d3) = dsp_fetch_code d2
      in and_then (ExecuteInstruction opc d3) (\<lambda>d4.
           if GetCodeFlags d4 (g_pc d4 - 1) AND CODE_LOOP_END \<noteq> 0 then Inr (HandleLoop d4)
           else Inr d4))"

subsection \<open>What every step maintains\<close>

text \<open>
  The stack pointers are within their rings, the write-back log is free, and the accelerator
  addresses are within their 30 bits.
\<close>

definition dsp_ok :: "SDSP \<Rightarrow> bool" where
  "dsp_ok d \<longleftrightarrow> stack_ptr_ok d \<and> logged 0 d \<and> acc_ok (g_accelerator d)"

definition maintains :: "SDSP \<Rightarrow> SDSP \<Rightarrow> bool" where
  "maintains d d' \<longleftrightarrow> (dsp_ok d \<longrightarrow> dsp_ok d' \<and> (analysed d \<longrightarrow> analysed d'))"

lemma maintains_refl [simp]: "maintains d d"
  by (simp add: maintains_def)

lemma maintains_trans [trans]: "maintains a b \<Longrightarrow> maintains b c \<Longrightarrow> maintains a c"
  by (simp add: maintains_def)

lemma keeps_maintains: "keeps d d' \<Longrightarrow> maintains d d'"
  by (simp add: maintains_def dsp_ok_def logged_keeps) (auto simp: keeps_def)

lemma maintains_update [simp]: "maintains d (g_step_counter_update f e) = maintains d e"
  "maintains d (g_pc_update p e) = maintains d e" "maintains d (g_cr_update c e) = maintains d e"
  "maintains d (g_exceptions_update x e) = maintains d e" "maintains d (g_r_update r e) = maintains d e"
  "maintains d (g_core_state_update s e) = maintains d e" "maintains d (g_init_hax_update h e) = maintains d e"
  "maintains d (g_external_interrupt_waiting_update w e) = maintains d e"
  by (simp_all add: maintains_def dsp_ok_def stack_ptr_ok_def logged_def)

lemma maintains_stack [simp]: "maintains d e \<Longrightarrow> maintains d (dsp_reg_store_stack i v e)"
  by (rule maintains_trans [OF _ keeps_maintains [OF op_frame_keeps [OF op_frame_stack(1) [OF op_frame_refl]]]])

lemma maintains_CheckExceptions: "maintains d (DSPCore_CheckExceptions d)"
  by (rule CheckExceptions_cases [of d]) (simp_all add: entered_def Let_def)

lemma op_frame_write_regs: "op_frame d (write_regs ws d)"
proof (induction ws arbitrary: d)
  case (Cons w ws)
  show ?case
    using op_frame_trans [OF op_frame_write_reg [OF op_frame_refl] Cons] by (simp add: write_regs_def split_beta)
qed (simp add: write_regs_def)

lemma ext_frame_maintains:
  assumes "ext_frame k d d1" and "keeps d1 d2" and "op_frame d2 d3" and "dsp_ok d"
  shows "dsp_ok (d3\<lparr>g_writeBackLogIdx := replicate WRITEBACK_LOG_SIZE (-1)\<rparr>) \<and>
    (analysed d \<longrightarrow> analysed (d3\<lparr>g_writeBackLogIdx := replicate WRITEBACK_LOG_SIZE (-1)\<rparr>))"
proof -
  have 1: "logged k d1" "stack_ptr_ok d1" "acc_ok (g_accelerator d1)" "analysed d \<longrightarrow> analysed d1"
    using assms(1,4) by (auto simp: ext_frame_def hw_frame_def dsp_ok_def stack_ptr_ok_def)
  have k: "keeps d1 d3" using assms(2) op_frame_keeps [OF assms(3)] by (rule keeps_trans)
  with 1 have "logged k d3" by (simp add: logged_keeps)
  then show ?thesis
    using 1 k by (auto simp: dsp_ok_def logged_free keeps_def stack_ptr_ok_def logged_def)
qed

lemma maintains_ExecuteInstruction:
  assumes "ExecuteInstruction inst d = Inr d'"
  shows "maintains d d'"
proof (cases "op_extended (GetOpTemplate inst)")
  case False
  with assms have "intFunc (op_intFunc (GetOpTemplate inst)) inst d = Inr d'"
    by (simp add: ExecuteInstruction_def and_then_eq_Inr_conv)
  then show ?thesis by (rule keeps_maintains [OF keeps_main [OF main_not_ext]])
next
  case True
  with assms obtain d1 d2 where d1: "intFunc (op_intFunc (GetExtOpTemplate inst)) inst d = Inr d1"
    and d2: "intFunc (op_intFunc (GetOpTemplate inst)) inst d1 = Inr d2" and d': "applyWriteBackLog d2 = Inr d'"
    by (auto simp: ExecuteInstruction_def and_then_eq_Inr_conv)
  have m: "keeps d1 d2" by (rule keeps_main [OF main_not_ext d2])
  show ?thesis unfolding maintains_def
  proof
    assume ok: "dsp_ok d"
    then obtain k where k: "k < WRITEBACK_LOG_SIZE" "ext_frame k d d1"
      using ext_template_frame [OF _ d1] by (auto simp: dsp_ok_def)
    then have "logged k d2" by (simp add: ext_frame_def logged_keeps [OF m])
    from applyWriteBackLog_pending [OF this k(1)] d'
    have "d' = (write_regs (pending d2) d2)\<lparr>g_writeBackLogIdx := replicate WRITEBACK_LOG_SIZE (-1)\<rparr>" by simp
    with ext_frame_maintains [OF k(2) m op_frame_write_regs ok]
    show "dsp_ok d' \<and> (analysed d \<longrightarrow> analysed d')" by simp
  qed
qed

lemma maintains_Step:
  assumes "Step d = Inr d'"
  shows "maintains d d'"
proof -
  let ?d3 = "snd (dsp_fetch_code ((DSPCore_CheckExceptions d)\<lparr>g_step_counter := g_step_counter (DSPCore_CheckExceptions d) + 1\<rparr>))"
  have 3: "maintains d ?d3" using maintains_CheckExceptions by (simp add: dsp_fetch_code_def)
  from assms obtain opc d4 where e: "ExecuteInstruction opc ?d3 = Inr d4" and "d' = d4 \<or> d' = HandleLoop d4"
    by (auto simp: Step_def Let_def split_beta and_then_eq_Inr_conv split: if_splits)
  then have "maintains d4 d'"
    using keeps_maintains [OF op_frame_keeps [OF op_frame_HandleLoop]] by auto
  with 3 maintains_ExecuteInstruction [OF e] show ?thesis by (blast intro: maintains_trans)
qed

subsection \<open>Running a number of cycles\<close>

text \<open>
  A \<^verbatim>\<open>for\<close> loop of the functions below either returns from the function (\<open>Return\<close>
  with the value) or ends (\<open>Go\<close> with the cycles left). \<open>chk\<close> holds the tests at the
  head of the body that return early.
\<close>

datatype run = Return int SDSP | Go int SDSP

primrec run_for ::
    "(int \<Rightarrow> SDSP \<Rightarrow> (int \<times> SDSP) option) \<Rightarrow> nat \<Rightarrow> int \<Rightarrow> SDSP \<Rightarrow> dsp_error + run" where
  "run_for chk 0 cycles d = Inr (Go cycles d)"
| "run_for chk (Suc n) cycles d =
     (case chk cycles d of
        Some (r, d1) \<Rightarrow> Inr (Return r d1)
      | None \<Rightarrow>
          and_then (Step d) (\<lambda>d1.
            if cycles - 1 < 0 then Inr (Return 0 d1) else run_for chk n (cycles - 1) d1))"

definition and_go :: "dsp_error + run \<Rightarrow> (int \<Rightarrow> SDSP \<Rightarrow> dsp_error + run) \<Rightarrow> dsp_error + run" where
  "and_go m f = and_then m (\<lambda>r. case r of Return v d \<Rightarrow> Inr (Return v d) | Go c d \<Rightarrow> f c d)"

definition check_none :: "int \<Rightarrow> SDSP \<Rightarrow> (int \<times> SDSP) option" where
  "check_none cycles d = None"

definition check_halt :: "int \<Rightarrow> SDSP \<Rightarrow> (int \<times> SDSP) option" where
  "check_halt cycles d = (if g_cr d AND CR_HALT \<noteq> 0 then Some (0, d) else None)"

definition check_idle :: "int \<Rightarrow> SDSP \<Rightarrow> (int \<times> SDSP) option" where
  "check_idle cycles d = (if GetCodeFlags d (g_pc d) AND CODE_IDLE_SKIP \<noteq> 0 then Some (0, d) else None)"

definition check_break :: "(u16 \<Rightarrow> bool) \<Rightarrow> int \<Rightarrow> SDSP \<Rightarrow> (int \<times> SDSP) option" where
  "check_break IsAddressBreakPoint cycles d =
     (if IsAddressBreakPoint (g_pc d) then Some (cycles, DSPCore_SetState Stepping d) else None)"

definition check_or ::
    "(int \<Rightarrow> SDSP \<Rightarrow> (int \<times> SDSP) option) \<Rightarrow> (int \<Rightarrow> SDSP \<Rightarrow> (int \<times> SDSP) option) \<Rightarrow>
     int \<Rightarrow> SDSP \<Rightarrow> (int \<times> SDSP) option" where
  "check_or c1 c2 cycles d = (case c1 cycles d of Some r \<Rightarrow> Some r | None \<Rightarrow> c2 cycles d)"

lemma run_for_stop: "0 < n \<Longrightarrow> chk c d = Some (r, d1) \<Longrightarrow> run_for chk n c d = Inr (Return r d1)"
  by (cases n) simp_all

lemma run_for_Go:
  "run_for chk n c d = Inr (Go c' d') \<Longrightarrow> c' = c - int n \<and> (n = 0 \<or> 0 \<le> c')"
proof (induction n arbitrary: c d)
  case (Suc n)
  from Suc(2) obtain d1 where "0 \<le> c - 1" and "run_for chk n (c - 1) d1 = Inr (Go c' d')"
    by (auto simp: and_then_eq_Inr_conv split: option.splits if_splits)
  with Suc(1) [of "c - 1" d1] show ?case by auto
qed simp

lemma and_go_Go:
  assumes "and_go m f = Inr (Go c' d')"
  obtains c d where "m = Inr (Go c d)" and "f c d = Inr (Go c' d')"
  using assms by (cases m; cases "projr m") (auto simp: and_go_def and_then_def)

lemma round_Go:
  assumes "and_go (run_for chk1 8 cycles d) (run_for chk2 200) = Inr (Go c d1)"
  shows "c = cycles - 208 \<and> 0 \<le> c"
proof -
  obtain c' d' where "run_for chk1 8 cycles d = Inr (Go c' d')" "run_for chk2 200 c' d' = Inr (Go c d1)"
    using assms by (rule and_go_Go)
  then show ?thesis by (auto dest!: run_for_Go)
qed

text \<open>
  The \<^verbatim>\<open>while (true)\<close> loop: eight cycles with the idle test, then two hundred without.
\<close>

function run_rounds ::
    "(int \<Rightarrow> SDSP \<Rightarrow> (int \<times> SDSP) option) \<Rightarrow> (int \<Rightarrow> SDSP \<Rightarrow> (int \<times> SDSP) option) \<Rightarrow>
     int \<Rightarrow> SDSP \<Rightarrow> dsp_error + (int \<times> SDSP)" where
  "run_rounds chk1 chk2 cycles d =
     (case and_go (run_for chk1 8 cycles d) (run_for chk2 200) of
        Inl e \<Rightarrow> Inl e
      | Inr (Return v d1) \<Rightarrow> Inr (v, d1)
      | Inr (Go c d1) \<Rightarrow> run_rounds chk1 chk2 c d1)"
  by pat_completeness auto
termination
proof (relation "measure (\<lambda>(_, _, c, _). nat (c + 1))")
  fix chk1 chk2 and cycles :: int and d b c d1
  assume "and_go (run_for chk1 8 cycles d) (run_for chk2 200) = Inr b" "b = Go c d1"
  then show "((chk1, chk2, c, d1), chk1, chk2, cycles, d) \<in> measure (\<lambda>(_, _, c, _). nat (c + 1))"
    using round_Go [of chk1 cycles d chk2 c d1] by auto
qed simp

declare run_rounds.simps [simp del]

definition RunCycles :: "int \<Rightarrow> SDSP \<Rightarrow> dsp_error + (int \<times> SDSP)" where
  "RunCycles cycles d =
     and_then (run_for check_halt 8 cycles d) (\<lambda>r. case r of
         Return v d1 \<Rightarrow> Inr (v, d1)
       | Go c d1 \<Rightarrow> run_rounds (check_or check_halt check_idle) check_none c d1)"

definition RunCyclesDebug :: "(u16 \<Rightarrow> bool) \<Rightarrow> int \<Rightarrow> SDSP \<Rightarrow> dsp_error + (int \<times> SDSP)" where
  "RunCyclesDebug bp cycles d =
     and_then (run_for (check_or check_halt (check_break bp)) 8 cycles d) (\<lambda>r. case r of
         Return v d1 \<Rightarrow> Inr (v, d1)
       | Go c d1 \<Rightarrow>
           run_rounds (check_or (check_or check_halt (check_break bp)) check_idle) (check_break bp) c d1)"

text \<open>
  Thread mode: the CPU thread may post an interrupt between two cycles; \<open>posts k\<close>
  tells whether it does so before cycle \<open>k\<close> of the call.
\<close>

function RunCyclesThread :: "(nat \<Rightarrow> bool) \<Rightarrow> nat \<Rightarrow> int \<Rightarrow> SDSP \<Rightarrow> dsp_error + (int \<times> SDSP)" where
  "RunCyclesThread posts k cycles d0 =
     (let d = (if posts k then DSPCore_SetExternalInterrupt True d0 else d0) in
      if g_cr d AND CR_HALT \<noteq> 0 then Inr (0, d)
      else
        (let d1 = (if g_external_interrupt_waiting d then
                     DSPCore_SetExternalInterrupt False (DSPCore_CheckExternalInterrupt d)
                   else d)
         in and_then (Step d1) (\<lambda>d2.
              if cycles - 1 < 0 then Inr (0, d2) else RunCyclesThread posts (k + 1) (cycles - 1) d2)))"
  by pat_completeness auto
termination
  by (relation "measure (\<lambda>(_, _, c, _). nat (c + 1))") auto

declare RunCyclesThread.simps [simp del]

subsection \<open>What running cycles does\<close>

fun steps :: "nat \<Rightarrow> SDSP \<Rightarrow> dsp_result" where
  "steps 0 d = Inr d"
| "steps (Suc n) d = and_then (Step d) (steps n)"

lemma steps_add: "steps (m + n) d = and_then (steps m d) (steps n)"
proof (induction m arbitrary: d)
  case (Suc m)
  then have "steps (m + n) = (\<lambda>x. and_then (steps m x) (steps n))" by (simp add: fun_eq_iff)
  then show ?case by (simp add: and_then_assoc)
qed simp

text \<open>The states in which a run may stop early: halted, or at the start of an idle loop.\<close>

definition may_stop :: "SDSP \<Rightarrow> bool" where
  "may_stop d \<longleftrightarrow> g_cr d AND CR_HALT \<noteq> 0 \<or> GetCodeFlags d (g_pc d) AND CODE_IDLE_SKIP \<noteq> 0"

text \<open>
  \<open>ran c d res\<close>: the result of a run of \<open>c\<close> cycles from \<open>d\<close> is that of at most \<open>c + 1\<close>
  steps, and of exactly that many unless the run may stop where it does.
\<close>

definition ran :: "int \<Rightarrow> SDSP \<Rightarrow> dsp_error + (int \<times> SDSP) \<Rightarrow> bool" where
  "ran c d res \<longleftrightarrow> (\<exists>k \<le> nat c + 1. case res of
       Inl e \<Rightarrow> steps k d = Inl e
     | Inr (v, d') \<Rightarrow> v = 0 \<and> steps k d = Inr d' \<and> (k = nat c + 1 \<or> may_stop d'))"

definition run_result :: "int \<Rightarrow> nat \<Rightarrow> SDSP \<Rightarrow> dsp_error + run \<Rightarrow> bool" where
  "run_result c n d m \<longleftrightarrow> (case m of
       Inl e \<Rightarrow> ran c d (Inl e)
     | Inr (Return v d') \<Rightarrow> ran c d (Inr (v, d'))
     | Inr (Go c' d') \<Rightarrow> c' = c - int n \<and> (n = 0 \<or> 0 \<le> c') \<and> steps n d = Inr d')"

lemma ran_later:
  assumes "steps n d = Inr d1" and "int n \<le> c" and "ran (c - int n) d1 res"
  shows "ran c d res"
proof -
  from assms(3) obtain k where k: "k \<le> nat (c - int n) + 1" and
    r: "case res of Inl e \<Rightarrow> steps k d1 = Inl e
      | Inr (v, d') \<Rightarrow> v = 0 \<and> steps k d1 = Inr d' \<and> (k = nat (c - int n) + 1 \<or> may_stop d')"
    unfolding ran_def by blast
  have s: "steps (n + k) d = steps k d1" by (simp add: steps_add assms(1))
  have "n + k \<le> nat c + 1" and "k = nat (c - int n) + 1 \<Longrightarrow> n + k = nat c + 1"
    using k assms(2) by auto
  then show ?thesis
    unfolding ran_def using r s by (intro exI [of _ "n + k"]) (auto split: sum.splits)
qed

lemma run_result_later:
  assumes "steps n d = Inr d1" and "int n \<le> c" and "run_result (c - int n) m d1 res"
  shows "run_result c (n + m) d res"
  using assms
  by (auto simp: run_result_def steps_add intro: ran_later [OF assms(1,2)] split: sum.splits run.splits)

definition stops_only :: "(int \<Rightarrow> SDSP \<Rightarrow> (int \<times> SDSP) option) \<Rightarrow> bool" where
  "stops_only chk \<longleftrightarrow> (\<forall>c d r d'. chk c d = Some (r, d') \<longrightarrow> r = 0 \<and> d' = d \<and> may_stop d)"

lemma stops_only_checks: "stops_only check_none" "stops_only check_halt"
  "stops_only (check_or check_halt check_idle)"
  by (auto simp: stops_only_def check_none_def check_halt_def check_or_def check_idle_def may_stop_def
      split: if_splits option.splits)

lemma run_for_result:
  assumes "stops_only chk"
  shows "run_result c n d (run_for chk n c d)"
proof (induction n arbitrary: c d)
  case (Suc n)
  show ?case
  proof (cases "chk c d")
    case (Some p)
    then obtain r d' where p: "p = (r, d')" by fastforce
    with Some assms have "r = 0" "d' = d" "may_stop d" unfolding stops_only_def by blast+
    with Some p show ?thesis
      by (auto simp: run_result_def ran_def intro: exI [of _ 0])
  next
    case None
    show ?thesis
    proof (cases "Step d")
      case (Inl e)
      with None show ?thesis by (auto simp: run_result_def ran_def intro!: exI [of _ 1])
    next
      case (Inr d1)
      have one: "steps 1 d = Inr d1" by (simp add: Inr and_then_def)
      show ?thesis
      proof (cases "c - 1 < 0")
        case True
        then show ?thesis using None Inr one
          by (auto simp: run_result_def ran_def intro!: exI [of _ 1])
      next
        case False
        then show ?thesis
          using None Inr run_result_later [OF one, of c n "run_for chk n (c - 1) d1"] Suc by simp
      qed
    qed
  qed
qed (simp add: run_result_def)

lemma and_go_result:
  assumes "run_result c n d m" and "\<And>c' d'. run_result c' k d' (f c' d')" and "0 < n" and "0 < k"
  shows "run_result c (n + k) d (and_go m f)"
proof (cases m)
  case (Inl e)
  then show ?thesis using assms(1) by (simp add: and_go_def run_result_def)
next
  case (Inr r)
  show ?thesis
  proof (cases r)
    case (Return v d')
    then show ?thesis using assms(1) Inr by (simp add: and_go_def run_result_def)
  next
    case (Go c' d')
    with assms(1,3) Inr have "c' = c - int n" "0 \<le> c'" "steps n d = Inr d'"
      by (simp_all add: run_result_def)
    then show ?thesis
      using run_result_later [of n d d' c k "f c' d'"] assms(2) [of c' d'] Inr Go
      by (simp add: and_go_def)
  qed
qed

lemma run_rounds_ran:
  assumes "stops_only chk1" and "stops_only chk2"
  shows "ran c d (run_rounds chk1 chk2 c d)"
  using assms
proof (induction chk1 chk2 c d rule: run_rounds.induct)
  case (1 chk1 chk2 c d)
  have r: "run_result c 208 d (and_go (run_for chk1 8 c d) (run_for chk2 200))"
    using and_go_result [OF run_for_result [OF 1(2)] run_for_result [OF 1(3)], of 8 200 c d] by simp
  show ?case
  proof (cases "and_go (run_for chk1 8 c d) (run_for chk2 200)")
    case (Inl e)
    with r show ?thesis by (subst run_rounds.simps) (simp add: run_result_def)
  next
    case (Inr b)
    show ?thesis
    proof (cases b)
      case (Return v d')
      with r Inr show ?thesis by (subst run_rounds.simps) (simp add: run_result_def)
    next
      case (Go c' d')
      with r Inr have "c' = c - 208" "0 \<le> c'" "steps 208 d = Inr d'"
        by (simp_all add: run_result_def)
      then show ?thesis
        using 1(1) [OF Inr Go 1(2,3)] Inr Go ran_later [of 208 d d' c]
        by (subst run_rounds.simps) simp
    qed
  qed
qed

lemma RunCycles_ran: "ran c d (RunCycles c d)"
proof (cases "run_for check_halt 8 c d")
  case (Inl e)
  then show ?thesis using run_for_result [OF stops_only_checks(2), of c 8 d]
    by (simp add: RunCycles_def run_result_def)
next
  case (Inr b)
  then show ?thesis
    using run_for_result [OF stops_only_checks(2), of c 8 d]
      run_rounds_ran [OF stops_only_checks(3,1)] ran_later [of 8 d _ c]
    by (cases b) (auto simp: RunCycles_def run_result_def)
qed

lemma RunCycles_returns_0: "RunCycles c d = Inr (v, d') \<Longrightarrow> v = 0"
  using RunCycles_ran [of c d] by (auto simp: ran_def)

subsection \<open>The entry point\<close>

text \<open>
  \<open>DSPCore_RunCycles\<close> of a release build, without the recompiler. While the core is stepping, each iteration
  waits for the step event; \<open>wakeups\<close> lists the states the core has after the waits
  that do return. \<open>None\<close> is a loop that does not end: one that waits for ever, or that finds the core stopped and goes round
  without running anything.
\<close>

partial_function (option) RunCycles_loop :: "core_state list \<Rightarrow> int \<Rightarrow> SDSP \<Rightarrow> (dsp_error + (int \<times> SDSP)) option" where
  "RunCycles_loop wakeups cycles d =
     (if cycles > 0 then
        (case g_core_state d of
           Running \<Rightarrow>
             (case RunCycles cycles d of Inl e \<Rightarrow> Some (Inl e) | Inr (c, d1) \<Rightarrow> RunCycles_loop wakeups c d1)
         | Stepping \<Rightarrow>
             (case wakeups of
                [] \<Rightarrow> None
              | s # ws \<Rightarrow>
                  (if s \<noteq> Stepping then RunCycles_loop ws cycles (d\<lparr>g_core_state := s\<rparr>)
                   else case Step d of Inl e \<Rightarrow> Some (Inl e) | Inr d1 \<Rightarrow> RunCycles_loop ws (cycles - 1) d1))
         | Stopped \<Rightarrow> RunCycles_loop wakeups cycles d)
      else Some (Inr (cycles, d)))"

declare RunCycles_loop.simps [simp del]

definition DSPCore_RunCycles :: "core_state list \<Rightarrow> int \<Rightarrow> SDSP \<Rightarrow> dsp_error + (int \<times> SDSP)" where
  "DSPCore_RunCycles wakeups cycles d = (case RunCycles_loop wakeups cycles d of None \<Rightarrow> Inl No_Return | Some r \<Rightarrow> r)"

text \<open>One iteration.\<close>

lemma DSPCore_RunCycles_unfold:
  "DSPCore_RunCycles ws c d =
     (if c \<le> 0 then Inr (c, d)
      else case g_core_state d of
          Running \<Rightarrow> (case RunCycles c d of Inl e \<Rightarrow> Inl e | Inr (c1, d1) \<Rightarrow> DSPCore_RunCycles ws c1 d1)
        | Stepping \<Rightarrow>
            (case ws of
               [] \<Rightarrow> Inl No_Return
             | s # ws \<Rightarrow>
                 (if s \<noteq> Stepping then DSPCore_RunCycles ws c (d\<lparr>g_core_state := s\<rparr>)
                  else case Step d of Inl e \<Rightarrow> Inl e | Inr d1 \<Rightarrow> DSPCore_RunCycles ws (c - 1) d1))
        | Stopped \<Rightarrow> DSPCore_RunCycles ws c d)"
  unfolding DSPCore_RunCycles_def
  by (subst RunCycles_loop.simps) (simp split: core_state.split list.split sum.split prod.split)

lemma DSPCore_RunCycles_running:
  assumes "g_core_state d = Running" and "0 < c"
  shows "DSPCore_RunCycles ws c d = RunCycles c d"
proof (cases "RunCycles c d")
  case (Inr r)
  then obtain d' where "r = (0, d')" using RunCycles_returns_0 [of c d] by (cases r) auto
  with Inr assms show ?thesis
    by (subst DSPCore_RunCycles_unfold) (simp add: DSPCore_RunCycles_unfold [of _ 0])
qed (use assms in \<open>subst DSPCore_RunCycles_unfold, simp\<close>)

text \<open>A stopped core goes round for ever: no number of iterations gives a result.\<close>

lemma RunCycles_loop_result:
  assumes "RunCycles_loop ws c d = Some r"
  shows "\<not> (g_core_state d = Stopped \<and> 0 < c)"
  by (rule RunCycles_loop.raw_induct [where P = "\<lambda>ws c d r. \<not> (g_core_state d = Stopped \<and> 0 < c)", OF _ assms]) (auto split: if_splits)

lemma DSPCore_RunCycles_stopped: "g_core_state d = Stopped \<Longrightarrow> 0 < c \<Longrightarrow> DSPCore_RunCycles ws c d = Inl No_Return"
  using RunCycles_loop_result [of ws c d] by (cases "RunCycles_loop ws c d") (auto simp: DSPCore_RunCycles_def)

lemma maintains_steps: "steps n d = Inr d' \<Longrightarrow> maintains d d'"
  by (induction n arbitrary: d) (auto simp: and_then_eq_Inr_conv intro: maintains_trans maintains_Step)

lemma maintains_RunCycles: "RunCycles c d = Inr (v, d') \<Longrightarrow> maintains d d'"
  using RunCycles_ran [of c d] by (auto simp: ran_def intro: maintains_steps)

lemma maintains_RunCycles_loop:
  assumes "RunCycles_loop ws c d = Some r"
  shows "\<forall>v d'. r = Inr (v, d') \<longrightarrow> maintains d d'"
proof (rule RunCycles_loop.raw_induct [where P = "\<lambda>ws c d r. \<forall>v d'. r = Inr (v, d') \<longrightarrow> maintains d d'", OF _ assms], goal_cases)
  case (1 loop ws c d r)
  note ih = 1(1) [rule_format] and m = maintains_trans [OF maintains_RunCycles] maintains_trans [OF maintains_Step]
  show ?case
  proof (cases "c > 0")
    case True
    note b = 1(2) [unfolded if_P [OF True]]
    show ?thesis
    proof (cases "g_core_state d")
      case Running
      with b ih show ?thesis by (fastforce split: sum.splits intro: m)
    next
      case Stepping
      with b obtain s rest where ws: "ws = s # rest" by (auto split: list.splits)
      show ?thesis
      proof (cases "s = Stepping")
        case True
        with b Stepping ws ih show ?thesis by (fastforce split: sum.splits intro: m)
      next
        case False
        with b Stepping ws have "loop rest c (d\<lparr>g_core_state := s\<rparr>) = Some r" by simp
        note i = ih [OF this]
        have u: "maintains d (d\<lparr>g_core_state := s\<rparr>)" by simp
        show ?thesis by (intro allI impI) (rule maintains_trans [OF u i])
      qed
    next
      case Stopped
      with b have "loop ws c d = Some r" by simp
      then show ?thesis by (rule 1(1))
    qed
  qed (use 1(2) in auto)
qed

lemma maintains_DSPCore_RunCycles: "DSPCore_RunCycles ws c d = Inr (v, d') \<Longrightarrow> maintains d d'"
  using maintains_RunCycles_loop [of ws c d] by (auto simp: DSPCore_RunCycles_def split: option.splits)

text \<open>
  C33. Running a number of cycles runs instructions one after the other and comes back:
  the result of \<open>RunCycles\<close> is the result of at most \<open>cycles + 1\<close> steps from the same
  state; when it stops before that many, it stops in a state that is halted or at the
  start of an idle loop; and the cycles it reports as left are always 0.
\<close>

theorem RunCycles_is_steps:
  "\<exists>k \<le> nat c + 1. case RunCycles c d of
       Inl e \<Rightarrow> steps k d = Inl e
     | Inr (v, d') \<Rightarrow> v = 0 \<and> steps k d = Inr d' \<and> (k = nat c + 1 \<or> may_stop d')"
  using RunCycles_ran [of c d] unfolding ran_def .

text \<open>A halted DSP runs no instruction.\<close>

theorem RunCycles_is_steps_witness:
  "\<exists>k \<le> 6. RunCycles 5 (dsp_zero\<lparr>g_cr := CR_HALT\<rparr>) = Inr (0, dsp_zero\<lparr>g_cr := CR_HALT\<rparr>) \<and>
     steps k (dsp_zero\<lparr>g_cr := CR_HALT\<rparr>) = Inr (dsp_zero\<lparr>g_cr := CR_HALT\<rparr>)"
proof -
  have "RunCycles 5 (dsp_zero\<lparr>g_cr := CR_HALT\<rparr>) = Inr (0, dsp_zero\<lparr>g_cr := CR_HALT\<rparr>)"
    by (simp add: RunCycles_def run_for_stop check_halt_def)
  with RunCycles_is_steps [of 5 "dsp_zero\<lparr>g_cr := CR_HALT\<rparr>"] show ?thesis by auto
qed

end
