(* ===== verification/DSP_Liveness.thy ===== *)
theory DSP_Liveness
  imports DSP_Interpreter
begin

text \<open>
  Every operation of the emulated DSP comes back, but for \<open>DSPCore_RunCycles\<close> on a core that is stopped or that nobody wakes. The only loops whose end is not evident
  from the source are the walk of the analyser, which has been shown to return, and
  \<open>DSPCore_RunCycles\<close> itself; \<open>returns m\<close> says that a result is not \<open>No_Return\<close>. An
  operation can still fail, through a DMA that leaves a buffer or an access to unmapped
  memory.
\<close>

unbundle bit_operations_syntax

definition returns :: "dsp_error + 'a \<Rightarrow> bool" where
  "returns m \<longleftrightarrow> m \<noteq> Inl No_Return"

lemma returns_Inr [simp]: "returns (Inr x)"
  by (simp add: returns_def)

lemma returns_Inl [simp]: "returns (Inl e) \<longleftrightarrow> e \<noteq> No_Return"
  by (simp add: returns_def)

lemma returns_and_then: "returns m \<Longrightarrow> (\<And>x. returns (f x)) \<Longrightarrow> returns (and_then m f)"
  by (cases m) simp_all

lemma returns_if: "(b \<Longrightarrow> returns x) \<Longrightarrow> (\<not> b \<Longrightarrow> returns y) \<Longrightarrow> returns (if b then x else y)"
  by simp

lemma returns_prod: "(\<And>x y. returns (f x y)) \<Longrightarrow> returns (case p of (x, y) \<Rightarrow> f x y)"
  by (cases p) simp

lemmas returns_intros = returns_Inr returns_and_then returns_if returns_prod

subsection \<open>Memory, accelerator and DMA\<close>

lemma returns_memory [simp]: "returns (cpu_byte d p)" "returns (cpu_put p b d)" "returns (dram_put i v d)"
  "returns (dram_get i d)" "returns (ReadHostMemory d a)" "returns (WriteHostMemory a x d)"
  by (simp_all add: cpu_byte_def cpu_put_def dram_put_def dram_get_def ReadHostMemory_def WriteHostMemory_def
      ReadARAM_def WriteARAM_def Read_U8_def split: option.splits)

lemma returns_read_bytes [simp]: "returns (read_bytes d p n)"
  by (induction n arbitrary: p) (auto intro!: returns_intros)

lemma returns_write_bytes [simp]: "returns (write_bytes p bs d)"
  by (induction bs arbitrary: p d) (auto intro!: returns_intros)

lemma returns_dram_store [simp]: "returns (dram_store b bs d)"
  by (induction b bs d rule: dram_store.induct) (auto intro!: returns_intros)

lemma returns_dram_load [simp]: "returns (dram_load b n d)"
  by (induction n arbitrary: b) (auto intro!: returns_intros)

lemma returns_half [simp]: "returns (cpu_half d p)" "returns (cpu_put_half p v d)"
  by (auto simp: cpu_half_def cpu_put_half_def intro!: returns_intros)

lemma returns_ddma_in_SSSE3 [simp]: "returns (gdsp_ddma_in_SSSE3 i a p n d)"
proof (induction i a p n d rule: gdsp_ddma_in_SSSE3.induct)
  case (1 i a p n d)
  then show ?case
    by (subst gdsp_ddma_in_SSSE3.simps) (auto intro!: returns_intros simp del: add_2_eq_Suc')
qed

lemma returns_ddma_in_loop [simp]: "returns (ddma_in_loop i a p n d)"
proof (induction i a p n d rule: ddma_in_loop.induct)
  case (1 i a p n d)
  then show ?case
    by (subst ddma_in_loop.simps) (auto intro!: returns_intros simp del: add_2_eq_Suc')
qed

lemma returns_ddma_out_SSSE3 [simp]: "returns (gdsp_ddma_out_SSSE3 i a p n d)"
proof (induction i a p n d rule: gdsp_ddma_out_SSSE3.induct)
  case (1 i a p n d)
  then show ?case
    by (subst gdsp_ddma_out_SSSE3.simps) (auto intro!: returns_intros simp del: add_2_eq_Suc')
qed

lemma returns_ddma_out_loop [simp]: "returns (ddma_out_loop i a p n d)"
proof (induction i a p n d rule: ddma_out_loop.induct)
  case (1 i a p n d)
  then show ?case
    by (subst ddma_out_loop.simps) (auto intro!: returns_intros simp del: add_2_eq_Suc')
qed

lemma returns_Analyze [simp]: "returns (Analyze d)"
  using Analyze_total [of d] by auto

lemma returns_do_dma [simp]: "returns (gdsp_do_dma d)"
  unfolding gdsp_do_dma_def gdsp_ddma_in_def gdsp_ddma_out_def gdsp_idma_in_def gdsp_idma_out_def CodeLoaded_def Let_def
  by (auto intro!: returns_intros)

lemma returns_accelerator [simp]: "returns (ReadD3 (ReadHostMemory d) a)" "returns (WriteD3 WriteHostMemory v a d)"
  "returns (Accelerator_Read (ReadHostMemory d) cs a)"
  unfolding ReadD3_def WriteD3_def Accelerator_Read_def decode_sample_def adpcm_advance_def read_be16_def Let_def
  by (auto intro!: returns_intros)

lemma returns_mbox_read_l [simp]: "returns (gdsp_mbox_read_l m d)"
  unfolding gdsp_mbox_read_l_def DSPCore_Reset_def Let_def by (auto intro!: returns_intros)

lemma returns_dmem_read [simp]: "returns (dsp_dmem_read a d)"
  unfolding dsp_dmem_read_def gdsp_ifx_read_def accelerator_read_reg_def Let_def
  by (auto intro!: returns_intros)

lemma returns_dmem_write [simp]: "returns (dsp_dmem_write a v d)"
  unfolding dsp_dmem_write_def gdsp_ifx_write_def Let_def
  by (auto intro!: returns_intros)

subsection \<open>Instructions\<close>

lemma returns_ls: "returns (ls_fun f opc d)"
  by (cases f; simp only: ls_fun.simps ls_op_defs load_reg_def store_reg_def Let_def)
    (auto intro!: returns_intros)

lemma returns_ext: "returns (ext_fun f opc d)"
  by (cases f; simp only: ext_fun.simps ext_op_defs log_read_def store_then_load_def load_pair_def ld_pair_def
      ldax_pair_def Let_def)
    (auto intro!: returns_intros)

lemma returns_intFunc: "returns (intFunc f opc d)"
  by (cases f) (simp_all add: returns_ls returns_ext)

lemma returns_apply_log: "returns (apply_log_from i d)"
proof (induction i d rule: apply_log_from.induct)
  case (1 i d)
  then show ?case by (subst apply_log_from.simps) (simp add: Let_def)
qed

lemma returns_Step: "returns (Step d)"
  unfolding Step_def ExecuteInstruction_def applyWriteBackLog_def Let_def
  by (auto intro!: returns_intros simp: returns_intFunc returns_apply_log)

lemma returns_steps: "returns (steps n d)"
  by (induction n arbitrary: d) (auto intro!: returns_intros simp: returns_Step)

lemma returns_RunCycles: "returns (RunCycles c d)"
proof (cases "RunCycles c d")
  case (Inl e)
  with RunCycles_ran [of c d] obtain k where "steps k d = Inl e" by (auto simp: ran_def)
  with returns_steps [of k d] Inl show ?thesis by simp
qed simp

subsection \<open>The core keeps its state\<close>

lemma core_state_write_regs [simp]: "g_core_state (write_regs ws d) = g_core_state d"
  using op_frame_keeps [OF op_frame_write_regs [of d ws]] by (simp add: keeps_def)

lemma core_state_ExecuteInstruction:
  assumes "ExecuteInstruction inst d = Inr d'" and "logged 0 d"
  shows "g_core_state d' = g_core_state d"
proof (cases "op_extended (GetOpTemplate inst)")
  case False
  with assms(1) have "intFunc (op_intFunc (GetOpTemplate inst)) inst d = Inr d'"
    by (simp add: ExecuteInstruction_def and_then_eq_Inr_conv)
  from keeps_main [OF main_not_ext this] show ?thesis by (simp add: keeps_def)
next
  case True
  with assms(1) obtain d1 d2 where d1: "intFunc (op_intFunc (GetExtOpTemplate inst)) inst d = Inr d1"
    and d2: "intFunc (op_intFunc (GetOpTemplate inst)) inst d1 = Inr d2" and d': "applyWriteBackLog d2 = Inr d'"
    by (auto simp: ExecuteInstruction_def and_then_eq_Inr_conv)
  have m: "keeps d1 d2" by (rule keeps_main [OF main_not_ext d2])
  obtain k where k: "k < WRITEBACK_LOG_SIZE" "ext_frame k d d1" using ext_template_frame [OF assms(2) d1] by blast
  then have "logged k d2" by (simp add: ext_frame_def logged_keeps [OF m])
  from applyWriteBackLog_pending [OF this k(1)] d' have "g_core_state d' = g_core_state d2" by simp
  also have "\<dots> = g_core_state d1" using m by (simp add: keeps_def)
  also have "\<dots> = g_core_state d" using k(2) by (simp add: ext_frame_def hw_frame_def)
  finally show ?thesis .
qed

lemma core_state_CheckExceptions: "g_core_state (DSPCore_CheckExceptions d) = g_core_state d"
  by (rule CheckExceptions_cases [of d]) (simp_all add: entered_def Let_def dsp_reg_store_stack_def dsp_reg_stack_push_def)

lemma core_state_Step:
  assumes "Step d = Inr d'" and "dsp_ok d"
  shows "g_core_state d' = g_core_state d"
proof -
  let ?d3 = "snd (dsp_fetch_code ((DSPCore_CheckExceptions d)\<lparr>g_step_counter := g_step_counter (DSPCore_CheckExceptions d) + 1\<rparr>))"
  have "maintains d ?d3" using maintains_CheckExceptions by (simp add: dsp_fetch_code_def)
  then have l: "logged 0 ?d3" using assms(2) by (simp add: maintains_def dsp_ok_def)
  from assms(1) obtain opc d4 where e: "ExecuteInstruction opc ?d3 = Inr d4" and "d' = d4 \<or> d' = HandleLoop d4"
    by (auto simp: Step_def Let_def split_beta and_then_eq_Inr_conv split: if_splits)
  then have "g_core_state d' = g_core_state d4"
    using op_frame_keeps [OF op_frame_HandleLoop] by (auto simp: keeps_def)
  also have "\<dots> = g_core_state d" using core_state_ExecuteInstruction [OF e l] core_state_CheckExceptions [of d] by (simp add: dsp_fetch_code_def)
  finally show ?thesis .
qed

lemma DSPCore_RunCycles_stepping:
  assumes "dsp_ok d" and "g_core_state d \<noteq> Stopped" and "Stopped \<notin> set ws" and "nat c \<le> length ws \<or> g_core_state d = Running"
  shows "returns (DSPCore_RunCycles ws c d)"
  using assms
proof (induction ws arbitrary: c d)
  case Nil
  then show ?case using DSPCore_RunCycles_running [of d c "[]"] returns_RunCycles [of c d]
    by (cases "c \<le> 0") (auto simp: DSPCore_RunCycles_unfold [of "[]" c])
next
  case (Cons s ws)
  consider "c \<le> 0" | (run) "0 < c" "g_core_state d = Running" | (step) "0 < c" "g_core_state d = Stepping"
    using Cons.prems(2) by (cases "c \<le> 0"; cases "g_core_state d") auto
  then show ?case
  proof cases
    case 1
    then show ?thesis by (simp add: DSPCore_RunCycles_unfold)
  next
    case run
    with DSPCore_RunCycles_running [of d c "s # ws"] returns_RunCycles [of c d] show ?thesis by simp
  next
    case step
    then have len: "nat c \<le> Suc (length ws)" using Cons.prems(4) by auto
    show ?thesis
    proof (cases "s = Stepping")
      case True
      have "returns (DSPCore_RunCycles ws (c - 1) d1)" if s: "Step d = Inr d1" for d1
      proof (rule Cons.IH)
        show "dsp_ok d1" using maintains_Step [OF s] Cons.prems(1) by (simp add: maintains_def)
      qed (use core_state_Step [OF s Cons.prems(1)] step Cons.prems(3) len in auto)
      moreover have "DSPCore_RunCycles (s # ws) c d = (case Step d of Inl e \<Rightarrow> Inl e | Inr d1 \<Rightarrow> DSPCore_RunCycles ws (c - 1) d1)"
        by (subst DSPCore_RunCycles_unfold) (use step True in simp)
      ultimately show ?thesis using returns_Step [of d] by (auto split: sum.split)
    next
      case False
      with Cons.prems(3) have "s = Running" by (cases s) auto
      have "DSPCore_RunCycles (s # ws) c d = DSPCore_RunCycles ws c (d\<lparr>g_core_state := s\<rparr>)"
        by (subst DSPCore_RunCycles_unfold) (use step False in simp)
      moreover have "returns (DSPCore_RunCycles ws c (d\<lparr>g_core_state := s\<rparr>))"
        using Cons.prems(1,3) \<open>s = Running\<close> by (intro Cons.IH) (simp_all add: dsp_ok_def stack_ptr_ok_def logged_def)
      ultimately show ?thesis by simp
    qed
  qed
qed

text \<open>
  C32. When a call of \<open>DSPCore_RunCycles\<close> comes back. On a running core it is one call of
  \<open>RunCycles\<close>, and this comes back or exits the emulator in an access. On a core that is being stepped it comes back when the debugger wakes it often
  enough, once for each cycle, or lets it run, and does not stop it. On a stopped core it comes back only when there is nothing
  to run; otherwise its loop goes round for ever.
\<close>

theorem DSPCore_RunCycles_returns:
  assumes "dsp_ok d"
  shows "(g_core_state d = Running \<longrightarrow>
      DSPCore_RunCycles wakeups cycles d = (if 0 < cycles then RunCycles cycles d else Inr (cycles, d)) \<and>
      DSPCore_RunCycles wakeups cycles d \<noteq> Inl No_Return) \<and>
    (g_core_state d = Stepping \<and> Stopped \<notin> set wakeups \<and> nat cycles \<le> length wakeups \<longrightarrow>
      DSPCore_RunCycles wakeups cycles d \<noteq> Inl No_Return) \<and>
    (g_core_state d = Stopped \<longrightarrow>
      DSPCore_RunCycles wakeups cycles d = (if 0 < cycles then Inl No_Return else Inr (cycles, d)))"
proof (intro conjI impI)
  show r: "DSPCore_RunCycles wakeups cycles d = (if 0 < cycles then RunCycles cycles d else Inr (cycles, d))" if "g_core_state d = Running"
    using DSPCore_RunCycles_running [OF that, of cycles wakeups] by (simp add: DSPCore_RunCycles_unfold)
  show "DSPCore_RunCycles wakeups cycles d \<noteq> Inl No_Return" if "g_core_state d = Running"
    using returns_RunCycles [of cycles d] unfolding r [OF that] by (simp add: returns_def)
  show "DSPCore_RunCycles wakeups cycles d \<noteq> Inl No_Return"
    if "g_core_state d = Stepping \<and> Stopped \<notin> set wakeups \<and> nat cycles \<le> length wakeups"
    using DSPCore_RunCycles_stepping [OF assms, of wakeups cycles] that by (simp add: returns_def)
  show "DSPCore_RunCycles wakeups cycles d = (if 0 < cycles then Inl No_Return else Inr (cycles, d))" if "g_core_state d = Stopped"
    using DSPCore_RunCycles_stopped [OF that, of cycles wakeups] by (simp add: DSPCore_RunCycles_unfold)
qed

lemma dsp_ok_test: "dsp_ok ((InitInstructionTable dsp_zero)\<lparr>g_core_state := s\<rparr>)"
  by (simp add: dsp_ok_def logged_free InitInstructionTable_def zero_defs stack_ptr_ok_def acc_ok_def WRITEBACK_LOG_SIZE_def)

theorem DSPCore_RunCycles_returns_witness:
  "DSPCore_RunCycles [] 7 ((InitInstructionTable dsp_zero)\<lparr>g_core_state := Running\<rparr>) \<noteq> Inl No_Return \<and>
   DSPCore_RunCycles [Stepping, Stepping] 2 ((InitInstructionTable dsp_zero)\<lparr>g_core_state := Stepping\<rparr>) \<noteq> Inl No_Return \<and>
   DSPCore_RunCycles [] 7 ((InitInstructionTable dsp_zero)\<lparr>g_core_state := Stopped\<rparr>) = Inl No_Return"
  using DSPCore_RunCycles_returns [OF dsp_ok_test [of Running], of "[]" 7]
    DSPCore_RunCycles_returns [OF dsp_ok_test [of Stepping], of "[Stepping, Stepping]" 2]
    DSPCore_RunCycles_returns [OF dsp_ok_test [of Stopped], of "[]" 7]
  by auto

end
