(* ===== verification/Common_ChunkFile.thy ===== *)
theory Common_ChunkFile
  imports DSP_Prelude
begin

text \<open>
  The serialisation framework of the save states (\<open>PointerWrap\<close> of
  \<^verbatim>\<open>Common/ChunkFile.h\<close>). One function per component both saves and loads it: each
  \<open>Do\<close> copies an object to the buffer, copies it back, or only moves the pointer,
  depending on the mode. The buffer is a function from positions to bytes and the
  pointer a position in it. An object is what its bytes encode on a little-endian host.

  The interface \<open>serializer\<close> states what a component's function has to satisfy: it
  saves without changing the object, loads what was saved, and takes the same room in
  every mode. It is closed under sequencing and under access to a field, so that the
  components get it for their functions from the laws of the members.
\<close>

unbundle bit_operations_syntax

datatype Mode = MODE_READ | MODE_WRITE | MODE_MEASURE | MODE_VERIFY

record PointerWrap =
  pw_ptr :: nat
  pw_mode :: Mode
  pw_buf :: "nat \<Rightarrow> u8"

definition SetMode :: "Mode \<Rightarrow> PointerWrap \<Rightarrow> PointerWrap" where
  "SetMode m p = p\<lparr>pw_mode := m\<rparr>"

text \<open>
  \<open>DoVoid\<close> on an object with the bytes \<open>data\<close>: the bytes of the object afterwards. The
  comparison of \<open>MODE_VERIFY\<close> is an assertion of debug builds.
\<close>

definition DoVoid :: "u8 list \<Rightarrow> PointerWrap \<Rightarrow> u8 list \<times> PointerWrap" where
  "DoVoid data p =
     (let size = length data;
          p' = p\<lparr>pw_ptr := pw_ptr p + size\<rparr>
      in case pw_mode p of
           MODE_READ \<Rightarrow> (map (pw_buf p) [pw_ptr p..<pw_ptr p + size], p')
         | MODE_WRITE \<Rightarrow>
             (data, p'\<lparr>pw_buf := (\<lambda>a. if pw_ptr p \<le> a \<and> a < pw_ptr p + size then data ! (a - pw_ptr p)
                                      else pw_buf p a)\<rparr>)
         | MODE_MEASURE \<Rightarrow> (data, p')
         | MODE_VERIFY \<Rightarrow> (data, p'))"

text \<open>The bytes of an integer in memory, the least significant first, and back.\<close>

definition word_bytes :: "'a::len word \<Rightarrow> u8 list" where
  "word_bytes w = map (\<lambda>i. ucast (drop_bit (8 * i) w)) [0..<LENGTH('a) div 8]"

fun bytes_word :: "u8 list \<Rightarrow> 'a::len word" where
  "bytes_word [] = 0"
| "bytes_word (b # bs) = ucast b OR push_bit 8 (bytes_word bs)"

text \<open>\<open>Do\<close> of an integer (and of an atomic one), of a \<^verbatim>\<open>bool\<close>, and of the first \<open>n\<close> elements of an array.\<close>

definition Do :: "'a::len word \<Rightarrow> PointerWrap \<Rightarrow> 'a word \<times> PointerWrap" where
  "Do x p = (let (bs, p') = DoVoid (word_bytes x) p in (bytes_word bs, p'))"

definition Do_bool :: "bool \<Rightarrow> PointerWrap \<Rightarrow> bool \<times> PointerWrap" where
  "Do_bool x p =
     (let (stable, p') = Do (if x then 1 else 0 :: u8) p
      in (if pw_mode p' = MODE_READ then stable \<noteq> 0 else x, p'))"

definition DoArray :: "nat \<Rightarrow> ('i::len word \<Rightarrow> 'a::len word) \<Rightarrow> PointerWrap \<Rightarrow> ('i word \<Rightarrow> 'a word) \<times> PointerWrap" where
  "DoArray n x p =
     (let s = LENGTH('a) div 8;
          (bs, p') = DoVoid (concat (map (\<lambda>i. word_bytes (x (of_nat i))) [0..<n])) p
      in (\<lambda>i. if unat i < n then bytes_word (take s (drop (s * unat i) bs)) else x i, p'))"

text \<open>A call of \<open>Do\<close> on a member of an object, and two calls one after the other.\<close>

definition do_field ::
    "('s \<Rightarrow> 'v) \<Rightarrow> ('v \<Rightarrow> 's \<Rightarrow> 's) \<Rightarrow> ('v \<Rightarrow> PointerWrap \<Rightarrow> 'v \<times> PointerWrap) \<Rightarrow>
     's \<Rightarrow> PointerWrap \<Rightarrow> 's \<times> PointerWrap" where
  "do_field get put act s p = (let (v, p') = act (get s) p in (put v s, p'))"

definition do_seq ::
    "('s \<Rightarrow> PointerWrap \<Rightarrow> 's \<times> PointerWrap) \<Rightarrow> ('s \<Rightarrow> PointerWrap \<Rightarrow> 's \<times> PointerWrap) \<Rightarrow>
     's \<Rightarrow> PointerWrap \<Rightarrow> 's \<times> PointerWrap" where
  "do_seq a b s p = (let (s', p') = a s p in b s' p')"

subsection \<open>Integers and their bytes\<close>

lemma length_word_bytes [simp]: "length (word_bytes (w :: 'a::len word)) = LENGTH('a) div 8"
  by (simp add: word_bytes_def)

lemma bit_bytes_word:
  "bit (bytes_word bs :: 'a::len word) n \<longleftrightarrow> n < LENGTH('a) \<and> n div 8 < length bs \<and> bit (bs ! (n div 8)) (n mod 8)"
proof (induction bs arbitrary: n)
  case (Cons b bs)
  show ?case
  proof (cases "n < 8")
    case True
    then show ?thesis by (auto simp: bit_simps)
  next
    case False
    then have "n div 8 = Suc ((n - 8) div 8)" "n mod 8 = (n - 8) mod 8"
      by (simp_all add: le_div_geq le_mod_geq)
    with False show ?thesis
      using bit_imp_le_length [of b n] by (auto simp: bit_simps Cons)
  qed
qed simp

lemma bytes_word_bytes: "8 dvd LENGTH('a) \<Longrightarrow> bytes_word (word_bytes w) = (w :: 'a::len word)"
proof (rule bit_word_eqI)
  fix n assume "8 dvd LENGTH('a)" "n < LENGTH('a)"
  then have "n div 8 < LENGTH('a) div 8" by (metis dvd_div_mult_self less_mult_imp_div_less)
  with \<open>n < LENGTH('a)\<close> show "bit (bytes_word (word_bytes w) :: 'a word) n = bit w n"
    by (simp add: bit_bytes_word word_bytes_def bit_simps)
qed

subsection \<open>What a component's function has to satisfy\<close>

definition pw_put :: "u8 list \<Rightarrow> PointerWrap \<Rightarrow> PointerWrap" where
  "pw_put bs p = p\<lparr>pw_ptr := pw_ptr p + length bs,
     pw_buf := (\<lambda>a. if pw_ptr p \<le> a \<and> a < pw_ptr p + length bs then bs ! (a - pw_ptr p) else pw_buf p a)\<rparr>"

definition pw_skip :: "nat \<Rightarrow> PointerWrap \<Rightarrow> PointerWrap" where
  "pw_skip n p = p\<lparr>pw_ptr := pw_ptr p + n\<rparr>"

definition pw_holds :: "u8 list \<Rightarrow> PointerWrap \<Rightarrow> bool" where
  "pw_holds bs p \<longleftrightarrow> map (pw_buf p) [pw_ptr p..<pw_ptr p + length bs] = bs"

lemma pw_mode_put_skip [simp]: "pw_mode (pw_put bs p) = pw_mode p" "pw_mode (pw_skip n p) = pw_mode p"
  by (simp_all add: pw_put_def pw_skip_def)

lemma pw_put_append: "pw_put (xs @ ys) p = pw_put ys (pw_put xs p)"
  unfolding pw_put_def by (rule PointerWrap.equality) (auto simp: nth_append fun_eq_iff)

lemma pw_skip_skip: "pw_skip m (pw_skip n p) = pw_skip (n + m) p"
  by (simp add: pw_skip_def add.assoc)

lemma pw_holds_append: "pw_holds (xs @ ys) p \<longleftrightarrow> pw_holds xs p \<and> pw_holds ys (pw_skip (length xs) p)"
proof -
  have "[pw_ptr p..<pw_ptr p + (length xs + length ys)] =
      [pw_ptr p..<pw_ptr p + length xs] @ [pw_ptr p + length xs..<pw_ptr p + length xs + length ys]"
    using upt_add_eq_append [of "pw_ptr p" "pw_ptr p + length xs" "length ys"] by (simp add: add.assoc)
  then show ?thesis by (simp add: pw_holds_def pw_skip_def append_eq_append_conv)
qed

lemma pw_holds_put: "pw_holds bs ((pw_put bs p)\<lparr>pw_mode := m, pw_ptr := pw_ptr p\<rparr>)"
  by (auto simp: pw_holds_def pw_put_def intro: nth_equalityI)

locale serializer =
  fixes act :: "'s \<Rightarrow> PointerWrap \<Rightarrow> 's \<times> PointerWrap"
    and rep :: "'s \<Rightarrow> u8 list"
    and copy :: "'s \<Rightarrow> 's \<Rightarrow> 's"
  assumes save: "pw_mode p = MODE_WRITE \<Longrightarrow> act s p = (s, pw_put (rep s) p)"
    and load: "pw_mode p = MODE_READ \<Longrightarrow> pw_holds (rep s0) p \<Longrightarrow> act s p = (copy s0 s, pw_skip (length (rep s0)) p)"
    and measure: "pw_mode p = MODE_MEASURE \<or> pw_mode p = MODE_VERIFY \<Longrightarrow> act s p = (s, pw_skip (length (rep s)) p)"
begin

lemma round_trip:
  assumes "pw_mode p = MODE_WRITE"
  shows "fst (act s p) = s"
    and "act e ((snd (act s p))\<lparr>pw_mode := MODE_READ, pw_ptr := pw_ptr p\<rparr>) =
      (copy s e, (snd (act s p))\<lparr>pw_mode := MODE_READ\<rparr>)"
proof -
  show "fst (act s p) = s" using save [OF assms] by simp
  have "pw_skip (length (rep s)) ((pw_put (rep s) p)\<lparr>pw_mode := MODE_READ, pw_ptr := pw_ptr p\<rparr>)
      = (pw_put (rep s) p)\<lparr>pw_mode := MODE_READ\<rparr>"
    by (simp add: pw_skip_def pw_put_def)
  with load [OF _ pw_holds_put] save [OF assms]
  show "act e ((snd (act s p))\<lparr>pw_mode := MODE_READ, pw_ptr := pw_ptr p\<rparr>) =
      (copy s e, (snd (act s p))\<lparr>pw_mode := MODE_READ\<rparr>)"
    by simp
qed

text \<open>The room a save takes is what measuring says.\<close>

lemma measured:
  assumes "pw_mode p = MODE_WRITE"
  shows "pw_ptr (snd (act s (p\<lparr>pw_mode := MODE_MEASURE\<rparr>))) = pw_ptr (snd (act s p))"
  using measure [of "p\<lparr>pw_mode := MODE_MEASURE\<rparr>" s] save [OF assms] by (simp add: pw_skip_def pw_put_def)

end

subsection \<open>The laws of the members\<close>

lemma DoVoid_modes:
  "pw_mode p = MODE_WRITE \<Longrightarrow> DoVoid bs p = (bs, pw_put bs p)"
  "pw_mode p = MODE_READ \<Longrightarrow> pw_holds bs0 p \<Longrightarrow> length bs = length bs0 \<Longrightarrow> DoVoid bs p = (bs0, pw_skip (length bs0) p)"
  "pw_mode p = MODE_MEASURE \<or> pw_mode p = MODE_VERIFY \<Longrightarrow> DoVoid bs p = (bs, pw_skip (length bs) p)"
  by (auto simp: DoVoid_def pw_put_def pw_skip_def pw_holds_def Let_def)

lemma serializer_Do: "8 dvd LENGTH('a) \<Longrightarrow> serializer Do word_bytes (\<lambda>x0 x. x0 :: 'a::len word)"
  by unfold_locales (simp_all add: Do_def DoVoid_modes bytes_word_bytes)

lemma serializer_Do_bool: "serializer Do_bool (\<lambda>x. word_bytes (if x then 1 else 0 :: u8)) (\<lambda>x0 x. x0)"
  by unfold_locales (auto simp: Do_bool_def Do_def DoVoid_modes bytes_word_bytes [where 'a = 8])

lemma length_concat_word_bytes:
  "length (concat (map (\<lambda>i. word_bytes (x i :: 'a::len word)) xs)) = length xs * (LENGTH('a) div 8)"
  by (induction xs) simp_all

lemma nth_chunk:
  assumes "j < n" and that: "\<And>i. length (f i) = s"
  shows "take s (drop (s * j) (concat (map f [0..<n]))) = f j"
proof -
  have "[0..<n] = [0..<j] @ j # [Suc j..<n]"
    using assms(1) upt_add_eq_append [of 0 j "n - j"] by (simp add: upt_conv_Cons)
  moreover have "length (concat (map f [0..<j])) = s * j"
    using that by (simp add: length_concat comp_def sum_list_triv)
  ultimately show ?thesis using that by simp
qed

lemma serializer_DoArray:
  assumes "8 dvd LENGTH('a)"
  shows "serializer (DoArray n) (\<lambda>x. concat (map (\<lambda>i. word_bytes (x (of_nat i))) [0..<n]))
    (\<lambda>x0 x i. if unat i < n then x0 i else x i :: 'a::len word)"
proof -
  have c: "bytes_word (take (LENGTH('a) div 8) (drop (LENGTH('a) div 8 * unat i)
      (concat (map (\<lambda>i. word_bytes (x (of_nat i) :: 'a word)) [0..<n])))) = x i" if "unat i < n"
    for x :: "'b::len word \<Rightarrow> 'a word" and i
    using that by (subst nth_chunk) (simp_all add: bytes_word_bytes assms)
  show ?thesis
    by unfold_locales (auto simp: DoArray_def DoVoid_modes length_concat_word_bytes c Let_def fun_eq_iff)
qed

lemma serializer_field:
  assumes "serializer act rep copy" and "\<And>s. put (get s) s = s"
  shows "serializer (do_field get put act) (\<lambda>s. rep (get s)) (\<lambda>s0 s. put (copy (get s0) (get s)) s)"
  using assms unfolding serializer_def by (auto simp: do_field_def)

lemma serializer_seq:
  assumes "serializer a ra ca" and "serializer b rb cb"
  shows "serializer (do_seq a b) (\<lambda>s. ra s @ rb s) (\<lambda>s0 s. cb s0 (ca s0 s))"
proof
  fix p :: PointerWrap and s :: 'a
  assume "pw_mode p = MODE_WRITE"
  then show "do_seq a b s p = (s, pw_put (ra s @ rb s) p)"
    using serializer.save [OF assms(1)] serializer.save [OF assms(2)] by (simp add: do_seq_def pw_put_append)
next
  fix p :: PointerWrap and s0 s :: 'a
  assume "pw_mode p = MODE_READ" "pw_holds (ra s0 @ rb s0) p"
  then show "do_seq a b s p = (cb s0 (ca s0 s), pw_skip (length (ra s0 @ rb s0)) p)"
    using serializer.load [OF assms(1), of p s0 s]
      serializer.load [OF assms(2), of "pw_skip (length (ra s0)) p" s0 "ca s0 s"]
    by (simp add: do_seq_def pw_holds_append pw_skip_skip)
next
  fix p :: PointerWrap and s :: 'a
  assume "pw_mode p = MODE_MEASURE \<or> pw_mode p = MODE_VERIFY"
  then show "do_seq a b s p = (s, pw_skip (length (ra s @ rb s)) p)"
    using serializer.measure [OF assms(1), of p s] serializer.measure [OF assms(2), of "pw_skip (length (ra s)) p" s]
    by (simp add: do_seq_def pw_skip_skip)
qed

interpretation do_bool: serializer Do_bool "\<lambda>x. word_bytes (if x then 1 else 0 :: u8)" "\<lambda>x0 x. x0"
  by (rule serializer_Do_bool)

end
