(* ===== verification/DSP_LLE.thy ===== *)
theory DSP_LLE
  imports DSP_Liveness Common_ChunkFile
begin

text \<open>
  The class the rest of the emulator sees (\<^verbatim>\<open>Core/HW/DSPLLE/DSPLLE.cpp\<close>): start-up from
  the ROM files, the control register, the mailboxes, the time slice of the scheduler and
  the save state. The state is the class's members with the DSP; what the class asks of
  the host (file contents, the determinism setting, the user's answer to the ROM
  warning) is an argument. Without the recompiler the DSP never runs on a thread of its
  own, so the events the class waits for play no role.
\<close>

unbundle bit_operations_syntax

record DSPLLE =
  lle_dsp :: SDSP
  m_wii :: bool
  m_is_dsp_on_thread :: bool
  m_cycle_count :: u32
  m_is_running :: bool
  s_request_disable_thread :: bool

subsection \<open>Start-up\<close>

datatype rom_file = User_IROM | User_COEF | Sys_IROM | Sys_COEF

text \<open>\<open>LoadDSPRom\<close>, of the bytes of a file if it can be read; \<open>None\<close> is the result \<^verbatim>\<open>false\<close>.\<close>

definition LoadDSPRom :: "u8 list option \<Rightarrow> nat \<Rightarrow> (u16 \<Rightarrow> u16) option" where
  "LoadDSPRom file size_in_bytes =
     (case file of
        None \<Rightarrow> None
      | Some bytes \<Rightarrow>
          if length bytes \<noteq> size_in_bytes then None
          else Some (\<lambda>i. if unat i < size_in_bytes div 2
                         then swap16 (le16 (bytes ! (2 * unat i)) (bytes ! (2 * unat i + 1))) else 0))"

definition FillDSPInitOptions ::
    "(rom_file \<Rightarrow> bool) \<Rightarrow> (rom_file \<Rightarrow> u8 list option) \<Rightarrow> ((u16 \<Rightarrow> u16) \<times> (u16 \<Rightarrow> u16)) option" where
  "FillDSPInitOptions Exists ReadFile =
     (let irom_file = (if \<not> Exists User_IROM then Sys_IROM else User_IROM);
          coef_file = (if \<not> Exists User_COEF then Sys_COEF else User_COEF)
      in case LoadDSPRom (ReadFile irom_file) 0x2000 of
           None \<Rightarrow> None
         | Some irom \<Rightarrow>
             (case LoadDSPRom (ReadFile coef_file) 0x1000 of
                None \<Rightarrow> None
              | Some coef \<Rightarrow> Some (irom, coef)))"

text \<open>
  The analysis while the opcode tables are still unset: every template is a null pointer,
  so the walk skips every word and only the idle loops are looked for.
\<close>

definition AnalyzeRange_unset :: "u16 \<Rightarrow> u16 \<Rightarrow> SDSP \<Rightarrow> SDSP" where
  "AnalyzeRange_unset start_addr end_addr d =
     d\<lparr>g_code_flags := scan_idle d start_addr end_addr (g_code_flags d)\<rparr>"

definition Analyze_unset :: "SDSP \<Rightarrow> SDSP" where
  "Analyze_unset d = AnalyzeRange_unset 0x8000 0x9000 (AnalyzeRange_unset 0x0000 0x1000 (Analyzer_Reset d))"

definition DSPCore_Reset_unset :: "SDSP \<Rightarrow> SDSP" where
  "DSPCore_Reset_unset d =
     Analyze_unset (d\<lparr>g_pc := DSP_RESET_VECTOR, g_r := (g_r d)\<lparr>r_wr := (\<lambda>_. 0xffff)\<rparr>\<rparr>)"

text \<open>
  \<open>tables_set\<close>: an earlier call in this process has run \<open>InitInstructionTable\<close>, which comes
  after the reset here. \<open>physical_base\<close> is the memory of the CPU; \<open>None\<close> is the result \<^verbatim>\<open>false\<close>.
  Without the recompiler \<open>dsp_thread\<close> is overridden.
\<close>

definition Initialize ::
    "bool \<Rightarrow> (rom_file \<Rightarrow> bool) \<Rightarrow> (rom_file \<Rightarrow> u8 list option) \<Rightarrow> bool \<Rightarrow> (u32 \<Rightarrow> u8 option) \<Rightarrow>
     bool \<Rightarrow> bool \<Rightarrow> DSPLLE \<Rightarrow> dsp_error + DSPLLE option" where
  "Initialize tables_set Exists ReadFile user_stops physical_base wii dsp_thread l =
     (let l1 = l\<lparr>s_request_disable_thread := False\<rparr> in
      case FillDSPInitOptions Exists ReadFile of
        None \<Rightarrow> Inr None
      | Some (irom, coef) \<Rightarrow>
          (case DSPCore_Init irom coef user_stops (lle_dsp l1) of
             None \<Rightarrow> Inr None
           | Some d \<Rightarrow>
               (let dsp_thread = False;
                    l2 = l1\<lparr>m_wii := wii, m_is_dsp_on_thread := dsp_thread\<rparr>;
                    d1 = d\<lparr>g_cpu_ram := physical_base\<rparr>
                in and_then (if tables_set then DSPCore_Reset d1 else Inr (DSPCore_Reset_unset d1)) (\<lambda>d2.
                     Inr (Some (l2\<lparr>lle_dsp := InitInstructionTable d2\<rparr>))))))"

definition Shutdown :: "DSPLLE \<Rightarrow> DSPLLE" where
  "Shutdown l = l\<lparr>lle_dsp := DSPCore_Shutdown (lle_dsp l)\<rparr>"

definition DSP_StopSoundStream :: "DSPLLE \<Rightarrow> DSPLLE" where
  "DSP_StopSoundStream l = (if m_is_dsp_on_thread l then l\<lparr>m_is_running := False\<rparr> else l)"

subsection \<open>Registers the CPU sees\<close>

definition DSP_WriteControlRegister :: "u16 \<Rightarrow> DSPLLE \<Rightarrow> dsp_error + (u16 \<times> DSPLLE)" where
  "DSP_WriteControlRegister value l =
     and_then (WriteCR value (lle_dsp l)) (\<lambda>d1.
       let l1 = l\<lparr>lle_dsp := d1\<rparr>;
           l2 = (if value AND 2 \<noteq> 0 then
                   (if \<not> m_is_dsp_on_thread l1 then
                      l1\<lparr>lle_dsp := DSPCore_CheckExceptions (DSPCore_CheckExternalInterrupt d1)\<rparr>
                    else l1\<lparr>s_request_disable_thread := True, lle_dsp := DSPCore_SetExternalInterrupt True d1\<rparr>)
                 else l1);
           (v, d3) = ReadCR (lle_dsp l2)
       in Inr (v, l2\<lparr>lle_dsp := d3\<rparr>))"

definition DSP_ReadControlRegister :: "DSPLLE \<Rightarrow> u16 \<times> DSPLLE" where
  "DSP_ReadControlRegister l = (let (v, d) = ReadCR (lle_dsp l) in (v, l\<lparr>lle_dsp := d\<rparr>))"

definition DSP_ReadMailBoxHigh :: "bool \<Rightarrow> DSPLLE \<Rightarrow> u16" where
  "DSP_ReadMailBoxHigh cpu_mailbox l =
     gdsp_mbox_read_h (if cpu_mailbox then MAILBOX_CPU else MAILBOX_DSP) (lle_dsp l)"

definition DSP_ReadMailBoxLow :: "bool \<Rightarrow> DSPLLE \<Rightarrow> dsp_error + (u16 \<times> DSPLLE)" where
  "DSP_ReadMailBoxLow cpu_mailbox l =
     and_then (gdsp_mbox_read_l (if cpu_mailbox then MAILBOX_CPU else MAILBOX_DSP) (lle_dsp l))
       (\<lambda>(v, d). Inr (v, l\<lparr>lle_dsp := d\<rparr>))"

definition DSP_WriteMailBoxHigh :: "bool \<Rightarrow> u16 \<Rightarrow> DSPLLE \<Rightarrow> DSPLLE" where
  "DSP_WriteMailBoxHigh cpu_mailbox value l =
     (if cpu_mailbox then l\<lparr>lle_dsp := gdsp_mbox_write_h MAILBOX_CPU value (lle_dsp l)\<rparr> else l)"

definition DSP_WriteMailBoxLow :: "bool \<Rightarrow> u16 \<Rightarrow> DSPLLE \<Rightarrow> DSPLLE" where
  "DSP_WriteMailBoxLow cpu_mailbox value l =
     (if cpu_mailbox then l\<lparr>lle_dsp := gdsp_mbox_write_l MAILBOX_CPU value (lle_dsp l)\<rparr> else l)"

subsection \<open>The time slice\<close>

text \<open>
  The division truncates towards zero. \<open>wants_determinism\<close> is \<^verbatim>\<open>Core::WantsDeterminism()\<close>;
  \<open>wakeups\<close> is what ends the waits of a stepping core, as in \<open>DSPCore_RunCycles\<close>.
\<close>

definition DSP_Update :: "bool \<Rightarrow> core_state list \<Rightarrow> int \<Rightarrow> DSPLLE \<Rightarrow> dsp_error + DSPLLE" where
  "DSP_Update wants_determinism wakeups cycles l =
     (let dsp_cycles = (if cycles < 0 then - (- cycles div 6) else cycles div 6) in
      if dsp_cycles \<le> 0 then Inr l
      else
        (let l1 = (if m_is_dsp_on_thread l \<and> (s_request_disable_thread l \<or> wants_determinism)
                   then (DSP_StopSoundStream l)\<lparr>m_is_dsp_on_thread := False, s_request_disable_thread := False\<rparr>
                   else l)
         in if \<not> m_is_dsp_on_thread l1 then
              and_then (DSPCore_RunCycles wakeups dsp_cycles (lle_dsp l1)) (\<lambda>(_, d). Inr (l1\<lparr>lle_dsp := d\<rparr>))
            else Inr (l1\<lparr>m_cycle_count := m_cycle_count l1 + of_int dsp_cycles\<rparr>)))"

definition DSP_UpdateRate :: u32 where "DSP_UpdateRate = 12600"

subsection \<open>What every operation maintains\<close>

lemma maintains_hw: "hw_frame d d' \<Longrightarrow> maintains d d'"
  by (rule keeps_maintains [OF hw_frame_keeps])

lemma maintains_Analyze: "Analyze d = Inr d' \<Longrightarrow> maintains d d'"
  by (rule maintains_hw [OF Analyze_frame])

lemma maintains_Reset:
  assumes "DSPCore_Reset d = Inr d'"
  shows "maintains d d' \<and> analysed d'"
proof -
  let ?d1 = "d\<lparr>g_pc := DSP_RESET_VECTOR, g_r := (g_r d)\<lparr>r_wr := (\<lambda>_. 0xffff)\<rparr>\<rparr>"
  have "maintains d ?d1" by simp
  moreover have "maintains ?d1 d'" using assms unfolding DSPCore_Reset_def by (rule maintains_Analyze)
  ultimately show ?thesis
    using Analyze_analysed assms unfolding DSPCore_Reset_def by (blast intro: maintains_trans)
qed

lemma maintains_WriteCR:
  assumes "WriteCR v d = Inr d'"
  shows "maintains d d' \<and> (v AND 1 \<noteq> 0 \<longrightarrow> analysed d')"
  using assms maintains_Reset [of d]
  by (auto simp: WriteCR_def and_then_eq_Inr_conv split: if_splits)

lemma maintains_CheckExternalInterrupt: "maintains d (DSPCore_CheckExternalInterrupt d)"
  by (simp add: DSPCore_CheckExternalInterrupt_def DSPCore_SetException_def Let_def)

lemma maintains_ReadCR: "maintains d (snd (ReadCR d))"
  by (simp add: ReadCR_def Let_def)

lemma maintains_Shutdown: "maintains d (DSPCore_Shutdown d)"
  by (simp add: DSPCore_Shutdown_def)

lemma maintains_WriteRegister: "maintains d (DSPCore_WriteRegister r v d)"
  by (simp add: DSPCore_WriteRegister_def Let_def)

text \<open>
  \<open>lle_reach b l\<close>: \<open>l\<close> is a state the emulator can be in; \<open>b\<close> tells that the program has been
  analysed since the opcode tables were set. A run starts with \<open>Initialize\<close> (the arrays of
  the write-back log have their size before it), and goes on with calls of the CPU, the
  scheduler and the debugger, in any order.
\<close>

inductive lle_reach :: "bool \<Rightarrow> DSPLLE \<Rightarrow> bool" where
  init: "length (g_writeBackLog (lle_dsp l0)) = WRITEBACK_LOG_SIZE \<Longrightarrow>
    Initialize ts ex rf us pb w th l0 = Inr (Some l) \<Longrightarrow> lle_reach ts l"
| write_cr: "lle_reach b l \<Longrightarrow> DSP_WriteControlRegister v l = Inr (r, l') \<Longrightarrow> lle_reach (b \<or> v AND 1 \<noteq> 0) l'"
| read_cr: "lle_reach b l \<Longrightarrow> lle_reach b (snd (DSP_ReadControlRegister l))"
| read_mail: "lle_reach b l \<Longrightarrow> DSP_ReadMailBoxLow c l = Inr (r, l') \<Longrightarrow> lle_reach b l'"
| write_mail_high: "lle_reach b l \<Longrightarrow> lle_reach b (DSP_WriteMailBoxHigh c v l)"
| write_mail_low: "lle_reach b l \<Longrightarrow> lle_reach b (DSP_WriteMailBoxLow c v l)"
| update: "lle_reach b l \<Longrightarrow> DSP_Update det ws cycles l = Inr l' \<Longrightarrow> lle_reach b l'"
| set_state: "lle_reach b l \<Longrightarrow> lle_reach b (l\<lparr>lle_dsp := DSPCore_SetState s (lle_dsp l)\<rparr>)"
| write_register: "lle_reach b l \<Longrightarrow> lle_reach b (l\<lparr>lle_dsp := DSPCore_WriteRegister n v (lle_dsp l)\<rparr>)"
| shutdown: "lle_reach b l \<Longrightarrow> lle_reach b (Shutdown l)"

definition lle_inv :: "bool \<Rightarrow> DSPLLE \<Rightarrow> bool" where
  "lle_inv b l \<longleftrightarrow> dsp_ok (lle_dsp l) \<and> \<not> m_is_dsp_on_thread l \<and> (b \<longrightarrow> analysed (lle_dsp l))"

lemma lle_inv_step:
  assumes "lle_inv b l" and "maintains (lle_dsp l) (lle_dsp l')" and "m_is_dsp_on_thread l' = m_is_dsp_on_thread l"
  shows "lle_inv b l'"
  using assms by (auto simp: lle_inv_def maintains_def)

lemma dsp_ok_Init:
  assumes "DSPCore_Init irom coef us d = Some d'" and "length (g_writeBackLog d) = WRITEBACK_LOG_SIZE"
  shows "stack_ptr_ok d' \<and> acc_ok (g_accelerator d') \<and> length (g_writeBackLog d') = WRITEBACK_LOG_SIZE"
  using assms
  by (auto simp: DSPCore_Init_def Let_def gdsp_ifx_init_def stack_ptr_ok_def acc_ok_def accelerator_zero_def
      split: if_splits)

lemma lle_inv_Initialize:
  assumes "length (g_writeBackLog (lle_dsp l0)) = WRITEBACK_LOG_SIZE"
    and "Initialize ts ex rf us pb w th l0 = Inr (Some l)"
  shows "lle_inv ts l"
proof -
  from assms(2) obtain irom coef d d2 where
    d: "DSPCore_Init irom coef us (lle_dsp l0) = Some d" and
    r: "(if ts then DSPCore_Reset (d\<lparr>g_cpu_ram := pb\<rparr>) else Inr (DSPCore_Reset_unset (d\<lparr>g_cpu_ram := pb\<rparr>))) = Inr d2" and
    l: "l = l0\<lparr>s_request_disable_thread := False, m_wii := w, m_is_dsp_on_thread := False, lle_dsp := InitInstructionTable d2\<rparr>"
    by (auto simp: Initialize_def Let_def and_then_eq_Inr_conv split: option.splits)
  note i = dsp_ok_Init [OF d assms(1)]
  let ?ok = "\<lambda>x. stack_ptr_ok x \<and> acc_ok (g_accelerator x) \<and> length (g_writeBackLog x) = WRITEBACK_LOG_SIZE"
  have "?ok d2 \<and> (ts \<longrightarrow> analysed d2)"
  proof (cases ts)
    case True
    with r have a: "Analyze (d\<lparr>g_cpu_ram := pb, g_pc := DSP_RESET_VECTOR, g_r := (g_r d)\<lparr>r_wr := (\<lambda>_. 0xffff)\<rparr>\<rparr>) = Inr d2"
      by (simp add: DSPCore_Reset_def)
    from Analyze_frame [OF a] Analyze_analysed [OF a] i show ?thesis
      by (auto simp: hw_frame_def stack_ptr_ok_def)
  next
    case False
    with r i show ?thesis
      by (auto simp: DSPCore_Reset_unset_def Analyze_unset_def AnalyzeRange_unset_def Analyzer_Reset_def stack_ptr_ok_def)
  qed
  then show ?thesis
    unfolding l by (auto simp: lle_inv_def dsp_ok_def InitInstructionTable_def stack_ptr_ok_def logged_free WRITEBACK_LOG_SIZE_def)
qed

lemma lle_inv_WriteControlRegister:
  assumes "lle_inv b l" and "DSP_WriteControlRegister v l = Inr (r, l')"
  shows "lle_inv (b \<or> v AND 1 \<noteq> 0) l'"
proof -
  from assms(2) obtain d1 where d1: "WriteCR v (lle_dsp l) = Inr d1" and
    l': "l' = l\<lparr>lle_dsp := snd (ReadCR (if v AND 2 \<noteq> 0 then DSPCore_CheckExceptions (DSPCore_CheckExternalInterrupt d1) else d1))\<rparr>"
    using assms(1)
    by (auto simp: DSP_WriteControlRegister_def lle_inv_def Let_def and_then_eq_Inr_conv split_beta)
  have "lle_inv (b \<or> v AND 1 \<noteq> 0) (l\<lparr>lle_dsp := d1\<rparr>)"
    using assms(1) maintains_WriteCR [OF d1] by (auto simp: lle_inv_def maintains_def)
  moreover have "maintains d1 (lle_dsp l')"
    unfolding l' using maintains_trans [OF maintains_CheckExternalInterrupt maintains_CheckExceptions]
    by (auto intro: maintains_trans [OF _ maintains_ReadCR])
  ultimately show ?thesis by (rule lle_inv_step [where l = "l\<lparr>lle_dsp := d1\<rparr>", simplified]) (simp add: l')
qed

lemma lle_inv_Update:
  assumes "lle_inv b l" and "DSP_Update det ws cycles l = Inr l'"
  shows "lle_inv b l'"
proof -
  have "l' = l \<or> (\<exists>c v d. DSPCore_RunCycles ws c (lle_dsp l) = Inr (v, d) \<and> l' = l\<lparr>lle_dsp := d\<rparr>)"
    using assms
    by (auto simp: DSP_Update_def lle_inv_def Let_def and_then_eq_Inr_conv split: if_splits)
  with assms(1) show ?thesis
    by (auto intro: lle_inv_step [OF _ maintains_DSPCore_RunCycles])
qed

lemma lle_reach_inv: "lle_reach b l \<Longrightarrow> lle_inv b l"
proof (induction rule: lle_reach.induct)
  case (init l0 ts ex rf us pb w th l)
  then show ?case by (rule lle_inv_Initialize)
next
  case (write_cr b l v r l')
  from write_cr(3,2) show ?case by (rule lle_inv_WriteControlRegister)
next
  case (read_cr b l)
  from read_cr(2) show ?case
    by (rule lle_inv_step) (simp_all add: DSP_ReadControlRegister_def split_beta maintains_ReadCR)
next
  case (read_mail b l c r l')
  then show ?case
    by (auto simp: DSP_ReadMailBoxLow_def and_then_eq_Inr_conv intro: lle_inv_step [OF _ maintains_hw [OF mbox_read_l_frame]])
next
  case (write_mail_high b l c v)
  then show ?case
    by (auto simp: DSP_WriteMailBoxHigh_def intro: lle_inv_step [OF _ maintains_hw])
next
  case (write_mail_low b l c v)
  then show ?case
    by (auto simp: DSP_WriteMailBoxLow_def intro: lle_inv_step [OF _ maintains_hw])
next
  case (update b l det ws cycles l')
  from update(3,2) show ?case by (rule lle_inv_Update)
next
  case (set_state b l s)
  from set_state(2) show ?case by (rule lle_inv_step) (simp_all add: DSPCore_SetState_def)
next
  case (write_register b l n v)
  from write_register(2) show ?case by (rule lle_inv_step) (simp_all add: maintains_WriteRegister)
next
  case (shutdown b l)
  from shutdown(2) show ?case by (rule lle_inv_step) (simp_all add: Shutdown_def maintains_Shutdown)
qed

text \<open>
  C7. In every state the emulator reaches, whatever the CPU, the scheduler and the
  debugger do and whatever program the DSP runs: every stack pointer is inside its ring,
  so no push or pop touches memory outside the stacks; the write-back log is free between
  instructions; the accelerator's start and end addresses are within their 30 bits; the
  DSP is not on a thread of its own; and once the program has been analysed with the
  opcode tables in place, the loops of the program in memory stay marked, so that the
  interpreter sees the end of every one of them.
\<close>

theorem lle_invariant:
  assumes "lle_reach b l"
  shows "(\<forall>i. g_reg_stack_ptr (lle_dsp l) i < 32) \<and>
    g_writeBackLogIdx (lle_dsp l) = replicate WRITEBACK_LOG_SIZE (-1) \<and>
    m_start_address (g_accelerator (lle_dsp l)) AND START_END_ADDRESS_MASK = m_start_address (g_accelerator (lle_dsp l)) \<and>
    m_end_address (g_accelerator (lle_dsp l)) AND START_END_ADDRESS_MASK = m_end_address (g_accelerator (lle_dsp l)) \<and>
    \<not> m_is_dsp_on_thread l \<and>
    (b \<longrightarrow> (\<forall>a. inst_at (lle_dsp l) 0 0x1000 a \<and> a < 0x1000 \<or> inst_at (lle_dsp l) 0x8000 0x9000 a \<and> a < 0x9000 \<longrightarrow>
       marked (lle_dsp l) a (g_code_flags (lle_dsp l))))"
  using lle_reach_inv [OF assms]
  by (simp add: lle_inv_def dsp_ok_def logged_free stack_ptr_ok_def acc_ok_def analysed_iff)

text \<open>
  The state after a start with ROM images of the right size, written out for the witnesses:
  files of zero bytes, and a user who goes on when the images are unknown.
\<close>

definition zero_lle :: DSPLLE where
  "zero_lle = \<lparr>lle_dsp = dsp_zero, m_wii = False, m_is_dsp_on_thread = False, m_cycle_count = 0,
     m_is_running = False, s_request_disable_thread = False\<rparr>"

definition zero_roms :: "rom_file \<Rightarrow> u8 list option" where
  "zero_roms f = Some (replicate (if f = User_IROM \<or> f = Sys_IROM then 0x2000 else 0x1000) 0)"

lemma zero_boot:
  "\<exists>l. Initialize ts (\<lambda>_. False) zero_roms False pb False True zero_lle = Inr (Some l)"
proof -
  obtain irom coef where f: "FillDSPInitOptions (\<lambda>_. False) zero_roms = Some (irom, coef)"
    by (simp add: FillDSPInitOptions_def LoadDSPRom_def zero_roms_def)
  have "VerifyRoms False x" for x by (simp add: VerifyRoms_def Let_def)
  then obtain d where d: "DSPCore_Init irom coef False dsp_zero = Some d"
    by (simp add: DSPCore_Init_def Let_def)
  from Analyze_total obtain d2 where "DSPCore_Reset (d\<lparr>g_cpu_ram := pb\<rparr>) = Inr d2"
    unfolding DSPCore_Reset_def by blast
  with f d show ?thesis by (simp add: Initialize_def zero_lle_def Let_def)
qed

theorem lle_invariant_witness:
  "\<exists>l. lle_reach True l \<and> g_writeBackLogIdx (lle_dsp l) = replicate WRITEBACK_LOG_SIZE (-1)"
proof -
  obtain l where "Initialize True (\<lambda>_. False) zero_roms False (\<lambda>_. None) False True zero_lle = Inr (Some l)"
    using zero_boot by blast
  then have "lle_reach True l"
    by (rule lle_reach.init [rotated]) (simp add: zero_lle_def zero_defs WRITEBACK_LOG_SIZE_def)
  with lle_invariant [OF this] show ?thesis by blast
qed

subsection \<open>The first start\<close>

lemma bit_scan_idle: "n \<noteq> 1 \<Longrightarrow> bit (scan_idle d s e f x) n = bit (f x) n"
proof -
  assume n: "n \<noteq> 1"
  have m: "bit (mark_idle d sig a f x) n = bit (f x) n" for sig a f
    using n bit_exp_iff [of 1 n, where 'a = u8] by (auto simp: mark_idle_def bit_or_flag)
  have inner: "bit (fold (mark_idle d sig) xs f x) n = bit (f x) n" for sig xs f
    by (induction xs arbitrary: f) (simp_all add: m)
  have "bit (fold (\<lambda>sig f. fold (mark_idle d sig) (addr_range s e) f) sigs f x) n = bit (f x) n" for sigs f
    by (induction sigs arbitrary: f) (simp_all add: inner)
  then show ?thesis by (simp add: scan_idle_def)
qed

text \<open>
  The analysis of the first start in a process finds nothing but idle loops:
  \<open>Initialize\<close> resets the core, which analyses the program, before it sets the opcode
  tables, so no instruction and no loop end is marked until the next reset or program
  load. On a later start the program in the boot ROM is marked.
\<close>

theorem first_start_unmarked:
  assumes "length (g_writeBackLog (lle_dsp l0)) = WRITEBACK_LOG_SIZE"
    and "Initialize tables_set Exists ReadFile user_stops pb wii th l0 = Inr (Some l)"
  shows "(\<not> tables_set \<longrightarrow> (\<forall>a. \<not> bit (g_code_flags (lle_dsp l) a) 0 \<and> \<not> bit (g_code_flags (lle_dsp l) a) 3)) \<and>
    (tables_set \<longrightarrow> bit (g_code_flags (lle_dsp l) DSP_RESET_VECTOR) 0)"
proof (intro conjI impI allI)
  fix a assume "\<not> tables_set"
  then obtain d where "lle_dsp l = InitInstructionTable (DSPCore_Reset_unset d)"
    using assms(2) by (auto simp: Initialize_def Let_def split: option.splits)
  then show "\<not> bit (g_code_flags (lle_dsp l) a) 0" "\<not> bit (g_code_flags (lle_dsp l) a) 3"
    by (simp_all add: InitInstructionTable_def DSPCore_Reset_unset_def Analyze_unset_def AnalyzeRange_unset_def
        Analyzer_Reset_def bit_scan_idle)
next
  assume "tables_set"
  with lle_inv_Initialize [OF assms] have "analysed (lle_dsp l)" by (simp add: lle_inv_def)
  with inst_at.start [of "lle_dsp l" "0x8000" "0x9000"] show "bit (g_code_flags (lle_dsp l) DSP_RESET_VECTOR) 0"
    unfolding analysed_iff marked_def DSP_RESET_VECTOR_def by (auto simp: word_less_def)
qed

theorem first_start_unmarked_witness:
  "\<exists>l. Initialize False (\<lambda>_. False) zero_roms False (\<lambda>_. None) False True zero_lle = Inr (Some l) \<and>
     \<not> bit (g_code_flags (lle_dsp l) DSP_RESET_VECTOR) 0"
proof -
  obtain l where "Initialize False (\<lambda>_. False) zero_roms False (\<lambda>_. None) False True zero_lle = Inr (Some l)"
    using zero_boot by blast
  with first_start_unmarked [of zero_lle False "\<lambda>_. False" zero_roms False "\<lambda>_. None" False True l] show ?thesis
    by (auto simp: zero_lle_def zero_defs WRITEBACK_LOG_SIZE_def)
qed

end
