(* ===== verification/DSP_SaveState.thy ===== *)
theory DSP_SaveState
  imports DSP_LLE
begin

text \<open>
  The save state of the DSP (\<open>DSPLLE::DoState\<close> of \<^verbatim>\<open>Core/HW/DSPLLE/DSPLLE.cpp\<close> and
  \<open>Accelerator::DoState\<close> of \<^verbatim>\<open>Core/DSP/DSPAccelerator.cpp\<close>): the members in the order the
  source names them, the layout of their bytes, and the proof that loading restores what
  was saved.
\<close>

unbundle bit_operations_syntax

fun do_all :: "('s \<Rightarrow> PointerWrap \<Rightarrow> 's \<times> PointerWrap) list \<Rightarrow> 's \<Rightarrow> PointerWrap \<Rightarrow> 's \<times> PointerWrap" where
  "do_all [] = (\<lambda>s p. (s, p))"
| "do_all (a # as) = do_seq a (do_all as)"

definition Accelerator_DoState :: "Accelerator \<Rightarrow> PointerWrap \<Rightarrow> Accelerator \<times> PointerWrap" where
  "Accelerator_DoState = do_all [
     do_field m_start_address (\<lambda>v a. a\<lparr>m_start_address := v\<rparr>) Do,
     do_field m_end_address (\<lambda>v a. a\<lparr>m_end_address := v\<rparr>) Do,
     do_field m_current_address (\<lambda>v a. a\<lparr>m_current_address := v\<rparr>) Do,
     do_field m_sample_format (\<lambda>v a. a\<lparr>m_sample_format := v\<rparr>) Do,
     do_field m_yn1 (\<lambda>v a. a\<lparr>m_yn1 := v\<rparr>) Do,
     do_field m_yn2 (\<lambda>v a. a\<lparr>m_yn2 := v\<rparr>) Do,
     do_field m_pred_scale (\<lambda>v a. a\<lparr>m_pred_scale := v\<rparr>) Do,
     do_field m_reads_stopped (\<lambda>v a. a\<lparr>m_reads_stopped := v\<rparr>) Do_bool]"

text \<open>
  \<^verbatim>\<open>p.Do(g_dsp.r)\<close> copies the structure as it is in memory: the members in their order, and
  four bytes of padding before \<open>prod\<close>, which holds nothing.
\<close>

definition Do_padding :: "nat \<Rightarrow> 's \<Rightarrow> PointerWrap \<Rightarrow> 's \<times> PointerWrap" where
  "Do_padding n s p = (s, snd (DoVoid (replicate n 0) p))"

definition Do_regs :: "DSP_Regs \<Rightarrow> PointerWrap \<Rightarrow> DSP_Regs \<times> PointerWrap" where
  "Do_regs = do_all [
     do_field r_ar (\<lambda>v r. r\<lparr>r_ar := v\<rparr>) (DoArray 4),
     do_field r_ix (\<lambda>v r. r\<lparr>r_ix := v\<rparr>) (DoArray 4),
     do_field r_wr (\<lambda>v r. r\<lparr>r_wr := v\<rparr>) (DoArray 4),
     do_field r_st (\<lambda>v r. r\<lparr>r_st := v\<rparr>) (DoArray 4),
     do_field r_cr (\<lambda>v r. r\<lparr>r_cr := v\<rparr>) Do,
     do_field r_sr (\<lambda>v r. r\<lparr>r_sr := v\<rparr>) Do,
     Do_padding 4,
     do_field r_prod (\<lambda>v r. r\<lparr>r_prod := v\<rparr>) Do,
     do_field r_ax (\<lambda>v r. r\<lparr>r_ax := v\<rparr>) (DoArray 2),
     do_field r_ac (\<lambda>v r. r\<lparr>r_ac := v\<rparr>) (DoArray 2)]"

definition Do_reg_stack :: "2 word \<Rightarrow> SDSP \<Rightarrow> PointerWrap \<Rightarrow> SDSP \<times> PointerWrap" where
  "Do_reg_stack i = do_field (\<lambda>d. g_reg_stack d i) (\<lambda>v d. d\<lparr>g_reg_stack := (g_reg_stack d)(i := v)\<rparr>) (DoArray 32)"

definition Do_mbox :: "Mailbox \<Rightarrow> SDSP \<Rightarrow> PointerWrap \<Rightarrow> SDSP \<times> PointerWrap" where
  "Do_mbox m = do_field (\<lambda>d. g_mbox d m) (\<lambda>v d. d\<lparr>g_mbox := (g_mbox d)(m := v)\<rparr>) Do"

text \<open>The members up to \<open>iram\<close>, after which a loaded program is analysed, and those behind it.\<close>

definition Do_dsp1 :: "SDSP \<Rightarrow> PointerWrap \<Rightarrow> SDSP \<times> PointerWrap" where
  "Do_dsp1 = do_all [
     do_field g_r (\<lambda>v d. d\<lparr>g_r := v\<rparr>) Do_regs,
     do_field g_pc (\<lambda>v d. d\<lparr>g_pc := v\<rparr>) Do,
     do_field g_cr (\<lambda>v d. d\<lparr>g_cr := v\<rparr>) Do,
     do_field g_reg_stack_ptr (\<lambda>v d. d\<lparr>g_reg_stack_ptr := v\<rparr>) (DoArray 4),
     do_field g_exceptions (\<lambda>v d. d\<lparr>g_exceptions := v\<rparr>) Do,
     do_field g_external_interrupt_waiting (\<lambda>v d. d\<lparr>g_external_interrupt_waiting := v\<rparr>) Do_bool,
     Do_reg_stack 0, Do_reg_stack 1, Do_reg_stack 2, Do_reg_stack 3,
     do_field g_step_counter (\<lambda>v d. d\<lparr>g_step_counter := v\<rparr>) Do,
     do_field g_ifx_regs (\<lambda>v d. d\<lparr>g_ifx_regs := v\<rparr>) (DoArray 256),
     do_field g_accelerator (\<lambda>v d. d\<lparr>g_accelerator := v\<rparr>) Accelerator_DoState,
     Do_mbox MAILBOX_CPU, Do_mbox MAILBOX_DSP,
     do_field g_iram (\<lambda>v d. d\<lparr>g_iram := v\<rparr>) (DoArray DSP_IRAM_SIZE)]"

definition Do_dsp2 :: "SDSP \<Rightarrow> PointerWrap \<Rightarrow> SDSP \<times> PointerWrap" where
  "Do_dsp2 = do_all [
     do_field g_dram (\<lambda>v d. d\<lparr>g_dram := v\<rparr>) (DoArray 0x1000),
     do_field g_init_hax (\<lambda>v d. d\<lparr>g_init_hax := v\<rparr>) Do_bool]"

text \<open>
  A state of the high-level emulation is refused: the rest of the save state is then only
  skipped.
\<close>

definition DoState :: "DSPLLE \<Rightarrow> PointerWrap \<Rightarrow> dsp_error + (DSPLLE \<times> PointerWrap)" where
  "DoState l p =
     (let (is_hle, p1) = Do_bool False p in
      if is_hle \<and> pw_mode p1 = MODE_READ then Inr (l, SetMode MODE_VERIFY p1)
      else
        (let (d1, p2) = Do_dsp1 (lle_dsp l) p1 in
         and_then (if pw_mode p2 = MODE_READ then CodeLoaded d1 else Inr d1) (\<lambda>d2.
           let (d3, p3) = Do_dsp2 d2 p2;
               (c, p4) = Do (m_cycle_count l) p3
           in Inr (l\<lparr>lle_dsp := d3, m_cycle_count := c\<rparr>, p4))))"

subsection \<open>Layout\<close>

lemma serializer_nil: "serializer (\<lambda>s p. (s, p)) (\<lambda>s. []) (\<lambda>s0 s. s)"
  by unfold_locales (auto simp: pw_put_def pw_skip_def fun_eq_iff intro!: PointerWrap.equality)

lemma serializer_all_Cons:
  "serializer a ra ca \<Longrightarrow> serializer (do_all as) rb cb \<Longrightarrow>
   serializer (do_all (a # as)) (\<lambda>s. ra s @ rb s) (\<lambda>s0 s. cb s0 (ca s0 s))"
  by (simp add: serializer_seq)

lemma serializer_all_Nil: "serializer (do_all []) (\<lambda>s. []) (\<lambda>s0 s. s)"
  by (simp add: serializer_nil)

lemma serializer_padding: "serializer (Do_padding n) (\<lambda>s. replicate n 0) (\<lambda>s0 s. s)"
  by unfold_locales (auto simp: Do_padding_def DoVoid_modes)

lemma serializer_cong:
  "serializer act r c \<Longrightarrow> (\<And>s. r s = r' s) \<Longrightarrow> (\<And>s0 s. c s0 s = c' s0 s) \<Longrightarrow> serializer act r' c'"
  by (simp add: serializer_def)

definition array_bytes :: "nat \<Rightarrow> ('i::len word \<Rightarrow> 'a::len word) \<Rightarrow> u8 list" where
  "array_bytes n x = concat (map (\<lambda>i. word_bytes (x (of_nat i))) [0..<n])"

definition bool_bytes :: "bool \<Rightarrow> u8 list" where
  "bool_bytes b = word_bytes (if b then 1 else 0 :: u8)"

lemmas serializer_members =
  serializer_all_Cons serializer_all_Nil serializer_padding serializer_Do_bool [folded bool_bytes_def]
  serializer_Do [where 'a = 8, simplified] serializer_Do [where 'a = 16, simplified]
  serializer_Do [where 'a = 32, simplified] serializer_Do [where 'a = 64, simplified]
  serializer_DoArray [where 'a = 8, simplified, folded array_bytes_def]
  serializer_DoArray [where 'a = 16, simplified, folded array_bytes_def]
  serializer_DoArray [where 'a = 32, simplified, folded array_bytes_def]
  serializer_DoArray [where 'a = 64, simplified, folded array_bytes_def]

definition accelerator_bytes :: "Accelerator \<Rightarrow> u8 list" where
  "accelerator_bytes a = word_bytes (m_start_address a) @ word_bytes (m_end_address a) @
     word_bytes (m_current_address a) @ word_bytes (m_sample_format a) @ word_bytes (m_yn1 a) @
     word_bytes (m_yn2 a) @ word_bytes (m_pred_scale a) @ bool_bytes (m_reads_stopped a)"

interpretation accelerator_state: serializer Accelerator_DoState accelerator_bytes "\<lambda>a0 a. a0"
  unfolding Accelerator_DoState_def
  by (rule serializer_cong, (rule serializer_members serializer_field | (simp; fail))+)
    (simp_all add: accelerator_bytes_def)

lemma array_all [simp]: "(\<lambda>i :: 2 word. if unat i < 4 then f i else g i) = f"
  "(\<lambda>i :: 8 word. if unat i < 256 then f' i else g' i) = f'" "(\<lambda>i :: 1 word. if unat i < 2 then h i else k i) = h"
proof -
  have "unat i < 4" for i :: "2 word" using unsigned_less [of i, where ?'a = nat] by simp
  moreover have "unat i < 256" for i :: "8 word" using unsigned_less [of i, where ?'a = nat] by simp
  moreover have "unat i < 2" for i :: "1 word" using unsigned_less [of i, where ?'a = nat] by simp
  ultimately show "(\<lambda>i :: 2 word. if unat i < 4 then f i else g i) = f"
    "(\<lambda>i :: 8 word. if unat i < 256 then f' i else g' i) = f'" "(\<lambda>i :: 1 word. if unat i < 2 then h i else k i) = h"
    by auto
qed

definition regs_bytes :: "DSP_Regs \<Rightarrow> u8 list" where
  "regs_bytes r = array_bytes 4 (r_ar r) @ array_bytes 4 (r_ix r) @ array_bytes 4 (r_wr r) @
     array_bytes 4 (r_st r) @ word_bytes (r_cr r) @ word_bytes (r_sr r) @ replicate 4 0 @
     word_bytes (r_prod r) @ array_bytes 2 (r_ax r) @ array_bytes 2 (r_ac r)"

interpretation regs_state: serializer Do_regs regs_bytes "\<lambda>r0 r. r0"
  unfolding Do_regs_def
  by (rule serializer_cong, (rule serializer_members serializer_field | (simp; fail))+)
    (simp_all add: regs_bytes_def)


lemma serializer_reg_stack:
  "serializer (Do_reg_stack i) (\<lambda>d. array_bytes 32 (g_reg_stack d i))
    (\<lambda>d0 d. d\<lparr>g_reg_stack := (g_reg_stack d)(i := (\<lambda>k. if unat k < 32 then g_reg_stack d0 i k else g_reg_stack d i k))\<rparr>)"
  unfolding Do_reg_stack_def by (rule serializer_members serializer_field)+ simp

lemma serializer_mbox:
  "serializer (Do_mbox m) (\<lambda>d. word_bytes (g_mbox d m)) (\<lambda>d0 d. d\<lparr>g_mbox := (g_mbox d)(m := g_mbox d0 m)\<rparr>)"
  unfolding Do_mbox_def by (rule serializer_members serializer_field)+ simp

definition dsp1_bytes :: "SDSP \<Rightarrow> u8 list" where
  "dsp1_bytes d = regs_bytes (g_r d) @ word_bytes (g_pc d) @ word_bytes (g_cr d) @
     array_bytes 4 (g_reg_stack_ptr d) @ word_bytes (g_exceptions d) @
     bool_bytes (g_external_interrupt_waiting d) @ array_bytes 32 (g_reg_stack d 0) @
     array_bytes 32 (g_reg_stack d 1) @ array_bytes 32 (g_reg_stack d 2) @ array_bytes 32 (g_reg_stack d 3) @
     word_bytes (g_step_counter d) @ array_bytes 256 (g_ifx_regs d) @ accelerator_bytes (g_accelerator d) @
     word_bytes (g_mbox d MAILBOX_CPU) @ word_bytes (g_mbox d MAILBOX_DSP) @ array_bytes DSP_IRAM_SIZE (g_iram d)"

definition dsp2_bytes :: "SDSP \<Rightarrow> u8 list" where
  "dsp2_bytes d = array_bytes 0x1000 (g_dram d) @ bool_bytes (g_init_hax d)"

text \<open>
  What loading leaves in \<open>d\<close> of a saved \<open>d0\<close>. Of the memories only the words that exist are
  copied, of each stack the 32 entries of its ring.
\<close>

definition copy_below :: "nat \<Rightarrow> ('i::len word \<Rightarrow> 'v) \<Rightarrow> ('i word \<Rightarrow> 'v) \<Rightarrow> 'i word \<Rightarrow> 'v" where
  "copy_below n m0 m = (\<lambda>i. if unat i < n then m0 i else m i)"

definition copy_dsp1 :: "SDSP \<Rightarrow> SDSP \<Rightarrow> SDSP" where
  "copy_dsp1 d0 d = d\<lparr>g_r := g_r d0, g_pc := g_pc d0, g_cr := g_cr d0, g_reg_stack_ptr := g_reg_stack_ptr d0,
     g_exceptions := g_exceptions d0, g_external_interrupt_waiting := g_external_interrupt_waiting d0,
     g_reg_stack := (\<lambda>i. copy_below 32 (g_reg_stack d0 i) (g_reg_stack d i)), g_step_counter := g_step_counter d0,
     g_ifx_regs := g_ifx_regs d0, g_accelerator := g_accelerator d0, g_mbox := g_mbox d0,
     g_iram := copy_below DSP_IRAM_SIZE (g_iram d0) (g_iram d)\<rparr>"

definition copy_dsp2 :: "SDSP \<Rightarrow> SDSP \<Rightarrow> SDSP" where
  "copy_dsp2 d0 d = d\<lparr>g_dram := copy_below 0x1000 (g_dram d0) (g_dram d), g_init_hax := g_init_hax d0\<rparr>"

lemma word2_cases: "i = 0 \<or> i = 1 \<or> i = 2 \<or> i = 3" for i :: "2 word"
proof -
  have "unat i < 4" using unsigned_less [of i, where ?'a = nat] by simp
  then have "unat i = unat (0 :: 2 word) \<or> unat i = unat (1 :: 2 word) \<or> unat i = unat (2 :: 2 word) \<or> unat i = unat (3 :: 2 word)"
    by auto
  then show ?thesis by (metis word_unat_eqI)
qed

lemma all_stacks: "f(0 := a 0, 1 := a 1, 2 := a 2, 3 := a 3) = a" for f :: "2 word \<Rightarrow> 'v"
proof
  fix i :: "2 word"
  show "(f(0 := a 0, 1 := a 1, 2 := a 2, 3 := a 3)) i = a i"
    using word2_cases [of i] by auto
qed

lemma all_mboxes: "f(MAILBOX_CPU := a MAILBOX_CPU, MAILBOX_DSP := a MAILBOX_DSP) = a"
proof
  fix m show "(f(MAILBOX_CPU := a MAILBOX_CPU, MAILBOX_DSP := a MAILBOX_DSP)) m = a m" by (cases m) simp_all
qed

lemma all_stacks_copied:
  "g(0 := copy_below 32 (g0 0) (g 0), 1 := copy_below 32 (g0 1) (g 1), 2 := copy_below 32 (g0 2) (g 2),
     3 := copy_below 32 (g0 3) (g 3)) = (\<lambda>i. copy_below 32 (g0 i) (g i))" for g g0 :: "2 word \<Rightarrow> u8 \<Rightarrow> u16"
  using all_stacks [of g "\<lambda>i. copy_below 32 (g0 i) (g i)"] .

interpretation dsp1_state: serializer Do_dsp1 dsp1_bytes copy_dsp1
  unfolding Do_dsp1_def
  by (rule serializer_cong, (rule serializer_members serializer_reg_stack serializer_mbox
      accelerator_state.serializer_axioms regs_state.serializer_axioms serializer_field | (simp; fail))+)
    (simp_all add: dsp1_bytes_def copy_dsp1_def all_stacks_copied all_mboxes flip: copy_below_def)

interpretation dsp2_state: serializer Do_dsp2 dsp2_bytes copy_dsp2
  unfolding Do_dsp2_def
  by (rule serializer_cong, (rule serializer_members serializer_field | (simp; fail))+)
    (simp_all add: dsp2_bytes_def copy_dsp2_def flip: copy_below_def)

subsection \<open>Saving and loading\<close>

definition lle_bytes :: "DSPLLE \<Rightarrow> u8 list" where
  "lle_bytes l = bool_bytes False @ dsp1_bytes (lle_dsp l) @ dsp2_bytes (lle_dsp l) @ word_bytes (m_cycle_count l)"

lemmas hle_flag = serializer_Do_bool [folded bool_bytes_def]
lemmas cycle_count = serializer_Do [where 'a = 32, simplified]

lemma DoState_save:
  assumes "pw_mode p = MODE_WRITE"
  shows "DoState l p = Inr (l, pw_put (lle_bytes l) p)"
  using assms
  by (simp add: DoState_def serializer.save [OF hle_flag] dsp1_state.save dsp2_state.save
      serializer.save [OF cycle_count] lle_bytes_def pw_put_append)

lemma DoState_measure:
  assumes "pw_mode p = MODE_MEASURE"
  shows "DoState l p = Inr (l, pw_skip (length (lle_bytes l)) p)"
  using assms
  by (simp add: DoState_def serializer.measure [OF hle_flag] dsp1_state.measure dsp2_state.measure
      serializer.measure [OF cycle_count] lle_bytes_def pw_skip_skip add.assoc)

lemma DoState_load:
  assumes "pw_mode q = MODE_READ" and "pw_holds (lle_bytes l) q" and "Analyze (copy_dsp1 (lle_dsp l) (lle_dsp e)) = Inr d2"
  shows "DoState e q = Inr (e\<lparr>lle_dsp := copy_dsp2 (lle_dsp l) d2, m_cycle_count := m_cycle_count l\<rparr>,
    pw_skip (length (lle_bytes l)) q)"
proof -
  let ?q1 = "pw_skip (length (bool_bytes False)) q"
  let ?q2 = "pw_skip (length (dsp1_bytes (lle_dsp l))) ?q1"
  let ?q3 = "pw_skip (length (dsp2_bytes (lle_dsp l))) ?q2"
  from assms(2) have h: "pw_holds (bool_bytes False) q" "pw_holds (dsp1_bytes (lle_dsp l)) ?q1"
    "pw_holds (dsp2_bytes (lle_dsp l)) ?q2" "pw_holds (word_bytes (m_cycle_count l)) ?q3"
    by (simp_all add: lle_bytes_def pw_holds_append)
  have m: "pw_mode ?q1 = MODE_READ" "pw_mode ?q2 = MODE_READ" "pw_mode ?q3 = MODE_READ"
    using assms(1) by simp_all
  note l = serializer.load [OF hle_flag assms(1) h(1), of False] dsp1_state.load [OF m(1) h(2), of "lle_dsp e"]
    dsp2_state.load [OF m(2) h(3), of d2] serializer.load [OF cycle_count m(3) h(4), of "m_cycle_count e"]
  show ?thesis
    by (simp add: DoState_def l m assms(1,3) CodeLoaded_def) (simp add: lle_bytes_def pw_skip_skip add.assoc)
qed

lemma stack_view_copied:
  "g_r d' = g_r d \<Longrightarrow> g_reg_stack_ptr d' = g_reg_stack_ptr d \<Longrightarrow>
   (\<And>i k. unat k < 32 \<Longrightarrow> g_reg_stack d' i k = g_reg_stack d i k) \<Longrightarrow> stack_view n i d' = stack_view n i d"
  by (simp add: stack_view_def unat_stack_mask)

text \<open>
  C31. Save states work: saving changes nothing of the DSP, takes exactly the room that
  measuring announces, and loading the bytes into any other state of the DSP restores
  the registers, the program counter, the control register, the pending exceptions, what
  the stacks show, the counters, the hardware registers, the accelerator, the mailboxes
  and every word of IRAM and DRAM, with the loops of the restored program marked, the
  pointer behind what was read and the ROMs as they were. The check sum of the program,
  by which the debugger finds its symbols, is not restored.
\<close>

theorem DoState_roundtrip:
  assumes "pw_mode p = MODE_WRITE" and "DoState l p = Inr (l', p')"
  shows "l' = l \<and> (\<exists>q. DoState l (p\<lparr>pw_mode := MODE_MEASURE\<rparr>) = Inr (l, q) \<and> pw_ptr q = pw_ptr p') \<and>
    (\<exists>e'. DoState e (p'\<lparr>pw_mode := MODE_READ, pw_ptr := pw_ptr p\<rparr>) = Inr (e', p'\<lparr>pw_mode := MODE_READ\<rparr>) \<and>
      m_cycle_count e' = m_cycle_count l \<and>
      (let d = lle_dsp l; d' = lle_dsp e' in
        g_r d' = g_r d \<and> g_pc d' = g_pc d \<and> g_cr d' = g_cr d \<and> g_exceptions d' = g_exceptions d \<and>
        g_external_interrupt_waiting d' = g_external_interrupt_waiting d \<and>
        g_reg_stack_ptr d' = g_reg_stack_ptr d \<and> (\<forall>n i. stack_view n i d' = stack_view n i d) \<and>
        g_step_counter d' = g_step_counter d \<and> g_ifx_regs d' = g_ifx_regs d \<and>
        g_accelerator d' = g_accelerator d \<and> g_mbox d' = g_mbox d \<and> g_init_hax d' = g_init_hax d \<and>
        (\<forall>a. unat a < 0x1000 \<longrightarrow> g_iram d' a = g_iram d a \<and> g_dram d' a = g_dram d a) \<and> analysed d' \<and>
        g_irom d' = g_irom (lle_dsp e) \<and> g_coef d' = g_coef (lle_dsp e) \<and> g_iram_crc d' = g_iram_crc (lle_dsp e)))"
proof -
  let ?q = "p'\<lparr>pw_mode := MODE_READ, pw_ptr := pw_ptr p\<rparr>"
  let ?d1 = "copy_dsp1 (lle_dsp l) (lle_dsp e)"
  from assms(2) DoState_save [OF assms(1), of l] have l': "l' = l" and p': "p' = pw_put (lle_bytes l) p" by auto
  obtain f where d2: "Analyze ?d1 = Inr (?d1\<lparr>g_code_flags := f\<rparr>)" by (rule Analyze_cases)
  let ?d2 = "?d1\<lparr>g_code_flags := f\<rparr>"
  have "pw_holds (lle_bytes l) ?q" unfolding p' by (rule pw_holds_put)
  from DoState_load [OF _ this d2]
  have load: "DoState e ?q = Inr (e\<lparr>lle_dsp := copy_dsp2 (lle_dsp l) ?d2, m_cycle_count := m_cycle_count l\<rparr>,
      p'\<lparr>pw_mode := MODE_READ\<rparr>)"
    by (simp add: p' pw_skip_def pw_put_def)
  let ?d' = "copy_dsp2 (lle_dsp l) ?d2"
  have "stack_view n i ?d' = stack_view n i (lle_dsp l)" for n i
    by (rule stack_view_copied) (simp_all add: copy_dsp2_def copy_dsp1_def copy_below_def)
  moreover have "analysed ?d'" using Analyze_analysed [OF d2] by (simp add: copy_dsp2_def)
  moreover have "\<exists>q. DoState l (p\<lparr>pw_mode := MODE_MEASURE\<rparr>) = Inr (l, q) \<and> pw_ptr q = pw_ptr p'"
    using DoState_measure [of "p\<lparr>pw_mode := MODE_MEASURE\<rparr>" l] by (simp add: p' pw_skip_def pw_put_def)
  ultimately show ?thesis
    using load l' by (auto simp: Let_def copy_dsp2_def copy_dsp1_def copy_below_def DSP_IRAM_SIZE_def)
qed

theorem DoState_roundtrip_witness:
  "\<exists>p' e'. DoState zero_lle \<lparr>pw_ptr = 0, pw_mode = MODE_WRITE, pw_buf = \<lambda>_. 0\<rparr> = Inr (zero_lle, p') \<and>
     DoState (zero_lle\<lparr>lle_dsp := dsp_zero\<lparr>g_pc := 5\<rparr>\<rparr>) (p'\<lparr>pw_mode := MODE_READ, pw_ptr := 0\<rparr>)
       = Inr (e', p'\<lparr>pw_mode := MODE_READ\<rparr>) \<and> g_pc (lle_dsp e') = 0"
proof -
  let ?p = "\<lparr>pw_ptr = 0, pw_mode = MODE_WRITE, pw_buf = \<lambda>_. 0\<rparr>"
  have s: "DoState zero_lle ?p = Inr (zero_lle, pw_put (lle_bytes zero_lle) ?p)" by (rule DoState_save) simp
  from DoState_roundtrip [OF _ s, of "zero_lle\<lparr>lle_dsp := dsp_zero\<lparr>g_pc := 5\<rparr>\<rparr>"] s
  show ?thesis by (auto simp: Let_def) (auto simp: zero_lle_def zero_defs)
qed

end
