(* ===== verification/PPC_State.thy ===== *)
theory PPC_State
  imports DSP_Prelude
begin

text \<open>
  The main processor of the console, a PowerPC "Gekko": its state (\<^verbatim>\<open>PowerPCState\<close> of
  \<^verbatim>\<open>Core/PowerPC/PowerPC.h\<close>), the fields of an instruction (\<^verbatim>\<open>UGeckoInstruction\<close> of
  \<^verbatim>\<open>Core/PowerPC/Gekko.h\<close>), the condition register, which is kept as eight 64-bit numbers, and the
  fixed-point exception register, which is kept in three parts.

  The record has the members the integer, branch and system instructions of the
  interpreter use, and the interpreter's own \<open>m_end_block\<close>; \<open>downcount\<close> is with the scheduler. An array is a
  function from its indices: every index in the sources is a field of an instruction, which is too short
  to leave the array.
\<close>

unbundle bit_operations_syntax

named_theorems ppc_defs \<open>fields of instructions and small accessors of the state\<close>

subsection \<open>Instructions\<close>

type_synonym UGeckoInstruction = u32

definition bit_field :: "nat \<Rightarrow> nat \<Rightarrow> u32 \<Rightarrow> u32" where
  "bit_field lo n inst = take_bit n (drop_bit lo inst)"

text \<open>Fields that number a register or a bit.\<close>

definition RA :: "UGeckoInstruction \<Rightarrow> nat" where [ppc_defs]: "RA inst = unat (bit_field 16 5 inst)"
definition RB :: "UGeckoInstruction \<Rightarrow> nat" where [ppc_defs]: "RB inst = unat (bit_field 11 5 inst)"
definition RD :: "UGeckoInstruction \<Rightarrow> nat" where [ppc_defs]: "RD inst = unat (bit_field 21 5 inst)"
definition RS :: "UGeckoInstruction \<Rightarrow> nat" where [ppc_defs]: "RS inst = unat (bit_field 21 5 inst)"
definition SH :: "UGeckoInstruction \<Rightarrow> nat" where [ppc_defs]: "SH inst = unat (bit_field 11 5 inst)"
definition MB :: "UGeckoInstruction \<Rightarrow> nat" where [ppc_defs]: "MB inst = unat (bit_field 6 5 inst)"
definition ME :: "UGeckoInstruction \<Rightarrow> nat" where [ppc_defs]: "ME inst = unat (bit_field 1 5 inst)"
definition CRFD :: "UGeckoInstruction \<Rightarrow> nat" where [ppc_defs]: "CRFD inst = unat (bit_field 23 3 inst)"
definition CRFS :: "UGeckoInstruction \<Rightarrow> nat" where [ppc_defs]: "CRFS inst = unat (bit_field 18 3 inst)"
definition CRBA :: "UGeckoInstruction \<Rightarrow> nat" where [ppc_defs]: "CRBA inst = unat (bit_field 16 5 inst)"
definition CRBB :: "UGeckoInstruction \<Rightarrow> nat" where [ppc_defs]: "CRBB inst = unat (bit_field 11 5 inst)"
definition CRBD :: "UGeckoInstruction \<Rightarrow> nat" where [ppc_defs]: "CRBD inst = unat (bit_field 21 5 inst)"
definition BI :: "UGeckoInstruction \<Rightarrow> nat" where [ppc_defs]: "BI inst = unat (bit_field 16 5 inst)"
definition BI_2 :: "UGeckoInstruction \<Rightarrow> nat" where [ppc_defs]: "BI_2 inst = unat (bit_field 16 5 inst)"
definition SR :: "UGeckoInstruction \<Rightarrow> nat" where [ppc_defs]: "SR inst = unat (bit_field 16 4 inst)"

text \<open>Fields that are numbers, and single bits.\<close>

definition SIMM_16 :: "UGeckoInstruction \<Rightarrow> s32" where [ppc_defs]: "SIMM_16 inst = scast (ucast inst :: u16)"
definition UIMM :: "UGeckoInstruction \<Rightarrow> u32" where [ppc_defs]: "UIMM inst = bit_field 0 16 inst"
definition TO :: "UGeckoInstruction \<Rightarrow> u32" where [ppc_defs]: "TO inst = bit_field 21 5 inst"
definition LI :: "UGeckoInstruction \<Rightarrow> u32" where [ppc_defs]: "LI inst = bit_field 2 24 inst"
definition BD :: "UGeckoInstruction \<Rightarrow> u32" where [ppc_defs]: "BD inst = bit_field 2 14 inst"
definition BO :: "UGeckoInstruction \<Rightarrow> u32" where [ppc_defs]: "BO inst = bit_field 21 5 inst"
definition BO_2 :: "UGeckoInstruction \<Rightarrow> u32" where [ppc_defs]: "BO_2 inst = bit_field 21 5 inst"
definition CRM :: "UGeckoInstruction \<Rightarrow> u32" where [ppc_defs]: "CRM inst = bit_field 12 8 inst"
definition SPR :: "UGeckoInstruction \<Rightarrow> u32" where [ppc_defs]: "SPR inst = bit_field 11 10 inst"
definition SPRU :: "UGeckoInstruction \<Rightarrow> u32" where [ppc_defs]: "SPRU inst = bit_field 11 5 inst"
definition SPRL :: "UGeckoInstruction \<Rightarrow> u32" where [ppc_defs]: "SPRL inst = bit_field 16 5 inst"
definition Rc :: "UGeckoInstruction \<Rightarrow> bool" where [ppc_defs]: "Rc inst = bit inst 0"
definition LK :: "UGeckoInstruction \<Rightarrow> bool" where [ppc_defs]: "LK inst = bit inst 0"
definition LK_3 :: "UGeckoInstruction \<Rightarrow> bool" where [ppc_defs]: "LK_3 inst = bit inst 0"
definition AA :: "UGeckoInstruction \<Rightarrow> bool" where [ppc_defs]: "AA inst = bit inst 1"

definition SignExt16 :: "u16 \<Rightarrow> s32" where "SignExt16 x = scast x"

definition SignExt26 :: "u32 \<Rightarrow> s32" where
  "SignExt26 x = (if x AND 0x2000000 \<noteq> 0 then x OR 0xFC000000 else x)"

text \<open>\<^verbatim>\<open>_rotl\<close> of \<^verbatim>\<open>Common/CommonFuncs.h\<close>.\<close>

definition rotl :: "u32 \<Rightarrow> nat \<Rightarrow> u32" where
  "rotl x shift =
     (let s = shift mod 32 in if s = 0 then x else push_bit s x OR drop_bit (32 - s) x)"

subsection \<open>State\<close>

record PowerPCState =
  gpr :: "nat \<Rightarrow> u32"
  pc :: u32
  npc :: u32
  cr_val :: "nat \<Rightarrow> u64"
  msr :: u32
  Exceptions :: u32
  xer_ca :: u8
  xer_so_ov :: u8
  xer_stringctrl :: u16
  sr :: "nat \<Rightarrow> u32"
  spr :: "nat \<Rightarrow> u32"
  m_end_block :: bool

definition set_gpr :: "nat \<Rightarrow> u32 \<Rightarrow> PowerPCState \<Rightarrow> PowerPCState" where
  "set_gpr n v s = s\<lparr>gpr := (gpr s)(n := v)\<rparr>"

definition set_spr :: "nat \<Rightarrow> u32 \<Rightarrow> PowerPCState \<Rightarrow> PowerPCState" where
  "set_spr n v s = s\<lparr>spr := (spr s)(n := v)\<rparr>"

abbreviation (input) "SPR_XER \<equiv> 1 :: nat"
abbreviation (input) "SPR_LR \<equiv> 8 :: nat"
abbreviation (input) "SPR_CTR \<equiv> 9 :: nat"
abbreviation (input) "SPR_SRR0 \<equiv> 26 :: nat"
abbreviation (input) "SPR_SRR1 \<equiv> 27 :: nat"

subsection \<open>The condition register\<close>

definition PPCCRToInternal :: "u8 \<Rightarrow> u64" where
  "PPCCRToInternal value =
     (let c0 = 0x100000000;
          c1 = c0 OR push_bit 61 (if value AND 1 \<noteq> 0 then 1 else 0);
          c2 = c1 OR (if value AND 2 \<noteq> 0 then 0 else 1);
          c3 = c2 OR push_bit 63 (if value AND 4 \<noteq> 0 then 0 else 1)
      in c3 OR push_bit 62 (if value AND 8 \<noteq> 0 then 1 else 0))"

definition m_crTable :: "u64 list" where
  "m_crTable = map PPCCRToInternal [0, 1, 2, 3, 4, 5, 6, 7, 8, 9, 0xA, 0xB, 0xC, 0xD, 0xE, 0xF]"

text \<open>Every value the sources store in a field has four bits.\<close>

definition SetCRField :: "nat \<Rightarrow> u32 \<Rightarrow> PowerPCState \<Rightarrow> PowerPCState" where
  "SetCRField cr_field value s = s\<lparr>cr_val := (cr_val s)(cr_field := m_crTable ! unat value)\<rparr>"

definition cr_flags :: "u64 \<Rightarrow> u32" where
  "cr_flags v =
     (if v AND push_bit 61 1 \<noteq> 0 then 1 else 0) OR (if v AND 0xFFFFFFFF = 0 then 2 else 0) OR
     (if 0 < sint v then 4 else 0) OR (if v AND push_bit 62 1 \<noteq> 0 then 8 else 0)"

definition GetCRField :: "nat \<Rightarrow> PowerPCState \<Rightarrow> u32" where
  "GetCRField cr_field s = cr_flags (cr_val s cr_field)"

definition GetCRBit :: "nat \<Rightarrow> PowerPCState \<Rightarrow> u32" where
  "GetCRBit b s = drop_bit (3 - b mod 4) (GetCRField (b div 4) s) AND 1"

definition SetCRBit :: "nat \<Rightarrow> u32 \<Rightarrow> PowerPCState \<Rightarrow> PowerPCState" where
  "SetCRBit b value s =
     (if value AND 1 \<noteq> 0
      then SetCRField (b div 4) (GetCRField (b div 4) s OR drop_bit (b mod 4) 8) s
      else SetCRField (b div 4) (GetCRField (b div 4) s AND NOT (drop_bit (b mod 4) 8)) s)"

text \<open>\<open>CompactCR\<close> and \<open>ExpandCR\<close> with their loops over the eight fields.\<close>

definition CompactCR :: "PowerPCState \<Rightarrow> u32" where
  "CompactCR s = fold (\<lambda>i new_cr. new_cr OR push_bit (28 - i * 4) (GetCRField i s)) [0..<8] 0"

definition ExpandCR :: "u32 \<Rightarrow> PowerPCState \<Rightarrow> PowerPCState" where
  "ExpandCR cr s = fold (\<lambda>i. SetCRField i (drop_bit (28 - i * 4) cr AND 0xF)) [0..<8] s"

definition SetCR :: "u32 \<Rightarrow> PowerPCState \<Rightarrow> PowerPCState" where "SetCR new_cr s = ExpandCR new_cr s"
definition GetCR :: "PowerPCState \<Rightarrow> u32" where "GetCR s = CompactCR s"

subsection \<open>The fixed-point exception register\<close>

definition SetCarry :: "bool \<Rightarrow> PowerPCState \<Rightarrow> PowerPCState" where
  "SetCarry ca s = s\<lparr>xer_ca := (if ca then 1 else 0)\<rparr>"

definition GetCarry :: "PowerPCState \<Rightarrow> u32" where "GetCarry s = ucast (xer_ca s)"

definition GetXER :: "PowerPCState \<Rightarrow> u32" where
  "GetXER s = ucast (xer_stringctrl s) OR push_bit 29 (ucast (xer_ca s)) OR push_bit 30 (ucast (xer_so_ov s))"

definition SetXER :: "u32 \<Rightarrow> PowerPCState \<Rightarrow> PowerPCState" where
  "SetXER new_xer s =
     s\<lparr>xer_stringctrl := ucast (bit_field 0 7 new_xer + push_bit 8 (bit_field 8 8 new_xer)),
       xer_ca := ucast (bit_field 29 1 new_xer),
       xer_so_ov := ucast (push_bit 1 (bit_field 31 1 new_xer) + bit_field 30 1 new_xer)\<rparr>"

definition GetXER_SO :: "PowerPCState \<Rightarrow> u32" where "GetXER_SO s = ucast (drop_bit 1 (xer_so_ov s))"

definition SetXER_SO :: "bool \<Rightarrow> PowerPCState \<Rightarrow> PowerPCState" where
  "SetXER_SO value s = s\<lparr>xer_so_ov := xer_so_ov s OR push_bit 1 (if value then 1 else 0)\<rparr>"

subsection \<open>Small words\<close>

lemma bit_bit_field [simp]: "bit (bit_field lo n x) m \<longleftrightarrow> m < n \<and> bit x (lo + m)"
  by (auto simp: bit_field_def bit_take_bit_iff bit_drop_bit_eq)

lemma unat_less_exp_iff: "unat x < 2 ^ k \<longleftrightarrow> (\<forall>n. bit x n \<longrightarrow> n < k)" for x :: "'a::len word"
proof
  assume "unat x < 2 ^ k"
  then have "take_bit k x = x" by (intro word_unat_eqI) (simp only: unat_take_bit mod_less)
  then show "\<forall>n. bit x n \<longrightarrow> n < k" by (metis bit_take_bit_iff)
next
  assume "\<forall>n. bit x n \<longrightarrow> n < k"
  then have "take_bit k x = x" by (auto intro!: bit_word_eqI simp: bit_take_bit_iff)
  then have "unat x = unat x mod 2 ^ k" by (metis unat_take_bit)
  then show "unat x < 2 ^ k" using mod_less_divisor [of "2 ^ k" "unat x"] by simp
qed

lemma word_less_16_iff: "(v :: u32) < 16 \<longleftrightarrow> unat v < 16"
  by (simp add: word_less_nat_alt)

lemma bit_less_16: "(v :: u32) < 16 \<Longrightarrow> bit v n \<Longrightarrow> n < 4"
  using unat_less_exp_iff [of v 4] by (simp add: word_less_16_iff)

lemma less_16I: "(\<And>n. bit v n \<Longrightarrow> n < 4) \<Longrightarrow> (v :: u32) < 16"
  using unat_less_exp_iff [of v 4] by (simp add: word_less_16_iff)

lemma u8_le_iff: "(x :: u8) \<le> 1 \<longleftrightarrow> (\<forall>n. bit x n \<longrightarrow> n < 1)" "(x :: u8) \<le> 3 \<longleftrightarrow> (\<forall>n. bit x n \<longrightarrow> n < 2)"
  using unat_less_exp_iff [of x 1] unat_less_exp_iff [of x 2] by (auto simp: word_le_nat_alt)

subsection \<open>Fields of the condition register\<close>

lemma crTable_flags: "n < 16 \<Longrightarrow> cr_flags (m_crTable ! n) = of_nat n"
proof -
  have "\<forall>n \<in> set [0..<16]. cr_flags (m_crTable ! n) = of_nat n" by code_simp
  then show "n < 16 \<Longrightarrow> cr_flags (m_crTable ! n) = of_nat n" by simp
qed

lemma cr_flags_less [simp]: "cr_flags v < 16"
  by (simp add: cr_flags_def)

lemma GetCRField_less [simp]: "GetCRField f s < 16"
  by (simp add: GetCRField_def)

lemma GetCRField_SetCRField:
  "v < 16 \<Longrightarrow> GetCRField f (SetCRField g v s) = (if f = g then v else GetCRField f s)"
  using crTable_flags [of "unat v"] by (simp add: GetCRField_def SetCRField_def word_less_16_iff)

text \<open>Bit \<open>b\<close> of the register, counted from the left, is bit \<open>3 - b mod 4\<close> of field \<open>b div 4\<close>.\<close>

lemma GetCRBit_alt: "GetCRBit b s = of_bool (bit (GetCRField (b div 4) s) (3 - b mod 4))"
  by (rule bit_word_eqI) (auto simp: GetCRBit_def bit_simps)

lemma GetCRBit_SetCRBit:
  "GetCRBit c (SetCRBit b v s) = (if c = b then v AND 1 else GetCRBit c s)"
proof -
  let ?m = "drop_bit (b mod 4) (8 :: u32)" and ?v = "GetCRField (b div 4) s"
  have m: "bit ?m n \<longleftrightarrow> n = 3 - b mod 4" for n
  proof -
    have "?m = drop_bit (b mod 4) (push_bit 3 1)" by simp
    also have "bit \<dots> n \<longleftrightarrow> n = 3 - b mod 4"
      unfolding bit_drop_bit_eq comp_def bit_push_bit_iff bit_1_iff using mod_less_divisor [of 4 b] by auto
    finally show ?thesis .
  qed
  have less: "?v OR ?m < 16" "?v AND NOT ?m < 16"
    by (rule less_16I, auto simp: bit_or_iff bit_and_iff m dest: bit_less_16 [OF GetCRField_less])+
  have eq: "3 - c mod 4 = 3 - b mod 4 \<longleftrightarrow> c mod 4 = b mod 4"
    using mod_less_divisor [of 4 c] mod_less_divisor [of 4 b] by linarith
  have cb: "c = b \<longleftrightarrow> c div 4 = b div 4 \<and> c mod 4 = b mod 4" by (metis div_mult_mod_eq)
  have v: "v AND 1 = of_bool (v AND 1 \<noteq> 0)" by (simp add: and_one_eq)
  show ?thesis
    unfolding GetCRBit_alt SetCRBit_def using less
    by (auto simp: GetCRField_SetCRField bit_or_iff bit_and_iff bit_not_iff m eq cb and_one_eq)
qed


subsection \<open>The condition register as one word\<close>

lemma bit_fold_or_push:
  "bit (fold (\<lambda>i a. a OR push_bit (g i) (F i)) is a) n \<longleftrightarrow>
     bit a n \<or> (\<exists>i \<in> set is. g i \<le> n \<and> n < 32 \<and> bit (F i) (n - g i))" for a :: u32
  by (induction "is" arbitrary: a) (auto simp: bit_or_iff bit_push_bit_iff dest: bit_imp_le_length)

lemma cr_bit_place:
  fixes b :: nat
  assumes "b < 32"
  shows "b div 4 < 8" "28 - b div 4 * 4 + (3 - b mod 4) = 31 - b" "28 - b div 4 * 4 \<le> 31 - b"
    "31 - b - (28 - b div 4 * 4) = 3 - b mod 4"
proof -
  define q r where "q = b div 4" and "r = b mod 4"
  then have b: "b div 4 = q" "b mod 4 = r" "b = 4 * q + r" by simp_all
  then have "q \<le> 7" "r \<le> 3" using assms mod_less_divisor [of 4 b] by linarith+
  then show "b div 4 < 8" "28 - b div 4 * 4 + (3 - b mod 4) = 31 - b" "28 - b div 4 * 4 \<le> 31 - b"
    "31 - b - (28 - b div 4 * 4) = 3 - b mod 4"
    unfolding b(1,2) unfolding b(3) by linarith+
qed

lemma bit_GetCR: "b < 32 \<Longrightarrow> bit (GetCR s) (31 - b) \<longleftrightarrow> GetCRBit b s = 1"
proof -
  assume b: "b < 32"
  have "bit (GetCR s) (31 - b) \<longleftrightarrow> (\<exists>i < 8. 28 - i * 4 \<le> 31 - b \<and> bit (GetCRField i s) (31 - b - (28 - i * 4)))"
    unfolding GetCR_def CompactCR_def bit_fold_or_push by auto
  also have "\<dots> \<longleftrightarrow> bit (GetCRField (b div 4) s) (3 - b mod 4)"
  proof
    assume "\<exists>i < 8. 28 - i * 4 \<le> 31 - b \<and> bit (GetCRField i s) (31 - b - (28 - i * 4))"
    then obtain i where i: "i < 8" "28 - i * 4 \<le> 31 - b" "bit (GetCRField i s) (31 - b - (28 - i * 4))" by blast
    have "31 - b - (28 - i * 4) < 4" using bit_less_16 [OF GetCRField_less i(3)] .
    with i(1,2) b have e: "i * 4 \<le> b" "b < i * 4 + 4" by linarith+
    then have q: "b div 4 = i" by (intro div_nat_eqI) auto
    then have "b mod 4 = b - i * 4" by (auto simp: modulo_nat_def)
    note this q
    moreover have "31 - b - (28 - i * 4) = 3 - (b - i * 4)" using e i(1) b by linarith
    ultimately show "bit (GetCRField (b div 4) s) (3 - b mod 4)" using i(3) by simp
  next
    assume a: "bit (GetCRField (b div 4) s) (3 - b mod 4)"
    with cr_bit_place [OF b] show "\<exists>i < 8. 28 - i * 4 \<le> 31 - b \<and> bit (GetCRField i s) (31 - b - (28 - i * 4))" by auto
  qed
  also have "\<dots> \<longleftrightarrow> GetCRBit b s = 1" by (simp add: GetCRBit_alt)
  finally show ?thesis .
qed

lemma GetCRField_fold:
  "\<forall>i. v i < 16 \<Longrightarrow> distinct is \<Longrightarrow>
     GetCRField f (fold (\<lambda>i. SetCRField i (v i)) is s) = (if f \<in> set is then v f else GetCRField f s)"
  by (induction "is" arbitrary: s) (auto simp: GetCRField_SetCRField)

lemma GetCRField_SetCR: "f < 8 \<Longrightarrow> GetCRField f (SetCR x s) = drop_bit (28 - f * 4) x AND 0xF"
proof -
  have "\<forall>i. drop_bit (28 - i * 4) x AND 0xF < 16"
    by (simp add: and_eq_take_bit word_less_16_iff unat_take_bit del: unsigned_take_bit_eq)
  then show "f < 8 \<Longrightarrow> GetCRField f (SetCR x s) = drop_bit (28 - f * 4) x AND 0xF"
    by (simp add: SetCR_def ExpandCR_def GetCRField_fold)
qed

lemma GetCRBit_SetCR: "b < 32 \<Longrightarrow> GetCRBit b (SetCR x s) = of_bool (bit x (31 - b))"
proof -
  assume b: "b < 32"
  have "b mod 4 < 4" by simp
  with cr_bit_place [OF b] show ?thesis
    unfolding GetCRBit_alt by (simp add: GetCRField_SetCR and_eq_take_bit bit_take_bit_iff bit_drop_bit_eq less_imp_diff_less)
qed

lemma GetCR_eqI: "(\<And>b. b < 32 \<Longrightarrow> GetCRBit b s = of_bool (bit x (31 - b))) \<Longrightarrow> GetCR s = x"
proof (rule bit_word_eqI)
  fix n assume "\<And>b. b < 32 \<Longrightarrow> GetCRBit b s = of_bool (bit x (31 - b))" and n: "n < LENGTH(32)"
  from this(1) [of "31 - n"] bit_GetCR [of "31 - n" s] n show "bit (GetCR s) n = bit x n" by auto
qed

lemma GetCRBit_SetCRField:
  "v < 16 \<Longrightarrow> GetCRBit b (SetCRField f v s) = (if b div 4 = f then of_bool (bit v (3 - b mod 4)) else GetCRBit b s)"
  by (simp add: GetCRBit_alt GetCRField_SetCRField)

lemma GetCRBit_word: "b < 32 \<Longrightarrow> GetCRBit b s = of_bool (bit (GetCR s) (31 - b))"
  using bit_GetCR [of b s] by (auto simp: GetCRBit_alt split: if_splits)

lemma field_mask:
  fixes v :: u32
  assumes "f < 8" and "b < 32" and "v < 16"
  shows "bit (push_bit (28 - f * 4) v) (31 - b) \<longleftrightarrow> b div 4 = f \<and> bit v (3 - b mod 4)"
    and "bit (push_bit (28 - f * 4) (0xF :: u32)) (31 - b) \<longleftrightarrow> b div 4 = f"
proof -
  define q r where "q = b div 4" and "r = b mod 4"
  then have b: "b div 4 = q" "b mod 4 = r" "b = 4 * q + r" "r \<le> 3" by auto
  have k: "28 - f * 4 \<le> 31 - b \<longleftrightarrow> q \<le> f" using assms b by linarith
  have i: "31 - b - (28 - f * 4) = 4 * (f - q) + (3 - r)" if "q \<le> f" using assms(1,2) b that by linarith
  have n: "4 * (f - q) + (3 - r) < 4 \<longleftrightarrow> f \<le> q" by linarith
  have m: "bit (push_bit (28 - f * 4) w) (31 - b) \<longleftrightarrow> q = f \<and> bit w (3 - r)" if "\<And>n. bit w n \<Longrightarrow> n < 4" for w :: u32
    unfolding bit_push_bit_iff using k i n that [of "31 - b - (28 - f * 4)"] assms(2) by (auto dest: bit_imp_le_length)
  show "bit (push_bit (28 - f * 4) v) (31 - b) \<longleftrightarrow> b div 4 = f \<and> bit v (3 - b mod 4)"
    using m [of v] bit_less_16 [OF assms(3)] b by simp
  have "(0xF :: u32) = mask 4" by (simp add: mask_eq_exp_minus_1)
  then have f: "bit (0xF :: u32) n \<longleftrightarrow> n < 4" for n by (simp only: bit_mask_iff) auto
  show "bit (push_bit (28 - f * 4) (0xF :: u32)) (31 - b) \<longleftrightarrow> b div 4 = f"
  proof -
    have "bit (push_bit (28 - f * 4) (0xF :: u32)) (31 - b) \<longleftrightarrow> q = f \<and> bit (0xF :: u32) (3 - r)"
      by (rule m) (simp only: f)
    also have "\<dots> \<longleftrightarrow> q = f" unfolding f by auto
    finally show ?thesis by (simp only: b(1))
  qed
qed

lemma condition_register_parts:
  assumes "f < 8" and "v < 16" and "b < 32"
  shows "GetCR (SetCR x s) = x"
    and "GetCR (SetCRField f v s) = (GetCR s AND NOT (push_bit (28 - f * 4) 0xF)) OR push_bit (28 - f * 4) v"
    and "GetCR (SetCRBit b w s) = (if bit w 0 then set_bit (31 - b) (GetCR s) else unset_bit (31 - b) (GetCR s))"
    and "GetCRBit b s = of_bool (bit (GetCR s) (31 - b))"
proof -
  show "GetCR (SetCR x s) = x" by (rule GetCR_eqI) (rule GetCRBit_SetCR)
  show "GetCR (SetCRField f v s) = (GetCR s AND NOT (push_bit (28 - f * 4) 0xF)) OR push_bit (28 - f * 4) v"
  proof (rule GetCR_eqI)
    fix c :: nat assume c: "c < 32"
    note m = field_mask [OF assms(1) c assms(2)]
    show "GetCRBit c (SetCRField f v s) = of_bool (bit ((GetCR s AND NOT (push_bit (28 - f * 4) 0xF)) OR push_bit (28 - f * 4) v) (31 - c))"
      using c unfolding bit_or_iff bit_and_iff bit_not_iff m
      by (simp add: GetCRBit_SetCRField [OF assms(2)] GetCRBit_word [of c s] possible_bit_word less_imp_diff_less)
  qed
  show "GetCR (SetCRBit b w s) = (if bit w 0 then set_bit (31 - b) (GetCR s) else unset_bit (31 - b) (GetCR s))"
  proof (rule GetCR_eqI)
    fix c :: nat assume c: "c < 32"
    with assms(3) have "31 - b = 31 - c \<longleftrightarrow> c = b" by linarith
    with c show "GetCRBit c (SetCRBit b w s) =
        of_bool (bit (if bit w 0 then set_bit (31 - b) (GetCR s) else unset_bit (31 - b) (GetCR s)) (31 - c))"
      by (simp add: GetCRBit_SetCRBit GetCRBit_word [of c s] bit_set_bit_iff bit_unset_bit_iff and_one_eq bit_0 odd_iff_mod_2_eq_one possible_bit_word less_imp_diff_less)
  qed
  show "GetCRBit b s = of_bool (bit (GetCR s) (31 - b))" by (rule GetCRBit_word [OF assms(3)])
qed

text \<open>
  C25. The eight 64-bit numbers that stand for the condition register behave as one 32-bit
  register: writing the register and reading it gives the same word, writing a field
  replaces its four bits, writing a bit replaces this bit, and a bit that is read is that of the word.
\<close>

theorem condition_register_word:
  assumes "f < 8" and "v < 16" and "b < 32"
  shows "GetCR (SetCR x s) = x \<and>
    GetCR (SetCRField f v s) = (GetCR s AND NOT (push_bit (28 - f * 4) 0xF)) OR push_bit (28 - f * 4) v \<and>
    GetCR (SetCRBit b w s) = (if bit w 0 then set_bit (31 - b) (GetCR s) else unset_bit (31 - b) (GetCR s)) \<and>
    GetCRBit b s = of_bool (bit (GetCR s) (31 - b))"
  using condition_register_parts [OF assms] by blast

definition ppc_zero :: PowerPCState where
  "ppc_zero = \<lparr>gpr = (\<lambda>_. 0), pc = 0, npc = 0, cr_val = (\<lambda>_. 0x8000000000000001), msr = 0, Exceptions = 0, xer_ca = 0,
     xer_so_ov = 0, xer_stringctrl = 0, sr = (\<lambda>_. 0), spr = (\<lambda>_. 0), m_end_block = False\<rparr>"

theorem condition_register_word_witness:
  "GetCR (SetCRField 1 9 (SetCR 0x12345678 ppc_zero)) = 0x19345678"
  using condition_register_word [of 1 9 0 "0x12345678" ppc_zero] condition_register_word [of 1 9 0 0 "SetCR 0x12345678 ppc_zero"] by simp

subsection \<open>The parts of the exception register\<close>

definition xer_ok :: "PowerPCState \<Rightarrow> bool" where
  "xer_ok s \<longleftrightarrow> xer_ca s \<le> 1 \<and> xer_so_ov s \<le> 3 \<and> \<not> bit (xer_stringctrl s) 7"

lemma SetXER_disjoint:
  "bit_field 0 7 x + push_bit 8 (bit_field 8 8 x) = (x AND 0xFF7F)"
  "push_bit 1 (bit_field 31 1 x) + bit_field 30 1 x = drop_bit 30 x"
proof -
  have "bit_field 0 7 x + push_bit 8 (bit_field 8 8 x) = bit_field 0 7 x OR push_bit 8 (bit_field 8 8 x)"
    by (rule disjunctive_add) (auto simp: bit_field_def bit_simps)
  also have "\<dots> = (x AND (mask 7 OR push_bit 8 (mask 8)))"
    by (rule bit_word_eqI) (auto simp: bit_field_def bit_simps)
  finally show "bit_field 0 7 x + push_bit 8 (bit_field 8 8 x) = (x AND 0xFF7F)" by (simp add: mask_eq_exp_minus_1)
  let ?h = "push_bit 1 (bit_field 31 1 x)" and ?l = "bit_field 30 1 x"
  have h: "bit ?h n \<longleftrightarrow> n = 1 \<and> bit x 31" and l: "bit ?l n \<longleftrightarrow> n = 0 \<and> bit x 30" for n
    unfolding bit_field_def bit_push_bit_iff bit_take_bit_iff bit_drop_bit_eq by auto
  have "?h + ?l = ?h OR ?l" by (rule disjunctive_add) (use h l in auto)
  also have "\<dots> = drop_bit 30 x"
  proof (rule bit_word_eqI)
    fix n assume "n < LENGTH(32)"
    show "bit (?h OR ?l) n = bit (drop_bit 30 x) n"
      unfolding bit_or_iff h l bit_drop_bit_eq comp_def
      by (cases "n = 0"; cases "n = 1") (auto dest: bit_imp_le_length)
  qed
  finally show "?h + ?l = drop_bit 30 x" .
qed

lemma SetXER_alt:
  "SetXER x s = s\<lparr>xer_stringctrl := ucast (x AND 0xFF7F), xer_ca := ucast (bit_field 29 1 x), xer_so_ov := ucast (drop_bit 30 x)\<rparr>"
  by (simp only: SetXER_def SetXER_disjoint)

lemma xer_mask: "x AND 0xFF7F = (x AND (mask 7 OR push_bit 8 (mask 8)))"
    "x AND 0xE000FF7F = (x AND (mask 7 OR push_bit 8 (mask 8) OR push_bit 29 (mask 3)))" for x :: u32
  by (simp_all add: mask_eq_exp_minus_1)

lemma GetXER_SetXER: "GetXER (SetXER x s) = x AND 0xE000FF7F"
  unfolding xer_mask
proof (rule bit_word_eqI)
  fix n assume "n < LENGTH(32)"
  consider "n < 29" | "n = 29" | "n = 30" | "n = 31" using \<open>n < LENGTH(32)\<close> by fastforce
  then show "bit (GetXER (SetXER x s)) n = bit (x AND (mask 7 OR push_bit 8 (mask 8) OR push_bit 29 (mask 3))) n"
    unfolding GetXER_def SetXER_alt xer_mask by cases (auto simp: bit_simps)
qed

lemma SetXER_ok: "xer_ok (SetXER x s)"
  by (auto simp: xer_ok_def SetXER_alt xer_mask u8_le_iff bit_simps dest: bit_imp_le_length)

lemma SetXER_GetXER:
  assumes "xer_ok s"
  shows "SetXER (GetXER s) s = s"
proof -
  have c: "bit (xer_ca s) n \<Longrightarrow> n = 0" and o: "bit (xer_so_ov s) n \<Longrightarrow> n < 2" for n
    using assms by (auto simp: xer_ok_def u8_le_iff)
  have 1: "ucast (GetXER s AND (mask 7 OR push_bit 8 (mask 8))) = xer_stringctrl s"
  proof (rule bit_word_eqI)
    fix n assume "n < LENGTH(16)"
    then show "bit (ucast (GetXER s AND (mask 7 OR push_bit 8 (mask 8))) :: u16) n = bit (xer_stringctrl s) n"
      using assms by (cases "n = 7") (auto simp: xer_ok_def GetXER_def bit_simps)
  qed
  have 2: "ucast (bit_field 29 1 (GetXER s)) = xer_ca s"
  proof (rule bit_word_eqI)
    fix n show "bit (ucast (bit_field 29 1 (GetXER s)) :: u8) n = bit (xer_ca s) n"
      using c [of n] by (cases "n = 0") (auto simp: GetXER_def bit_simps dest: bit_imp_le_length)
  qed
  have 3: "ucast (drop_bit 30 (GetXER s)) = xer_so_ov s"
  proof (rule bit_word_eqI)
    fix n show "bit (ucast (drop_bit 30 (GetXER s)) :: u8) n = bit (xer_so_ov s) n"
      using c [of "Suc n"] o [of n] by (cases "n < 2") (auto simp: GetXER_def bit_simps dest: bit_imp_le_length)
  qed
  show ?thesis unfolding SetXER_alt xer_mask 1 2 3 by simp
qed

text \<open>
  The three parts that stand for the exception register hold its defined bits: reading the
  register gives what was written to these bits, and zero elsewhere; writing back what was
  read changes nothing. Every write leaves the parts in their ranges.
\<close>

theorem exception_register_word:
  "GetXER (SetXER x s) = x AND 0xE000FF7F \<and> xer_ok (SetXER x s) \<and> (xer_ok s \<longrightarrow> SetXER (GetXER s) s = s)"
  using SetXER_ok SetXER_GetXER GetXER_SetXER by blast

theorem exception_register_word_witness: "SetXER (GetXER ppc_zero) ppc_zero = ppc_zero"
  using exception_register_word [of 0 ppc_zero] by (simp add: xer_ok_def ppc_zero_def)

end
