(* ===== verification/PPC_Exceptions.thy ===== *)
theory PPC_Exceptions
  imports PPC_State
begin

text \<open>
  The exceptions of the main processor (\<open>CheckExceptions\<close> and \<open>CheckExternalExceptions\<close> of
  \<^verbatim>\<open>Core/PowerPC/PowerPC.cpp\<close>) and the instructions that raise them or return from them (\<open>sc\<close>,
  \<open>rfi\<close> of \<^verbatim>\<open>Interpreter_Branch.cpp\<close>, \<open>mtmsr\<close> of \<^verbatim>\<open>Interpreter_SystemRegisters.cpp\<close>).
\<close>

unbundle bit_operations_syntax

abbreviation (input) "EXCEPTION_DECREMENTER \<equiv> 0x00000001 :: u32"
abbreviation (input) "EXCEPTION_SYSCALL \<equiv> 0x00000002 :: u32"
abbreviation (input) "EXCEPTION_EXTERNAL_INT \<equiv> 0x00000004 :: u32"
abbreviation (input) "EXCEPTION_DSI \<equiv> 0x00000008 :: u32"
abbreviation (input) "EXCEPTION_ISI \<equiv> 0x00000010 :: u32"
abbreviation (input) "EXCEPTION_ALIGNMENT \<equiv> 0x00000020 :: u32"
abbreviation (input) "EXCEPTION_FPU_UNAVAILABLE \<equiv> 0x00000040 :: u32"
abbreviation (input) "EXCEPTION_PROGRAM \<equiv> 0x00000080 :: u32"
abbreviation (input) "EXCEPTION_PERFORMANCE_MONITOR \<equiv> 0x00000100 :: u32"
abbreviation (input) "EXCEPTION_FAKE_MEMCHECK_HIT \<equiv> 0x00000200 :: u32"

text \<open>
  The lines every branch of the two functions has: the return address \<open>ret\<close> and the saved
  bits of \<open>MSR\<close>, with \<open>cause\<close>, go to \<open>SRR0\<close> and \<open>SRR1\<close>, \<open>ILE\<close> is copied to \<open>LE\<close>,
  \<open>MSR\<close> is cleared, and the processor continues at \<open>vector\<close>.
\<close>

definition enter_exception :: "u32 \<Rightarrow> u32 \<Rightarrow> u32 \<Rightarrow> u32 \<Rightarrow> PowerPCState \<Rightarrow> PowerPCState" where
  "enter_exception ret cause vector exc s =
     (let s1 = set_spr SPR_SRR1 ((msr s AND 0x87C0FFFF) OR cause) (set_spr SPR_SRR0 ret s);
          m1 = msr s1 OR (drop_bit 16 (msr s1) AND 1);
          m2 = m1 AND NOT 0x04EF36
      in s1\<lparr>msr := m2, pc := vector, npc := vector, Exceptions := Exceptions s1 AND NOT exc\<rparr>)"

definition CheckExternalExceptions :: "PowerPCState \<Rightarrow> PowerPCState" where
  "CheckExternalExceptions s =
     (let exceptions = Exceptions s in
      if exceptions \<noteq> 0 \<and> msr s AND 0x0008000 \<noteq> 0 then
        if exceptions AND EXCEPTION_EXTERNAL_INT \<noteq> 0 then enter_exception (npc s) 0 0x500 EXCEPTION_EXTERNAL_INT s
        else if exceptions AND EXCEPTION_PERFORMANCE_MONITOR \<noteq> 0
        then enter_exception (npc s) 0 0xF00 EXCEPTION_PERFORMANCE_MONITOR s
        else if exceptions AND EXCEPTION_DECREMENTER \<noteq> 0 then enter_exception (npc s) 0 0x900 EXCEPTION_DECREMENTER s
        else s
      else s)"

definition CheckExceptions :: "PowerPCState \<Rightarrow> PowerPCState" where
  "CheckExceptions s =
     (let exceptions = Exceptions s in
      if exceptions AND EXCEPTION_ISI \<noteq> 0 then enter_exception (npc s) (push_bit 30 1) 0x400 EXCEPTION_ISI s
      else if exceptions AND EXCEPTION_PROGRAM \<noteq> 0 then enter_exception (pc s) 0x20000 0x700 EXCEPTION_PROGRAM s
      else if exceptions AND EXCEPTION_SYSCALL \<noteq> 0 then enter_exception (npc s) 0 0xC00 EXCEPTION_SYSCALL s
      else if exceptions AND EXCEPTION_FPU_UNAVAILABLE \<noteq> 0
      then enter_exception (pc s) 0 0x800 EXCEPTION_FPU_UNAVAILABLE s
      else if exceptions AND EXCEPTION_FAKE_MEMCHECK_HIT \<noteq> 0
      then s\<lparr>Exceptions := Exceptions s AND (NOT EXCEPTION_DSI AND NOT EXCEPTION_FAKE_MEMCHECK_HIT)\<rparr>
      else if exceptions AND EXCEPTION_DSI \<noteq> 0 then enter_exception (pc s) 0 0x300 EXCEPTION_DSI s
      else if exceptions AND EXCEPTION_ALIGNMENT \<noteq> 0 then enter_exception (pc s) 0 0x600 EXCEPTION_ALIGNMENT s
      else CheckExternalExceptions s)"

definition rfi :: "UGeckoInstruction \<Rightarrow> PowerPCState \<Rightarrow> PowerPCState" where
  "rfi inst s =
     (let m1 = (msr s AND NOT 0x87C0FFFF) OR (spr s SPR_SRR1 AND 0x87C0FFFF);
          m2 = m1 AND 0xFFFBFFFF
      in s\<lparr>msr := m2, npc := spr s SPR_SRR0, m_end_block := True\<rparr>)"

definition sc :: "UGeckoInstruction \<Rightarrow> PowerPCState \<Rightarrow> PowerPCState" where
  "sc inst s = (CheckExceptions (s\<lparr>Exceptions := Exceptions s OR EXCEPTION_SYSCALL\<rparr>))\<lparr>m_end_block := True\<rparr>"

definition mtmsr :: "UGeckoInstruction \<Rightarrow> PowerPCState \<Rightarrow> PowerPCState" where
  "mtmsr inst s = (CheckExceptions (s\<lparr>msr := gpr s (RS inst)\<rparr>))\<lparr>m_end_block := True\<rparr>"

subsection \<open>Delivery\<close>

text \<open>
  The order in which pending exceptions are served, by their bits in \<open>Exceptions\<close>; the last three wait for \<open>MSR.EE\<close>. Bit 9
  is a memory breakpoint of the debugger, which takes back a data exception.
\<close>

definition exception_order :: "nat list" where
  "exception_order = [4, 7, 1, 6, 9, 3, 5, 2, 8, 0]"

definition deliverable :: "PowerPCState \<Rightarrow> nat \<Rightarrow> bool" where
  "deliverable s n \<longleftrightarrow> bit (Exceptions s) n \<and> (n \<in> {0, 2, 8} \<longrightarrow> bit (msr s) 15)"

text \<open>The vectors, and the address to which the handler returns: that of the instruction, or the next one.\<close>

definition exception_vector :: "nat \<Rightarrow> u32" where
  "exception_vector n = [0x900, 0xC00, 0x500, 0x300, 0x400, 0x600, 0x800, 0x700, 0xF00] ! n"

definition return_address :: "PowerPCState \<Rightarrow> nat \<Rightarrow> u32" where
  "return_address s n = (if n \<in> {3, 5, 6, 7} then pc s else npc s)"

definition exception_cause :: "nat \<Rightarrow> u32" where
  "exception_cause n = (if n = 4 then push_bit 30 1 else if n = 7 then 0x20000 else 0)"

lemma exception_bits:
  "x AND 0x1 \<noteq> 0 \<longleftrightarrow> bit x 0" "x AND 0x2 \<noteq> 0 \<longleftrightarrow> bit x 1" "x AND 0x4 \<noteq> 0 \<longleftrightarrow> bit x 2" "x AND 0x8 \<noteq> 0 \<longleftrightarrow> bit x 3"
  "x AND 0x10 \<noteq> 0 \<longleftrightarrow> bit x 4" "x AND 0x20 \<noteq> 0 \<longleftrightarrow> bit x 5" "x AND 0x40 \<noteq> 0 \<longleftrightarrow> bit x 6" "x AND 0x80 \<noteq> 0 \<longleftrightarrow> bit x 7"
  "x AND 0x100 \<noteq> 0 \<longleftrightarrow> bit x 8" "x AND 0x200 \<noteq> 0 \<longleftrightarrow> bit x 9" "x AND 0x8000 \<noteq> 0 \<longleftrightarrow> bit x 15" for x :: u32
  using and_exp_eq_0_iff [of x 0] and_exp_eq_0_iff [of x 1] and_exp_eq_0_iff [of x 2] and_exp_eq_0_iff [of x 3]
    and_exp_eq_0_iff [of x 4] and_exp_eq_0_iff [of x 5] and_exp_eq_0_iff [of x 6] and_exp_eq_0_iff [of x 7]
    and_exp_eq_0_iff [of x 8] and_exp_eq_0_iff [of x 9] and_exp_eq_0_iff [of x 15]
  by simp_all

lemma CheckExceptions_find:
  "CheckExceptions s =
     (case List.find (deliverable s) exception_order of
        None \<Rightarrow> s
      | Some n \<Rightarrow>
          if n = 9 then s\<lparr>Exceptions := Exceptions s AND NOT 0x208\<rparr>
          else enter_exception (return_address s n) (exception_cause n) (exception_vector n) (2 ^ n) s)"
proof -
  have "Exceptions s = 0 \<Longrightarrow> \<not> bit (Exceptions s) n" for n by simp
  then show ?thesis
    unfolding CheckExceptions_def CheckExternalExceptions_def Let_def exception_bits
    by (simp add: exception_order_def deliverable_def return_address_def exception_cause_def exception_vector_def)
qed

lemma enter_exception_fields:
  assumes "s' = enter_exception ret cause vector (2 ^ n) s"
  shows "pc s' = vector" "npc s' = vector" "spr s' SPR_SRR0 = ret" "spr s' SPR_SRR1 = (msr s AND 0x87C0FFFF) OR cause"
    "Exceptions s' = unset_bit n (Exceptions s)" "gpr s' = gpr s" "cr_val s' = cr_val s" "xer_ok s' = xer_ok s"
    "msr s' = (msr s OR (drop_bit 16 (msr s) AND 1)) AND NOT 0x04EF36"
  by (simp_all add: assms enter_exception_def Let_def set_spr_def unset_bit_eq_and_not push_bit_eq_mult xer_ok_def)

lemma handler_msr:
  fixes m c :: u32
  assumes "n \<in> {15, 14, 5, 4}"
  shows "\<not> bit (m AND NOT 0x04EF36) n"
proof -
  have "bit (0x04EF36 :: u32) 15" "bit (0x04EF36 :: u32) 14" "bit (0x04EF36 :: u32) 5" "bit (0x04EF36 :: u32) 4" by simp_all
  then show ?thesis using assms unfolding bit_and_iff bit_not_iff by blast
qed

text \<open>
  C24. Of the pending exceptions that can be served exactly the first in the order of the code is served; without one nothing
  changes. The processor continues at the vector of the exception with
  interrupts disabled, in supervisor mode, without address translation; the return address and the saved bits of \<open>MSR\<close> are in
  \<open>SRR0\<close> and \<open>SRR1\<close>, the exception is no longer pending, and every other one still is.
\<close>

theorem ppc_exception_delivery:
  "case List.find (deliverable s) exception_order of
     None \<Rightarrow> CheckExceptions s = s
   | Some n \<Rightarrow>
       let s' = CheckExceptions s in
       if n = 9 then s' = s\<lparr>Exceptions := unset_bit 9 (unset_bit 3 (Exceptions s))\<rparr>
       else pc s' = exception_vector n \<and> npc s' = exception_vector n \<and> spr s' SPR_SRR0 = return_address s n \<and>
         spr s' SPR_SRR1 AND 0x87C0FFFF = msr s AND 0x87C0FFFF \<and> Exceptions s' = unset_bit n (Exceptions s) \<and>
         (\<forall>k \<in> {15, 14, 5, 4}. \<not> bit (msr s') k) \<and> gpr s' = gpr s \<and> cr_val s' = cr_val s"
proof (cases "List.find (deliverable s) exception_order")
  case None
  then show ?thesis by (simp add: CheckExceptions_find)
next
  case (Some n)
  have cause: "((msr s AND 0x87C0FFFF) OR exception_cause n) AND 0x87C0FFFF = msr s AND 0x87C0FFFF"
    by (simp add: exception_cause_def bit.conj_disj_distrib2 and.assoc)
  show ?thesis
  proof (cases "n = 9")
    case True
    have "unset_bit 9 (unset_bit 3 x) = x AND NOT 0x208" for x :: u32
      by (simp add: unset_bit_eq_and_not push_bit_eq_mult and.assoc)
    with Some True show ?thesis by (simp add: Let_def CheckExceptions_find)
  next
    case False
    then have "CheckExceptions s = enter_exception (return_address s n) (exception_cause n) (exception_vector n) (2 ^ n) s"
      using Some by (simp add: CheckExceptions_find)
    note f = enter_exception_fields [OF this]
    have "\<forall>k \<in> {15, 14, 5, 4}. \<not> bit (msr (CheckExceptions s)) k" unfolding f(9) using handler_msr by blast
    with Some False cause f(1-7) show ?thesis by (simp add: Let_def)
  qed
qed

theorem ppc_exception_delivery_witness:
  "let s' = CheckExceptions (ppc_zero\<lparr>msr := 0x8000, Exceptions := 5, npc := 0x1234\<rparr>)
   in pc s' = 0x500 \<and> npc s' = 0x500 \<and> spr s' SPR_SRR0 = 0x1234 \<and> Exceptions s' = 1 \<and> \<not> bit (msr s') 15"
proof -
  let ?s = "ppc_zero\<lparr>msr := 0x8000, Exceptions := 5, npc := 0x1234\<rparr>"
  have bits: "bit (5 :: u32) 2" "bit (5 :: u32) 0" "bit (0x8000 :: u32) 15" by simp_all
  have "\<not> bit (5 :: u32) n" if "n \<in> {4, 7, 1, 6, 9, 3, 5}" for n
    using that by auto
  with bits have "List.find (deliverable ?s) exception_order = Some 2"
    by (simp add: exception_order_def deliverable_def)
  with ppc_exception_delivery [of ?s] show ?thesis
    by (simp add: Let_def return_address_def exception_vector_def unset_bit_eq_and_not push_bit_eq_mult)
qed

text \<open>
  Returning from an exception: if the handler leaves \<open>SRR0\<close>, \<open>SRR1\<close> and the bits of \<open>MSR\<close> that are not saved as
  it found them, \<open>RFI\<close> continues at the return address with the \<open>MSR\<close> from before the exception, except that the power-management bit is clear.
\<close>

theorem ppc_exception_return:
  assumes "List.find (deliverable s) exception_order = Some n" and "n \<noteq> 9"
    and "spr h SPR_SRR0 = spr (CheckExceptions s) SPR_SRR0" and "spr h SPR_SRR1 = spr (CheckExceptions s) SPR_SRR1"
    and "msr h AND NOT 0x87C0FFFF = msr (CheckExceptions s) AND NOT 0x87C0FFFF"
  shows "rfi inst h = h\<lparr>msr := unset_bit 18 (msr s), npc := return_address s n, m_end_block := True\<rparr>"
proof -
  have "CheckExceptions s = enter_exception (return_address s n) (exception_cause n) (exception_vector n) (2 ^ n) s"
    using assms(1,2) by (simp add: CheckExceptions_find)
  note f = enter_exception_fields [OF this]
  let ?m = "msr s"
  have e: "(- 2277834752 :: u32) = 0x783B0000" "(- 262145 :: u32) = 0xFFFBFFFF" by simp_all
  have 1: "((?m OR (drop_bit 16 ?m AND 1)) AND NOT 0x04EF36) AND NOT 0x87C0FFFF = ?m AND 0x783B0000"
    by (simp add: bit.conj_disj_distrib2 and.assoc e)
  have 2: "((?m AND 0x87C0FFFF) OR exception_cause n) AND 0x87C0FFFF = ?m AND 0x87C0FFFF"
    by (simp add: exception_cause_def bit.conj_disj_distrib2 and.assoc)
  have 3: "((?m AND 0x783B0000) OR (?m AND 0x87C0FFFF)) AND 0xFFFBFFFF = ?m AND 0xFFFBFFFF"
    by (simp add: and.assoc flip: bit.conj_disj_distrib)
  have "unset_bit 18 ?m = ?m AND 0xFFFBFFFF" by (simp add: unset_bit_eq_and_not push_bit_eq_mult e)
  then show ?thesis
    unfolding rfi_def Let_def assms(3-5) f(3,4,9) 1 2 3 by simp
qed


theorem ppc_exception_return_witness:
  "rfi 0x4C000064 (CheckExceptions (ppc_zero\<lparr>msr := 0x8000, Exceptions := 4, npc := 0x1234\<rparr>)) =
     (CheckExceptions (ppc_zero\<lparr>msr := 0x8000, Exceptions := 4, npc := 0x1234\<rparr>))\<lparr>msr := 0x8000, npc := 0x1234, m_end_block := True\<rparr>"
proof -
  let ?s = "ppc_zero\<lparr>msr := 0x8000, Exceptions := 4, npc := 0x1234\<rparr>"
  have "List.find (deliverable ?s) exception_order = Some 2"
    by (simp add: exception_order_def deliverable_def)
  from ppc_exception_return [OF this _ refl refl refl, of "0x4C000064"] show ?thesis
    by (simp add: return_address_def unset_bit_eq_and_not push_bit_eq_mult)
qed

end
