(* ===== verification/PPC_Integer.thy ===== *)
theory PPC_Integer
  imports PPC_Exceptions "HOL-Library.Signed_Division"
begin

text \<open>
  The integer instructions of the interpreter of the main processor
  (\<^verbatim>\<open>Core/PowerPC/Interpreter/Interpreter_Integer.cpp\<close>), one definition per function.
  \<^verbatim>\<open>PanicAlert\<close> shows a message and returns, the overflow bit of an instruction has no other effect in the
  source. A product or difference of \<^verbatim>\<open>int\<close> operands wraps, as the compiled code does.
\<close>

unbundle bit_operations_syntax

subsection \<open>Helpers\<close>

definition Helper_UpdateCR0 :: "u32 \<Rightarrow> PowerPCState \<Rightarrow> PowerPCState" where
  "Helper_UpdateCR0 value s =
     (let v = (scast value :: u64);
          w = (v AND NOT (push_bit 61 1)) OR push_bit 61 (ucast (GetXER_SO s))
      in s\<lparr>cr_val := (cr_val s)(0 := w)\<rparr>)"

definition Helper_Carry :: "u32 \<Rightarrow> u32 \<Rightarrow> bool" where
  "Helper_Carry value1 value2 \<longleftrightarrow> value2 > NOT value1"

definition Helper_Mask :: "nat \<Rightarrow> nat \<Rightarrow> u32" where
  "Helper_Mask mb me =
     (let begin_part = drop_bit mb 0xFFFFFFFF;
          end_part = drop_bit me 0x7FFFFFFF;
          m = begin_part XOR end_part
      in if me < mb then NOT m else m)"

text \<open>\<^verbatim>\<open>if (inst.Rc) Helper_UpdateCR0(rGPR[n]);\<close>\<close>

definition record_CR0 :: "UGeckoInstruction \<Rightarrow> nat \<Rightarrow> PowerPCState \<Rightarrow> PowerPCState" where
  "record_CR0 inst n s = (if Rc inst then Helper_UpdateCR0 (gpr s n) s else s)"

text \<open>The comparison of the four compare instructions; \<open>lt\<close> and \<open>gt\<close> tell how the operands compare.\<close>

definition compare_flags :: "bool \<Rightarrow> bool \<Rightarrow> PowerPCState \<Rightarrow> u32" where
  "compare_flags lt gt s =
     (let f = (if lt then 8 else if gt then 4 else 2) in if GetXER_SO s \<noteq> 0 then f OR 1 else f)"

definition trap_if :: "s32 \<Rightarrow> s32 \<Rightarrow> u32 \<Rightarrow> PowerPCState \<Rightarrow> PowerPCState" where
  "trap_if a b to s =
     (if a <s b \<and> to AND 0x10 \<noteq> 0 \<or> b <s a \<and> to AND 0x08 \<noteq> 0 \<or> a = b \<and> to AND 0x04 \<noteq> 0 \<or>
         a < b \<and> to AND 0x02 \<noteq> 0 \<or> a > b \<and> to AND 0x01 \<noteq> 0
      then (CheckExceptions (s\<lparr>Exceptions := Exceptions s OR EXCEPTION_PROGRAM\<rparr>))\<lparr>m_end_block := True\<rparr>
      else s)"

subsection \<open>Immediate operands\<close>

definition addi :: "UGeckoInstruction \<Rightarrow> PowerPCState \<Rightarrow> PowerPCState" where
  "addi inst s =
     (if RA inst \<noteq> 0 then set_gpr (RD inst) (gpr s (RA inst) + SIMM_16 inst) s else set_gpr (RD inst) (SIMM_16 inst) s)"

definition addic :: "UGeckoInstruction \<Rightarrow> PowerPCState \<Rightarrow> PowerPCState" where
  "addic inst s =
     (let a = gpr s (RA inst); imm = SIMM_16 inst in SetCarry (Helper_Carry a imm) (set_gpr (RD inst) (a + imm) s))"

definition addic_rc :: "UGeckoInstruction \<Rightarrow> PowerPCState \<Rightarrow> PowerPCState" where
  "addic_rc inst s =
     (let s1 = addic inst s in Helper_UpdateCR0 (gpr s1 (RD inst)) s1)"

definition addis :: "UGeckoInstruction \<Rightarrow> PowerPCState \<Rightarrow> PowerPCState" where
  "addis inst s =
     (if RA inst \<noteq> 0 then set_gpr (RD inst) (gpr s (RA inst) + push_bit 16 (SIMM_16 inst)) s
      else set_gpr (RD inst) (push_bit 16 (SIMM_16 inst)) s)"

definition andi_rc :: "UGeckoInstruction \<Rightarrow> PowerPCState \<Rightarrow> PowerPCState" where
  "andi_rc inst s =
     (let s1 = set_gpr (RA inst) (gpr s (RS inst) AND UIMM inst) s in Helper_UpdateCR0 (gpr s1 (RA inst)) s1)"

definition andis_rc :: "UGeckoInstruction \<Rightarrow> PowerPCState \<Rightarrow> PowerPCState" where
  "andis_rc inst s =
     (let s1 = set_gpr (RA inst) (gpr s (RS inst) AND push_bit 16 (UIMM inst)) s in Helper_UpdateCR0 (gpr s1 (RA inst)) s1)"

definition cmpi :: "UGeckoInstruction \<Rightarrow> PowerPCState \<Rightarrow> PowerPCState" where
  "cmpi inst s =
     (let a = gpr s (RA inst); b = SIMM_16 inst in SetCRField (CRFD inst) (compare_flags (a <s b) (b <s a) s) s)"

definition cmpli :: "UGeckoInstruction \<Rightarrow> PowerPCState \<Rightarrow> PowerPCState" where
  "cmpli inst s =
     (let a = gpr s (RA inst); b = UIMM inst in SetCRField (CRFD inst) (compare_flags (a < b) (a > b) s) s)"

definition mulli :: "UGeckoInstruction \<Rightarrow> PowerPCState \<Rightarrow> PowerPCState" where
  "mulli inst s =
     set_gpr (RD inst) (gpr s (RA inst) * SIMM_16 inst) s"

definition ori :: "UGeckoInstruction \<Rightarrow> PowerPCState \<Rightarrow> PowerPCState" where
  "ori inst s =
     set_gpr (RA inst) (gpr s (RS inst) OR UIMM inst) s"

definition oris :: "UGeckoInstruction \<Rightarrow> PowerPCState \<Rightarrow> PowerPCState" where
  "oris inst s =
     set_gpr (RA inst) (gpr s (RS inst) OR push_bit 16 (UIMM inst)) s"

definition subfic :: "UGeckoInstruction \<Rightarrow> PowerPCState \<Rightarrow> PowerPCState" where
  "subfic inst s =
     (let immediate = SIMM_16 inst;
          s1 = set_gpr (RD inst) (immediate - gpr s (RA inst)) s
      in SetCarry (gpr s1 (RA inst) = 0 \<or> Helper_Carry (0 - gpr s1 (RA inst)) immediate) s1)"

definition twi :: "UGeckoInstruction \<Rightarrow> PowerPCState \<Rightarrow> PowerPCState" where
  "twi inst s =
     trap_if (gpr s (RA inst)) (SIMM_16 inst) (TO inst) s"

definition xori :: "UGeckoInstruction \<Rightarrow> PowerPCState \<Rightarrow> PowerPCState" where
  "xori inst s =
     set_gpr (RA inst) (gpr s (RS inst) XOR UIMM inst) s"

definition xoris :: "UGeckoInstruction \<Rightarrow> PowerPCState \<Rightarrow> PowerPCState" where
  "xoris inst s =
     set_gpr (RA inst) (gpr s (RS inst) XOR push_bit 16 (UIMM inst)) s"

subsection \<open>Rotation and masks\<close>

definition rlwimix :: "UGeckoInstruction \<Rightarrow> PowerPCState \<Rightarrow> PowerPCState" where
  "rlwimix inst s =
     (let m = Helper_Mask (MB inst) (ME inst)
      in record_CR0 inst (RA inst) (set_gpr (RA inst) ((gpr s (RA inst) AND NOT m) OR (rotl (gpr s (RS inst)) (SH inst) AND m)) s))"

definition rlwinmx :: "UGeckoInstruction \<Rightarrow> PowerPCState \<Rightarrow> PowerPCState" where
  "rlwinmx inst s =
     (let m = Helper_Mask (MB inst) (ME inst)
      in record_CR0 inst (RA inst) (set_gpr (RA inst) (rotl (gpr s (RS inst)) (SH inst) AND m) s))"

definition rlwnmx :: "UGeckoInstruction \<Rightarrow> PowerPCState \<Rightarrow> PowerPCState" where
  "rlwnmx inst s =
     (let m = Helper_Mask (MB inst) (ME inst)
      in record_CR0 inst (RA inst) (set_gpr (RA inst) (rotl (gpr s (RS inst)) (unat (gpr s (RB inst) AND 0x1F)) AND m) s))"

subsection \<open>Logic, comparison and shifts\<close>

definition andx :: "UGeckoInstruction \<Rightarrow> PowerPCState \<Rightarrow> PowerPCState" where
  "andx inst s =
     record_CR0 inst (RA inst) (set_gpr (RA inst) (gpr s (RS inst) AND gpr s (RB inst)) s)"

definition andcx :: "UGeckoInstruction \<Rightarrow> PowerPCState \<Rightarrow> PowerPCState" where
  "andcx inst s =
     record_CR0 inst (RA inst) (set_gpr (RA inst) (gpr s (RS inst) AND NOT (gpr s (RB inst))) s)"

definition cmp :: "UGeckoInstruction \<Rightarrow> PowerPCState \<Rightarrow> PowerPCState" where
  "cmp inst s =
     (let a = gpr s (RA inst); b = gpr s (RB inst) in SetCRField (CRFD inst) (compare_flags (a <s b) (b <s a) s) s)"

definition cmpl :: "UGeckoInstruction \<Rightarrow> PowerPCState \<Rightarrow> PowerPCState" where
  "cmpl inst s =
     (let a = gpr s (RA inst); b = gpr s (RB inst) in SetCRField (CRFD inst) (compare_flags (a < b) (a > b) s) s)"

text \<open>The loop of \<open>cntlzwx\<close>.\<close>

function cntlz_loop :: "u32 \<Rightarrow> u32 \<Rightarrow> nat \<Rightarrow> nat" where
  "cntlz_loop val m i = (if i < 32 \<and> val AND m = 0 then cntlz_loop val (drop_bit 1 m) (i + 1) else i)"
  by pat_completeness auto
termination
  by (relation "measure (\<lambda>(_, _, i). 32 - i)") auto

declare cntlz_loop.simps [simp del]

definition cntlzwx :: "UGeckoInstruction \<Rightarrow> PowerPCState \<Rightarrow> PowerPCState" where
  "cntlzwx inst s =
     record_CR0 inst (RA inst) (set_gpr (RA inst) (of_nat (cntlz_loop (gpr s (RS inst)) 0x80000000 0)) s)"

definition eqvx :: "UGeckoInstruction \<Rightarrow> PowerPCState \<Rightarrow> PowerPCState" where
  "eqvx inst s =
     record_CR0 inst (RA inst) (set_gpr (RA inst) (NOT (gpr s (RS inst) XOR gpr s (RB inst))) s)"

definition extsbx :: "UGeckoInstruction \<Rightarrow> PowerPCState \<Rightarrow> PowerPCState" where
  "extsbx inst s =
     record_CR0 inst (RA inst) (set_gpr (RA inst) (scast (ucast (gpr s (RS inst)) :: u8)) s)"

definition extshx :: "UGeckoInstruction \<Rightarrow> PowerPCState \<Rightarrow> PowerPCState" where
  "extshx inst s =
     record_CR0 inst (RA inst) (set_gpr (RA inst) (scast (ucast (gpr s (RS inst)) :: u16)) s)"

definition nandx :: "UGeckoInstruction \<Rightarrow> PowerPCState \<Rightarrow> PowerPCState" where
  "nandx inst s =
     record_CR0 inst (RA inst) (set_gpr (RA inst) (NOT (gpr s (RS inst) AND gpr s (RB inst))) s)"

definition norx :: "UGeckoInstruction \<Rightarrow> PowerPCState \<Rightarrow> PowerPCState" where
  "norx inst s =
     record_CR0 inst (RA inst) (set_gpr (RA inst) (NOT (gpr s (RS inst) OR gpr s (RB inst))) s)"

definition orx :: "UGeckoInstruction \<Rightarrow> PowerPCState \<Rightarrow> PowerPCState" where
  "orx inst s =
     record_CR0 inst (RA inst) (set_gpr (RA inst) (gpr s (RS inst) OR gpr s (RB inst)) s)"

definition orcx :: "UGeckoInstruction \<Rightarrow> PowerPCState \<Rightarrow> PowerPCState" where
  "orcx inst s =
     record_CR0 inst (RA inst) (set_gpr (RA inst) (gpr s (RS inst) OR NOT (gpr s (RB inst))) s)"

definition slwx :: "UGeckoInstruction \<Rightarrow> PowerPCState \<Rightarrow> PowerPCState" where
  "slwx inst s =
     (let amount = gpr s (RB inst)
      in record_CR0 inst (RA inst)
           (set_gpr (RA inst) (if amount AND 0x20 \<noteq> 0 then 0 else push_bit (unat (amount AND 0x1F)) (gpr s (RS inst))) s))"

text \<open>The lines \<open>srawx\<close> and \<open>srawix\<close> share.\<close>

definition shift_right_algebraic :: "UGeckoInstruction \<Rightarrow> nat \<Rightarrow> PowerPCState \<Rightarrow> PowerPCState" where
  "shift_right_algebraic inst amount s =
     (let rrs = gpr s (RS inst)
      in SetCarry (rrs <s 0 \<and> 0 < amount \<and> push_bit (32 - amount) rrs \<noteq> 0)
           (set_gpr (RA inst) (signed_drop_bit amount rrs) s))"

definition srawx :: "UGeckoInstruction \<Rightarrow> PowerPCState \<Rightarrow> PowerPCState" where
  "srawx inst s =
     (let rb = gpr s (RB inst);
          s1 = (if rb AND 0x20 \<noteq> 0
                then if gpr s (RS inst) AND 0x80000000 \<noteq> 0
                     then SetCarry True (set_gpr (RA inst) 0xFFFFFFFF s)
                     else SetCarry False (set_gpr (RA inst) 0 s)
                else shift_right_algebraic inst (unat (rb AND 0x1F)) s)
      in record_CR0 inst (RA inst) s1)"

definition srawix :: "UGeckoInstruction \<Rightarrow> PowerPCState \<Rightarrow> PowerPCState" where
  "srawix inst s =
     record_CR0 inst (RA inst) (shift_right_algebraic inst (SH inst) s)"

definition srwx :: "UGeckoInstruction \<Rightarrow> PowerPCState \<Rightarrow> PowerPCState" where
  "srwx inst s =
     (let amount = gpr s (RB inst)
      in record_CR0 inst (RA inst)
           (set_gpr (RA inst) (if amount AND 0x20 \<noteq> 0 then 0 else drop_bit (unat (amount AND 0x1F)) (gpr s (RS inst))) s))"

definition tw :: "UGeckoInstruction \<Rightarrow> PowerPCState \<Rightarrow> PowerPCState" where
  "tw inst s =
     trap_if (gpr s (RA inst)) (gpr s (RB inst)) (TO inst) s"

definition xorx :: "UGeckoInstruction \<Rightarrow> PowerPCState \<Rightarrow> PowerPCState" where
  "xorx inst s =
     record_CR0 inst (RA inst) (set_gpr (RA inst) (gpr s (RS inst) XOR gpr s (RB inst)) s)"

subsection \<open>Addition and subtraction\<close>

definition addx :: "UGeckoInstruction \<Rightarrow> PowerPCState \<Rightarrow> PowerPCState" where
  "addx inst s =
     record_CR0 inst (RD inst) (set_gpr (RD inst) (gpr s (RA inst) + gpr s (RB inst)) s)"

definition addcx :: "UGeckoInstruction \<Rightarrow> PowerPCState \<Rightarrow> PowerPCState" where
  "addcx inst s =
     (let a = gpr s (RA inst); b = gpr s (RB inst)
      in record_CR0 inst (RD inst) (SetCarry (Helper_Carry a b) (set_gpr (RD inst) (a + b) s)))"

definition addex :: "UGeckoInstruction \<Rightarrow> PowerPCState \<Rightarrow> PowerPCState" where
  "addex inst s =
     (let carry = GetCarry s; a = gpr s (RA inst); b = gpr s (RB inst)
      in record_CR0 inst (RD inst) (SetCarry (Helper_Carry a b \<or> carry \<noteq> 0 \<and> Helper_Carry (a + b) carry) (set_gpr (RD inst) (a + b + carry) s)))"

definition addmex :: "UGeckoInstruction \<Rightarrow> PowerPCState \<Rightarrow> PowerPCState" where
  "addmex inst s =
     (let carry = GetCarry s; a = gpr s (RA inst)
      in record_CR0 inst (RD inst) (SetCarry (Helper_Carry a (carry - 1)) (set_gpr (RD inst) (a + carry - 1) s)))"

definition addzex :: "UGeckoInstruction \<Rightarrow> PowerPCState \<Rightarrow> PowerPCState" where
  "addzex inst s =
     (let carry = GetCarry s; a = gpr s (RA inst)
      in record_CR0 inst (RD inst) (SetCarry (Helper_Carry a carry) (set_gpr (RD inst) (a + carry) s)))"

subsection \<open>Division and multiplication\<close>

definition divwx :: "UGeckoInstruction \<Rightarrow> PowerPCState \<Rightarrow> PowerPCState" where
  "divwx inst s =
     (let a = gpr s (RA inst); b = gpr s (RB inst);
          d = (if b = 0 \<or> a = 0x80000000 \<and> b = - 1
               then if a AND 0x80000000 \<noteq> 0 \<and> b = 0 then 0xFFFFFFFF else 0
               else word_of_int (sint a sdiv sint b))
      in record_CR0 inst (RD inst) (set_gpr (RD inst) d s))"

definition divwux :: "UGeckoInstruction \<Rightarrow> PowerPCState \<Rightarrow> PowerPCState" where
  "divwux inst s =
     (let a = gpr s (RA inst); b = gpr s (RB inst); d = (if b = 0 then 0 else a div b)
      in record_CR0 inst (RD inst) (set_gpr (RD inst) d s))"

definition mulhwx :: "UGeckoInstruction \<Rightarrow> PowerPCState \<Rightarrow> PowerPCState" where
  "mulhwx inst s =
     (let a = gpr s (RA inst); b = gpr s (RB inst); d = ucast (drop_bit 32 (scast a * scast b :: u64))
      in record_CR0 inst (RD inst) (set_gpr (RD inst) d s))"

definition mulhwux :: "UGeckoInstruction \<Rightarrow> PowerPCState \<Rightarrow> PowerPCState" where
  "mulhwux inst s =
     (let a = gpr s (RA inst); b = gpr s (RB inst); d = ucast (drop_bit 32 (ucast a * ucast b :: u64))
      in record_CR0 inst (RD inst) (set_gpr (RD inst) d s))"

definition mullwx :: "UGeckoInstruction \<Rightarrow> PowerPCState \<Rightarrow> PowerPCState" where
  "mullwx inst s =
     (let a = gpr s (RA inst); b = gpr s (RB inst) in record_CR0 inst (RD inst) (set_gpr (RD inst) (a * b) s))"

definition negx :: "UGeckoInstruction \<Rightarrow> PowerPCState \<Rightarrow> PowerPCState" where
  "negx inst s =
     record_CR0 inst (RD inst) (set_gpr (RD inst) (NOT (gpr s (RA inst)) + 1) s)"

definition subfx :: "UGeckoInstruction \<Rightarrow> PowerPCState \<Rightarrow> PowerPCState" where
  "subfx inst s =
     record_CR0 inst (RD inst) (set_gpr (RD inst) (gpr s (RB inst) - gpr s (RA inst)) s)"

definition subfcx :: "UGeckoInstruction \<Rightarrow> PowerPCState \<Rightarrow> PowerPCState" where
  "subfcx inst s =
     (let a = gpr s (RA inst); b = gpr s (RB inst)
      in record_CR0 inst (RD inst) (SetCarry (a = 0 \<or> Helper_Carry b (0 - a)) (set_gpr (RD inst) (b - a) s)))"

definition subfex :: "UGeckoInstruction \<Rightarrow> PowerPCState \<Rightarrow> PowerPCState" where
  "subfex inst s =
     (let a = gpr s (RA inst); b = gpr s (RB inst); carry = GetCarry s
      in record_CR0 inst (RD inst) (SetCarry (Helper_Carry (NOT a) b \<or> Helper_Carry (NOT a + b) carry) (set_gpr (RD inst) (NOT a + b + carry) s)))"

definition subfmex :: "UGeckoInstruction \<Rightarrow> PowerPCState \<Rightarrow> PowerPCState" where
  "subfmex inst s =
     (let a = gpr s (RA inst); carry = GetCarry s
      in record_CR0 inst (RD inst) (SetCarry (Helper_Carry (NOT a) (carry - 1)) (set_gpr (RD inst) (NOT a + carry - 1) s)))"

definition subfzex :: "UGeckoInstruction \<Rightarrow> PowerPCState \<Rightarrow> PowerPCState" where
  "subfzex inst s =
     (let a = gpr s (RA inst); carry = GetCarry s
      in record_CR0 inst (RD inst) (SetCarry (Helper_Carry (NOT a) carry) (set_gpr (RD inst) (NOT a + carry) s)))"

subsection \<open>What the helpers change\<close>

lemma ppc_frame [simp]:
  "gpr (set_gpr n v s) = (gpr s)(n := v)" "xer_ca (set_gpr n v s) = xer_ca s" "xer_so_ov (set_gpr n v s) = xer_so_ov s"
  "cr_val (set_gpr n v s) = cr_val s" "gpr (SetCarry c s) = gpr s" "xer_ca (SetCarry c s) = (if c then 1 else 0)"
  "xer_so_ov (SetCarry c s) = xer_so_ov s" "cr_val (SetCarry c s) = cr_val s"
  "gpr (record_CR0 inst n s) = gpr s" "xer_ca (record_CR0 inst n s) = xer_ca s" "xer_so_ov (record_CR0 inst n s) = xer_so_ov s"
  "gpr (Helper_UpdateCR0 v s) = gpr s" "xer_ca (Helper_UpdateCR0 v s) = xer_ca s" "xer_so_ov (Helper_UpdateCR0 v s) = xer_so_ov s"
  "gpr (SetCRField f v s) = gpr s"
  by (simp_all add: set_gpr_def SetCarry_def record_CR0_def Helper_UpdateCR0_def SetCRField_def Let_def)

text \<open>What an integer instruction may change: its target, the carry and the condition register.\<close>

definition only_register :: "nat \<Rightarrow> PowerPCState \<Rightarrow> PowerPCState \<Rightarrow> bool" where
  "only_register n s s' \<longleftrightarrow>
     s'\<lparr>gpr := gpr s, xer_ca := xer_ca s, cr_val := cr_val s\<rparr> = s \<and> (\<forall>k. k \<noteq> n \<longrightarrow> gpr s' k = gpr s k) \<and>
     (\<forall>f. f \<noteq> 0 \<longrightarrow> cr_val s' f = cr_val s f)"

lemma only_register_intros:
  "only_register n s s" "only_register n s s' \<Longrightarrow> only_register n s (set_gpr n v s')"
  "only_register n s s' \<Longrightarrow> only_register n s (SetCarry c s')" "only_register n s s' \<Longrightarrow> only_register n s (Helper_UpdateCR0 v s')"
  "only_register n s s' \<Longrightarrow> only_register n s (record_CR0 inst k s')"
  by (auto simp: only_register_def set_gpr_def SetCarry_def Helper_UpdateCR0_def record_CR0_def Let_def)

subsection \<open>Carries\<close>

lemma unat_u32_less: "unat a < 2 ^ 32" for a :: u32
  using unsigned_less [of a] by simp

lemma unat_NOT: "unat (NOT a) = 2 ^ 32 - 1 - unat a" for a :: u32
proof -
  have "NOT a = (- 1) - a" by (simp add: not_eq_complement)
  moreover have "unat (- 1 :: u32) = 2 ^ 32 - 1" by (simp add: unsigned_minus_1_eq_mask mask_eq_exp_minus_1)
  ultimately show ?thesis using unat_u32_less [of a] by (simp only: unat_sub_if') simp
qed

lemma Helper_Carry_iff: "Helper_Carry a b \<longleftrightarrow> 2 ^ 32 \<le> unat a + unat b"
  using unat_u32_less [of a] unat_u32_less [of b] by (auto simp: Helper_Carry_def word_less_nat_alt unat_NOT)

lemma Helper_Carry_sym: "Helper_Carry a b = Helper_Carry b a"
  by (simp add: Helper_Carry_iff add.commute)

text \<open>A sum and its carry are the sum of the numbers.\<close>

definition sum_with_carry :: "u32 \<Rightarrow> bool \<Rightarrow> nat \<Rightarrow> bool" where
  "sum_with_carry r c k \<longleftrightarrow> unat r + (if c then 2 ^ 32 else 0) = k"

lemma sum_with_carryI: "unat r = k mod 2 ^ 32 \<Longrightarrow> c = (2 ^ 32 \<le> k) \<Longrightarrow> k < 2 ^ 33 \<Longrightarrow> sum_with_carry r c k"
  by (cases "2 ^ 32 \<le> k") (auto simp: sum_with_carry_def le_mod_geq)

lemma unat_sum: "unat (a + b) = (unat a + unat b) mod 2 ^ 32" for a b :: u32
  by (simp add: unat_word_ariths)

lemma carry_2: "sum_with_carry (a + b) (Helper_Carry a b) (unat a + unat b)"
  by (rule sum_with_carryI) (use unat_u32_less [of a] unat_u32_less [of b] in \<open>auto simp: unat_sum Helper_Carry_iff\<close>)

lemma carry_3:
  assumes "c \<le> 1"
  shows "sum_with_carry (a + b + c) (Helper_Carry a b \<or> Helper_Carry (a + b) c) (unat a + unat b + unat c)"
proof -
  have c: "unat c \<le> 1" using assms by (simp add: word_le_nat_alt)
  have 1: "sum_with_carry (a + b) (Helper_Carry a b) (unat a + unat b)"
    and 2: "sum_with_carry (a + b + c) (Helper_Carry (a + b) c) (unat (a + b) + unat c)" by (rule carry_2)+
  have "\<not> (Helper_Carry a b \<and> Helper_Carry (a + b) c)"
    using 1 c unat_u32_less [of a] unat_u32_less [of b] unfolding Helper_Carry_iff [of "a + b" c]
    by (auto simp: sum_with_carry_def split: if_splits)
  with 1 2 show ?thesis by (auto simp: sum_with_carry_def split: if_splits)
qed

text \<open>A subtraction adds the complement and one.\<close>

lemma carry_sub: "sum_with_carry (b - a) (a = 0 \<or> Helper_Carry b (0 - a)) (unat (NOT a) + unat b + 1)"
proof (cases "a = 0")
  case True
  then show ?thesis using unat_NOT [of 0] by (simp add: sum_with_carry_def)
next
  case False
  have "unat (0 - a) = 2 ^ 32 - unat a" using False unat_u32_less [of a] by (simp only: unat_sub_if') (simp add: unat_gt_0)
  moreover have "0 < unat a" using False by (simp add: unat_gt_0)
  ultimately have e: "unat (NOT a) + unat b + 1 = unat b + unat (0 - a)" using unat_u32_less [of a] by (simp add: unat_NOT)
  show ?thesis unfolding e using carry_2 [of b "0 - a"] False by simp
qed

text \<open>
  \<open>SUBFIC\<close> reads its operand again after it has written its result; the carry is the same if that was the same register.
\<close>

lemma no_borrow_iff: "a = 0 \<or> Helper_Carry (0 - a) b \<longleftrightarrow> unat a \<le> unat b"
proof (cases "a = 0")
  case False
  then have "unat (0 - a) = 2 ^ 32 - unat a" using unat_u32_less [of a] by (simp only: unat_sub_if') (simp add: unat_gt_0)
  then show ?thesis using False unat_u32_less [of a] by (auto simp: Helper_Carry_iff)
qed simp

lemma borrow_of_difference: "unat (b - a) \<le> unat b \<longleftrightarrow> unat a \<le> unat b" for a b :: u32
  using unat_u32_less [of a] unat_u32_less [of b] by (auto simp only: unat_sub_if' word_le_nat_alt split: if_splits) auto

lemma subfic_carry:
  "xer_ca (subfic inst s) = (if gpr s (RA inst) = 0 \<or> Helper_Carry (SIMM_16 inst) (0 - gpr s (RA inst)) then 1 else 0)"
proof -
  let ?i = "SIMM_16 inst" and ?a = "gpr s (RA inst)"
  let ?r = "(gpr s)(RD inst := ?i - ?a)"
  have "unat (?r (RA inst)) \<le> unat ?i \<longleftrightarrow> unat ?a \<le> unat ?i" by (simp add: borrow_of_difference)
  then have "?r (RA inst) = 0 \<or> Helper_Carry (0 - ?r (RA inst)) ?i \<longleftrightarrow> ?a = 0 \<or> Helper_Carry ?i (0 - ?a)"
    unfolding Helper_Carry_sym [of ?i] no_borrow_iff .
  then show ?thesis by (simp only: subfic_def Let_def ppc_frame)
qed

text \<open>What an instruction computes: the number \<open>k\<close>, in its target register and the carry.\<close>

definition carries :: "nat \<Rightarrow> nat \<Rightarrow> PowerPCState \<Rightarrow> PowerPCState \<Rightarrow> bool" where
  "carries n k s s' \<longleftrightarrow> unat (gpr s' n) + 2 ^ 32 * unat (xer_ca s') = k \<and> only_register n s s'"

lemma carriesI:
  assumes "sum_with_carry v c k" and "only_register n s s'" and "gpr s' n = v" and "xer_ca s' = (if c then 1 else 0)"
  shows "carries n k s s'"
  using assms by (auto simp: carries_def sum_with_carry_def)

lemma GetCarry_le: "xer_ok s \<Longrightarrow> GetCarry s \<le> 1" "unat (GetCarry s) = unat (xer_ca s)"
proof -
  show u: "unat (GetCarry s) = unat (xer_ca s)"
    by (simp add: GetCarry_def unsigned_ucast_eq take_bit_nat_eq_self less_le_trans [OF unsigned_less])
  show "xer_ok s \<Longrightarrow> GetCarry s \<le> 1" using u by (simp add: xer_ok_def word_le_nat_alt)
qed

lemma carry_parts:
  assumes "xer_ok s"
  shows "carries (RD inst) (unat (gpr s (RA inst)) + unat (SIMM_16 inst)) s (addic inst s)"
    and "carries (RD inst) (unat (gpr s (RA inst)) + unat (gpr s (RB inst))) s (addcx inst s)"
    and "carries (RD inst) (unat (gpr s (RA inst)) + unat (gpr s (RB inst)) + unat (xer_ca s)) s (addex inst s)"
    and "carries (RD inst) (unat (gpr s (RA inst)) + unat (xer_ca s)) s (addzex inst s)"
    and "carries (RD inst) (unat (NOT (gpr s (RA inst))) + unat (gpr s (RB inst)) + 1) s (subfcx inst s)"
    and "carries (RD inst) (unat (NOT (gpr s (RA inst))) + unat (gpr s (RB inst)) + unat (xer_ca s)) s (subfex inst s)"
    and "carries (RD inst) (unat (NOT (gpr s (RA inst))) + unat (xer_ca s)) s (subfzex inst s)"
    and "carries (RD inst) (unat (NOT (gpr s (RA inst))) + unat (SIMM_16 inst) + 1) s (subfic inst s)"
    and "unat (xer_ca s) = 0 \<Longrightarrow> carries (RD inst) (unat (gpr s (RA inst)) + (2 ^ 32 - 1)) s (addmex inst s)"
    and "unat (xer_ca s) = 0 \<Longrightarrow> carries (RD inst) (unat (NOT (gpr s (RA inst))) + (2 ^ 32 - 1)) s (subfmex inst s)"
proof -
  let ?a = "gpr s (RA inst)" and ?b = "gpr s (RB inst)" and ?c = "GetCarry s"
  have c: "?c \<le> 1" "unat ?c = unat (xer_ca s)" using GetCarry_le(1) [OF assms] GetCarry_le(2) [of s] by simp_all
  note fr = only_register_intros
  show "carries (RD inst) (unat ?a + unat (SIMM_16 inst)) s (addic inst s)"
    by (rule carriesI [OF carry_2]) (simp_all add: addic_def Let_def fr)
  show "carries (RD inst) (unat ?a + unat ?b) s (addcx inst s)"
    by (rule carriesI [OF carry_2]) (simp_all add: addcx_def Let_def fr)
  show "carries (RD inst) (unat ?a + unat ?b + unat (xer_ca s)) s (addex inst s)"
    unfolding c(2) [symmetric] by (rule carriesI [OF carry_3 [OF c(1)]]) (auto simp: addex_def Let_def fr Helper_Carry_def)
  show "carries (RD inst) (unat ?a + unat (xer_ca s)) s (addzex inst s)"
    unfolding c(2) [symmetric] by (rule carriesI [OF carry_2]) (simp_all add: addzex_def Let_def fr)
  show "carries (RD inst) (unat (NOT ?a) + unat ?b + 1) s (subfcx inst s)"
    by (rule carriesI [OF carry_sub]) (simp_all add: subfcx_def Let_def fr)
  show "carries (RD inst) (unat (NOT ?a) + unat ?b + unat (xer_ca s)) s (subfex inst s)"
    unfolding c(2) [symmetric] by (rule carriesI [OF carry_3 [OF c(1)]]) (simp_all add: subfex_def Let_def fr)
  show "carries (RD inst) (unat (NOT ?a) + unat (xer_ca s)) s (subfzex inst s)"
    unfolding c(2) [symmetric] by (rule carriesI [OF carry_2]) (simp_all add: subfzex_def Let_def fr)
  show "carries (RD inst) (unat (NOT ?a) + unat (SIMM_16 inst) + 1) s (subfic inst s)"
    by (rule carriesI [OF carry_sub _ _ subfic_carry]) (simp_all add: subfic_def Let_def fr)
  have m: "unat (- 1 :: u32) = 2 ^ 32 - 1" by (simp add: unsigned_minus_1_eq_mask mask_eq_exp_minus_1)
  show "carries (RD inst) (unat ?a + (2 ^ 32 - 1)) s (addmex inst s)" if "unat (xer_ca s) = 0"
  proof -
    have "?c = 0" using that c(2) by (simp add: unat_eq_0)
    then show ?thesis
      unfolding m [symmetric] by (intro carriesI [OF carry_2]) (simp_all add: addmex_def Let_def fr)
  qed
  show "carries (RD inst) (unat (NOT ?a) + (2 ^ 32 - 1)) s (subfmex inst s)" if "unat (xer_ca s) = 0"
  proof -
    have "?c = 0" using that c(2) by (simp add: unat_eq_0)
    then show ?thesis
      unfolding m [symmetric] by (intro carriesI [OF carry_2]) (simp_all add: subfmex_def Let_def fr)
  qed
qed


text \<open>
  \<open>carries_cr rec n k s s'\<close>: besides, field 0 of the condition register records the order of the result to 0 when \<open>rec\<close> holds, and
  the whole condition register is as before when it does not.
\<close>

definition carries_cr :: "bool \<Rightarrow> nat \<Rightarrow> nat \<Rightarrow> PowerPCState \<Rightarrow> PowerPCState \<Rightarrow> bool" where
  "carries_cr rec n k s s' \<longleftrightarrow> carries n k s s' \<and>
     cr_val s' = (if rec then cr_val (Helper_UpdateCR0 (gpr s' n) s) else cr_val s)"

lemma cr_recorded:
  "cr_val (record_CR0 inst n s) = (if Rc inst then cr_val (Helper_UpdateCR0 (gpr s n) s) else cr_val s)"
  "gpr (record_CR0 inst n s) = gpr s"
  "cr_val (Helper_UpdateCR0 v (SetCarry c s)) = cr_val (Helper_UpdateCR0 v s)"
  "cr_val (Helper_UpdateCR0 v (set_gpr k w s)) = cr_val (Helper_UpdateCR0 v s)"
  by (simp_all add: record_CR0_def Helper_UpdateCR0_def SetCarry_def set_gpr_def GetXER_SO_def Let_def)

lemma addic_rc_carries: "carries n k s (addic inst s) \<Longrightarrow> carries n k s (addic_rc inst s)"
  by (simp add: carries_def addic_rc_def Let_def only_register_intros)

text \<open>
  C18. The additions and subtractions that produce a carry compute, in their target register and the carry,
  the exact sum of their operands, of the carry where they take one in, and, in a subtraction, of the
  complement of the number subtracted: \<open>ADDIC\<close>, \<open>ADDIC.\<close>, \<open>ADDC\<close>, \<open>ADDE\<close>, \<open>ADDZE\<close>, \<open>SUBFC\<close>, \<open>SUBFE\<close>,
  \<open>SUBFZE\<close>, \<open>SUBFIC\<close>, and \<open>ADDME\<close> and \<open>SUBFME\<close> when the carry was clear. Field 0 of the condition register records the result where the
  instruction says so, \<open>ADDIC\<close> and \<open>SUBFIC\<close> never and \<open>ADDIC.\<close> always, and nothing else changes.
\<close>

theorem carry_family:
  assumes "xer_ok s"
  shows "let a = unat (gpr s (RA inst)); a' = unat (NOT (gpr s (RA inst))); b = unat (gpr s (RB inst));
      imm = unat (SIMM_16 inst); ca = unat (xer_ca s)
    in carries_cr False (RD inst) (a + imm) s (addic inst s) \<and>
    carries_cr True (RD inst) (a + imm) s (addic_rc inst s) \<and>
    carries_cr (Rc inst) (RD inst) (a + b) s (addcx inst s) \<and>
    carries_cr (Rc inst) (RD inst) (a + b + ca) s (addex inst s) \<and>
    carries_cr (Rc inst) (RD inst) (a + ca) s (addzex inst s) \<and>
    carries_cr (Rc inst) (RD inst) (a' + b + 1) s (subfcx inst s) \<and>
    carries_cr (Rc inst) (RD inst) (a' + b + ca) s (subfex inst s) \<and>
    carries_cr (Rc inst) (RD inst) (a' + ca) s (subfzex inst s) \<and>
    carries_cr False (RD inst) (a' + imm + 1) s (subfic inst s) \<and>
    (ca = 0 \<longrightarrow> carries_cr (Rc inst) (RD inst) (a + (2 ^ 32 - 1)) s (addmex inst s)) \<and>
    (ca = 0 \<longrightarrow> carries_cr (Rc inst) (RD inst) (a' + (2 ^ 32 - 1)) s (subfmex inst s))"
proof -
  note c = carry_parts [OF assms, of inst]
  have cr: "cr_val (addic inst s) = cr_val s" "cr_val (subfic inst s) = cr_val s"
    "cr_val (addic_rc inst s) = cr_val (Helper_UpdateCR0 (gpr (addic_rc inst s) (RD inst)) s)"
    by (simp_all add: addic_def subfic_def addic_rc_def Let_def cr_recorded)
  have rc: "cr_val (f inst s) = (if Rc inst then cr_val (Helper_UpdateCR0 (gpr (f inst s) (RD inst)) s) else cr_val s)"
    if "f \<in> {addcx, addex, addzex, subfcx, subfex, subfzex, addmex, subfmex}" for f
    using that by (auto simp: addcx_def addex_def addzex_def subfcx_def subfex_def subfzex_def addmex_def subfmex_def Let_def cr_recorded)
  show ?thesis unfolding Let_def carries_cr_def using c addic_rc_carries [OF c(1)] cr by (simp add: rc)
qed

theorem carry_family_witness:
  "unat (gpr (addex 0x7C642914 (SetCarry True (set_gpr 4 0xFFFFFFFF ppc_zero))) 3) +
     2 ^ 32 * unat (xer_ca (addex 0x7C642914 (SetCarry True (set_gpr 4 0xFFFFFFFF ppc_zero)))) = 2 ^ 32"
proof -
  let ?s = "SetCarry True (set_gpr 4 0xFFFFFFFF ppc_zero)" and ?i = "0x7C642914 :: u32"
  have f: "RA ?i = 4" "RB ?i = 5" "RD ?i = 3" by (simp_all add: ppc_defs bit_field_def take_bit_eq_mod drop_bit_eq_div)
  have "xer_ok ?s" by (simp add: xer_ok_def ppc_zero_def SetCarry_def set_gpr_def)
  from carry_family [OF this, of ?i] show ?thesis
    by (simp add: Let_def carries_cr_def carries_def f ppc_zero_def)
qed

text \<open>
  \<open>ADDME\<close> and \<open>SUBFME\<close> lose the carry: with the carry set their sum is never below \<open>2 ^ 32\<close>,
  and yet they always clear it.
\<close>

theorem minus_one_loses_carry:
  assumes "xer_ca s = 1"
  shows "xer_ca (addmex inst s) = 0 \<and> xer_ca (subfmex inst s) = 0 \<and>
    2 ^ 32 \<le> unat (gpr s (RA inst)) + (2 ^ 32 - 1) + unat (xer_ca s) \<and>
    2 ^ 32 \<le> unat (NOT (gpr s (RA inst))) + (2 ^ 32 - 1) + unat (xer_ca s)"
  using assms by (simp add: addmex_def subfmex_def Let_def GetCarry_def Helper_Carry_def)

theorem minus_one_loses_carry_witness:
  "xer_ca (addmex 0x7C6401D4 (SetCarry True ppc_zero)) = 0 \<and> xer_ca (SetCarry True ppc_zero) = 1"
  using minus_one_loses_carry [of "SetCarry True ppc_zero" "0x7C6401D4"] by simp

subsection \<open>Numbers of several words\<close>

text \<open>The number in the registers \<open>rs\<close>, the least significant word first, each word read through \<open>f\<close>.\<close>

fun limbs :: "(u32 \<Rightarrow> u32) \<Rightarrow> nat list \<Rightarrow> PowerPCState \<Rightarrow> nat" where
  "limbs f [] s = 0"
| "limbs f (r # rs) s = unat (f (gpr s r)) + 2 ^ 32 * limbs f rs s"

text \<open>No instruction overwrites a register a later one reads or writes.\<close>

fun chain_ok :: "UGeckoInstruction list \<Rightarrow> bool" where
  "chain_ok [] = True"
| "chain_ok (i # is) \<longleftrightarrow> RD i \<notin> set (map RA is) \<and> RD i \<notin> set (map RB is) \<and> RD i \<notin> set (map RD is) \<and> chain_ok is"

lemma limbs_only_register: "only_register n s s' \<Longrightarrow> n \<notin> set rs \<Longrightarrow> limbs f rs s' = limbs f rs s"
  by (induction rs) (auto simp: only_register_def)

lemma limbs_NOT: "limbs (NOT) rs s + limbs (\<lambda>x. x) rs s + 1 = 2 ^ (32 * length rs)"
proof (induction rs)
  case (Cons r rs)
  have "unat (NOT (gpr s r)) + unat (gpr s r) + 1 = 2 ^ 32" using unat_u32_less [of "gpr s r"] by (simp add: unat_NOT)
  moreover have "2 ^ 32 * limbs (NOT) rs s + 2 ^ 32 * limbs (\<lambda>x. x) rs s + 2 ^ 32 = 2 ^ 32 * 2 ^ (32 * length rs)"
    using arg_cong [OF Cons, of "(*) (2 ^ 32)"] by (simp add: distrib_left)
  ultimately show ?case by (simp add: power_add)
qed simp

lemma carries_xer_ok:
  assumes "carries n k s s'" and "xer_ok s" and "k < 2 ^ 33"
  shows "xer_ok s'"
proof -
  have "s'\<lparr>gpr := gpr s, xer_ca := xer_ca s, cr_val := cr_val s\<rparr> = s" using assms(1) by (simp add: carries_def only_register_def)
  from arg_cong [OF this, of xer_so_ov] arg_cong [OF this, of xer_stringctrl]
  have "xer_so_ov s' = xer_so_ov s" "xer_stringctrl s' = xer_stringctrl s" by simp_all
  moreover have "xer_ca s' \<le> 1" using assms(1,3) by (auto simp: carries_def word_le_nat_alt)
  ultimately show ?thesis using assms(2) by (simp add: xer_ok_def)
qed

text \<open>The sum in the registers \<open>rs\<close> and the carry.\<close>

abbreviation wide_sum :: "nat list \<Rightarrow> PowerPCState \<Rightarrow> nat" where
  "wide_sum rs s \<equiv> limbs (\<lambda>x. x) rs s + 2 ^ (32 * length rs) * unat (xer_ca s)"

lemma limbs_step:
  assumes "carries (RD i) (unat (f (gpr s (RA i))) + unat (gpr s (RB i)) + c) s s1" and "chain_ok (i # is)"
    and "wide_sum (map RD is) s' = limbs f (map RA is) s1 + limbs (\<lambda>x. x) (map RB is) s1 + unat (xer_ca s1)"
    and "\<forall>n. n \<notin> set (map RD is) \<longrightarrow> gpr s' n = gpr s1 n"
  shows "wide_sum (map RD (i # is)) s' = limbs f (map RA (i # is)) s + limbs (\<lambda>x. x) (map RB (i # is)) s + c \<and>
    (\<forall>n. n \<notin> set (map RD (i # is)) \<longrightarrow> gpr s' n = gpr s n)"
proof
  have r: "only_register (RD i) s s1"
    and k: "unat (gpr s1 (RD i)) + 2 ^ 32 * unat (xer_ca s1) = unat (f (gpr s (RA i))) + unat (gpr s (RB i)) + c"
    using assms(1) by (simp_all add: carries_def)
  have fr: "limbs g (map RA is) s1 = limbs g (map RA is) s" "limbs g (map RB is) s1 = limbs g (map RB is) s" for g
    using assms(2) by (simp_all add: limbs_only_register [OF r])
  have g: "gpr s' (RD i) = gpr s1 (RD i)" using assms(2,4) by simp
  from arg_cong [OF assms(3), of "(*) (2 ^ 32)"]
  have "2 ^ 32 * limbs (\<lambda>x. x) (map RD is) s' + 2 ^ (32 * Suc (length is)) * unat (xer_ca s') =
      2 ^ 32 * limbs f (map RA is) s + 2 ^ 32 * limbs (\<lambda>x. x) (map RB is) s + 2 ^ 32 * unat (xer_ca s1)"
    by (simp only: fr distrib_left mult_Suc_right power_add mult.assoc length_map)
  with k g show "wide_sum (map RD (i # is)) s' = limbs f (map RA (i # is)) s + limbs (\<lambda>x. x) (map RB (i # is)) s + c" by simp
  show "\<forall>n. n \<notin> set (map RD (i # is)) \<longrightarrow> gpr s' n = gpr s n" using assms(4) r by (simp add: only_register_def)
qed

lemma carry_sum_less: "c \<le> 1 \<Longrightarrow> unat a + unat b + c < 2 ^ 33" for a b :: u32
  using unat_u32_less [of a] unat_u32_less [of b] by simp

text \<open>
  The contract of an instruction for the words behind the first: it adds its second operand, its
  first operand read through \<open>f\<close>, and the carry.
\<close>

locale carry_step =
  fixes step :: "UGeckoInstruction \<Rightarrow> PowerPCState \<Rightarrow> PowerPCState" and f :: "u32 \<Rightarrow> u32"
  assumes step_carries: "xer_ok s \<Longrightarrow>
    carries (RD i) (unat (f (gpr s (RA i))) + unat (gpr s (RB i)) + unat (xer_ca s)) s (step i s)"
begin

lemma chain:
  assumes "xer_ok s" and "chain_ok is"
  shows "wide_sum (map RD is) (fold step is s) = limbs f (map RA is) s + limbs (\<lambda>x. x) (map RB is) s + unat (xer_ca s) \<and>
    (\<forall>n. n \<notin> set (map RD is) \<longrightarrow> gpr (fold step is s) n = gpr s n)"
  using assms
proof (induction "is" arbitrary: s)
  case (Cons i "is")
  note st = step_carries [OF Cons(2), of i]
  have "unat (xer_ca s) \<le> 1" using Cons(2) by (simp add: xer_ok_def word_le_nat_alt)
  then have "xer_ok (step i s)" by (rule carries_xer_ok [OF st Cons(2) carry_sum_less])
  from Cons(1) [OF this] Cons(3) have "wide_sum (map RD is) (fold step is (step i s)) =
      limbs f (map RA is) (step i s) + limbs (\<lambda>x. x) (map RB is) (step i s) + unat (xer_ca (step i s))"
    and "\<forall>n. n \<notin> set (map RD is) \<longrightarrow> gpr (fold step is (step i s)) n = gpr (step i s) n" by simp_all
  from limbs_step [where f = f, OF st Cons(3) this] show ?case unfolding fold_simps .
qed simp

lemma chain_from:
  assumes "carries (RD i) (unat (f (gpr s (RA i))) + unat (gpr s (RB i)) + c) s s1" and "c \<le> 1" and "xer_ok s"
    and "chain_ok (i # is)"
  shows "wide_sum (map RD (i # is)) (fold step is s1) = limbs f (map RA (i # is)) s + limbs (\<lambda>x. x) (map RB (i # is)) s + c"
proof -
  have "xer_ok s1" by (rule carries_xer_ok [OF assms(1,3) carry_sum_less [OF assms(2)]])
  with chain [of s1 "is"] assms(4) show ?thesis using limbs_step [where f = f, OF assms(1,4)] by simp
qed

end

interpretation adde: carry_step addex "\<lambda>x. x"
  by unfold_locales (rule carry_parts)

interpretation subfe: carry_step subfex "NOT"
  by unfold_locales (rule carry_parts)

lemma difference_and_carry:
  fixes D N c A B n :: nat
  assumes "D + N * c = n + B + 1" and "n + A + 1 = N" and "D < N" and "B < N" and "A < N"
  shows "D = (if A \<le> B then B - A else N + B - A) \<and> (c = 1 \<longleftrightarrow> A \<le> B)"
proof -
  have e: "D + N * c + A = N + B" using assms(1,2) by linarith
  have "c < 2"
  proof (rule ccontr)
    assume "\<not> c < 2"
    then have "N * 2 \<le> N * c" by (intro mult_le_mono2) simp
    with e assms(4) show False by linarith
  qed
  then consider "c = 0" | "c = 1" by linarith
  then show ?thesis using e assms(3-5) by cases auto
qed

text \<open>
  C8. Numbers of any number of words: \<open>ADDC\<close> on the lowest words followed by \<open>ADDE\<close> on the others
  computes the exact sum of two numbers, with the carry as its last digit; \<open>SUBFC\<close> followed by
  \<open>SUBFE\<close> computes their difference, and the carry tells whether it is negative.
\<close>

theorem multiword_arithmetic:
  assumes "xer_ok s" and "chain_ok (i # is)"
  shows "let A = limbs (\<lambda>x. x) (map RA (i # is)) s; B = limbs (\<lambda>x. x) (map RB (i # is)) s;
      sum = fold addex is (addcx i s); diff = fold subfex is (subfcx i s)
    in limbs (\<lambda>x. x) (map RD (i # is)) sum + 2 ^ (32 * length (i # is)) * unat (xer_ca sum) = A + B \<and>
      limbs (\<lambda>x. x) (map RD (i # is)) diff = (if A \<le> B then B - A else 2 ^ (32 * length (i # is)) + B - A) \<and>
      (xer_ca diff = 1 \<longleftrightarrow> A \<le> B)"
proof -
  let ?A = "limbs (\<lambda>x. x) (map RA (i # is)) s" and ?B = "limbs (\<lambda>x. x) (map RB (i # is)) s"
  let ?d = "fold subfex is (subfcx i s)" and ?N = "2 ^ (32 * length (i # is)) :: nat"
  let ?D = "limbs (\<lambda>x. x) (map RD (i # is)) ?d"
  have "carries (RD i) (unat (gpr s (RA i)) + unat (gpr s (RB i)) + 0) s (addcx i s)"
    using carry_parts(2) [OF assms(1)] by simp
  from adde.chain_from [OF this _ assms]
  have add: "wide_sum (map RD (i # is)) (fold addex is (addcx i s)) = ?A + ?B" by simp
  have sub: "?D + ?N * unat (xer_ca ?d) = limbs (NOT) (map RA (i # is)) s + ?B + 1"
    using subfe.chain_from [OF carry_parts(5) [OF assms(1)] _ assms] by (simp only: length_map)
  have n: "limbs (NOT) (map RA (i # is)) s + ?A + 1 = ?N" using limbs_NOT [of "map RA (i # is)" s] by (simp only: length_map)
  have bound: "limbs (\<lambda>x. x) (map g (i # is)) s' < ?N" for g s'
    using limbs_NOT [of "map g (i # is)" s'] by (simp only: length_map)
  have ca: "xer_ca ?d = 1 \<longleftrightarrow> unat (xer_ca ?d) = 1" by (metis unat_1 unsigned_word_eqI)
  have diff: "?D = (if ?A \<le> ?B then ?B - ?A else ?N + ?B - ?A) \<and> (xer_ca ?d = 1 \<longleftrightarrow> ?A \<le> ?B)"
    unfolding ca using sub n bound [of RD ?d] bound [of RB s] bound [of RA s] by (rule difference_and_carry)
  show ?thesis unfolding Let_def using add diff by (simp only: length_map)
qed


lemma example_fields:
  "RA 0x7C642814 = 4" "RB 0x7C642814 = 5" "RD 0x7C642814 = 3" "RA 0x7CC74114 = 7" "RB 0x7CC74114 = 8" "RD 0x7CC74114 = 6"
  by (simp_all add: ppc_defs bit_field_def take_bit_eq_mod drop_bit_eq_div)

theorem multiword_arithmetic_witness:
  "let s' = fold addex [0x7CC74114] (addcx 0x7C642814 (set_gpr 5 1 (set_gpr 4 0xFFFFFFFF ppc_zero)))
   in unat (gpr s' 3) + 2 ^ 32 * unat (gpr s' 6) + 2 ^ 64 * unat (xer_ca s') = 2 ^ 32"
proof -
  let ?s = "set_gpr 5 1 (set_gpr 4 0xFFFFFFFF ppc_zero)"
  have "xer_ok ?s" "chain_ok [0x7C642814, 0x7CC74114]"
    by (simp_all add: xer_ok_def ppc_zero_def set_gpr_def example_fields)
  from multiword_arithmetic [OF this] show ?thesis by (simp add: Let_def example_fields ppc_zero_def)
qed

subsection \<open>Condition codes\<close>

lemma GetXER_SO_le: "xer_ok s \<Longrightarrow> GetXER_SO s \<le> 1"
proof -
  assume "xer_ok s"
  then have "\<forall>n. bit (xer_so_ov s) n \<longrightarrow> n < 2" by (simp add: xer_ok_def u8_le_iff)
  then have "\<forall>n. bit (GetXER_SO s) n \<longrightarrow> n < 1" by (auto simp: GetXER_SO_def bit_simps)
  then have "unat (GetXER_SO s) < 2 ^ 1" by (simp only: unat_less_exp_iff)
  then show ?thesis by (simp add: word_le_nat_alt)
qed

lemma compare_flags_less: "compare_flags lt gt s < 16"
  by (simp add: compare_flags_def Let_def)

text \<open>The order of two numbers in the bits of a field: less, greater, equal, and a copy of the overflow summary.\<close>

definition order_field :: "bool \<Rightarrow> bool \<Rightarrow> bool \<Rightarrow> PowerPCState \<Rightarrow> u32 \<Rightarrow> bool" where
  "order_field lt gt eq s v \<longleftrightarrow> v < 16 \<and> (bit v 3 \<longleftrightarrow> lt) \<and> (bit v 2 \<longleftrightarrow> gt) \<and> (bit v 1 \<longleftrightarrow> eq) \<and> (bit v 0 \<longleftrightarrow> GetXER_SO s \<noteq> 0)"

lemma compare_flags_order:
  "\<not> (lt \<and> gt) \<Longrightarrow> eq = (\<not> lt \<and> \<not> gt) \<Longrightarrow> order_field lt gt eq s (compare_flags lt gt s)"
  by (auto simp: order_field_def compare_flags_def Let_def bit_simps)

lemma bit_cr_flags:
  "bit (cr_flags w) 0 \<longleftrightarrow> bit w 61" "bit (cr_flags w) 1 \<longleftrightarrow> take_bit 32 w = 0"
  "bit (cr_flags w) 2 \<longleftrightarrow> 0 < sint w" "bit (cr_flags w) 3 \<longleftrightarrow> bit w 62"
proof -
  have "w AND push_bit 61 1 = 0 \<longleftrightarrow> \<not> bit w 61" "w AND push_bit 62 1 = 0 \<longleftrightarrow> \<not> bit w 62"
    using and_exp_eq_0_iff [of w 61] and_exp_eq_0_iff [of w 62] by (simp_all add: push_bit_eq_mult)
  moreover have "w AND 0xFFFFFFFF = take_bit 32 w" by (simp add: take_bit_eq_mask mask_eq_exp_minus_1)
  ultimately have e: "cr_flags w = (if bit w 61 then 1 else 0) OR (if take_bit 32 w = 0 then 2 else 0) OR
      (if 0 < sint w then 4 else 0) OR (if bit w 62 then 8 else 0)"
    unfolding cr_flags_def by simp
  show "bit (cr_flags w) 0 \<longleftrightarrow> bit w 61" "bit (cr_flags w) 1 \<longleftrightarrow> take_bit 32 w = 0"
    "bit (cr_flags w) 2 \<longleftrightarrow> 0 < sint w" "bit (cr_flags w) 3 \<longleftrightarrow> bit w 62"
    unfolding e by (cases "bit w 61"; cases "take_bit 32 w = 0"; cases "0 < sint w"; cases "bit w 62"; simp)+
qed

lemma CR0_value:
  fixes v :: u32
  assumes "xer_ok s" and "w = (scast v AND NOT (push_bit 61 1)) OR push_bit 61 (ucast (GetXER_SO s))"
  shows "bit (w :: u64) 61 \<longleftrightarrow> GetXER_SO s \<noteq> 0" "take_bit 32 w = 0 \<longleftrightarrow> v = 0" "bit w 62 \<longleftrightarrow> v <s 0" "bit w 63 \<longleftrightarrow> v <s 0"
    "w = 0 \<longleftrightarrow> v = 0 \<and> GetXER_SO s = 0"
proof -
  have so: "GetXER_SO s = 0 \<or> GetXER_SO s = 1"
  proof -
    have "unat (GetXER_SO s) = 0 \<or> unat (GetXER_SO s) = 1" using GetXER_SO_le [OF assms(1)] by (auto simp: word_le_nat_alt)
    then show ?thesis by (metis unat_0 unat_1 unsigned_word_eqI)
  qed
  have b: "bit w n \<longleftrightarrow> n < 64 \<and> (if n = 61 then GetXER_SO s \<noteq> 0 else bit v (min n 31))" for n
    using so unfolding assms(2) bit_or_iff bit_and_iff bit_not_iff bit_push_bit_iff bit_1_iff bit_signed_iff bit_unsigned_iff
    by (auto simp: min_def bit_1_iff dest: bit_imp_le_length)
  have neg: "v <s 0 \<longleftrightarrow> bit v 31" using bit_last_iff [of v] by (simp add: word_sless_alt)
  show "bit w 61 \<longleftrightarrow> GetXER_SO s \<noteq> 0" "bit w 62 \<longleftrightarrow> v <s 0" "bit w 63 \<longleftrightarrow> v <s 0" by (simp_all add: b neg)
  have low: "bit w n \<longleftrightarrow> bit v n" if "n < 32" for n using that by (simp add: b min_def)
  show t: "take_bit 32 w = 0 \<longleftrightarrow> v = 0"
  proof
    assume "take_bit 32 w = 0"
    then have "\<not> bit (take_bit 32 w) n" for n by simp
    with low show "v = 0" by (intro bit_word_eqI) (auto simp: bit_take_bit_iff)
  next
    assume "v = 0"
    with low show "take_bit 32 w = 0" by (intro bit_word_eqI) (auto simp: bit_take_bit_iff)
  qed
  show "w = 0 \<longleftrightarrow> v = 0 \<and> GetXER_SO s = 0"
  proof
    assume "w = 0"
    with t b [of 61] show "v = 0 \<and> GetXER_SO s = 0" by simp
  next
    assume "v = 0 \<and> GetXER_SO s = 0"
    then show "w = 0" by (intro bit_word_eqI) (simp add: b)
  qed
qed

lemma sint_pos: "0 < sint w \<longleftrightarrow> \<not> sint w < 0 \<and> w \<noteq> 0" for w :: "'a::len word"
proof -
  have "sint w = 0 \<longleftrightarrow> w = 0" by (rule signed_eq_0_iff)
  then show ?thesis by linarith
qed

lemma sint_pos_iff: "0 < sint w \<longleftrightarrow> \<not> bit w 63 \<and> w \<noteq> 0" for w :: u64
  using bit_last_iff [of w] by (simp add: sint_pos)

lemma CR0_order:
  assumes "xer_ok s"
  shows "order_field (v <s 0) (0 <s v \<or> v = 0 \<and> GetXER_SO s \<noteq> 0) (v = 0) s (GetCRField 0 (Helper_UpdateCR0 v s))"
proof -
  define w :: u64 where "w = (scast v AND NOT (push_bit 61 1)) OR push_bit 61 (ucast (GetXER_SO s))"
  note v = CR0_value [OF assms w_def]
  have f: "GetCRField 0 (Helper_UpdateCR0 v s) = cr_flags w"
    by (simp only: GetCRField_def Helper_UpdateCR0_def Let_def w_def) simp
  have "\<not> v <s 0 \<longleftrightarrow> 0 <s v \<or> v = 0" using sint_pos [of v] by (auto simp: word_sless_alt)
  then show ?thesis unfolding order_field_def f bit_cr_flags sint_pos_iff v by auto
qed

text \<open>The field the four comparisons write.\<close>

lemma compare_parts:
  "order_field (gpr s (RA inst) <s SIMM_16 inst) (SIMM_16 inst <s gpr s (RA inst)) (gpr s (RA inst) = SIMM_16 inst) s
     (GetCRField (CRFD inst) (cmpi inst s))"
  "order_field (gpr s (RA inst) < UIMM inst) (UIMM inst < gpr s (RA inst)) (gpr s (RA inst) = UIMM inst) s
     (GetCRField (CRFD inst) (cmpli inst s))"
  "order_field (gpr s (RA inst) <s gpr s (RB inst)) (gpr s (RB inst) <s gpr s (RA inst)) (gpr s (RA inst) = gpr s (RB inst)) s
     (GetCRField (CRFD inst) (cmp inst s))"
  "order_field (gpr s (RA inst) < gpr s (RB inst)) (gpr s (RB inst) < gpr s (RA inst)) (gpr s (RA inst) = gpr s (RB inst)) s
     (GetCRField (CRFD inst) (cmpl inst s))"
  unfolding cmpi_def cmpli_def cmp_def cmpl_def Let_def GetCRField_SetCRField [OF compare_flags_less]
  by (auto intro!: compare_flags_order simp: word_sless_alt intro: signed_word_eqI)

text \<open>
  The instructions that record their result compare it with zero in field 0: the bits less,
  equal and overflow summary are right for every result; greater is right too, except that a zero result is
  recorded as equal and greater when the overflow summary is set.
\<close>

theorem record_compares_with_zero:
  assumes "xer_ok s"
  shows "let f = GetCRField 0 (Helper_UpdateCR0 v s) in
    (bit f 3 \<longleftrightarrow> v <s 0) \<and> (bit f 1 \<longleftrightarrow> v = 0) \<and> (bit f 0 \<longleftrightarrow> GetXER_SO s \<noteq> 0) \<and>
    (bit f 2 \<longleftrightarrow> 0 <s v \<or> v = 0 \<and> GetXER_SO s \<noteq> 0)"
  using CR0_order [OF assms, of v] by (simp add: order_field_def Let_def)

theorem record_compares_with_zero_witness:
  "GetCRField 0 (Helper_UpdateCR0 0 (SetXER_SO True ppc_zero)) = 7"
proof -
  have s: "xer_ok (SetXER_SO True ppc_zero)" "GetXER_SO (SetXER_SO True ppc_zero) = 1"
    by (simp_all add: xer_ok_def SetXER_SO_def ppc_zero_def GetXER_SO_def)
  have "(0 :: u32) <s 0 \<longleftrightarrow> False" by simp
  with record_compares_with_zero [OF s(1), of 0] s(2) show ?thesis
    using bit_less_16 [OF GetCRField_less, of 0 "Helper_UpdateCR0 0 (SetXER_SO True ppc_zero)"]
    by (intro bit_word_eqI) (auto simp: Let_def less_Suc_eq numeral_eq_Suc bit_simps)
qed

subsection \<open>Masks and rotation\<close>

lemma bit_Helper_Mask:
  assumes "mb < 32" and "me < 32" and "b < 32"
  shows "bit (Helper_Mask mb me) (31 - b) \<longleftrightarrow> (if mb \<le> me then mb \<le> b \<and> b \<le> me else mb \<le> b \<or> b \<le> me)"
proof -
  have m: "(0xFFFFFFFF :: u32) = mask 32" "(0x7FFFFFFF :: u32) = mask 31" by (simp_all add: mask_eq_exp_minus_1)
  have "bit (drop_bit mb (0xFFFFFFFF :: u32)) (31 - b) \<longleftrightarrow> mb \<le> b" "bit (drop_bit me (0x7FFFFFFF :: u32)) (31 - b) \<longleftrightarrow> me < b"
    unfolding m bit_drop_bit_eq comp_def bit_mask_iff using assms by auto
  then show ?thesis unfolding Helper_Mask_def Let_def using assms by (auto simp: bit_xor_iff bit_not_iff)
qed

lemma bit_rotl:
  assumes "b < 32"
  shows "bit (rotl x k) (31 - b) \<longleftrightarrow> bit x (31 - (b + k) mod 32)"
proof (cases "k mod 32 = 0")
  case True
  then have "(b + k) mod 32 = b" using assms mod_add_right_eq [of b k 32] by simp
  with True show ?thesis by (simp add: rotl_def)
next
  case False
  define s where "s = k mod 32"
  have s: "0 < s" "s < 32" using False by (simp_all add: s_def)
  have "(b + k) mod 32 = (b + s) mod 32" by (simp add: s_def mod_add_right_eq)
  also have "\<dots> = (if b + s < 32 then b + s else b + s - 32)" using assms s by (simp add: le_mod_geq)
  finally have m: "(b + k) mod 32 = (if b + s < 32 then b + s else b + s - 32)" .
  have r: "rotl x k = push_bit s x OR drop_bit (32 - s) x" using False by (simp add: rotl_def Let_def s_def)
  have "31 - (b + s) = 31 - b - s" "32 - s + (31 - b) = 63 - b - s" "31 - (b + s - 32) = 63 - b - s" if "32 \<le> b + s" using that assms s by auto
  then show ?thesis
    unfolding r m bit_or_iff bit_push_bit_iff bit_drop_bit_eq comp_def using assms s
    by (auto dest: bit_imp_le_length)
qed

lemma field_less: "unat (bit_field lo n inst) < 2 ^ n"
  by (simp only: unat_less_exp_iff bit_bit_field) simp

lemma MB_ME_less [simp]: "MB inst < 32" "ME inst < 32" "SH inst < 32"
  using field_less [of 6 5 inst] field_less [of 1 5 inst] field_less [of 11 5 inst] by (simp_all add: MB_def ME_def SH_def)

text \<open>The bits, counted from the left, a rotate instruction selects.\<close>

definition in_mask :: "UGeckoInstruction \<Rightarrow> nat \<Rightarrow> bool" where
  "in_mask inst b \<longleftrightarrow> (if MB inst \<le> ME inst then MB inst \<le> b \<and> b \<le> ME inst else MB inst \<le> b \<or> b \<le> ME inst)"

text \<open>
  C26. The rotate instructions, with bits counted from the left as in the instruction set: bit \<open>b\<close> of the result is
  bit \<open>b + n\<close> modulo 32 of the source, for the bits from \<open>MB\<close> to \<open>ME\<close>, around the end of the word if \<open>ME\<close> is less;
  the other bits are zero, or, for \<open>RLWIMI\<close>, those of the target.
\<close>

theorem rotate_and_mask:
  assumes "b < 32"
  shows "let old = gpr s (RA inst); src = gpr s (RS inst) in
    (bit (gpr (rlwinmx inst s) (RA inst)) (31 - b) \<longleftrightarrow> in_mask inst b \<and> bit src (31 - (b + SH inst) mod 32)) \<and>
    (bit (gpr (rlwnmx inst s) (RA inst)) (31 - b) \<longleftrightarrow>
       in_mask inst b \<and> bit src (31 - (b + unat (gpr s (RB inst))) mod 32)) \<and>
    (bit (gpr (rlwimix inst s) (RA inst)) (31 - b) \<longleftrightarrow>
       (if in_mask inst b then bit src (31 - (b + SH inst) mod 32) else bit old (31 - b)))"
proof -
  have m: "bit (Helper_Mask (MB inst) (ME inst)) (31 - b) \<longleftrightarrow> in_mask inst b"
    unfolding in_mask_def by (rule bit_Helper_Mask) (simp_all add: assms)
  have u: "(b + unat (x AND 0x1F)) mod 32 = (b + unat x) mod 32" for x :: u32
    by (simp only: and_eq_take_bit unat_take_bit) (simp add: mod_add_right_eq)
  show ?thesis
    unfolding Let_def rlwinmx_def rlwnmx_def rlwimix_def ppc_frame fun_upd_same
      bit_or_iff bit_and_iff bit_not_iff m bit_rotl [OF assms] u
    using assms by (auto simp: possible_bit_word)
qed

theorem rotate_and_mask_witness:
  "bit (gpr (rlwinmx 0x5483402E (set_gpr 4 0x00800000 ppc_zero)) 3) 31"
proof -
  have f: "RA 0x5483402E = 3" "RS 0x5483402E = 4" "SH 0x5483402E = 8" "MB 0x5483402E = 0" "ME 0x5483402E = 23"
    by (simp_all add: ppc_defs bit_field_def take_bit_eq_mod drop_bit_eq_div)
  show ?thesis
    using rotate_and_mask [of 0 "set_gpr 4 0x00800000 ppc_zero" "0x5483402E"]
    by (simp add: Let_def f in_mask_def)
qed

subsection \<open>Shifts\<close>

lemma shift_amount: "unat (x :: u32) mod 64 = (if x AND 0x20 \<noteq> 0 then 32 else 0) + unat (x AND 0x1F)"
proof -
  have b: "x AND 0x20 \<noteq> 0 \<longleftrightarrow> odd (unat x div 32)"
  proof -
    have "x AND 0x20 \<noteq> 0 \<longleftrightarrow> bit x 5" using and_exp_eq_0_iff [of x 5] by simp
    also have "\<dots> \<longleftrightarrow> bit (unat x) 5" by (simp add: bit_unsigned_iff)
    also have "\<dots> \<longleftrightarrow> odd (unat x div 32)" by (simp add: bit_iff_odd)
    finally show ?thesis .
  qed
  have "unat x mod 64 = 32 * (unat x div 32 mod 2) + unat x mod 32" using mod_mult2_eq [of "unat x" 32 2] by simp
  moreover have "unat (x AND 0x1F) = unat x mod 32" by (simp only: and_eq_take_bit unat_take_bit) simp
  ultimately show ?thesis unfolding b by (simp add: odd_iff_mod_2_eq_one)
qed

lemma sint_u32_bounds: "- (2 ^ 31) \<le> sint (x :: u32)" "sint (x :: u32) < 2 ^ 31"
  using sint_ge [of x] sint_lt [of x] by simp_all

lemma algebraic_carry:
  fixes x :: u32
  assumes "n < 32"
  shows "0 < n \<and> push_bit (32 - n) x \<noteq> 0 \<longleftrightarrow> \<not> 2 ^ n dvd sint x"
proof -
  have "push_bit (32 - n) x = 0 \<longleftrightarrow> take_bit n x = 0" if "0 < n"
  proof -
    have "bit (push_bit (32 - n) x) (32 - n + k) \<longleftrightarrow> bit (take_bit n x) k" for k
      using that assms by (auto simp: bit_push_bit_iff bit_take_bit_iff dest: bit_imp_le_length)
    moreover have "\<not> bit (push_bit (32 - n) x) k" if "k < 32 - n" for k using that by (simp add: bit_push_bit_iff)
    ultimately show ?thesis by (metis bit_0_eq bit_eq_iff bot_apply bot_bool_def le_add_diff_inverse not_le)
  qed
  moreover have "take_bit n x = 0 \<longleftrightarrow> 2 ^ n dvd sint x"
  proof -
    have "bit (take_bit n x) k \<longleftrightarrow> bit (take_bit n (sint x)) k" for k
      using assms by (auto simp: bit_take_bit_iff bit_sint_iff)
    then have "(\<forall>k. \<not> bit (take_bit n x) k) \<longleftrightarrow> (\<forall>k. \<not> bit (take_bit n (sint x)) k)" by blast
    moreover have "take_bit n x = 0 \<longleftrightarrow> (\<forall>k. \<not> bit (take_bit n x) k)" by (metis bit_0_eq bot_apply bot_bool_def bit_word_eqI)
    moreover have "take_bit n (sint x) = 0 \<longleftrightarrow> (\<forall>k. \<not> bit (take_bit n (sint x)) k)" by (metis bit_0_eq bot_apply bot_bool_def bit_eqI)
    ultimately have "take_bit n x = 0 \<longleftrightarrow> take_bit n (sint x) = 0" by simp
    then show ?thesis by (simp add: take_bit_eq_0_iff)
  qed
  ultimately show ?thesis by (cases "n = 0") auto
qed

lemma sdiv_pos: "0 < k \<Longrightarrow> a sdiv k = a div k + (if a < 0 \<and> \<not> k dvd a then 1 else 0)" for a k :: int
  by (auto simp: signed_divide_int_eq_divide_int sgn_if)

lemma sint_add_carry:
  fixes q :: int and v :: u32
  assumes "sint v = q" and "c \<longrightarrow> q < 0"
  shows "sint (v + (if c then 1 else 0)) = q + (if c then 1 else 0)"
proof -
  have "v + (if c then 1 else 0) = word_of_int (q + (if c then 1 else 0))" using assms(1) by auto
  moreover have "signed_take_bit 31 (q + (if c then 1 else 0)) = q + (if c then 1 else 0)"
    using assms sint_u32_bounds [of v] by (intro signed_take_bit_int_eq_self) auto
  ultimately show ?thesis using sint_sbintrunc' [of "q + (if c then 1 else 0)", where 'a = 32] by (simp only:) simp
qed

text \<open>An arithmetic shift to the right: the quotient rounded down, and whether a negative number was rounded.\<close>

definition shifts_right :: "nat \<Rightarrow> nat \<Rightarrow> u32 \<Rightarrow> PowerPCState \<Rightarrow> PowerPCState \<Rightarrow> bool" where
  "shifts_right n k x s s' \<longleftrightarrow> sint (gpr s' n) = sint x div 2 ^ k \<and>
     xer_ca s' = (if sint x < 0 \<and> \<not> 2 ^ k dvd sint x then 1 else 0) \<and> only_register n s s'"

lemma shift_right_algebraic_shifts:
  "k < 32 \<Longrightarrow> shifts_right (RA inst) k (gpr s (RS inst)) s (shift_right_algebraic inst k s)"
  using algebraic_carry [of k "gpr s (RS inst)"]
  by (auto simp: shifts_right_def shift_right_algebraic_def Let_def only_register_intros sint_signed_drop_bit_eq
      drop_bit_eq_div word_sless_alt)

lemma far_shift:
  fixes x :: u32
  assumes "32 \<le> k"
  shows "sint x div 2 ^ k = (if sint x < 0 then - 1 else 0)" and "sint x < 0 \<Longrightarrow> \<not> 2 ^ k dvd sint x"
proof -
  have k: "(2 :: int) ^ 32 \<le> 2 ^ k" using assms by (intro power_increasing) auto
  show "sint x div 2 ^ k = (if sint x < 0 then - 1 else 0)"
    using k sint_u32_bounds [of x] int_div_pos_eq [of "sint x" "2 ^ k" "- 1" "sint x + 2 ^ k"] by auto
  show "sint x < 0 \<Longrightarrow> \<not> 2 ^ k dvd sint x"
    using k sint_u32_bounds [of x] zdvd_not_zless [of "- sint x" "2 ^ k"] by auto
qed

lemma srawx_shifts: "shifts_right (RA inst) (unat (gpr s (RB inst)) mod 64) (gpr s (RS inst)) s (srawx inst s)"
proof -
  let ?b = "gpr s (RB inst)" and ?x = "gpr s (RS inst)"
  have fr: "shifts_right n k x s (record_CR0 inst m s')" if "shifts_right n k x s s'" for n k x s' m
    using that by (auto simp: shifts_right_def only_register_intros)
  show ?thesis
  proof (cases "?b AND 0x20 = 0")
    case True
    have "unat (?b AND 0x1F) < 32" by (simp only: and_eq_take_bit unat_take_bit) simp
    with True shift_amount [of ?b] show ?thesis
      by (auto simp: srawx_def Let_def intro!: fr shift_right_algebraic_shifts)
  next
    case False
    then have k: "32 \<le> unat ?b mod 64" using shift_amount [of ?b] by simp
    have n: "?x AND 0x80000000 \<noteq> 0 \<longleftrightarrow> sint ?x < 0"
      using and_exp_eq_0_iff [of ?x 31] bit_last_iff [of ?x] by simp
    show ?thesis using False n far_shift [OF k, of ?x]
      by (auto simp: srawx_def Let_def shifts_right_def only_register_intros intro!: fr)
  qed
qed

lemma srawix_shifts: "shifts_right (RA inst) (SH inst) (gpr s (RS inst)) s (srawix inst s)"
  using shift_right_algebraic_shifts [of "SH inst" inst s]
  by (auto simp: srawix_def shifts_right_def only_register_intros)

lemma far_logical_shift:
  fixes x :: u32
  assumes "32 \<le> n"
  shows "unat x * 2 ^ n mod 2 ^ 32 = 0 \<and> unat x div 2 ^ n = 0"
proof -
  have "(2 :: nat) ^ 32 dvd 2 ^ n" using assms by (rule le_imp_power_dvd)
  moreover from this have "(2 :: nat) ^ 32 \<le> 2 ^ n" by (rule dvd_imp_le) simp
  ultimately show ?thesis using unat_u32_less [of x] by (auto simp: dvd_eq_mod_eq_0 [symmetric] dvd_mult)
qed

lemma unat_push_bit: "unat (push_bit n x) = unat x * 2 ^ n mod 2 ^ 32" for x :: u32
  by (simp only: unsigned_push_bit_eq) (simp add: take_bit_eq_mod push_bit_eq_mult)

lemma unat_drop_bit: "unat (drop_bit n x) = unat x div 2 ^ n" for x :: u32
  by (simp only: unat_drop_bit_eq) (simp only: drop_bit_eq_div)

text \<open>Adding the carry of a shift.\<close>

lemma addze_rounds:
  assumes "shifts_right n k y s s'" and "RA add = n"
  shows "sint (gpr (addzex add s') (RD add)) = sint y sdiv 2 ^ k"
proof -
  let ?c = "sint y < 0 \<and> \<not> 2 ^ k dvd sint y"
  have s: "sint (gpr s' n) = sint y div 2 ^ k" and c: "GetCarry s' = (if ?c then 1 else 0)"
    using assms(1) by (simp_all add: shifts_right_def GetCarry_def)
  have "?c \<longrightarrow> sint y div 2 ^ k < 0" by (simp add: pos_imp_zdiv_neg_iff)
  from sint_add_carry [OF s this] show ?thesis
    by (simp only: addzex_def Let_def c assms(2) ppc_frame fun_upd_same) (simp add: sdiv_pos)
qed

text \<open>
  C27. Shifts by a register or an immediate amount: \<open>SLW\<close> and \<open>SRW\<close> multiply and divide an unsigned word by \<open>2 ^ n\<close>
  for every amount \<open>n\<close> up to 63; \<open>SRAW\<close> and \<open>SRAWI\<close> divide a signed word, rounding down, and set the
  carry if a negative number was rounded. \<open>ADDZE\<close> after such a shift adds the carry and so
  gives the quotient rounded towards zero.
\<close>

theorem ppc_shift_family:
  assumes "xer_ok s" and "RA add = RA inst"
  shows "let x = gpr s (RS inst); n = unat (gpr s (RB inst)) mod 64 in
    unat (gpr (slwx inst s) (RA inst)) = unat x * 2 ^ n mod 2 ^ 32 \<and>
    unat (gpr (srwx inst s) (RA inst)) = unat x div 2 ^ n \<and>
    sint (gpr (srawx inst s) (RA inst)) = sint x div 2 ^ n \<and>
    sint (gpr (srawix inst s) (RA inst)) = sint x div 2 ^ SH inst \<and>
    sint (gpr (addzex add (srawx inst s)) (RD add)) = sint x sdiv 2 ^ n \<and>
    sint (gpr (addzex add (srawix inst s)) (RD add)) = sint x sdiv 2 ^ SH inst"
proof -
  let ?x = "gpr s (RS inst)" and ?n = "unat (gpr s (RB inst)) mod 64"
  have far: "32 \<le> ?n \<Longrightarrow> unat ?x * 2 ^ ?n mod 2 ^ 32 = 0 \<and> unat ?x div 2 ^ ?n = 0" by (rule far_logical_shift)
  note n = shift_amount [of "gpr s (RB inst)"]
  have "unat (gpr (slwx inst s) (RA inst)) = unat ?x * 2 ^ ?n mod 2 ^ 32"
    using far n by (auto simp: slwx_def Let_def unat_push_bit)
  moreover have "unat (gpr (srwx inst s) (RA inst)) = unat ?x div 2 ^ ?n"
    using far n by (auto simp: srwx_def Let_def unat_drop_bit)
  moreover note srawx_shifts [of inst s] srawix_shifts [of inst s]
  moreover have "sint (gpr (addzex add s') (RD add)) = sint y sdiv 2 ^ k" if "shifts_right (RA inst) k y s s'" for k y s'
    using that assms(2) by (rule addze_rounds)
  ultimately show ?thesis unfolding Let_def by (simp add: shifts_right_def)
qed


theorem ppc_shift_family_witness:
  "sint (gpr (addzex 0x7C630194 (srawix 0x7C831670 (set_gpr 4 0xFFFFFFF9 ppc_zero))) 3) = - 1"
proof -
  have f: "RA 0x7C831670 = 3" "RS 0x7C831670 = 4" "SH 0x7C831670 = 2" "RA 0x7C630194 = 3" "RD 0x7C630194 = 3"
    by (simp_all add: ppc_defs bit_field_def take_bit_eq_mod drop_bit_eq_div)
  have "xer_ok (set_gpr 4 0xFFFFFFF9 ppc_zero)" by (simp add: xer_ok_def set_gpr_def ppc_zero_def)
  from ppc_shift_family [OF this, of "0x7C630194" "0x7C831670"] f show ?thesis
    by (simp add: Let_def)
qed

subsection \<open>Products and quotients\<close>

lemma sint_of_int: "- (2 ^ 31) \<le> k \<Longrightarrow> k < 2 ^ 31 \<Longrightarrow> sint (word_of_int k :: u32) = k"
  using sint_sbintrunc' [of k, where 'a = 32] signed_take_bit_int_eq_self [of 31 k] by simp

lemma high_word:
  fixes p :: u64
  shows "sint (ucast (drop_bit 32 p) :: u32) = sint p div 2 ^ 32" "uint (ucast (drop_bit 32 p) :: u32) = uint p div 2 ^ 32"
proof -
  have "sint (ucast (drop_bit 32 p) :: u32) = drop_bit 32 (sint p)"
    by (rule bit_eqI) (auto simp: bit_simps bit_sint_iff min_def)
  then show "sint (ucast (drop_bit 32 p) :: u32) = sint p div 2 ^ 32" by (simp only: drop_bit_eq_div)
  have "uint (ucast (drop_bit 32 p) :: u32) = drop_bit 32 (uint p)"
    by (rule bit_eqI) (auto simp: bit_simps dest: bit_imp_le_length)
  then show "uint (ucast (drop_bit 32 p) :: u32) = uint p div 2 ^ 32" by (simp only: drop_bit_eq_div)
qed

lemma wide_product:
  fixes a b :: u32
  shows "sint (scast a * scast b :: u64) = sint a * sint b" "uint (ucast a * ucast b :: u64) = uint a * uint b"
proof -
  have "\<bar>sint a * sint b\<bar> \<le> 2 ^ 31 * 2 ^ 31"
    unfolding abs_mult using sint_u32_bounds [of a] sint_u32_bounds [of b] by (intro mult_mono) auto
  then have "signed_take_bit 63 (sint a * sint b) = sint a * sint b" by (intro signed_take_bit_int_eq_self) auto
  moreover have "(scast a * scast b :: u64) = word_of_int (sint a * sint b)" by (simp only: scast_eq of_int_mult)
  ultimately show "sint (scast a * scast b :: u64) = sint a * sint b"
    using sint_sbintrunc' [of "sint a * sint b", where 'a = 64] by (simp only:) simp
  have l: "uint x < 2 ^ 32" for x :: u32 using unsigned_less [of x] by simp
  then have "uint a * uint b < 2 ^ 32 * 2 ^ 32" by (intro mult_strict_mono') simp_all
  moreover have "uint (ucast x :: u64) = uint x" for x :: u32
    using l [of x] by (simp add: unsigned_ucast_eq take_bit_int_eq_self)
  ultimately show "uint (ucast a * ucast b :: u64) = uint a * uint b" by (simp add: uint_word_ariths)
qed

lemma low_product: "uint (a * b) = sint a * sint b mod 2 ^ 32" "uint (a * b) = uint a * uint b mod 2 ^ 32" for a b :: u32
proof -
  show u: "uint (a * b) = uint a * uint b mod 2 ^ 32" by (simp add: uint_word_ariths)
  have m: "sint x mod 2 ^ 32 = uint x mod 2 ^ 32" for x :: u32
  proof -
    have "take_bit 32 (sint x) = take_bit 32 (uint x)" by (simp add: sint_uint take_bit_signed_take_bit)
    then show ?thesis by (simp only: take_bit_eq_mod)
  qed
  show "uint (a * b) = sint a * sint b mod 2 ^ 32" unfolding u by (metis m mod_mult_eq)
qed

text \<open>
  \<open>MULHW\<close> and \<open>MULHWU\<close> with \<open>MULLW\<close> give the two halves of the exact signed and unsigned product. \<open>MULLI\<close> gives the
  product with a signed immediate operand modulo \<open>2 ^ 32\<close>.
\<close>

theorem product_halves:
  "let a = gpr s (RA inst); b = gpr s (RB inst); n = RD inst in
     2 ^ 32 * sint (gpr (mulhwx inst s) n) + uint (gpr (mullwx inst s) n) = sint a * sint b \<and>
     2 ^ 32 * uint (gpr (mulhwux inst s) n) + uint (gpr (mullwx inst s) n) = uint a * uint b \<and>
     uint (gpr (mulli inst s) n) = sint a * sint (SIMM_16 inst) mod 2 ^ 32"
proof -
  let ?a = "gpr s (RA inst)" and ?b = "gpr s (RB inst)"
  have "sint (gpr (mulhwx inst s) (RD inst)) = sint ?a * sint ?b div 2 ^ 32"
    by (simp only: mulhwx_def Let_def ppc_frame fun_upd_same high_word wide_product)
  moreover have "uint (gpr (mulhwux inst s) (RD inst)) = uint ?a * uint ?b div 2 ^ 32"
    by (simp only: mulhwux_def Let_def ppc_frame fun_upd_same high_word wide_product)
  moreover have "gpr (mullwx inst s) (RD inst) = ?a * ?b" "gpr (mulli inst s) (RD inst) = ?a * SIMM_16 inst"
    by (simp_all add: mullwx_def mulli_def Let_def)
  ultimately show ?thesis unfolding Let_def using low_product by (metis mult_div_mod_eq)
qed

lemma sdiv_u32_range:
  fixes a b :: u32
  assumes "b \<noteq> 0" and "\<not> (a = 0x80000000 \<and> b = - 1)"
  shows "- (2 ^ 31) \<le> sint a sdiv sint b" "sint a sdiv sint b < 2 ^ 31"
proof -
  have b0: "sint b \<noteq> 0" using assms(1) by (simp add: signed_eq_0_iff)
  have r: "\<bar>sint a sdiv sint b\<bar> \<le> \<bar>sint a\<bar>" using sdiv_int_range [of "sint a" "sint b"] by auto
  then show "- (2 ^ 31) \<le> sint a sdiv sint b" using sint_u32_bounds [of a] by linarith
  show "sint a sdiv sint b < 2 ^ 31"
  proof (rule ccontr)
    assume "\<not> sint a sdiv sint b < 2 ^ 31"
    with r sint_u32_bounds [of a] have q: "sint a = - (2 ^ 31)" "sint a sdiv sint b = 2 ^ 31" by linarith+
    have "\<bar>sint b\<bar> = 1"
    proof (rule ccontr)
      assume "\<bar>sint b\<bar> \<noteq> 1"
      with b0 have "2 \<le> \<bar>sint b\<bar>" by linarith
      then have "2 ^ 31 div \<bar>sint b\<bar> \<le> 2 ^ 31 div 2" by (intro zdiv_mono2) auto
      moreover have "0 \<le> 2 ^ 31 div \<bar>sint b\<bar>" using b0 by (simp add: pos_imp_zdiv_nonneg_iff)
      ultimately show False using q by (auto simp: signed_divide_int_def sgn_if split: if_splits)
    qed
    with q have "sint b = - 1" by (auto simp: signed_divide_int_def sgn_if split: if_splits)
    then have "b = - 1" by (metis signed_word_eqI sint_n1)
    moreover have "a = 0x80000000"
    proof -
      have "sint (0x80000000 :: u32) = - (2 ^ 31)" by simp
      with q(1) show ?thesis by (metis signed_word_eqI)
    qed
    ultimately show False using assms(2) by simp
  qed
qed

text \<open>
  \<open>DIVW\<close> and \<open>DIVWU\<close> give the signed quotient, rounded towards zero, and the unsigned one wherever it
  exists and fits; for a division by zero and for the quotient that does not fit, \<open>DIVW\<close> gives all ones if a negative
  number is divided by zero and zero otherwise, and \<open>DIVWU\<close> gives zero.
\<close>

theorem quotients:
  "let a = gpr s (RA inst); b = gpr s (RB inst); n = RD inst in
     (if b = 0 then gpr (divwx inst s) n = (if a <s 0 then 0xFFFFFFFF else 0)
      else if a = 0x80000000 \<and> b = - 1 then gpr (divwx inst s) n = 0
      else sint (gpr (divwx inst s) n) = sint a sdiv sint b) \<and>
     unat (gpr (divwux inst s) n) = unat a div unat b"
proof -
  let ?a = "gpr s (RA inst)" and ?b = "gpr s (RB inst)"
  have neg: "?a AND 0x80000000 \<noteq> 0 \<longleftrightarrow> ?a <s 0"
    using and_exp_eq_0_iff [of ?a 31] bit_last_iff [of ?a] by (simp add: word_sless_alt)
  have "sint (word_of_int (sint ?a sdiv sint ?b) :: u32) = sint ?a sdiv sint ?b" if "?b \<noteq> 0" "\<not> (?a = 0x80000000 \<and> ?b = - 1)"
    using sdiv_u32_range [OF that] by (rule sint_of_int)
  then show ?thesis unfolding Let_def
    by (auto simp: divwx_def divwux_def Let_def neg unat_div)
qed

subsection \<open>Leading zeros\<close>

lemma cntlz_loop_result:
  assumes "i \<le> 32" and "m = drop_bit i 0x80000000" and "\<forall>b < i. \<not> bit x (31 - b)"
  shows "let n = cntlz_loop x m i in n \<le> 32 \<and> (\<forall>b < n. \<not> bit x (31 - b)) \<and> (n < 32 \<longrightarrow> bit x (31 - n))"
  using assms
proof (induction x m i rule: cntlz_loop.induct)
  case (1 x m i)
  have m: "x AND m = 0 \<longleftrightarrow> \<not> bit x (31 - i)" if "i < 32"
  proof -
    have "m = 2 ^ (31 - i)"
    proof -
      have "(0x80000000 :: u32) = push_bit 31 1" by simp
      then have "m = drop_bit i (push_bit 31 1)" using 1(3) by simp
      also have "\<dots> = push_bit (31 - i) 1"
      proof (rule bit_word_eqI)
        fix k assume "k < LENGTH(32)"
        then show "bit (drop_bit i (push_bit 31 1) :: u32) k = bit (push_bit (31 - i) 1 :: u32) k"
          unfolding bit_drop_bit_eq comp_def bit_push_bit_iff bit_1_iff using that by auto
      qed
      finally show ?thesis by (simp only: push_bit_of_1)
    qed
    then show ?thesis by (simp add: and_exp_eq_0_iff)
  qed
  show ?case
  proof (cases "i < 32 \<and> x AND m = 0")
    case True
    then have "cntlz_loop x m i = cntlz_loop x (drop_bit 1 m) (i + 1)" by (subst cntlz_loop.simps) simp
    moreover have "\<forall>b < i + 1. \<not> bit x (31 - b)" using 1(4) m True by (auto simp: less_Suc_eq)
    ultimately show ?thesis using 1(1) [OF True] True 1(3) by simp
  next
    case False
    then have "cntlz_loop x m i = i" by (subst cntlz_loop.simps) auto
    with False 1(2,4) m show ?thesis by (auto simp: Let_def)
  qed
qed

text \<open>
  \<open>CNTLZW\<close> ends and counts the zero bits in front of the first one.
\<close>

theorem cntlzwx_counts:
  "let x = gpr s (RS inst); n = unat (gpr (cntlzwx inst s) (RA inst)) in
     n \<le> 32 \<and> (\<forall>b < n. \<not> bit x (31 - b)) \<and> (if n = 32 then x = 0 else bit x (31 - n))"
proof -
  let ?x = "gpr s (RS inst)" and ?n = "cntlz_loop (gpr s (RS inst)) 0x80000000 0"
  have r: "?n \<le> 32" "\<forall>b < ?n. \<not> bit ?x (31 - b)" "?n < 32 \<longrightarrow> bit ?x (31 - ?n)"
    using cntlz_loop_result [of 0 "0x80000000" ?x] by (simp_all add: Let_def)
  have "unat (gpr (cntlzwx inst s) (RA inst)) = ?n"
    using r(1) by (simp add: cntlzwx_def unsigned_of_nat take_bit_nat_eq_self)
  moreover have "?x = 0" if "?n = 32"
  proof (rule bit_word_eqI)
    fix k assume "k < LENGTH(32)"
    with r(2) that have "\<not> bit ?x (31 - (31 - k))" by (intro mp [OF spec [OF r(2)]]) simp
    with \<open>k < LENGTH(32)\<close> show "bit ?x k = bit 0 k" by simp
  qed
  ultimately show ?thesis using r by (auto simp: Let_def)
qed

subsection \<open>What every integer instruction keeps\<close>

text \<open>The instructions by their target: the register \<open>RD\<close>, the register \<open>RA\<close>, a field of the condition register.\<close>

definition rd_instructions :: "(UGeckoInstruction \<Rightarrow> PowerPCState \<Rightarrow> PowerPCState) list" where
  "rd_instructions = [addi, addic, addic_rc, addis, mulli, subfic, addx, addcx, addex, addmex, addzex, divwx, divwux,
     mulhwx, mulhwux, mullwx, negx, subfx, subfcx, subfex, subfmex, subfzex]"

definition ra_instructions :: "(UGeckoInstruction \<Rightarrow> PowerPCState \<Rightarrow> PowerPCState) list" where
  "ra_instructions = [andi_rc, andis_rc, ori, oris, xori, xoris, rlwimix, rlwinmx, rlwnmx, andx, andcx, cntlzwx, eqvx,
     extsbx, extshx, nandx, norx, orx, orcx, slwx, srawx, srawix, srwx, xorx]"

definition compare_instructions :: "(UGeckoInstruction \<Rightarrow> PowerPCState \<Rightarrow> PowerPCState) list" where
  "compare_instructions = [cmp, cmpl, cmpi, cmpli]"

lemma xer_ok_steps:
  "xer_ok s \<Longrightarrow> xer_ok (set_gpr n v s)" "xer_ok s \<Longrightarrow> xer_ok (SetCarry c s)" "xer_ok s \<Longrightarrow> xer_ok (Helper_UpdateCR0 v s)"
  "xer_ok s \<Longrightarrow> xer_ok (record_CR0 inst k s)" "xer_ok s \<Longrightarrow> xer_ok (SetCRField f w s)"
  by (simp_all add: xer_ok_def set_gpr_def SetCarry_def Helper_UpdateCR0_def record_CR0_def SetCRField_def Let_def)

lemma rd_keeps:
  assumes "f \<in> set rd_instructions" and "xer_ok s"
  shows "only_register (RD inst) s (f inst s) \<and> xer_ok (f inst s)"
  using assms unfolding rd_instructions_def
  by (auto simp: addi_def addic_def addic_rc_def addis_def mulli_def subfic_def addx_def addcx_def addex_def addmex_def
      addzex_def divwx_def divwux_def mulhwx_def mulhwux_def mullwx_def negx_def subfx_def subfcx_def subfex_def subfmex_def
      subfzex_def Let_def only_register_intros xer_ok_steps)

lemma shift_right_algebraic_keeps:
  "only_register (RA inst) s (shift_right_algebraic inst k s)" "xer_ok s \<Longrightarrow> xer_ok (shift_right_algebraic inst k s)"
  by (simp_all add: shift_right_algebraic_def Let_def only_register_intros xer_ok_steps)

lemma ra_keeps:
  assumes "f \<in> set ra_instructions" and "xer_ok s"
  shows "only_register (RA inst) s (f inst s) \<and> xer_ok (f inst s)"
  using assms unfolding ra_instructions_def
  by (auto simp: andi_rc_def andis_rc_def ori_def oris_def xori_def xoris_def rlwimix_def rlwinmx_def rlwnmx_def andx_def
      andcx_def cntlzwx_def eqvx_def extsbx_def extshx_def nandx_def norx_def orx_def orcx_def slwx_def srawx_def srawix_def
      srwx_def xorx_def Let_def only_register_intros xer_ok_steps shift_right_algebraic_keeps)

definition trap_instructions :: "(UGeckoInstruction \<Rightarrow> PowerPCState \<Rightarrow> PowerPCState) list" where
  "trap_instructions = [tw, twi]"

text \<open>The instructions that do not touch the carry, those that never touch the condition register, and those that do when their bit says so.\<close>

definition carry_free :: "(UGeckoInstruction \<Rightarrow> PowerPCState \<Rightarrow> PowerPCState) list" where
  "carry_free = [addi, addis, mulli, addx, divwx, divwux, mulhwx, mulhwux, mullwx, negx, subfx, andi_rc, andis_rc, ori, oris, xori,
     xoris, rlwimix, rlwinmx, rlwnmx, andx, andcx, cntlzwx, eqvx, extsbx, extshx, nandx, norx, orx, orcx, slwx, srwx, xorx,
     cmp, cmpl, cmpi, cmpli, tw, twi]"

definition cr_free :: "(UGeckoInstruction \<Rightarrow> PowerPCState \<Rightarrow> PowerPCState) list" where
  "cr_free = [addi, addic, addis, mulli, subfic, ori, oris, xori, xoris, tw, twi]"

definition cr_on_demand :: "(UGeckoInstruction \<Rightarrow> PowerPCState \<Rightarrow> PowerPCState) list" where
  "cr_on_demand = [addx, addcx, addex, addmex, addzex, divwx, divwux, mulhwx, mulhwux, mullwx, negx, subfx, subfcx, subfex, subfmex,
     subfzex, rlwimix, rlwinmx, rlwnmx, andx, andcx, cntlzwx, eqvx, extsbx, extshx, nandx, norx, orx, orcx, slwx, srawx, srawix,
     srwx, xorx]"

lemma CheckExceptions_keeps [simp]:
  "gpr (CheckExceptions s) = gpr s" "cr_val (CheckExceptions s) = cr_val s" "xer_ca (CheckExceptions s) = xer_ca s"
  "xer_so_ov (CheckExceptions s) = xer_so_ov s" "xer_stringctrl (CheckExceptions s) = xer_stringctrl s" "sr (CheckExceptions s) = sr s"
  by (simp_all add: CheckExceptions_def CheckExternalExceptions_def enter_exception_def set_spr_def Let_def)

lemma trap_keeps [simp]:
  "gpr (trap_if a b to s) = gpr s" "cr_val (trap_if a b to s) = cr_val s" "xer_ca (trap_if a b to s) = xer_ca s"
  "xer_so_ov (trap_if a b to s) = xer_so_ov s" "xer_stringctrl (trap_if a b to s) = xer_stringctrl s" "sr (trap_if a b to s) = sr s"
  by (simp_all add: trap_if_def)

lemma record_CR0_keeps [simp]:
  "xer_ca (record_CR0 inst n s) = xer_ca s" "\<not> Rc inst \<Longrightarrow> record_CR0 inst n s = s"
  by (simp_all add: record_CR0_def)

lemmas integer_defs = addi_def addic_def addic_rc_def addis_def mulli_def subfic_def addx_def addcx_def addex_def addmex_def
  addzex_def divwx_def divwux_def mulhwx_def mulhwux_def mullwx_def negx_def subfx_def subfcx_def subfex_def subfmex_def subfzex_def
  andi_rc_def andis_rc_def ori_def oris_def xori_def xoris_def rlwimix_def rlwinmx_def rlwnmx_def andx_def andcx_def cntlzwx_def
  eqvx_def extsbx_def extshx_def nandx_def norx_def orx_def orcx_def slwx_def srawx_def srawix_def srwx_def xorx_def
  cmp_def cmpl_def cmpi_def cmpli_def tw_def twi_def shift_right_algebraic_def

lemma carry_free_keeps: "f \<in> set carry_free \<Longrightarrow> xer_ca (f inst s) = xer_ca s"
  unfolding carry_free_def by (auto simp: integer_defs Let_def SetCRField_def)

lemma cr_free_keeps: "f \<in> set cr_free \<Longrightarrow> cr_val (f inst s) = cr_val s"
  unfolding cr_free_def by (auto simp: integer_defs Let_def)

lemma cr_on_demand_keeps: "f \<in> set cr_on_demand \<Longrightarrow> \<not> Rc inst \<Longrightarrow> cr_val (f inst s) = cr_val s"
  unfolding cr_on_demand_def by (auto simp: integer_defs Let_def)

text \<open>
  C36. What every integer instruction leaves alone. One that computes writes no other register than its target, and besides it only
  the carry and field 0 of the condition register: the carry only if it is one of the instructions with carry, the field only if it is
  one that records and its bit says so. A comparison writes only its field, with one of the values a field has. A trap (\<open>tw\<close>, \<open>twi\<close>), taken
  or not, keeps all general registers, the condition register, the exception register and the segment registers. The parts of the
  exception register stay in their ranges.
\<close>

theorem integer_instructions_keep:
  assumes "xer_ok s"
  shows "(\<forall>f \<in> set rd_instructions. only_register (RD inst) s (f inst s) \<and> xer_ok (f inst s)) \<and>
    (\<forall>f \<in> set ra_instructions. only_register (RA inst) s (f inst s) \<and> xer_ok (f inst s)) \<and>
    (\<forall>f \<in> set compare_instructions. xer_ok (f inst s) \<and>
       (\<exists>v \<in> set m_crTable. f inst s = s\<lparr>cr_val := (cr_val s)(CRFD inst := v)\<rparr>)) \<and>
    (\<forall>f \<in> set trap_instructions. gpr (f inst s) = gpr s \<and> cr_val (f inst s) = cr_val s \<and> GetXER (f inst s) = GetXER s \<and>
       sr (f inst s) = sr s \<and> xer_ok (f inst s)) \<and>
    (\<forall>f \<in> set carry_free. xer_ca (f inst s) = xer_ca s) \<and>
    (\<forall>f \<in> set cr_free. cr_val (f inst s) = cr_val s) \<and>
    (\<not> Rc inst \<longrightarrow> (\<forall>f \<in> set cr_on_demand. cr_val (f inst s) = cr_val s))"
proof (intro conjI ballI impI)
  have "m_crTable ! unat (compare_flags lt gt s) \<in> set m_crTable" for lt gt
    using compare_flags_less [of lt gt s] by (intro nth_mem) (simp add: m_crTable_def word_less_16_iff)
  then show "\<exists>v \<in> set m_crTable. f inst s = s\<lparr>cr_val := (cr_val s)(CRFD inst := v)\<rparr>" if "f \<in> set compare_instructions" for f
    using that by (auto simp: compare_instructions_def cmp_def cmpl_def cmpi_def cmpli_def Let_def SetCRField_def)
  show "xer_ok (f inst s)" if "f \<in> set compare_instructions" for f
    using that assms by (auto simp: compare_instructions_def cmp_def cmpl_def cmpi_def cmpli_def Let_def SetCRField_def xer_ok_def)
qed (use rd_keeps ra_keeps assms carry_free_keeps cr_free_keeps cr_on_demand_keeps in
    \<open>auto simp: trap_instructions_def tw_def twi_def GetXER_def xer_ok_def\<close>)

theorem integer_instructions_keep_witness:
  "only_register 3 ppc_zero (addex 0x7C642914 ppc_zero) \<and> xer_ok (addex 0x7C642914 ppc_zero)"
proof -
  have "xer_ok ppc_zero" "RD 0x7C642914 = 3"
    by (simp_all add: xer_ok_def ppc_zero_def ppc_defs bit_field_def take_bit_eq_mod drop_bit_eq_div)
  with integer_instructions_keep [of ppc_zero "0x7C642914"] show ?thesis by (auto simp: rd_instructions_def)
qed

end
