(* ===== verification/Std_Heap.thy ===== *)
theory Std_Heap
  imports Main "HOL-Library.Multiset"
begin

text \<open>
  The heap algorithms of the C++ standard library (\<^verbatim>\<open>std::push_heap\<close>, \<^verbatim>\<open>std::pop_heap\<close>,
  \<^verbatim>\<open>std::make_heap\<close> with \<^verbatim>\<open>std::greater\<close>) the event queue uses: a vector with its smallest
  element in front. The standard fixes what the functions establish and leaves the layout
  to the library; the interface \<open>std_heap\<close> states what it fixes, and is interpreted on the
  usual implementation by sifting. Elements are compared by \<open>key\<close>.
\<close>

definition is_heap :: "('e \<Rightarrow> 'k::linorder) \<Rightarrow> 'e list \<Rightarrow> bool" where
  "is_heap key xs \<longleftrightarrow> (\<forall>i. 0 < i \<and> i < length xs \<longrightarrow> key (xs ! ((i - 1) div 2)) \<le> key (xs ! i))"

definition swap_at :: "nat \<Rightarrow> nat \<Rightarrow> 'e list \<Rightarrow> 'e list" where
  "swap_at i j xs = xs[i := xs ! j, j := xs ! i]"

fun sift_up :: "('e \<Rightarrow> 'k::linorder) \<Rightarrow> nat \<Rightarrow> 'e list \<Rightarrow> 'e list" where
  "sift_up key i xs =
     (if i = 0 then xs
      else let p = (i - 1) div 2 in
        if key (xs ! i) < key (xs ! p) then sift_up key p (swap_at i p xs) else xs)"

text \<open>The smaller of the children of \<open>i\<close> below \<open>n\<close>, if there is one.\<close>

definition least_child :: "('e \<Rightarrow> 'k::linorder) \<Rightarrow> nat \<Rightarrow> nat \<Rightarrow> 'e list \<Rightarrow> nat" where
  "least_child key n i xs =
     (if 2 * i + 2 < n \<and> key (xs ! (2 * i + 2)) < key (xs ! (2 * i + 1)) then 2 * i + 2 else 2 * i + 1)"

function sift_down :: "('e \<Rightarrow> 'k::linorder) \<Rightarrow> nat \<Rightarrow> nat \<Rightarrow> 'e list \<Rightarrow> 'e list" where
  "sift_down key n i xs =
     (if 2 * i + 1 < n \<and> key (xs ! least_child key n i xs) < key (xs ! i)
      then sift_down key n (least_child key n i xs) (swap_at i (least_child key n i xs) xs) else xs)"
  by pat_completeness auto
termination
  by (relation "measure (\<lambda>(_, n, i, _). n - i)") (auto simp: least_child_def)

declare sift_up.simps [simp del] sift_down.simps [simp del]

text \<open>The element to insert is the last one; the element taken out becomes the last one.\<close>

definition push_heap :: "('e \<Rightarrow> 'k::linorder) \<Rightarrow> 'e list \<Rightarrow> 'e list" where
  "push_heap key xs = (if xs = [] then [] else sift_up key (length xs - 1) xs)"

definition pop_heap :: "('e \<Rightarrow> 'k::linorder) \<Rightarrow> 'e list \<Rightarrow> 'e list" where
  "pop_heap key xs =
     (if xs = [] then [] else sift_down key (length xs - 1) 0 (swap_at 0 (length xs - 1) xs))"

definition make_heap :: "('e \<Rightarrow> 'k::linorder) \<Rightarrow> 'e list \<Rightarrow> 'e list" where
  "make_heap key xs = foldr (sift_down key (length xs)) [0..<length xs div 2] xs"

subsection \<open>Sifting permutes\<close>

lemma swap_at_mset [simp]: "i < length xs \<Longrightarrow> j < length xs \<Longrightarrow> mset (swap_at i j xs) = mset xs"
  by (simp add: swap_at_def mset_swap)

lemma swap_at_length [simp]: "length (swap_at i j xs) = length xs"
  by (simp add: swap_at_def)

lemma swap_at_nth: "i < length xs \<Longrightarrow> j < length xs \<Longrightarrow> x < length xs \<Longrightarrow>
    swap_at i j xs ! x = (if x = j then xs ! i else if x = i then xs ! j else xs ! x)"
  by (simp add: swap_at_def nth_list_update)

lemma sift_up_length [simp]: "length (sift_up key i xs) = length xs"
  by (induction key i xs rule: sift_up.induct) (subst sift_up.simps, simp add: Let_def)

lemma sift_up_mset: "i < length xs \<Longrightarrow> mset (sift_up key i xs) = mset xs"
proof (induction key i xs rule: sift_up.induct)
  case (1 key i xs)
  then show ?case by (subst sift_up.simps) (auto simp: Let_def)
qed

lemma sift_down_length [simp]: "length (sift_down key n i xs) = length xs"
proof (induction key n i xs rule: sift_down.induct)
  case (1 key n i xs)
  then show ?case by (subst sift_down.simps) simp
qed

lemma least_child_bound: "2 * i + 1 < n \<Longrightarrow> least_child key n i xs < n"
  by (simp add: least_child_def)

lemma sift_down_mset: "n \<le> length xs \<Longrightarrow> mset (sift_down key n i xs) = mset xs"
proof (induction key n i xs rule: sift_down.induct)
  case (1 key n i xs)
  then show ?case
    using least_child_bound [of i n key xs] by (subst sift_down.simps) auto
qed

lemma sift_down_beyond: "n \<le> length xs \<Longrightarrow> n \<le> j \<Longrightarrow> j < length xs \<Longrightarrow> sift_down key n i xs ! j = xs ! j"
proof (induction key n i xs rule: sift_down.induct)
  case (1 key n i xs)
  then show ?case
    using least_child_bound [of i n key xs] by (subst sift_down.simps) (auto simp: swap_at_nth)
qed

subsection \<open>Sifting restores the order\<close>

text \<open>The order below \<open>n\<close> for parents from \<open>m\<close> on; and except for the element at \<open>i\<close>, which may be too large or too small.\<close>

definition heap_part :: "('e \<Rightarrow> 'k::linorder) \<Rightarrow> nat \<Rightarrow> nat \<Rightarrow> 'e list \<Rightarrow> bool" where
  "heap_part key m n xs \<longleftrightarrow>
     (\<forall>x. 0 < x \<and> x < n \<and> m \<le> (x - 1) div 2 \<longrightarrow> key (xs ! ((x - 1) div 2)) \<le> key (xs ! x))"

definition heap_but_down :: "('e \<Rightarrow> 'k::linorder) \<Rightarrow> nat \<Rightarrow> nat \<Rightarrow> nat \<Rightarrow> 'e list \<Rightarrow> bool" where
  "heap_but_down key m n i xs \<longleftrightarrow>
     (\<forall>x. 0 < x \<and> x < n \<and> m \<le> (x - 1) div 2 \<and> (x - 1) div 2 \<noteq> i \<longrightarrow> key (xs ! ((x - 1) div 2)) \<le> key (xs ! x)) \<and>
     (\<forall>x. 0 < x \<and> x < n \<and> (x - 1) div 2 = i \<and> 0 < i \<and> m \<le> (i - 1) div 2 \<longrightarrow> key (xs ! ((i - 1) div 2)) \<le> key (xs ! x))"

definition heap_but_up :: "('e \<Rightarrow> 'k::linorder) \<Rightarrow> nat \<Rightarrow> 'e list \<Rightarrow> bool" where
  "heap_but_up key i xs \<longleftrightarrow>
     (\<forall>x. 0 < x \<and> x < length xs \<and> x \<noteq> i \<longrightarrow> key (xs ! ((x - 1) div 2)) \<le> key (xs ! x)) \<and>
     (\<forall>x. 0 < x \<and> x < length xs \<and> (x - 1) div 2 = i \<and> 0 < i \<longrightarrow> key (xs ! ((i - 1) div 2)) \<le> key (xs ! x))"

lemma is_heap_part: "is_heap key xs \<longleftrightarrow> heap_part key 0 (length xs) xs"
  by (simp add: is_heap_def heap_part_def)

lemma child_cases: "0 < x \<Longrightarrow> (x - 1) div 2 = i \<longleftrightarrow> x = 2 * i + 1 \<or> x = 2 * i + (2::nat)"
  by auto

lemma sift_down_step:
  assumes "heap_but_down key m n i xs" and "n \<le> length xs" and "2 * i + 1 < n"
    and "key (xs ! least_child key n i xs) < key (xs ! i)"
  shows "heap_but_down key m n (least_child key n i xs) (swap_at i (least_child key n i xs) xs)"
proof -
  let ?c = "least_child key n i xs"
  let ?ys = "swap_at i ?c xs"
  have c: "?c < n" "i < ?c" "(?c - 1) div 2 = i" using assms(3) by (auto simp: least_child_def)
  have i: "i < n" using c by simp
  have least: "key (xs ! ?c) \<le> key (xs ! x)" if "0 < x" "x < n" "(x - 1) div 2 = i" for x
    using that child_cases [of x i] by (auto simp: least_child_def)
  have ys: "?ys ! x = (if x = ?c then xs ! i else if x = i then xs ! ?c else xs ! x)" if "x < n" for x
    using that i c(1) assms(2) by (simp add: swap_at_nth)
  show ?thesis unfolding heap_but_down_def
  proof (intro conjI allI impI; elim conjE)
    fix x assume x: "0 < x" "x < n" "m \<le> (x - 1) div 2" "(x - 1) div 2 \<noteq> ?c"
    have p: "(x - 1) div 2 < x" "(x - 1) div 2 < n" using x by auto
    show "key (?ys ! ((x - 1) div 2)) \<le> key (?ys ! x)"
    proof (cases "(x - 1) div 2 = i")
      case True
      then show ?thesis using least [OF x(1,2)] x p c assms(4) by (auto simp: ys less_imp_le)
    next
      case False
      then have "key (xs ! ((x - 1) div 2)) \<le> key (xs ! x)"
        using assms(1) x by (auto simp: heap_but_down_def)
      moreover have "key (xs ! ((i - 1) div 2)) \<le> key (xs ! ?c)" if "x = i"
        using assms(1) x c that by (auto simp: heap_but_down_def)
      ultimately show ?thesis using x p c False by (auto simp: ys)
    qed
  next
    fix x assume x: "0 < x" "x < n" "(x - 1) div 2 = ?c" "0 < ?c" "m \<le> (?c - 1) div 2"
    then have "key (xs ! ?c) \<le> key (xs ! x)"
      using assms(1) c by (auto simp: heap_but_down_def dest: spec [of _ x])
    moreover have "x \<noteq> i" "x \<noteq> ?c" using x c by auto
    ultimately show "key (?ys ! ((?c - 1) div 2)) \<le> key (?ys ! x)"
      using x i c by (simp add: ys)
  qed
qed

lemma sift_down_stop:
  assumes "heap_but_down key m n i xs" and "\<not> (2 * i + 1 < n \<and> key (xs ! least_child key n i xs) < key (xs ! i))"
  shows "heap_part key m n xs"
  unfolding heap_part_def
proof (intro allI impI; elim conjE)
  fix x assume x: "0 < x" "x < n" "m \<le> (x - 1) div 2"
  show "key (xs ! ((x - 1) div 2)) \<le> key (xs ! x)"
  proof (cases "(x - 1) div 2 = i")
    case True
    then have "key (xs ! least_child key n i xs) \<le> key (xs ! x)"
      using x child_cases [of x i] by (auto simp: least_child_def)
    moreover have "2 * i + 1 < n" using True x by linarith
    ultimately show ?thesis using assms(2) True by auto
  next
    case False
    then show ?thesis using assms(1) x by (auto simp: heap_but_down_def)
  qed
qed

lemma sift_down_heap: "heap_but_down key m n i xs \<Longrightarrow> n \<le> length xs \<Longrightarrow> heap_part key m n (sift_down key n i xs)"
proof (induction key n i xs rule: sift_down.induct)
  case (1 key n i xs)
  then show ?case
    using sift_down_step [of key m n i xs] sift_down_stop [of key m n i xs] by (subst sift_down.simps) auto
qed

lemma sift_up_step:
  assumes "heap_but_up key i xs" and "i < length xs" and "0 < i" and "key (xs ! i) < key (xs ! ((i - 1) div 2))"
  shows "heap_but_up key ((i - 1) div 2) (swap_at i ((i - 1) div 2) xs)"
proof -
  let ?p = "(i - 1) div 2"
  let ?ys = "swap_at i ?p xs"
  have p: "?p < i" using assms(3) by auto
  have ys: "?ys ! x = (if x = ?p then xs ! i else if x = i then xs ! ?p else xs ! x)" if "x < length xs" for x
    using that assms(2) p by (simp add: swap_at_nth)
  have le: "key (xs ! ((x - 1) div 2)) \<le> key (xs ! x)" if "0 < x" "x < length xs" "x \<noteq> i" for x
    using assms(1) that by (simp add: heap_but_up_def)
  show ?thesis unfolding heap_but_up_def swap_at_length
  proof (intro conjI allI impI; elim conjE)
    fix x assume x: "0 < x" "x < length xs" "x \<noteq> ?p"
    have q: "(x - 1) div 2 < length xs" using x by auto
    consider "x = i" | "x \<noteq> i" "(x - 1) div 2 = ?p" | "x \<noteq> i" "(x - 1) div 2 = i" | "x \<noteq> i" "(x - 1) div 2 \<noteq> ?p" "(x - 1) div 2 \<noteq> i"
      by blast
    then show "key (?ys ! ((x - 1) div 2)) \<le> key (?ys ! x)"
    proof cases
      case 1
      then show ?thesis using assms(4) x p q by (simp add: ys del: One_nat_def)
    next
      case 2
      then show ?thesis using assms(4) le [OF x(1,2)] x q by (simp add: ys del: One_nat_def)
    next
      case 3
      then have "key (xs ! ?p) \<le> key (xs ! x)" using assms(1,3) x by (simp add: heap_but_up_def del: One_nat_def)
      with 3 show ?thesis using x p q by (simp add: ys del: One_nat_def)
    next
      case 4
      then show ?thesis using le [OF x(1,2)] x q by (simp add: ys del: One_nat_def)
    qed
  next
    fix x assume x: "0 < x" "x < length xs" "(x - 1) div 2 = ?p" "0 < ?p"
    have g: "(?p - 1) div 2 < ?p" using x(4) by auto
    have "key (xs ! ((?p - 1) div 2)) \<le> key (xs ! ?p)" using le [of ?p] x(4) p assms(2) by simp
    moreover have "x \<noteq> i \<Longrightarrow> key (xs ! ?p) \<le> key (xs ! x)" using le [of x] x by simp
    moreover have "x \<noteq> ?p" using x by linarith
    ultimately show "key (?ys ! ((?p - 1) div 2)) \<le> key (?ys ! x)"
      using x g p assms(2) by (auto simp: ys simp del: One_nat_def)
  qed
qed

lemma sift_up_heap: "heap_but_up key i xs \<Longrightarrow> i < length xs \<Longrightarrow> is_heap key (sift_up key i xs)"
proof (induction key i xs rule: sift_up.induct)
  case (1 key i xs)
  show ?case
  proof (cases "i \<noteq> 0 \<and> key (xs ! i) < key (xs ! ((i - 1) div 2))")
    case True
    then have "heap_but_up key ((i - 1) div 2) (swap_at i ((i - 1) div 2) xs)"
      using sift_up_step [OF 1(2,3)] by simp
    with 1 True show ?thesis by (subst sift_up.simps) (auto simp: Let_def)
  next
    case False
    with 1(2) have "is_heap key xs"
      unfolding is_heap_def heap_but_up_def by (metis gr_implies_not0 not_le)
    with False show ?thesis by (subst sift_up.simps) (auto simp: Let_def)
  qed
qed

subsection \<open>What the standard promises\<close>

locale std_heap =
  fixes key :: "'e \<Rightarrow> 'k::linorder"
    and push :: "'e list \<Rightarrow> 'e list"
    and pop :: "'e list \<Rightarrow> 'e list"
    and make :: "'e list \<Rightarrow> 'e list"
  assumes push_heap: "is_heap key xs \<Longrightarrow> is_heap key (push (xs @ [x]))"
    and push_mset: "mset (push (xs @ [x])) = mset (xs @ [x])"
    and pop_heap: "is_heap key xs \<Longrightarrow> is_heap key (butlast (pop xs))"
    and pop_last: "xs \<noteq> [] \<Longrightarrow> last (pop xs) = hd xs"
    and pop_mset: "mset (pop xs) = mset xs"
    and make_heap: "is_heap key (make xs)"
    and make_mset: "mset (make xs) = mset xs"
begin

lemma front_least:
  assumes "is_heap key xs" and "x \<in> set xs"
  shows "key (hd xs) \<le> key x"
proof -
  have "i < length xs \<Longrightarrow> key (hd xs) \<le> key (xs ! i)" for i
  proof (induction i rule: less_induct)
    case (less i)
    show ?case
    proof (cases "i = 0")
      case True
      with less(2) show ?thesis by (cases xs) auto
    next
      case False
      then have "(i - 1) div 2 < i" by auto
      with less have "key (hd xs) \<le> key (xs ! ((i - 1) div 2))" by simp
      also have "\<dots> \<le> key (xs ! i)" using assms(1) False less(2) by (simp add: is_heap_def)
      finally show ?thesis .
    qed
  qed
  with assms(2) show ?thesis by (metis in_set_conv_nth)
qed

lemma pop_rest:
  assumes "xs \<noteq> []"
  shows "mset (butlast (pop xs)) = mset xs - {#hd xs#}"
proof -
  have "pop xs \<noteq> []" using pop_mset [of xs] assms by (metis mset_zero_iff)
  then have "mset (pop xs) = mset (butlast (pop xs)) + {#hd xs#}"
    using pop_last [OF assms] by (metis append_butlast_last_id mset.simps(1) mset.simps(2) mset_append add_mset_add_single)
  then show ?thesis using pop_mset [of xs] by simp
qed

lemma set_ops: "set (push (xs @ [x])) = insert x (set xs)" "set (make xs) = set xs"
  using push_mset [of xs x, THEN mset_eq_setD] make_mset [of xs, THEN mset_eq_setD] by simp_all

end

lemma is_heap_prefix: "is_heap key xs \<Longrightarrow> n \<le> length xs \<Longrightarrow> is_heap key (take n xs)"
  by (auto simp: is_heap_def)

lemma make_heap_from:
  "n = length xs \<Longrightarrow> length ys = n \<Longrightarrow> m \<le> n div 2 \<Longrightarrow> heap_part key m n ys \<Longrightarrow>
   is_heap key (foldr (sift_down key n) [0..<m] ys)"
proof (induction m arbitrary: ys)
  case 0
  then show ?case by (simp add: is_heap_part)
next
  case (Suc m)
  have "heap_but_down key m n m ys"
    using Suc(5) by (auto simp: heap_part_def heap_but_down_def)
  then have "heap_part key m n (sift_down key n m ys)" using Suc(3) by (simp add: sift_down_heap)
  with Suc show ?case by simp
qed

interpretation array_heap: std_heap key "push_heap key" "pop_heap key" "make_heap key"
  for key :: "'e \<Rightarrow> 'k::linorder"
proof
  fix xs :: "'e list" and x
  show "is_heap key (push_heap key (xs @ [x]))" if h: "is_heap key xs"
  proof -
    have "heap_but_up key (length xs) (xs @ [x])"
      unfolding heap_but_up_def
    proof (intro conjI allI impI; elim conjE)
      fix y assume y: "0 < y" "y < length (xs @ [x])" "y \<noteq> length xs"
      then have "y < length xs" "(y - 1) div 2 < length xs" by auto
      with h y show "key ((xs @ [x]) ! ((y - 1) div 2)) \<le> key ((xs @ [x]) ! y)"
        by (simp add: is_heap_def nth_append)
    next
      fix y assume "0 < y" "y < length (xs @ [x])" "(y - 1) div 2 = length xs"
      then have False by auto
      then show "key ((xs @ [x]) ! ((length xs - 1) div 2)) \<le> key ((xs @ [x]) ! y)" ..
    qed
    then show ?thesis by (simp add: push_heap_def sift_up_heap)
  qed
  show "mset (push_heap key (xs @ [x])) = mset (xs @ [x])"
    by (simp add: push_heap_def sift_up_mset)
next
  fix xs :: "'e list"
  let ?n = "length xs - 1"
  let ?ys = "swap_at 0 ?n xs"
  show "mset (pop_heap key xs) = mset xs"
    by (simp add: pop_heap_def sift_down_mset)
  show "last (pop_heap key xs) = hd xs" if "xs \<noteq> []"
  proof -
    have "sift_down key ?n 0 ?ys \<noteq> []" using that by (metis length_0_conv sift_down_length swap_at_length)
    then have "last (pop_heap key xs) = sift_down key ?n 0 ?ys ! ?n"
      using that by (simp add: pop_heap_def last_conv_nth)
    also have "\<dots> = hd xs" using that by (simp add: sift_down_beyond swap_at_nth hd_conv_nth)
    finally show ?thesis .
  qed
  show "is_heap key (butlast (pop_heap key xs))" if h: "is_heap key xs"
  proof (cases "xs = []")
    case False
    have "heap_but_down key 0 ?n 0 ?ys"
      unfolding heap_but_down_def using h False by (auto simp: is_heap_def swap_at_nth)
    then have "heap_part key 0 ?n (sift_down key ?n 0 ?ys)" by (simp add: sift_down_heap)
    moreover have "(i - 1) div 2 < ?n" if "0 < i" "i < ?n" for i using that by linarith
    ultimately show ?thesis using False by (simp add: pop_heap_def is_heap_def heap_part_def butlast_conv_take)
  qed (simp add: pop_heap_def is_heap_def)
next
  fix xs :: "'e list"
  have "heap_part key (length xs div 2) (length xs) xs"
    by (auto simp: heap_part_def)
  then show "is_heap key (make_heap key xs)"
    unfolding make_heap_def by (intro make_heap_from) simp_all
  have "mset (foldr (sift_down key n) is ys) = mset ys \<and> length (foldr (sift_down key n) is ys) = length ys" if "n \<le> length ys" for n ys "is"
    using that by (induction "is") (simp_all add: sift_down_mset)
  then show "mset (make_heap key xs) = mset xs" by (simp add: make_heap_def)
qed

end
