(* ===== verification/CoreTiming.thy ===== *)
theory CoreTiming
  imports DSP_Prelude Std_Heap "HOL-Library.Product_Lexorder" Complex_Main
begin

text \<open>
  The scheduler of the emulator (\<^verbatim>\<open>Core/CoreTiming.cpp\<close>): the devices of the console
  schedule events some CPU cycles into the future, the CPU runs for a slice of cycles that
  ends no later than the next event, and \<open>Advance\<close> between two slices calls the callbacks of
  the events that are due.

  Cycle counts and times are unbounded integers: the source computes them in signed 64
  bits (\<^verbatim>\<open>int\<close> for the slice), whose overflow C++ leaves undefined and which last for
  centuries of emulated time. A type of event is its name, which \<open>RegisterEvent\<close> keeps
  unique. \<open>downcount\<close> is \<^verbatim>\<open>PowerPC::ppcState.downcount\<close>. The two settings for overclocking
  are an argument \<open>oc\<close>. A callback is a parameter: what it does to the scheduler is a list of
  calls of the scheduler's functions, and what it does to the rest of the machine is a
  change of a state \<open>'w\<close>.
\<close>

subsection \<open>Single-precision arithmetic\<close>

text \<open>
  \<^verbatim>\<open>float\<close> values are rational numbers; \<open>f32\<close> rounds to the nearest one of 24 significant bits, a
  tie to the even one. (Infinities are out of reach of the products of the source.)
\<close>

definition pow2 :: "int \<Rightarrow> rat" where
  "pow2 e = (if 0 \<le> e then 2 ^ nat e else 1 / 2 ^ nat (- e))"

definition f32_exponent :: "rat \<Rightarrow> int" where
  "f32_exponent x = (case List.find (\<lambda>e. pow2 e \<le> \<bar>x\<bar>) (rev [- 126..127]) of None \<Rightarrow> - 126 | Some e \<Rightarrow> e)"

definition round_even :: "rat \<Rightarrow> int" where
  "round_even x =
     (let n = \<lfloor>x\<rfloor>; r = x - of_int n in
      if r < 1 / 2 then n else if 1 / 2 < r then n + 1 else if even n then n else n + 1)"

definition f32 :: "rat \<Rightarrow> rat" where
  "f32 x = (let u = pow2 (f32_exponent x - 23) in of_int (round_even (x / u)) * u)"

text \<open>\<^verbatim>\<open>static_cast<int>\<close> of a \<^verbatim>\<open>float\<close> truncates.\<close>

definition trunc_int :: "rat \<Rightarrow> int" where
  "trunc_int x = (if x < 0 then \<lceil>x\<rceil> else \<lfloor>x\<rfloor>)"

subsection \<open>State\<close>

record Event =
  ev_time :: int
  fifo_order :: nat
  userdata :: u64
  ev_type :: string

text \<open>\<^verbatim>\<open>operator<\<close> compares the times, and the orders of arrival where they are equal.\<close>

definition ev_key :: "Event \<Rightarrow> int \<times> nat" where
  "ev_key e = (ev_time e, fifo_order e)"

record CoreTiming =
  s_event_types :: "string list"
  s_event_queue :: "Event list"
  s_event_fifo_id :: nat
  s_ts_queue :: "Event list"
  s_last_OC_factor :: rat
  s_idled_cycles :: int
  s_fake_dec_start_value :: u32
  s_fake_dec_start_ticks :: u64
  s_is_global_timer_sane :: bool
  global_timer :: int
  slice_length :: int
  fake_TB_start_value :: u64
  fake_TB_start_ticks :: u64
  last_OC_factor_inverted :: rat
  downcount :: int

definition MAX_SLICE_LENGTH :: int where "MAX_SLICE_LENGTH = 20000"

definition DowncountToCycles :: "CoreTiming \<Rightarrow> int \<Rightarrow> int" where
  "DowncountToCycles g n = trunc_int (f32 (f32 (of_int n) * last_OC_factor_inverted g))"

definition CyclesToDowncount :: "CoreTiming \<Rightarrow> int \<Rightarrow> int" where
  "CyclesToDowncount g cycles = trunc_int (f32 (f32 (of_int cycles) * s_last_OC_factor g))"

text \<open>The settings \<open>m_OCEnable\<close> and \<open>m_OCFactor\<close>, and the lines that read them.\<close>

definition set_OC_factor :: "bool \<times> rat \<Rightarrow> CoreTiming \<Rightarrow> CoreTiming" where
  "set_OC_factor oc g =
     (let f = (if fst oc then snd oc else 1)
      in g\<lparr>s_last_OC_factor := f, last_OC_factor_inverted := f32 (1 / f)\<rparr>)"

subsection \<open>Event types and life cycle\<close>

text \<open>\<^verbatim>\<open>emplace\<close> keeps an entry that is there already.\<close>

definition RegisterEvent :: "string \<Rightarrow> CoreTiming \<Rightarrow> string \<times> CoreTiming" where
  "RegisterEvent name g =
     (name, if name \<in> set (s_event_types g) then g else g\<lparr>s_event_types := name # s_event_types g\<rparr>)"

definition UnregisterAllEvents :: "CoreTiming \<Rightarrow> CoreTiming" where
  "UnregisterAllEvents g = g\<lparr>s_event_types := []\<rparr>"

definition Init :: "bool \<times> rat \<Rightarrow> CoreTiming \<Rightarrow> CoreTiming" where
  "Init oc g =
     (let g1 = set_OC_factor oc g;
          g2 = g1\<lparr>downcount := CyclesToDowncount g1 MAX_SLICE_LENGTH, slice_length := MAX_SLICE_LENGTH,
                  global_timer := 0, s_idled_cycles := 0, s_is_global_timer_sane := True, s_event_fifo_id := 0\<rparr>
      in snd (RegisterEvent ''_lost_event'' g2))"

definition ClearPendingEvents :: "CoreTiming \<Rightarrow> CoreTiming" where
  "ClearPendingEvents g = g\<lparr>s_event_queue := []\<rparr>"

subsection \<open>Scheduling\<close>

definition GetTicks :: "CoreTiming \<Rightarrow> int" where
  "GetTicks g =
     (if \<not> s_is_global_timer_sane g
      then global_timer g + (slice_length g - DowncountToCycles g (downcount g)) else global_timer g)"

definition GetIdleTicks :: "CoreTiming \<Rightarrow> int" where
  "GetIdleTicks g = s_idled_cycles g"

definition ForceExceptionCheck :: "int \<Rightarrow> CoreTiming \<Rightarrow> CoreTiming" where
  "ForceExceptionCheck cycles0 g =
     (let cycles = max 0 cycles0 in
      if DowncountToCycles g (downcount g) > cycles then
        g\<lparr>slice_length := slice_length g - (DowncountToCycles g (downcount g) - cycles),
          downcount := CyclesToDowncount g cycles\<rparr>
      else g)"

text \<open>\<^verbatim>\<open>emplace_back\<close> and \<^verbatim>\<open>push_heap\<close>.\<close>

definition enqueue :: "Event \<Rightarrow> CoreTiming \<Rightarrow> CoreTiming" where
  "enqueue e g = g\<lparr>s_event_queue := push_heap ev_key (s_event_queue g @ [e]), s_event_fifo_id := s_event_fifo_id g + 1\<rparr>"

text \<open>\<open>from_cpu_thread\<close> is what the test of \<open>from\<close> yields; the assertions have no effect.\<close>

definition ScheduleEvent :: "int \<Rightarrow> string \<Rightarrow> u64 \<Rightarrow> bool \<Rightarrow> CoreTiming \<Rightarrow> CoreTiming" where
  "ScheduleEvent cycles_into_future event_type ud from_cpu_thread g =
     (if from_cpu_thread then
        (let timeout = GetTicks g + cycles_into_future;
             g1 = (if \<not> s_is_global_timer_sane g then ForceExceptionCheck cycles_into_future g else g)
         in enqueue \<lparr>ev_time = timeout, fifo_order = s_event_fifo_id g1, userdata = ud, ev_type = event_type\<rparr> g1)
      else
        g\<lparr>s_ts_queue := s_ts_queue g @
            [\<lparr>ev_time = global_timer g + cycles_into_future, fifo_order = 0, userdata = ud, ev_type = event_type\<rparr>]\<rparr>)"

definition RemoveEvent :: "string \<Rightarrow> CoreTiming \<Rightarrow> CoreTiming" where
  "RemoveEvent event_type g =
     (let rest = filter (\<lambda>e. ev_type e \<noteq> event_type) (s_event_queue g)
      in if length rest \<noteq> length (s_event_queue g) then g\<lparr>s_event_queue := make_heap ev_key rest\<rparr> else g)"

text \<open>The loop of \<open>MoveEvents\<close> over the events other threads have queued.\<close>

primrec move_events :: "Event list \<Rightarrow> CoreTiming \<Rightarrow> CoreTiming" where
  "move_events [] g = g"
| "move_events (ev # evs) g = move_events evs (enqueue (ev\<lparr>fifo_order := s_event_fifo_id g\<rparr>) g)"

definition MoveEvents :: "CoreTiming \<Rightarrow> CoreTiming" where
  "MoveEvents g = (move_events (s_ts_queue g) g)\<lparr>s_ts_queue := []\<rparr>"

definition RemoveAllEvents :: "string \<Rightarrow> CoreTiming \<Rightarrow> CoreTiming" where
  "RemoveAllEvents event_type g = RemoveEvent event_type (MoveEvents g)"

definition Shutdown_timing :: "CoreTiming \<Rightarrow> CoreTiming" where
  "Shutdown_timing g = UnregisterAllEvents (ClearPendingEvents (MoveEvents g))"

definition Idle :: "CoreTiming \<Rightarrow> CoreTiming" where
  "Idle g = g\<lparr>s_idled_cycles := s_idled_cycles g + DowncountToCycles g (downcount g), downcount := 0\<rparr>"

text \<open>The division of the source truncates towards zero.\<close>

definition AdjustEventQueueTimes :: "u32 \<Rightarrow> u32 \<Rightarrow> CoreTiming \<Rightarrow> CoreTiming" where
  "AdjustEventQueueTimes new_ppc_clock old_ppc_clock g =
     g\<lparr>s_event_queue := map (\<lambda>ev.
         let d = (ev_time ev - global_timer g) * uint new_ppc_clock;
             ticks = (if d < 0 then - (- d div uint old_ppc_clock) else d div uint old_ppc_clock)
         in ev\<lparr>ev_time := global_timer g + ticks\<rparr>) (s_event_queue g)\<rparr>"

subsection \<open>Advancing\<close>

datatype ct_call = Schedule_call int string u64 | Remove_call string | RemoveAll_call string | Force_call int

primrec ct_exec :: "ct_call \<Rightarrow> CoreTiming \<Rightarrow> CoreTiming" where
  "ct_exec (Schedule_call c ty ud) = ScheduleEvent c ty ud True"
| "ct_exec (Remove_call ty) = RemoveEvent ty"
| "ct_exec (RemoveAll_call ty) = RemoveAllEvents ty"
| "ct_exec (Force_call c) = ForceExceptionCheck c"

type_synonym 'w callback = "string \<Rightarrow> u64 \<Rightarrow> int \<Rightarrow> 'w \<Rightarrow> ct_call list \<times> 'w"

text \<open>The lines of \<open>Advance\<close> before its loop, the loop with the events it fires, and the lines behind it.\<close>

definition Advance_begin :: "bool \<times> rat \<Rightarrow> CoreTiming \<Rightarrow> CoreTiming" where
  "Advance_begin oc g =
     (let g1 = MoveEvents g;
          cyclesExecuted = slice_length g1 - DowncountToCycles g1 (downcount g1);
          g2 = set_OC_factor oc (g1\<lparr>global_timer := global_timer g1 + cyclesExecuted\<rparr>)
      in g2\<lparr>slice_length := MAX_SLICE_LENGTH, s_is_global_timer_sane := True\<rparr>)"

partial_function (option) Advance_loop ::
    "'w callback \<Rightarrow> CoreTiming \<Rightarrow> 'w \<Rightarrow> (Event list \<times> CoreTiming \<times> 'w) option" where
  "Advance_loop cb g w =
     (if s_event_queue g \<noteq> [] \<and> ev_time (hd (s_event_queue g)) \<le> global_timer g then
        (let evt = hd (s_event_queue g);
             g1 = g\<lparr>s_event_queue := butlast (pop_heap ev_key (s_event_queue g))\<rparr>;
             r = cb (ev_type evt) (userdata evt) (global_timer g1 - ev_time evt) w
         in Option.bind (Advance_loop cb (fold ct_exec (fst r) g1) (snd r)) (\<lambda>(evs, r). Some (evt # evs, r)))
      else Some ([], g, w))"

definition Advance_end :: "CoreTiming \<Rightarrow> CoreTiming" where
  "Advance_end g =
     (let g1 = g\<lparr>s_is_global_timer_sane := False\<rparr>;
          g2 = (if s_event_queue g1 \<noteq> []
                then g1\<lparr>slice_length := min (ev_time (hd (s_event_queue g1)) - global_timer g1) MAX_SLICE_LENGTH\<rparr>
                else g1)
      in g2\<lparr>downcount := CyclesToDowncount g2 (slice_length g2)\<rparr>)"

text \<open>\<open>PowerPC::CheckExternalExceptions\<close>, the last call of \<open>Advance\<close>, is part of the CPU.\<close>

definition Advance :: "bool \<times> rat \<Rightarrow> 'w callback \<Rightarrow> CoreTiming \<Rightarrow> 'w \<Rightarrow> (Event list \<times> CoreTiming \<times> 'w) option" where
  "Advance oc cb g w =
     map_option (\<lambda>(evs, g1, w1). (evs, Advance_end g1, w1)) (Advance_loop cb (Advance_begin oc g) w)"

declare Advance_loop.simps [simp del]

subsection \<open>Start values of the decrementer and the time base\<close>

definition GetFakeDecStartValue :: "CoreTiming \<Rightarrow> u32" where
  "GetFakeDecStartValue g = s_fake_dec_start_value g"

definition SetFakeDecStartValue :: "u32 \<Rightarrow> CoreTiming \<Rightarrow> CoreTiming" where
  "SetFakeDecStartValue val g = g\<lparr>s_fake_dec_start_value := val\<rparr>"

definition GetFakeDecStartTicks :: "CoreTiming \<Rightarrow> u64" where
  "GetFakeDecStartTicks g = s_fake_dec_start_ticks g"

definition SetFakeDecStartTicks :: "u64 \<Rightarrow> CoreTiming \<Rightarrow> CoreTiming" where
  "SetFakeDecStartTicks val g = g\<lparr>s_fake_dec_start_ticks := val\<rparr>"

definition GetFakeTBStartValue :: "CoreTiming \<Rightarrow> u64" where
  "GetFakeTBStartValue g = fake_TB_start_value g"

definition SetFakeTBStartValue :: "u64 \<Rightarrow> CoreTiming \<Rightarrow> CoreTiming" where
  "SetFakeTBStartValue val g = g\<lparr>fake_TB_start_value := val\<rparr>"

definition GetFakeTBStartTicks :: "CoreTiming \<Rightarrow> u64" where
  "GetFakeTBStartTicks g = fake_TB_start_ticks g"

definition SetFakeTBStartTicks :: "u64 \<Rightarrow> CoreTiming \<Rightarrow> CoreTiming" where
  "SetFakeTBStartTicks val g = g\<lparr>fake_TB_start_ticks := val\<rparr>"

subsection \<open>Exactness of the conversions\<close>

lemma round_even_of_int [simp]: "round_even (of_int n) = n"
  by (simp add: round_even_def)

lemma pow2_less: "pow2 e \<le> \<bar>of_int n\<bar> \<Longrightarrow> \<bar>n\<bar> < 2 ^ 24 \<Longrightarrow> e < 24"
proof (rule ccontr)
  assume a: "pow2 e \<le> \<bar>of_int n\<bar>" "\<bar>n\<bar> < 2 ^ 24" "\<not> e < 24"
  then have "(2::rat) ^ 24 \<le> 2 ^ nat e" by (intro power_increasing) auto
  also have "\<dots> = pow2 e" using a(3) by (simp add: pow2_def)
  also have "\<dots> \<le> of_int \<bar>n\<bar>" using a(1) by simp
  finally have "of_int (2 ^ 24) \<le> (of_int \<bar>n\<bar> :: rat)" by simp
  then have "2 ^ 24 \<le> \<bar>n\<bar>" by (simp only: of_int_le_iff)
  with a(2) show False by simp
qed

lemma f32_exponent_less: "\<bar>n\<bar> < 2 ^ 24 \<Longrightarrow> f32_exponent (of_int n) < 24"
  by (auto simp: f32_exponent_def find_Some_iff dest!: pow2_less split: option.splits)

lemma f32_of_int: "\<bar>n\<bar> < 2 ^ 24 \<Longrightarrow> f32 (of_int n) = of_int n"
proof -
  assume "\<bar>n\<bar> < 2 ^ 24"
  then have e: "f32_exponent (of_int n) - 23 \<le> 0" using f32_exponent_less [of n] by simp
  let ?k = "nat (23 - f32_exponent (of_int n))"
  have u: "pow2 (f32_exponent (of_int n) - 23) = 1 / 2 ^ ?k"
    using e by (auto simp: pow2_def)
  have "of_int n / (1 / 2 ^ ?k) = (of_int (n * 2 ^ ?k) :: rat)" by simp
  then show ?thesis by (simp only: f32_def Let_def u round_even_of_int) simp
qed

lemma trunc_of_int [simp]: "trunc_int (of_int n) = n"
  by (simp add: trunc_int_def)

text \<open>Without overclocking the conversions are exact for every count below \<open>2 ^ 24\<close>.\<close>

definition oc_off :: "CoreTiming \<Rightarrow> bool" where
  "oc_off g \<longleftrightarrow> s_last_OC_factor g = 1 \<and> last_OC_factor_inverted g = 1"

lemma conversions_exact:
  assumes "oc_off g" and "\<bar>n\<bar> < 2 ^ 24"
  shows "DowncountToCycles g n = n" and "CyclesToDowncount g n = n"
  using assms f32_of_int [OF assms(2)] by (simp_all add: DowncountToCycles_def CyclesToDowncount_def oc_off_def)

lemma set_OC_factor_off: "\<not> fst oc \<Longrightarrow> oc_off (set_OC_factor oc g)"
  using f32_of_int [of 1] by (simp add: set_OC_factor_def oc_off_def Let_def)

subsection \<open>The queue\<close>

text \<open>
  \<open>queue_ok g\<close>: the queue is a heap, and no two events in it have the same place in the order
  of arrival, nor has the next one to come.
\<close>

definition queue_ok :: "CoreTiming \<Rightarrow> bool" where
  "queue_ok g \<longleftrightarrow> is_heap ev_key (s_event_queue g) \<and> distinct (map fifo_order (s_event_queue g)) \<and>
     (\<forall>e \<in> set (s_event_queue g). fifo_order e < s_event_fifo_id g)"

lemma distinct_map_mset: "mset xs = mset ys \<Longrightarrow> distinct (map f xs) = distinct (map f ys)"
  by (metis mset_eq_imp_distinct_iff mset_map)

lemma enqueue_ok:
  assumes "queue_ok g" and "fifo_order e = s_event_fifo_id g"
  shows "queue_ok (enqueue e g)" and "mset (s_event_queue (enqueue e g)) = add_mset e (mset (s_event_queue g))"
proof -
  let ?q = "push_heap ev_key (s_event_queue g @ [e])"
  have m: "mset ?q = mset (s_event_queue g @ [e])" by (rule array_heap.push_mset)
  then show "mset (s_event_queue (enqueue e g)) = add_mset e (mset (s_event_queue g))" by (simp add: enqueue_def)
  have "distinct (map fifo_order ?q)"
    using assms by (auto simp: distinct_map_mset [OF m] queue_ok_def)
  then show "queue_ok (enqueue e g)"
    using assms array_heap.push_heap [of ev_key] array_heap.set_ops(1) [of ev_key]
    by (auto simp: queue_ok_def enqueue_def)
qed

lemma ForceExceptionCheck_fields [simp]:
  "s_event_queue (ForceExceptionCheck c g) = s_event_queue g" "s_event_fifo_id (ForceExceptionCheck c g) = s_event_fifo_id g"
  "s_ts_queue (ForceExceptionCheck c g) = s_ts_queue g" "global_timer (ForceExceptionCheck c g) = global_timer g"
  "s_is_global_timer_sane (ForceExceptionCheck c g) = s_is_global_timer_sane g"
  "oc_off (ForceExceptionCheck c g) = oc_off g" "queue_ok (ForceExceptionCheck c g) = queue_ok g"
  by (simp_all add: ForceExceptionCheck_def oc_off_def queue_ok_def Let_def)

lemma enqueue_fields [simp]:
  "s_ts_queue (enqueue e g) = s_ts_queue g" "global_timer (enqueue e g) = global_timer g"
  "s_is_global_timer_sane (enqueue e g) = s_is_global_timer_sane g" "oc_off (enqueue e g) = oc_off g"
  "slice_length (enqueue e g) = slice_length g" "downcount (enqueue e g) = downcount g"
  "s_event_fifo_id (enqueue e g) = s_event_fifo_id g + 1"
  by (simp_all add: enqueue_def oc_off_def)

lemma ScheduleEvent_cpu:
  assumes "queue_ok g"
  shows "queue_ok (ScheduleEvent c ty ud True g)"
    and "\<exists>e. ev_time e = GetTicks g + c \<and> ev_type e = ty \<and> userdata e = ud \<and>
      mset (s_event_queue (ScheduleEvent c ty ud True g)) = add_mset e (mset (s_event_queue g))"
  using assms by (auto simp: ScheduleEvent_def Let_def enqueue_ok)

lemma RemoveEvent_ok:
  assumes "queue_ok g"
  shows "queue_ok (RemoveEvent ty g)"
    and "mset (s_event_queue (RemoveEvent ty g)) = filter_mset (\<lambda>e. ev_type e \<noteq> ty) (mset (s_event_queue g))"
proof -
  let ?r = "filter (\<lambda>e. ev_type e \<noteq> ty) (s_event_queue g)"
  have m: "mset (make_heap ev_key ?r) = mset ?r" by (rule array_heap.make_mset)
  have "distinct (map fifo_order ?r)" using assms by (auto simp: queue_ok_def distinct_map_filter)
  then show "queue_ok (RemoveEvent ty g)"
    using assms array_heap.make_heap [of ev_key ?r] array_heap.set_ops(2) [of ev_key ?r]
    by (auto simp: RemoveEvent_def Let_def queue_ok_def distinct_map_mset [OF m])
  show "mset (s_event_queue (RemoveEvent ty g)) = filter_mset (\<lambda>e. ev_type e \<noteq> ty) (mset (s_event_queue g))"
  proof (cases "length ?r = length (s_event_queue g)")
    case True
    then have "?r = s_event_queue g" by (metis filter_id_conv length_filter_less less_irrefl)
    with True show ?thesis by (simp add: RemoveEvent_def Let_def flip: mset_filter)
  qed (simp add: RemoveEvent_def Let_def m)
qed

lemma RemoveEvent_fields [simp]:
  "s_ts_queue (RemoveEvent ty g) = s_ts_queue g" "global_timer (RemoveEvent ty g) = global_timer g"
  "s_is_global_timer_sane (RemoveEvent ty g) = s_is_global_timer_sane g" "oc_off (RemoveEvent ty g) = oc_off g"
  "slice_length (RemoveEvent ty g) = slice_length g" "downcount (RemoveEvent ty g) = downcount g"
  by (simp_all add: RemoveEvent_def oc_off_def Let_def)

lemma move_events_ok:
  "queue_ok g \<Longrightarrow> queue_ok (move_events evs g) \<and>
     image_mset (\<lambda>e. e\<lparr>fifo_order := 0\<rparr>) (mset (s_event_queue (move_events evs g))) =
     image_mset (\<lambda>e. e\<lparr>fifo_order := 0\<rparr>) (mset (s_event_queue g) + mset evs)"
proof (induction evs arbitrary: g)
  case (Cons e evs)
  let ?g1 = "enqueue (e\<lparr>fifo_order := s_event_fifo_id g\<rparr>) g"
  have "queue_ok ?g1" and "mset (s_event_queue ?g1) = add_mset (e\<lparr>fifo_order := s_event_fifo_id g\<rparr>) (mset (s_event_queue g))"
    using enqueue_ok [OF Cons(2)] by simp_all
  with Cons(1) [of ?g1] show ?case by simp
qed simp

lemma move_events_fields [simp]:
  "global_timer (move_events evs g) = global_timer g"
  "s_is_global_timer_sane (move_events evs g) = s_is_global_timer_sane g" "oc_off (move_events evs g) = oc_off g"
  "slice_length (move_events evs g) = slice_length g" "downcount (move_events evs g) = downcount g"
  by (induction evs arbitrary: g) simp_all

lemma MoveEvents_fields [simp]:
  "s_ts_queue (MoveEvents g) = []" "global_timer (MoveEvents g) = global_timer g"
  "s_is_global_timer_sane (MoveEvents g) = s_is_global_timer_sane g" "oc_off (MoveEvents g) = oc_off g"
  "slice_length (MoveEvents g) = slice_length g" "downcount (MoveEvents g) = downcount g"
  using move_events_fields [of "s_ts_queue g" g]
  by (simp_all add: MoveEvents_def oc_off_def del: move_events_fields)

lemma MoveEvents_ok: "queue_ok g \<Longrightarrow> queue_ok (MoveEvents g)"
  using move_events_ok [of g "s_ts_queue g"] by (simp add: MoveEvents_def queue_ok_def)

lemma MoveEvents_none: "s_ts_queue g = [] \<Longrightarrow> MoveEvents g = g"
  by (simp add: MoveEvents_def)

subsection \<open>The clock\<close>

text \<open>
  Without overclocking: what is left of the slice is at most the slice, and both are small
  enough for the conversions to be exact.
\<close>

definition clock_ok :: "CoreTiming \<Rightarrow> bool" where
  "clock_ok g \<longleftrightarrow> oc_off g \<and> 0 \<le> slice_length g \<and> - (2 ^ 23) < downcount g \<and> downcount g \<le> slice_length g \<and> slice_length g \<le> MAX_SLICE_LENGTH"

lemma clock_ok_exact:
  assumes "clock_ok g"
  shows "DowncountToCycles g (downcount g) = downcount g"
    and "0 \<le> c \<Longrightarrow> c < 2 ^ 24 \<Longrightarrow> CyclesToDowncount g c = c"
proof -
  have "\<bar>downcount g\<bar> < 2 ^ 24" and o: "oc_off g" using assms by (auto simp: clock_ok_def MAX_SLICE_LENGTH_def)
  then show "DowncountToCycles g (downcount g) = downcount g" by (simp add: conversions_exact)
  show "0 \<le> c \<Longrightarrow> c < 2 ^ 24 \<Longrightarrow> CyclesToDowncount g c = c" using o by (simp add: conversions_exact)
qed

lemma clock_ok_fields [simp]: "clock_ok (enqueue e g) = clock_ok g" "clock_ok (RemoveEvent ty g) = clock_ok g"
  "clock_ok (MoveEvents g) = clock_ok g"
  by (simp_all add: clock_ok_def)

lemma GetTicks_clock: "clock_ok g \<Longrightarrow> \<not> s_is_global_timer_sane g \<Longrightarrow> GetTicks g = global_timer g + slice_length g - downcount g"
  by (simp add: GetTicks_def clock_ok_exact)

text \<open>Ending the slice early moves its end and does not move the present.\<close>

lemma ForceExceptionCheck_clock:
  assumes "clock_ok g"
  shows "clock_ok (ForceExceptionCheck c g)"
    and "slice_length (ForceExceptionCheck c g) - downcount (ForceExceptionCheck c g) = slice_length g - downcount g"
    and "downcount (ForceExceptionCheck c g) \<le> max 0 c"
    and "downcount (ForceExceptionCheck c g) \<le> downcount g"
proof -
  have r: "- (2 ^ 23) < downcount g" "downcount g \<le> slice_length g" "slice_length g \<le> 20000"
    using assms by (simp_all add: clock_ok_def MAX_SLICE_LENGTH_def)
  have c: "CyclesToDowncount g (max 0 c) = max 0 c" if "max 0 c < downcount g"
    using that r clock_ok_exact(2) [OF assms, of "max 0 c"] by simp
  have "ForceExceptionCheck c g = (if downcount g > max 0 c then
      g\<lparr>slice_length := slice_length g - (downcount g - max 0 c), downcount := max 0 c\<rparr> else g)"
    using c by (auto simp: ForceExceptionCheck_def Let_def clock_ok_exact(1) [OF assms])
  with r assms show "clock_ok (ForceExceptionCheck c g)"
    "slice_length (ForceExceptionCheck c g) - downcount (ForceExceptionCheck c g) = slice_length g - downcount g"
    "downcount (ForceExceptionCheck c g) \<le> max 0 c" "downcount (ForceExceptionCheck c g) \<le> downcount g"
    by (auto simp: clock_ok_def oc_off_def MAX_SLICE_LENGTH_def)
qed

lemma ScheduleEvent_clock: "clock_ok g \<Longrightarrow> clock_ok (ScheduleEvent c ty ud b g)"
  by (simp add: ScheduleEvent_def Let_def ForceExceptionCheck_clock) (simp add: clock_ok_def oc_off_def)

subsection \<open>Calls from callbacks\<close>

text \<open>The events that are due, and a callback that only schedules events for later.\<close>

definition due :: "CoreTiming \<Rightarrow> Event multiset" where
  "due g = filter_mset (\<lambda>e. ev_time e \<le> global_timer g) (mset (s_event_queue g))"

definition in_future :: "ct_call \<Rightarrow> bool" where
  "in_future c = (case c of Schedule_call n _ _ \<Rightarrow> 0 < n | _ \<Rightarrow> True)"

definition no_removal :: "ct_call \<Rightarrow> bool" where
  "no_removal c = (case c of Remove_call _ \<Rightarrow> False | RemoveAll_call _ \<Rightarrow> False | _ \<Rightarrow> True)"

definition future_only :: "'w callback \<Rightarrow> bool" where
  "future_only cb \<longleftrightarrow> (\<forall>ty ud late w. list_all in_future (fst (cb ty ud late w)))"

definition never_removes :: "'w callback \<Rightarrow> bool" where
  "never_removes cb \<longleftrightarrow> (\<forall>ty ud late w. list_all no_removal (fst (cb ty ud late w)))"

text \<open>The state inside \<open>Advance\<close>, and what the loop keeps of it.\<close>

definition advancing :: "CoreTiming \<Rightarrow> bool" where
  "advancing g \<longleftrightarrow> queue_ok g \<and> clock_ok g \<and> s_is_global_timer_sane g \<and> s_ts_queue g = []"

definition loop_keeps :: "CoreTiming \<Rightarrow> CoreTiming \<Rightarrow> bool" where
  "loop_keeps g g' \<longleftrightarrow> advancing g' \<and> global_timer g' = global_timer g \<and> due g' \<subseteq># due g"

lemma ct_exec_keeps:
  assumes "advancing g" and "in_future c"
  shows "loop_keeps g (ct_exec c g) \<and> (no_removal c \<longrightarrow> due (ct_exec c g) = due g)"
proof (cases c)
  case (Schedule_call n ty ud)
  have s: "s_is_global_timer_sane g" "queue_ok g" using assms(1) by (simp_all add: advancing_def)
  then obtain e where e: "ev_time e = global_timer g + n"
      "mset (s_event_queue (ScheduleEvent n ty ud True g)) = add_mset e (mset (s_event_queue g))"
    using ScheduleEvent_cpu(2) [OF s(2), of n ty ud] by (auto simp: GetTicks_def)
  have "global_timer (ScheduleEvent n ty ud True g) = global_timer g" "s_ts_queue (ScheduleEvent n ty ud True g) = s_ts_queue g"
    "s_is_global_timer_sane (ScheduleEvent n ty ud True g)"
    using s(1) by (simp_all add: ScheduleEvent_def Let_def)
  with assms e show ?thesis
    by (simp add: Schedule_call loop_keeps_def advancing_def due_def in_future_def ScheduleEvent_cpu(1) ScheduleEvent_clock)
next
  case (Remove_call ty)
  with assms show ?thesis
    by (auto simp: loop_keeps_def advancing_def due_def no_removal_def RemoveEvent_ok intro!: multiset_filter_mono)
next
  case (RemoveAll_call ty)
  with assms show ?thesis
    by (auto simp: loop_keeps_def advancing_def due_def no_removal_def RemoveEvent_ok RemoveAllEvents_def MoveEvents_none
        intro!: multiset_filter_mono)
next
  case (Force_call n)
  with assms show ?thesis
    by (simp add: loop_keeps_def advancing_def due_def ForceExceptionCheck_clock)
qed

lemma fold_ct_exec_keeps:
  assumes "advancing g" and "list_all in_future cs"
  shows "loop_keeps g (fold ct_exec cs g) \<and> (list_all no_removal cs \<longrightarrow> due (fold ct_exec cs g) = due g)"
  using assms
proof (induction cs arbitrary: g)
  case Nil
  then show ?case by (simp add: loop_keeps_def)
next
  case (Cons c cs)
  have 1: "loop_keeps g (ct_exec c g)" "no_removal c \<longrightarrow> due (ct_exec c g) = due g"
    using ct_exec_keeps [OF Cons(2)] Cons(3) by simp_all
  then have "advancing (ct_exec c g)" by (simp add: loop_keeps_def)
  from Cons(1) [OF this] Cons(3) 1 show ?case
    by (auto simp: loop_keeps_def intro: subset_mset.order_trans)
qed

subsection \<open>The loop of \<open>Advance\<close>\<close>

text \<open>Taking out the first event leaves the others.\<close>

lemma pop_first:
  assumes "advancing g" and "s_event_queue g \<noteq> []" and "ev_time (hd (s_event_queue g)) \<le> global_timer g"
    and "g1 = g\<lparr>s_event_queue := butlast (pop_heap ev_key (s_event_queue g))\<rparr>"
  shows "advancing g1" and "due g = add_mset (hd (s_event_queue g)) (due g1)"
    and "\<forall>e \<in># due g1. ev_key (hd (s_event_queue g)) < ev_key e"
proof -
  let ?q = "s_event_queue g" and ?q1 = "butlast (pop_heap ev_key (s_event_queue g))"
  have q: "queue_ok g" using assms(1) by (simp add: advancing_def)
  have m: "mset ?q1 = mset ?q - {#hd ?q#}" by (rule array_heap.pop_rest [OF assms(2)])
  have a: "mset ?q = add_mset (hd ?q) (mset ?q1)" unfolding m using assms(2) by simp
  have dis: "distinct (map fifo_order (hd ?q # ?q1))"
    using q a distinct_map_mset [of "hd ?q # ?q1" ?q fifo_order] by (simp add: queue_ok_def)
  have sub: "set ?q1 \<subseteq> set ?q" using mset_eq_setD [of "hd ?q # ?q1" ?q] a by auto
  have "queue_ok g1"
    using q dis sub array_heap.pop_heap [of ev_key ?q] by (auto simp: queue_ok_def assms(4))
  then show "advancing g1"
    using assms(1) by (simp add: advancing_def assms(4)) (simp add: clock_ok_def oc_off_def)
  show "due g = add_mset (hd ?q) (due g1)" using a assms(3) by (simp add: due_def assms(4))
  show "\<forall>e \<in># due g1. ev_key (hd ?q) < ev_key e"
  proof
    fix e assume "e \<in># due g1"
    then have e: "e \<in> set ?q1" by (auto simp: due_def assms(4))
    with sub have "ev_key (hd ?q) \<le> ev_key e"
      using array_heap.front_least [of ev_key ?q e] q by (auto simp: queue_ok_def)
    moreover have "fifo_order (hd ?q) \<noteq> fifo_order e" using dis e by force
    ultimately show "ev_key (hd ?q) < ev_key e" by (auto simp: ev_key_def less_le)
  qed
qed

definition fired_ok :: "CoreTiming \<Rightarrow> Event list \<Rightarrow> bool" where
  "fired_ok g evs \<longleftrightarrow> mset evs \<subseteq># due g \<and> sorted_wrt (\<lambda>a b. ev_key a < ev_key b) evs"

lemma Advance_loop_fires:
  assumes "future_only cb" and "advancing g"
  shows "\<exists>evs g' w'. Advance_loop cb g w = Some (evs, g', w') \<and> loop_keeps g g' \<and> due g' = {#} \<and> fired_ok g evs \<and>
    (never_removes cb \<longrightarrow> mset evs = due g)"
  using assms(2)
proof (induction "size (due g)" arbitrary: g w rule: less_induct)
  case less
  let ?e = "hd (s_event_queue g)"
  show ?case
  proof (cases "s_event_queue g \<noteq> [] \<and> ev_time ?e \<le> global_timer g")
    case False
    have "e \<notin># due g" for e
    proof
      assume "e \<in># due g"
      then have e: "e \<in> set (s_event_queue g)" "ev_time e \<le> global_timer g" by (auto simp: due_def)
      then have "ev_key ?e \<le> ev_key e"
        using array_heap.front_least [of ev_key] less(2) by (auto simp: advancing_def queue_ok_def)
      then have "ev_time ?e \<le> ev_time e" by (auto simp: ev_key_def less_eq_prod_def)
      with e False show False by auto
    qed
    then have "due g = {#}" by (metis multiset_nonemptyE)
    with False less(2) show ?thesis
      by (subst Advance_loop.simps) (auto simp: loop_keeps_def fired_ok_def)
  next
    case True
    define g1 where "g1 = g\<lparr>s_event_queue := butlast (pop_heap ev_key (s_event_queue g))\<rparr>"
    define r where "r = cb (ev_type ?e) (userdata ?e) (global_timer g1 - ev_time ?e) w"
    let ?g2 = "fold ct_exec (fst r) g1"
    note p = pop_first [OF less(2) _ _ g1_def]
    have f: "list_all in_future (fst r)" using assms(1) by (simp add: future_only_def r_def)
    have k: "loop_keeps g1 ?g2" "list_all no_removal (fst r) \<longrightarrow> due ?g2 = due g1"
      using fold_ct_exec_keeps [OF p(1) f] True by simp_all
    have d: "due g = add_mset ?e (due g1)" using p(2) True by simp
    have "size (due ?g2) < size (due g)"
      using k(1) d size_mset_mono [of "due ?g2" "due g1"] by (simp add: loop_keeps_def)
    from less(1) [OF this, of "snd r"] k(1) obtain evs g' w' where
      l: "Advance_loop cb ?g2 (snd r) = Some (evs, g', w')" "loop_keeps ?g2 g'" "due g' = {#}" "fired_ok ?g2 evs"
        "never_removes cb \<longrightarrow> mset evs = due ?g2"
      by (auto simp: loop_keeps_def)
    have "Advance_loop cb g w = Some (?e # evs, g', w')"
      using True l(1) by (subst Advance_loop.simps) (simp add: Let_def flip: g1_def r_def)
    moreover have "loop_keeps g g'"
      using k(1) l(2) d by (auto simp: loop_keeps_def g1_def l(3))
    moreover have sub: "mset evs \<subseteq># due g1"
      using l(4) k(1) by (auto simp: fired_ok_def loop_keeps_def intro: subset_mset.order_trans)
    then have "fired_ok g (?e # evs)"
      using l(4) p(3) True d by (auto simp: fired_ok_def dest: mset_subset_eqD)
    moreover have "never_removes cb \<longrightarrow> mset (?e # evs) = due g"
      using l(5) k(2) d by (simp add: never_removes_def r_def)
    ultimately show ?thesis using l(3) by blast
  qed
qed

subsection \<open>Advance\<close>

lemma Advance_begin_ok:
  assumes "queue_ok g" and "clock_ok g" and "\<not> fst oc"
  shows "advancing (Advance_begin oc g)"
    and "global_timer (Advance_begin oc g) = global_timer g + slice_length g - downcount g"
    and "due (Advance_begin oc g) =
      filter_mset (\<lambda>e. ev_time e \<le> global_timer g + slice_length g - downcount g) (mset (s_event_queue (MoveEvents g)))"
proof -
  let ?g1 = "MoveEvents g"
  have c: "clock_ok ?g1" "queue_ok ?g1" using assms by (simp_all add: MoveEvents_ok)
  have d: "DowncountToCycles ?g1 (downcount g) = downcount g" using clock_ok_exact(1) [OF c(1)] by simp
  have o: "oc_off (set_OC_factor oc x)" for x by (rule set_OC_factor_off [OF assms(3)])
  then show "advancing (Advance_begin oc g)"
    using c assms(2) by (auto simp: advancing_def Advance_begin_def Let_def clock_ok_def queue_ok_def set_OC_factor_def oc_off_def MAX_SLICE_LENGTH_def)
  show "global_timer (Advance_begin oc g) = global_timer g + slice_length g - downcount g"
    and "due (Advance_begin oc g) =
      filter_mset (\<lambda>e. ev_time e \<le> global_timer g + slice_length g - downcount g) (mset (s_event_queue ?g1))"
    by (simp_all add: Advance_begin_def set_OC_factor_def due_def d Let_def algebra_simps)
qed

text \<open>The slice ends no later than any event.\<close>

definition slice_ok :: "CoreTiming \<Rightarrow> bool" where
  "slice_ok g \<longleftrightarrow> (\<forall>e \<in> set (s_event_queue g). global_timer g + slice_length g \<le> ev_time e)"

lemma Advance_end_ok:
  assumes "advancing g" and "due g = {#}"
  shows "queue_ok (Advance_end g) \<and> clock_ok (Advance_end g) \<and> slice_ok (Advance_end g) \<and>
    \<not> s_is_global_timer_sane (Advance_end g) \<and> s_event_queue (Advance_end g) = s_event_queue g \<and>
    global_timer (Advance_end g) = global_timer g \<and> downcount (Advance_end g) = slice_length (Advance_end g) \<and>
    (s_event_queue g \<noteq> [] \<longrightarrow> 0 < slice_length (Advance_end g))"
proof -
  let ?q = "s_event_queue g"
  let ?s = "if ?q \<noteq> [] then min (ev_time (hd ?q) - global_timer g) MAX_SLICE_LENGTH else slice_length g"
  have late: "global_timer g < ev_time e" if "e \<in> set ?q" for e
    using assms(2) that by (auto simp: due_def)
  have c: "clock_ok g" and q: "queue_ok g" using assms(1) by (simp_all add: advancing_def)
  have "?q \<noteq> [] \<Longrightarrow> global_timer g < ev_time (hd ?q)" by (simp add: late)
  with c have s: "\<bar>?s\<bar> < 2 ^ 24" "0 \<le> ?s" "?s \<le> MAX_SLICE_LENGTH" "?q \<noteq> [] \<longrightarrow> 0 < ?s"
    by (auto simp: clock_ok_def MAX_SLICE_LENGTH_def)
  have o: "oc_off (g\<lparr>s_is_global_timer_sane := False, slice_length := ?s\<rparr>)" using c by (simp add: clock_ok_def oc_off_def)
  have e: "Advance_end g = g\<lparr>s_is_global_timer_sane := False, slice_length := ?s, downcount := ?s\<rparr>"
    using conversions_exact(2) [OF o s(1)] by (auto simp: Advance_end_def Let_def)
  have "ev_time (hd ?q) \<le> ev_time x" if "x \<in> set ?q" for x
    using array_heap.front_least [of ev_key ?q x] q that by (auto simp: queue_ok_def ev_key_def less_eq_prod_def)
  then have "slice_ok (Advance_end g)" unfolding slice_ok_def e by (auto simp: min_le_iff_disj) force
  moreover have "clock_ok (Advance_end g)" using o s unfolding e by (simp add: clock_ok_def oc_off_def)
  ultimately show ?thesis using q s(4) by (simp add: e queue_ok_def)
qed

lemma Advance_ok:
  assumes "queue_ok g" and "clock_ok g" and "\<not> fst oc" and "future_only cb"
  obtains evs g' w' where "Advance oc cb g w = Some (evs, g', w')" "queue_ok g'" "clock_ok g'" "slice_ok g'"
    "\<not> s_is_global_timer_sane g'" "global_timer g' = global_timer g + slice_length g - downcount g"
    "downcount g' = slice_length g'" "\<forall>e \<in> set (s_event_queue g'). global_timer g' < ev_time e"
    "s_event_queue g' \<noteq> [] \<longrightarrow> 0 < slice_length g'"
    "fired_ok (Advance_begin oc g) evs" "never_removes cb \<longrightarrow> mset evs = due (Advance_begin oc g)"
proof -
  let ?g0 = "Advance_begin oc g"
  note b = Advance_begin_ok [OF assms(1-3)]
  obtain evs g1 w1 where l: "Advance_loop cb ?g0 w = Some (evs, g1, w1)" "loop_keeps ?g0 g1" "due g1 = {#}"
      "fired_ok ?g0 evs" "never_removes cb \<longrightarrow> mset evs = due ?g0"
    using Advance_loop_fires [OF assms(4) b(1)] by blast
  from l(2) have "advancing g1" "global_timer g1 = global_timer ?g0" by (simp_all add: loop_keeps_def)
  note e = Advance_end_ok [OF this(1) l(3)]
  show thesis
  proof (rule that [of evs "Advance_end g1" w1])
    show "Advance oc cb g w = Some (evs, Advance_end g1, w1)" by (simp add: Advance_def l(1))
    show "\<forall>e \<in> set (s_event_queue (Advance_end g1)). global_timer (Advance_end g1) < ev_time e"
      using l(3) e by (auto simp: due_def)
  qed (use e l b(2) \<open>global_timer g1 = global_timer ?g0\<close> in auto)
qed

subsection \<open>The states of the scheduler\<close>

text \<open>
  \<open>ct_reach oc cb m g\<close>: a state between two calls, with the settings \<open>oc\<close> and the callbacks
  \<open>cb\<close>. The CPU runs (\<open>run\<close>), calls the functions, and advances; other threads schedule
  events. \<open>m\<close> tells that \<open>RemoveAllEvents\<close> has moved events of other threads into the queue
  since the last \<open>Advance\<close>: those may lie before the end of the slice. A change of the clock
  rate, which rescales the queue, is apart.
\<close>

inductive ct_reach :: "bool \<times> rat \<Rightarrow> 'w callback \<Rightarrow> bool \<Rightarrow> CoreTiming \<Rightarrow> bool" for oc cb where
  init: "s_event_queue g = [] \<Longrightarrow> ct_reach oc cb False (Init oc g)"
| run: "ct_reach oc cb m g \<Longrightarrow> 0 \<le> n \<Longrightarrow> - (2 ^ 23) < downcount g - n \<Longrightarrow>
    ct_reach oc cb m (g\<lparr>downcount := downcount g - n\<rparr>)"
| schedule: "ct_reach oc cb m g \<Longrightarrow> 0 \<le> c \<Longrightarrow> ct_reach oc cb m (ScheduleEvent c ty ud True g)"
| other_thread: "ct_reach oc cb m g \<Longrightarrow> ct_reach oc cb m (ScheduleEvent c ty ud False g)"
| remove: "ct_reach oc cb m g \<Longrightarrow> ct_reach oc cb m (RemoveEvent ty g)"
| remove_all: "ct_reach oc cb m g \<Longrightarrow> ct_reach oc cb True (RemoveAllEvents ty g)"
| clear: "ct_reach oc cb m g \<Longrightarrow> ct_reach oc cb m (ClearPendingEvents g)"
| force: "ct_reach oc cb m g \<Longrightarrow> ct_reach oc cb m (ForceExceptionCheck c g)"
| idle: "ct_reach oc cb m g \<Longrightarrow> 0 \<le> downcount g \<Longrightarrow> ct_reach oc cb m (Idle g)"
| advance: "ct_reach oc cb m g \<Longrightarrow> Advance oc cb g w = Some (evs, g', w') \<Longrightarrow> ct_reach oc cb False g'"

definition ct_inv :: "bool \<Rightarrow> CoreTiming \<Rightarrow> bool" where
  "ct_inv m g \<longleftrightarrow> queue_ok g \<and> clock_ok g \<and> (\<not> m \<and> \<not> s_is_global_timer_sane g \<longrightarrow> slice_ok g)"

lemma ct_inv_schedule:
  assumes "ct_inv m g" and "0 \<le> c"
  shows "ct_inv m (ScheduleEvent c ty ud True g)"
proof -
  have q: "queue_ok g" and k: "clock_ok g" using assms(1) by (simp_all add: ct_inv_def)
  let ?g' = "ScheduleEvent c ty ud True g"
  have "slice_ok ?g'" if "\<not> m" and s: "\<not> s_is_global_timer_sane ?g'"
  proof -
    have n: "\<not> s_is_global_timer_sane g" using s by (simp add: ScheduleEvent_def Let_def split: if_splits)
    with assms(1) \<open>\<not> m\<close> have "slice_ok g" by (simp add: ct_inv_def)
    let ?f = "ForceExceptionCheck c g"
    have g': "slice_length ?g' = slice_length ?f" "global_timer ?g' = global_timer g"
      using n by (simp_all add: ScheduleEvent_def Let_def)
    obtain e where e: "ev_time e = GetTicks g + c" "mset (s_event_queue ?g') = add_mset e (mset (s_event_queue g))"
      using ScheduleEvent_cpu(2) [OF q, of c ty ud] by auto
    then have "set (s_event_queue ?g') = insert e (set (s_event_queue g))" by (metis set_mset_add_mset_insert set_mset_mset)
    moreover have "global_timer g + slice_length ?f \<le> ev_time e"
      using ForceExceptionCheck_clock(2,3) [OF k, of c] assms(2) e(1) GetTicks_clock [OF k n] by simp
    moreover have "slice_length ?f \<le> slice_length g" using ForceExceptionCheck_clock(2,4) [OF k, of c] by linarith
    ultimately show ?thesis using \<open>slice_ok g\<close> by (force simp: slice_ok_def g')
  qed
  then show ?thesis using ScheduleEvent_cpu(1) [OF q] ScheduleEvent_clock [OF k] by (simp add: ct_inv_def)
qed

lemma ct_reach_inv:
  assumes "ct_reach oc cb m g" and "\<not> fst oc" and "future_only cb"
  shows "ct_inv m g"
  using assms(1)
proof (induction rule: ct_reach.induct)
  case (init g)
  have "oc_off (set_OC_factor oc g)" by (rule set_OC_factor_off [OF assms(2)])
  then show ?case
    using conversions_exact(2) [of "set_OC_factor oc g" 20000] init
    by (auto simp: ct_inv_def Init_def RegisterEvent_def queue_ok_def clock_ok_def set_OC_factor_def oc_off_def is_heap_def
        slice_ok_def Let_def MAX_SLICE_LENGTH_def)
next
  case (run m g n)
  then show ?case by (auto simp: ct_inv_def queue_ok_def clock_ok_def slice_ok_def oc_off_def)
next
  case (schedule m g c ty ud)
  then show ?case by (simp add: ct_inv_schedule)
next
  case (other_thread m g c ty ud)
  then show ?case by (auto simp: ct_inv_def ScheduleEvent_def queue_ok_def clock_ok_def slice_ok_def oc_off_def)
next
  case (remove m g ty)
  then have "queue_ok g" by (simp add: ct_inv_def)
  then have "set (s_event_queue (RemoveEvent ty g)) \<subseteq> set (s_event_queue g)"
    using RemoveEvent_ok(2) [of g ty] by (metis (no_types, lifting) filter_is_subset mset_eq_setD mset_filter)
  with remove show ?case by (auto simp: ct_inv_def RemoveEvent_ok(1) slice_ok_def)
next
  case (remove_all m g ty)
  then show ?case by (simp add: ct_inv_def RemoveAllEvents_def RemoveEvent_ok MoveEvents_ok)
next
  case (clear m g)
  then show ?case by (simp add: ct_inv_def ClearPendingEvents_def queue_ok_def clock_ok_def slice_ok_def oc_off_def is_heap_def)
next
  case (force m g c)
  then have k: "clock_ok g" by (simp add: ct_inv_def)
  have "slice_length (ForceExceptionCheck c g) \<le> slice_length g"
    using ForceExceptionCheck_clock(2,4) [OF k, of c] by linarith
  with force k show ?case by (force simp: ct_inv_def ForceExceptionCheck_clock(1) slice_ok_def)
next
  case (idle m g)
  then show ?case by (auto simp: ct_inv_def Idle_def queue_ok_def clock_ok_def slice_ok_def oc_off_def)
next
  case (advance m g w evs g' w')
  then have "queue_ok g" "clock_ok g" by (simp_all add: ct_inv_def)
  from Advance_ok [OF this assms(2,3), of w] advance(2) show ?case by (auto simp: ct_inv_def)
qed


lemma ct_reach_ok:
  assumes "ct_reach oc cb m g" and "\<not> fst oc" and "future_only cb"
  shows "queue_ok g" and "clock_ok g" and "\<not> m \<Longrightarrow> \<not> s_is_global_timer_sane g \<Longrightarrow> slice_ok g"
  using ct_reach_inv [OF assms] by (simp_all add: ct_inv_def)

text \<open>
  C1. In every state the scheduler reaches without overclocking, with callbacks that schedule
  only into the future, as long as the CPU schedules no event into the past and the clock rate is not changed
  (\<open>AdjustEventQueueTimes\<close>, after which the order of arrival may be lost): the queue is a heap ordered by time and order of arrival, no two
  events have the same place in that order, and, outside of \<open>Advance\<close>, the slice the CPU is
  executing ends no later than any queued event (unless \<open>RemoveAllEvents\<close> has moved events of
  other threads into the queue since the slice began), so that as long as the slice is not
  over no event is overdue.
\<close>

theorem event_queue_invariant:
  assumes "ct_reach oc cb m g" and "\<not> fst oc" and "future_only cb"
  shows "is_heap ev_key (s_event_queue g) \<and> distinct (map ev_key (s_event_queue g)) \<and>
    (\<not> m \<longrightarrow> \<not> s_is_global_timer_sane g \<longrightarrow> e \<in> set (s_event_queue g) \<longrightarrow>
       global_timer g + slice_length g \<le> ev_time e \<and> (0 \<le> downcount g \<longrightarrow> GetTicks g \<le> ev_time e))"
proof -
  note ok = ct_reach_ok [OF assms]
  have "distinct (map fifo_order (s_event_queue g))" using ok(1) by (simp add: queue_ok_def)
  then have "distinct (map snd (map ev_key (s_event_queue g)))" by (simp add: ev_key_def comp_def)
  then have "distinct (map ev_key (s_event_queue g))" by (simp only: distinct_map)
  moreover have "GetTicks g \<le> ev_time e"
    if "global_timer g + slice_length g \<le> ev_time e" "0 \<le> downcount g" "\<not> s_is_global_timer_sane g"
    using that GetTicks_clock [OF ok(2)] by simp
  ultimately show ?thesis using ok by (auto simp: queue_ok_def slice_ok_def)
qed

definition quiet :: "unit callback" where "quiet ty ud late w = ([], w)"

definition blank :: CoreTiming where
  "blank = \<lparr>s_event_types = [], s_event_queue = [], s_event_fifo_id = 7, s_ts_queue = [], s_last_OC_factor = 0,
     s_idled_cycles = 0, s_fake_dec_start_value = 0, s_fake_dec_start_ticks = 0, s_is_global_timer_sane = False,
     global_timer = 3, slice_length = 0, fake_TB_start_value = 0, fake_TB_start_ticks = 0,
     last_OC_factor_inverted = 0, downcount = 0\<rparr>"

lemma quiet_ok: "future_only quiet" "never_removes quiet"
  by (simp_all add: future_only_def never_removes_def quiet_def)

definition two_events :: "int \<Rightarrow> int \<Rightarrow> CoreTiming" where
  "two_events c c' = ScheduleEvent c' ''second'' 2 True (ScheduleEvent c ''first'' 1 True (Init (False, 1) blank))"

lemma f32_small: "f32 0 = 0" "f32 1 = 1" "f32 3 = 3" "f32 20000 = 20000"
  using f32_of_int [of 0] f32_of_int [of 1] f32_of_int [of 3] f32_of_int [of 20000] by simp_all

lemma trunc_small: "trunc_int 0 = 0" "trunc_int (numeral k) = numeral k"
  using trunc_of_int [of 0] trunc_of_int [of "numeral k"] by simp_all

lemmas ct_eval = f32_small trunc_small MAX_SLICE_LENGTH_def set_OC_factor_def DowncountToCycles_def CyclesToDowncount_def
  Init_def RegisterEvent_def blank_def ScheduleEvent_def GetTicks_def enqueue_def push_heap_def pop_heap_def sift_up.simps
  sift_down.simps least_child_def swap_at_def ev_key_def two_events_def quiet_def MoveEvents_def Advance_def Advance_begin_def
  Advance_end_def AdjustEventQueueTimes_def

lemma two_events_reach: "0 \<le> c \<Longrightarrow> 0 \<le> c' \<Longrightarrow> ct_reach (False, 1) quiet False (two_events c c')"
  unfolding two_events_def by (intro ct_reach.schedule ct_reach.init) (simp_all add: blank_def)

theorem event_queue_invariant_witness:
  "is_heap ev_key (s_event_queue (two_events 9 4)) \<and> distinct (map ev_key (s_event_queue (two_events 9 4)))"
  using event_queue_invariant [OF two_events_reach [of 9 4] _ quiet_ok(1)] by simp

text \<open>
  C17. Without overclocking, with callbacks that schedule only into the future, and in the states that are reached without a change
  of the clock rate (\<open>AdjustEventQueueTimes\<close>) and without events that the CPU schedules into the past, \<open>Advance\<close> returns. It moves the time forward by the cycles executed, and calls the
  callbacks of queued events that are due, each once, in the order of their times and of
  their arrival where times are equal; it calls those of all events that were due if no callback removes
  events. Every event left is in the future, and the new slice, of at most
  \<open>MAX_SLICE_LENGTH\<close> cycles, is over when the next of them is due at the latest, but never at once.
\<close>

theorem Advance_fires_due_events:
  assumes "ct_reach oc cb m g" and "\<not> fst oc" and "future_only cb"
  shows "\<exists>evs g' w'. Advance oc cb g w = Some (evs, g', w') \<and>
    (let now = global_timer g + slice_length g - downcount g;
         pending = filter_mset (\<lambda>e. ev_time e \<le> now) (mset (s_event_queue (MoveEvents g)))
     in global_timer g' = now \<and> mset evs \<subseteq># pending \<and> (never_removes cb \<longrightarrow> mset evs = pending) \<and>
        sorted_wrt (\<lambda>a b. ev_key a < ev_key b) evs \<and>
        (\<forall>e \<in> set (s_event_queue g'). now < ev_time e \<and> now + slice_length g' \<le> ev_time e) \<and>
        (s_event_queue g' \<noteq> [] \<longrightarrow> 0 < slice_length g') \<and> 0 \<le> slice_length g' \<and> slice_length g' \<le> MAX_SLICE_LENGTH \<and> downcount g' = slice_length g')"
proof -
  note ok = ct_reach_ok [OF assms]
  obtain evs g' w' where a: "Advance oc cb g w = Some (evs, g', w')" "clock_ok g'" "slice_ok g'" "s_event_queue g' \<noteq> [] \<longrightarrow> 0 < slice_length g'"
      "global_timer g' = global_timer g + slice_length g - downcount g" "downcount g' = slice_length g'"
      "\<forall>e \<in> set (s_event_queue g'). global_timer g' < ev_time e"
      "fired_ok (Advance_begin oc g) evs" "never_removes cb \<longrightarrow> mset evs = due (Advance_begin oc g)"
    using Advance_ok [OF ok(1,2) assms(2,3), of w] by metis
  then show ?thesis
    unfolding Let_def by (auto simp: fired_ok_def slice_ok_def clock_ok_def Advance_begin_ok(3) [OF ok(1,2) assms(2)])
qed

theorem Advance_fires_due_events_witness:
  "\<exists>evs g' w'. Advance (False, 1) quiet (two_events 0 4) () = Some (evs, g', w') \<and> sorted_wrt (\<lambda>a b. ev_key a < ev_key b) evs \<and>
     (\<forall>e \<in> set (s_event_queue g'). global_timer g' + slice_length g' \<le> ev_time e)"
  using Advance_fires_due_events [OF two_events_reach [of 0 4] _ quiet_ok(1), of "()"] by (auto simp: Let_def)

subsection \<open>A change of the clock\<close>

lemma quot_mono: "(a::int) \<le> b \<Longrightarrow> 0 < k \<Longrightarrow>
    (if a < 0 then - (- a div k) else a div k) \<le> (if b < 0 then - (- b div k) else b div k)"
  by (auto intro: zdiv_mono1 simp: pos_imp_zdiv_nonneg_iff)
     (meson div_int_pos_iff le_less_linear less_imp_le neg_0_le_iff_le neg_le_0_iff_le order_trans)

text \<open>
  A change of the clock rate, which rescales the time left to every event in place, keeps
  the queue ordered by time; it keeps the queue's order, and with it the rule that events of equal time
  fire in the order of their arrival, if no two events of different times are given the same time.
\<close>

theorem AdjustEventQueueTimes_order:
  assumes "queue_ok g" and "0 < old"
  shows "is_heap ev_time (s_event_queue (AdjustEventQueueTimes new old g)) \<and>
    (distinct (map ev_time (s_event_queue (AdjustEventQueueTimes new old g))) \<longrightarrow> queue_ok (AdjustEventQueueTimes new old g))"
proof -
  let ?q = "s_event_queue g" and ?q' = "s_event_queue (AdjustEventQueueTimes new old g)"
  have k: "0 < uint old" using assms(2) by (simp add: word_less_def)
  have n: "length ?q' = length ?q" "map fifo_order ?q' = map fifo_order ?q"
    by (simp_all add: AdjustEventQueueTimes_def comp_def Let_def)
  have m: "ev_time (?q' ! i) \<le> ev_time (?q' ! j)" if "i < length ?q" "j < length ?q" "ev_time (?q ! i) \<le> ev_time (?q ! j)" for i j
    using that quot_mono [OF mult_right_mono [of "ev_time (?q ! i) - global_timer g" "ev_time (?q ! j) - global_timer g" "uint new"] k]
    by (simp add: AdjustEventQueueTimes_def Let_def)
  have p: "ev_time (?q ! ((i - 1) div 2)) \<le> ev_time (?q ! i)" if "0 < i" "i < length ?q" for i
    using assms(1) that by (auto simp: queue_ok_def is_heap_def ev_key_def less_eq_prod_def)
  have less: "ev_time (?q' ! ((i - 1) div 2)) \<le> ev_time (?q' ! i)" if "0 < i" "i < length ?q" for i
    by (rule m) (use that p [OF that] in auto)
  have "queue_ok (AdjustEventQueueTimes new old g)" if d: "distinct (map ev_time ?q')"
  proof -
    have "ev_key (?q' ! ((i - 1) div 2)) \<le> ev_key (?q' ! i)" if i: "0 < i" "i < length ?q" for i
    proof -
      have "ev_time (?q' ! ((i - 1) div 2)) \<noteq> ev_time (?q' ! i)"
        using nth_eq_iff_index_eq [OF d, of "(i - 1) div 2" i] i by (simp add: n(1))
      with less [OF i] show ?thesis by (auto simp: ev_key_def)
    qed
    then have "is_heap ev_key ?q'" by (simp add: is_heap_def n(1))
    moreover have "fifo_order ` set ?q' = fifo_order ` set ?q" using arg_cong [OF n(2), of set] by simp
    then have "\<forall>e \<in> set ?q'. fifo_order e < s_event_fifo_id g"
      using assms(1) by (metis (no_types, lifting) image_iff queue_ok_def)
    moreover have "s_event_fifo_id (AdjustEventQueueTimes new old g) = s_event_fifo_id g" by (simp add: AdjustEventQueueTimes_def)
    ultimately show ?thesis using assms(1) n(2) by (simp add: queue_ok_def)
  qed
  then show ?thesis using less by (simp add: is_heap_def n(1))
qed

theorem AdjustEventQueueTimes_order_witness:
  "\<exists>g. is_heap ev_time (s_event_queue (AdjustEventQueueTimes 486000000 729000000 g)) \<and>
     map ev_key (s_event_queue g) = [(3, 1), (4, 0)]"
proof (intro exI conjI)
  have "queue_ok (two_events 4 3)" by (rule ct_reach_ok(1) [OF two_events_reach _ quiet_ok(1)]) simp_all
  from AdjustEventQueueTimes_order [OF this, of 729000000 486000000]
  show "is_heap ev_time (s_event_queue (AdjustEventQueueTimes 486000000 729000000 (two_events 4 3)))" by simp
  show "map ev_key (s_event_queue (two_events 4 3)) = [(3, 1), (4, 0)]" by (simp add: ct_eval)
qed

text \<open>
  Where rescaling does give two events the same time, the order of their arrival is lost:
  of two events scheduled for the cycles 4 and 3, which a change from 729 to 486 MHz both moves to
  cycle 2, the one scheduled last is called first, since the heap is not made anew.
\<close>

theorem AdjustEventQueueTimes_breaks_fifo:
  "\<exists>evs g g' w'. Advance (False, 1) quiet (two_events 4 3) () = Some ([], g, ()) \<and>
     Advance (False, 1) quiet ((AdjustEventQueueTimes 486000000 729000000 g)\<lparr>downcount := 0\<rparr>) () = Some (evs, g', w') \<and>
     map ev_key evs = [(2, 1), (2, 0)]"
proof -
  let ?run = "\<lambda>g. Advance (False, 1) quiet ((AdjustEventQueueTimes 486000000 729000000 g)\<lparr>downcount := 0\<rparr>) ()"
  have "map_option (map ev_key \<circ> fst) (Option.bind (Advance (False, 1) quiet (two_events 4 3) ()) (?run \<circ> fst \<circ> snd)) =
      Some [(2, 1), (2, 0)]" by (simp add: ct_eval Advance_loop.simps)
  moreover have "map_option fst (Advance (False, 1) quiet (two_events 4 3) ()) = Some []" by (simp add: ct_eval Advance_loop.simps)
  ultimately show ?thesis by (fastforce simp: bind_eq_Some_conv)
qed

end
