(* ===== verification/PPC_Branch.thy ===== *)
theory PPC_Branch
  imports PPC_Integer CoreTiming
begin

text \<open>
  The branch instructions of the main processor
  (\<^verbatim>\<open>Core/PowerPC/Interpreter/Interpreter_Branch.cpp\<close>); \<open>sc\<close> and \<open>rfi\<close> are with the exceptions. A branch to itself and the
  most common idle loop tell the scheduler that the processor is idle, so that the two branches with an
  immediate target work on the state of the processor and of the scheduler. \<open>HostRead_U32\<close>, which
  reads the code around the branch, and the setting \<open>bWii\<close> are arguments.
\<close>

unbundle bit_operations_syntax

type_synonym cpu = "PowerPCState \<times> CoreTiming"

definition bx :: "UGeckoInstruction \<Rightarrow> cpu \<Rightarrow> cpu" where
  "bx inst c =
     (let s = fst c;
          s1 = (if LK inst then set_spr SPR_LR (pc s + 4) s else s);
          s2 = (if AA inst then s1\<lparr>npc := SignExt26 (push_bit 2 (LI inst))\<rparr>
                else s1\<lparr>npc := pc s1 + SignExt26 (push_bit 2 (LI inst))\<rparr>);
          s3 = s2\<lparr>m_end_block := True\<rparr>
      in (s3, if npc s3 = pc s3 then Idle (snd c) else snd c))"

text \<open>
  The counter, and the two tests of a conditional branch.
\<close>

definition count_down :: "u32 \<Rightarrow> PowerPCState \<Rightarrow> PowerPCState" where
  "count_down bo s = (if bo AND 4 = 0 then set_spr SPR_CTR (spr s SPR_CTR - 1) s else s)"

definition counter_test :: "u32 \<Rightarrow> PowerPCState \<Rightarrow> bool" where
  "counter_test bo s \<longleftrightarrow> drop_bit 2 bo AND 1 \<noteq> 0 \<or> (spr s SPR_CTR \<noteq> 0) \<noteq> (drop_bit 1 bo AND 1 \<noteq> 0)"

definition condition_test :: "u32 \<Rightarrow> nat \<Rightarrow> PowerPCState \<Rightarrow> bool" where
  "condition_test bo bi s \<longleftrightarrow> drop_bit 4 bo AND 1 \<noteq> 0 \<or> GetCRBit bi s = drop_bit 3 bo AND 1"

text \<open>The idle loop: \<^verbatim>\<open>lwz r0, x(r13)\<close>, a comparison of \<^verbatim>\<open>r0\<close> with zero, and this branch back to the load.\<close>

definition idle_loop :: "(u32 \<Rightarrow> u32) \<Rightarrow> bool \<Rightarrow> UGeckoInstruction \<Rightarrow> PowerPCState \<Rightarrow> bool" where
  "idle_loop HostRead_U32 bWii inst s \<longleftrightarrow>
     npc s = pc s - 8 \<and> inst = 0x4182fff8 \<and> drop_bit 16 (HostRead_U32 (pc s - 8)) = 0x800D \<and>
     (let last_inst = HostRead_U32 (pc s - 4) in last_inst = 0x28000000 \<or> last_inst = 0x2C000000 \<and> bWii)"

definition bcx :: "(u32 \<Rightarrow> u32) \<Rightarrow> bool \<Rightarrow> UGeckoInstruction \<Rightarrow> cpu \<Rightarrow> cpu" where
  "bcx HostRead_U32 bWii inst c =
     (let s1 = count_down (BO inst) (fst c);
          s2 = (if counter_test (BO inst) s1 \<and> condition_test (BO inst) (BI inst) s1
                then let s' = (if LK inst then set_spr SPR_LR (pc s1 + 4) s1 else s1);
                         disp = SignExt16 (ucast (push_bit 2 (BD inst)))
                     in if AA inst then s'\<lparr>npc := disp\<rparr> else s'\<lparr>npc := pc s' + disp\<rparr>
                else s1);
          s3 = s2\<lparr>m_end_block := True\<rparr>
      in (s3, if idle_loop HostRead_U32 bWii inst s3 then Idle (snd c) else snd c))"

definition bcctrx :: "UGeckoInstruction \<Rightarrow> PowerPCState \<Rightarrow> PowerPCState" where
  "bcctrx inst s =
     (let s1 = (if condition_test (BO_2 inst) (BI_2 inst) s
                then let s' = s\<lparr>npc := spr s SPR_CTR AND NOT 3\<rparr>
                     in if LK_3 inst then set_spr SPR_LR (pc s' + 4) s' else s'
                else s)
      in s1\<lparr>m_end_block := True\<rparr>)"

definition bclrx :: "UGeckoInstruction \<Rightarrow> PowerPCState \<Rightarrow> PowerPCState" where
  "bclrx inst s =
     (let s1 = count_down (BO_2 inst) s;
          s2 = (if counter_test (BO_2 inst) s1 \<and> condition_test (BO_2 inst) (BI_2 inst) s1
                then let s' = s1\<lparr>npc := spr s1 SPR_LR AND NOT 3\<rparr>
                     in if LK_3 inst then set_spr SPR_LR (pc s' + 4) s' else s'
                else s1)
      in s2\<lparr>m_end_block := True\<rparr>)"

subsection \<open>Comparisons and branches\<close>

text \<open>A branch that tests a condition bit and not the counter.\<close>

definition tests_bit :: "UGeckoInstruction \<Rightarrow> bool" where
  "tests_bit inst \<longleftrightarrow> bit (BO inst) 2 \<and> \<not> bit (BO inst) 4"

definition branch_to :: "UGeckoInstruction \<Rightarrow> PowerPCState \<Rightarrow> u32" where
  "branch_to inst s = (if AA inst then 0 else pc s) + SignExt16 (ucast (push_bit 2 (BD inst)))"

lemma bit_tests: "drop_bit n b AND 1 \<noteq> 0 \<longleftrightarrow> bit b n" "drop_bit n b AND 1 = of_bool (bit b n)" "b AND 4 = 0 \<longleftrightarrow> \<not> bit b 2" for b :: u32
proof -
  show "drop_bit n b AND 1 = of_bool (bit b n)" by (rule bit_word_eqI) (auto simp: bit_simps)
  then show "drop_bit n b AND 1 \<noteq> 0 \<longleftrightarrow> bit b n" by simp
  show "b AND 4 = 0 \<longleftrightarrow> \<not> bit b 2" using and_exp_eq_0_iff [of b 2] by simp
qed

lemma bcx_tests_bit:
  assumes "tests_bit br"
  shows "npc (fst (bcx hr wii br (s, g))) = (if (GetCRBit (BI br) s = 1) = bit (BO br) 3 then branch_to br s else npc s)"
proof -
  have "GetCRBit (BI br) s = of_bool (bit (BO br) 3) \<longleftrightarrow> (GetCRBit (BI br) s = 1) = bit (BO br) 3"
    by (auto simp: GetCRBit_alt)
  then show ?thesis using assms
    by (simp add: bcx_def Let_def count_down_def counter_test_def condition_test_def bit_tests tests_bit_def branch_to_def
        set_spr_def)
qed

text \<open>The three relations of a comparison, by the number of the bit that records them.\<close>

definition relation_bit :: "nat \<Rightarrow> bool \<Rightarrow> bool \<Rightarrow> bool \<Rightarrow> bool" where
  "relation_bit k lt gt eq \<longleftrightarrow> (if k = 0 then lt else if k = 1 then gt else eq)"

lemma order_field_bit:
  assumes "order_field lt gt eq s0 (GetCRField f s)" and "k < 3"
  shows "GetCRBit (4 * f + k) s = 1 \<longleftrightarrow> relation_bit k lt gt eq"
proof -
  have d: "(4 * f + k) div 4 = f" "(4 * f + k) mod 4 = k" using assms(2) by simp_all
  have "k = 0 \<or> k = 1 \<or> k = 2" using assms(2) by linarith
  then show ?thesis using assms(1) unfolding GetCRBit_alt d by (elim disjE) (simp_all add: order_field_def relation_bit_def)
qed

lemma compare_pc: "f \<in> set compare_instructions \<Longrightarrow> pc (f inst s) = pc s \<and> npc (f inst s) = npc s"
  by (auto simp: compare_instructions_def cmp_def cmpl_def cmpi_def cmpli_def Let_def SetCRField_def)

text \<open>
  C20. A conditional branch on a bit of the field a comparison has written: after the signed and
  unsigned comparisons of two registers or of a register and an immediate operand, the branch is taken exactly when the relation
  \<open>k\<close> (less, greater, equal) of the two numbers is the one asked for.
\<close>

theorem compare_and_branch:
  assumes "tests_bit br" and "BI br = 4 * CRFD inst + k" and "k < 3"
  shows "let a = gpr s (RA inst); b = gpr s (RB inst); i = SIMM_16 inst; u = UIMM inst; want = bit (BO br) 3;
      goes = (\<lambda>c holds. npc (fst (bcx hr wii br (c inst s, g))) = (if holds = want then branch_to br s else npc s))
    in goes cmp (relation_bit k (sint a < sint b) (sint b < sint a) (a = b)) \<and>
      goes cmpi (relation_bit k (sint a < sint i) (sint i < sint a) (a = i)) \<and>
      goes cmpl (relation_bit k (unat a < unat b) (unat b < unat a) (a = b)) \<and>
      goes cmpli (relation_bit k (unat a < unat u) (unat u < unat a) (a = u))"
proof -
  have c: "branch_to br (f inst s) = branch_to br s" "npc (f inst s) = npc s" if "f \<in> set compare_instructions" for f
    using compare_pc [OF that, of inst s] by (simp_all add: branch_to_def)
  have m: "cmp \<in> set compare_instructions" "cmpi \<in> set compare_instructions" "cmpl \<in> set compare_instructions"
    "cmpli \<in> set compare_instructions" by (simp_all add: compare_instructions_def)
  show ?thesis
    unfolding Let_def bcx_tests_bit [OF assms(1)] assms(2) order_field_bit [OF compare_parts(1) assms(3)]
      order_field_bit [OF compare_parts(2) assms(3)] order_field_bit [OF compare_parts(3) assms(3)]
      order_field_bit [OF compare_parts(4) assms(3)]
    by (simp add: c m word_sless_alt word_less_nat_alt)
qed

theorem compare_and_branch_witness:
  "npc (fst (bcx (\<lambda>_. 0) False 0x41800010 (cmpi 0x2C03FFFF (set_gpr 3 0xFFFFFFFE ppc_zero), blank))) = 0x10"
proof -
  have f: "RA 0x2C03FFFF = 3" "CRFD 0x2C03FFFF = 0" "SIMM_16 0x2C03FFFF = 0xFFFFFFFF" "BI 0x41800010 = 0" "BO 0x41800010 = 12"
      "BD 0x41800010 = 4" "\<not> AA 0x41800010"
    by (simp_all add: ppc_defs bit_field_def take_bit_eq_mod drop_bit_eq_div bit_simps)
  have "tests_bit 0x41800010" by (simp add: tests_bit_def f)
  from compare_and_branch [OF this, of "0x2C03FFFF" 0 "set_gpr 3 0xFFFFFFFE ppc_zero" "\<lambda>_. 0" False blank] show ?thesis
    by (simp add: Let_def f relation_bit_def branch_to_def SignExt16_def set_gpr_def ppc_zero_def)
qed

subsection \<open>Counted loops\<close>

text \<open>A branch that counts down and is taken while the counter is not zero.\<close>

definition counts_down :: "UGeckoInstruction \<Rightarrow> bool" where
  "counts_down inst \<longleftrightarrow> \<not> bit (BO inst) 2 \<and> \<not> bit (BO inst) 1 \<and> bit (BO inst) 4"

lemma bcx_counts_down:
  assumes "counts_down br"
  shows "spr (fst (bcx hr wii br (s, g))) SPR_CTR = spr s SPR_CTR - 1"
    and "npc (fst (bcx hr wii br (s, g))) = (if spr s SPR_CTR = 1 then npc s else branch_to br s)"
  using assms
  by (simp_all add: bcx_def Let_def count_down_def counter_test_def condition_test_def bit_tests counts_down_def branch_to_def
      set_spr_def)

text \<open>
  \<open>passes hr wii br body n c\<close>: the body of a loop and the branch at its end, \<open>n\<close> times. \<open>body\<close> stands for the instructions
  between the target of the branch and the branch, and the fetch of the branch.
\<close>

primrec passes :: "(u32 \<Rightarrow> u32) \<Rightarrow> bool \<Rightarrow> UGeckoInstruction \<Rightarrow> (cpu \<Rightarrow> cpu) \<Rightarrow> nat \<Rightarrow> cpu \<Rightarrow> cpu" where
  "passes hr wii br body 0 c = c"
| "passes hr wii br body (Suc n) c = bcx hr wii br (body (passes hr wii br body n c))"

text \<open>How often a loop runs: a counter of zero stands for \<open>2 ^ 32\<close>.\<close>

definition loop_count :: "u32 \<Rightarrow> nat" where
  "loop_count v = (if v = 0 then 2 ^ 32 else unat v)"

lemma passes_counter:
  assumes "counts_down br" and "\<And>c. spr (fst (body c)) SPR_CTR = spr (fst c) SPR_CTR"
  shows "spr (fst (passes hr wii br body n c)) SPR_CTR = spr (fst c) SPR_CTR - of_nat n"
proof (induction n)
  case (Suc n)
  then show ?case
    using bcx_counts_down(1) [OF assms(1), of hr wii "fst (body (passes hr wii br body n c))" "snd (body (passes hr wii br body n c))"]
    by (simp add: assms(2) diff_diff_eq add.commute)
qed simp

text \<open>
  A loop closed by a branch that counts down (\<^verbatim>\<open>bdnz\<close>) runs as often as the counter says, \<open>2 ^ 32\<close> times for zero: after every pass but
  the last the branch goes back to the target, after the last one it falls through and the counter is zero, whatever the
  body does, as long as it keeps the counter.
\<close>

theorem counted_loop_runs_count_times:
  assumes "counts_down br" and "\<And>c. spr (fst (body c)) SPR_CTR = spr (fst c) SPR_CTR"
    and "\<And>c. pc (fst (body c)) = a \<and> npc (fst (body c)) = a + 4" and "n < loop_count (spr (fst c) SPR_CTR)"
  shows "let s = fst (passes hr wii br body (Suc n) c) in
    npc s = (if Suc n = loop_count (spr (fst c) SPR_CTR) then a + 4 else branch_to br (fst (body c))) \<and>
    (Suc n = loop_count (spr (fst c) SPR_CTR) \<longrightarrow> spr s SPR_CTR = 0)"
proof -
  let ?v = "spr (fst c) SPR_CTR" and ?c = "body (passes hr wii br body n c)"
  have v: "spr (fst ?c) SPR_CTR = ?v - of_nat n" using passes_counter [OF assms(1,2)] by (simp add: assms(2))
  have n: "n < 2 ^ 32" using assms(4) unat_u32_less [of ?v] by (simp add: loop_count_def split: if_splits)
  have last: "?v - of_nat n = 1 \<longleftrightarrow> Suc n = loop_count ?v"
  proof -
    have "?v - of_nat n = 1 \<longleftrightarrow> ?v = of_nat (Suc n)" by (auto simp: algebra_simps)
    also have "\<dots> \<longleftrightarrow> unat ?v = Suc n mod 2 ^ 32"
    proof -
      have "unat (of_nat (Suc n) :: u32) = Suc n mod 2 ^ 32" by (simp only: unsigned_of_nat) (simp add: take_bit_eq_mod)
      then show ?thesis by (metis word_unat_eqI)
    qed
    also have "\<dots> \<longleftrightarrow> Suc n = loop_count ?v" using n unat_u32_less [of ?v] assms(4) by (auto simp: loop_count_def unat_eq_0 mod_Suc split: if_splits)
    finally show ?thesis .
  qed
  have b: "branch_to br (fst ?c) = branch_to br (fst (body c))" by (simp add: branch_to_def assms(3))
  show ?thesis
    using bcx_counts_down [OF assms(1), of hr wii "fst ?c" "snd ?c"] v last b by (auto simp: Let_def assms(3))
qed


theorem counted_loop_runs_count_times_witness:
  "npc (fst (passes (\<lambda>_. 0) False 0x4200FFF8 (\<lambda>c. ((fst c)\<lparr>pc := 0x100, npc := 0x104\<rparr>, snd c)) (Suc 1)
     (set_spr SPR_CTR 2 ppc_zero, blank))) = 0x104"
proof -
  let ?body = "\<lambda>c :: cpu. ((fst c)\<lparr>pc := 0x100, npc := 0x104\<rparr>, snd c)" and ?c = "(set_spr SPR_CTR 2 ppc_zero, blank)"
  have f: "BO 0x4200FFF8 = 16" by (simp add: ppc_defs bit_field_def take_bit_eq_mod drop_bit_eq_div)
  have "counts_down 0x4200FFF8" by (simp add: counts_down_def f bit_simps)
  moreover have l: "loop_count (spr (fst ?c) SPR_CTR) = Suc 1" by (simp add: loop_count_def set_spr_def)
  ultimately show ?thesis
    using counted_loop_runs_count_times [of "0x4200FFF8" ?body "0x100" 1 ?c "\<lambda>_. 0" False] unfolding Let_def l by simp
qed

subsection \<open>Calls\<close>

lemma aligned_plus_4:
  fixes x :: u32
  assumes "4 dvd unat x"
  shows "(x + 4) AND NOT 3 = x + 4"
proof -
  have "unat (x + 4) = (unat x + 4) mod 2 ^ 32" by (simp add: unat_sum)
  then have "unat (x + 4) mod 4 = 0" using assms by (simp add: mod_mod_cancel dvd_eq_mod_eq_0)
  then have "unat (take_bit 2 (x + 4)) = 0" by (simp only: unat_take_bit) simp
  then have "take_bit 2 (x + 4) = 0" by (simp add: unat_eq_0)
  then have "\<not> bit (x + 4) n" if "n < 2" for n using that by (metis bit_take_bit_iff bit_0_eq bot_apply bot_bool_def)
  moreover have "bit (NOT 3 :: u32) n \<longleftrightarrow> n < 32 \<and> 2 \<le> n" for n
  proof -
    have "(3 :: u32) = mask 2" by (simp add: mask_eq_exp_minus_1)
    then show ?thesis by (simp only: bit_not_iff bit_mask_iff) auto
  qed
  ultimately have "bit ((x + 4) AND NOT 3) n = bit (x + 4) n" for n
    unfolding bit_and_iff by (auto simp: not_less [symmetric] dest: bit_imp_le_length)
  then show ?thesis by (intro bit_word_eqI) simp
qed

text \<open>
  A call and its return: after a branch that records a return address, and any code that leaves the link register alone, an
  unconditional branch to the link register continues behind the call, if the call was at a multiple of four, and changes
  nothing but the next address; the call goes to its target and to the code of an idle processor only if it calls itself.
\<close>

theorem call_returns:
  assumes "LK call" and "bit (BO_2 ret) 4" and "bit (BO_2 ret) 2" and "\<not> LK_3 ret" and "4 dvd unat (pc s)"
    and "spr s1 SPR_LR = spr (fst (bx call (s, g))) SPR_LR"
  shows "npc (fst (bx call (s, g))) = (if AA call then 0 else pc s) + SignExt26 (push_bit 2 (LI call)) \<and>
    (npc (fst (bx call (s, g))) \<noteq> pc s \<longrightarrow> snd (bx call (s, g)) = g) \<and>
    bclrx ret s1 = s1\<lparr>npc := pc s + 4, m_end_block := True\<rparr>"
proof -
  have lr: "spr s1 SPR_LR = pc s + 4" using assms(1,6) by (simp add: bx_def Let_def set_spr_def)
  have "(pc s + 4) AND NOT 3 = pc s + 4" by (rule aligned_plus_4 [OF assms(5)])
  then have "bclrx ret s1 = s1\<lparr>npc := pc s + 4, m_end_block := True\<rparr>"
    using assms(2-4) by (simp add: bclrx_def Let_def count_down_def counter_test_def condition_test_def bit_tests lr)
  then show ?thesis using assms(1) by (auto simp: bx_def Let_def set_spr_def)
qed

theorem call_returns_witness:
  "bclrx 0x4E800020 (fst (bx 0x48000101 (ppc_zero, blank))) = (fst (bx 0x48000101 (ppc_zero, blank)))\<lparr>npc := 4, m_end_block := True\<rparr>"
proof -
  have f: "LK 0x48000101" "BO_2 0x4E800020 = 20" "\<not> LK_3 0x4E800020"
    by (simp_all add: ppc_defs bit_field_def take_bit_eq_mod drop_bit_eq_div bit_simps)
  show ?thesis
    using call_returns [of "0x48000101" "0x4E800020" ppc_zero "fst (bx 0x48000101 (ppc_zero, blank))" blank] f
    by (simp add: ppc_zero_def bit_simps)
qed

end
