(* ===== verification/Memmap.thy ===== *)
theory Memmap
  imports PPC_Exceptions
begin

text \<open>
  The memory of the console (\<^verbatim>\<open>Core/HW/Memmap.cpp\<close>) and the byte order of the processor (\<^verbatim>\<open>Common/Swap.h\<close>).

  All memory is in one arena of the host: a region is mapped at \<open>physical_base\<close> plus its physical address, so a
  pointer of the sources is an offset from \<open>physical_base\<close>, and the offsets that no region covers are not
  mapped. An access outside the mapped part ends the process and is an error of the model.
\<close>

unbundle bit_operations_syntax

subsection \<open>Bytes\<close>

text \<open>
  A value of an integer type of \<open>n\<close> bytes is a 64-bit word below \<open>2 ^ (8 * n)\<close>. The host is little-endian:
  \<^verbatim>\<open>memcpy\<close> between a value and bytes is \<open>le_bytes\<close> and \<open>le_value\<close>.
\<close>

fun le_value :: "u8 list \<Rightarrow> u64" where
  "le_value [] = 0"
| "le_value (b # bs) = ucast b OR push_bit 8 (le_value bs)"

fun le_bytes :: "nat \<Rightarrow> u64 \<Rightarrow> u8 list" where
  "le_bytes 0 v = []"
| "le_bytes (Suc n) v = ucast v # le_bytes n (drop_bit 8 v)"

text \<open>\<^verbatim>\<open>swap16\<close>, \<^verbatim>\<open>swap32\<close> and \<^verbatim>\<open>swap64\<close>: the bytes in reverse order.\<close>

definition bswap :: "nat \<Rightarrow> u64 \<Rightarrow> u64" where
  "bswap n v = le_value (rev (le_bytes n v))"

definition swap32 :: "u32 \<Rightarrow> u32" where
  "swap32 v = ucast (bswap 4 (ucast v))"

subsection \<open>The arena\<close>

datatype mem_error = HostFault | NeverReturns

record Memory =
  physical_base :: "u32 \<Rightarrow> u8 option"
  m_pEXRAM :: bool
  m_pFakeVMEM :: bool

text \<open>\<open>m_pEXRAM\<close> and \<open>m_pFakeVMEM\<close> say whether these pointers are not null.\<close>

abbreviation (input) "MEM_REALRAM_SIZE \<equiv> 0x01800000 :: u32"
abbreviation (input) "RAM_SIZE \<equiv> 0x02000000 :: u32"
abbreviation (input) "MEM_RAM_MASK \<equiv> 0x01FFFFFF :: u32"
abbreviation (input) "FAKEVMEM_SIZE \<equiv> 0x02000000 :: u32"
abbreviation (input) "FAKEVMEM_MASK \<equiv> 0x01FFFFFF :: u32"
abbreviation (input) "L1_CACHE_SIZE \<equiv> 0x00040000 :: u32"
abbreviation (input) "EXRAM_SIZE \<equiv> 0x04000000 :: u32"
abbreviation (input) "EXRAM_MASK \<equiv> 0x03FFFFFF :: u32"

definition in_region :: "u32 \<Rightarrow> u32 \<Rightarrow> u32 \<Rightarrow> bool" where
  "in_region start len p \<longleftrightarrow> start \<le> p \<and> p - start < len"

text \<open>\<open>physical_regions\<close>: the regions that are mapped, and where.\<close>

definition region_mapped :: "Memory \<Rightarrow> u32 \<Rightarrow> bool" where
  "region_mapped m p \<longleftrightarrow>
     in_region 0x00000000 RAM_SIZE p \<or> in_region 0xE0000000 L1_CACHE_SIZE p \<or>
     m_pFakeVMEM m \<and> in_region 0x7E000000 FAKEVMEM_SIZE p \<or> m_pEXRAM m \<and> in_region 0x10000000 EXRAM_SIZE p"

definition Memory_Clear :: "Memory \<Rightarrow> Memory" where
  "Memory_Clear m = m\<lparr>physical_base := (\<lambda>p. if region_mapped m p then Some 0 else physical_base m p)\<rparr>"

definition Memory_Init :: "bool \<Rightarrow> bool \<Rightarrow> Memory" where
  "Memory_Init wii bMMU =
     (let bFakeVMEM = (\<not> wii \<and> \<not> bMMU)
      in Memory_Clear \<lparr>physical_base = (\<lambda>p. None), m_pEXRAM = wii, m_pFakeVMEM = bFakeVMEM\<rparr>)"

definition mem_ok :: "Memory \<Rightarrow> bool" where
  "mem_ok m \<longleftrightarrow> (\<forall>p. physical_base m p \<noteq> None \<longleftrightarrow> region_mapped m p)"

text \<open>\<^verbatim>\<open>memcpy\<close> from and to the arena.\<close>

fun load_bytes :: "nat \<Rightarrow> u32 \<Rightarrow> (u32 \<Rightarrow> u8 option) \<Rightarrow> mem_error + u8 list" where
  "load_bytes 0 p a = Inr []"
| "load_bytes (Suc n) p a =
     (case a p of None \<Rightarrow> Inl HostFault | Some b \<Rightarrow> and_then (load_bytes n (p + 1) a) (\<lambda>bs. Inr (b # bs)))"

fun store_bytes :: "u8 list \<Rightarrow> u32 \<Rightarrow> (u32 \<Rightarrow> u8 option) \<Rightarrow> mem_error + (u32 \<Rightarrow> u8 option)" where
  "store_bytes [] p a = Inr a"
| "store_bytes (b # bs) p a =
     (case a p of None \<Rightarrow> Inl HostFault | Some _ \<Rightarrow> store_bytes bs (p + 1) (a(p := Some b)))"

definition host_read :: "nat \<Rightarrow> u32 \<Rightarrow> Memory \<Rightarrow> mem_error + u64" where
  "host_read n p m = and_then (load_bytes n p (physical_base m)) (\<lambda>bs. Inr (bswap n (le_value bs)))"

definition host_write :: "nat \<Rightarrow> u64 \<Rightarrow> u32 \<Rightarrow> Memory \<Rightarrow> mem_error + Memory" where
  "host_write n v p m =
     and_then (store_bytes (le_bytes n (bswap n v)) p (physical_base m)) (\<lambda>a. Inr (m\<lparr>physical_base := a\<rparr>))"

text \<open>The pointer devices use; \<open>None\<close> is the null pointer.\<close>

definition GetPointer :: "u32 \<Rightarrow> Memory \<Rightarrow> u32 option" where
  "GetPointer address m =
     (let address = address AND 0x3FFFFFFF in
      if address < MEM_REALRAM_SIZE then Some address
      else if m_pEXRAM m \<and> drop_bit 28 address = 1 \<and> address AND 0x0FFFFFFF < EXRAM_SIZE
      then Some (0x10000000 + (address AND EXRAM_MASK))
      else None)"

definition GetPointerForRange :: "u32 \<Rightarrow> nat \<Rightarrow> Memory \<Rightarrow> u32 option" where
  "GetPointerForRange address sz m =
     (if unat EXRAM_SIZE \<le> sz then None
      else case GetPointer address m of
        None \<Rightarrow> None
      | Some p \<Rightarrow> if GetPointer (address + of_nat sz - 1) m = None then None else Some p)"

text \<open>\<open>CopyFromEmu\<close> gives the bytes, or nothing when the range is not valid and the buffer stays as it is.\<close>

definition CopyFromEmu :: "u32 \<Rightarrow> nat \<Rightarrow> Memory \<Rightarrow> mem_error + u8 list option" where
  "CopyFromEmu address sz m =
     (if sz = 0 then Inr None
      else case GetPointerForRange address sz m of
        None \<Rightarrow> Inr None
      | Some p \<Rightarrow> and_then (load_bytes sz p (physical_base m)) (\<lambda>bs. Inr (Some bs)))"

definition CopyToEmu :: "u32 \<Rightarrow> u8 list \<Rightarrow> Memory \<Rightarrow> mem_error + Memory" where
  "CopyToEmu address data m =
     (if length data = 0 then Inr m
      else case GetPointerForRange address (length data) m of
        None \<Rightarrow> Inr m
      | Some p \<Rightarrow> and_then (store_bytes data p (physical_base m)) (\<lambda>a. Inr (m\<lparr>physical_base := a\<rparr>)))"

definition Memory_Memset :: "u32 \<Rightarrow> u8 \<Rightarrow> nat \<Rightarrow> Memory \<Rightarrow> mem_error + Memory" where
  "Memory_Memset address value sz m =
     (if sz = 0 then Inr m
      else case GetPointerForRange address sz m of
        None \<Rightarrow> Inr m
      | Some p \<Rightarrow> and_then (store_bytes (replicate sz value) p (physical_base m)) (\<lambda>a. Inr (m\<lparr>physical_base := a\<rparr>)))"

text \<open>The reads and writes of devices dereference the pointer without a test.\<close>

definition Memory_Read :: "nat \<Rightarrow> u32 \<Rightarrow> Memory \<Rightarrow> mem_error + u64" where
  "Memory_Read n address m = (case GetPointer address m of None \<Rightarrow> Inl HostFault | Some p \<Rightarrow> host_read n p m)"

definition Memory_Read_U32 :: "u32 \<Rightarrow> Memory \<Rightarrow> mem_error + u32" where
  "Memory_Read_U32 address m = and_then (Memory_Read 4 address m) (\<lambda>v. Inr (ucast v))"

definition Memory_Write :: "nat \<Rightarrow> u64 \<Rightarrow> u32 \<Rightarrow> Memory \<Rightarrow> mem_error + Memory" where
  "Memory_Write n value address m = (case GetPointer address m of None \<Rightarrow> Inl HostFault | Some p \<Rightarrow> host_write n value p m)"

subsection \<open>Byte order\<close>

lemma length_le_bytes [simp]: "length (le_bytes n v) = n"
  by (induction n arbitrary: v) simp_all

lemma le_bytes_take_bit: "8 * n \<le> k \<Longrightarrow> le_bytes n (take_bit k v) = le_bytes n v"
proof (induction n arbitrary: v k)
  case (Suc n)
  have "ucast (take_bit k v) = (ucast v :: u8)" using Suc.prems by (intro bit_word_eqI) (auto simp: bit_simps)
  moreover have "drop_bit 8 (take_bit k v) = take_bit (k - 8) (drop_bit 8 v)"
    by (rule bit_word_eqI) (auto simp: bit_simps)
  ultimately show ?case using Suc.IH [of "k - 8" "drop_bit 8 v"] Suc.prems by simp
qed simp

lemma le_bytes_value: "length bs \<le> 8 \<Longrightarrow> le_bytes (length bs) (le_value bs) = bs"
proof (induction bs)
  case (Cons b bs)
  have 1: "ucast (ucast b OR push_bit 8 (le_value bs)) = b"
    by (rule bit_word_eqI) (auto simp: bit_simps)
  have 2: "drop_bit 8 (ucast b OR push_bit 8 x) = take_bit 56 x" for x :: u64
    by (rule bit_word_eqI) (auto simp: bit_simps dest: bit_imp_le_length)
  from Cons show ?case by (simp add: 1 2 le_bytes_take_bit del: drop_bit_or)
qed simp

lemma le_value_bytes: "le_value (le_bytes n v) = take_bit (8 * n) v"
proof (induction n arbitrary: v)
  case (Suc n)
  have "ucast (ucast v :: u8) OR push_bit 8 (take_bit (8 * n) (drop_bit 8 v)) = take_bit (8 * Suc n) v"
    by (rule bit_word_eqI) (auto simp: bit_simps)
  with Suc show ?case by simp
qed simp

lemma bswap_bswap: "n \<le> 8 \<Longrightarrow> bswap n (bswap n v) = take_bit (8 * n) v"
  using le_bytes_value [of "rev (le_bytes n v)"] by (simp add: bswap_def le_value_bytes)

lemma bswap_u32: "bswap 4 (ucast (ucast x :: u32)) = bswap 4 x" for x :: u64
proof -
  have "ucast (ucast x :: u32) = take_bit 32 x" by (rule bit_word_eqI) (auto simp: bit_simps)
  then show ?thesis using le_bytes_take_bit [of 4 32 x] by (simp add: bswap_def)
qed

lemma swap32_swap32 [simp]: "swap32 (swap32 v) = v"
proof -
  have "bswap 4 (ucast (ucast (bswap 4 (ucast v)) :: u32)) = bswap 4 (bswap 4 (ucast v))" by (rule bswap_u32)
  also have "\<dots> = take_bit 32 (ucast v)" by (simp add: bswap_bswap)
  also have "ucast \<dots> = v" by (rule bit_word_eqI) (auto simp: bit_simps dest: bit_imp_le_length)
  finally show ?thesis by (simp add: swap32_def)
qed

subsection \<open>Reading and writing the arena\<close>

lemma load_bytes_Inr_iff:
  "load_bytes n p a = Inr bs \<longleftrightarrow> length bs = n \<and> (\<forall>i < n. a (p + of_nat i) = Some (bs ! i))"
proof (induction n arbitrary: p bs)
  case (Suc n)
  have "(\<forall>i < Suc n. P i) \<longleftrightarrow> P 0 \<and> (\<forall>i < n. P (Suc i))" for P
    by (auto simp: less_Suc_eq_0_disj)
  then show ?case
    by (cases bs) (auto simp: Suc.IH and_then_eq_Inr_conv ac_simps split: option.splits)
qed auto

lemma load_bytes_total:
  assumes "\<And>i. i < n \<Longrightarrow> a (p + of_nat i) \<noteq> None"
  obtains bs where "load_bytes n p a = Inr bs" and "length bs = n"
proof -
  have "load_bytes n p a = Inr (map (\<lambda>i. the (a (p + of_nat i))) [0..<n])"
    using assms by (simp add: load_bytes_Inr_iff)
  with that show thesis by simp
qed

lemma load_bytes_cases: "load_bytes n p a = Inl HostFault \<or> (\<exists>bs. load_bytes n p a = Inr bs)"
proof (induction n arbitrary: p)
  case (Suc n)
  show ?case using Suc.IH [of "p + 1"] by (cases "load_bytes n (p + 1) a") (auto split: option.splits)
qed simp

definition patch :: "u32 \<Rightarrow> u8 list \<Rightarrow> (u32 \<Rightarrow> u8 option) \<Rightarrow> u32 \<Rightarrow> u8 option" where
  "patch p bs a q = (if unat (q - p) < length bs then Some (bs ! unat (q - p)) else a q)"

lemma patch_Cons:
  assumes "length bs < 2 ^ 32"
  shows "patch (p + 1) bs (a(p := Some b)) = patch p (b # bs) a"
proof
  fix q
  have e: "q - (p + 1) = (q - p) - 1" by simp
  show "patch (p + 1) bs (a(p := Some b)) q = patch p (b # bs) a q"
  proof (cases "q = p")
    case True
    have "unat (- 1 :: u32) = 2 ^ 32 - 1" by (simp add: unsigned_minus_1_eq_mask mask_eq_exp_minus_1)
    with True assms show ?thesis unfolding patch_def e by simp
  next
    case False
    then have "q - p \<noteq> 0" by simp
    then have "unat (q - p - 1) = unat (q - p) - 1" and "0 < unat (q - p)"
      by (simp_all add: unat_minus_one unat_gt_0)
    then have "unat (q - p) = Suc (unat (q - p - 1))" by simp
    with False show ?thesis unfolding patch_def e by simp
  qed
qed

lemma store_bytes_Inr_iff:
  assumes "length bs \<le> 2 ^ 32"
  shows "store_bytes bs p a = Inr a' \<longleftrightarrow> (\<forall>i < length bs. a (p + of_nat i) \<noteq> None) \<and> a' = patch p bs a"
  using assms
proof (induction bs arbitrary: p a)
  case (Cons b bs)
  have all: "(\<forall>i < Suc n. P i) \<longleftrightarrow> P 0 \<and> (\<forall>i < n. P (Suc i))" for P n
    by (auto simp: less_Suc_eq_0_disj)
  have succ: "(a(p \<mapsto> b)) (p + 1 + of_nat i) \<noteq> None \<longleftrightarrow> a (p + of_nat (Suc i)) \<noteq> None" if "a p = Some x" for i x
  proof -
    have "p + 1 + of_nat i = p + of_nat (Suc i)" by simp
    with that show ?thesis by (metis fun_upd_apply option.distinct(1))
  qed
  have "length bs \<le> 2 ^ 32" "length bs < 2 ^ 32" using Cons.prems by simp_all
  note ih = Cons.IH [OF this(1)] and pc = patch_Cons [OF this(2), of p a b]
  show ?case
  proof (cases "a p")
    case (Some x)
    show ?thesis unfolding store_bytes.simps Some option.case ih pc succ [OF Some] by (simp add: all Some)
  qed (simp add: all)
qed (auto simp: patch_def)

lemma unat_of_nat_u32: "i < 2 ^ 32 \<Longrightarrow> unat (of_nat i :: u32) = i"
  by (simp add: unsigned_of_nat take_bit_nat_eq_self_iff)

lemma load_patch_same:
  assumes "length bs \<le> 2 ^ 32"
  shows "load_bytes (length bs) p (patch p bs a) = Inr bs"
  using assms by (auto simp: load_bytes_Inr_iff patch_def unat_of_nat_u32)

lemma load_bytes_cong: "(\<And>i. i < n \<Longrightarrow> a (p + of_nat i) = a' (p + of_nat i)) \<Longrightarrow> load_bytes n p a = load_bytes n p a'"
proof (induction n arbitrary: p)
  case (Suc n)
  have "a p = a' p" using Suc.prems [of 0] by simp
  moreover have "load_bytes n (p + 1) a = load_bytes n (p + 1) a'"
  proof (rule Suc.IH)
    show "a (p + 1 + of_nat i) = a' (p + 1 + of_nat i)" if "i < n" for i
      using Suc.prems [of "Suc i"] that by (simp add: ac_simps)
  qed
  ultimately show ?case by (auto split: option.split)
qed simp

lemma load_patch_other:
  assumes "\<And>i. i < n \<Longrightarrow> length bs \<le> unat (q + of_nat i - p)"
  shows "load_bytes n q (patch p bs a) = load_bytes n q a"
  using assms by (intro load_bytes_cong) (simp add: patch_def leD)

text \<open>What a write of the host leaves: the value under the address, and everything else as it was.\<close>

lemma host_write_Inr_iff:
  assumes "n \<le> 8"
  shows "host_write n v p m = Inr m' \<longleftrightarrow>
    (\<forall>i < n. physical_base m (p + of_nat i) \<noteq> None) \<and>
    m' = m\<lparr>physical_base := patch p (le_bytes n (bswap n v)) (physical_base m)\<rparr>"
  using assms by (auto simp: host_write_def and_then_eq_Inr_conv store_bytes_Inr_iff)

lemma host_read_write:
  assumes "host_write n v p m = Inr m'" and "n \<le> 8"
  shows "host_read n p m' = Inr (take_bit (8 * n) v)"
proof -
  have "le_value (le_bytes n (bswap n v)) = bswap n v"
    using assms(2) le_bytes_value [of "rev (le_bytes n v)"] by (simp add: bswap_def)
  with assms load_patch_same [of "le_bytes n (bswap n v)" p "physical_base m"] show ?thesis
    by (simp add: host_write_Inr_iff host_read_def bswap_bswap)
qed

lemma host_read_total:
  assumes "\<And>i. i < n \<Longrightarrow> physical_base m (p + of_nat i) \<noteq> None"
  obtains v where "host_read n p m = Inr v"
  using assms by (metis load_bytes_total host_read_def and_then_Inr)

lemma patch_None_iff: "(\<And>i. i < length bs \<Longrightarrow> a (p + of_nat i) \<noteq> None) \<Longrightarrow> patch p bs a q = None \<longleftrightarrow> a q = None"
proof -
  assume ok: "\<And>i. i < length bs \<Longrightarrow> a (p + of_nat i) \<noteq> None"
  have "p + of_nat (unat (q - p)) = q" by simp
  with ok [of "unat (q - p)"] show ?thesis by (simp add: patch_def)
qed

lemma host_write_keeps:
  assumes "host_write n v p m = Inr m'" and "n \<le> 8"
  shows "mem_ok m' = mem_ok m" and "m_pEXRAM m' = m_pEXRAM m" and "m_pFakeVMEM m' = m_pFakeVMEM m"
    and "region_mapped m' = region_mapped m"
proof -
  have ok: "\<forall>i < n. physical_base m (p + of_nat i) \<noteq> None"
    and m': "m' = m\<lparr>physical_base := patch p (le_bytes n (bswap n v)) (physical_base m)\<rparr>"
    using assms by (simp_all add: host_write_Inr_iff)
  show "m_pEXRAM m' = m_pEXRAM m" "m_pFakeVMEM m' = m_pFakeVMEM m" by (simp_all add: m')
  show "region_mapped m' = region_mapped m" by (simp add: m' region_mapped_def fun_eq_iff)
  have "physical_base m' q = None \<longleftrightarrow> physical_base m q = None" for q
    using patch_None_iff [of "le_bytes n (bswap n v)" "physical_base m" p q] ok by (simp add: m')
  with \<open>region_mapped m' = region_mapped m\<close> show "mem_ok m' = mem_ok m" by (simp add: mem_ok_def)
qed

lemma Memory_Init_ok: "mem_ok (Memory_Init wii bMMU)"
  by (simp add: mem_ok_def Memory_Init_def Memory_Clear_def Let_def region_mapped_def)

lemma GetPointer_eq:
  assumes "GetPointer address m = Some p"
  shows "p = address AND 0x3FFFFFFF"
proof -
  define y where "y = address AND 0x3FFFFFFF"
  have "0x10000000 + (y AND 0x03FFFFFF) = y" if "drop_bit 28 y = 1" and "y AND 0x0FFFFFFF < 0x04000000"
  proof -
    have m: "y AND 0x0FFFFFFF = take_bit 28 y" "y AND 0x03FFFFFF = take_bit 26 y"
      by (simp_all add: take_bit_eq_mask mask_eq_exp_minus_1)
    have "unat (take_bit 28 y) < 2 ^ 26" using that(2) unfolding m by (simp add: word_less_nat_alt)
    then have "take_bit 26 (take_bit 28 y) = take_bit 28 y"
      by (intro word_unat_eqI) (simp only: unat_take_bit mod_less)
    then have "take_bit 26 y = take_bit 28 y" by simp
    moreover have "push_bit 28 (drop_bit 28 y) + take_bit 28 y = y" by (rule bits_ident)
    moreover have "push_bit 28 (1 :: u32) = 0x10000000" by (simp add: push_bit_eq_mult)
    ultimately show ?thesis using that(1) by (simp add: m)
  qed
  with assms show ?thesis by (auto simp: GetPointer_def Let_def y_def [symmetric] split: if_splits)
qed

end
