(* ===== verification/PPC_Cache.thy ===== *)
theory PPC_Cache
  imports Memmap
begin

text \<open>
  The instruction cache of the main processor (\<^verbatim>\<open>Core/PowerPC/PPCCache.cpp\<close>): 128 sets of eight ways of 32 bytes, with
  tables that find the way of an address without comparing tags, and a tree of bits per set
  that selects the way to replace.
\<close>

unbundle bit_operations_syntax

subsection \<open>State\<close>

record InstructionCache =
  ic_data :: "nat \<Rightarrow> nat \<Rightarrow> u32 list"
  ic_tags :: "nat \<Rightarrow> nat \<Rightarrow> u32"
  ic_plru :: "nat \<Rightarrow> u32"
  ic_valid :: "nat \<Rightarrow> u32"
  way_from_valid :: "nat list"
  way_from_plru :: "nat list"
  lookup_table :: "u32 \<Rightarrow> u8"
  lookup_table_ex :: "u32 \<Rightarrow> u8"
  lookup_table_vmem :: "u32 \<Rightarrow> u8"

abbreviation (input) "ICACHE_EXRAM_BIT \<equiv> 0x10000000 :: u32"
abbreviation (input) "ICACHE_VMEM_BIT \<equiv> 0x20000000 :: u32"

definition s_plru_mask :: "u32 list" where "s_plru_mask = [11, 11, 19, 19, 37, 37, 69, 69]"
definition s_plru_value :: "u32 list" where "s_plru_value = [11, 3, 17, 1, 36, 4, 64, 0]"

text \<open>\<^verbatim>\<open>while (m & (1 << w)) w++\<close>\<close>

function first_clear :: "u32 \<Rightarrow> nat \<Rightarrow> nat" where
  "first_clear m w = (if bit m w then first_clear m (Suc w) else w)"
  by auto
termination
  by (relation "measure (\<lambda>(m, w). 32 - w)") (auto dest: bit_imp_le_length)

declare first_clear.simps [simp del]

definition plru_way :: "u32 \<Rightarrow> nat" where
  "plru_way m =
     (if bit m 0 then
        if bit m 2 then if bit m 6 then 7 else 6
        else if bit m 5 then 5 else 4
      else if bit m 1 then if bit m 4 then 3 else 2
      else if bit m 3 then 1 else 0)"

text \<open>The constructor fills the two tables of ways; \<open>c\<close> is the memory it finds.\<close>

definition InstructionCache_construct :: "InstructionCache \<Rightarrow> InstructionCache" where
  "InstructionCache_construct c =
     c\<lparr>way_from_valid := map (\<lambda>m. first_clear (of_nat m) 0) [0..<255],
       way_from_plru := map (\<lambda>m. plru_way (of_nat m)) [0..<128]\<rparr>"

definition ICache_Reset :: "InstructionCache \<Rightarrow> InstructionCache" where
  "ICache_Reset c =
     c\<lparr>ic_valid := (\<lambda>_. 0), ic_plru := (\<lambda>_. 0),
       lookup_table := (\<lambda>_. 0xFF), lookup_table_ex := (\<lambda>_. 0xFF), lookup_table_vmem := (\<lambda>_. 0xFF)\<rparr>"

definition ICache_Init :: "InstructionCache \<Rightarrow> InstructionCache" where
  "ICache_Init c = ICache_Reset (c\<lparr>ic_data := (\<lambda>_ _. replicate 8 0), ic_tags := (\<lambda>_ _. 0)\<rparr>)"

subsection \<open>Operations\<close>

abbreviation (input) "SPR_HID0 \<equiv> 1008 :: nat"

definition HID0_ICE :: "PowerPCState \<Rightarrow> bool" where "HID0_ICE s = bit (spr s SPR_HID0) 15"
definition HID0_ILOCK :: "PowerPCState \<Rightarrow> bool" where "HID0_ILOCK s = bit (spr s SPR_HID0) 13"

definition set_of :: "u32 \<Rightarrow> u32" where "set_of addr = drop_bit 5 addr AND 0x7F"

definition lookup_at :: "u32 \<Rightarrow> InstructionCache \<Rightarrow> u8" where
  "lookup_at addr c =
     (if addr AND ICACHE_VMEM_BIT \<noteq> 0 then lookup_table_vmem c (drop_bit 5 addr AND 0xFFFFF)
      else if addr AND ICACHE_EXRAM_BIT \<noteq> 0 then lookup_table_ex c (drop_bit 5 addr AND 0x1FFFFF)
      else lookup_table c (drop_bit 5 addr AND 0xFFFFF))"

definition lookup_put :: "u32 \<Rightarrow> u8 \<Rightarrow> InstructionCache \<Rightarrow> InstructionCache" where
  "lookup_put addr t c =
     (if addr AND ICACHE_VMEM_BIT \<noteq> 0
      then c\<lparr>lookup_table_vmem := (lookup_table_vmem c)(drop_bit 5 addr AND 0xFFFFF := t)\<rparr>
      else if addr AND ICACHE_EXRAM_BIT \<noteq> 0
      then c\<lparr>lookup_table_ex := (lookup_table_ex c)(drop_bit 5 addr AND 0x1FFFFF := t)\<rparr>
      else c\<lparr>lookup_table := (lookup_table c)(drop_bit 5 addr AND 0xFFFFF := t)\<rparr>)"

text \<open>Forgetting the line of a tag, as both operations do it.\<close>

definition forget_tag :: "u32 \<Rightarrow> u32 \<Rightarrow> InstructionCache \<Rightarrow> InstructionCache" where
  "forget_tag tag st c =
     (if tag AND drop_bit 12 ICACHE_VMEM_BIT \<noteq> 0
      then c\<lparr>lookup_table_vmem := (lookup_table_vmem c)((push_bit 7 tag OR st) AND 0xFFFFF := 0xFF)\<rparr>
      else if tag AND drop_bit 12 ICACHE_EXRAM_BIT \<noteq> 0
      then c\<lparr>lookup_table_ex := (lookup_table_ex c)((push_bit 7 tag OR st) AND 0x1FFFFF := 0xFF)\<rparr>
      else c\<lparr>lookup_table := (lookup_table c)((push_bit 7 tag OR st) AND 0xFFFFF := 0xFF)\<rparr>)"

definition forget_way :: "u32 \<Rightarrow> nat \<Rightarrow> InstructionCache \<Rightarrow> InstructionCache" where
  "forget_way st t c =
     (if bit (ic_valid c (unat st)) t then forget_tag (ic_tags c (unat st) t) st c else c)"

definition Invalidate :: "u32 \<Rightarrow> PowerPCState \<Rightarrow> InstructionCache \<Rightarrow> InstructionCache" where
  "Invalidate addr s c =
     (if \<not> HID0_ICE s then c
      else let st = set_of addr; c1 = fold (forget_way st) [0..<8] c
           in c1\<lparr>ic_valid := (ic_valid c1)(unat st := 0)\<rparr>)"

definition words_of :: "u8 list \<Rightarrow> u32 list" where
  "words_of bs = map (\<lambda>i. ucast (le_value (take 4 (drop (4 * i) bs)))) [0..<8]"

definition select_way :: "nat \<Rightarrow> InstructionCache \<Rightarrow> nat" where
  "select_way st c =
     (if ic_valid c st \<noteq> 0xFF then way_from_valid c ! unat (ic_valid c st)
      else way_from_plru c ! unat (ic_plru c st))"

definition load_line :: "u32 \<Rightarrow> nat \<Rightarrow> Memory \<Rightarrow> InstructionCache \<Rightarrow> mem_error + InstructionCache" where
  "load_line addr t m c =
     (let st = unat (set_of addr); tag = drop_bit 12 addr in
      and_then (CopyFromEmu (addr AND NOT 0x1F) 32 m) (\<lambda>r.
        let c1 = (case r of None \<Rightarrow> c
                  | Some bs \<Rightarrow> c\<lparr>ic_data := (ic_data c)(st := (ic_data c st)(t := words_of bs))\<rparr>);
            c2 = forget_way (set_of addr) t c1;
            c3 = lookup_put addr (of_nat t) c2
        in Inr (c3\<lparr>ic_tags := (ic_tags c3)(st := (ic_tags c3 st)(t := tag)),
                   ic_valid := (ic_valid c3)(st := ic_valid c3 st OR push_bit t 1)\<rparr>)))"

definition touch :: "nat \<Rightarrow> nat \<Rightarrow> InstructionCache \<Rightarrow> InstructionCache" where
  "touch st t c =
     c\<lparr>ic_plru := (ic_plru c)(st := (ic_plru c st AND NOT (s_plru_mask ! t)) OR s_plru_value ! t)\<rparr>"

definition ReadInstruction :: "u32 \<Rightarrow> PowerPCState \<Rightarrow> Memory \<Rightarrow> InstructionCache \<Rightarrow> mem_error + u32 \<times> InstructionCache" where
  "ReadInstruction addr s m c =
     (if \<not> HID0_ICE s then and_then (Memory_Read_U32 addr m) (\<lambda>v. Inr (v, c))
      else
        let st = unat (set_of addr);
            found = (\<lambda>t c. let c' = touch st t c
                           in Inr (swap32 (ic_data c' st t ! unat (drop_bit 2 addr AND 7)), c'))
        in if lookup_at addr c = 0xFF then
             if HID0_ILOCK s then and_then (Memory_Read_U32 addr m) (\<lambda>v. Inr (v, c))
             else let t = select_way st c in and_then (load_line addr t m c) (found t)
           else found (unat (lookup_at addr c)) c)"

subsection \<open>The tables\<close>

text \<open>The entry of the tables an address uses: which table, and where in it.\<close>

definition ic_slot :: "u32 \<Rightarrow> nat \<times> u32" where
  "ic_slot addr =
     (if bit addr 29 then (2, drop_bit 5 addr AND 0xFFFFF)
      else if bit addr 28 then (1, drop_bit 5 addr AND 0x1FFFFF) else (0, drop_bit 5 addr AND 0xFFFFF))"

text \<open>The address of a line, from its tag and its set.\<close>

definition line_addr :: "u32 \<Rightarrow> u32 \<Rightarrow> u32" where
  "line_addr tag st = push_bit 12 tag OR push_bit 5 st"

lemma region_bits:
  "x AND 0x20000000 \<noteq> 0 \<longleftrightarrow> bit x 29" "x AND 0x10000000 \<noteq> 0 \<longleftrightarrow> bit x 28"
  "x AND drop_bit 12 0x20000000 \<noteq> 0 \<longleftrightarrow> bit x 17" "x AND drop_bit 12 0x10000000 \<noteq> 0 \<longleftrightarrow> bit x 16" for x :: u32
  using and_exp_eq_0_iff [of x 29] and_exp_eq_0_iff [of x 28] and_exp_eq_0_iff [of x 17] and_exp_eq_0_iff [of x 16]
  by (simp_all add: drop_bit_eq_div)

lemma lookup_at_put [simp]: "lookup_at b (lookup_put a t c) = (if ic_slot b = ic_slot a then t else lookup_at b c)"
  unfolding lookup_at_def lookup_put_def ic_slot_def region_bits by (auto)

lemma lookup_put_fields [simp]:
  "ic_data (lookup_put a t c) = ic_data c" "ic_tags (lookup_put a t c) = ic_tags c" "ic_plru (lookup_put a t c) = ic_plru c"
  "ic_valid (lookup_put a t c) = ic_valid c" "way_from_valid (lookup_put a t c) = way_from_valid c"
  "way_from_plru (lookup_put a t c) = way_from_plru c"
  by (simp_all add: lookup_put_def)

lemma forget_tag_eq:
  assumes "st < 128"
  shows "forget_tag tag st c = lookup_put (line_addr tag st) 0xFF c"
proof -
  have s: "\<not> bit st n" if "7 \<le> n" for n
    using assms unat_less_exp_iff [of st 7] that by (auto simp: word_less_nat_alt)
  have "bit (line_addr tag st) 29 \<longleftrightarrow> bit tag 17" "bit (line_addr tag st) 28 \<longleftrightarrow> bit tag 16"
    by (auto simp: line_addr_def bit_simps s)
  moreover have "drop_bit 5 (line_addr tag st) AND mask 20 = (push_bit 7 tag OR st) AND mask 20"
    "drop_bit 5 (line_addr tag st) AND mask 21 = (push_bit 7 tag OR st) AND mask 21"
    by (rule bit_word_eqI; auto simp: line_addr_def bit_simps s)+
  ultimately show ?thesis
    unfolding forget_tag_def lookup_put_def region_bits by (simp add: mask_eq_exp_minus_1)
qed

lemma set_of_less: "set_of a < 128" "unat (set_of a) < 128"
proof -
  have "set_of a = take_bit 7 (drop_bit 5 a)" by (simp add: set_of_def and_eq_take_bit)
  then have "unat (set_of a) < 2 ^ 7" by (simp only: unat_take_bit) simp
  then show "set_of a < 128" "unat (set_of a) < 128" by (simp_all add: word_less_nat_alt)
qed

lemma ic_slot_set_of: "ic_slot a = ic_slot b \<Longrightarrow> set_of a = set_of b"
proof -
  have e: "set_of a = (snd (ic_slot a)) AND 0x7F" for a
    by (auto simp: set_of_def ic_slot_def and.assoc)
  then show "ic_slot a = ic_slot b \<Longrightarrow> set_of a = set_of b" by simp
qed

lemma line_addr_self: "line_addr (drop_bit 12 a) (set_of a) = a AND NOT 0x1F"
proof -
  have m: "(0x1F :: u32) = mask 5" "(0x7F :: u32) = mask 7" by (simp_all add: mask_eq_exp_minus_1)
  show ?thesis unfolding line_addr_def set_of_def m
  proof (rule bit_word_eqI, unfold bit_or_iff bit_and_iff bit_push_bit_iff bit_drop_bit_eq bit_mask_iff bit_not_iff comp_def)
    fix n assume "n < LENGTH(32)"
    then show "(12 \<le> n \<and> possible_bit TYPE(u32) n \<and> bit a (12 + (n - 12)) \<or>
        5 \<le> n \<and> possible_bit TYPE(u32) n \<and> bit a (5 + (n - 5)) \<and> possible_bit TYPE(u32) (n - 5) \<and> n - 5 < 7) \<longleftrightarrow>
      (bit a n \<and> possible_bit TYPE(u32) n \<and> \<not> (possible_bit TYPE(u32) n \<and> n < 5))"
      by (cases "12 \<le> n"; cases "5 \<le> n") auto
  qed
qed

lemma ic_slot_line_addr_self [simp]: "ic_slot (line_addr (drop_bit 12 a) (set_of a)) = ic_slot a"
proof -
  have m: "(0x1F :: u32) = mask 5" by (simp add: mask_eq_exp_minus_1)
  have "bit (a AND NOT 0x1F) n \<longleftrightarrow> bit a n" if "5 \<le> n" for n
    using that unfolding m by (auto simp only: bit_and_iff bit_not_iff bit_mask_iff possible_bit_word dest: bit_imp_le_length)
  moreover from this have "drop_bit 5 (a AND NOT 0x1F) = drop_bit 5 a"
    by (intro bit_word_eqI) (simp only: bit_drop_bit_eq comp_def le_add1)
  ultimately show ?thesis unfolding line_addr_self ic_slot_def by simp
qed

lemma set_of_line_addr: "st < 128 \<Longrightarrow> set_of (line_addr tag st) = st"
proof -
  assume "st < 128"
  then have s: "\<not> bit st n" if "7 \<le> n" for n
    using unat_less_exp_iff [of st 7] that by (auto simp: word_less_nat_alt)
  have "drop_bit 5 (line_addr tag st) AND mask 7 = st"
    by (rule bit_word_eqI) (auto simp: line_addr_def bit_simps s dest: bit_imp_le_length, metis not_le s)
  then show ?thesis by (simp add: set_of_def mask_eq_exp_minus_1)
qed

subsection \<open>The invariant\<close>

definition line_of :: "InstructionCache \<Rightarrow> nat \<Rightarrow> nat \<Rightarrow> u32" where
  "line_of c st t = line_addr (ic_tags c st t) (of_nat st)"

definition tables_built :: "InstructionCache \<Rightarrow> bool" where
  "tables_built c \<longleftrightarrow>
     way_from_valid c = map (\<lambda>m. first_clear (of_nat m) 0) [0..<255] \<and>
     way_from_plru c = map (\<lambda>m. plru_way (of_nat m)) [0..<128]"

text \<open>The valid ways and the entries of the tables that name a way correspond to each other.\<close>

definition ways_found :: "InstructionCache \<Rightarrow> bool" where
  "ways_found c \<longleftrightarrow>
     (\<forall>st < 128. \<forall>t < 8. bit (ic_valid c st) t \<longrightarrow> lookup_at (line_of c st t) c = of_nat t)"

definition entries_right :: "InstructionCache \<Rightarrow> bool" where
  "entries_right c \<longleftrightarrow>
     (\<forall>a. let st = unat (set_of a); t = unat (lookup_at a c) in
       t \<noteq> 0xFF \<longrightarrow> t < 8 \<and> bit (ic_valid c st) t \<and> ic_slot (line_of c st t) = ic_slot a)"

definition icache_inv :: "InstructionCache \<Rightarrow> bool" where
  "icache_inv c \<longleftrightarrow>
     tables_built c \<and> (\<forall>st < 128. unat (ic_valid c st) < 256 \<and> unat (ic_plru c st) < 128) \<and> ways_found c \<and> entries_right c"

lemma icache_inv_Init: "icache_inv (ICache_Init (InstructionCache_construct c))"
  by (simp add: icache_inv_def tables_built_def ways_found_def entries_right_def ICache_Init_def ICache_Reset_def
      InstructionCache_construct_def lookup_at_def Let_def)

lemma icache_inv_Reset: "icache_inv c \<Longrightarrow> icache_inv (ICache_Reset c)"
  by (simp add: icache_inv_def tables_built_def ways_found_def entries_right_def ICache_Reset_def lookup_at_def Let_def)

text \<open>Whether the address is in memory, and the cached lines agree with memory.\<close>

definition fetchable :: "Memory \<Rightarrow> u32 \<Rightarrow> bool" where
  "fetchable m a \<longleftrightarrow> GetPointer a m \<noteq> None"

text \<open>Where the line of an address is in the arena.\<close>

definition line_ptr :: "u32 \<Rightarrow> u32" where "line_ptr a = (a AND NOT 0x1F) AND 0x3FFFFFFF"

definition icache_coherent :: "Memory \<Rightarrow> InstructionCache \<Rightarrow> bool" where
  "icache_coherent m c \<longleftrightarrow>
     (\<forall>st < 128. \<forall>t < 8. bit (ic_valid c st) t \<longrightarrow>
       fetchable m (line_of c st t) \<and>
       (\<exists>bs. load_bytes 32 (line_ptr (line_of c st t)) (physical_base m) = Inr bs \<and> ic_data c st t = words_of bs))"

subsection \<open>Selecting a way\<close>

lemma first_clear_not_bit: "\<not> bit m (first_clear m w)"
  by (induction m w rule: first_clear.induct) (subst first_clear.simps, simp)

lemma first_clear_below: "bit m k \<or> k < w \<or> first_clear m w \<le> k"
  by (induction m w rule: first_clear.induct) (subst first_clear.simps, auto simp: le_eq_less_or_eq less_Suc_eq)

lemma first_clear_less:
  assumes "unat m < 255"
  shows "first_clear m 0 < 8"
proof (rule ccontr)
  assume "\<not> first_clear m 0 < 8"
  then have all: "bit m k" if "k < 8" for k using first_clear_below [of m k 0] that by auto
  have "take_bit 8 m = mask 8"
    by (rule bit_word_eqI) (auto simp only: bit_take_bit_iff bit_mask_iff possible_bit_word all)
  then have "unat m mod 256 = 255" using unat_take_bit [of 8 m] by (simp add: mask_eq_exp_minus_1)
  with assms show False by simp
qed

lemma plru_way_less: "plru_way m < 8"
  by (simp add: plru_way_def)

lemma select_way_props:
  assumes "icache_inv c" and "st < 128"
  shows "select_way st c < 8"
    and "ic_valid c st \<noteq> 0xFF \<Longrightarrow> \<not> bit (ic_valid c st) (select_way st c)"
    and "ic_valid c st = 0xFF \<Longrightarrow> select_way st c = plru_way (ic_plru c st)"
proof -
  have b: "unat (ic_valid c st) < 256" "unat (ic_plru c st) < 128" "tables_built c"
    using assms by (simp_all add: icache_inv_def)
  have "unat (ic_valid c st) < 255" if "ic_valid c st \<noteq> 0xFF"
  proof -
    have "unat (ic_valid c st) \<noteq> unat (0xFF :: u32)" using that word_unat_eqI by blast
    with b(1) show ?thesis by simp
  qed
  then have w: "select_way st c = (if ic_valid c st \<noteq> 0xFF then first_clear (ic_valid c st) 0 else plru_way (ic_plru c st))"
    using b by (auto simp: select_way_def tables_built_def)
  with \<open>ic_valid c st \<noteq> 0xFF \<Longrightarrow> unat (ic_valid c st) < 255\<close> show "select_way st c < 8"
    by (simp add: first_clear_less plru_way_less)
  show "ic_valid c st \<noteq> 0xFF \<Longrightarrow> \<not> bit (ic_valid c st) (select_way st c)"
    "ic_valid c st = 0xFF \<Longrightarrow> select_way st c = plru_way (ic_plru c st)"
    using w by (simp_all add: first_clear_not_bit)
qed

subsection \<open>Every operation keeps the invariant\<close>

lemma lookup_at_slot: "ic_slot a = ic_slot b \<Longrightarrow> lookup_at a c = lookup_at b c"
  using lookup_at_put [of a a "lookup_at a c" c] unfolding lookup_at_def ic_slot_def region_bits by (auto split: if_splits)

lemma lookup_at_cong:
  "lookup_table c = lookup_table c' \<Longrightarrow> lookup_table_ex c = lookup_table_ex c' \<Longrightarrow>
   lookup_table_vmem c = lookup_table_vmem c' \<Longrightarrow> lookup_at a c = lookup_at a c'"
  by (simp add: lookup_at_def)

lemma set_of_line_of: "st < 128 \<Longrightarrow> unat (set_of (line_of c st t)) = st"
  by (simp add: line_of_def set_of_line_addr word_less_nat_alt unsigned_of_nat take_bit_nat_eq_self)

lemma forget_way_eq:
  assumes "st < 128"
  shows "forget_way st t c = (if bit (ic_valid c (unat st)) t then lookup_put (line_of c (unat st) t) 0xFF c else c)"
  using assms by (simp add: forget_way_def forget_tag_eq line_of_def)

lemma ways_foundD: "icache_inv c \<Longrightarrow> st < 128 \<Longrightarrow> t < 8 \<Longrightarrow> bit (ic_valid c st) t \<Longrightarrow> lookup_at (line_of c st t) c = of_nat t"
  by (simp add: icache_inv_def ways_found_def)

lemma entries_rightD:
  assumes "icache_inv c" and "lookup_at a c \<noteq> 0xFF"
  shows "unat (lookup_at a c) < 8" and "bit (ic_valid c (unat (set_of a))) (unat (lookup_at a c))"
    and "ic_slot (line_of c (unat (set_of a)) (unat (lookup_at a c))) = ic_slot a"
proof -
  have "unat (lookup_at a c) \<noteq> unat (0xFF :: u8)" using assms(2) word_unat_eqI by blast
  then show "unat (lookup_at a c) < 8" "bit (ic_valid c (unat (set_of a))) (unat (lookup_at a c))"
    "ic_slot (line_of c (unat (set_of a)) (unat (lookup_at a c))) = ic_slot a"
    using assms(1) by (auto simp: icache_inv_def entries_right_def Let_def)
qed

lemma unat_way: "t < 8 \<Longrightarrow> unat (of_nat t :: u8) = t"
  by (simp add: unsigned_of_nat take_bit_nat_eq_self)

lemma way_not_ff: "t < 8 \<Longrightarrow> (of_nat t :: u8) \<noteq> 0xFF"
proof
  assume t: "t < 8" and ff: "(of_nat t :: u8) = 0xFF"
  have "t = unat (of_nat t :: u8)" by (rule unat_way [OF t, symmetric])
  also have "\<dots> = 255" unfolding ff by simp
  finally show False using t by simp
qed

lemma way_unique:
  assumes "icache_inv c" and "st < 128" "t < 8" "bit (ic_valid c st) t" and "st' < 128" "t' < 8" "bit (ic_valid c st') t'"
    and "ic_slot (line_of c st t) = ic_slot (line_of c st' t')"
  shows "st = st' \<and> t = t'"
proof -
  have "of_nat t = (of_nat t' :: u8)"
    using ways_foundD [OF assms(1-4)] ways_foundD [OF assms(1,5-7)] lookup_at_slot [OF assms(8), of c] by simp
  then have "unat (of_nat t :: u8) = unat (of_nat t' :: u8)" by (rule arg_cong)
  then have "t = t'" unfolding unat_way [OF assms(3)] unat_way [OF assms(6)] .
  moreover have "st = st'"
    using ic_slot_set_of [OF assms(8)] set_of_line_of [OF assms(2), of c t] set_of_line_of [OF assms(5), of c t'] by simp
  ultimately show ?thesis by simp
qed

text \<open>What \<open>load_line\<close> does to the tables.\<close>

definition put_line :: "u32 \<Rightarrow> nat \<Rightarrow> InstructionCache \<Rightarrow> InstructionCache" where
  "put_line addr t c =
     (let st = unat (set_of addr); c3 = lookup_put addr (of_nat t) (forget_way (set_of addr) t c)
      in c3\<lparr>ic_tags := (ic_tags c3)(st := (ic_tags c3 st)(t := drop_bit 12 addr)),
            ic_valid := (ic_valid c3)(st := ic_valid c3 st OR push_bit t 1)\<rparr>)"

lemma put_line_fields:
  "ic_data (put_line addr t c) = ic_data c" "ic_plru (put_line addr t c) = ic_plru c"
  "way_from_valid (put_line addr t c) = way_from_valid c" "way_from_plru (put_line addr t c) = way_from_plru c"
  "ic_tags (put_line addr t c) = (ic_tags c)(unat (set_of addr) := (ic_tags c (unat (set_of addr)))(t := drop_bit 12 addr))"
  "ic_valid (put_line addr t c) = (ic_valid c)(unat (set_of addr) := ic_valid c (unat (set_of addr)) OR push_bit t 1)"
  by (simp_all add: put_line_def Let_def forget_way_eq set_of_less)

lemma put_line_lookup:
  "lookup_at a (put_line addr t c) =
     (if ic_slot a = ic_slot addr then of_nat t
      else if bit (ic_valid c (unat (set_of addr))) t \<and> ic_slot a = ic_slot (line_of c (unat (set_of addr)) t) then 0xFF
      else lookup_at a c)"
proof -
  let ?c3 = "lookup_put addr (of_nat t) (forget_way (set_of addr) t c)"
  have "lookup_at a (put_line addr t c) = lookup_at a ?c3"
    by (rule lookup_at_cong) (simp_all add: put_line_def Let_def)
  then show ?thesis by (simp add: forget_way_eq set_of_less)
qed

lemma put_line_valid:
  "t < 8 \<Longrightarrow> bit (ic_valid (put_line addr t c) st) t' \<longleftrightarrow>
     bit (ic_valid c st) t' \<or> st = unat (set_of addr) \<and> t' = t"
  by (auto simp: put_line_fields bit_or_iff bit_push_bit_iff bit_1_iff possible_bit_word simp del: push_bit_of_1)

lemma put_line_line_of:
  "line_of (put_line addr t c) st t' =
     (if st = unat (set_of addr) \<and> t' = t then addr AND NOT 0x1F else line_of c st t')"
  by (auto simp: line_of_def put_line_fields line_addr_self)

lemma ic_slot_line: "ic_slot (a AND NOT 0x1F) = ic_slot a" "ic_slot (a AND - 32) = ic_slot a"
  using ic_slot_line_addr_self [of a] unfolding line_addr_self by simp_all

lemma ways_found_put_line:
  assumes inv: "icache_inv c" and new: "lookup_at addr c = 0xFF" and t: "t < 8"
  shows "ways_found (put_line addr t c)"
  unfolding ways_found_def
proof (intro allI impI)
  fix st t' assume st: "st < 128" and t': "t' < 8" and v: "bit (ic_valid (put_line addr t c) st) t'"
  show "lookup_at (line_of (put_line addr t c) st t') (put_line addr t c) = of_nat t'"
  proof (cases "st = unat (set_of addr) \<and> t' = t")
    case True
    then show ?thesis by (simp add: put_line_line_of put_line_lookup ic_slot_line)
  next
    case False
    with v t have v': "bit (ic_valid c st) t'" by (simp add: put_line_valid)
    have l: "lookup_at (line_of c st t') c = of_nat t'" using ways_foundD [OF inv st t' v'] .
    have "ic_slot (line_of c st t') \<noteq> ic_slot addr"
      using l new way_not_ff [OF t'] lookup_at_slot [of "line_of c st t'" addr c] by auto
    moreover have "\<not> (bit (ic_valid c (unat (set_of addr))) t \<and> ic_slot (line_of c st t') = ic_slot (line_of c (unat (set_of addr)) t))"
      using way_unique [OF inv st t' v' set_of_less(2) t] False by blast
    ultimately show ?thesis using False l by (auto simp: put_line_line_of put_line_lookup)
  qed
qed

lemma entries_right_put_line:
  assumes inv: "icache_inv c" and t: "t < 8"
  shows "entries_right (put_line addr t c)"
  unfolding entries_right_def Let_def
proof (intro allI impI)
  fix a assume ne: "unat (lookup_at a (put_line addr t c)) \<noteq> 0xFF"
  let ?c = "put_line addr t c" and ?s = "unat (set_of addr)"
  show "unat (lookup_at a ?c) < 8 \<and> bit (ic_valid ?c (unat (set_of a))) (unat (lookup_at a ?c)) \<and>
    ic_slot (line_of ?c (unat (set_of a)) (unat (lookup_at a ?c))) = ic_slot a"
  proof (cases "ic_slot a = ic_slot addr")
    case True
    then have "set_of a = set_of addr" by (rule ic_slot_set_of)
    with True t show ?thesis
      by (simp add: put_line_lookup unat_way put_line_valid put_line_line_of ic_slot_line)
  next
    case False
    then have l: "lookup_at a ?c = lookup_at a c" and nf: "\<not> (bit (ic_valid c ?s) t \<and> ic_slot a = ic_slot (line_of c ?s t))"
      using ne by (auto simp: put_line_lookup split: if_splits)
    then have "lookup_at a c \<noteq> 0xFF" using ne by auto
    note e = entries_rightD [OF inv this]
    have "\<not> (unat (set_of a) = ?s \<and> unat (lookup_at a c) = t)" using e nf by auto
    with e l t show ?thesis by (auto simp: put_line_valid put_line_line_of)
  qed
qed

lemma lookup_at_update [simp]:
  "lookup_at a (c\<lparr>ic_data := d\<rparr>) = lookup_at a c" "lookup_at a (c\<lparr>ic_plru := q\<rparr>) = lookup_at a c"
  "lookup_at a (c\<lparr>ic_valid := v\<rparr>) = lookup_at a c"
  by (simp_all add: lookup_at_def)

lemma line_of_update [simp]:
  "line_of (c\<lparr>ic_data := d\<rparr>) = line_of c" "line_of (c\<lparr>ic_plru := q\<rparr>) = line_of c" "line_of (c\<lparr>ic_valid := v\<rparr>) = line_of c"
  by (simp_all add: line_of_def fun_eq_iff)

lemma line_of_lookup_put [simp]: "line_of (lookup_put a v c) = line_of c"
  by (simp add: line_of_def fun_eq_iff)

lemma icache_inv_data [simp]: "icache_inv (c\<lparr>ic_data := d\<rparr>) = icache_inv c"
  by (simp add: icache_inv_def tables_built_def ways_found_def entries_right_def)

lemma icache_inv_put_line:
  assumes "icache_inv c" and "lookup_at addr c = 0xFF" and "t < 8"
  shows "icache_inv (put_line addr t c)"
proof -
  have "unat (ic_valid (put_line addr t c) st) < 2 ^ 8" if "st < 128" for st
  proof -
    have "unat (ic_valid c st) < 2 ^ 8" using assms(1) that by (simp add: icache_inv_def)
    then have "bit (ic_valid c st) n \<Longrightarrow> n < 8" for n unfolding unat_less_exp_iff by blast
    then show ?thesis unfolding unat_less_exp_iff using assms(3) by (auto simp: put_line_valid)
  qed
  with assms ways_found_put_line [OF assms] entries_right_put_line [OF assms(1,3), of addr] show ?thesis
    by (simp add: icache_inv_def tables_built_def put_line_fields)
qed

lemma icache_inv_touch:
  assumes "icache_inv c" and "t < 8"
  shows "icache_inv (touch st t c)"
proof -
  have "\<forall>v \<in> set s_plru_value. unat v < 2 ^ 7" by (simp add: s_plru_value_def)
  moreover have "s_plru_value ! t \<in> set s_plru_value" using assms(2) by (intro nth_mem) (simp add: s_plru_value_def)
  ultimately have v: "bit (s_plru_value ! t) n \<Longrightarrow> n < 7" for n using unat_less_exp_iff by blast
  have "unat ((ic_plru c st AND NOT m) OR s_plru_value ! t) < 2 ^ 7" if "st < 128" for st m
  proof -
    have "unat (ic_plru c st) < 2 ^ 7" using assms(1) that by (simp add: icache_inv_def)
    with v show ?thesis unfolding unat_less_exp_iff by (auto simp only: bit_or_iff bit_and_iff)
  qed
  with assms(1) show ?thesis
    by (simp add: icache_inv_def touch_def tables_built_def ways_found_def entries_right_def)
qed

lemma fold_forget_way:
  assumes "st < 128"
  shows "lookup_at a (fold (forget_way st) ts c) =
      (if \<exists>t \<in> set ts. bit (ic_valid c (unat st)) t \<and> ic_slot a = ic_slot (line_of c (unat st) t) then 0xFF else lookup_at a c)"
    and "ic_tags (fold (forget_way st) ts c) = ic_tags c" "ic_data (fold (forget_way st) ts c) = ic_data c"
    "ic_valid (fold (forget_way st) ts c) = ic_valid c" "ic_plru (fold (forget_way st) ts c) = ic_plru c"
    "way_from_valid (fold (forget_way st) ts c) = way_from_valid c" "way_from_plru (fold (forget_way st) ts c) = way_from_plru c"
proof -
  have f: "ic_tags (forget_way st t c) = ic_tags c" "ic_data (forget_way st t c) = ic_data c" "ic_valid (forget_way st t c) = ic_valid c"
    "ic_plru (forget_way st t c) = ic_plru c" "way_from_valid (forget_way st t c) = way_from_valid c"
    "way_from_plru (forget_way st t c) = way_from_plru c" "line_of (forget_way st t c) = line_of c" for t c
    using assms by (simp_all add: forget_way_eq line_of_def fun_eq_iff)
  show "lookup_at a (fold (forget_way st) ts c) =
      (if \<exists>t \<in> set ts. bit (ic_valid c (unat st)) t \<and> ic_slot a = ic_slot (line_of c (unat st) t) then 0xFF else lookup_at a c)"
    by (induction ts arbitrary: c) (auto simp: f forget_way_eq [OF assms])
  show "ic_tags (fold (forget_way st) ts c) = ic_tags c" "ic_data (fold (forget_way st) ts c) = ic_data c"
    "ic_valid (fold (forget_way st) ts c) = ic_valid c" "ic_plru (fold (forget_way st) ts c) = ic_plru c"
    "way_from_valid (fold (forget_way st) ts c) = way_from_valid c" "way_from_plru (fold (forget_way st) ts c) = way_from_plru c"
    by (induction ts arbitrary: c) (simp_all add: f)
qed

lemma icache_inv_Invalidate:
  assumes inv: "icache_inv c"
  shows "icache_inv (Invalidate addr s c)"
proof (cases "HID0_ICE s")
  case True
  let ?st = "unat (set_of addr)"
  define c1 where "c1 = fold (forget_way (set_of addr)) [0..<8] c"
  define c' where "c' = c1\<lparr>ic_valid := (ic_valid c1)(?st := 0)\<rparr>"
  note f = fold_forget_way [OF set_of_less(1) [of addr], where ts = "[0..<8]" and c = c, folded c1_def]
  have line: "line_of c' = line_of c" by (simp add: c'_def line_of_def f fun_eq_iff)
  have valid: "ic_valid c' = (ic_valid c)(?st := 0)" by (simp add: c'_def f)
  have look: "lookup_at a c' = (if \<exists>t < 8. bit (ic_valid c ?st) t \<and> ic_slot a = ic_slot (line_of c ?st t) then 0xFF else lookup_at a c)" for a
    by (auto simp: c'_def f(1))
  have "ways_found c'"
    unfolding ways_found_def
  proof (intro allI impI)
    fix st t assume st: "st < 128" and t: "t < 8" and "bit (ic_valid c' st) t"
    then have ne: "st \<noteq> ?st" and v: "bit (ic_valid c st) t" by (auto simp: valid split: if_splits)
    have "ic_slot (line_of c st t) \<noteq> ic_slot (line_of c ?st t')" for t'
      using ic_slot_set_of [of "line_of c st t" "line_of c ?st t'"] set_of_line_of [OF st, of c t]
        set_of_line_of [OF set_of_less(2), of c addr t'] ne by auto
    then show "lookup_at (line_of c' st t) c' = of_nat t"
      using ways_foundD [OF inv st t v] by (simp add: line look)
  qed
  moreover have "entries_right c'"
    unfolding entries_right_def Let_def
  proof (intro allI impI)
    fix a assume ne: "unat (lookup_at a c') \<noteq> 0xFF"
    then have l: "lookup_at a c' = lookup_at a c" and nf: "\<not> (\<exists>t < 8. bit (ic_valid c ?st) t \<and> ic_slot a = ic_slot (line_of c ?st t))"
      by (auto simp: look split: if_splits)
    then have "lookup_at a c \<noteq> 0xFF" using ne by auto
    note e = entries_rightD [OF inv this]
    have "unat (set_of a) \<noteq> ?st" using e nf by auto
    with e l show "unat (lookup_at a c') < 8 \<and> bit (ic_valid c' (unat (set_of a))) (unat (lookup_at a c')) \<and>
        ic_slot (line_of c' (unat (set_of a)) (unat (lookup_at a c'))) = ic_slot a"
      by (simp add: valid line)
  qed
  moreover have "Invalidate addr s c = c'" using True by (simp add: Invalidate_def Let_def c'_def c1_def)
  ultimately show ?thesis using inv
    by (simp add: icache_inv_def tables_built_def valid) (simp add: c'_def f)
qed (simp add: Invalidate_def inv)

subsection \<open>Lines of memory\<close>

lemma and_masks_u32:
  "x AND 0x3FFFFFFF = take_bit 30 x" "x AND 0x0FFFFFFF = take_bit 28 x" "x AND 0x1F = take_bit 5 x"
  "x AND 0xFFFFF = take_bit 20 x" "x AND 0x1FFFFF = take_bit 21 x" "x AND 7 = take_bit 3 x" for x :: u32
  by (simp_all add: take_bit_eq_mask mask_eq_exp_minus_1)

text \<open>Whether an address is in memory depends only on its line.\<close>

lemma second_block_iff:
  fixes n k M :: nat
  assumes "M \<le> k" and "0 < k"
  shows "n div k = 1 \<and> n mod k < M \<longleftrightarrow> k \<le> n \<and> n < k + M"
proof
  assume *: "n div k = 1 \<and> n mod k < M"
  have "n = k * (n div k) + n mod k" by simp
  with * have "n = k + n mod k" by (metis mult.right_neutral)
  with * show "k \<le> n \<and> n < k + M" by linarith
next
  assume *: "k \<le> n \<and> n < k + M"
  then have "n div k = 1" using assms by (simp add: div_nat_eqI)
  moreover from this have "n mod k = n - k" using div_mult_mod_eq [of n k] by simp
  ultimately show "n div k = 1 \<and> n mod k < M" using * by linarith
qed

lemma fetchable_iff:
  "fetchable m a \<longleftrightarrow>
     (let k = unat a mod 2 ^ 30 div 32 in k < 0xC0000 \<or> m_pEXRAM m \<and> 0x800000 \<le> k \<and> k < 0xA00000)"
proof -
  let ?y = "take_bit 30 a" and ?n = "unat a mod 2 ^ 30"
  have blk: "0x4000000 \<le> (2 ^ 28 :: nat)" "0 < (2 ^ 28 :: nat)" by simp_all
  have n: "unat ?y = ?n" by (rule unat_take_bit)
  have "unat (drop_bit 28 ?y) = ?n div 2 ^ 28" unfolding unat_drop_bit_eq n by (rule drop_bit_eq_div)
  moreover have "unat (take_bit 28 ?y) = ?n mod 2 ^ 28" by (simp only: unat_take_bit n)
  moreover have "drop_bit 28 ?y = 1 \<longleftrightarrow> unat (drop_bit 28 ?y) = 1" using word_unat_eqI [of "drop_bit 28 ?y" 1] by auto
  ultimately have "fetchable m a \<longleftrightarrow> ?n < 0x1800000 \<or> m_pEXRAM m \<and> ?n div 2 ^ 28 = 1 \<and> ?n mod 2 ^ 28 < 0x4000000"
    unfolding fetchable_def GetPointer_def Let_def and_masks_u32 by (simp add: word_less_nat_alt n)
  also have "\<dots> \<longleftrightarrow> (let k = ?n div 32 in k < 0xC0000 \<or> m_pEXRAM m \<and> 0x800000 \<le> k \<and> k < 0xA00000)"
    unfolding Let_def second_block_iff [of "0x4000000" "2 ^ 28" ?n, OF blk] by (auto simp: div_less_iff_less_mult less_eq_div_iff_mult_less_eq)
  finally show ?thesis .
qed

lemma unat_line: "unat (a AND NOT 0x1F) = unat a div 32 * 32" for a :: u32
proof -
  have "a = (a AND NOT 0x1F) + take_bit 5 a"
  proof -
    have "a AND NOT (mask 5) = push_bit 5 (drop_bit 5 a)" by (rule bit_word_eqI) (auto simp: bit_simps)
    moreover have "(0x1F :: u32) = mask 5" by (simp add: mask_eq_exp_minus_1)
    ultimately show ?thesis using bits_ident [of 5 a] by simp
  qed
  then have "unat (a - take_bit 5 a) = unat (a AND NOT 0x1F)" by (metis add_diff_cancel_right')
  moreover have "unat (take_bit 5 a) = unat a mod 32" using unat_take_bit [of 5 a] by simp
  moreover have "unat a mod 32 \<le> unat a" by simp
  ultimately have "unat (a AND NOT 0x1F) = unat a - unat a mod 32"
    by (simp add: unat_sub_if' )
  then show ?thesis using minus_mod_eq_div_mult [of "unat a" 32] by simp
qed

lemma line_number: "unat a mod 2 ^ 30 div 32 = unat a div 32 mod 2 ^ 25" for a :: u32
proof -
  have "drop_bit 5 (take_bit 30 (unat a)) = take_bit 25 (drop_bit 5 (unat a))" by (simp add: drop_bit_take_bit)
  then show ?thesis by (simp add: drop_bit_eq_div take_bit_eq_mod)
qed

lemma ic_slot_fetchable:
  assumes "fetchable m a"
  shows "map_prod id unat (ic_slot a) =
    (let k = unat a mod 2 ^ 30 div 32 in if k < 0xC0000 then (0, k) else (1, k - 0x800000))"
proof -
  define n where "n = unat a mod 2 ^ 30"
  define k where "k = n div 32"
  let ?y = "take_bit 30 a"
  have n: "unat ?y = n" unfolding n_def by (rule unat_take_bit)
  have y: "bit a i \<longleftrightarrow> bit ?y i" if "i < 30" for i using that by (simp add: bit_take_bit_iff)
  have kb: "k < 0xC0000 \<or> 0x800000 \<le> k \<and> k < 0xA00000"
    using assms by (auto simp: fetchable_iff k_def n_def Let_def)
  have nk: "n < 32 * k + 32" "32 * k \<le> n" unfolding k_def by simp_all
  have low: "unat (drop_bit 5 a) mod 2 ^ j = k mod 2 ^ j" if "j \<le> 25" for j
  proof -
    have "unat (drop_bit 5 a) = unat a div 32" unfolding unat_drop_bit_eq by (simp add: drop_bit_eq_div)
    moreover have "k = unat a div 32 mod 2 ^ 25" unfolding k_def n_def by (rule line_number)
    moreover have "unat a div 32 mod 2 ^ 25 mod 2 ^ j = unat a div 32 mod 2 ^ j"
      by (rule mod_mod_cancel) (rule le_imp_power_dvd [OF that])
    ultimately show ?thesis by simp
  qed
  have s20: "unat (drop_bit 5 a AND 0xFFFFF) = k mod 2 ^ 20" and s21: "unat (drop_bit 5 a AND 0x1FFFFF) = k mod 2 ^ 21"
    unfolding and_masks_u32 unat_take_bit using low [of 20] low [of 21] by simp_all
  show ?thesis
  proof (cases "k < 0xC0000")
    case True
    then have "unat ?y < 2 ^ 25" unfolding n using nk by simp
    then have "\<not> bit a 29" "\<not> bit a 28" unfolding unat_less_exp_iff using y [of 29] y [of 28] by force+
    with True s20 show ?thesis by (simp add: ic_slot_def k_def n_def Let_def)
  next
    case False
    then have "unat ?y < 2 ^ 29" "\<not> unat ?y < 2 ^ 28" unfolding n using nk kb by simp_all
    then have b: "bit ?y i \<Longrightarrow> i < 29" and "\<exists>i. bit ?y i \<and> \<not> i < 28" for i
      unfolding unat_less_exp_iff by blast+
    then obtain i where i: "bit ?y i" "\<not> i < 28" by blast
    with b [OF i(1)] have "i = 28" by simp
    with i y [of 28] have "bit a 28" by simp
    moreover have "\<not> bit a 29" using b [of 29] y [of 29] by auto
    moreover have "k mod 2 ^ 21 = k - 0x800000"
    proof -
      have "k = (k - 0x800000) + 4 * 2 ^ 21" "k - 0x800000 < 2 ^ 21" using kb False by (simp_all; linarith)+
      then show ?thesis by (metis mod_mult_self1 mod_less)
    qed
    ultimately show ?thesis using False s21 by (simp add: ic_slot_def k_def n_def Let_def)
  qed
qed

lemma ic_slot_inj:
  assumes "fetchable m a" and "fetchable m b" and "ic_slot a = ic_slot b"
  shows "unat a mod 2 ^ 30 div 32 = unat b mod 2 ^ 30 div 32"
proof -
  define k where "k = unat a mod 2 ^ 30 div 32"
  define l where "l = unat b mod 2 ^ 30 div 32"
  have "map_prod id unat (ic_slot a) = map_prod id unat (ic_slot b)" using assms(3) by simp
  moreover have "k < 0xC0000 \<or> 0x800000 \<le> k" "l < 0xC0000 \<or> 0x800000 \<le> l"
    using assms(1,2) by (auto simp: fetchable_iff Let_def k_def l_def)
  ultimately have "k = l"
    unfolding ic_slot_fetchable [OF assms(1)] ic_slot_fetchable [OF assms(2)] k_def [symmetric] l_def [symmetric] Let_def
    by (auto split: if_splits)
  then show ?thesis by (simp add: k_def l_def)
qed

lemma unat_line_ptr: "unat (line_ptr a) = 32 * (unat a mod 2 ^ 30 div 32)"
proof -
  have "unat (line_ptr a) = unat a div 32 * 32 mod 2 ^ 30"
    unfolding line_ptr_def and_masks_u32 unat_take_bit unat_line ..
  also have "\<dots> = unat a div 32 mod 2 ^ 25 * 32" using mod_mult_mult2 [of "unat a div 32" 32 "2 ^ 25"] by simp
  finally show ?thesis by (simp only: line_number mult.commute)
qed

lemma fetchable_line: "unat b div 32 = unat a div 32 \<Longrightarrow> fetchable m b = fetchable m a"
  unfolding fetchable_iff line_number by simp

lemma fetchable_line_ptr:
  assumes "fetchable m a" and "i < 32"
  shows "region_mapped m (line_ptr a + of_nat i)"
proof -
  define k where "k = unat a mod 2 ^ 30 div 32"
  have k: "k < 0xC0000 \<or> m_pEXRAM m \<and> 0x800000 \<le> k \<and> k < 0xA00000"
    using assms(1) by (simp add: fetchable_iff Let_def k_def)
  have u: "unat (line_ptr a + of_nat i) = 32 * k + i"
  proof -
    have "unat (line_ptr a) = 32 * k" unfolding k_def by (rule unat_line_ptr)
    with k assms(2) show ?thesis by (auto simp: unat_word_ariths unat_of_nat_u32)
  qed
  show ?thesis
  proof (cases "k < 0xC0000")
    case True
    then show ?thesis using u assms(2) by (simp add: region_mapped_def in_region_def word_less_nat_alt)
  next
    case False
    with k have "m_pEXRAM m" "0x10000000 \<le> 32 * k" "32 * k + 32 \<le> 0x14000000" by auto
    then show ?thesis using u assms(2)
      by (simp add: region_mapped_def in_region_def word_less_nat_alt word_le_nat_alt unat_sub_if')
  qed
qed

lemma load_line_bytes:
  assumes "mem_ok m" and "fetchable m a"
  obtains bs where "CopyFromEmu (a AND NOT 0x1F) 32 m = Inr (Some bs)" and "load_bytes 32 (line_ptr a) (physical_base m) = Inr bs"
    and "length bs = 32"
proof -
  have "physical_base m (line_ptr a + of_nat i) \<noteq> None" if "i < 32" for i
    using assms fetchable_line_ptr [OF assms(2) that] by (simp add: mem_ok_def)
  then obtain bs where bs: "load_bytes 32 (line_ptr a) (physical_base m) = Inr bs" and len: "length bs = 32"
    by (rule load_bytes_total)
  let ?l = "a AND NOT 0x1F"
  have l: "unat ?l = unat a div 32 * 32" by (rule unat_line)
  then have "fetchable m ?l" using assms(2) fetchable_line [of ?l a m] by simp
  then have p: "GetPointer ?l m = Some (line_ptr a)"
    using GetPointer_eq [of ?l m] by (auto simp: fetchable_def line_ptr_def)
  have "unat (?l + 31) = unat a div 32 * 32 + 31"
  proof -
    have "unat a < 2 ^ 32" using unsigned_less [of a] by simp
    then have "unat a div 32 < 2 ^ 27" by (simp add: div_less_iff_less_mult)
    then have "unat a div 32 * 32 + 31 < 2 ^ 32" by simp
    then show ?thesis by (simp only: unat_word_ariths l) simp
  qed
  then have "fetchable m (?l + 31)" using assms(2) fetchable_line [of "?l + 31" a m] by simp
  then have ne: "GetPointer (?l + 31) m \<noteq> None" by (simp add: fetchable_def)
  have e: "?l + of_nat 32 - 1 = ?l + 31" by simp
  have "GetPointer (?l + of_nat 32 - 1) m \<noteq> None" unfolding e by (rule ne)
  then have "GetPointerForRange ?l 32 m = Some (line_ptr a)"
    using p unfolding GetPointerForRange_def by simp
  then have "CopyFromEmu ?l 32 m = Inr (Some bs)" by (simp add: CopyFromEmu_def bs)
  from that [OF this bs len] show thesis .
qed

lemma word_of_line:
  assumes "mem_ok m" and "fetchable m a" and "unat a mod 4 = 0" and "load_bytes 32 (line_ptr a) (physical_base m) = Inr bs"
  shows "Memory_Read_U32 a m = Inr (swap32 (words_of bs ! unat (drop_bit 2 a AND 7)))"
proof -
  define i where "i = unat (drop_bit 2 a AND 7)"
  have i: "i = unat a div 4 mod 8"
    unfolding i_def and_masks_u32 unat_take_bit unat_drop_bit_eq by (simp add: drop_bit_eq_div)
  have "i < 8" unfolding i by simp
  have p: "GetPointer a m = Some (a AND 0x3FFFFFFF)" using assms(2) GetPointer_eq [of a m] by (auto simp: fetchable_def)
  have ptr: "a AND 0x3FFFFFFF = line_ptr a + of_nat (4 * i)"
  proof (rule word_unat_eqI)
    define n where "n = unat a mod 2 ^ 30"
    have "n mod 32 = unat a mod 32" unfolding n_def by (rule mod_mod_cancel) simp
    moreover have "4 * i = unat a mod 32" using assms(3) mod_mult2_eq [of "unat a" 4 8] unfolding i by simp
    moreover have "n < 2 ^ 30" unfolding n_def by simp
    ultimately have sum: "32 * (n div 32) + 4 * i = n" using mult_div_mod_eq [of 32 n] by simp
    have l: "unat (line_ptr a) = 32 * (n div 32)" unfolding unat_line_ptr n_def ..
    have o: "unat (of_nat (4 * i) :: u32) = 4 * i" using \<open>i < 8\<close> by (intro unat_of_nat_u32) simp
    have "unat (line_ptr a + of_nat (4 * i)) = n mod 2 ^ 32" unfolding unat_word_ariths l o sum by simp
    also have "\<dots> = n" using \<open>n < 2 ^ 30\<close> by (intro mod_less) simp
    also have "n = unat (a AND 0x3FFFFFFF)" unfolding and_masks_u32 unat_take_bit n_def ..
    finally show "unat (a AND 0x3FFFFFFF) = unat (line_ptr a + of_nat (4 * i))" by (rule sym)
  qed
  have len: "length bs = 32" and at: "\<And>j. j < 32 \<Longrightarrow> physical_base m (line_ptr a + of_nat j) = Some (bs ! j)"
    using assms(4) by (auto simp: load_bytes_Inr_iff)
  have "load_bytes 4 (a AND 0x3FFFFFFF) (physical_base m) = Inr (take 4 (drop (4 * i) bs))"
    unfolding load_bytes_Inr_iff
  proof (intro conjI allI impI)
    show "length (take 4 (drop (4 * i) bs)) = 4" using len \<open>i < 8\<close> by simp
    fix j :: nat assume "j < 4"
    then show "physical_base m ((a AND 0x3FFFFFFF) + of_nat j) = Some (take 4 (drop (4 * i) bs) ! j)"
      using at [of "4 * i + j"] \<open>i < 8\<close> len unfolding ptr by (simp add: ac_simps)
  qed
  then have "Memory_Read_U32 a m = Inr (ucast (bswap 4 (le_value (take 4 (drop (4 * i) bs)))))"
    by (simp add: Memory_Read_U32_def Memory_Read_def p host_read_def)
  moreover have "words_of bs ! i = ucast (le_value (take 4 (drop (4 * i) bs)))" using \<open>i < 8\<close> by (simp add: words_of_def)
  ultimately show ?thesis by (simp add: i_def [symmetric] swap32_def bswap_u32)
qed

subsection \<open>Fetching\<close>

lemma line_ptr_ic_slot:
  assumes "fetchable m a" and "fetchable m b" and "ic_slot a = ic_slot b"
  shows "line_ptr a = line_ptr b"
  using ic_slot_inj [OF assms] by (intro word_unat_eqI) (simp only: unat_line_ptr)

lemma line_ptr_line: "line_ptr (a AND NOT 0x1F) = line_ptr a" "line_ptr (a AND - 32) = line_ptr a"
  by (simp_all add: line_ptr_def and.assoc)

lemma load_line_eq:
  assumes "mem_ok m" and "fetchable m a"
  obtains bs where "load_line a t m c = Inr (put_line a t (c\<lparr>ic_data := (ic_data c)(unat (set_of a) := (ic_data c (unat (set_of a)))(t := words_of bs))\<rparr>))"
    and "load_bytes 32 (line_ptr a) (physical_base m) = Inr bs"
proof -
  obtain bs where bs: "CopyFromEmu (a AND NOT 0x1F) 32 m = Inr (Some bs)" "load_bytes 32 (line_ptr a) (physical_base m) = Inr bs"
    using load_line_bytes [OF assms] by blast
  have "load_line a t m c = Inr (put_line a t (c\<lparr>ic_data := (ic_data c)(unat (set_of a) := (ic_data c (unat (set_of a)))(t := words_of bs))\<rparr>))"
    unfolding load_line_def put_line_def Let_def bs(1) by simp
  from that [OF this bs(2)] show thesis .
qed

lemma icache_coherent_touch [simp]: "icache_coherent m (touch st t c) = icache_coherent m c"
  by (simp add: icache_coherent_def touch_def)

lemma icache_coherentD:
  assumes "icache_coherent m c" and "st < 128" and "t < 8" and "bit (ic_valid c st) t"
  shows "fetchable m (line_of c st t)"
    and "\<exists>bs. load_bytes 32 (line_ptr (line_of c st t)) (physical_base m) = Inr bs \<and> ic_data c st t = words_of bs"
  using assms by (auto simp: icache_coherent_def)

lemma icache_coherent_put_line:
  assumes coh: "icache_coherent m c" and a: "fetchable m a" and t: "t < 8"
    and bs: "load_bytes 32 (line_ptr a) (physical_base m) = Inr bs"
  shows "icache_coherent m (put_line a t (c\<lparr>ic_data := (ic_data c)(unat (set_of a) := (ic_data c (unat (set_of a)))(t := words_of bs))\<rparr>))"
    (is "icache_coherent m (put_line a t ?c)")
  unfolding icache_coherent_def
proof (intro allI impI)
  fix st t' assume st: "st < 128" and t': "t' < 8" and v: "bit (ic_valid (put_line a t ?c) st) t'"
  show "fetchable m (line_of (put_line a t ?c) st t') \<and>
    (\<exists>bs. load_bytes 32 (line_ptr (line_of (put_line a t ?c) st t')) (physical_base m) = Inr bs \<and>
      ic_data (put_line a t ?c) st t' = words_of bs)"
  proof (cases "st = unat (set_of a) \<and> t' = t")
    case True
    have "fetchable m (a AND NOT 0x1F)" using a fetchable_line [of "a AND NOT 0x1F" a m] unfolding unat_line by simp
    with True bs show ?thesis unfolding put_line_line_of put_line_fields(1) line_ptr_line by (simp add: line_ptr_line)
  next
    case False
    with v t have "bit (ic_valid c st) t'" by (simp add: put_line_valid)
    note icache_coherentD [OF coh st t' this]
    with False show ?thesis by (auto simp: put_line_line_of put_line_fields(1))
  qed
qed

lemma ReadInstruction_parts:
  assumes inv: "icache_inv c" and coh: "icache_coherent m c" and ok: "mem_ok m" and a: "fetchable m a" and al: "unat a mod 4 = 0"
  obtains v c' where "Memory_Read_U32 a m = Inr v" and "ReadInstruction a s m c = Inr (v, c')"
    and "icache_inv c'" and "icache_coherent m c'"
proof -
  obtain bs where bs: "load_bytes 32 (line_ptr a) (physical_base m) = Inr bs" using load_line_bytes [OF ok a] by blast
  let ?i = "unat (drop_bit 2 a AND 7)" and ?st = "unat (set_of a)"
  have read: "Memory_Read_U32 a m = Inr (swap32 (words_of bs ! ?i))" by (rule word_of_line [OF ok a al bs])
  show thesis
  proof (cases "HID0_ICE s \<and> \<not> (lookup_at a c = 0xFF \<and> HID0_ILOCK s)")
    case False
    then have "ReadInstruction a s m c = Inr (swap32 (words_of bs ! ?i), c)"
      by (auto simp: ReadInstruction_def read Let_def)
    from that [OF read this inv coh] show thesis .
  next
    case True
    show thesis
    proof (cases "lookup_at a c = 0xFF")
      case new: True
      define t where "t = select_way ?st c"
      have t: "t < 8" unfolding t_def by (rule select_way_props(1) [OF inv set_of_less(2)])
      obtain bs' where l: "load_line a t m c = Inr (put_line a t (c\<lparr>ic_data := (ic_data c)(?st := (ic_data c ?st)(t := words_of bs'))\<rparr>))"
        and "load_bytes 32 (line_ptr a) (physical_base m) = Inr bs'"
        using load_line_eq [OF ok a] by blast
      with bs have l: "load_line a t m c = Inr (put_line a t (c\<lparr>ic_data := (ic_data c)(?st := (ic_data c ?st)(t := words_of bs))\<rparr>))"
        (is "_ = Inr ?c") by simp
      have "ReadInstruction a s m c = Inr (swap32 (words_of bs ! ?i), touch ?st t ?c)"
        using True new by (simp add: ReadInstruction_def Let_def t_def [symmetric] l) (simp add: touch_def put_line_fields(1))
      moreover have "icache_inv ?c" using inv new t by (intro icache_inv_put_line) simp_all
      ultimately show thesis
        using that [OF read] icache_inv_touch [OF _ t] icache_coherent_put_line [OF coh a t bs] by simp
    next
      case False
      define t where "t = unat (lookup_at a c)"
      note e = entries_rightD [OF inv False, folded t_def]
      note d = icache_coherentD [OF coh set_of_less(2) e(1,2)]
      from d(2) obtain bs' where "load_bytes 32 (line_ptr (line_of c ?st t)) (physical_base m) = Inr bs'" "ic_data c ?st t = words_of bs'"
        by blast
      moreover have "line_ptr (line_of c ?st t) = line_ptr a" using line_ptr_ic_slot [OF d(1) a e(3)] .
      ultimately have "ic_data c ?st t = words_of bs" using bs by simp
      then have "ReadInstruction a s m c = Inr (swap32 (words_of bs ! ?i), touch ?st t c)"
        using True False by (simp add: ReadInstruction_def Let_def t_def [symmetric]) (simp add: touch_def)
      then show thesis using that [OF read] icache_inv_touch [OF inv e(1)] coh by simp
    qed
  qed
qed

lemma ReadInstruction_ex:
  assumes "icache_inv c" and "icache_coherent m c" and "mem_ok m" and "fetchable m a" and "unat a mod 4 = 0"
  shows "\<exists>v c'. Memory_Read_U32 a m = Inr v \<and> ReadInstruction a s m c = Inr (v, c') \<and> icache_inv c' \<and> icache_coherent m c'"
  by (rule ReadInstruction_parts [OF assms, of s]) blast

subsection \<open>Self-modifying code\<close>

lemma Invalidate_fields:
  assumes "HID0_ICE s"
  shows "ic_valid (Invalidate a s c) = (ic_valid c)(unat (set_of a) := 0)" "ic_tags (Invalidate a s c) = ic_tags c"
    "ic_data (Invalidate a s c) = ic_data c"
  using assms fold_forget_way(2-4) [OF set_of_less(1) [of a], of "[0..<8]" c] by (simp_all add: Invalidate_def Let_def)

lemma fold_Invalidate:
  assumes "HID0_ICE s"
  shows "bit (ic_valid (fold (\<lambda>a. Invalidate a s) as c) st) t \<longleftrightarrow> bit (ic_valid c st) t \<and> st \<notin> (\<lambda>a. unat (set_of a)) ` set as"
    and "ic_tags (fold (\<lambda>a. Invalidate a s) as c) = ic_tags c" "ic_data (fold (\<lambda>a. Invalidate a s) as c) = ic_data c"
    and "icache_inv c \<Longrightarrow> icache_inv (fold (\<lambda>a. Invalidate a s) as c)"
  by (induction as arbitrary: c) (auto simp: Invalidate_fields [OF assms] icache_inv_Invalidate)

lemma unat_set_of: "unat (set_of a) = unat a div 32 mod 128"
  unfolding set_of_def and_eq_take_bit unat_take_bit unat_drop_bit_eq by (simp add: drop_bit_eq_div)

lemma set_of_line_ptr:
  assumes "fetchable m a" and "i < 32"
  shows "set_of (line_ptr a + of_nat i) = set_of a"
proof (rule word_unat_eqI)
  define k where "k = unat a mod 2 ^ 30 div 32"
  have k: "k < 0xA00000" using assms(1) by (auto simp: fetchable_iff Let_def k_def)
  have "unat (line_ptr a) = 32 * k" unfolding k_def by (rule unat_line_ptr)
  then have "unat (line_ptr a + of_nat i) = 32 * k + i" using k assms(2) by (simp add: unat_word_ariths unat_of_nat_u32)
  then have "unat (set_of (line_ptr a + of_nat i)) = k mod 128" using assms(2) by (simp add: unat_set_of)
  also have "\<dots> = unat a div 32 mod 2 ^ 25 mod 128" unfolding k_def by (simp only: line_number)
  also have "\<dots> = unat a div 32 mod 128" by (rule mod_mod_cancel) simp
  finally show "unat (set_of (line_ptr a + of_nat i)) = unat (set_of a)" by (simp add: unat_set_of)
qed

text \<open>Memory may change in the lines of \<open>as\<close> when these are invalidated before the next fetch.\<close>

lemma icache_coherent_Invalidate:
  assumes coh: "icache_coherent m c" and ice: "HID0_ICE s" and ex: "m_pEXRAM m' = m_pEXRAM m"
    and same: "\<And>p. physical_base m' p \<noteq> physical_base m p \<Longrightarrow> \<exists>a \<in> set as. set_of a = set_of p"
  shows "icache_coherent m' (fold (\<lambda>a. Invalidate a s) as c)" (is "icache_coherent m' ?c")
  unfolding icache_coherent_def
proof (intro allI impI)
  fix st t assume st: "st < 128" and t: "t < 8" and "bit (ic_valid ?c st) t"
  then have v: "bit (ic_valid c st) t" and ni: "st \<notin> (\<lambda>a. unat (set_of a)) ` set as" by (simp_all add: fold_Invalidate(1) [OF ice])
  have l: "line_of ?c = line_of c" by (simp add: line_of_def fun_eq_iff fold_Invalidate [OF ice])
  let ?l = "line_of c st t"
  note d = icache_coherentD [OF coh st t v]
  have "physical_base m' (line_ptr ?l + of_nat i) = physical_base m (line_ptr ?l + of_nat i)" if "i < 32" for i
    using same [of "line_ptr ?l + of_nat i"] set_of_line_ptr [OF d(1) that] set_of_line_of [OF st, of c t] ni by force
  then have "load_bytes 32 (line_ptr ?l) (physical_base m') = load_bytes 32 (line_ptr ?l) (physical_base m)"
    by (rule load_bytes_cong)
  with d ex show "fetchable m' (line_of ?c st t) \<and>
      (\<exists>bs. load_bytes 32 (line_ptr (line_of ?c st t)) (physical_base m') = Inr bs \<and> ic_data ?c st t = words_of bs)"
    by (simp add: l fold_Invalidate [OF ice] fetchable_iff)
qed

text \<open>
  The states a program reaches that fetches from memory, and that invalidates every line it has written
  before it fetches again. The registers \<open>s\<close> may be different in every step.
\<close>

inductive icache_run :: "Memory \<Rightarrow> InstructionCache \<Rightarrow> bool" where
  start: "mem_ok m \<Longrightarrow> icache_run m (ICache_Init (InstructionCache_construct c))"
| fetch: "icache_run m c \<Longrightarrow> fetchable m a \<Longrightarrow> unat a mod 4 = 0 \<Longrightarrow> ReadInstruction a s m c = Inr (v, c') \<Longrightarrow> icache_run m c'"
| reset: "icache_run m c \<Longrightarrow> icache_run m (ICache_Reset c)"
| modify: "icache_run m c \<Longrightarrow> mem_ok m' \<Longrightarrow> m_pEXRAM m' = m_pEXRAM m \<Longrightarrow> HID0_ICE s \<Longrightarrow>
    (\<And>p. physical_base m' p \<noteq> physical_base m p \<Longrightarrow> \<exists>a \<in> set as. set_of a = set_of p) \<Longrightarrow>
    icache_run m' (fold (\<lambda>a. Invalidate a s) as c)"

lemma icache_run_inv: "icache_run m c \<Longrightarrow> icache_inv c \<and> icache_coherent m c \<and> mem_ok m"
proof (induction rule: icache_run.induct)
  case (start m c)
  then show ?case
    using icache_inv_Init [of c] by (simp add: icache_coherent_def ICache_Init_def ICache_Reset_def)
next
  case (fetch m c a s v c')
  with ReadInstruction_ex [of c m a s] show ?case by auto
next
  case (reset m c)
  then show ?case using icache_inv_Reset [of c] by (simp add: icache_coherent_def ICache_Reset_def)
next
  case (modify m c m' s as)
  then show ?case using icache_coherent_Invalidate [of m c s m' as] fold_Invalidate(4) [of s c as] by simp
qed

text \<open>
  C2. The instruction cache is transparent: along every run in which the lines that are written are invalidated
  before the next fetch, a fetch of an aligned address in memory succeeds and gives the word that is in memory,
  whether the cache is enabled, locked or disabled, and whether the address hits or replaces a line.
\<close>

theorem icache_transparent:
  assumes "icache_run m c" and "fetchable m a" and "unat a mod 4 = 0"
  shows "\<exists>v c'. Memory_Read_U32 a m = Inr v \<and> ReadInstruction a s m c = Inr (v, c')"
  using icache_run_inv [OF assms(1)] assms(2,3) ReadInstruction_ex [of c m a s] by auto

theorem icache_transparent_witness:
  "let m = Memory_Init True False; c0 = \<lparr>ic_data = \<lambda>_ _. [], ic_tags = \<lambda>_ _. 0, ic_plru = \<lambda>_. 0, ic_valid = \<lambda>_. 0, way_from_valid = [],
     way_from_plru = [], lookup_table = \<lambda>_. 0, lookup_table_ex = \<lambda>_. 0, lookup_table_vmem = \<lambda>_. 0\<rparr>
   in \<exists>v c'. Memory_Read_U32 0x80003100 m = Inr v \<and>
        ReadInstruction 0x80003100 (ppc_zero\<lparr>spr := \<lambda>_. 0x8000\<rparr>) m (ICache_Init (InstructionCache_construct c0)) = Inr (v, c')"
  unfolding Let_def
  by (rule icache_transparent [OF icache_run.start [OF Memory_Init_ok]]) (simp_all add: fetchable_iff Let_def)

subsection \<open>Replacement\<close>

definition plru_touch :: "nat \<Rightarrow> u32 \<Rightarrow> u32" where
  "plru_touch t p = (p AND NOT (s_plru_mask ! t)) OR s_plru_value ! t"

lemma touch_plru: "touch st t c = c\<lparr>ic_plru := (ic_plru c)(st := plru_touch t (ic_plru c st))\<rparr>"
  by (simp add: touch_def plru_touch_def)

lemma less_8_cases: "t < 8 \<Longrightarrow> t = 0 \<or> t = 1 \<or> t = 2 \<or> t = 3 \<or> t = 4 \<or> t = 5 \<or> t = 6 \<or> t = 7" for t :: nat
  by arith

lemma less_7_cases: "t < 7 \<Longrightarrow> t = 0 \<or> t = 1 \<or> t = 2 \<or> t = 3 \<or> t = 4 \<or> t = 5 \<or> t = 6" for t :: nat
  by arith

lemma bit_plru_touch:
  assumes "t < 8" and "i < 7"
  shows "bit (plru_touch t p) i \<longleftrightarrow>
    (if i = 0 then t < 4 else if i = 1 + t div 4 then even (t div 2) else if i = 3 + t div 2 then even t else bit p i)"
  using less_8_cases [OF assms(1)] less_7_cases [OF assms(2)]
  unfolding plru_touch_def bit_or_iff bit_and_iff bit_not_iff s_plru_mask_def s_plru_value_def
  by (elim disjE) simp_all

lemma plru_way_iff:
  assumes "w < 8"
  shows "plru_way p = w \<longleftrightarrow>
    (bit p 0 \<longleftrightarrow> 4 \<le> w) \<and> (bit p (1 + w div 4) \<longleftrightarrow> odd (w div 2)) \<and> (bit p (3 + w div 2) \<longleftrightarrow> odd w)"
  using less_8_cases [OF assms] by (elim disjE) (simp_all add: plru_way_def flip: numeral_2_eq_2)

lemma plru_recent:
  assumes "t1 < 8" "t2 < 8" "t3 < 8"
  shows "plru_way (plru_touch t3 (plru_touch t2 (plru_touch t1 p))) \<notin> {t1, t2, t3}"
proof -
  define w where "w = plru_way (plru_touch t3 (plru_touch t2 (plru_touch t1 p)))"
  have w: "w < 8" unfolding w_def by (rule plru_way_less)
  have i: "1 + w div 4 < 3" "3 + w div 2 < 7" using w by arith+
  have root: "bit (plru_touch t x) 0 \<longleftrightarrow> t < 4" if "t < 8" for t x using bit_plru_touch [OF that, of 0 x] by simp
  have half: "bit (plru_touch t x) (1 + w div 4) \<longleftrightarrow> (if w div 4 = t div 4 then even (t div 2) else bit x (1 + w div 4))"
    if "t < 8" for t x
    using bit_plru_touch [OF that, of "1 + w div 4" x] i by simp
  have quarter: "bit (plru_touch t x) (3 + w div 2) \<longleftrightarrow> (if w div 2 = t div 2 then even t else bit x (3 + w div 2))"
    if "t < 8" for t x
    using bit_plru_touch [OF that, of "3 + w div 2" x] i that by auto
  note b = w_def [symmetric, unfolded plru_way_iff [OF w] root [OF assms(3)] half [OF assms(3)] quarter [OF assms(3)]
      half [OF assms(2)] quarter [OF assms(2)] half [OF assms(1)] quarter [OF assms(1)]]
  have "w div 4 \<noteq> t3 div 4"
  proof
    assume "w div 4 = t3 div 4"
    then have "w < 4 \<longleftrightarrow> t3 < 4" using div_eq_0_iff [of w 4] div_eq_0_iff [of t3 4] by simp
    with b show False by linarith
  qed
  moreover from this have "w div 2 \<noteq> t3 div 2" using div_mult2_eq [of w 2 2] div_mult2_eq [of t3 2 2] by auto
  ultimately show ?thesis unfolding w_def [symmetric]
    using b by (auto split: if_splits)
qed

text \<open>
  The ways of the last three accesses to a set are never the ones that are replaced, whatever was accessed before:
  the line a full set gives up is not one of them, and a set that is not full gives up none.
\<close>

theorem replacement_spares_recent:
  assumes "icache_inv c" and "st < 128" and "t1 < 8" "t2 < 8" "t3 < 8"
  shows "let c' = touch st t3 (touch st t2 (touch st t1 c)); w = select_way st c'
    in w < 8 \<and> (if ic_valid c' st = 0xFF then w \<notin> {t1, t2, t3} else \<not> bit (ic_valid c' st) w)"
proof -
  let ?c = "touch st t3 (touch st t2 (touch st t1 c))"
  have "icache_inv ?c" using assms by (intro icache_inv_touch)
  note s = select_way_props [OF this assms(2)]
  have "ic_plru ?c st = plru_touch t3 (plru_touch t2 (plru_touch t1 (ic_plru c st)))" by (simp add: touch_plru)
  with s plru_recent [OF assms(3-5), of "ic_plru c st"] show ?thesis by (simp add: Let_def)
qed

theorem replacement_spares_recent_witness:
  "let c = ICache_Init (InstructionCache_construct \<lparr>ic_data = \<lambda>_ _. [], ic_tags = \<lambda>_ _. 0, ic_plru = \<lambda>_. 0, ic_valid = \<lambda>_. 0,
      way_from_valid = [], way_from_plru = [], lookup_table = \<lambda>_. 0, lookup_table_ex = \<lambda>_. 0, lookup_table_vmem = \<lambda>_. 0\<rparr>);
     c' = touch 5 2 (touch 5 1 (touch 5 0 c)); w = select_way 5 c'
   in w < 8 \<and> \<not> bit (ic_valid c' 5) w"
  using replacement_spares_recent [OF icache_inv_Init, of 5 0 1 2]
  by (simp add: Let_def touch_def ICache_Init_def ICache_Reset_def)

end
