(* ===== verification/PPC_MMU.thy ===== *)
theory PPC_MMU
  imports PPC_Cache
begin

text \<open>
  Address translation of the main processor (\<^verbatim>\<open>Core/PowerPC/MMU.cpp\<close>): the hashed page table in memory with the
  translation lookaside buffers in front of it, and the block translation (BAT) tables.
\<close>

unbundle bit_operations_syntax

subsection \<open>State\<close>

text \<open>\<open>TLBEntry\<close> of \<^verbatim>\<open>PowerPC.h\<close>: two ways, indexed by 0 and 1.\<close>

record TLBEntry =
  tlb_tag :: "nat \<Rightarrow> u32"
  tlb_paddr :: "nat \<Rightarrow> u32"
  tlb_pte :: "nat \<Rightarrow> u32"
  tlb_recent :: nat

abbreviation (input) "INVALID_TAG \<equiv> 0xFFFFFFFF :: u32"

definition TLBEntry_new :: TLBEntry where
  "TLBEntry_new = \<lparr>tlb_tag = (\<lambda>_. INVALID_TAG), tlb_paddr = (\<lambda>_. 0), tlb_pte = (\<lambda>_. 0), tlb_recent = 0\<rparr>"

text \<open>
  The members of \<open>ppcState\<close> that translation uses, and the two BAT tables. The first index of \<open>tlb\<close> is
  \<open>IsOpcodeFlag\<close>.
\<close>

record MMU =
  tlb :: "bool \<Rightarrow> nat \<Rightarrow> TLBEntry"
  pagetable_base :: u32
  pagetable_hashmask :: u32
  ibat_table :: "u32 \<Rightarrow> u32"
  dbat_table :: "u32 \<Rightarrow> u32"

datatype XCheckTLBFlag = FLAG_NO_EXCEPTION | FLAG_READ | FLAG_WRITE | FLAG_OPCODE | FLAG_OPCODE_NO_EXCEPTION

definition IsOpcodeFlag :: "XCheckTLBFlag \<Rightarrow> bool" where
  "IsOpcodeFlag flag \<longleftrightarrow> flag = FLAG_OPCODE \<or> flag = FLAG_OPCODE_NO_EXCEPTION"

definition IsNoExceptionFlag :: "XCheckTLBFlag \<Rightarrow> bool" where
  "IsNoExceptionFlag flag \<longleftrightarrow> flag = FLAG_NO_EXCEPTION \<or> flag = FLAG_OPCODE_NO_EXCEPTION"

text \<open>The results of a translation; the address of the last two is 0.\<close>

datatype TranslateAddressResult =
  BAT_TRANSLATED u32 | PAGE_TABLE_TRANSLATED u32 | DIRECT_STORE_SEGMENT | PAGE_FAULT

subsection \<open>The page table\<close>

definition SDR1_HTABORG :: "u32 \<Rightarrow> u32" where "SDR1_HTABORG v = drop_bit 16 v AND 0xFFFF"
definition SDR1_HTABMASK :: "u32 \<Rightarrow> u32" where "SDR1_HTABMASK v = v AND 0x1FF"
definition SR_VSID :: "u32 \<Rightarrow> u32" where "SR_VSID v = v AND 0xFFFFFF"
definition EA_SR :: "u32 \<Rightarrow> nat" where "EA_SR v = unat (drop_bit 28 v AND 0xF)"
definition EA_PageIndex :: "u32 \<Rightarrow> u32" where "EA_PageIndex v = drop_bit 12 v AND 0xFFFF"
definition EA_Offset :: "u32 \<Rightarrow> u32" where "EA_Offset v = v AND 0xFFF"
definition EA_API :: "u32 \<Rightarrow> u32" where "EA_API v = drop_bit 22 v AND 0x3F"

abbreviation (input) "PTE1_V \<equiv> 0x80000000 :: u32"
abbreviation (input) "PTE1_H \<equiv> 0x40 :: u32"
abbreviation (input) "SPR_SDR \<equiv> 25 :: nat"

text \<open>\<open>UPTE2\<close>: bit 7 is \<open>C\<close>, bit 8 is \<open>R\<close>; \<open>RPN << 12\<close> are the upper 20 bits.\<close>

definition PTE2_page :: "u32 \<Rightarrow> u32" where "PTE2_page v = push_bit 12 (drop_bit 12 v)"

definition IsValidLowMask :: "u32 \<Rightarrow> bool" where "IsValidLowMask v \<longleftrightarrow> v AND (v + 1) = 0"

definition SDRUpdated :: "PowerPCState \<Rightarrow> MMU \<Rightarrow> MMU" where
  "SDRUpdated s mm =
     (let htabmask = SDR1_HTABMASK (spr s SPR_SDR); htaborg = SDR1_HTABORG (spr s SPR_SDR) in
      if \<not> IsValidLowMask htabmask then mm
      else if htaborg AND htabmask \<noteq> 0 then mm
      else mm\<lparr>pagetable_base := push_bit 16 htaborg, pagetable_hashmask := push_bit 10 htabmask OR 0x3FF\<rparr>)"

text \<open>A word of the arena as the host reads it, without a swap.\<close>

definition raw_read32 :: "u32 \<Rightarrow> Memory \<Rightarrow> mem_error + u32" where
  "raw_read32 p m = and_then (load_bytes 4 p (physical_base m)) (\<lambda>bs. Inr (ucast (le_value bs)))"

definition read32 :: "u32 \<Rightarrow> Memory \<Rightarrow> mem_error + u32" where
  "read32 p m = and_then (host_read 4 p m) (\<lambda>v. Inr (ucast v))"

text \<open>The inner loop over the eight entries of a group: the address of the first entry whose first word is \<open>pte1\<close>.\<close>

fun search_group :: "nat \<Rightarrow> u32 \<Rightarrow> u32 \<Rightarrow> Memory \<Rightarrow> mem_error + u32 option" where
  "search_group 0 pte1 pteg_addr m = Inr None"
| "search_group (Suc n) pte1 pteg_addr m =
     and_then (raw_read32 pteg_addr m) (\<lambda>pteg.
       if pte1 = pteg then Inr (Some pteg_addr) else search_group n pte1 (pteg_addr + 8) m)"

definition group_addr :: "MMU \<Rightarrow> u32 \<Rightarrow> u32" where
  "group_addr mm hash = push_bit 6 (hash AND pagetable_hashmask mm) OR pagetable_base mm"

text \<open>The loop over the two hash functions.\<close>

definition search_table :: "u32 \<Rightarrow> u32 \<Rightarrow> MMU \<Rightarrow> Memory \<Rightarrow> mem_error + u32 option" where
  "search_table seg address mm m =
     (let page_index = EA_PageIndex address; VSID = SR_VSID seg; api = EA_API address;
          hash = VSID XOR page_index;
          pte1 = swap32 (push_bit 7 VSID OR api OR PTE1_V)
      in and_then (search_group 8 pte1 (group_addr mm hash) m) (\<lambda>r. case r of
           Some p \<Rightarrow> Inr (Some p)
         | None \<Rightarrow> search_group 8 (pte1 OR push_bit 24 PTE1_H) (group_addr mm (NOT hash)) m))"

subsection \<open>The translation lookaside buffers\<close>

datatype TLBLookupResult = TLB_FOUND u32 | TLB_NOTFOUND | TLB_UPDATE_C

definition set_entry :: "bool \<Rightarrow> nat \<Rightarrow> TLBEntry \<Rightarrow> MMU \<Rightarrow> MMU" where
  "set_entry op i e mm = mm\<lparr>tlb := (tlb mm)(op := (tlb mm op)(i := e))\<rparr>"

definition tlb_index :: "u32 \<Rightarrow> nat" where "tlb_index tag = unat (tag AND 0x3F)"

text \<open>What the function does when way \<open>w\<close> has the tag; both ways have the same code.\<close>

definition tlb_hit :: "XCheckTLBFlag \<Rightarrow> u32 \<Rightarrow> nat \<Rightarrow> TLBEntry \<Rightarrow> TLBLookupResult \<times> TLBEntry" where
  "tlb_hit flag vpa w tlbe =
     (if flag = FLAG_WRITE \<and> \<not> bit (tlb_pte tlbe w) 7
      then (TLB_UPDATE_C, tlbe\<lparr>tlb_pte := (tlb_pte tlbe)(w := set_bit 7 (tlb_pte tlbe w))\<rparr>)
      else (TLB_FOUND (tlb_paddr tlbe w OR (vpa AND 0xFFF)),
            if \<not> IsNoExceptionFlag flag then tlbe\<lparr>tlb_recent := w\<rparr> else tlbe))"

definition LookupTLBPageAddress :: "XCheckTLBFlag \<Rightarrow> u32 \<Rightarrow> MMU \<Rightarrow> TLBLookupResult \<times> MMU" where
  "LookupTLBPageAddress flag vpa mm =
     (let tag = drop_bit 12 vpa; op = IsOpcodeFlag flag; i = tlb_index tag; tlbe = tlb mm op i in
      if tlb_tag tlbe 0 = tag then map_prod id (\<lambda>e. set_entry op i e mm) (tlb_hit flag vpa 0 tlbe)
      else if tlb_tag tlbe 1 = tag then map_prod id (\<lambda>e. set_entry op i e mm) (tlb_hit flag vpa 1 tlbe)
      else (TLB_NOTFOUND, mm))"

definition UpdateTLBEntry :: "XCheckTLBFlag \<Rightarrow> u32 \<Rightarrow> u32 \<Rightarrow> MMU \<Rightarrow> MMU" where
  "UpdateTLBEntry flag PTE2 address mm =
     (if IsNoExceptionFlag flag then mm
      else let tag = drop_bit 12 address; op = IsOpcodeFlag flag; i = tlb_index tag; tlbe = tlb mm op i;
               w = (if tlb_recent tlbe = 0 \<and> tlb_tag tlbe 0 \<noteq> INVALID_TAG then 1 else 0)
           in set_entry op i (tlbe\<lparr>tlb_recent := w, tlb_paddr := (tlb_paddr tlbe)(w := PTE2_page PTE2),
                tlb_pte := (tlb_pte tlbe)(w := PTE2), tlb_tag := (tlb_tag tlbe)(w := tag)\<rparr>) mm)"

definition InvalidateTLBEntry :: "u32 \<Rightarrow> MMU \<Rightarrow> MMU" where
  "InvalidateTLBEntry address mm =
     (let i = tlb_index (drop_bit 12 address); inv = (\<lambda>e. e\<lparr>tlb_tag := (tlb_tag e)(0 := INVALID_TAG, 1 := INVALID_TAG)\<rparr>)
      in set_entry True i (inv (tlb mm True i)) (set_entry False i (inv (tlb mm False i)) mm))"

definition access_bits :: "XCheckTLBFlag \<Rightarrow> u32 \<Rightarrow> u32" where
  "access_bits flag PTE2 =
     (case flag of
        FLAG_NO_EXCEPTION \<Rightarrow> PTE2 | FLAG_OPCODE_NO_EXCEPTION \<Rightarrow> PTE2
      | FLAG_READ \<Rightarrow> set_bit 8 PTE2 | FLAG_WRITE \<Rightarrow> set_bit 7 (set_bit 8 PTE2) | FLAG_OPCODE \<Rightarrow> set_bit 8 PTE2)"

definition TranslatePageAddress ::
    "u32 \<Rightarrow> XCheckTLBFlag \<Rightarrow> PowerPCState \<Rightarrow> MMU \<times> Memory \<Rightarrow> mem_error + TranslateAddressResult \<times> MMU \<times> Memory" where
  "TranslatePageAddress address flag s mmem =
     (let (mm, m) = mmem; (res, mm1) = LookupTLBPageAddress flag address mm; seg = sr s (EA_SR address) in
      case res of TLB_FOUND a \<Rightarrow> Inr (PAGE_TABLE_TRANSLATED a, mm1, m)
      | _ \<Rightarrow>
        if seg AND 0x80000000 \<noteq> 0 then Inr (DIRECT_STORE_SEGMENT, mm1, m)
        else if IsOpcodeFlag flag \<and> seg AND 0x10000000 \<noteq> 0 then Inr (PAGE_FAULT, mm1, m)
        else and_then (search_table seg address mm1 m) (\<lambda>r. case r of
            None \<Rightarrow> Inr (PAGE_FAULT, mm1, m)
          | Some p \<Rightarrow> and_then (read32 (p + 4) m) (\<lambda>v.
              let PTE2 = access_bits flag v in
              and_then (if IsNoExceptionFlag flag then Inr m else host_write 4 (ucast PTE2) (p + 4) m) (\<lambda>m1.
                let mm2 = (if res \<noteq> TLB_UPDATE_C then UpdateTLBEntry flag PTE2 address mm1 else mm1)
                in Inr (PAGE_TABLE_TRANSLATED (PTE2_page PTE2 OR EA_Offset address), mm2, m1)))))"

subsection \<open>Words of the page table\<close>

lemma patch_id: "load_bytes (length bs) p a = Inr bs \<Longrightarrow> patch p bs a = a"
proof
  fix q
  assume "load_bytes (length bs) p a = Inr bs"
  then have "a (p + of_nat i) = Some (bs ! i)" if "i < length bs" for i using that by (simp add: load_bytes_Inr_iff)
  from this [of "unat (q - p)"] show "patch p bs a q = a q" by (simp add: patch_def)
qed

lemma write_read32_id:
  assumes "read32 p m = Inr v"
  shows "host_write 4 (ucast v) p m = Inr m"
proof -
  from assms obtain bs where bs: "load_bytes 4 p (physical_base m) = Inr bs" and v: "v = ucast (bswap 4 (le_value bs))"
    by (auto simp: read32_def host_read_def and_then_eq_Inr_conv)
  have len: "length bs = 4" using bs by (simp add: load_bytes_Inr_iff)
  have "bswap 4 (ucast v) = take_bit 32 (le_value bs)"
    unfolding v bswap_u32 using bswap_bswap [of 4 "le_value bs"] by simp
  then have e: "le_bytes 4 (bswap 4 (ucast v)) = bs"
    using le_bytes_take_bit [of 4 32 "le_value bs"] le_bytes_value [of bs] len by simp
  have "\<forall>i < 4. physical_base m (p + of_nat i) \<noteq> None" using bs by (simp add: load_bytes_Inr_iff)
  then show ?thesis using patch_id [of bs p "physical_base m"] bs len by (simp add: host_write_Inr_iff e)
qed

lemma read32_write:
  assumes "host_write 4 (ucast v) p m = Inr m'"
  shows "read32 p m' = Inr v"
proof -
  have "take_bit 32 (ucast v :: u64) = ucast v" "ucast (ucast v :: u64) = v"
    by (rule bit_word_eqI; auto simp: bit_simps dest: bit_imp_le_length)+
  then show ?thesis using host_read_write [OF assms] by (simp add: read32_def)
qed

lemma read32_Inr_mapped: "read32 p m = Inr v \<Longrightarrow> i < 4 \<Longrightarrow> physical_base m (p + of_nat i) \<noteq> None"
  by (auto simp: read32_def host_read_def and_then_eq_Inr_conv load_bytes_Inr_iff)

lemma read32_total:
  assumes "\<And>i. i < 4 \<Longrightarrow> physical_base m (p + of_nat i) \<noteq> None"
  obtains v where "read32 p m = Inr v"
proof -
  obtain w where "host_read 4 p m = Inr w" using assms by (rule host_read_total)
  then have "read32 p m = Inr (ucast w)" by (simp add: read32_def)
  with that show thesis .
qed

lemma raw_read32_total:
  assumes "\<And>i. i < 4 \<Longrightarrow> physical_base m (p + of_nat i) \<noteq> None"
  obtains v where "raw_read32 p m = Inr v"
proof -
  obtain bs where "load_bytes 4 p (physical_base m) = Inr bs" using assms by (rule load_bytes_total)
  then have "raw_read32 p m = Inr (ucast (le_value bs))" by (simp add: raw_read32_def)
  with that show thesis .
qed

text \<open>Entries of the page table are eight bytes long and aligned: a write to the second word of one changes no other word.\<close>

definition aligned8 :: "u32 \<Rightarrow> bool" where "aligned8 p \<longleftrightarrow> take_bit 3 p = 0"

lemma unat_aligned8: "aligned8 p \<longleftrightarrow> 8 dvd unat p"
  using unat_take_bit [of 3 p] word_unat_eqI [of "take_bit 3 p" 0] by (auto simp: aligned8_def dvd_eq_mod_eq_0)

lemma aligned8_diff: "aligned8 p \<Longrightarrow> aligned8 q \<Longrightarrow> 8 dvd unat (p - q)"
proof -
  assume "aligned8 p" "aligned8 q"
  then have pq: "8 dvd unat p" "8 dvd unat q" by (simp_all add: unat_aligned8)
  show ?thesis
  proof (cases "unat q \<le> unat p")
    case True
    then show ?thesis using pq by (simp add: unat_sub_if')
  next
    case False
    have "8 dvd unat p + 2 ^ 32 - unat q" using pq by (intro dvd_diff_nat dvd_add) simp_all
    then show ?thesis using False by (simp add: unat_sub_if')
  qed
qed

lemma aligned8_add: "aligned8 p \<Longrightarrow> aligned8 (p + 8)"
  using aligned8_diff [of p "- 8"] by (simp add: unat_aligned8)

lemma unat_minus_4:
  fixes d :: u32
  assumes "unat d mod 8 = 0" and "i < 4"
  shows "4 \<le> unat (d + of_nat i - 4)"
proof -
  have "d + of_nat i - 4 = d + of_nat (i + 0xFFFFFFFC)" by simp
  moreover have "unat (of_nat (i + 0xFFFFFFFC) :: u32) = i + 0xFFFFFFFC" using assms(2) by (intro unat_of_nat_u32) simp
  ultimately have "unat (d + of_nat i - 4) = (unat d + (i + 0xFFFFFFFC)) mod 2 ^ 32" by (simp only: unat_word_ariths) simp
  then have "unat (d + of_nat i - 4) mod 8 = (unat d + (i + 0xFFFFFFFC)) mod 8" by (simp add: mod_mod_cancel)
  also have "i + 0xFFFFFFFC = (i + 4) + 8 * 0x1FFFFFFF" by simp
  also have "(unat d + ((i + 4) + 8 * 0x1FFFFFFF)) mod 8 = (unat d mod 8 + ((i + 4) + 8 * 0x1FFFFFFF) mod 8) mod 8" by (simp only: mod_add_eq)
  also have "\<dots> = (i + 4) mod 8" unfolding assms(1) mod_mult_self2 by simp
  also have "\<dots> = i + 4" using assms(2) by simp
  finally show ?thesis using mod_less_eq_dividend [of "unat (d + of_nat i - 4)" 8] by linarith
qed

lemma raw_read32_write:
  assumes "host_write 4 v (q + 4) m = Inr m'" and "aligned8 p" and "aligned8 q"
  shows "raw_read32 p m' = raw_read32 p m"
proof -
  have "4 \<le> unat (p + of_nat i - (q + 4))" if "i < 4" for i
  proof -
    have e: "p + of_nat i - (q + 4) = (p - q) + of_nat i - 4" by simp
    have "unat (p - q) mod 8 = 0" using aligned8_diff assms(2,3) by (simp add: dvd_eq_mod_eq_0)
    then show ?thesis unfolding e by (rule unat_minus_4) (rule that)
  qed
  then have "load_bytes 4 p (physical_base m') = load_bytes 4 p (physical_base m)"
    using assms(1) by (simp add: host_write_Inr_iff load_patch_other)
  then show ?thesis by (simp add: raw_read32_def)
qed

lemma read32_write_other:
  assumes "host_write 4 v (q + 4) m = Inr m'" and "aligned8 p" and "aligned8 q" and "p \<noteq> q"
  shows "read32 (p + 4) m' = read32 (p + 4) m"
proof -
  have "4 \<le> unat (p + 4 + of_nat i - (q + 4))" if "i < 4" for i
  proof -
    have e: "p + 4 + of_nat i - (q + 4) = (p - q) + of_nat i" by simp
    have d: "8 dvd unat (p - q)" using aligned8_diff assms(2,3) by blast
    have "unat (p - q) \<noteq> 0" using word_unat_eqI [of "p - q" 0] assms(4) by auto
    with d have "8 \<le> unat (p - q)" using dvd_imp_le by blast
    moreover have "unat (p - q) + 8 \<le> 2 ^ 32"
    proof -
      have "unat (p - q) < 2 ^ 32" using unsigned_less [of "p - q"] by simp
      moreover obtain k where "unat (p - q) = 8 * k" using d by (rule dvdE)
      ultimately show ?thesis by simp
    qed
    moreover have "unat (of_nat i :: u32) = i" using that by (intro unat_of_nat_u32) simp
    ultimately have "unat ((p - q) + of_nat i) = unat (p - q) + i" using that by (simp add: unat_word_ariths)
    with \<open>8 \<le> unat (p - q)\<close> show ?thesis unfolding e by simp
  qed
  then have "load_bytes 4 (p + 4) (physical_base m') = load_bytes 4 (p + 4) (physical_base m)"
    using assms(1) by (simp add: host_write_Inr_iff load_patch_other)
  then show ?thesis by (simp add: read32_def host_read_def)
qed

subsection \<open>Translation without the lookaside buffers\<close>

text \<open>The whole page table is in memory, and groups are aligned.\<close>

definition table_ok :: "MMU \<Rightarrow> Memory \<Rightarrow> bool" where
  "table_ok mm m \<longleftrightarrow> take_bit 6 (pagetable_base mm) = 0 \<and>
     (\<forall>h. \<forall>i < 64. physical_base m (group_addr mm h + of_nat i) \<noteq> None)"

definition translate_page :: "u32 \<Rightarrow> XCheckTLBFlag \<Rightarrow> u32 \<Rightarrow> MMU \<Rightarrow> Memory \<Rightarrow> mem_error + TranslateAddressResult \<times> Memory" where
  "translate_page address flag seg mm m =
     (if bit seg 31 then Inr (DIRECT_STORE_SEGMENT, m)
      else if IsOpcodeFlag flag \<and> bit seg 28 then Inr (PAGE_FAULT, m)
      else and_then (search_table seg address mm m) (\<lambda>r. case r of
          None \<Rightarrow> Inr (PAGE_FAULT, m)
        | Some p \<Rightarrow> and_then (read32 (p + 4) m) (\<lambda>v.
            and_then (host_write 4 (ucast (access_bits flag v)) (p + 4) m) (\<lambda>m1.
              Inr (PAGE_TABLE_TRANSLATED (PTE2_page v OR EA_Offset address), m1)))))"

lemma aligned8_group_addr: "take_bit 6 (pagetable_base mm) = 0 \<Longrightarrow> aligned8 (group_addr mm h)"
proof -
  assume a: "take_bit 6 (pagetable_base mm) = 0"
  have "\<not> bit (pagetable_base mm) i" if "i < 6" for i
    using a that by (metis bit_take_bit_iff bit_0_eq bot_apply bot_bool_def)
  then show ?thesis unfolding aligned8_def group_addr_def
    by (intro bit_word_eqI) (auto simp: bit_simps)
qed

definition entry_ptr :: "Memory \<Rightarrow> u32 option \<Rightarrow> bool" where
  "entry_ptr m r \<longleftrightarrow> (\<forall>p. r = Some p \<longrightarrow> aligned8 p \<and> (\<forall>i < 8. physical_base m (p + of_nat i) \<noteq> None))"

lemma search_group_props:
  assumes "aligned8 a" and "\<And>i. i < 8 * n \<Longrightarrow> physical_base m (a + of_nat i) \<noteq> None"
  shows "\<exists>r. search_group n pte1 a m = Inr r \<and> entry_ptr m r"
  using assms
proof (induction n arbitrary: a)
  case (Suc n)
  have m: "physical_base m (a + of_nat i) \<noteq> None" if "i < 8" for i using Suc.prems(2) [of i] that by simp
  then obtain v where v: "raw_read32 a m = Inr v" by (rule raw_read32_total [of m a]) simp_all
  show ?case
  proof (cases "pte1 = v")
    case True
    then show ?thesis using Suc.prems(1) m v by (simp add: entry_ptr_def)
  next
    case False
    have "physical_base m (a + 8 + of_nat i) \<noteq> None" if "i < 8 * n" for i
      using Suc.prems(2) [of "i + 8"] that by (simp add: ac_simps)
    then show ?thesis using Suc.IH [of "a + 8"] aligned8_add [OF Suc.prems(1)] v False by simp
  qed
qed (simp add: entry_ptr_def)

lemma search_group_write:
  assumes "host_write 4 v (q + 4) m = Inr m'" and "aligned8 q" and "aligned8 a"
  shows "search_group n pte1 a m' = search_group n pte1 a m"
  using assms(3)
proof (induction n arbitrary: a)
  case (Suc n)
  then show ?case
    using raw_read32_write [OF assms(1) Suc.prems assms(2)] Suc.IH [OF aligned8_add [OF Suc.prems]]
    by (simp cong: if_cong)
qed simp

lemma search_table_props:
  assumes "table_ok mm m"
  shows "\<exists>r. search_table seg a mm m = Inr r \<and> entry_ptr m r"
proof -
  have g: "\<exists>r. search_group 8 pte1 (group_addr mm h) m = Inr r \<and> entry_ptr m r" for pte1 h
    using assms aligned8_group_addr by (intro search_group_props) (simp_all add: table_ok_def)
  define h where "h = SR_VSID seg XOR EA_PageIndex a"
  define pte1 where "pte1 = swap32 (push_bit 7 (SR_VSID seg) OR EA_API a OR PTE1_V)"
  obtain r1 where r1: "search_group 8 pte1 (group_addr mm h) m = Inr r1" "entry_ptr m r1"
    using g by blast
  obtain r2 where r2: "search_group 8 (pte1 OR push_bit 24 PTE1_H) (group_addr mm (NOT h)) m = Inr r2" "entry_ptr m r2"
    using g by blast
  have "search_table seg a mm m = Inr (case r1 of Some p \<Rightarrow> Some p | None \<Rightarrow> r2)"
    using r1(1) r2(1) unfolding search_table_def Let_def h_def pte1_def by (simp split: option.split)
  then show ?thesis using r1(2) r2(2) by (cases r1) simp_all
qed

lemma search_table_write:
  assumes "host_write 4 v (q + 4) m = Inr m'" and "aligned8 q" and "take_bit 6 (pagetable_base mm) = 0"
  shows "search_table seg a mm m' = search_table seg a mm m"
proof -
  have "search_group n pte1 (group_addr mm h) m' = search_group n pte1 (group_addr mm h) m" for n pte1 h
    by (rule search_group_write [OF assms(1,2) aligned8_group_addr [OF assms(3)]])
  then show ?thesis by (simp add: search_table_def Let_def)
qed

lemma table_ok_write:
  assumes "host_write 4 v q m = Inr m'" and "table_ok mm m"
  shows "table_ok mm m'"
proof -
  have w: "\<forall>i < 4. physical_base m (q + of_nat i) \<noteq> None"
    and m': "m' = m\<lparr>physical_base := patch q (le_bytes 4 (bswap 4 v)) (physical_base m)\<rparr>"
    using assms(1) by (simp_all add: host_write_Inr_iff)
  have "physical_base m' p = None \<longleftrightarrow> physical_base m p = None" for p
    using patch_None_iff [of "le_bytes 4 (bswap 4 v)" "physical_base m" q p] w by (simp add: m')
  then show ?thesis using assms(2) by (simp add: table_ok_def)
qed

subsection \<open>The lookaside buffers agree with the page table\<close>

definition page_of :: "u32 \<Rightarrow> u32" where "page_of tag = push_bit 12 tag"

text \<open>A way that is in use holds the translation of its page, and no more rights than the page table has.\<close>

definition way_ok :: "PowerPCState \<Rightarrow> MMU \<Rightarrow> Memory \<Rightarrow> bool \<Rightarrow> nat \<Rightarrow> TLBEntry \<Rightarrow> nat \<Rightarrow> bool" where
  "way_ok s mm m op i e w \<longleftrightarrow>
     tlb_tag e w \<noteq> INVALID_TAG \<longrightarrow>
       tlb_index (tlb_tag e w) = i \<and>
       (let a = page_of (tlb_tag e w); seg = sr s (EA_SR a) in
        \<not> bit seg 31 \<and> \<not> (op \<and> bit seg 28) \<and>
        (\<exists>p v. search_table seg a mm m = Inr (Some p) \<and> read32 (p + 4) m = Inr v \<and>
          tlb_paddr e w = PTE2_page v \<and> bit v 8 \<and> (bit (tlb_pte e w) 7 \<longrightarrow> bit v 7)))"

definition tlb_inv :: "PowerPCState \<Rightarrow> MMU \<Rightarrow> Memory \<Rightarrow> bool" where
  "tlb_inv s mm m \<longleftrightarrow> table_ok mm m \<and>
     (\<forall>op. \<forall>i < 64. \<forall>w < 2. way_ok s mm m op i (tlb mm op i) w)"

lemma search_table_set_entry [simp]: "search_table seg a (set_entry op i e mm) = search_table seg a mm"
  by (simp add: search_table_def set_entry_def group_addr_def fun_eq_iff)

lemma table_ok_set_entry [simp]: "table_ok (set_entry op i e mm) m = table_ok mm m"
  by (simp add: table_ok_def set_entry_def group_addr_def)

lemma way_ok_set_entry [simp]: "way_ok s (set_entry op i e mm) m = way_ok s mm m"
  by (simp add: way_ok_def fun_eq_iff)

lemma tlb_set_entry [simp]: "tlb (set_entry op i e mm) op' j = (if op' = op \<and> j = i then e else tlb mm op' j)"
  by (simp add: set_entry_def)

lemma tlb_inv_set_entry:
  "tlb_inv s mm m \<Longrightarrow> (\<And>w. w < 2 \<Longrightarrow> way_ok s mm m op i e w) \<Longrightarrow> tlb_inv s (set_entry op i e mm) m"
  by (simp add: tlb_inv_def)

lemma tlb_index_less: "tlb_index tag < 64"
proof -
  have "unat (take_bit 6 tag) < 64" by (simp only: unat_take_bit) simp
  then show ?thesis by (simp add: tlb_index_def and_eq_take_bit)
qed

text \<open>The tables are searched by page, so every address of a page has the same result.\<close>

lemma page_fields:
  "EA_SR (page_of (drop_bit 12 a)) = EA_SR a" "EA_PageIndex (page_of (drop_bit 12 a)) = EA_PageIndex a"
  "EA_API (page_of (drop_bit 12 a)) = EA_API a"
proof -
  have "drop_bit 28 (page_of (drop_bit 12 a)) = drop_bit 28 a" "drop_bit 12 (page_of (drop_bit 12 a)) = drop_bit 12 a"
    "drop_bit 22 (page_of (drop_bit 12 a)) = drop_bit 22 a"
    unfolding page_of_def by (rule bit_word_eqI; auto simp: bit_simps dest: bit_imp_le_length)+
  then show "EA_SR (page_of (drop_bit 12 a)) = EA_SR a" "EA_PageIndex (page_of (drop_bit 12 a)) = EA_PageIndex a"
    "EA_API (page_of (drop_bit 12 a)) = EA_API a"
    by (simp_all add: EA_SR_def EA_PageIndex_def EA_API_def)
qed

lemma search_table_page [simp]: "search_table seg (page_of (drop_bit 12 a)) mm m = search_table seg a mm m"
  by (simp add: search_table_def page_fields)

lemma tag_valid: "drop_bit 12 (a :: u32) \<noteq> INVALID_TAG"
proof
  assume "drop_bit 12 a = INVALID_TAG"
  then have "bit (drop_bit 12 a) 31" by simp
  then show False by (simp add: bit_drop_bit_eq) (auto dest: bit_imp_le_length)
qed

lemma segment_bits: "x AND 0x80000000 \<noteq> 0 \<longleftrightarrow> bit x 31" "x AND 0x10000000 \<noteq> 0 \<longleftrightarrow> bit x 28" for x :: u32
  using and_exp_eq_0_iff [of x 31] and_exp_eq_0_iff [of x 28] by simp_all

lemma access_bits_page [simp]: "PTE2_page (access_bits flag v) = PTE2_page v"
  by (rule bit_word_eqI) (auto simp: PTE2_page_def access_bits_def bit_simps split: XCheckTLBFlag.split)

lemma access_bits_mono: "bit v i \<Longrightarrow> bit (access_bits flag v) i"
  by (auto simp: access_bits_def bit_set_bit_iff bit_imp_le_length split: XCheckTLBFlag.split)

lemma access_bits_R: "\<not> IsNoExceptionFlag flag \<Longrightarrow> bit (access_bits flag v) 8"
  by (cases flag) (auto simp: access_bits_def IsNoExceptionFlag_def bit_set_bit_iff)

lemma access_bits_C: "bit (access_bits FLAG_WRITE v) 7"
  by (auto simp: access_bits_def bit_set_bit_iff)

lemma access_bits_id: "bit v 8 \<Longrightarrow> (flag = FLAG_WRITE \<Longrightarrow> bit v 7) \<Longrightarrow> access_bits flag v = v"
  by (cases flag) (auto simp: access_bits_def intro!: bit_word_eqI simp: bit_set_bit_iff)

text \<open>Setting \<open>R\<close> and \<open>C\<close> in the page table keeps every way right.\<close>

lemma way_ok_write:
  assumes ok: "way_ok s mm m op i e w" and tab: "table_ok mm m"
    and p: "search_table seg a mm m = Inr (Some p)" and v: "read32 (p + 4) m = Inr v"
    and wr: "host_write 4 (ucast (access_bits flag v)) (p + 4) m = Inr m'"
  shows "way_ok s mm m' op i e w"
proof -
  have al: "aligned8 q" if "search_table seg' b mm m = Inr (Some q)" for seg' b q
    using search_table_props [OF tab, of seg' b] that by (auto simp: entry_ptr_def)
  have base: "take_bit 6 (pagetable_base mm) = 0" using tab by (simp add: table_ok_def)
  note srch = search_table_write [OF wr al [OF p] base]
  have rd: "\<exists>v'. read32 (q + 4) m' = Inr v' \<and> PTE2_page v' = PTE2_page u \<and> (\<forall>i. bit u i \<longrightarrow> bit v' i)"
    if "search_table seg' b mm m = Inr (Some q)" and "read32 (q + 4) m = Inr u" for seg' b q u
  proof (cases "q = p")
    case True
    with that(2) v read32_write [OF wr] show ?thesis by (auto simp: access_bits_mono)
  next
    case False
    with read32_write_other [OF wr al [OF that(1)] al [OF p]] that(2) show ?thesis by simp
  qed
  show ?thesis
    unfolding way_ok_def Let_def srch
  proof (rule impI)
    assume "tlb_tag e w \<noteq> INVALID_TAG"
    with ok obtain q u where q: "search_table (sr s (EA_SR (page_of (tlb_tag e w)))) (page_of (tlb_tag e w)) mm m = Inr (Some q)"
      "read32 (q + 4) m = Inr u" "tlb_paddr e w = PTE2_page u" "bit u 8" "bit (tlb_pte e w) 7 \<longrightarrow> bit u 7"
      and seg: "tlb_index (tlb_tag e w) = i" "\<not> bit (sr s (EA_SR (page_of (tlb_tag e w)))) 31" "\<not> (op \<and> bit (sr s (EA_SR (page_of (tlb_tag e w)))) 28)"
      by (auto simp: way_ok_def Let_def)
    from rd [OF q(1,2)] q seg show "tlb_index (tlb_tag e w) = i \<and> \<not> bit (sr s (EA_SR (page_of (tlb_tag e w)))) 31 \<and>
        \<not> (op \<and> bit (sr s (EA_SR (page_of (tlb_tag e w)))) 28) \<and>
        (\<exists>p v. search_table (sr s (EA_SR (page_of (tlb_tag e w)))) (page_of (tlb_tag e w)) mm m = Inr (Some p) \<and>
          read32 (p + 4) m' = Inr v \<and> tlb_paddr e w = PTE2_page v \<and> bit v 8 \<and> (bit (tlb_pte e w) 7 \<longrightarrow> bit v 7))"
      by auto
  qed
qed

lemma tlb_inv_write:
  assumes "tlb_inv s mm m" and "search_table seg a mm m = Inr (Some p)" and "read32 (p + 4) m = Inr v"
    and "host_write 4 (ucast (access_bits flag v)) (p + 4) m = Inr m'"
  shows "tlb_inv s mm m'"
  using assms way_ok_write [OF _ _ assms(2-4)] table_ok_write [OF assms(4)] by (simp add: tlb_inv_def)

text \<open>One step of the reference translation, with what it finds.\<close>

lemma translate_page_cases:
  assumes tab: "table_ok mm m"
  obtains (direct) "bit seg 31"
  | (no_execute) "\<not> bit seg 31" "IsOpcodeFlag flag" "bit seg 28"
  | (fault) "\<not> bit seg 31" "\<not> (IsOpcodeFlag flag \<and> bit seg 28)" "search_table seg a mm m = Inr None"
  | (found) p v m' where "\<not> bit seg 31" "\<not> (IsOpcodeFlag flag \<and> bit seg 28)" "search_table seg a mm m = Inr (Some p)"
      "read32 (p + 4) m = Inr v" "host_write 4 (ucast (access_bits flag v)) (p + 4) m = Inr m'"
proof -
  obtain r where r: "search_table seg a mm m = Inr r" "entry_ptr m r" using search_table_props [OF tab] by blast
  show thesis
  proof (cases r)
    case None
    with r direct no_execute fault show thesis by blast
  next
    case (Some p)
    have "physical_base m (p + 4 + of_nat i) \<noteq> None" if "i < 4" for i
    proof -
      have e: "p + 4 + of_nat i = p + of_nat (4 + i)" by simp
      have "4 + i < 8" using that by simp
      then show ?thesis using r(2) Some unfolding entry_ptr_def e by blast
    qed
    then have mapped: "\<forall>i < 4. physical_base m (p + 4 + of_nat i) \<noteq> None" by blast
    then obtain v where v: "read32 (p + 4) m = Inr v" using read32_total [of m "p + 4"] by blast
    obtain m' where "host_write 4 (ucast (access_bits flag v)) (p + 4) m = Inr m'"
      using mapped by (simp add: host_write_Inr_iff)
    with r Some v direct no_execute found show thesis by blast
  qed
qed

lemma translate_page_found:
  assumes "\<not> bit seg 31" "\<not> (IsOpcodeFlag flag \<and> bit seg 28)" "search_table seg a mm m = Inr (Some p)"
    and "read32 (p + 4) m = Inr v" "host_write 4 (ucast (access_bits flag v)) (p + 4) m = Inr m'"
  shows "translate_page a flag seg mm m = Inr (PAGE_TABLE_TRANSLATED (PTE2_page v OR EA_Offset a), m')"
  using assms by (auto simp: translate_page_def)

lemma way_ok_recent [simp]: "way_ok s mm m op i (e\<lparr>tlb_recent := r\<rparr>) w = way_ok s mm m op i e w"
  by (simp add: way_ok_def)

lemma way_ok_other: "way_ok s mm m op i e w \<Longrightarrow> w \<noteq> w' \<Longrightarrow>
    way_ok s mm m op i (e\<lparr>tlb_recent := r, tlb_paddr := (tlb_paddr e)(w' := x), tlb_pte := (tlb_pte e)(w' := y), tlb_tag := (tlb_tag e)(w' := z)\<rparr>) w"
  by (simp add: way_ok_def)

definition tlb_way :: "TLBEntry \<Rightarrow> u32 \<Rightarrow> nat option" where
  "tlb_way e tag = (if tlb_tag e 0 = tag then Some 0 else if tlb_tag e 1 = tag then Some 1 else None)"

lemma LookupTLB_way:
  "LookupTLBPageAddress flag a mm =
     (let op = IsOpcodeFlag flag; i = tlb_index (drop_bit 12 a); e = tlb mm op i in
      case tlb_way e (drop_bit 12 a) of None \<Rightarrow> (TLB_NOTFOUND, mm)
      | Some w \<Rightarrow> map_prod id (\<lambda>e. set_entry op i e mm) (tlb_hit flag a w e))"
  by (simp add: LookupTLBPageAddress_def tlb_way_def Let_def)

lemma tlb_way_Some: "tlb_way e tag = Some w \<Longrightarrow> w < 2 \<and> tlb_tag e w = tag"
  by (auto simp: tlb_way_def split: if_splits)

text \<open>A hit of the lookaside buffers: the way agrees with what the page table says of the address.\<close>

lemma tlb_hit_ok:
  assumes inv: "tlb_inv s mm m" and w: "tlb_way (tlb mm op (tlb_index (drop_bit 12 a))) (drop_bit 12 a) = Some w"
  obtains p v where "\<not> bit (sr s (EA_SR a)) 31" "\<not> (op \<and> bit (sr s (EA_SR a)) 28)"
    "search_table (sr s (EA_SR a)) a mm m = Inr (Some p)" "read32 (p + 4) m = Inr v"
    "tlb_paddr (tlb mm op (tlb_index (drop_bit 12 a))) w = PTE2_page v" "bit v 8"
    "bit (tlb_pte (tlb mm op (tlb_index (drop_bit 12 a))) w) 7 \<longrightarrow> bit v 7"
proof -
  let ?e = "tlb mm op (tlb_index (drop_bit 12 a))"
  have "way_ok s mm m op (tlb_index (drop_bit 12 a)) ?e w" using inv tlb_way_Some [OF w] tlb_index_less by (simp add: tlb_inv_def)
  with that show thesis using tlb_way_Some [OF w] tag_valid [of a] by (auto simp: way_ok_def Let_def page_fields)
qed

lemma TranslatePageAddress_parts:
  assumes inv: "tlb_inv s mm m"
  shows "\<exists>r mm' m'. translate_page a flag (sr s (EA_SR a)) mm m = Inr (r, m') \<and>
    TranslatePageAddress a flag s (mm, m) = Inr (r, mm', m') \<and> tlb_inv s mm' m' \<and>
    pagetable_base mm' = pagetable_base mm \<and> pagetable_hashmask mm' = pagetable_hashmask mm \<and>
    dbat_table mm' = dbat_table mm \<and> ibat_table mm' = ibat_table mm"
proof -
  define seg where "seg = sr s (EA_SR a)"
  define op where "op = IsOpcodeFlag flag"
  define i where "i = tlb_index (drop_bit 12 a)"
  define e where "e = tlb mm op i"
  have tab: "table_ok mm m" using inv by (simp add: tlb_inv_def)
  have ways: "way_ok s mm m op i e w" if "w < 2" for w using inv that tlb_index_less by (simp add: tlb_inv_def e_def i_def)
  show ?thesis
  proof (cases "tlb_way e (drop_bit 12 a)")
    case (Some w)
    note look = LookupTLB_way [of flag a mm, folded op_def, unfolded Let_def, folded i_def, folded e_def, unfolded Some option.case]
    from Some obtain p v where pv: "\<not> bit seg 31" "\<not> (op \<and> bit seg 28)" "search_table seg a mm m = Inr (Some p)"
      "read32 (p + 4) m = Inr v" "tlb_paddr e w = PTE2_page v" "bit v 8" "bit (tlb_pte e w) 7 \<longrightarrow> bit v 7"
      using tlb_hit_ok [OF inv, of op a w] unfolding seg_def e_def i_def by blast
    show ?thesis
    proof (cases "flag = FLAG_WRITE \<and> \<not> bit (tlb_pte e w) 7")
      case False
      then have "access_bits flag v = v" using pv(6,7) access_bits_id by blast
      then have "host_write 4 (ucast (access_bits flag v)) (p + 4) m = Inr m" using write_read32_id [OF pv(4)] by simp
      then have ref: "translate_page a flag seg mm m = Inr (PAGE_TABLE_TRANSLATED (PTE2_page v OR EA_Offset a), m)"
        using translate_page_found pv(1-4) op_def by blast
      define e' where "e' = (if IsNoExceptionFlag flag then e else e\<lparr>tlb_recent := w\<rparr>)"
      have "tlb_hit flag a w e = (TLB_FOUND (PTE2_page v OR EA_Offset a), e')"
        using False by (auto simp: tlb_hit_def pv(5) EA_Offset_def e'_def)
      then have "TranslatePageAddress a flag s (mm, m) = Inr (PAGE_TABLE_TRANSLATED (PTE2_page v OR EA_Offset a), set_entry op i e' mm, m)"
        by (simp add: TranslatePageAddress_def look)
      moreover have "tlb_inv s (set_entry op i e' mm) m"
        using inv ways by (intro tlb_inv_set_entry) (simp_all add: e'_def)
      ultimately show ?thesis using ref by (simp add: seg_def set_entry_def)
    next
      case True
      define e' where "e' = e\<lparr>tlb_pte := (tlb_pte e)(w := set_bit 7 (tlb_pte e w))\<rparr>"
      have hit: "tlb_hit flag a w e = (TLB_UPDATE_C, e')" using True by (simp add: tlb_hit_def e'_def)
      obtain m' where wr: "host_write 4 (ucast (access_bits flag v)) (p + 4) m = Inr m'"
        using read32_Inr_mapped [OF pv(4)] by (auto simp: host_write_Inr_iff)
      have ref: "translate_page a flag seg mm m = Inr (PAGE_TABLE_TRANSLATED (PTE2_page v OR EA_Offset a), m')"
        using translate_page_found pv(1-4) wr op_def by blast
      have nf: "\<not> IsNoExceptionFlag flag" using True by (simp add: IsNoExceptionFlag_def)
      have seg_mask: "seg AND 0x80000000 = 0" "\<not> (op \<and> seg AND 0x10000000 \<noteq> 0)"
        using pv(1,2) segment_bits [of seg] by blast+
      have "TranslatePageAddress a flag s (mm, m) = Inr (PAGE_TABLE_TRANSLATED (PTE2_page v OR EA_Offset a), set_entry op i e' mm, m')"
        using seg_mask pv(3,4) wr nf
        by (simp add: TranslatePageAddress_def look hit Let_def seg_def [symmetric] op_def [symmetric])
      moreover have "tlb_inv s (set_entry op i e' mm) m'"
      proof (rule tlb_inv_set_entry [OF tlb_inv_write [OF inv pv(3,4) wr]])
        fix w' :: nat assume "w' < 2"
        then have o: "way_ok s mm m' op i e w'" using way_ok_write [OF ways tab pv(3,4) wr] by blast
        show "way_ok s mm m' op i e' w'"
        proof (cases "w' = w")
          case False
          with o show ?thesis by (simp add: way_ok_def e'_def)
        next
          case True
          have "tlb_tag e w = drop_bit 12 a" using tlb_way_Some [OF Some] by blast
          moreover have "search_table seg a mm m' = Inr (Some p)"
          proof -
            have "aligned8 p" using search_table_props [OF tab, of seg a] pv(3) by (auto simp: entry_ptr_def)
            then show ?thesis using search_table_write [OF wr] tab pv(3) by (simp add: table_ok_def)
          qed
          moreover have "bit (access_bits flag v) 7" using \<open>flag = FLAG_WRITE \<and> _\<close> access_bits_C by blast
          ultimately show ?thesis
            using pv(1,2,5,6) read32_write [OF wr] True
            by (simp add: way_ok_def e'_def Let_def page_fields seg_def [symmetric] access_bits_mono i_def)
        qed
      qed
      ultimately show ?thesis using ref by (simp add: seg_def set_entry_def)
    qed
  next
    case None
    note look = LookupTLB_way [of flag a mm, folded op_def, unfolded Let_def, folded i_def, folded e_def, unfolded None option.case]
    from tab show ?thesis
    proof (cases rule: translate_page_cases [where a = a and seg = seg and flag = flag])
      case direct
      then show ?thesis using inv segment_bits [of seg]
        by (simp add: TranslatePageAddress_def translate_page_def look seg_def)
    next
      case no_execute
      then show ?thesis using inv segment_bits [of seg]
        by (simp add: TranslatePageAddress_def translate_page_def look seg_def)
    next
      case fault
      then show ?thesis using inv segment_bits [of seg]
        by (auto simp: TranslatePageAddress_def translate_page_def look seg_def Let_def)
    next
      case (found p v m')
      note ref = translate_page_found [OF found]
      have seg_mask: "seg AND 0x80000000 = 0" "\<not> (op \<and> seg AND 0x10000000 \<noteq> 0)"
        using found(1,2) segment_bits [of seg] op_def by blast+
      define mm' where "mm' = UpdateTLBEntry flag (access_bits flag v) a mm"
      have wr: "(if IsNoExceptionFlag flag then Inr m else host_write 4 (ucast (access_bits flag v)) (p + 4) m) = Inr m'"
      proof (cases "IsNoExceptionFlag flag")
        case True
        then have "access_bits flag v = v" by (auto simp: IsNoExceptionFlag_def access_bits_def)
        with True found(4,5) write_read32_id [OF found(4)] show ?thesis by simp
      qed (simp add: found(5))
      have "TranslatePageAddress a flag s (mm, m) = Inr (PAGE_TABLE_TRANSLATED (PTE2_page v OR EA_Offset a), mm', m')"
        using seg_mask found(3,4) wr
        by (simp add: TranslatePageAddress_def look Let_def seg_def [symmetric] op_def [symmetric] mm'_def)
      moreover have "tlb_inv s mm' m'"
      proof (cases "IsNoExceptionFlag flag")
        case True
        then show ?thesis using tlb_inv_write [OF inv found(3-5)] by (simp add: mm'_def UpdateTLBEntry_def)
      next
        case False
        define w where "w = (if tlb_recent e = 0 \<and> tlb_tag e 0 \<noteq> INVALID_TAG then 1 else (0 :: nat))"
        define e' where "e' = e\<lparr>tlb_recent := w, tlb_paddr := (tlb_paddr e)(w := PTE2_page (access_bits flag v)),
           tlb_pte := (tlb_pte e)(w := access_bits flag v), tlb_tag := (tlb_tag e)(w := drop_bit 12 a)\<rparr>"
        have mm': "mm' = set_entry op i e' mm"
          using False by (simp add: mm'_def UpdateTLBEntry_def Let_def op_def [symmetric] i_def [symmetric] e_def [symmetric] w_def e'_def)
        show ?thesis unfolding mm'
        proof (rule tlb_inv_set_entry [OF tlb_inv_write [OF inv found(3-5)]])
          fix w' :: nat assume "w' < 2"
          then have o: "way_ok s mm m' op i e w'" using way_ok_write [OF ways tab found(3-5)] by blast
          show "way_ok s mm m' op i e' w'"
          proof (cases "w' = w")
            case False
            with o show ?thesis unfolding e'_def by (rule way_ok_other)
          next
            case True
            have "aligned8 p" using search_table_props [OF tab, of seg a] found(3) by (auto simp: entry_ptr_def)
            then have "search_table seg a mm m' = Inr (Some p)"
              using search_table_write [OF found(5)] tab found(3) by (simp add: table_ok_def)
            moreover have "bit (access_bits flag v) 8" using access_bits_R False by blast
            ultimately show ?thesis
              using found(1,2) read32_write [OF found(5)] True
              by (simp add: way_ok_def e'_def Let_def page_fields seg_def [symmetric] op_def i_def)
          qed
        qed
      qed
      moreover have "pagetable_base mm' = pagetable_base mm" "pagetable_hashmask mm' = pagetable_hashmask mm"
        "dbat_table mm' = dbat_table mm" "ibat_table mm' = ibat_table mm"
        by (simp_all add: mm'_def UpdateTLBEntry_def Let_def set_entry_def)
      ultimately show ?thesis using ref by (simp add: seg_def)
    qed
  qed
qed

subsection \<open>Changes of the page table\<close>

text \<open>An address whose translation and segment register stay, with no access bit taken back.\<close>

definition keeps_page :: "MMU \<Rightarrow> PowerPCState \<Rightarrow> Memory \<Rightarrow> PowerPCState \<Rightarrow> Memory \<Rightarrow> u32 \<Rightarrow> bool" where
  "keeps_page mm s m s' m' a \<longleftrightarrow>
     sr s' (EA_SR a) = sr s (EA_SR a) \<and>
     (\<forall>p v. search_table (sr s (EA_SR a)) a mm m = Inr (Some p) \<and> read32 (p + 4) m = Inr v \<longrightarrow>
       (\<exists>p' v'. search_table (sr s (EA_SR a)) a mm m' = Inr (Some p') \<and> read32 (p' + 4) m' = Inr v' \<and>
         PTE2_page v' = PTE2_page v \<and> (bit v 8 \<longrightarrow> bit v' 8) \<and> (bit v 7 \<longrightarrow> bit v' 7)))"

lemma way_ok_keeps:
  assumes "way_ok s mm m op i e w" and "keeps_page mm s m s' m' (page_of (tlb_tag e w))"
  shows "way_ok s' mm m' op i e w"
  using assms unfolding way_ok_def keeps_page_def Let_def by metis

lemma way_ok_invalid: "tlb_tag e w = INVALID_TAG \<Longrightarrow> way_ok s mm m op i e w"
  by (simp add: way_ok_def)

lemma InvalidateTLBEntry_tlb:
  "tlb (InvalidateTLBEntry a mm) op i =
     (let e = tlb mm op i in if i = tlb_index (drop_bit 12 a) then e\<lparr>tlb_tag := (tlb_tag e)(0 := INVALID_TAG, 1 := INVALID_TAG)\<rparr> else e)"
  by (cases op) (simp_all add: InvalidateTLBEntry_def Let_def)

lemma InvalidateTLBEntry_table:
  "search_table seg b (InvalidateTLBEntry a mm) = search_table seg b mm" "table_ok (InvalidateTLBEntry a mm) m = table_ok mm m"
  "way_ok s (InvalidateTLBEntry a mm) m = way_ok s mm m"
  by (simp_all add: InvalidateTLBEntry_def Let_def)

lemma fold_InvalidateTLBEntry:
  "table_ok (fold InvalidateTLBEntry as mm) m = table_ok mm m" "way_ok s (fold InvalidateTLBEntry as mm) m = way_ok s mm m"
  by (induction as arbitrary: mm) (simp_all add: InvalidateTLBEntry_table)

lemma fold_InvalidateTLBEntry_tlb:
  assumes "w < 2"
  shows "if i \<in> (\<lambda>a. tlb_index (drop_bit 12 a)) ` set as
    then tlb_tag (tlb (fold InvalidateTLBEntry as mm) op i) w = INVALID_TAG
    else tlb (fold InvalidateTLBEntry as mm) op i = tlb mm op i"
proof (induction as rule: rev_induct)
  case (snoc a as)
  have "w = 0 \<or> w = 1" using assms by arith
  with snoc show ?case by (auto simp: InvalidateTLBEntry_tlb Let_def)
qed simp

lemma tlb_index_page: "tlb_index (drop_bit 12 (page_of tag)) = tlb_index tag"
proof -
  have "take_bit 6 (drop_bit 12 (page_of tag)) = take_bit 6 tag"
    by (rule bit_word_eqI) (auto simp: page_of_def bit_simps)
  then show ?thesis by (simp add: tlb_index_def and_eq_take_bit)
qed

lemma tlb_inv_change:
  assumes inv: "tlb_inv s mm m" and tab: "table_ok mm m'"
    and keep: "\<And>b. tlb_index (drop_bit 12 b) \<notin> (\<lambda>a. tlb_index (drop_bit 12 a)) ` set as \<Longrightarrow> keeps_page mm s m s' m' b"
  shows "tlb_inv s' (fold InvalidateTLBEntry as mm) m'"
  unfolding tlb_inv_def fold_InvalidateTLBEntry
proof (intro conjI allI impI tab)
  fix op and i w :: nat
  assume i: "i < 64" and w: "w < 2"
  note f = fold_InvalidateTLBEntry_tlb [OF w, of i as mm op]
  show "way_ok s' mm m' op i (tlb (fold InvalidateTLBEntry as mm) op i) w"
  proof (cases "i \<in> (\<lambda>a. tlb_index (drop_bit 12 a)) ` set as \<or> tlb_tag (tlb mm op i) w = INVALID_TAG")
    case True
    with f show ?thesis by (intro way_ok_invalid) (auto split: if_splits)
  next
    case False
    have ok: "way_ok s mm m op i (tlb mm op i) w" using inv i w by (simp add: tlb_inv_def)
    with False have "tlb_index (drop_bit 12 (page_of (tlb_tag (tlb mm op i) w))) = i"
      by (simp add: tlb_index_page way_ok_def)
    with False have "keeps_page mm s m s' m' (page_of (tlb_tag (tlb mm op i) w))" by (intro keep) simp
    with way_ok_keeps [OF ok] f False show ?thesis by simp
  qed
qed

text \<open>
  The states reached by translations and by changes of memory and segment registers, when the entries of
  every address whose translation changes are invalidated before the next translation.
\<close>

inductive mmu_run :: "PowerPCState \<Rightarrow> MMU \<Rightarrow> Memory \<Rightarrow> bool" where
  start: "table_ok mm m \<Longrightarrow> (\<And>op i. tlb mm op i = TLBEntry_new) \<Longrightarrow> mmu_run s mm m"
| translate: "mmu_run s mm m \<Longrightarrow> TranslatePageAddress a flag s (mm, m) = Inr (r, mm', m') \<Longrightarrow> mmu_run s mm' m'"
| change: "mmu_run s mm m \<Longrightarrow> table_ok mm m' \<Longrightarrow>
    (\<And>b. tlb_index (drop_bit 12 b) \<notin> (\<lambda>a. tlb_index (drop_bit 12 a)) ` set as \<Longrightarrow> keeps_page mm s m s' m' b) \<Longrightarrow>
    mmu_run s' (fold InvalidateTLBEntry as mm) m'"

lemma mmu_run_inv: "mmu_run s mm m \<Longrightarrow> tlb_inv s mm m"
proof (induction rule: mmu_run.induct)
  case (start mm m s)
  then show ?case by (simp add: tlb_inv_def way_ok_def TLBEntry_new_def)
next
  case (translate s mm m a flag r mm' m')
  then show ?case using TranslatePageAddress_parts [of s mm m a flag] by auto
next
  case (change s mm m m' as s')
  show ?case by (rule tlb_inv_change [OF change.IH change.hyps(2,3)])
qed

text \<open>
  C3. The lookaside buffers cannot be seen: along every run that invalidates the entries of the translations it changes, a
  translation through them gives the result the page table gives, marks the page as referenced and changed in memory exactly
  as a search of the table would, and never fails.
\<close>

theorem tlb_transparent:
  assumes "mmu_run s mm m"
  shows "\<exists>r mm' m'. TranslatePageAddress a flag s (mm, m) = Inr (r, mm', m') \<and>
    translate_page a flag (sr s (EA_SR a)) mm m = Inr (r, m')"
  using TranslatePageAddress_parts [OF mmu_run_inv [OF assms]] by blast

text \<open>
  A hit does not look at the segment register of the address: after a segment register is changed without an
  invalidation the old translation stays in use, even when the new segment may not be executed or is a direct-store segment.
\<close>

theorem tlb_hit_ignores_segments:
  assumes "LookupTLBPageAddress flag a mm = (TLB_FOUND p, mm')"
  shows "TranslatePageAddress a flag s (mm, m) = Inr (PAGE_TABLE_TRANSLATED p, mm', m)"
  using assms by (simp add: TranslatePageAddress_def)

definition mmu_test :: MMU where
  "mmu_test = \<lparr>tlb = (\<lambda>_ _. TLBEntry_new), pagetable_base = 0, pagetable_hashmask = 0x3FF, ibat_table = (\<lambda>_. 0), dbat_table = (\<lambda>_. 0)\<rparr>"

lemma table_ok_test: "table_ok mmu_test (Memory_Init True False)"
proof -
  have "physical_base (Memory_Init True False) (group_addr mmu_test h + of_nat i) \<noteq> None" if "i < 64" for h i
  proof -
    have "group_addr mmu_test h = push_bit 6 (take_bit 10 h)"
      by (simp add: group_addr_def mmu_test_def take_bit_eq_mask mask_eq_exp_minus_1)
    also have "\<dots> = take_bit 16 (push_bit 6 h)" by (rule bit_word_eqI) (auto simp: bit_simps)
    finally have "unat (group_addr mmu_test h) < 2 ^ 16" by (simp only: unat_take_bit) simp
    moreover have "unat (of_nat i :: u32) = i" using that by (intro unat_of_nat_u32) simp
    ultimately have "unat (group_addr mmu_test h + of_nat i) < 0x20000" using that by (simp add: unat_word_ariths)
    then have "group_addr mmu_test h + of_nat i < 0x2000000" by (simp add: word_less_nat_alt)
    then have "region_mapped (Memory_Init True False) (group_addr mmu_test h + of_nat i)"
      by (simp add: region_mapped_def in_region_def)
    then show ?thesis using Memory_Init_ok by (simp add: mem_ok_def)
  qed
  then show ?thesis by (simp add: table_ok_def mmu_test_def)
qed

theorem tlb_transparent_witness:
  "\<exists>r mm' m'. TranslatePageAddress 0x80001234 FLAG_WRITE ppc_zero (mmu_test, Memory_Init True False) = Inr (r, mm', m') \<and>
    translate_page 0x80001234 FLAG_WRITE (sr ppc_zero (EA_SR 0x80001234)) mmu_test (Memory_Init True False) = Inr (r, m')"
  by (rule tlb_transparent [OF mmu_run.start [OF table_ok_test]]) (simp add: mmu_test_def)

end
