(* ===== verification/PPC_BAT.thy ===== *)
theory PPC_BAT
  imports PPC_MMU
begin

text \<open>
  Memory breakpoints (\<open>MemChecks\<close> of \<^verbatim>\<open>Core/PowerPC/BreakPoints.cpp\<close>) and block address translation: the tables
  \<open>dbat_table\<close> and \<open>ibat_table\<close> of \<^verbatim>\<open>Core/PowerPC/MMU.cpp\<close>, one entry per 128 KB, and the whole translation of an address.
\<close>

unbundle bit_operations_syntax

subsection \<open>Memory breakpoints\<close>

record TMemCheck =
  start_address :: u32
  end_address :: u32
  is_ranged :: bool
  is_break_on_read :: bool
  is_break_on_write :: bool
  log_on_hit :: bool
  break_on_hit :: bool
  num_hits :: u32

text \<open>\<open>address + size - 1\<close> is computed in 64 bits.\<close>

definition GetMemCheck :: "TMemCheck list \<Rightarrow> u32 \<Rightarrow> nat \<Rightarrow> TMemCheck option" where
  "GetMemCheck checks address len =
     List.find (\<lambda>mc. address \<le> end_address mc \<and> unat (start_address mc) \<le> unat address + len - 1) checks"

definition OverlapsMemcheck :: "TMemCheck list \<Rightarrow> u32 \<Rightarrow> u32 \<Rightarrow> bool" where
  "OverlapsMemcheck checks address len =
     (if checks = [] then False
      else let page_end_suffix = len - 1; page_end_address = address OR page_end_suffix in
        \<exists>mc \<in> set checks.
          (start_address mc OR page_end_suffix = page_end_address \<or> end_address mc OR page_end_suffix = page_end_address) \<or>
          (start_address mc OR page_end_suffix < page_end_address \<and> page_end_address < end_address mc OR page_end_suffix))"

definition MemCheck_Action :: "TMemCheck \<Rightarrow> bool \<Rightarrow> bool" where
  "MemCheck_Action mc write =
     (if write \<and> is_break_on_write mc \<or> \<not> write \<and> is_break_on_read mc then break_on_hit mc else False)"

subsection \<open>The tables\<close>

abbreviation (input) "BAT_PAGE_SIZE \<equiv> 0x20000 :: u32"
abbreviation (input) "SPR_IBAT0U \<equiv> 528 :: nat"
abbreviation (input) "SPR_DBAT0U \<equiv> 536 :: nat"
abbreviation (input) "SPR_IBAT4U \<equiv> 560 :: nat"
abbreviation (input) "SPR_DBAT4U \<equiv> 568 :: nat"
abbreviation (input) "SPR_HID4 \<equiv> 1011 :: nat"

text \<open>Fields of \<open>UReg_BAT_Up\<close> and \<open>UReg_BAT_Lo\<close>.\<close>

definition BAT_VP :: "u32 \<Rightarrow> bool" where "BAT_VP u = bit u 0"
definition BAT_VS :: "u32 \<Rightarrow> bool" where "BAT_VS u = bit u 1"
definition BAT_BL :: "u32 \<Rightarrow> u32" where "BAT_BL u = bit_field 2 11 u"
definition BAT_BEPI :: "u32 \<Rightarrow> u32" where "BAT_BEPI u = bit_field 17 15 u"
definition BAT_BRPN :: "u32 \<Rightarrow> u32" where "BAT_BRPN l = bit_field 17 15 l"
definition HID4_SBE :: "PowerPCState \<Rightarrow> bool" where "HID4_SBE s = bit (spr s SPR_HID4) 25"

definition TranslateBatAddess :: "(u32 \<Rightarrow> u32) \<Rightarrow> u32 \<Rightarrow> u32 option" where
  "TranslateBatAddess bat_table address =
     (let bat_result = bat_table (drop_bit 17 address) in
      if bat_result AND 1 = 0 then None
      else Some ((bat_result AND NOT 3) OR (address AND (BAT_PAGE_SIZE - 1))))"

definition bat_valid_bits :: "TMemCheck list \<Rightarrow> Memory \<Rightarrow> u32 \<Rightarrow> u32 \<Rightarrow> u32" where
  "bat_valid_bits checks m physical_address virtual_address =
     (let physical = m_pFakeVMEM m \<and> physical_address AND 0xFE000000 = 0x7E000000 \<or>
            physical_address < MEM_REALRAM_SIZE \<or>
            m_pEXRAM m \<and> drop_bit 28 physical_address = 1 \<and> physical_address AND 0x0FFFFFFF < EXRAM_SIZE \<or>
            drop_bit 28 physical_address = 0xE \<and> physical_address < 0xE0000000 + L1_CACHE_SIZE;
          valid_bit = (if physical then 1 OR 2 else 1 :: u32)
      in if OverlapsMemcheck checks virtual_address BAT_PAGE_SIZE then valid_bit AND NOT 2 else valid_bit)"

definition bat_block :: "TMemCheck list \<Rightarrow> Memory \<Rightarrow> u32 \<Rightarrow> u32 \<Rightarrow> u32 \<Rightarrow> (u32 \<Rightarrow> u32) \<Rightarrow> u32 \<Rightarrow> u32" where
  "bat_block checks m batu batl j bat_table =
     (if j AND BAT_BL batu = j then
        let physical_address = push_bit 17 (BAT_BRPN batl OR j); virtual_address = push_bit 17 (BAT_BEPI batu OR j)
        in bat_table(drop_bit 17 virtual_address := physical_address OR bat_valid_bits checks m physical_address virtual_address)
      else bat_table)"

definition update_bat :: "TMemCheck list \<Rightarrow> Memory \<Rightarrow> u32 \<Rightarrow> u32 \<Rightarrow> (u32 \<Rightarrow> u32) \<Rightarrow> u32 \<Rightarrow> u32" where
  "update_bat checks m batu batl bat_table =
     (if \<not> BAT_VS batu \<and> \<not> BAT_VP batu then bat_table
      else if BAT_BEPI batu AND BAT_BL batu \<noteq> 0 then bat_table
      else fold (\<lambda>j. bat_block checks m batu batl (of_nat j)) [0..<Suc (unat (BAT_BL batu))] bat_table)"

definition UpdateBATs :: "TMemCheck list \<Rightarrow> Memory \<Rightarrow> PowerPCState \<Rightarrow> nat \<Rightarrow> (u32 \<Rightarrow> u32) \<Rightarrow> u32 \<Rightarrow> u32" where
  "UpdateBATs checks m s base_spr bat_table =
     fold (\<lambda>i. update_bat checks m (spr s (base_spr + i * 2)) (spr s (base_spr + i * 2 + 1))) [0..<4] bat_table"

definition fake_block :: "TMemCheck list \<Rightarrow> u32 \<Rightarrow> u32 \<Rightarrow> (u32 \<Rightarrow> u32) \<Rightarrow> u32 \<Rightarrow> u32" where
  "fake_block checks start_addr i bat_table =
     (let e_address = i + drop_bit 17 start_addr;
          p_address = 0x7E000000 OR (push_bit 17 i AND FAKEVMEM_MASK);
          flags = (if OverlapsMemcheck checks (push_bit 17 e_address) BAT_PAGE_SIZE then 3 AND NOT 2 else 3 :: u32)
      in bat_table(e_address := p_address OR flags))"

definition UpdateFakeMMUBat :: "TMemCheck list \<Rightarrow> u32 \<Rightarrow> (u32 \<Rightarrow> u32) \<Rightarrow> u32 \<Rightarrow> u32" where
  "UpdateFakeMMUBat checks start_addr bat_table =
     fold (\<lambda>i. fake_block checks start_addr (of_nat i)) [0..<0x800] bat_table"

text \<open>The steps the two update functions share.\<close>

definition build_bats :: "bool \<Rightarrow> TMemCheck list \<Rightarrow> Memory \<Rightarrow> PowerPCState \<Rightarrow> nat \<Rightarrow> nat \<Rightarrow> u32 \<Rightarrow> u32" where
  "build_bats bWii checks m s base_spr extended_spr =
     (let t1 = UpdateBATs checks m s base_spr (\<lambda>_. 0);
          t2 = (if bWii \<and> HID4_SBE s then UpdateBATs checks m s extended_spr t1 else t1)
      in if m_pFakeVMEM m then UpdateFakeMMUBat checks 0x70000000 (UpdateFakeMMUBat checks 0x40000000 t2) else t2)"

definition DBATUpdated :: "bool \<Rightarrow> TMemCheck list \<Rightarrow> Memory \<Rightarrow> PowerPCState \<Rightarrow> MMU \<Rightarrow> MMU" where
  "DBATUpdated bWii checks m s mm = mm\<lparr>dbat_table := build_bats bWii checks m s SPR_DBAT0U SPR_DBAT4U\<rparr>"

definition IBATUpdated :: "bool \<Rightarrow> TMemCheck list \<Rightarrow> Memory \<Rightarrow> PowerPCState \<Rightarrow> MMU \<Rightarrow> MMU" where
  "IBATUpdated bWii checks m s mm = mm\<lparr>ibat_table := build_bats bWii checks m s SPR_IBAT0U SPR_IBAT4U\<rparr>"

definition TranslateAddress ::
    "XCheckTLBFlag \<Rightarrow> u32 \<Rightarrow> PowerPCState \<Rightarrow> MMU \<times> Memory \<Rightarrow> mem_error + TranslateAddressResult \<times> MMU \<times> Memory" where
  "TranslateAddress flag address s mmem =
     (case TranslateBatAddess (if IsOpcodeFlag flag then ibat_table (fst mmem) else dbat_table (fst mmem)) address of
        Some a \<Rightarrow> Inr (BAT_TRANSLATED a, mmem)
      | None \<Rightarrow> TranslatePageAddress address flag s mmem)"

subsection \<open>What a pair of registers maps\<close>

definition bat_matches :: "u32 \<Rightarrow> u32 \<Rightarrow> bool" where
  "bat_matches batu a \<longleftrightarrow>
     (BAT_VS batu \<or> BAT_VP batu) \<and> BAT_BEPI batu AND BAT_BL batu = 0 \<and> drop_bit 17 a AND NOT (BAT_BL batu) = BAT_BEPI batu"

definition bat_address :: "u32 \<Rightarrow> u32 \<Rightarrow> u32 \<Rightarrow> u32" where
  "bat_address batu batl a =
     push_bit 17 (BAT_BRPN batl OR (drop_bit 17 a AND BAT_BL batu)) OR take_bit 17 a"

lemma drop_push_17: "drop_bit 17 (push_bit 17 (bit_field lo 15 u OR j)) = bit_field lo 15 u OR j" if "\<And>n. bit j n \<Longrightarrow> n < 15" for j :: u32
  using that by (intro bit_word_eqI) (auto simp: bit_drop_bit_eq bit_push_bit_iff bit_or_iff)

lemma bat_block_at:
  assumes "BAT_BEPI batu AND BAT_BL batu = 0"
  shows "bat_block checks m batu batl j t x =
    (if j = x AND BAT_BL batu \<and> x AND NOT (BAT_BL batu) = BAT_BEPI batu
     then push_bit 17 (BAT_BRPN batl OR j) OR bat_valid_bits checks m (push_bit 17 (BAT_BRPN batl OR j)) (push_bit 17 x)
     else t x)"
proof (cases "j AND BAT_BL batu = j")
  case True
  have bl: "bit (BAT_BL batu) n \<Longrightarrow> n < 11" for n by (simp add: BAT_BL_def)
  have jb: "bit j n \<Longrightarrow> bit (BAT_BL batu) n" for n using True by (metis bit_and_iff)
  have j: "bit j n \<Longrightarrow> n < 15" for n using jb bl by force
  have d: "drop_bit 17 (push_bit 17 (BAT_BEPI batu OR j)) = BAT_BEPI batu OR j"
    unfolding BAT_BEPI_def by (rule drop_push_17 [OF j])
  have nb: "\<not> (bit (BAT_BEPI batu) n \<and> bit (BAT_BL batu) n)" for n using assms by (metis bit_and_iff bit_0_eq bot_apply bot_bool_def)
  have iff: "x = BAT_BEPI batu OR j \<longleftrightarrow> j = x AND BAT_BL batu \<and> x AND NOT (BAT_BL batu) = BAT_BEPI batu"
  proof
    assume x: "x = BAT_BEPI batu OR j"
    show "j = x AND BAT_BL batu \<and> x AND NOT (BAT_BL batu) = BAT_BEPI batu"
      unfolding x using nb jb by (intro conjI; intro bit_word_eqI) (auto simp: bit_and_iff bit_or_iff bit_not_iff)
  next
    assume "j = x AND BAT_BL batu \<and> x AND NOT (BAT_BL batu) = BAT_BEPI batu"
    then have e: "BAT_BEPI batu OR j = (x AND NOT (BAT_BL batu)) OR (x AND BAT_BL batu)" by metis
    show "x = BAT_BEPI batu OR j" unfolding e by (intro bit_word_eqI) (auto simp: bit_and_iff bit_or_iff bit_not_iff)
  qed
  show ?thesis
  proof (cases "x = BAT_BEPI batu OR j")
    case x: True
    have "j = x AND BAT_BL batu \<and> x AND NOT (BAT_BL batu) = BAT_BEPI batu" using iff x by blast
    moreover have dx: "drop_bit 17 (push_bit 17 x) = x" unfolding x by (rule d)
    ultimately show ?thesis
      unfolding bat_block_def Let_def if_P [OF True] x [symmetric] fun_upd_apply dx by (simp only: simp_thms if_True)
  next
    case x: False
    then show ?thesis unfolding bat_block_def Let_def if_P [OF True] d fun_upd_apply using iff by (simp only: if_False)
  qed
next
  case False
  then have "j \<noteq> x AND BAT_BL batu" by (auto simp: and.assoc)
  with False show ?thesis by (simp add: bat_block_def)
qed

lemma update_bat_at:
  assumes "\<And>n. bit x n \<Longrightarrow> n < 15"
  shows "update_bat checks m batu batl t x =
    (if bat_matches batu (push_bit 17 x)
     then let p = push_bit 17 (BAT_BRPN batl OR (x AND BAT_BL batu)) in p OR bat_valid_bits checks m p (push_bit 17 x)
     else t x)"
proof (cases "(BAT_VS batu \<or> BAT_VP batu) \<and> BAT_BEPI batu AND BAT_BL batu = 0")
  case True
  have x: "drop_bit 17 (push_bit 17 x) = x"
    using assms by (intro bit_word_eqI) (auto simp: bit_drop_bit_eq bit_push_bit_iff)
  have f: "fold (\<lambda>j. bat_block checks m batu batl (of_nat j)) js t x =
      (if (\<exists>j \<in> set js. of_nat j = x AND BAT_BL batu) \<and> x AND NOT (BAT_BL batu) = BAT_BEPI batu
       then let p = push_bit 17 (BAT_BRPN batl OR (x AND BAT_BL batu)) in p OR bat_valid_bits checks m p (push_bit 17 x)
       else t x)" for js
    by (induction js arbitrary: t) (auto simp: bat_block_at [OF conjunct2 [OF True]] Let_def)
  have "unat (x AND BAT_BL batu) \<le> unat (BAT_BL batu)"
    by (simp add: word_and_le1 flip: word_le_nat_alt)
  then have "unat (x AND BAT_BL batu) \<in> set [0..<Suc (unat (BAT_BL batu))]" by (simp del: upt_Suc)
  moreover have "of_nat (unat (x AND BAT_BL batu)) = x AND BAT_BL batu" by simp
  ultimately have ex: "\<exists>j \<in> set [0..<Suc (unat (BAT_BL batu))]. of_nat j = x AND BAT_BL batu" by blast
  have "update_bat checks m batu batl t x = fold (\<lambda>j. bat_block checks m batu batl (of_nat j)) [0..<Suc (unat (BAT_BL batu))] t x"
    using True by (auto simp: update_bat_def)
  moreover have "bat_matches batu (push_bit 17 x) \<longleftrightarrow> x AND NOT (BAT_BL batu) = BAT_BEPI batu"
    using True by (simp add: bat_matches_def x)
  ultimately show ?thesis using ex unfolding f by (simp only: simp_thms)
next
  case False
  then show ?thesis by (auto simp: update_bat_def bat_matches_def)
qed

lemma bat_valid_bits_cases: "bat_valid_bits checks m p v = 1 \<or> bat_valid_bits checks m p v = 3"
  by (simp add: bat_valid_bits_def Let_def)

lemma entry_fields:
  fixes y f :: u32
  assumes "f = 1 \<or> f = 3"
  shows "(push_bit 17 y OR f) AND 1 \<noteq> 0" "(push_bit 17 y OR f) AND NOT 3 = push_bit 17 y"
proof -
  have f: "bit f n \<Longrightarrow> n < 2" "bit f 0" for n
    using assms unat_less_exp_iff [of f 2] by auto
  then have "bit (push_bit 17 y OR f) 0" by (simp only: bit_or_iff simp_thms)
  then show "(push_bit 17 y OR f) AND 1 \<noteq> 0" using and_exp_eq_0_iff [of "push_bit 17 y OR f" 0] by simp
  have "(3 :: u32) = mask 2" by (simp add: mask_eq_exp_minus_1)
  then show "(push_bit 17 y OR f) AND NOT 3 = push_bit 17 y"
    using f(1) by (intro bit_word_eqI) (auto simp only: bit_or_iff bit_and_iff bit_not_iff bit_mask_iff bit_push_bit_iff possible_bit_word)
qed

lemma TranslateBat_update:
  "TranslateBatAddess (update_bat checks m batu batl t) a =
     (if bat_matches batu a then Some (bat_address batu batl a) else TranslateBatAddess t a)"
proof -
  let ?x = "drop_bit 17 a"
  have x: "bit ?x n \<Longrightarrow> n < 15" for n by (auto simp: bit_drop_bit_eq dest: bit_imp_le_length)
  have "drop_bit 17 (push_bit 17 ?x) = ?x" using x by (intro bit_word_eqI) (auto simp: bit_drop_bit_eq bit_push_bit_iff)
  then have m: "bat_matches batu (push_bit 17 ?x) = bat_matches batu a" by (simp add: bat_matches_def)
  have low: "a AND (BAT_PAGE_SIZE - 1) = take_bit 17 a" by (simp add: take_bit_eq_mask mask_eq_exp_minus_1)
  have u: "update_bat checks m batu batl t ?x =
    (if bat_matches batu (push_bit 17 ?x)
     then let p = push_bit 17 (BAT_BRPN batl OR (?x AND BAT_BL batu)) in p OR bat_valid_bits checks m p (push_bit 17 ?x)
     else t ?x)"
    by (rule update_bat_at) (rule x)
  show ?thesis
    unfolding TranslateBatAddess_def Let_def u m low bat_address_def
    using entry_fields [OF bat_valid_bits_cases] by (cases "bat_matches batu a") (simp_all only: if_True if_False)
qed

definition bat_regs :: "PowerPCState \<Rightarrow> nat \<Rightarrow> (u32 \<times> u32) list" where
  "bat_regs s base_spr = map (\<lambda>i. (spr s (base_spr + i * 2), spr s (base_spr + i * 2 + 1))) [3, 2, 1, 0]"

text \<open>The first register pair of a list that matches gives the address.\<close>

definition bat_lookup :: "(u32 \<times> u32) list \<Rightarrow> u32 \<Rightarrow> u32 option" where
  "bat_lookup regs a = map_option (\<lambda>(batu, batl). bat_address batu batl a) (List.find (\<lambda>(batu, batl). bat_matches batu a) regs)"

lemma TranslateBat_UpdateBATs:
  "TranslateBatAddess (UpdateBATs checks m s base_spr t) a =
     (case bat_lookup (bat_regs s base_spr) a of Some p \<Rightarrow> Some p | None \<Rightarrow> TranslateBatAddess t a)"
  by (simp add: UpdateBATs_def TranslateBat_update bat_lookup_def bat_regs_def numeral_eq_Suc)

lemma bat_lookup_append: "bat_lookup (r1 @ r2) a = (case bat_lookup r1 a of Some p \<Rightarrow> Some p | None \<Rightarrow> bat_lookup r2 a)"
  by (induction r1) (auto simp: bat_lookup_def)

subsection \<open>The fake memory\<close>

lemma fold_fake_block:
  "fold (\<lambda>i. fake_block checks start (of_nat i)) js t x =
     (if \<exists>i \<in> set js. of_nat i = x - drop_bit 17 start
      then 0x7E000000 OR (push_bit 17 (x - drop_bit 17 start) AND FAKEVMEM_MASK) OR
        (if OverlapsMemcheck checks (push_bit 17 x) BAT_PAGE_SIZE then 1 else 3)
      else t x)"
proof (induction js arbitrary: t)
  case (Cons i js)
  have "fake_block checks start (of_nat i) t x =
    (if of_nat i = x - drop_bit 17 start
     then 0x7E000000 OR (push_bit 17 (x - drop_bit 17 start) AND FAKEVMEM_MASK) OR
       (if OverlapsMemcheck checks (push_bit 17 x) BAT_PAGE_SIZE then 1 else 3)
     else t x)"
  proof (cases "of_nat i = x - drop_bit 17 start")
    case True
    then have "of_nat i + drop_bit 17 start = x" by simp
    with True show ?thesis by (simp add: fake_block_def Let_def or.assoc)
  next
    case False
    then have "x \<noteq> of_nat i + drop_bit 17 start" by auto
    with False show ?thesis by (simp add: fake_block_def Let_def)
  qed
  then show ?case using Cons.IH [of "fake_block checks start (of_nat i) t"] by auto
qed simp

lemma top_digit_cases:
  fixes a :: u32
  assumes k: "k < 16"
  defines "S \<equiv> push_bit 11 (of_nat k) :: u32"
  shows "(\<exists>i \<in> set [0..<0x800]. of_nat i = drop_bit 17 a - S) \<longleftrightarrow> drop_bit 28 a = of_nat k"
    and "drop_bit 28 a = of_nat k \<Longrightarrow> drop_bit 17 a - S = take_bit 11 (drop_bit 17 a)"
proof -
  have S: "unat S = 2048 * k" using k by (simp add: S_def push_bit_eq_mult unat_word_ariths unat_of_nat_u32)
  have x: "unat (drop_bit 17 a) = unat a div 2 ^ 17" unfolding unat_drop_bit_eq by (rule drop_bit_eq_div)
  have h: "unat (drop_bit 28 a) = unat a div 2 ^ 28" unfolding unat_drop_bit_eq by (rule drop_bit_eq_div)
  have h': "unat a div 2 ^ 28 = unat a div 2 ^ 17 div 2048" by (simp add: div_mult2_eq [symmetric])
  have eq: "drop_bit 28 a = of_nat k \<longleftrightarrow> unat a div 2 ^ 17 div 2048 = k"
    using k h h' unat_of_nat_u32 [of k] word_unat_eqI [of "drop_bit 28 a" "of_nat k"] by auto
  show sub: "drop_bit 17 a - S = take_bit 11 (drop_bit 17 a)" if "drop_bit 28 a = of_nat k"
  proof (rule word_unat_eqI)
    define n where "n = unat a div 2 ^ 17"
    have "n div 2048 = k" using that eq by (simp add: n_def)
    moreover have "n = 2048 * (n div 2048) + n mod 2048" by simp
    ultimately have "n = 2048 * k + n mod 2048" by simp
    then have "2048 * k \<le> n" "n - 2048 * k = n mod 2048" by arith+
    moreover have x': "unat (drop_bit 17 a) = n" unfolding n_def by (rule x)
    ultimately show "unat (drop_bit 17 a - S) = unat (take_bit 11 (drop_bit 17 a))"
      by (simp add: unat_sub_if' unat_take_bit x' S)
  qed
  show "(\<exists>i \<in> set [0..<0x800]. of_nat i = drop_bit 17 a - S) \<longleftrightarrow> drop_bit 28 a = of_nat k"
  proof
    assume "\<exists>i \<in> set [0..<0x800]. of_nat i = drop_bit 17 a - S"
    then obtain i where "i < 0x800" and i: "of_nat i = drop_bit 17 a - S" by auto
    then have "drop_bit 17 a = S + of_nat i" by simp
    then have "unat (drop_bit 17 a) = 2048 * k + i"
      using k \<open>i < 0x800\<close> by (simp add: unat_word_ariths unat_of_nat_u32 S)
    with x \<open>i < 0x800\<close> have "unat a div 2 ^ 17 div 2048 = k" by simp
    with eq show "drop_bit 28 a = of_nat k" by simp
  next
    assume "drop_bit 28 a = of_nat k"
    then have "drop_bit 17 a - S = take_bit 11 (drop_bit 17 a)" by (rule sub)
    moreover have "unat (take_bit 11 (drop_bit 17 a)) < 0x800" by (simp only: unat_take_bit) simp
    moreover have "of_nat (unat (take_bit 11 (drop_bit 17 a))) = take_bit 11 (drop_bit 17 a)" by simp
    ultimately show "\<exists>i \<in> set [0..<0x800]. of_nat i = drop_bit 17 a - S"
      by (metis atLeastLessThan_iff atLeast_upt lessThan_iff)
  qed
qed

lemma TranslateBat_fake:
  assumes "k < 16" and start: "start = push_bit 28 (of_nat k)"
  shows "TranslateBatAddess (UpdateFakeMMUBat checks start t) a =
    (if drop_bit 28 a = of_nat k then Some (0x7E000000 OR (a AND FAKEVMEM_MASK)) else TranslateBatAddess t a)"
proof -
  let ?x = "drop_bit 17 a" and ?f = "if OverlapsMemcheck checks (push_bit 17 (drop_bit 17 a)) BAT_PAGE_SIZE then 1 else 3 :: u32"
  have kb: "bit (of_nat k :: u32) n \<Longrightarrow> n < 4" for n
    using assms(1) unat_less_exp_iff [of "of_nat k :: u32" 4] unat_of_nat_u32 [of k] by simp
  have S: "drop_bit 17 start = push_bit 11 (of_nat k)"
  proof (rule bit_word_eqI)
    fix n assume "n < LENGTH(32)"
    show "bit (drop_bit 17 start) n \<longleftrightarrow> bit (push_bit 11 (of_nat k) :: u32) n"
      using kb [of "n - 11"] \<open>n < LENGTH(32)\<close>
      unfolding start bit_drop_bit_eq bit_push_bit_iff comp_def by (cases "11 \<le> n") (auto simp: possible_bit_word)
  qed
  note d = top_digit_cases [OF assms(1), of a]
  show ?thesis
  proof (cases "drop_bit 28 a = of_nat k")
    case True
    have entry: "UpdateFakeMMUBat checks start t ?x = 0x7E000000 OR (push_bit 17 (take_bit 11 ?x) AND FAKEVMEM_MASK) OR ?f"
      unfolding UpdateFakeMMUBat_def fold_fake_block S
      using d(1) [THEN iffD2, OF True] unfolding d(2) [OF True] by (rule if_P)
    have "(0x7E000000 :: u32) = push_bit 17 0x3F00" by (simp add: push_bit_eq_mult)
    moreover have "push_bit 17 (take_bit 11 ?x) AND mask 25 = push_bit 17 (take_bit 8 ?x)"
      by (rule bit_word_eqI) (auto simp: bit_simps simp del: mask_numeral)
    then have "push_bit 17 (take_bit 11 ?x) AND FAKEVMEM_MASK = push_bit 17 (take_bit 8 ?x)" by (simp add: mask_eq_exp_minus_1)
    ultimately have e: "UpdateFakeMMUBat checks start t ?x = push_bit 17 (0x3F00 OR take_bit 8 ?x) OR ?f"
      unfolding entry by (simp only: push_bit_or or.assoc)
    have low: "a AND (BAT_PAGE_SIZE - 1) = take_bit 17 a" "a AND FAKEVMEM_MASK = take_bit 25 a"
      by (simp_all add: take_bit_eq_mask mask_eq_exp_minus_1)
    have "push_bit 17 (take_bit 8 ?x) OR take_bit 17 a = take_bit 25 a"
      by (rule bit_word_eqI) (auto simp: bit_simps)
    then have "push_bit 17 (0x3F00 OR take_bit 8 ?x) OR take_bit 17 a = 0x7E000000 OR take_bit 25 a"
      using \<open>0x7E000000 = push_bit 17 0x3F00\<close> by (simp only: push_bit_or or.assoc)
    with entry_fields [of ?f "0x3F00 OR take_bit 8 ?x"] True show ?thesis
      unfolding TranslateBatAddess_def Let_def e low by (simp only: if_False if_True simp_thms) auto
  next
    case False
    then show ?thesis
      unfolding TranslateBatAddess_def Let_def UpdateFakeMMUBat_def fold_fake_block S d(1) by (simp only: if_False)
  qed
qed

subsection \<open>Block translation\<close>

text \<open>The register pairs that count, the last first, as a later pair overwrites an earlier one.\<close>

definition active_bats :: "bool \<Rightarrow> PowerPCState \<Rightarrow> nat \<Rightarrow> nat \<Rightarrow> (u32 \<times> u32) list" where
  "active_bats bWii s base_spr extended_spr =
     (if bWii \<and> HID4_SBE s then bat_regs s extended_spr else []) @ bat_regs s base_spr"

definition block_address :: "bool \<Rightarrow> Memory \<Rightarrow> PowerPCState \<Rightarrow> nat \<Rightarrow> nat \<Rightarrow> u32 \<Rightarrow> u32 option" where
  "block_address bWii m s base_spr extended_spr a =
     (if m_pFakeVMEM m \<and> drop_bit 28 a \<in> {4, 7} then Some (0x7E000000 OR (a AND FAKEVMEM_MASK))
      else bat_lookup (active_bats bWii s base_spr extended_spr) a)"

lemma build_bats_lookup:
  "TranslateBatAddess (build_bats bWii checks m s base_spr extended_spr) a = block_address bWii m s base_spr extended_spr a"
proof -
  have z: "TranslateBatAddess (\<lambda>_. 0) a = None" by (simp add: TranslateBatAddess_def)
  have f4: "TranslateBatAddess (UpdateFakeMMUBat checks 0x40000000 t) a =
      (if drop_bit 28 a = 4 then Some (0x7E000000 OR (a AND FAKEVMEM_MASK)) else TranslateBatAddess t a)"
    and f7: "TranslateBatAddess (UpdateFakeMMUBat checks 0x70000000 t) a =
      (if drop_bit 28 a = 7 then Some (0x7E000000 OR (a AND FAKEVMEM_MASK)) else TranslateBatAddess t a)" for t
    using TranslateBat_fake [of 4 "0x40000000" checks t a] TranslateBat_fake [of 7 "0x70000000" checks t a]
    by (simp_all add: push_bit_eq_mult)
  have nil: "bat_lookup [] a = None" by (simp add: bat_lookup_def)
  show ?thesis
    unfolding build_bats_def block_address_def active_bats_def Let_def
    by (simp add: f4 f7 TranslateBat_UpdateBATs bat_lookup_append z nil split: option.split)
qed

text \<open>
  C10. The tables of block translation are right: after the registers have been loaded, an address is translated
  by table exactly when it is in the block of a valid register pair, with the address that pair gives, the last of several
  matching pairs winning; with the fake memory on, the addresses that start with 4 or 7 go there; and translation uses the page table
  only for addresses no block contains. Instruction and data translation use their own tables.
\<close>

theorem block_translation:
  "let mm' = IBATUpdated bWii ichecks m s (DBATUpdated bWii dchecks m s mm);
       block = (if IsOpcodeFlag flag then block_address bWii m s 528 560 a else block_address bWii m s 536 568 a)
   in TranslateAddress flag a s (mm', m) =
        (case block of Some p \<Rightarrow> Inr (BAT_TRANSLATED p, mm', m) | None \<Rightarrow> TranslatePageAddress a flag s (mm', m))"
  by (simp add: TranslateAddress_def Let_def IBATUpdated_def DBATUpdated_def build_bats_lookup)

subsection \<open>Watched memory\<close>

lemma unat_page_end: "unat (x OR 0x1FFFF) = unat x div 2 ^ 17 * 2 ^ 17 + (2 ^ 17 - 1)" for x :: u32
proof -
  have m: "(0x1FFFF :: u32) = mask 17" by (simp add: mask_eq_exp_minus_1)
  have "x OR mask 17 = push_bit 17 (drop_bit 17 x) OR mask 17" by (rule bit_word_eqI) (auto simp: bit_simps simp del: mask_numeral)
  also have "\<dots> = push_bit 17 (drop_bit 17 x) + mask 17"
    by (rule disjunctive_add [symmetric]) (auto simp: bit_simps simp del: mask_numeral)
  finally have e: "x OR 0x1FFFF = push_bit 17 (drop_bit 17 x) + 0x1FFFF" unfolding m .
  have d: "unat (drop_bit 17 x) = unat x div 2 ^ 17" unfolding unat_drop_bit_eq by (rule drop_bit_eq_div)
  have "unat x < 2 ^ 32" using unsigned_less [of x] by simp
  then have b: "unat x div 2 ^ 17 < 2 ^ 15" by (simp add: div_less_iff_less_mult)
  have "unat (push_bit 17 (drop_bit 17 x)) = unat x div 2 ^ 17 * 2 ^ 17"
    using b by (simp add: push_bit_eq_mult unat_word_ariths d)
  then show ?thesis unfolding e using b by (simp add: unat_word_ariths)
qed

lemma OverlapsMemcheck_page:
  assumes mc: "mc \<in> set checks" and a: "start_address mc \<le> a" "a \<le> end_address mc"
  shows "OverlapsMemcheck checks (push_bit 17 (drop_bit 17 a)) 0x20000"
proof -
  have page: "push_bit 17 (drop_bit 17 a) OR 0x1FFFF = a OR 0x1FFFF"
  proof -
    have m: "(0x1FFFF :: u32) = mask 17" by (simp add: mask_eq_exp_minus_1)
    show ?thesis unfolding m by (rule bit_word_eqI) (auto simp: bit_simps simp del: mask_numeral)
  qed
  have le: "unat (start_address mc) div 2 ^ 17 \<le> unat a div 2 ^ 17" "unat a div 2 ^ 17 \<le> unat (end_address mc) div 2 ^ 17"
    using a by (simp_all add: word_le_nat_alt div_le_mono)
  have eq: "x OR 0x1FFFF = y OR 0x1FFFF \<longleftrightarrow> unat x div 2 ^ 17 = unat y div 2 ^ 17" for x y :: u32
    using unat_page_end [of x] unat_page_end [of y] word_unat_eqI [of "x OR 0x1FFFF" "y OR 0x1FFFF"] by auto
  have less: "x OR 0x1FFFF < y OR 0x1FFFF \<longleftrightarrow> unat x div 2 ^ 17 < unat y div 2 ^ 17" for x y :: u32
    unfolding word_less_nat_alt unat_page_end by auto
  have "\<exists>mc \<in> set checks.
      (start_address mc OR 0x1FFFF = a OR 0x1FFFF \<or> end_address mc OR 0x1FFFF = a OR 0x1FFFF) \<or>
      (start_address mc OR 0x1FFFF < a OR 0x1FFFF \<and> a OR 0x1FFFF < end_address mc OR 0x1FFFF)"
    unfolding eq less using mc le by (intro bexI [of _ mc]) auto
  moreover have "checks \<noteq> []" using mc by auto
  moreover have e: "(0x20000 :: u32) - 1 = 0x1FFFF" by simp
  ultimately show ?thesis unfolding OverlapsMemcheck_def Let_def e page by simp
qed

definition unwatched :: "TMemCheck list \<Rightarrow> (u32 \<Rightarrow> u32) \<Rightarrow> bool" where
  "unwatched checks t \<longleftrightarrow>
     (\<forall>a. bit (t (drop_bit 17 a)) 1 \<longrightarrow> \<not> OverlapsMemcheck checks (push_bit 17 (drop_bit 17 a)) 0x20000)"

lemma unwatched_update_bat:
  assumes "unwatched checks t"
  shows "unwatched checks (update_bat checks m batu batl t)"
  unfolding unwatched_def
proof (intro allI impI)
  fix a assume b: "bit (update_bat checks m batu batl t (drop_bit 17 a)) 1"
  have x: "bit (drop_bit 17 a) n \<Longrightarrow> n < 15" for n by (auto simp: bit_drop_bit_eq dest: bit_imp_le_length)
  have u: "update_bat checks m batu batl t (drop_bit 17 a) =
    (if bat_matches batu (push_bit 17 (drop_bit 17 a))
     then let p = push_bit 17 (BAT_BRPN batl OR (drop_bit 17 a AND BAT_BL batu))
          in p OR bat_valid_bits checks m p (push_bit 17 (drop_bit 17 a))
     else t (drop_bit 17 a))"
    by (rule update_bat_at) (rule x)
  show "\<not> OverlapsMemcheck checks (push_bit 17 (drop_bit 17 a)) 0x20000"
  proof
    assume o: "OverlapsMemcheck checks (push_bit 17 (drop_bit 17 a)) 0x20000"
    then have "bat_valid_bits checks m p (push_bit 17 (drop_bit 17 a)) = 1" for p
      by (simp add: bat_valid_bits_def Let_def)
    with b assms o show False
      by (auto simp: u Let_def unwatched_def bit_or_iff bit_push_bit_iff simp del: push_bit_or split: if_splits)
  qed
qed

lemma unwatched_fake:
  assumes "unwatched checks t"
  shows "unwatched checks (UpdateFakeMMUBat checks start t)"
  unfolding unwatched_def UpdateFakeMMUBat_def fold_fake_block
proof (intro allI impI notI)
  fix a
  let ?i = "push_bit 17 (drop_bit 17 a - drop_bit 17 start) AND FAKEVMEM_MASK"
  assume b: "bit (if \<exists>i \<in> set [0..<0x800]. of_nat i = drop_bit 17 a - drop_bit 17 start
      then 0x7E000000 OR ?i OR (if OverlapsMemcheck checks (push_bit 17 (drop_bit 17 a)) BAT_PAGE_SIZE then 1 else 3)
      else t (drop_bit 17 a)) 1"
    and o: "OverlapsMemcheck checks (push_bit 17 (drop_bit 17 a)) 0x20000"
  have "\<not> bit ?i 1" "\<not> bit (0x7E000000 :: u32) 1" "\<not> bit (1 :: u32) 1" by (simp_all add: bit_and_iff bit_push_bit_iff)
  with b o assms show False by (auto simp: unwatched_def bit_or_iff split: if_splits)
qed

lemma unwatched_zero: "unwatched checks (\<lambda>_. 0)"
  by (simp add: unwatched_def)

lemma unwatched_UpdateBATs: "unwatched checks t \<Longrightarrow> unwatched checks (UpdateBATs checks m s base_spr t)"
  unfolding UpdateBATs_def by (simp add: unwatched_update_bat numeral_eq_Suc)

text \<open>
  Watched memory is always checked: in the table for data no page that contains an address of a memory breakpoint has the
  bit that lets the recompiler access it without a test.
\<close>

theorem watched_pages_checked:
  assumes "mc \<in> set checks" and "start_address mc \<le> a" and "a \<le> end_address mc"
  shows "\<not> bit (dbat_table (DBATUpdated bWii checks m s mm) (drop_bit 17 a)) 1"
proof -
  have "unwatched checks (build_bats bWii checks m s SPR_DBAT0U SPR_DBAT4U)"
    unfolding build_bats_def Let_def by (simp add: unwatched_UpdateBATs unwatched_fake unwatched_zero)
  then show ?thesis using OverlapsMemcheck_page [OF assms] by (auto simp: unwatched_def DBATUpdated_def)
qed

theorem watched_pages_checked_witness:
  "\<not> bit (dbat_table (DBATUpdated True
      [\<lparr>start_address = 0x80003100, end_address = 0x80003103, is_ranged = True, is_break_on_read = True, is_break_on_write = True,
        log_on_hit = True, break_on_hit = True, num_hits = 0\<rparr>]
      (Memory_Init True False) (ppc_zero\<lparr>spr := (\<lambda>_. 0)(536 := 0x80001FFF)\<rparr>) mmu_test) (drop_bit 17 0x80003102)) 1"
  by (rule watched_pages_checked [OF list.set_intros(1)]) simp_all

end
