(* ===== verification/PPC_Access.thy ===== *)
theory PPC_Access
  imports PPC_BAT CoreTiming
begin

text \<open>
  Data and instruction accesses of the main processor (\<^verbatim>\<open>Core/PowerPC/MMU.cpp\<close>): the accesses
  with their translation, the exceptions they raise and the regions of memory they go to.

  A template argument \<open>T\<close> of the sources is its size \<open>n\<close> in bytes, and a value of that type a 64-bit word below
  \<open>2 ^ (8 * n)\<close>. Devices (the registers behind \<^verbatim>\<open>MMIO::Mapping\<close>, the frame buffer of the video backend
  and the gather pipe) are the parameter \<open>hw\<close>: functions on the whole machine, as a device may also raise an exception of the processor.
\<close>

unbundle bit_operations_syntax

subsection \<open>The machine\<close>

text \<open>
  \<open>ps\<close>, the reservation and \<open>fpscr\<close> are members of \<open>ppcState\<close> that only the instructions for memory, floating
  point and system registers use; \<open>timing\<close> is the scheduler.
\<close>

datatype CPU_State = Running | Stepping | PowerDown

record 'd Machine =
  ppc :: PowerPCState
  mmu :: MMU
  iCache :: InstructionCache
  mem :: Memory
  memchecks :: "TMemCheck list"
  cpu_state :: CPU_State
  paused_and_locked :: bool
  request_stepping :: bool
  bMMU :: bool
  bWii :: bool
  bDCBZOFF :: bool
  bLowDCBZHack :: bool
  ps :: "nat \<Rightarrow> nat \<Rightarrow> u64"
  m_reserve :: bool
  m_reserve_address :: u32
  fpscr :: u32
  timing :: CoreTiming
  devices :: 'd

record 'm hw =
  PeekZ :: "u32 \<Rightarrow> u32 \<Rightarrow> 'm \<Rightarrow> u32 \<times> 'm"
  PeekColor :: "u32 \<Rightarrow> u32 \<Rightarrow> 'm \<Rightarrow> u32 \<times> 'm"
  PokeZ :: "u32 \<Rightarrow> u32 \<Rightarrow> u32 \<Rightarrow> 'm \<Rightarrow> 'm"
  PokeColor :: "u32 \<Rightarrow> u32 \<Rightarrow> u32 \<Rightarrow> 'm \<Rightarrow> 'm"
  mmio_Read :: "nat \<Rightarrow> u32 \<Rightarrow> 'm \<Rightarrow> u64 \<times> 'm"
  mmio_Write :: "nat \<Rightarrow> u32 \<Rightarrow> u64 \<Rightarrow> 'm \<Rightarrow> 'm"
  GPFifo_Write :: "nat \<Rightarrow> u64 \<Rightarrow> 'm \<Rightarrow> 'm"
  ResetGatherPipe :: "'m \<Rightarrow> 'm"

abbreviation (input) "SPR_DSISR \<equiv> 18 :: nat"
abbreviation (input) "SPR_DAR \<equiv> 19 :: nat"

text \<open>Bits of \<open>MSR\<close>.\<close>

definition MSR_DR :: "PowerPCState \<Rightarrow> bool" where "MSR_DR s = bit (msr s) 4"
definition MSR_IR :: "PowerPCState \<Rightarrow> bool" where "MSR_IR s = bit (msr s) 5"

text \<open>\<^verbatim>\<open>CPU::Break\<close> of \<^verbatim>\<open>Core/HW/CPU.cpp\<close>: a processor that is powered down stays so.\<close>

definition CPU_Break :: "'d Machine \<Rightarrow> 'd Machine" where
  "CPU_Break M =
     (if paused_and_locked M then M\<lparr>request_stepping := True\<rparr>
      else if cpu_state M = PowerDown then M else M\<lparr>cpu_state := Stepping\<rparr>)"

definition IsStepping :: "'d Machine \<Rightarrow> bool" where "IsStepping M \<longleftrightarrow> cpu_state M = Stepping"

subsection \<open>Exceptions\<close>

definition GenerateDSIException :: "u32 \<Rightarrow> bool \<Rightarrow> 'd Machine \<Rightarrow> 'd Machine" where
  "GenerateDSIException effectiveAddress write M =
     (if \<not> bMMU M then M
      else let s = ppc M;
               s1 = set_spr SPR_DSISR (if effectiveAddress \<noteq> 0 then push_bit 30 1 OR push_bit 25 1 else push_bit 30 1) s;
               s2 = set_spr SPR_DAR effectiveAddress s1
           in M\<lparr>ppc := s2\<lparr>Exceptions := Exceptions s2 OR EXCEPTION_DSI\<rparr>\<rparr>)"

definition GenerateISIException :: "u32 \<Rightarrow> 'd Machine \<Rightarrow> 'd Machine" where
  "GenerateISIException effectiveAddress M =
     M\<lparr>ppc := (ppc M)\<lparr>npc := effectiveAddress, Exceptions := Exceptions (ppc M) OR EXCEPTION_ISI\<rparr>\<rparr>"

definition translate :: "XCheckTLBFlag \<Rightarrow> u32 \<Rightarrow> 'd Machine \<Rightarrow> mem_error + TranslateAddressResult \<times> 'd Machine" where
  "translate flag address M =
     and_then (TranslateAddress flag address (ppc M) (mmu M, mem M)) (\<lambda>(r, mm, m). Inr (r, M\<lparr>mmu := mm, mem := m\<rparr>))"

fun translated :: "TranslateAddressResult \<Rightarrow> u32 option" where
  "translated (BAT_TRANSLATED a) = Some a"
| "translated (PAGE_TABLE_TRANSLATED a) = Some a"
| "translated DIRECT_STORE_SEGMENT = None"
| "translated PAGE_FAULT = None"

subsection \<open>Physical accesses\<close>

definition EFB_Read :: "'d Machine hw \<Rightarrow> u32 \<Rightarrow> 'd Machine \<Rightarrow> u32 \<times> 'd Machine" where
  "EFB_Read hw addr M =
     (let x = drop_bit 2 (addr AND 0xFFF); y = drop_bit 12 addr AND 0x3FF in
      if addr AND 0x00800000 \<noteq> 0 then (0, M)
      else if addr AND 0x00400000 \<noteq> 0 then PeekZ hw x y M
      else PeekColor hw x y M)"

definition EFB_Write :: "'d Machine hw \<Rightarrow> u32 \<Rightarrow> u32 \<Rightarrow> 'd Machine \<Rightarrow> 'd Machine" where
  "EFB_Write hw data addr M =
     (let x = drop_bit 2 (addr AND 0xFFF); y = drop_bit 12 addr AND 0x3FF in
      if addr AND 0x00800000 \<noteq> 0 then M
      else if addr AND 0x00400000 \<noteq> 0 then PokeZ hw x y data M
      else PokeColor hw x y data M)"

text \<open>The pointer of the four branches that go to memory, in their order.\<close>

definition ram_pointer :: "Memory \<Rightarrow> u32 \<Rightarrow> u32 option" where
  "ram_pointer m em_address =
     (if em_address AND 0xF8000000 = 0 then Some (em_address AND MEM_RAM_MASK)
      else if m_pEXRAM m \<and> drop_bit 28 em_address = 1 \<and> em_address AND 0x0FFFFFFF < EXRAM_SIZE
      then Some (0x10000000 + (em_address AND 0x0FFFFFFF))
      else if drop_bit 28 em_address = 0xE \<and> em_address < 0xE0000000 + L1_CACHE_SIZE
      then Some (0xE0000000 + (em_address AND 0x0FFFFFFF))
      else if m_pFakeVMEM m \<and> em_address AND 0xFE000000 = 0x7E000000
      then Some (0x7E000000 + (em_address AND MEM_RAM_MASK))
      else None)"

text \<open>
  \<open>ReadFromHardware\<close> and \<open>WriteToHardware\<close> from the comment on unaligned addresses on, and with \<open>never_translate\<close>.
  An address nothing answers opens a message and reads as 0.
\<close>

definition ReadPhysical :: "'d Machine hw \<Rightarrow> XCheckTLBFlag \<Rightarrow> nat \<Rightarrow> u32 \<Rightarrow> 'd Machine \<Rightarrow> mem_error + u64 \<times> 'd Machine" where
  "ReadPhysical hw flag n em_address M =
     (case ram_pointer (mem M) em_address of
        Some p \<Rightarrow> and_then (host_read n p (mem M)) (\<lambda>v. Inr (v, M))
      | None \<Rightarrow>
          if flag = FLAG_READ \<and> em_address AND 0xF8000000 = 0x08000000 then
            if em_address < 0x0C000000
            then Inr (map_prod (\<lambda>v. take_bit (8 * n) (ucast v)) id (EFB_Read hw em_address M))
            else Inr (map_prod (take_bit (8 * n)) id (mmio_Read hw n em_address M))
          else Inr (0, M))"

definition WritePhysical :: "'d Machine hw \<Rightarrow> XCheckTLBFlag \<Rightarrow> nat \<Rightarrow> u32 \<Rightarrow> u64 \<Rightarrow> 'd Machine \<Rightarrow> mem_error + 'd Machine" where
  "WritePhysical hw flag n em_address data M =
     (case ram_pointer (mem M) em_address of
        Some p \<Rightarrow> and_then (host_write n data p (mem M)) (\<lambda>m. Inr (M\<lparr>mem := m\<rparr>))
      | None \<Rightarrow>
          if flag = FLAG_WRITE \<and> em_address AND 0xFFFFF000 = 0x0C008000 then Inr (GPFifo_Write hw n data M)
          else if flag = FLAG_WRITE \<and> em_address AND 0xF8000000 = 0x08000000 then
            if em_address < 0x0C000000 then Inr (EFB_Write hw (ucast data) em_address M)
            else Inr (mmio_Write hw n em_address data M)
          else Inr M)"

subsection \<open>Translated accesses\<close>

text \<open>
  The loop over the bytes of an access that crosses a page. Its end \<open>em_address + sizeof(T)\<close> is computed in 64 bits and
  its counter in 32: when the access goes over the end of the address space, the counter never reaches the end.
\<close>

partial_function (option) read_page_bytes ::
    "'d Machine hw \<Rightarrow> XCheckTLBFlag \<Rightarrow> nat \<Rightarrow> u32 \<Rightarrow> u32 \<Rightarrow> u32 \<Rightarrow> u32 \<Rightarrow> u64 \<Rightarrow> 'd Machine \<Rightarrow> (mem_error + u64 \<times> 'd Machine) option" where
  "read_page_bytes hw flag end_addr next_page next_translated addr addr_translated var M =
     (if unat addr < end_addr then
        (let tr = (if addr = next_page then next_translated else addr_translated) in
         case ReadPhysical hw flag 1 tr M of
           Inl e \<Rightarrow> Some (Inl e)
         | Inr (b, M1) \<Rightarrow> read_page_bytes hw flag end_addr next_page next_translated (addr + 1) (tr + 1) (push_bit 8 var OR b) M1)
      else Some (Inr (var, M)))"

definition returned :: "(mem_error + 'a) option \<Rightarrow> mem_error + 'a" where
  "returned r = (case r of None \<Rightarrow> Inl NeverReturns | Some x \<Rightarrow> x)"

definition next_page_of :: "u32 \<Rightarrow> nat \<Rightarrow> u32" where
  "next_page_of em_address n = (em_address + of_nat n - 1) AND NOT 0xFFF"

definition crosses_page :: "u32 \<Rightarrow> nat \<Rightarrow> bool" where
  "crosses_page em_address n \<longleftrightarrow> unat (em_address AND 0xFFF) > 4096 - n"

definition ReadFromHardware :: "'d Machine hw \<Rightarrow> XCheckTLBFlag \<Rightarrow> nat \<Rightarrow> u32 \<Rightarrow> 'd Machine \<Rightarrow> mem_error + u64 \<times> 'd Machine" where
  "ReadFromHardware hw flag n em_address M =
     (if MSR_DR (ppc M) then
        and_then (translate flag em_address M) (\<lambda>(r, M1).
          case translated r of
            None \<Rightarrow> Inr (0, if flag = FLAG_READ then GenerateDSIException em_address False M1 else M1)
          | Some a \<Rightarrow>
              if crosses_page em_address n then
                (let next_page = next_page_of em_address n in
                 and_then (translate flag next_page M1) (\<lambda>(r2, M2).
                   case translated r2 of
                     None \<Rightarrow> Inr (0, if flag = FLAG_READ then GenerateDSIException next_page False M2 else M2)
                   | Some a2 \<Rightarrow> returned (read_page_bytes hw flag (unat em_address + n) next_page a2 em_address a 0 M2)))
              else ReadPhysical hw flag n a M1)
      else ReadPhysical hw flag n em_address M)"

text \<open>
  The loop of the write; \<open>em_address + i\<close> is computed in 64 bits too, so that at the end of the address space no byte is
  the first of the next page.
\<close>

fun write_page_bytes :: "'d Machine hw \<Rightarrow> XCheckTLBFlag \<Rightarrow> nat \<Rightarrow> u32 \<Rightarrow> u32 \<Rightarrow> u32 \<Rightarrow> u64 \<Rightarrow> nat \<Rightarrow> u32 \<Rightarrow> 'd Machine \<Rightarrow> mem_error + 'd Machine" where
  "write_page_bytes hw flag 0 em_address next_page next_translated val i addr_translated M = Inr M"
| "write_page_bytes hw flag (Suc k) em_address next_page next_translated val i addr_translated M =
     (let tr = (if unat em_address + i = unat next_page then next_translated else addr_translated) in
      and_then (WritePhysical hw flag 1 tr (take_bit 8 (drop_bit (i * 8) val)) M)
        (write_page_bytes hw flag k em_address next_page next_translated val (Suc i) (tr + 1)))"

definition WriteToHardware :: "'d Machine hw \<Rightarrow> XCheckTLBFlag \<Rightarrow> nat \<Rightarrow> u32 \<Rightarrow> u64 \<Rightarrow> 'd Machine \<Rightarrow> mem_error + 'd Machine" where
  "WriteToHardware hw flag n em_address data M =
     (if MSR_DR (ppc M) then
        and_then (translate flag em_address M) (\<lambda>(r, M1).
          case translated r of
            None \<Rightarrow> Inr (if flag = FLAG_WRITE then GenerateDSIException em_address True M1 else M1)
          | Some a \<Rightarrow>
              if em_address AND (of_nat n - 1) \<noteq> 0 \<and> crosses_page em_address n then
                (let next_page = next_page_of em_address n in
                 and_then (translate flag next_page M1) (\<lambda>(r2, M2).
                   case translated r2 of
                     None \<Rightarrow> Inr (if flag = FLAG_WRITE then GenerateDSIException next_page True M2 else M2)
                   | Some a2 \<Rightarrow> write_page_bytes hw flag n em_address next_page a2 (bswap n data) 0 a M2))
              else WritePhysical hw flag n a data M1)
      else WritePhysical hw flag n em_address data M)"

subsection \<open>Memory breakpoints\<close>

text \<open>The hit count is that of the breakpoint in the list.\<close>

fun count_hit :: "u32 \<Rightarrow> nat \<Rightarrow> TMemCheck list \<Rightarrow> TMemCheck list" where
  "count_hit address n [] = []"
| "count_hit address n (mc # mcs) =
     (if GetMemCheck [mc] address n \<noteq> None then mc\<lparr>num_hits := num_hits mc + 1\<rparr> # mcs else mc # count_hit address n mcs)"

definition Memcheck :: "u32 \<Rightarrow> bool \<Rightarrow> nat \<Rightarrow> 'd Machine \<Rightarrow> 'd Machine" where
  "Memcheck address write n M =
     (case GetMemCheck (memchecks M) address n of
        None \<Rightarrow> M
      | Some mc \<Rightarrow>
          if IsStepping M then M
          else
            let M1 = M\<lparr>memchecks := count_hit address n (memchecks M)\<rparr> in
            if MemCheck_Action mc write then
              let M2 = CPU_Break M1
              in M2\<lparr>ppc := (ppc M2)\<lparr>Exceptions := Exceptions (ppc M2) OR (EXCEPTION_DSI OR EXCEPTION_FAKE_MEMCHECK_HIT)\<rparr>\<rparr>
            else M1)"

subsection \<open>The functions of the processor\<close>

text \<open>\<open>Read_U8\<close> to \<open>Read_U64\<close> and \<open>Write_U8\<close> to \<open>Write_U64\<close>, by their sizes.\<close>

definition PowerPC_Read :: "'d Machine hw \<Rightarrow> nat \<Rightarrow> u32 \<Rightarrow> 'd Machine \<Rightarrow> mem_error + u64 \<times> 'd Machine" where
  "PowerPC_Read hw n address M =
     and_then (ReadFromHardware hw FLAG_READ n address M) (\<lambda>(v, M1). Inr (v, Memcheck address False n M1))"

definition PowerPC_Write :: "'d Machine hw \<Rightarrow> nat \<Rightarrow> u64 \<Rightarrow> u32 \<Rightarrow> 'd Machine \<Rightarrow> mem_error + 'd Machine" where
  "PowerPC_Write hw n var address M = WriteToHardware hw FLAG_WRITE n address var (Memcheck address True n M)"

text \<open>The functions with a swap check the breakpoint themselves and once more in the function they call.\<close>

definition PowerPC_Write_Swap :: "'d Machine hw \<Rightarrow> nat \<Rightarrow> u64 \<Rightarrow> u32 \<Rightarrow> 'd Machine \<Rightarrow> mem_error + 'd Machine" where
  "PowerPC_Write_Swap hw n var address M = PowerPC_Write hw n (bswap n var) address (Memcheck address True n M)"

definition HostRead :: "'d Machine hw \<Rightarrow> nat \<Rightarrow> u32 \<Rightarrow> 'd Machine \<Rightarrow> mem_error + u64 \<times> 'd Machine" where
  "HostRead hw n address M = ReadFromHardware hw FLAG_NO_EXCEPTION n address M"

definition HostWrite :: "'d Machine hw \<Rightarrow> nat \<Rightarrow> u64 \<Rightarrow> u32 \<Rightarrow> 'd Machine \<Rightarrow> mem_error + 'd Machine" where
  "HostWrite hw n var address M = WriteToHardware hw FLAG_NO_EXCEPTION n address var M"

text \<open>The result of \<open>TryReadInstruction\<close>: \<open>None\<close> when it is not valid.\<close>

record TryReadInstResult =
  from_bat :: bool
  inst_hex :: u32
  physical_address :: u32

definition fetch_physical :: "bool \<Rightarrow> u32 \<Rightarrow> 'd Machine \<Rightarrow> mem_error + TryReadInstResult option \<times> 'd Machine" where
  "fetch_physical bat address M =
     (if m_pFakeVMEM (mem M) \<and> address AND 0xFE000000 = 0x7E000000
      then and_then (read32 (0x7E000000 + (address AND FAKEVMEM_MASK)) (mem M)) (\<lambda>hex.
        Inr (Some \<lparr>from_bat = bat, inst_hex = hex, physical_address = address\<rparr>, M))
      else and_then (ReadInstruction address (ppc M) (mem M) (iCache M)) (\<lambda>(hex, c).
        Inr (Some \<lparr>from_bat = bat, inst_hex = hex, physical_address = address\<rparr>, M\<lparr>iCache := c\<rparr>)))"

definition TryReadInstruction :: "u32 \<Rightarrow> 'd Machine \<Rightarrow> mem_error + TryReadInstResult option \<times> 'd Machine" where
  "TryReadInstruction address M =
     (if MSR_IR (ppc M) then
        and_then (translate FLAG_OPCODE address M) (\<lambda>(r, M1).
          case translated r of
            None \<Rightarrow> Inr (None, M1)
          | Some a \<Rightarrow> fetch_physical (r = BAT_TRANSLATED a) a M1)
      else fetch_physical True address M)"

definition Read_Opcode :: "u32 \<Rightarrow> 'd Machine \<Rightarrow> mem_error + u32 \<times> 'd Machine" where
  "Read_Opcode address M =
     and_then (TryReadInstruction address M) (\<lambda>(r, M1).
       case r of None \<Rightarrow> Inr (0, GenerateISIException address M1) | Some res \<Rightarrow> Inr (inst_hex res, M1))"

definition HostRead_Instruction :: "'d Machine hw \<Rightarrow> u32 \<Rightarrow> 'd Machine \<Rightarrow> mem_error + u32 \<times> 'd Machine" where
  "HostRead_Instruction hw address M = and_then (HostRead hw 4 address M) (\<lambda>(v, M1). Inr (ucast v, M1))"

definition JitCache_TranslateAddress :: "u32 \<Rightarrow> 'd Machine \<Rightarrow> mem_error + (bool \<times> u32) option \<times> 'd Machine" where
  "JitCache_TranslateAddress address M =
     (if \<not> MSR_IR (ppc M) then Inr (Some (True, address), M)
      else and_then (translate FLAG_OPCODE address M) (\<lambda>(r, M1).
        Inr (map_option (\<lambda>a. (r = BAT_TRANSLATED a, a)) (translated r), M1)))"

subsection \<open>Kinds of addresses\<close>

definition is_ram :: "Memory \<Rightarrow> u32 \<Rightarrow> bool" where
  "is_ram m address =
     (let segment = drop_bit 28 address in
      if segment = 0 \<and> address AND 0x0FFFFFFF < MEM_REALRAM_SIZE then True
      else if m_pEXRAM m \<and> segment = 1 \<and> address AND 0x0FFFFFFF < EXRAM_SIZE then True
      else if m_pFakeVMEM m \<and> address AND 0xFE000000 = 0x7E000000 then True
      else if segment = 0xE \<and> address < 0xE0000000 + L1_CACHE_SIZE then True
      else False)"

definition IsRAMAddress :: "XCheckTLBFlag \<Rightarrow> u32 \<Rightarrow> bool \<Rightarrow> 'd Machine \<Rightarrow> mem_error + bool \<times> 'd Machine" where
  "IsRAMAddress flag address translate_first M =
     (if translate_first then
        and_then (translate flag address M) (\<lambda>(r, M1).
          case translated r of None \<Rightarrow> Inr (False, M1) | Some a \<Rightarrow> Inr (is_ram (mem M1) a, M1))
      else Inr (is_ram (mem M) address, M))"

definition HostIsRAMAddress :: "u32 \<Rightarrow> 'd Machine \<Rightarrow> mem_error + bool \<times> 'd Machine" where
  "HostIsRAMAddress address M = IsRAMAddress FLAG_NO_EXCEPTION address (MSR_DR (ppc M)) M"

definition HostIsInstructionRAMAddress :: "u32 \<Rightarrow> 'd Machine \<Rightarrow> mem_error + bool \<times> 'd Machine" where
  "HostIsInstructionRAMAddress address M =
     (if address AND 3 \<noteq> 0 then Inr (False, M) else IsRAMAddress FLAG_OPCODE_NO_EXCEPTION address (MSR_IR (ppc M)) M)"

definition IsOptimizableRAMAddress :: "u32 \<Rightarrow> 'd Machine \<Rightarrow> bool" where
  "IsOptimizableRAMAddress address M =
     (if memchecks M \<noteq> [] then False else if \<not> MSR_DR (ppc M) then False
      else dbat_table (mmu M) (drop_bit 17 address) AND 2 \<noteq> 0)"

definition IsMMIOAddress :: "bool \<Rightarrow> u32 \<Rightarrow> bool" where
  "IsMMIOAddress wii address =
     (if address = 0x0C008000 then False
      else if address AND 0xFFFF0000 = 0x0C000000 then True
      else if wii then address AND 0xFFFF0000 = 0x0D000000 \<or> address AND 0xFFFF0000 = 0x0D800000
      else False)"

definition IsOptimizableMMIOAccess :: "u32 \<Rightarrow> u32 \<Rightarrow> 'd Machine \<Rightarrow> u32" where
  "IsOptimizableMMIOAccess address accessSize M =
     (if memchecks M \<noteq> [] then 0 else if \<not> MSR_DR (ppc M) then 0
      else case TranslateBatAddess (dbat_table (mmu M)) address of
        None \<Rightarrow> 0
      | Some a \<Rightarrow> if a AND (drop_bit 3 accessSize - 1) = 0 \<and> IsMMIOAddress (bWii M) a then a else 0)"

definition IsOptimizableGatherPipeWrite :: "u32 \<Rightarrow> 'd Machine \<Rightarrow> bool" where
  "IsOptimizableGatherPipeWrite address M =
     (if memchecks M \<noteq> [] then False else if \<not> MSR_DR (ppc M) then False
      else TranslateBatAddess (dbat_table (mmu M)) address = Some 0x0C008000)"

subsection \<open>Cache lines and the locked cache\<close>

fun clear_words :: "'d Machine hw \<Rightarrow> nat \<Rightarrow> u32 \<Rightarrow> 'd Machine \<Rightarrow> mem_error + 'd Machine" where
  "clear_words hw 0 address M = Inr M"
| "clear_words hw (Suc k) address M = and_then (WritePhysical hw FLAG_WRITE 8 address 0 M) (clear_words hw k (address + 8))"

definition ClearCacheLine :: "'d Machine hw \<Rightarrow> u32 \<Rightarrow> 'd Machine \<Rightarrow> mem_error + 'd Machine" where
  "ClearCacheLine hw address M =
     (if MSR_DR (ppc M) then
        and_then (translate FLAG_WRITE address M) (\<lambda>(r, M1).
          case r of
            DIRECT_STORE_SEGMENT \<Rightarrow> Inr M1
          | PAGE_FAULT \<Rightarrow> Inr (GenerateDSIException address True M1)
          | BAT_TRANSLATED a \<Rightarrow> clear_words hw 4 a M1
          | PAGE_TABLE_TRANSLATED a \<Rightarrow> clear_words hw 4 a M1)
      else clear_words hw 4 address M)"

text \<open>The loops of the two DMA functions, over words of the locked cache.\<close>

fun dma_words :: "(u32 \<Rightarrow> 'd Machine \<Rightarrow> mem_error + 'd Machine) \<Rightarrow> nat \<Rightarrow> u32 \<Rightarrow> 'd Machine \<Rightarrow> mem_error + 'd Machine" where
  "dma_words f 0 i M = Inr M"
| "dma_words f (Suc k) i M = and_then (f i M) (dma_words f k (i + 4))"

abbreviation (input) "l1_pointer cacheAddr \<equiv> 0xE0000000 + (cacheAddr AND 0x3FFFF) :: u32"

text \<open>\<open>i < 32 * numBlocks\<close> is computed in 32 bits: the loop runs \<open>8 * numBlocks\<close> times when the product does not wrap.\<close>

definition DMA_LCToMemory :: "'d Machine hw \<Rightarrow> u32 \<Rightarrow> u32 \<Rightarrow> u32 \<Rightarrow> 'd Machine \<Rightarrow> mem_error + 'd Machine" where
  "DMA_LCToMemory hw memAddr cacheAddr numBlocks M =
     (let words = unat (32 * numBlocks) div 4; load = (\<lambda>i M. read32 (l1_pointer (cacheAddr + i)) (mem M)) in
      if memAddr AND 0x0F000000 = 0x08000000 then
        dma_words (\<lambda>i M. and_then (load i M) (\<lambda>v. Inr (EFB_Write hw v (memAddr + i) M))) words 0 M
      else if memAddr AND 0x0F000000 = 0x0C000000 then
        dma_words (\<lambda>i M. and_then (load i M) (\<lambda>v. Inr (mmio_Write hw 4 (memAddr + i) (ucast v) M))) words 0 M
      else case GetPointer memAddr (mem M) of
        None \<Rightarrow> Inr M
      | Some dst \<Rightarrow> and_then (load_bytes (unat (32 * numBlocks)) (l1_pointer cacheAddr) (physical_base (mem M))) (\<lambda>bs.
          and_then (store_bytes bs dst (physical_base (mem M))) (\<lambda>a. Inr (M\<lparr>mem := (mem M)\<lparr>physical_base := a\<rparr>\<rparr>))))"

definition DMA_MemoryToLC :: "'d Machine hw \<Rightarrow> u32 \<Rightarrow> u32 \<Rightarrow> u32 \<Rightarrow> 'd Machine \<Rightarrow> mem_error + 'd Machine" where
  "DMA_MemoryToLC hw cacheAddr memAddr numBlocks M =
     (let words = unat (32 * numBlocks) div 4;
          store = (\<lambda>i v M. and_then (host_write 4 (ucast v) (l1_pointer (cacheAddr + i)) (mem M)) (\<lambda>m. Inr (M\<lparr>mem := m\<rparr>))) in
      if memAddr AND 0x0F000000 = 0x08000000 then
        dma_words (\<lambda>i M. let (v, M1) = EFB_Read hw (memAddr + i) M in store i v M1) words 0 M
      else if memAddr AND 0x0F000000 = 0x0C000000 then
        dma_words (\<lambda>i M. let (v, M1) = mmio_Read hw 4 (memAddr + i) M in store i (ucast v) M1) words 0 M
      else case GetPointer memAddr (mem M) of
        None \<Rightarrow> Inr M
      | Some src \<Rightarrow> and_then (load_bytes (unat (32 * numBlocks)) src (physical_base (mem M))) (\<lambda>bs.
          and_then (store_bytes bs (l1_pointer cacheAddr) (physical_base (mem M))) (\<lambda>a.
            Inr (M\<lparr>mem := (mem M)\<lparr>physical_base := a\<rparr>\<rparr>))))"

subsection \<open>The pointer of a physical address\<close>

lemma unat_drop_u32: "unat (drop_bit n a) = unat a div 2 ^ n" for a :: u32
  unfolding unat_drop_bit_eq by (rule drop_bit_eq_div)

lemma drop_bit_eq_numeral: "drop_bit n a = c \<longleftrightarrow> unat a div 2 ^ n = unat c" for a c :: u32
  using unat_drop_u32 [of n a] word_unat_eqI [of "drop_bit n a" c] by auto

lemma unat_push_drop: "unat (push_bit n (drop_bit n a)) = unat a div 2 ^ n * 2 ^ n" for a :: u32
proof -
  have "unat a div 2 ^ n * 2 ^ n \<le> unat a" by simp
  also have "unat a < 2 ^ 32" using unsigned_less [of a, where ?'a = nat] by simp
  finally have "unat a div 2 ^ n * 2 ^ n < 2 ^ 32" .
  then have "take_bit 32 (push_bit n (unat (drop_bit n a))) = unat a div 2 ^ n * 2 ^ n"
    by (simp add: push_bit_eq_mult unat_drop_u32 take_bit_nat_eq_self_iff)
  moreover have "unat (push_bit n (drop_bit n a)) = take_bit LENGTH(32) (push_bit n (unat (drop_bit n a)))"
    by (rule unsigned_push_bit_eq)
  ultimately show ?thesis by simp
qed

lemma and_top: "n + k = 32 \<Longrightarrow> a AND push_bit n (mask k) = push_bit n (drop_bit n a)" for a :: u32
  by (intro bit_word_eqI) (auto simp: bit_simps simp del: mask_numeral)

lemma and_top_eq: "n + k = 32 \<Longrightarrow> a AND push_bit n (mask k) = c \<longleftrightarrow> unat a div 2 ^ n * 2 ^ n = unat c" for a c :: u32
  unfolding and_top unat_push_drop [symmetric] by (auto intro: word_unat_eqI)

lemma and_eq_bits:
  fixes a :: u32
  shows "a AND 0xF8000000 = 0 \<longleftrightarrow> drop_bit 27 a = 0"
    and "a AND 0xFE000000 = 0x7E000000 \<longleftrightarrow> drop_bit 25 a = 0x3F"
    and "a AND 0x0FFFFFFF = take_bit 28 a" and "a AND 0x01FFFFFF = take_bit 25 a"
    and "a AND 0xFFF = take_bit 12 a"
proof -
  have m: "(0xF8000000 :: u32) = push_bit 27 (mask 5)" "(0xFE000000 :: u32) = push_bit 25 (mask 7)"
    by (simp_all add: push_bit_eq_mult mask_eq_exp_minus_1)
  have "a AND 0xF8000000 = 0 \<longleftrightarrow> unat a div 2 ^ 27 * 2 ^ 27 = unat (0 :: u32)"
    unfolding m by (rule and_top_eq) simp
  then show "a AND 0xF8000000 = 0 \<longleftrightarrow> drop_bit 27 a = 0" unfolding drop_bit_eq_numeral by simp
  have "a AND 0xFE000000 = 0x7E000000 \<longleftrightarrow> unat a div 2 ^ 25 * 2 ^ 25 = unat (0x7E000000 :: u32)"
    unfolding m by (rule and_top_eq) simp
  then show "a AND 0xFE000000 = 0x7E000000 \<longleftrightarrow> drop_bit 25 a = 0x3F" unfolding drop_bit_eq_numeral by simp
  show "a AND 0x0FFFFFFF = take_bit 28 a" "a AND 0x01FFFFFF = take_bit 25 a" "a AND 0xFFF = take_bit 12 a"
    by (simp_all add: take_bit_eq_mask mask_eq_exp_minus_1)
qed

lemma exram_bits: "drop_bit 28 a = 1 \<and> take_bit 28 a < 0x04000000 \<longleftrightarrow> drop_bit 26 a = 4" for a :: u32
proof -
  define q where "q = unat a div 2 ^ 26"
  have d: "unat a div 2 ^ 28 = q div 4" by (simp add: q_def div_mult2_eq [symmetric])
  have "unat a mod (2 ^ 26 * 4) = 2 ^ 26 * (q mod 4) + unat a mod 2 ^ 26" unfolding q_def by (rule mod_mult2_eq)
  then have "unat (take_bit 28 a) = 2 ^ 26 * (q mod 4) + unat a mod 2 ^ 26" by (simp add: unat_take_bit)
  moreover have "unat a mod 2 ^ 26 < 2 ^ 26" by simp
  ultimately have t: "take_bit 28 a < 0x04000000 \<longleftrightarrow> q mod 4 = 0" unfolding word_less_nat_alt by (cases "q mod 4") simp_all
  have "q div 4 = 1 \<and> q mod 4 = 0 \<longleftrightarrow> q = 4" by arith
  then show ?thesis unfolding drop_bit_eq_numeral d t q_def [symmetric] by simp
qed

lemma l1_bits: "drop_bit 28 a = 0xE \<and> a < 0xE0040000 \<longleftrightarrow> drop_bit 18 a = 0x3800" for a :: u32
  unfolding drop_bit_eq_numeral word_less_nat_alt using unsigned_less [of a] by simp arith

lemma base_plus_take:
  fixes a :: u32
  assumes "drop_bit k a = c"
  shows "push_bit k c + take_bit k a = a"
  using bits_ident [of k a] assms by simp

lemma ram_pointer_eq:
  "ram_pointer m a =
     (if drop_bit 27 a = 0 then Some (take_bit 25 a)
      else if m_pEXRAM m \<and> drop_bit 26 a = 4 \<or> drop_bit 18 a = 0x3800 \<or> m_pFakeVMEM m \<and> drop_bit 25 a = 0x3F then Some a
      else None)"
proof -
  have ex: "0x10000000 + take_bit 28 a = a" if "drop_bit 26 a = 4"
  proof -
    from that have "drop_bit 28 a = 1" using exram_bits [of a] by simp
    from base_plus_take [OF this] show ?thesis by (simp add: push_bit_eq_mult)
  qed
  have l1: "0xE0000000 + take_bit 28 a = a" if "drop_bit 18 a = 0x3800"
  proof -
    from that have "drop_bit 28 a = 0xE" using l1_bits [of a] by simp
    from base_plus_take [OF this] show ?thesis by (simp add: push_bit_eq_mult)
  qed
  have fk: "0x7E000000 + take_bit 25 a = a" if "drop_bit 25 a = 0x3F"
    using base_plus_take [OF that] by (simp add: push_bit_eq_mult)
  have e: "(0xE0000000 + 0x00040000 :: u32) = 0xE0040000" by simp
  show ?thesis
    unfolding ram_pointer_def e and_eq_bits exram_bits l1_bits using ex l1 fk by auto
qed

lemma in_region_block:
  assumes "unat start = unat c * 2 ^ k" and "unat len = 2 ^ k"
  shows "in_region start len p \<longleftrightarrow> drop_bit k p = c"
proof -
  have "unat start \<le> unat p \<and> unat p - unat start < 2 ^ k \<longleftrightarrow> unat p div 2 ^ k = unat c"
  proof
    assume "unat start \<le> unat p \<and> unat p - unat start < 2 ^ k"
    then show "unat p div 2 ^ k = unat c" unfolding assms(1) by (intro div_nat_eqI) (auto simp: algebra_simps)
  next
    assume "unat p div 2 ^ k = unat c"
    then have "unat p = unat c * 2 ^ k + unat p mod 2 ^ k" using div_mult_mod_eq [of "unat p" "2 ^ k"] by simp
    moreover have "unat p mod 2 ^ k < 2 ^ k" by simp
    ultimately show "unat start \<le> unat p \<and> unat p - unat start < 2 ^ k" unfolding assms(1) by linarith
  qed
  then show ?thesis unfolding in_region_def drop_bit_eq_numeral word_le_nat_alt word_less_nat_alt assms(2)
    by (auto simp: unat_sub_if')
qed

lemma region_mapped_eq:
  "region_mapped m p \<longleftrightarrow> drop_bit 25 p = 0 \<or> drop_bit 18 p = 0x3800 \<or> m_pFakeVMEM m \<and> drop_bit 25 p = 0x3F \<or>
     m_pEXRAM m \<and> drop_bit 26 p = 4"
proof -
  have "in_region 0 0x02000000 p \<longleftrightarrow> drop_bit 25 p = 0" "in_region 0xE0000000 0x00040000 p \<longleftrightarrow> drop_bit 18 p = 0x3800"
    "in_region 0x7E000000 0x02000000 p \<longleftrightarrow> drop_bit 25 p = 0x3F" "in_region 0x10000000 0x04000000 p \<longleftrightarrow> drop_bit 26 p = 4"
    by (rule in_region_block; simp)+
  then show ?thesis by (simp add: region_mapped_def)
qed

lemma ram_pointer_mapped: "ram_pointer m a = Some p \<Longrightarrow> region_mapped m p"
proof -
  have "drop_bit 25 (take_bit 25 a) = 0" by (rule bit_word_eqI) (auto simp: bit_simps)
  then show "ram_pointer m a = Some p \<Longrightarrow> region_mapped m p" by (auto simp: ram_pointer_eq region_mapped_eq split: if_splits)
qed

lemma drop_bit_page: "drop_bit 12 b = drop_bit 12 a \<Longrightarrow> 12 \<le> k \<Longrightarrow> drop_bit k b = drop_bit k a" for a b :: u32
  using drop_bit_drop_bit [of "k - 12" 12 a] drop_bit_drop_bit [of "k - 12" 12 b] by simp

lemma region_mapped_page: "drop_bit 12 q = drop_bit 12 p \<Longrightarrow> region_mapped m q = region_mapped m p"
  using drop_bit_page [of q p] by (simp add: region_mapped_eq)

text \<open>A pointer into memory is one for the whole page, with the offset of the address.\<close>

lemma ram_pointer_page:
  assumes "ram_pointer m a = Some p" and "drop_bit 12 b = drop_bit 12 a"
  shows "\<exists>q. ram_pointer m b = Some q \<and> drop_bit 12 q = drop_bit 12 p \<and> take_bit 12 q = take_bit 12 b"
proof -
  have k: "drop_bit k b = drop_bit k a" if "12 \<le> k" for k using drop_bit_page [OF assms(2) that] .
  have "drop_bit 12 (take_bit 25 x) = take_bit 13 (drop_bit 12 x)" for x :: u32 by (rule bit_word_eqI) (auto simp: bit_simps)
  with assms show ?thesis by (auto simp: ram_pointer_eq k split: if_splits)
qed

lemma ram_pointer_offset: "ram_pointer m a = Some p \<Longrightarrow> take_bit 12 p = take_bit 12 a"
  by (auto simp: ram_pointer_eq split: if_splits)

lemma add_in_page:
  fixes a :: u32
  assumes "unat (take_bit 12 a) + i < 4096"
  shows "drop_bit 12 (a + of_nat i) = drop_bit 12 a" and "take_bit 12 (a + of_nat i) = take_bit 12 a + of_nat i"
proof -
  let ?t = "take_bit 12 a + of_nat i"
  have "i < 4096" using assms by simp
  then have i: "unat (of_nat i :: u32) = i" by (intro unat_of_nat_u32) simp
  have t: "unat ?t = unat (take_bit 12 a) + i" using assms by (simp add: unat_word_ariths i)
  have "unat (take_bit 12 ?t) = unat ?t mod 2 ^ 12" by (rule unat_take_bit)
  then have tt: "take_bit 12 ?t = ?t" using assms t by (intro word_unat_eqI) simp
  have "a + of_nat i = push_bit 12 (drop_bit 12 a) + ?t" using bits_ident [of 12 a] by (metis add.assoc)
  also have "\<dots> = push_bit 12 (drop_bit 12 a) + take_bit 12 ?t" by (simp only: tt)
  also have "\<dots> = push_bit 12 (drop_bit 12 a) OR take_bit 12 ?t"
    by (rule disjunctive_add) (auto simp: bit_push_bit_iff bit_take_bit_iff)
  finally have e: "a + of_nat i = push_bit 12 (drop_bit 12 a) OR take_bit 12 ?t" .
  show "drop_bit 12 (a + of_nat i) = drop_bit 12 a"
    unfolding e by (rule bit_word_eqI) (auto simp: bit_simps dest: bit_imp_le_length)
  have "take_bit 12 (a + of_nat i) = take_bit 12 ?t" unfolding e by (rule bit_word_eqI) (auto simp: bit_simps)
  then show "take_bit 12 (a + of_nat i) = ?t" unfolding tt .
qed

lemma page_bytes_mapped:
  assumes "mem_ok m" and "region_mapped m p" and "unat (take_bit 12 p) + n \<le> 4096" and "i < n"
  shows "physical_base m (p + of_nat i) \<noteq> None"
proof -
  have "drop_bit 12 (p + of_nat i) = drop_bit 12 p" using assms(3,4) by (intro add_in_page) simp
  then have "region_mapped m (p + of_nat i)" using region_mapped_page assms(2) by blast
  with assms(1) show ?thesis by (simp add: mem_ok_def)
qed

end
