(* ===== verification/PPC_AccessProps.thy ===== *)
theory PPC_AccessProps
  imports PPC_Access
begin

text \<open>
  What the accesses of \<^verbatim>\<open>MMU.cpp\<close> promise: reads of the debugger change nothing, a value written is read back,
  accesses to memory do not leave it, the fast accesses of the recompiler agree with the full ones, and a failing access
  raises its exception.
\<close>

unbundle bit_operations_syntax

subsection \<open>Reads of the debugger\<close>

text \<open>An operation that returns leaves the machine as it was.\<close>

definition leaves :: "'m \<Rightarrow> mem_error + 'a \<times> 'm \<Rightarrow> bool" where
  "leaves M r = (case r of Inl e \<Rightarrow> True | Inr (x, M') \<Rightarrow> M' = M)"

lemma leaves_simps [simp]: "leaves M (Inl e)" "leaves M (Inr (x, M')) \<longleftrightarrow> M' = M"
  by (simp_all add: leaves_def)

lemma leaves_bind: "leaves M r \<Longrightarrow> (\<And>x. r = Inr (x, M) \<Longrightarrow> leaves M (f (x, M))) \<Longrightarrow> leaves M (and_then r f)"
  by (cases r) (auto simp: leaves_def)

lemma leaves_keep: "leaves M (and_then r (\<lambda>v. Inr (f v, M)))"
  by (cases r) simp_all

lemma set_entry_same [simp]: "set_entry op i (tlb mm op i) mm = mm"
  by (simp add: set_entry_def)

lemma TranslateAddress_no_exception:
  assumes "IsNoExceptionFlag flag"
  shows "leaves (mm, m) (TranslateAddress flag a s (mm, m))"
proof -
  have f: "flag \<noteq> FLAG_WRITE" using assms by (auto simp: IsNoExceptionFlag_def)
  have "snd (LookupTLBPageAddress flag a mm) = mm"
    using assms f by (auto simp: LookupTLBPageAddress_def Let_def tlb_hit_def)
  then obtain r where l: "LookupTLBPageAddress flag a mm = (r, mm)" by (metis prod.collapse)
  have "leaves (mm, m) (TranslatePageAddress a flag s (mm, m))"
    using assms
    by (auto simp: TranslatePageAddress_def l leaves_def Let_def UpdateTLBEntry_def and_then_def
        split: sum.splits option.splits TLBLookupResult.splits if_splits)
  then show ?thesis by (simp add: TranslateAddress_def split: option.split)
qed

lemma translate_no_exception: "IsNoExceptionFlag flag \<Longrightarrow> leaves M (translate flag a M)"
  using TranslateAddress_no_exception [of flag "mmu M" "mem M" a "ppc M"]
  by (auto simp: translate_def leaves_def and_then_def split: sum.splits)

lemma ReadPhysical_no_exception: "flag \<noteq> FLAG_READ \<Longrightarrow> leaves M (ReadPhysical hw flag n a M)"
  by (simp add: ReadPhysical_def leaves_keep split: option.split)

lemma read_page_bytes_no_exception:
  assumes "read_page_bytes hw flag end_addr np nt addr tr var M = Some r"
  shows "flag \<noteq> FLAG_READ \<longrightarrow> leaves M r"
proof (rule read_page_bytes.raw_induct [where P = "\<lambda>hw flag _ _ _ _ _ _ M r. flag \<noteq> FLAG_READ \<longrightarrow> leaves M r", OF _ assms], goal_cases)
  case (1 rb hw flag end_addr np nt addr tr var M r)
  show ?case
  proof
    assume "flag \<noteq> FLAG_READ"
    define a where "a = (if addr = np then nt else tr)"
    have p: "leaves M (ReadPhysical hw flag 1 a M)" by (rule ReadPhysical_no_exception) fact
    show "leaves M r"
    proof (cases "unat addr < end_addr")
      case True
      with 1(2) have step: "(case ReadPhysical hw flag 1 a M of Inl e \<Rightarrow> Some (Inl e)
          | Inr (b, M1) \<Rightarrow> rb hw flag end_addr np nt (addr + 1) (a + 1) (push_bit 8 var OR b) M1) = Some r"
        unfolding Let_def a_def [symmetric] by (simp only: if_True)
      show ?thesis
      proof (cases "ReadPhysical hw flag 1 a M")
        case (Inl e)
        with step show ?thesis by auto
      next
        case (Inr y)
        with p obtain b where "y = (b, M)" by (cases y) auto
        with step Inr have "rb hw flag end_addr np nt (addr + 1) (a + 1) (push_bit 8 var OR b) M = Some r" by simp
        from 1(1) [OF this] \<open>flag \<noteq> FLAG_READ\<close> show ?thesis by blast
      qed
    next
      case False
      with 1(2) show ?thesis by auto
    qed
  qed
qed

lemma leaves_returned: "(\<And>x. r = Some x \<Longrightarrow> leaves M x) \<Longrightarrow> leaves M (returned r)"
  by (cases r) (simp_all add: returned_def)

lemma HostRead_leaves: "leaves M (HostRead hw n a M)"
proof -
  have f: "IsNoExceptionFlag FLAG_NO_EXCEPTION" by (simp add: IsNoExceptionFlag_def)
  note t = translate_no_exception [OF f] and p = ReadPhysical_no_exception [of FLAG_NO_EXCEPTION]
  show ?thesis unfolding HostRead_def ReadFromHardware_def
    by (auto simp: Let_def p split: option.split intro!: leaves_bind t leaves_returned dest!: read_page_bytes_no_exception [rule_format])
qed

lemma IsRAMAddress_leaves: "IsNoExceptionFlag flag \<Longrightarrow> leaves M (IsRAMAddress flag a tf M)"
  unfolding IsRAMAddress_def by (auto intro!: leaves_bind translate_no_exception split: option.split)

text \<open>
  The reads of the debugger have no effect: they leave processor, lookaside buffers, caches, memory, devices and
  breakpoints as they were, whatever the address and also when the translation fails or the access crosses a page.
\<close>

theorem host_reads_leave_machine:
  "leaves M (HostRead hw n a M) \<and> leaves M (HostRead_Instruction hw a M) \<and>
   leaves M (HostIsRAMAddress a M) \<and> leaves M (HostIsInstructionRAMAddress a M)"
proof (intro conjI)
  show "leaves M (HostRead hw n a M)" by (rule HostRead_leaves)
  show "leaves M (HostRead_Instruction hw a M)"
    unfolding HostRead_Instruction_def by (rule leaves_bind [OF HostRead_leaves]) simp
  show "leaves M (HostIsRAMAddress a M)" "leaves M (HostIsInstructionRAMAddress a M)"
    by (simp_all add: HostIsRAMAddress_def HostIsInstructionRAMAddress_def IsRAMAddress_leaves IsNoExceptionFlag_def)
qed

subsection \<open>Values in memory\<close>

lemma ReadPhysical_ram:
  "ram_pointer (mem M) a = Some p \<Longrightarrow> ReadPhysical hw flag n a M = and_then (host_read n p (mem M)) (\<lambda>v. Inr (v, M))"
  by (simp add: ReadPhysical_def)

lemma WritePhysical_ram:
  "ram_pointer (mem M) a = Some p \<Longrightarrow>
    WritePhysical hw flag n a v M = and_then (host_write n v p (mem M)) (\<lambda>m. Inr (M\<lparr>mem := m\<rparr>))"
  by (simp add: WritePhysical_def)

lemma ram_pointer_write: "host_write n v p m = Inr m' \<Longrightarrow> n \<le> 8 \<Longrightarrow> ram_pointer m' a = ram_pointer m a"
  by (simp add: ram_pointer_eq host_write_keeps)

lemma le_bytes_1: "le_bytes 1 v = [ucast v]"
  by (simp add: numeral_eq_Suc)

lemma bswap_1: "bswap 1 v = take_bit 8 v"
  by (simp add: bswap_def le_bytes_1) (rule bit_word_eqI, auto simp: bit_simps)

lemma host_write_1: "host_write 1 v p m = Inr m' \<longleftrightarrow>
    physical_base m p \<noteq> None \<and> m' = m\<lparr>physical_base := (physical_base m)(p \<mapsto> ucast v)\<rparr>"
proof -
  have "ucast (take_bit 8 v) = (ucast v :: u8)" by (rule bit_word_eqI) (auto simp: bit_simps)
  then show ?thesis
    by (auto simp: host_write_def bswap_1 le_bytes_1 split: option.splits simp del: One_nat_def)
qed

lemma host_read_1: "host_read 1 p m = Inr v \<longleftrightarrow> (\<exists>b. physical_base m p = Some b \<and> v = ucast b)"
proof -
  have "bswap 1 (ucast b) = ucast b" for b :: u8
    unfolding bswap_1 by (rule bit_word_eqI) (auto simp: bit_simps dest: bit_imp_le_length)
  then show ?thesis by (auto simp: host_read_def split: option.splits)
qed

text \<open>Writing and reading single bytes at given physical addresses, the most significant byte of the value first.\<close>

fun write_each :: "'d Machine hw \<Rightarrow> XCheckTLBFlag \<Rightarrow> (u32 \<times> u8) list \<Rightarrow> 'd Machine \<Rightarrow> mem_error + 'd Machine" where
  "write_each hw flag [] M = Inr M"
| "write_each hw flag ((a, b) # xs) M = and_then (WritePhysical hw flag 1 a (ucast b) M) (write_each hw flag xs)"

fun read_each :: "'d Machine hw \<Rightarrow> XCheckTLBFlag \<Rightarrow> u32 list \<Rightarrow> u64 \<Rightarrow> 'd Machine \<Rightarrow> mem_error + u64 \<times> 'd Machine" where
  "read_each hw flag [] var M = Inr (var, M)"
| "read_each hw flag (a # xs) var M =
     and_then (ReadPhysical hw flag 1 a M) (\<lambda>(b, M1). read_each hw flag xs (push_bit 8 var OR b) M1)"

definition in_ram :: "Memory \<Rightarrow> u32 \<Rightarrow> bool" where "in_ram m a \<longleftrightarrow> ram_pointer m a \<noteq> None"

lemma in_ram_write: "host_write n v p m = Inr m' \<Longrightarrow> n \<le> 8 \<Longrightarrow> in_ram m' a = in_ram m a"
  by (simp add: in_ram_def ram_pointer_write)

lemma WritePhysical_1:
  assumes "in_ram (mem M) a" and "WritePhysical hw flag 1 a (ucast b) M = Inr M'"
  shows "M' = M\<lparr>mem := mem M'\<rparr>" and "ram_pointer (mem M') = ram_pointer (mem M)"
    and "physical_base (mem M') = (physical_base (mem M))(the (ram_pointer (mem M) a) \<mapsto> b)"
proof -
  obtain p where p: "ram_pointer (mem M) a = Some p" using assms(1) by (auto simp: in_ram_def)
  then obtain m where w: "host_write 1 (ucast b) p (mem M) = Inr m" and M': "M' = M\<lparr>mem := m\<rparr>"
    using assms(2) by (auto simp: WritePhysical_ram and_then_eq_Inr_conv simp del: One_nat_def)
  show "M' = M\<lparr>mem := mem M'\<rparr>" by (simp add: M')
  show "ram_pointer (mem M') = ram_pointer (mem M)" using ram_pointer_write [OF w] by (simp add: M' fun_eq_iff)
  have "ucast (ucast b :: u64) = b" by (rule bit_word_eqI) (auto simp: bit_simps)
  then show "physical_base (mem M') = (physical_base (mem M))(the (ram_pointer (mem M) a) \<mapsto> b)"
    using w by (simp add: host_write_1 M' p del: One_nat_def)
qed

lemma write_each_effect:
  assumes "write_each hw flag xs M = Inr M'" and "\<forall>a \<in> fst ` set xs. in_ram (mem M) a"
    and "distinct (map (ram_pointer (mem M) \<circ> fst) xs)"
  shows "M' = M\<lparr>mem := mem M'\<rparr> \<and> ram_pointer (mem M') = ram_pointer (mem M) \<and>
    (\<forall>(a, b) \<in> set xs. physical_base (mem M') (the (ram_pointer (mem M) a)) = Some b) \<and>
    (\<forall>q. q \<notin> (\<lambda>x. the (ram_pointer (mem M) (fst x))) ` set xs \<longrightarrow> physical_base (mem M') q = physical_base (mem M) q)"
  using assms
proof (induction xs arbitrary: M)
  case (Cons x xs)
  obtain a b where x: "x = (a, b)" by (cases x)
  obtain M1 where w: "WritePhysical hw flag 1 a (ucast b) M = Inr M1" and r: "write_each hw flag xs M1 = Inr M'"
    using Cons.prems(1) by (auto simp: x and_then_eq_Inr_conv simp del: One_nat_def)
  have a: "in_ram (mem M) a" using Cons.prems(2) by (simp add: x)
  note one = WritePhysical_1 [OF a w]
  have rp: "ram_pointer (mem M1) = ram_pointer (mem M)" by (rule one(2))
  have ir: "in_ram (mem M1) = in_ram (mem M)" by (simp add: in_ram_def rp fun_eq_iff)
  have ih: "M' = M1\<lparr>mem := mem M'\<rparr> \<and> ram_pointer (mem M') = ram_pointer (mem M1) \<and>
    (\<forall>(a, b) \<in> set xs. physical_base (mem M') (the (ram_pointer (mem M1) a)) = Some b) \<and>
    (\<forall>q. q \<notin> (\<lambda>x. the (ram_pointer (mem M1) (fst x))) ` set xs \<longrightarrow> physical_base (mem M') q = physical_base (mem M1) q)"
    using r Cons.prems(2,3) by (intro Cons.IH) (simp_all add: rp ir)
  let ?p = "the (ram_pointer (mem M) a)"
  have "?p \<notin> (\<lambda>x. the (ram_pointer (mem M) (fst x))) ` set xs"
  proof
    assume "?p \<in> (\<lambda>x. the (ram_pointer (mem M) (fst x))) ` set xs"
    then obtain y where y: "y \<in> set xs" "?p = the (ram_pointer (mem M) (fst y))" by auto
    then have "in_ram (mem M) (fst y)" using Cons.prems(2) by simp
    with a y have "ram_pointer (mem M) a = ram_pointer (mem M) (fst y)" by (auto simp: in_ram_def)
    with Cons.prems(3) y(1) show False by (auto simp: x)
  qed
  with ih one(3) have "physical_base (mem M') ?p = Some b" by (simp add: rp)
  moreover have "M1\<lparr>mem := mm\<rparr> = M\<lparr>mem := mm\<rparr>" for mm by (subst one(1)) simp
  with ih have "M' = M\<lparr>mem := mem M'\<rparr>" by simp
  ultimately show ?case using ih one(3) by (auto simp: x rp)
qed simp

lemma read_each_value:
  assumes "list_all2 (\<lambda>a b. \<exists>p. ram_pointer (mem M) a = Some p \<and> physical_base (mem M) p = Some b) as bs"
  shows "read_each hw flag as var M = Inr (fold (\<lambda>b var. push_bit 8 var OR ucast b) bs var, M)"
  using assms
proof (induction as arbitrary: bs var)
  case (Cons a as)
  then obtain b bs' p where bs: "bs = b # bs'" and p: "ram_pointer (mem M) a = Some p" "physical_base (mem M) p = Some b"
    by (auto simp: list_all2_Cons1)
  have "host_read 1 p (mem M) = Inr (ucast b)" using p(2) by (simp add: host_read_1 del: One_nat_def)
  then have "ReadPhysical hw flag 1 a M = Inr (ucast b, M)" by (simp add: ReadPhysical_ram [OF p(1)])
  with Cons show ?case by (simp add: bs)
qed simp

lemma fold_bytes: "fold (\<lambda>b var. push_bit 8 var OR ucast b) (rev bs) 0 = le_value bs"
  by (induction bs) (simp_all add: or.commute)

subsection \<open>Accesses that cross a page\<close>

definition byte_addr :: "u32 \<Rightarrow> u32 \<Rightarrow> nat \<Rightarrow> nat \<Rightarrow> u32" where
  "byte_addr a a2 d j = (if j < d then a + of_nat j else a2 + of_nat (j - d))"

lemma byte_addr_Suc: "Suc i \<noteq> d \<Longrightarrow> byte_addr a a2 d (Suc i) = byte_addr a a2 d i + 1"
  by (cases "i < d") (auto simp: byte_addr_def Suc_diff_le)

lemma write_page_bytes_each:
  assumes "unat next_page = unat em_address + d" and "i \<noteq> d \<Longrightarrow> tr = byte_addr a a2 d i"
  shows "write_page_bytes hw flag k em_address next_page a2 val i tr M =
    write_each hw flag (map (\<lambda>j. (byte_addr a a2 d j, ucast (drop_bit (j * 8) val))) [i..<i + k]) M"
  using assms
proof (induction k arbitrary: i tr M)
  case (Suc k)
  let ?t = "if unat em_address + i = unat next_page then a2 else tr"
  have t: "?t = byte_addr a a2 d i" using Suc.prems by (auto simp: byte_addr_def)
  have b: "ucast (ucast x :: u8) = take_bit 8 x" for x :: u64 by (rule bit_word_eqI) (auto simp: bit_simps)
  have "write_page_bytes hw flag k em_address next_page a2 val (Suc i) (?t + 1) =
      write_each hw flag (map (\<lambda>j. (byte_addr a a2 d j, ucast (drop_bit (j * 8) val))) [Suc i..<Suc i + k])"
    unfolding t using Suc.prems(1) byte_addr_Suc [of i d a a2] by (intro ext Suc.IH) simp_all
  moreover have "[i..<i + Suc k] = i # [Suc i..<Suc i + k]" by (simp add: upt_conv_Cons)
  ultimately show ?case by (simp only: write_page_bytes.simps Let_def list.map write_each.simps t b)
qed simp

lemma read_page_bytes_each:
  assumes "unat next_page = unat em_address + d" and "i \<noteq> d \<Longrightarrow> tr = byte_addr a a2 d i"
    and "unat em_address + i + k < 2 ^ 32"
  shows "read_page_bytes hw flag (unat em_address + i + k) next_page a2 (em_address + of_nat i) tr var M =
    Some (read_each hw flag (map (byte_addr a a2 d) [i..<i + k]) var M)"
  using assms
proof (induction k arbitrary: i tr var M)
  case 0
  then have "unat (em_address + of_nat i) = unat em_address + i" by (simp add: unat_word_ariths unat_of_nat_u32)
  then show ?case by (simp add: read_page_bytes.simps)
next
  case (Suc k)
  have u: "unat (em_address + of_nat i) = unat em_address + i" using Suc.prems(3) by (simp add: unat_word_ariths unat_of_nat_u32)
  then have eq: "em_address + of_nat i = next_page \<longleftrightarrow> i = d"
    using Suc.prems(1) word_unat_eqI [of "em_address + of_nat i" next_page] by auto
  let ?t = "if em_address + of_nat i = next_page then a2 else tr"
  have t: "?t = byte_addr a a2 d i" using Suc.prems(2) by (auto simp: byte_addr_def eq)
  obtain e where e: "e = unat em_address + i + Suc k" by simp
  have ih: "read_page_bytes hw flag e next_page a2 (em_address + of_nat i + 1) (byte_addr a a2 d i + 1) var M1 =
      Some (read_each hw flag (map (byte_addr a a2 d) [Suc i..<Suc i + k]) var M1)" for var M1
    using Suc.IH [of "Suc i" "byte_addr a a2 d i + 1" var M1] Suc.prems(1,3) byte_addr_Suc [of i d a a2]
    by (simp add: e ac_simps)
  have upt: "[i..<i + Suc k] = i # [Suc i..<Suc i + k]" by (simp add: upt_conv_Cons)
  have less: "unat (em_address + of_nat i) < e" by (simp add: u e)
  show ?case unfolding e [symmetric] upt
    by (subst read_page_bytes.simps)
      (simp add: less ih t Let_def and_then_def prod.case_distrib del: One_nat_def upt_Suc split: sum.split)
qed

lemma next_page_props:
  assumes "crosses_page a n" and "n \<le> 8" and "unat a + n \<le> 2 ^ 32"
  defines "d \<equiv> 4096 - unat (take_bit 12 a)"
  shows "unat (next_page_of a n) = unat a + d" and "take_bit 12 (next_page_of a n) = 0" and "0 < d" and "d < n"
    and "unat a + n < 2 ^ 32"
proof -
  have t: "unat (take_bit 12 a) = unat a mod 4096" by (simp only: unat_take_bit) simp
  have c: "4096 - n < unat a mod 4096" using assms(1) by (simp add: crosses_page_def and_eq_bits t)
  have m: "unat a mod 4096 < 4096" by simp
  show d: "0 < d" "d < n" using c m assms(2) unfolding d_def t by linarith+
  have ad: "unat a + d = (unat a div 4096 + 1) * 4096"
  proof -
    have "unat a + (4096 - r) = (q + 1) * 4096" if "q * 4096 + r = unat a" and "r < 4096" for q r using that by simp
    then show ?thesis unfolding d_def t using div_mult_mod_eq m by blast
  qed
  have n: "unat (of_nat n :: u32) = n" using assms(2) by (intro unat_of_nat_u32) simp
  have le: "unat a + (n - 1) < 2 ^ 32" using assms(3) d by linarith
  have e: "a + of_nat n - 1 = a + of_nat (n - 1)" using d by (simp add: of_nat_diff)
  have "unat (of_nat (n - 1) :: u32) = n - 1" using assms(2) by (intro unat_of_nat_u32) simp
  then have u: "unat (a + of_nat n - 1) = unat a + (n - 1)" unfolding e using le by (simp only: unat_word_ariths) simp
  have "(NOT 0xFFF :: u32) = push_bit 12 (mask 20)" by (simp add: push_bit_eq_mult mask_eq_exp_minus_1)
  then have np: "next_page_of a n = push_bit 12 (drop_bit 12 (a + of_nat n - 1))"
    unfolding next_page_of_def by (simp only: and_top)
  then have "unat (next_page_of a n) = (unat a + (n - 1)) div 4096 * 4096" by (simp only: unat_push_drop u) simp
  moreover have "(unat a + (n - 1)) div 4096 = unat a div 4096 + 1"
  proof (rule div_nat_eqI)
    show "4096 * (unat a div 4096 + 1) \<le> unat a + (n - 1)" using ad d by (simp add: algebra_simps)
    have "unat a + (n - 1) < unat a + d + 4096" using d assms(2) by linarith
    also have "\<dots> = 4096 * Suc (unat a div 4096 + 1)" unfolding ad by simp
    finally show "unat a + (n - 1) < 4096 * Suc (unat a div 4096 + 1)" .
  qed
  ultimately show nx: "unat (next_page_of a n) = unat a + d" unfolding ad by (simp only:)
  show "take_bit 12 (next_page_of a n) = 0" unfolding np by (rule bit_word_eqI) (auto simp: bit_simps)
  have "unat (next_page_of a n) \<le> unat a + (n - 1)" using nx d by linarith
  have "unat a + d < 2 ^ 32" using nx unsigned_less [of "next_page_of a n", where ?'a = nat] by simp
  then have "unat a div 4096 + 1 < 2 ^ 20" unfolding ad by simp
  then have "unat a + d + 4096 \<le> 2 ^ 32" unfolding ad by simp
  then show "unat a + n < 2 ^ 32" using d assms(2) by linarith
qed

subsection \<open>What is stored is loaded\<close>

text \<open>The tables of block translation are those of some registers, and the whole access goes to memory.\<close>

definition bats_built :: "'d Machine \<Rightarrow> bool" where
  "bats_built M \<longleftrightarrow> (\<exists>wii checks m s. dbat_table (mmu M) = build_bats wii checks m s SPR_DBAT0U SPR_DBAT4U)"

definition data_address :: "'d Machine \<Rightarrow> u32 \<Rightarrow> u32 option" where
  "data_address M a = (if MSR_DR (ppc M) then TranslateBatAddess (dbat_table (mmu M)) a else Some a)"

definition goes_to_ram :: "'d Machine \<Rightarrow> u32 \<Rightarrow> bool" where
  "goes_to_ram M a \<longleftrightarrow> (case data_address M a of None \<Rightarrow> False | Some p \<Rightarrow> in_ram (mem M) p)"

definition access_in_ram :: "'d Machine \<Rightarrow> u32 \<Rightarrow> nat \<Rightarrow> bool" where
  "access_in_ram M a n \<longleftrightarrow> goes_to_ram M a \<and> (MSR_DR (ppc M) \<and> crosses_page a n \<longrightarrow> goes_to_ram M (next_page_of a n))"

lemma bat_offset:
  assumes "TranslateBatAddess (build_bats wii checks m s SPR_DBAT0U SPR_DBAT4U) a = Some p"
  shows "take_bit 12 p = take_bit 12 a"
proof -
  have "take_bit 12 (push_bit 17 x OR take_bit 17 a) = take_bit 12 a" for x
    by (rule bit_word_eqI) (auto simp: bit_simps)
  then have bat: "take_bit 12 (bat_address u l a) = take_bit 12 a" for u l unfolding bat_address_def .
  have "take_bit 12 (push_bit 25 0x3F OR take_bit 25 a) = take_bit 12 a"
    by (rule bit_word_eqI) (auto simp: bit_simps)
  then have fake: "take_bit 12 (0x7E000000 OR (a AND FAKEVMEM_MASK)) = take_bit 12 a"
    unfolding and_eq_bits by (simp add: push_bit_eq_mult)
  have "p = 0x7E000000 OR (a AND FAKEVMEM_MASK) \<or> (\<exists>u l. p = bat_address u l a)"
    using assms by (auto simp: build_bats_lookup block_address_def bat_lookup_def split: if_splits)
  with bat fake show ?thesis by blast
qed

lemma translate_bat:
  "TranslateBatAddess (dbat_table (mmu M)) a = Some p \<Longrightarrow> \<not> IsOpcodeFlag flag \<Longrightarrow> translate flag a M = Inr (BAT_TRANSLATED p, M)"
  by (simp add: translate_def TranslateAddress_def)

lemma crosses_unaligned:
  assumes "crosses_page a n" and "n \<in> {1, 2, 4, 8}"
  shows "a AND (of_nat n - 1) \<noteq> 0"
proof
  assume z: "a AND (of_nat n - 1) = 0"
  obtain k where k: "n = 2 ^ k" "k \<le> 3"
    using assms(2) by (auto intro: that [of 0] that [of 1] that [of 2] that [of 3])
  have "(of_nat n - 1 :: u32) = mask k" by (simp add: k mask_eq_exp_minus_1)
  with z have "take_bit k a = 0" by (simp add: take_bit_eq_mask)
  then have "take_bit k (take_bit 12 a) = 0" using k(2) by simp
  moreover have "unat (take_bit k (take_bit 12 a)) = unat (take_bit 12 a) mod 2 ^ k" by (rule unat_take_bit)
  ultimately have "n dvd unat (take_bit 12 a)" by (simp add: k dvd_eq_mod_eq_0)
  moreover have "n dvd 4096" using assms(2) by auto
  moreover have "unat (take_bit 12 a) < 4096" by (simp only: unat_take_bit) simp
  moreover have "4096 - n < unat (take_bit 12 a)" using assms(1) by (simp add: crosses_page_def and_eq_bits)
  moreover have "n dvd 4096 - unat (take_bit 12 a)" "0 < 4096 - unat (take_bit 12 a)"
    using calculation by (auto intro: dvd_diff_nat)
  then have "n \<le> 4096 - unat (take_bit 12 a)" by (rule dvd_imp_le)
  ultimately show False using assms(2) by linarith
qed

lemma byte_pointers_distinct:
  assumes off: "take_bit 12 a = take_bit 12 em" "take_bit 12 a2 = 0" and d: "d = 4096 - unat (take_bit 12 em)" "d < n" "n \<le> 8"
    and ram: "in_ram m a" "in_ram m a2"
  shows "\<forall>j < n. in_ram m (byte_addr a a2 d j)"
    and "distinct (map (\<lambda>j. ram_pointer m (byte_addr a a2 d j)) [0..<n])"
proof -
  have t: "unat (take_bit 12 em) < 4096" by (simp only: unat_take_bit) simp
  have page: "in_ram m (byte_addr a a2 d j) \<and>
      unat (take_bit 12 (byte_addr a a2 d j)) = (if j < d then unat (take_bit 12 em) + j else j - d)" if "j < n" for j
  proof (cases "j < d")
    case True
    then have l: "unat (take_bit 12 a) + j < 4096" using d(1) off(1) by simp
    obtain p where p: "ram_pointer m a = Some p" using ram(1) by (auto simp: in_ram_def)
    have "in_ram m (a + of_nat j)" using ram_pointer_page [OF p add_in_page(1) [OF l]] by (auto simp: in_ram_def)
    moreover have "unat (of_nat j :: u32) = j" using that d(3) by (intro unat_of_nat_u32) simp
    then have "unat (take_bit 12 (a + of_nat j)) = unat (take_bit 12 em) + j"
      unfolding add_in_page(2) [OF l] off(1) using l off(1) by (simp only: unat_word_ariths) simp
    ultimately show ?thesis using True by (simp add: byte_addr_def)
  next
    case False
    then have l: "unat (take_bit 12 a2) + (j - d) < 4096" using that d(3) off(2) by simp
    obtain p where p: "ram_pointer m a2 = Some p" using ram(2) by (auto simp: in_ram_def)
    have "in_ram m (a2 + of_nat (j - d))" using ram_pointer_page [OF p add_in_page(1) [OF l]] by (auto simp: in_ram_def)
    moreover have "unat (of_nat (j - d) :: u32) = j - d" using that d(3) by (intro unat_of_nat_u32) simp
    then have "unat (take_bit 12 (a2 + of_nat (j - d))) = j - d"
      unfolding add_in_page(2) [OF l] off(2) by (simp only: add_0)
    ultimately show ?thesis using False by (simp add: byte_addr_def)
  qed
  then show "\<forall>j < n. in_ram m (byte_addr a a2 d j)" by blast
  show "distinct (map (\<lambda>j. ram_pointer m (byte_addr a a2 d j)) [0..<n])"
    unfolding distinct_map
  proof (intro conjI inj_onI)
    fix i j
    assume i: "i \<in> set [0..<n]" and j: "j \<in> set [0..<n]"
      and eq: "ram_pointer m (byte_addr a a2 d i) = ram_pointer m (byte_addr a a2 d j)"
    obtain p where "ram_pointer m (byte_addr a a2 d i) = Some p" using page [of i] i by (auto simp: in_ram_def)
    with eq have "take_bit 12 (byte_addr a a2 d i) = take_bit 12 (byte_addr a a2 d j)" by (metis ram_pointer_offset)
    then have "(if i < d then unat (take_bit 12 em) + i else i - d) = (if j < d then unat (take_bit 12 em) + j else j - d)"
      using page [of i] page [of j] i j by simp
    with d t i j show "i = j" by (auto split: if_splits)
  qed simp
qed

lemma nth_le_bytes: "i < n \<Longrightarrow> le_bytes n v ! i = ucast (drop_bit (i * 8) v)"
proof (induction n arbitrary: i v)
  case (Suc n)
  then show ?case by (cases i) (simp_all add: add.commute)
qed simp

lemma access_bytes:
  assumes d: "0 < d" "d < n" and n: "n \<le> 8" and next_page: "unat next_page = unat em + d" and top: "unat em + n < 2 ^ 32"
    and ram: "\<forall>j < n. in_ram (mem M) (byte_addr a a2 d j)"
    and dist: "distinct (map (\<lambda>j. ram_pointer (mem M) (byte_addr a a2 d j)) [0..<n])"
    and w: "write_page_bytes hw fw n em next_page a2 (bswap n v) 0 a M = Inr M'"
  shows "M' = M\<lparr>mem := mem M'\<rparr>" and "ram_pointer (mem M') = ram_pointer (mem M)"
    and "read_page_bytes hw fr (unat em + n) next_page a2 em a 0 M' = Some (Inr (take_bit (8 * n) v, M'))"
proof -
  let ?xs = "map (\<lambda>j. (byte_addr a a2 d j, ucast (drop_bit (j * 8) (bswap n v)) :: u8)) [0..<n]"
  have a0: "byte_addr a a2 d 0 = a" using d(1) by (simp add: byte_addr_def)
  have "write_each hw fw ?xs M = Inr M'"
    using w by (simp add: write_page_bytes_each [OF next_page a0 [symmetric], where k = n])
  then have eff: "M' = M\<lparr>mem := mem M'\<rparr> \<and> ram_pointer (mem M') = ram_pointer (mem M) \<and>
      (\<forall>(a, b) \<in> set ?xs. physical_base (mem M') (the (ram_pointer (mem M) a)) = Some b)"
    using write_each_effect [of hw fw ?xs M M'] ram dist by (auto simp: comp_def)
  then show "M' = M\<lparr>mem := mem M'\<rparr>" and rp: "ram_pointer (mem M') = ram_pointer (mem M)" by blast+
  have third: "\<forall>(a, b) \<in> set ?xs. physical_base (mem M') (the (ram_pointer (mem M) a)) = Some b" using eff by blast
  have "le_value (le_bytes n (bswap n v)) = bswap n v"
    using n le_bytes_value [of "rev (le_bytes n v)"] by (simp add: bswap_def)
  then have "le_bytes n (bswap n v) = rev (le_bytes n v)" using n le_bytes_value [of "rev (le_bytes n v)"] by (simp add: bswap_def)
  then have "map (\<lambda>j. ucast (drop_bit (j * 8) (bswap n v)) :: u8) [0..<n] = rev (le_bytes n v)"
    by (intro nth_equalityI) (simp_all add: nth_le_bytes [symmetric])
  note bytes = this
  have "\<exists>p. ram_pointer (mem M') (byte_addr a a2 d i) = Some p \<and>
      physical_base (mem M') p = Some (ucast (drop_bit (i * 8) (bswap n v)))" if i: "i < n" for i
  proof -
    obtain p where "ram_pointer (mem M) (byte_addr a a2 d i) = Some p" using ram i by (auto simp: in_ram_def)
    with third [THEN bspec, of "(byte_addr a a2 d i, ucast (drop_bit (i * 8) (bswap n v)))"] i rp show ?thesis by auto
  qed
  then have "list_all2 (\<lambda>a b. \<exists>p. ram_pointer (mem M') a = Some p \<and> physical_base (mem M') p = Some b)
      (map (byte_addr a a2 d) [0..<n]) (map (\<lambda>j. ucast (drop_bit (j * 8) (bswap n v))) [0..<n])"
    by (simp add: list_all2_conv_all_nth)
  from read_each_value [OF this]
  have "read_each hw fr (map (byte_addr a a2 d) [0..<n]) 0 M' = Inr (take_bit (8 * n) v, M')"
    unfolding bytes by (simp add: fold_bytes le_value_bytes)
  then show "read_page_bytes hw fr (unat em + n) next_page a2 em a 0 M' = Some (Inr (take_bit (8 * n) v, M'))"
    using read_page_bytes_each [OF next_page a0 [symmetric], where k = n and hw = hw and flag = fr and var = 0 and M = M'] top by simp
qed

lemma WritePhysical_ReadPhysical:
  assumes "in_ram (mem M) a" and "WritePhysical hw fw n a v M = Inr M'" and "n \<le> 8"
  shows "M' = M\<lparr>mem := mem M'\<rparr>" and "ram_pointer (mem M') = ram_pointer (mem M)"
    and "ReadPhysical hw fr n a M' = Inr (take_bit (8 * n) v, M')"
proof -
  obtain p where p: "ram_pointer (mem M) a = Some p" using assms(1) by (auto simp: in_ram_def)
  then obtain m where w: "host_write n v p (mem M) = Inr m" and M': "M' = M\<lparr>mem := m\<rparr>"
    using assms(2) by (auto simp: WritePhysical_ram and_then_eq_Inr_conv)
  show "M' = M\<lparr>mem := mem M'\<rparr>" by (simp add: M')
  show rp: "ram_pointer (mem M') = ram_pointer (mem M)" using ram_pointer_write [OF w assms(3)] by (simp add: M' fun_eq_iff)
  have "ram_pointer (mem M') a = Some p" by (simp add: rp p)
  moreover have "host_read n p (mem M') = Inr (take_bit (8 * n) v)" using host_read_write [OF w assms(3)] by (simp add: M')
  ultimately show "ReadPhysical hw fr n a M' = Inr (take_bit (8 * n) v, M')" by (simp add: ReadPhysical_ram)
qed

lemma hardware_store_load:
  assumes n: "n \<in> {1, 2, 4, 8}" and top: "unat a + n \<le> 2 ^ 32" and ram: "access_in_ram M a n" and built: "bats_built M"
    and flags: "\<not> IsOpcodeFlag fw" "\<not> IsOpcodeFlag fr" and w: "WriteToHardware hw fw n a v M = Inr M'"
  shows "M' = M\<lparr>mem := mem M'\<rparr> \<and> ram_pointer (mem M') = ram_pointer (mem M) \<and>
    ReadFromHardware hw fr n a M' = Inr (take_bit (8 * n) v, M')"
proof -
  have n8: "n \<le> 8" using n by auto
  obtain p where p: "data_address M a = Some p" "in_ram (mem M) p"
    using ram by (auto simp: access_in_ram_def goes_to_ram_def split: option.splits)
  have bat: "translate flag x N = Inr (BAT_TRANSLATED q, N)"
    if "data_address M x = Some q" "MSR_DR (ppc M)" "mmu N = mmu M" "\<not> IsOpcodeFlag flag" for flag x q and N :: "'a Machine"
    using that translate_bat [of N x q flag] by (simp add: data_address_def)
  show ?thesis
  proof (cases "MSR_DR (ppc M) \<and> crosses_page a n")
    case False
    have w': "WritePhysical hw fw n p v M = Inr M'"
      using w False p(1) bat [OF p(1) _ refl flags(1)] by (auto simp: WriteToHardware_def data_address_def split: if_splits)
    note wr = WritePhysical_ReadPhysical [OF p(2) w' n8]
    have same: "ppc M' = ppc M" "mmu M' = mmu M" by (simp_all add: wr(1) [THEN arg_cong [where f = ppc]] wr(1) [THEN arg_cong [where f = mmu]])
    have "ReadFromHardware hw fr n a M' = ReadPhysical hw fr n p M'"
      using False p(1) bat [OF p(1) _ same(2) flags(2)] by (auto simp: ReadFromHardware_def same data_address_def split: if_splits)
    with wr show ?thesis by simp
  next
    case True
    then have dr: "MSR_DR (ppc M)" and cross: "crosses_page a n" by simp_all
    note np = next_page_props [OF cross n8 top]
    obtain p2 where p2: "data_address M (next_page_of a n) = Some p2" "in_ram (mem M) p2"
      using ram True by (auto simp: access_in_ram_def goes_to_ram_def split: option.splits)
    have off: "take_bit 12 p = take_bit 12 a" "take_bit 12 p2 = 0"
      using built p(1) p2(1) dr np(2) bat_offset by (auto simp: bats_built_def data_address_def)
    note ptrs = byte_pointers_distinct [OF off refl np(4) n8 p(2) p2(2)]
    have "write_page_bytes hw fw n a (next_page_of a n) p2 (bswap n v) 0 p M = Inr M'"
      using w dr cross crosses_unaligned [OF cross n] bat [OF p(1) dr refl flags(1)] bat [OF p2(1) dr refl flags(1)]
      by (simp add: WriteToHardware_def)
    note acc = access_bytes [OF np(3,4) n8 np(1) np(5) ptrs this]
    have same: "ppc M' = ppc M" "mmu M' = mmu M" by (simp_all add: acc(1) [THEN arg_cong [where f = ppc]] acc(1) [THEN arg_cong [where f = mmu]])
    have "ReadFromHardware hw fr n a M' = Inr (take_bit (8 * n) v, M')"
      using dr cross bat [OF p(1) dr same(2) flags(2)] bat [OF p2(1) dr same(2) flags(2)] acc(3)
      by (simp add: ReadFromHardware_def same returned_def)
    with acc show ?thesis by simp
  qed
qed

lemma Memcheck_keeps:
  "mem (Memcheck a w n M) = mem M" "mmu (Memcheck a w n M) = mmu M" "MSR_DR (ppc (Memcheck a w n M)) = MSR_DR (ppc M)"
  "MSR_IR (ppc (Memcheck a w n M)) = MSR_IR (ppc M)" "bats_built (Memcheck a w n M) = bats_built M"
  by (simp_all add: Memcheck_def CPU_Break_def MSR_DR_def MSR_IR_def bats_built_def Let_def split: option.split)

lemma access_in_ram_cong:
  "mem M' = mem M \<Longrightarrow> mmu M' = mmu M \<Longrightarrow> MSR_DR (ppc M') = MSR_DR (ppc M) \<Longrightarrow> access_in_ram M' a n = access_in_ram M a n"
  by (simp add: access_in_ram_def goes_to_ram_def data_address_def cong: option.case_cong)

text \<open>
  C6. What is stored is loaded: after a store of 1, 2, 4 or 8 bytes to memory, with translation by blocks or without, aligned
  or not and also when it crosses a page whose successor lies elsewhere in memory, a load of the same size gives the value; the store
  changes nothing but memory, and the breakpoints of both accesses do not disturb it.
\<close>

theorem store_load:
  assumes "n \<in> {1, 2, 4, 8}" and "unat a + n \<le> 2 ^ 32" and "access_in_ram M a n" and "bats_built M"
    and "PowerPC_Write hw n v a M = Inr M'"
  shows "M' = (Memcheck a True n M)\<lparr>mem := mem M'\<rparr> \<and>
    PowerPC_Read hw n a M' = Inr (take_bit (8 * n) v, Memcheck a False n M') \<and>
    HostRead hw n a M' = Inr (take_bit (8 * n) v, M')"
proof -
  let ?M = "Memcheck a True n M"
  have ram: "access_in_ram ?M a n" and built: "bats_built ?M"
    using assms(3,4) access_in_ram_cong [of ?M M a n] by (simp_all add: Memcheck_keeps)
  have w: "WriteToHardware hw FLAG_WRITE n a v ?M = Inr M'" using assms(5) by (simp add: PowerPC_Write_def)
  have o: "\<not> IsOpcodeFlag FLAG_WRITE" "\<not> IsOpcodeFlag FLAG_READ" "\<not> IsOpcodeFlag FLAG_NO_EXCEPTION" by (simp_all add: IsOpcodeFlag_def)
  note sl = hardware_store_load [OF assms(1,2) ram built o(1) _ w]
  have r: "ReadFromHardware hw FLAG_READ n a M' = Inr (take_bit (8 * n) v, M')" by (rule sl [OF o(2), THEN conjunct2, THEN conjunct2])
  have h: "ReadFromHardware hw FLAG_NO_EXCEPTION n a M' = Inr (take_bit (8 * n) v, M')" by (rule sl [OF o(3), THEN conjunct2, THEN conjunct2])
  have eq: "M' = ?M\<lparr>mem := mem M'\<rparr>" by (rule sl [OF o(2), THEN conjunct1])
  show ?thesis unfolding PowerPC_Read_def HostRead_def r h and_then_Inr prod.case by (intro conjI eq refl)
qed

subsection \<open>Accesses stay in memory\<close>

text \<open>
  What the accesses of the emulator to its own memory need: exactly the regions are mapped, and the page table is inside them. Devices
  may change the machine in any way that keeps this.
\<close>

definition host_ok :: "'d Machine \<Rightarrow> bool" where
  "host_ok M \<longleftrightarrow> mem_ok (mem M) \<and> table_ok (mmu M) (mem M)"

definition hw_ok :: "'d Machine hw \<Rightarrow> bool" where
  "hw_ok hw \<longleftrightarrow> (\<forall>M. host_ok M \<longrightarrow>
     (\<forall>x y. host_ok (snd (PeekZ hw x y M)) \<and> host_ok (snd (PeekColor hw x y M))) \<and>
     (\<forall>x y d. host_ok (PokeZ hw x y d M) \<and> host_ok (PokeColor hw x y d M)) \<and>
     (\<forall>n a. host_ok (snd (mmio_Read hw n a M))) \<and> (\<forall>n a v. host_ok (mmio_Write hw n a v M)) \<and>
     (\<forall>n v. host_ok (GPFifo_Write hw n v M)))"

text \<open>An operation returns, and a machine that was in order still is.\<close>

definition sound :: "mem_error + 'a \<times> 'd Machine \<Rightarrow> bool" where
  "sound r \<longleftrightarrow> (case r of Inl e \<Rightarrow> False | Inr (v, M') \<Rightarrow> host_ok M')"

definition sound_write :: "mem_error + 'd Machine \<Rightarrow> bool" where
  "sound_write r \<longleftrightarrow> (case r of Inl e \<Rightarrow> False | Inr M' \<Rightarrow> host_ok M')"

lemma sound_simps [simp]: "sound (Inr (v, M')) = host_ok M'" "sound_write (Inr M') = host_ok M'" "\<not> sound (Inl e)" "\<not> sound_write (Inl e)"
  by (simp_all add: sound_def sound_write_def)

lemma sound_bind: "sound r \<Longrightarrow> (\<And>v M'. r = Inr (v, M') \<Longrightarrow> host_ok M' \<Longrightarrow> sound (f (v, M'))) \<Longrightarrow> sound (and_then r f)"
  by (cases r) (auto simp: sound_def)

lemma sound_bind_write:
  "sound r \<Longrightarrow> (\<And>v M'. r = Inr (v, M') \<Longrightarrow> host_ok M' \<Longrightarrow> sound_write (f (v, M'))) \<Longrightarrow> sound_write (and_then r f)"
  by (cases r) (auto simp: sound_def)

lemma sound_write_bind:
  "sound_write r \<Longrightarrow> (\<And>M'. r = Inr M' \<Longrightarrow> host_ok M' \<Longrightarrow> sound_write (f M')) \<Longrightarrow> sound_write (and_then r f)"
  by (cases r) (auto simp: sound_write_def)

lemma host_ok_ppc [simp]: "host_ok (M\<lparr>ppc := s\<rparr>) = host_ok M"
  by (simp add: host_ok_def)

lemma host_ok_DSI [simp]: "host_ok (GenerateDSIException a w M) = host_ok M"
  by (simp add: GenerateDSIException_def Let_def)

lemma host_ok_Memcheck [simp]: "host_ok (Memcheck a w n M) = host_ok M"
  by (simp add: host_ok_def Memcheck_keeps)

lemma host_write_ok:
  assumes "host_write n v p m = Inr m'" and "n \<le> 8"
  shows "table_ok mm m' = table_ok mm m" and "mem_ok m' = mem_ok m"
proof -
  have w: "\<forall>i < n. physical_base m (p + of_nat i) \<noteq> None"
    and m': "m' = m\<lparr>physical_base := patch p (le_bytes n (bswap n v)) (physical_base m)\<rparr>"
    using assms by (simp_all add: host_write_Inr_iff)
  have "physical_base m' q = None \<longleftrightarrow> physical_base m q = None" for q
    using patch_None_iff [of "le_bytes n (bswap n v)" "physical_base m" p q] w by (simp add: m')
  then show "table_ok mm m' = table_ok mm m" by (simp add: table_ok_def)
  show "mem_ok m' = mem_ok m" using host_write_keeps [OF assms] by simp
qed

lemma TranslateAddress_sound:
  assumes "mem_ok m" and tab: "table_ok mm m"
  shows "\<exists>r mm' m'. TranslateAddress flag a s (mm, m) = Inr (r, mm', m') \<and> mem_ok m' \<and> table_ok mm' m'"
proof -
  have frame: "table_ok mm' m' = table_ok mm m'" if "pagetable_base mm' = pagetable_base mm" "pagetable_hashmask mm' = pagetable_hashmask mm" for mm' m'
    using that by (simp add: table_ok_def group_addr_def)
  obtain res mm1 where l: "LookupTLBPageAddress flag a mm = (res, mm1)" by fastforce
  then have mm1: "pagetable_base mm1 = pagetable_base mm" "pagetable_hashmask mm1 = pagetable_hashmask mm"
    by (auto simp: LookupTLBPageAddress_def Let_def set_entry_def map_prod_def split: if_splits prod.splits)
  have tab1: "table_ok mm1 m" using frame [OF mm1] tab by simp
  have upd: "table_ok (UpdateTLBEntry flag x a mm1) m' = table_ok mm1 m'" for x m'
    by (simp add: UpdateTLBEntry_def Let_def)
  have "\<exists>r mm' m'. TranslatePageAddress a flag s (mm, m) = Inr (r, mm', m') \<and> mem_ok m' \<and> table_ok mm' m'"
  proof (rule translate_page_cases [OF tab1, where seg = "sr s (EA_SR a)" and flag = flag and a = a], goal_cases)
    case found: (4 p v m')
    have "\<exists>m2. host_write 4 (ucast (access_bits flag v)) (p + 4) m = Inr m2 \<and> mem_ok m2 \<and> table_ok mm1 m2"
      using found(5) host_write_ok [OF found(5)] assms(1) tab1 by simp
    then show ?thesis
      using found(1-4) assms(1) tab1
      by (auto simp: TranslatePageAddress_def l Let_def segment_bits upd split: TLBLookupResult.split)
  qed (use assms(1) tab1 in \<open>auto simp: TranslatePageAddress_def l Let_def segment_bits split: TLBLookupResult.split\<close>)
  then show ?thesis using assms by (auto simp: TranslateAddress_def split: option.split)
qed

lemma translate_sound:
  assumes "host_ok M"
  shows "sound (translate flag a M)" and "translate flag a M = Inr (x, N) \<Longrightarrow> ppc N = ppc M"
proof -
  obtain r mm' m' where "TranslateAddress flag a (ppc M) (mmu M, mem M) = Inr (r, mm', m')" "mem_ok m'" "table_ok mm' m'"
    using assms TranslateAddress_sound [of "mem M" "mmu M" flag a "ppc M"] by (auto simp: host_ok_def)
  then show "sound (translate flag a M)" and "translate flag a M = Inr (x, N) \<Longrightarrow> ppc N = ppc M"
    by (auto simp: translate_def host_ok_def)
qed

lemma in_page_bytes:
  assumes "host_ok M" and "ram_pointer (mem M) a = Some p" and "unat (take_bit 12 a) + n \<le> 4096"
  shows "\<forall>i < n. physical_base (mem M) (p + of_nat i) \<noteq> None"
  using assms page_bytes_mapped [of "mem M" p n] ram_pointer_mapped ram_pointer_offset [OF assms(2)] by (auto simp: host_ok_def)

lemma ReadPhysical_sound:
  assumes "host_ok M" and "hw_ok hw" and "unat (take_bit 12 a) + n \<le> 4096"
  shows "sound (ReadPhysical hw flag n a M)"
proof (cases "ram_pointer (mem M) a")
  case (Some p)
  obtain v where "host_read n p (mem M) = Inr v"
    using in_page_bytes [OF assms(1) Some assms(3)] host_read_total [of n "mem M" p] by blast
  then show ?thesis using assms(1) by (simp add: ReadPhysical_ram [OF Some])
next
  case None
  then show ?thesis using assms(1,2)
    by (auto simp: ReadPhysical_def EFB_Read_def hw_ok_def Let_def map_prod_def split: prod.split) (metis snd_conv)+
qed

lemma WritePhysical_sound:
  assumes "host_ok M" and "hw_ok hw" and "unat (take_bit 12 a) + n \<le> 4096" and "n \<le> 8"
  shows "sound_write (WritePhysical hw flag n a v M)"
proof (cases "ram_pointer (mem M) a")
  case (Some p)
  obtain m' where w: "host_write n v p (mem M) = Inr m'"
    using in_page_bytes [OF assms(1) Some assms(3)] assms(4) by (simp add: host_write_Inr_iff)
  then show ?thesis using assms(1) host_write_ok [OF w assms(4)] by (simp add: WritePhysical_ram [OF Some] host_ok_def)
next
  case None
  then show ?thesis using assms(1,2) by (simp add: WritePhysical_def EFB_Write_def hw_ok_def Let_def)
qed

lemma one_byte: "unat (take_bit 12 a) + 1 \<le> 4096" for a :: u32
proof -
  have "unat (take_bit 12 a) < 4096" by (simp only: unat_take_bit) simp
  then show ?thesis by simp
qed

lemma write_page_bytes_sound:
  assumes "hw_ok hw"
  shows "host_ok M \<Longrightarrow> sound_write (write_page_bytes hw flag k em np nt val i tr M)"
proof (induction k arbitrary: i tr M)
  case (Suc k)
  have "sound_write (WritePhysical hw flag 1 a v M)" for a v
    using WritePhysical_sound [OF Suc.prems assms one_byte] by simp
  then show ?case unfolding write_page_bytes.simps Let_def by (rule sound_write_bind) (rule Suc.IH)
qed simp

lemma read_each_sound:
  assumes "hw_ok hw"
  shows "host_ok M \<Longrightarrow> sound (read_each hw flag as var M)"
proof (induction "as" arbitrary: var M)
  case (Cons a "as")
  have "sound (ReadPhysical hw flag 1 a M)" using ReadPhysical_sound [OF Cons.prems assms one_byte] .
  then show ?case unfolding read_each.simps by (rule sound_bind) (simp add: Cons.IH)
qed simp

lemma in_one_page: "\<not> crosses_page a n \<Longrightarrow> n \<le> 8 \<Longrightarrow> take_bit 12 p = take_bit 12 a \<Longrightarrow> unat (take_bit 12 p) + n \<le> 4096"
  by (simp add: crosses_page_def and_eq_bits)

text \<open>
  Translation keeps the offset in the page: the tables of block translation are those of some registers, and the lookaside buffers
  hold addresses of pages.
\<close>

definition offsets_kept :: "'d Machine \<Rightarrow> bool" where
  "offsets_kept M \<longleftrightarrow> bats_built M \<and> (\<forall>op i w. take_bit 12 (tlb_paddr (tlb (mmu M) op i) w) = 0)"

lemma LookupTLB_found:
  assumes "LookupTLBPageAddress flag a mm = (TLB_FOUND p, mm')"
  shows "\<exists>op i w. p = tlb_paddr (tlb mm op i) w OR (a AND 0xFFF)"
  using assms by (auto simp: LookupTLBPageAddress_def Let_def tlb_hit_def map_prod_def split: if_splits prod.splits)

lemma translated_offset:
  assumes off: "offsets_kept M" and flag: "\<not> IsOpcodeFlag flag" and t: "translate flag a M = Inr (r, M')" "translated r = Some p"
  shows "take_bit 12 p = take_bit 12 a"
proof (cases "TranslateBatAddess (dbat_table (mmu M)) a")
  case (Some q)
  then have "p = q" using translate_bat [OF Some flag] t by simp
  with Some off show ?thesis using bat_offset by (auto simp: offsets_kept_def bats_built_def)
next
  case None
  then obtain mm' m' where pt: "TranslatePageAddress a flag (ppc M) (mmu M, mem M) = Inr (r, mm', m')"
    using t(1) flag by (auto simp: translate_def TranslateAddress_def and_then_eq_Inr_conv)
  obtain res mm1 where l: "LookupTLBPageAddress flag a (mmu M) = (res, mm1)" by fastforce
  have e: "take_bit 12 (PTE2_page v OR EA_Offset a) = take_bit 12 a" for v
    unfolding PTE2_page_def EA_Offset_def and_eq_bits by (rule bit_word_eqI) (auto simp: bit_simps)
  show ?thesis
  proof (cases "\<exists>x. res = TLB_FOUND x")
    case True
    then obtain x where "res = TLB_FOUND x" by blast
    then have "p = x" "\<exists>op i w. x = tlb_paddr (tlb (mmu M) op i) w OR (a AND 0xFFF)"
      using pt l t(2) LookupTLB_found [of flag a "mmu M" x mm1] by (auto simp: TranslatePageAddress_def)
    with off show ?thesis by (auto simp: offsets_kept_def and_eq_bits)
  next
    case False
    then have "\<exists>v. r = PAGE_TABLE_TRANSLATED (PTE2_page v OR EA_Offset a) \<or> translated r = None"
      using pt l by (auto simp: TranslatePageAddress_def Let_def and_then_eq_Inr_conv split: TLBLookupResult.splits if_splits option.splits)
    with t(2) e show ?thesis by auto
  qed
qed

lemma ReadFromHardware_sound:
  assumes ok: "host_ok M" and hw: "hw_ok hw" and n: "n \<in> {1, 2, 4, 8}" and off: "offsets_kept M" and flag: "\<not> IsOpcodeFlag flag"
    and acc: "\<not> crosses_page a n \<or> MSR_DR (ppc M) \<and> unat a + n \<le> 2 ^ 32"
  shows "sound (ReadFromHardware hw flag n a M)"
proof (cases "MSR_DR (ppc M)")
  case False
  have "n \<le> 8" using n by auto
  with False acc show ?thesis
    by (simp add: ReadFromHardware_def ReadPhysical_sound [OF ok hw] in_one_page)
next
  case True
  have n8: "n \<le> 8" using n by auto
  have "sound (case translated r of
          None \<Rightarrow> Inr (0, if flag = FLAG_READ then GenerateDSIException a False M1 else M1)
        | Some p \<Rightarrow> if crosses_page a n
            then let next_page = next_page_of a n in and_then (translate flag next_page M1) (\<lambda>(r2, M2).
              case translated r2 of
                None \<Rightarrow> Inr (0, if flag = FLAG_READ then GenerateDSIException next_page False M2 else M2)
              | Some a2 \<Rightarrow> returned (read_page_bytes hw flag (unat a + n) next_page a2 a p 0 M2))
            else ReadPhysical hw flag n p M1)"
    if t: "translate flag a M = Inr (r, M1)" and ok1: "host_ok M1" for r M1
  proof (cases "translated r")
    case None
    then show ?thesis using ok1 by simp
  next
    case (Some p)
    show ?thesis
    proof (cases "crosses_page a n")
      case False
      have "take_bit 12 p = take_bit 12 a" using translated_offset [OF off flag t Some] .
      then show ?thesis using False Some ReadPhysical_sound [OF ok1 hw] in_one_page [OF False n8] by simp
    next
      case cross: True
      then have top: "unat a + n \<le> 2 ^ 32" using acc by simp
      note np = next_page_props [OF cross n8 top]
      have "sound (returned (read_page_bytes hw flag (unat a + n) (next_page_of a n) a2 a p 0 M2))" if "host_ok M2" for a2 M2
        using read_page_bytes_each [OF np(1), where i = 0 and k = n and tr = p and a = p and hw = hw and flag = flag and var = 0 and M = M2] np
          read_each_sound [OF hw that] by (simp add: byte_addr_def returned_def)
      then show ?thesis using Some cross
        by (auto simp: Let_def intro!: sound_bind [OF translate_sound(1) [OF ok1]] split: option.split)
    qed
  qed
  then show ?thesis using True by (auto simp: ReadFromHardware_def intro!: sound_bind [OF translate_sound(1) [OF ok]])
qed

lemma WriteToHardware_sound:
  assumes ok: "host_ok M" and hw: "hw_ok hw" and n: "n \<in> {1, 2, 4, 8}" and off: "offsets_kept M" and flag: "\<not> IsOpcodeFlag flag"
    and acc: "\<not> crosses_page a n \<or> MSR_DR (ppc M)"
  shows "sound_write (WriteToHardware hw flag n a v M)"
proof (cases "MSR_DR (ppc M)")
  case False
  have "n \<le> 8" using n by auto
  with False acc show ?thesis
    by (simp add: WriteToHardware_def WritePhysical_sound [OF ok hw] in_one_page)
next
  case True
  have n8: "n \<le> 8" using n by auto
  have "sound_write (case translated r of
          None \<Rightarrow> Inr (if flag = FLAG_WRITE then GenerateDSIException a True M1 else M1)
        | Some p \<Rightarrow> if a AND (of_nat n - 1) \<noteq> 0 \<and> crosses_page a n
            then let next_page = next_page_of a n in and_then (translate flag next_page M1) (\<lambda>(r2, M2).
              case translated r2 of
                None \<Rightarrow> Inr (if flag = FLAG_WRITE then GenerateDSIException next_page True M2 else M2)
              | Some a2 \<Rightarrow> write_page_bytes hw flag n a next_page a2 (bswap n v) 0 p M2)
            else WritePhysical hw flag n p v M1)"
    if t: "translate flag a M = Inr (r, M1)" and ok1: "host_ok M1" for r M1
  proof (cases "translated r")
    case None
    then show ?thesis using ok1 by simp
  next
    case (Some p)
    show ?thesis
    proof (cases "crosses_page a n")
      case False
      have "take_bit 12 p = take_bit 12 a" using translated_offset [OF off flag t Some] .
      then show ?thesis using False Some WritePhysical_sound [OF ok1 hw _ n8] in_one_page [OF False n8] by simp
    next
      case True
      then show ?thesis using Some crosses_unaligned [OF True n] write_page_bytes_sound [OF hw]
        by (auto simp: Let_def intro!: sound_bind_write [OF translate_sound(1) [OF ok1]] split: option.split)
    qed
  qed
  then show ?thesis using True by (auto simp: WriteToHardware_def intro!: sound_bind_write [OF translate_sound(1) [OF ok]])
qed

lemma PowerPC_Write_sound:
  assumes "host_ok M" and "hw_ok hw" and "offsets_kept M" and "n \<in> {1, 2, 4, 8}" and "\<not> crosses_page a n \<or> MSR_DR (ppc M)"
  shows "sound_write (PowerPC_Write hw n v a M)"
  unfolding PowerPC_Write_def
proof (rule WriteToHardware_sound [OF _ assms(2,4)])
  show "host_ok (Memcheck a True n M)" "offsets_kept (Memcheck a True n M)" "\<not> IsOpcodeFlag FLAG_WRITE"
    "\<not> crosses_page a n \<or> MSR_DR (ppc (Memcheck a True n M))"
    using assms(1,3,5) by (simp_all add: offsets_kept_def Memcheck_keeps IsOpcodeFlag_def)
qed

text \<open>
  C9. The accesses of the emulated processor cannot leave the memory of the emulator: with the regions mapped, the page table inside
  them and devices that keep this, loads and stores of 1, 2, 4 and 8 bytes always return, whatever the address, the registers and the contents of the page
  table, and keep the machine in that state, provided that the access stays in a page, or is translated and does not run over the end of the
  address space.
\<close>

theorem accesses_stay_in_memory:
  assumes "host_ok M" and "hw_ok hw" and "offsets_kept M" and "n \<in> {1, 2, 4, 8}"
    and "\<not> crosses_page a n \<or> MSR_DR (ppc M) \<and> unat a + n \<le> 2 ^ 32"
  shows "sound (PowerPC_Read hw n a M) \<and> sound_write (PowerPC_Write hw n v a M) \<and>
    sound (HostRead hw n a M) \<and> sound_write (HostWrite hw n v a M)"
proof (intro conjI)
  have o: "\<not> IsOpcodeFlag FLAG_READ" "\<not> IsOpcodeFlag FLAG_NO_EXCEPTION" by (simp_all add: IsOpcodeFlag_def)
  have acc: "\<not> crosses_page a n \<or> MSR_DR (ppc M)" using assms(5) by blast
  show "sound (PowerPC_Read hw n a M)" unfolding PowerPC_Read_def
    using ReadFromHardware_sound [OF assms(1,2,4,3) o(1) assms(5)] by (rule sound_bind) simp
  show "sound_write (PowerPC_Write hw n v a M)" by (rule PowerPC_Write_sound [OF assms(1-4) acc])
  show "sound (HostRead hw n a M)" "sound_write (HostWrite hw n v a M)" unfolding HostRead_def HostWrite_def
    by (rule ReadFromHardware_sound [OF assms(1,2,4,3) o(2) assms(5)] WriteToHardware_sound [OF assms(1,2,4,3) o(2) acc])+
qed

subsection \<open>A machine\<close>

definition hw_test :: "unit Machine hw" where
  "hw_test = \<lparr>PeekZ = (\<lambda>x y M. (0, M)), PeekColor = (\<lambda>x y M. (0, M)), PokeZ = (\<lambda>x y d M. M), PokeColor = (\<lambda>x y d M. M),
     mmio_Read = (\<lambda>n a M. (0, M)), mmio_Write = (\<lambda>n a v M. M), GPFifo_Write = (\<lambda>n v M. M),
     ResetGatherPipe = (\<lambda>M. M)\<rparr>"

definition icache_zero :: InstructionCache where
  "icache_zero = \<lparr>ic_data = \<lambda>_ _. [], ic_tags = \<lambda>_ _. 0, ic_plru = \<lambda>_. 0, ic_valid = \<lambda>_. 0, way_from_valid = [],
     way_from_plru = [], lookup_table = \<lambda>_. 0, lookup_table_ex = \<lambda>_. 0, lookup_table_vmem = \<lambda>_. 0\<rparr>"

definition timing_zero :: CoreTiming where
  "timing_zero =
     \<lparr>s_event_types = [], s_event_queue = [], s_event_fifo_id = 0, s_ts_queue = [], s_last_OC_factor = 1, s_idled_cycles = 0,
      s_fake_dec_start_value = 0, s_fake_dec_start_ticks = 0, s_is_global_timer_sane = True, global_timer = 0, slice_length = 0,
      fake_TB_start_value = 0, fake_TB_start_ticks = 0, last_OC_factor_inverted = 1, downcount = 0\<rparr>"

text \<open>Addresses from 0x80000000 are the memory from 0, as the operating system of the console sets it up.\<close>

definition machine_test :: "unit Machine" where
  "machine_test =
     (let s = ppc_zero\<lparr>msr := 0x10, spr := (\<lambda>_. 0)(536 := 0x80001FFF, 537 := 2)\<rparr>; m = Memory_Init True False in
      \<lparr>ppc = s, mmu = DBATUpdated True [] m s mmu_test, iCache = ICache_Init (InstructionCache_construct icache_zero), mem = m, memchecks = [],
       cpu_state = Running, paused_and_locked = False, request_stepping = False, bMMU = True, bWii = True, bDCBZOFF = False, bLowDCBZHack = False, ps = (\<lambda>_ _. 0),
       m_reserve = False, m_reserve_address = 0, fpscr = 0, timing = timing_zero, devices = ()\<rparr>)"

lemma hw_test_ok: "hw_ok hw_test"
  by (simp add: hw_ok_def hw_test_def)

lemma machine_test_ok: "host_ok machine_test" "offsets_kept machine_test" "bats_built machine_test" "MSR_DR (ppc machine_test)"
proof -
  have "table_ok (DBATUpdated w c m s mmu_test) m' = table_ok mmu_test m'" for w c m s m'
    by (simp add: table_ok_def group_addr_def DBATUpdated_def)
  then show "host_ok machine_test" by (simp add: host_ok_def machine_test_def Let_def Memory_Init_ok table_ok_test)
  show b: "bats_built machine_test" by (auto simp: bats_built_def machine_test_def Let_def DBATUpdated_def)
  then show "offsets_kept machine_test"
    by (simp add: offsets_kept_def) (simp add: machine_test_def Let_def DBATUpdated_def mmu_test_def TLBEntry_new_def)
  show "MSR_DR (ppc machine_test)" by (simp add: MSR_DR_def machine_test_def Let_def)
qed

theorem accesses_stay_in_memory_witness:
  "sound (PowerPC_Read hw_test 4 0x80000FFE machine_test) \<and> sound_write (PowerPC_Write hw_test 4 1 0x80000FFE machine_test)"
  using accesses_stay_in_memory [OF machine_test_ok(1) hw_test_ok machine_test_ok(2), of 4 "0x80000FFE" 1]
  by (simp add: machine_test_ok)

lemma machine_test_address: "drop_bit 28 a = 8 \<Longrightarrow> data_address machine_test a = Some (take_bit 28 a)"
proof -
  assume a: "drop_bit 28 a = 8"
  have f: "BAT_BL 0x80001FFF = 0x7FF" "BAT_BEPI 0x80001FFF = 0x4000" "BAT_VS 0x80001FFF" "BAT_BRPN 2 = 0"
    by (simp_all add: BAT_BL_def BAT_BEPI_def BAT_VS_def BAT_BRPN_def bit_field_def)
  have "drop_bit 28 a = drop_bit 11 (drop_bit 17 a)" by simp
  moreover have "x AND NOT (mask 11) = push_bit 11 (drop_bit 11 x)" for x :: u32
    by (rule bit_word_eqI) (auto simp: bit_simps simp del: mask_numeral)
  ultimately have "drop_bit 17 a AND NOT (mask 11) = push_bit 11 8" using a by simp
  then have "drop_bit 17 a AND NOT 0x7FF = 0x4000" by (simp add: push_bit_eq_mult mask_eq_exp_minus_1)
  then have m: "bat_matches 0x80001FFF a" by (simp add: bat_matches_def f)
  have "push_bit 17 (take_bit 11 (drop_bit 17 a)) OR take_bit 17 a = take_bit 28 a" by (rule bit_word_eqI) (auto simp: bit_simps)
  then have p: "bat_address 0x80001FFF 2 a = take_bit 28 a"
    by (simp add: bat_address_def f take_bit_eq_mask mask_eq_exp_minus_1)
  have z: "\<not> bat_matches 0 a" by (simp add: bat_matches_def BAT_VS_def BAT_VP_def)
  have "bat_lookup (active_bats True (ppc_zero\<lparr>msr := 16, spr := (\<lambda>_. 0)(536 := 0x80001FFF, 537 := 2)\<rparr>) 536 568) a = Some (take_bit 28 a)"
    by (simp add: active_bats_def HID4_SBE_def bat_regs_def numeral_eq_Suc bat_lookup_def m p z del: numeral_1_eq_Suc_0)
  moreover have "\<not> m_pFakeVMEM (Memory_Init True False)" by (simp add: Memory_Init_def Memory_Clear_def Let_def)
  ultimately show ?thesis
    by (simp add: data_address_def machine_test_ok) (simp add: machine_test_def Let_def DBATUpdated_def build_bats_lookup block_address_def)
qed

theorem store_load_witness:
  "\<exists>M'. PowerPC_Write hw_test 4 0x12345678 0x80000FFE machine_test = Inr M' \<and>
     PowerPC_Read hw_test 4 0x80000FFE M' = Inr (0x12345678, Memcheck 0x80000FFE False 4 M')"
proof -
  have ram: "access_in_ram machine_test 0x80000FFE 4"
    by (simp add: access_in_ram_def goes_to_ram_def machine_test_address in_ram_def ram_pointer_eq next_page_of_def)
  have "sound_write (PowerPC_Write hw_test 4 0x12345678 0x80000FFE machine_test)"
    using PowerPC_Write_sound [OF machine_test_ok(1) hw_test_ok machine_test_ok(2)] machine_test_ok(4) by blast
  then obtain M' where "PowerPC_Write hw_test 4 0x12345678 0x80000FFE machine_test = Inr M'"
    by (auto simp: sound_write_def split: sum.splits)
  with store_load [OF _ _ ram machine_test_ok(3) this] show ?thesis by simp
qed

end
