(* ===== verification/PPC_FastPath.thy ===== *)
theory PPC_FastPath
  imports PPC_AccessProps
begin

text \<open>
  The accesses the recompiler makes without the functions of \<^verbatim>\<open>MMU.cpp\<close>: where \<open>IsOptimizableRAMAddress\<close> allows them they
  agree with the full access. And the exceptions and endless loops of the accesses that fail.
\<close>

unbundle bit_operations_syntax

subsection \<open>Pages the recompiler may access directly\<close>

definition fast_ok :: "Memory \<Rightarrow> (u32 \<Rightarrow> u32) \<Rightarrow> bool" where
  "fast_ok m t \<longleftrightarrow> (\<forall>a. bit (t (drop_bit 17 a)) 1 \<longrightarrow> (\<exists>p. TranslateBatAddess t a = Some p \<and> in_ram m p))"

lemma in_ram_block: "drop_bit 17 b = drop_bit 17 a \<Longrightarrow> in_ram m b = in_ram m a"
proof -
  assume e: "drop_bit 17 b = drop_bit 17 a"
  have "drop_bit k b = drop_bit k a" if "17 \<le> k" for k
    using drop_bit_drop_bit [of "k - 17" 17 a] drop_bit_drop_bit [of "k - 17" 17 b] that e by simp
  then show ?thesis by (simp add: in_ram_def ram_pointer_eq)
qed

lemma valid_bits_ram:
  assumes "bit (bat_valid_bits checks m p v) 1"
  shows "in_ram m p"
proof -
  have "m_pFakeVMEM m \<and> p AND 0xFE000000 = 0x7E000000 \<or> p < MEM_REALRAM_SIZE \<or>
      m_pEXRAM m \<and> drop_bit 28 p = 1 \<and> p AND 0x0FFFFFFF < EXRAM_SIZE \<or>
      drop_bit 28 p = 0xE \<and> p < 0xE0000000 + L1_CACHE_SIZE"
    using assms by (auto simp: bat_valid_bits_def Let_def split: if_splits)
  moreover have "drop_bit 27 p = 0" if "p < 0x01800000"
    using that unfolding drop_bit_eq_numeral word_less_nat_alt by simp
  moreover have "(0xE0000000 + 0x00040000 :: u32) = 0xE0040000" by simp
  ultimately show ?thesis unfolding in_ram_def ram_pointer_def by (auto simp: and_eq_bits)
qed

lemma fast_ok_update:
  assumes "fast_ok m t"
  shows "fast_ok m (update_bat checks m batu batl t)"
  unfolding fast_ok_def
proof (intro allI impI)
  fix a
  let ?x = "drop_bit 17 a" and ?p = "push_bit 17 (BAT_BRPN batl OR (drop_bit 17 a AND BAT_BL batu))"
  assume b: "bit (update_bat checks m batu batl t ?x) 1"
  have x: "bit ?x n \<Longrightarrow> n < 15" for n by (auto simp: bit_drop_bit_eq dest: bit_imp_le_length)
  have "drop_bit 17 (push_bit 17 ?x) = ?x" using x by (intro bit_word_eqI) (auto simp: bit_drop_bit_eq bit_push_bit_iff)
  then have mt: "bat_matches batu (push_bit 17 ?x) = bat_matches batu a" by (simp add: bat_matches_def)
  have "update_bat checks m batu batl t ?x =
    (if bat_matches batu (push_bit 17 ?x)
     then let p = push_bit 17 (BAT_BRPN batl OR (?x AND BAT_BL batu)) in p OR bat_valid_bits checks m p (push_bit 17 ?x)
     else t ?x)"
    by (rule update_bat_at) (rule x)
  then have u: "update_bat checks m batu batl t ?x =
    (if bat_matches batu a then ?p OR bat_valid_bits checks m ?p (push_bit 17 ?x) else t ?x)"
    by (simp only: mt Let_def)
  show "\<exists>p. TranslateBatAddess (update_bat checks m batu batl t) a = Some p \<and> in_ram m p"
  proof (cases "bat_matches batu a")
    case True
    then have "bit (?p OR bat_valid_bits checks m ?p (push_bit 17 ?x)) 1" using b u by (simp only: if_True)
    then have "in_ram m ?p" by (auto simp: bit_or_iff bit_push_bit_iff simp del: push_bit_or intro: valid_bits_ram)
    moreover have "drop_bit 17 (bat_address batu batl a) = drop_bit 17 ?p"
      unfolding bat_address_def by (rule bit_word_eqI) (auto simp: bit_simps simp del: push_bit_or)
    ultimately show ?thesis using in_ram_block [of "bat_address batu batl a" ?p] True by (simp add: TranslateBat_update)
  next
    case False
    then have "bit (t ?x) 1" using b u by (simp only: if_False)
    with assms False show ?thesis by (simp add: fast_ok_def TranslateBat_update)
  qed
qed

lemma fast_ok_fake:
  assumes t: "fast_ok m t" and "m_pFakeVMEM m" and k: "k < 16" and start: "start = push_bit 28 (of_nat k)"
  shows "fast_ok m (UpdateFakeMMUBat checks start t)"
  unfolding fast_ok_def
proof (intro allI impI)
  fix a
  assume b: "bit (UpdateFakeMMUBat checks start t (drop_bit 17 a)) 1"
  show "\<exists>p. TranslateBatAddess (UpdateFakeMMUBat checks start t) a = Some p \<and> in_ram m p"
  proof (cases "drop_bit 28 a = of_nat k")
    case True
    have "drop_bit 25 (push_bit 25 0x3F OR take_bit 25 a) = 0x3F"
      by (rule bit_word_eqI) (auto simp: bit_simps dest: bit_imp_le_length simp flip: mask_numeral)
    then have "in_ram m (0x7E000000 OR (a AND FAKEVMEM_MASK))"
      unfolding and_eq_bits using \<open>m_pFakeVMEM m\<close> by (simp add: in_ram_def ram_pointer_eq push_bit_eq_mult)
    then show ?thesis using True by (simp add: TranslateBat_fake [OF k start])
  next
    case False
    have kb: "bit (of_nat k :: u32) n \<Longrightarrow> n < 4" for n
      using k unat_less_exp_iff [of "of_nat k :: u32" 4] unat_of_nat_u32 [of k] by simp
    have S: "drop_bit 17 start = push_bit 11 (of_nat k)"
    proof (rule bit_word_eqI)
      fix n assume "n < LENGTH(32)"
      show "bit (drop_bit 17 start) n \<longleftrightarrow> bit (push_bit 11 (of_nat k) :: u32) n"
        using kb [of "n - 11"] \<open>n < LENGTH(32)\<close>
        unfolding start bit_drop_bit_eq bit_push_bit_iff comp_def by (cases "11 \<le> n") (auto simp: possible_bit_word)
    qed
    have "UpdateFakeMMUBat checks start t (drop_bit 17 a) = t (drop_bit 17 a)"
      unfolding UpdateFakeMMUBat_def fold_fake_block S using top_digit_cases(1) [OF k, of a] False by (simp only: if_False)
    with b t False show ?thesis by (simp add: fast_ok_def TranslateBat_fake [OF k start])
  qed
qed

lemma fast_ok_build: "fast_ok m (build_bats wii checks m s base_spr extended_spr)"
proof -
  have z: "fast_ok m (\<lambda>_. 0)" by (simp add: fast_ok_def)
  have u: "fast_ok m t \<Longrightarrow> fast_ok m (UpdateBATs checks m s b t)" for b t
    unfolding UpdateBATs_def by (simp add: fast_ok_update numeral_eq_Suc)
  have f: "fast_ok m t \<Longrightarrow> m_pFakeVMEM m \<Longrightarrow> fast_ok m (UpdateFakeMMUBat checks 0x70000000 (UpdateFakeMMUBat checks 0x40000000 t))" for t
    by (intro fast_ok_fake [where k = 7] fast_ok_fake [where k = 4]) (simp_all add: push_bit_eq_mult)
  show ?thesis unfolding build_bats_def Let_def using z u f by auto
qed

text \<open>
  C11. The fast path of the recompiler is right: where \<open>IsOptimizableRAMAddress\<close> answers yes, a load or store within a page is
  exactly an access to the memory of the host, at a mapped address, with no exception, no breakpoint, no device and no other effect.
\<close>

theorem fast_path_right:
  assumes "dbat_table (mmu M) = build_bats (bWii M) (memchecks M) (mem M) (ppc M) SPR_DBAT0U SPR_DBAT4U"
    and "IsOptimizableRAMAddress a M" and "\<not> crosses_page a n"
  shows "\<exists>p. region_mapped (mem M) p \<and> take_bit 12 p = take_bit 12 a \<and>
    PowerPC_Read hw n a M = and_then (host_read n p (mem M)) (\<lambda>v. Inr (v, M)) \<and>
    PowerPC_Write hw n v a M = and_then (host_write n v p (mem M)) (\<lambda>m. Inr (M\<lparr>mem := m\<rparr>))"
proof -
  have opt: "memchecks M = []" "MSR_DR (ppc M)" "dbat_table (mmu M) (drop_bit 17 a) AND 2 \<noteq> 0"
    using assms(2) by (auto simp: IsOptimizableRAMAddress_def split: if_splits)
  then have "bit (dbat_table (mmu M) (drop_bit 17 a)) 1" using and_exp_eq_0_iff [of "dbat_table (mmu M) (drop_bit 17 a)" 1] by simp
  then obtain q where q: "TranslateBatAddess (dbat_table (mmu M)) a = Some q" "in_ram (mem M) q"
    using fast_ok_build unfolding assms(1) fast_ok_def by blast
  then obtain p where p: "ram_pointer (mem M) q = Some p" by (auto simp: in_ram_def)
  have "take_bit 12 p = take_bit 12 q" by (rule ram_pointer_offset [OF p])
  also have "\<dots> = take_bit 12 a" using bat_offset q(1) unfolding assms(1) by blast
  finally have off: "take_bit 12 p = take_bit 12 a" .
  have mc: "Memcheck a w n N = N" if "memchecks N = []" for w and N :: "'a Machine"
    using that by (simp add: Memcheck_def GetMemCheck_def)
  have t: "translate FLAG_READ a M = Inr (BAT_TRANSLATED q, M)" "translate FLAG_WRITE a M = Inr (BAT_TRANSLATED q, M)"
    using q(1) by (simp_all add: translate_bat IsOpcodeFlag_def)
  have "PowerPC_Read hw n a M = and_then (host_read n p (mem M)) (\<lambda>v. Inr (v, M))"
    using opt t assms(3) by (simp add: PowerPC_Read_def ReadFromHardware_def ReadPhysical_ram [OF p] and_then_assoc mc)
  moreover have "PowerPC_Write hw n v a M = and_then (host_write n v p (mem M)) (\<lambda>m. Inr (M\<lparr>mem := m\<rparr>))"
    using opt t assms(3) by (simp add: PowerPC_Write_def WriteToHardware_def WritePhysical_ram [OF p] mc)
  ultimately show ?thesis using ram_pointer_mapped [OF p] off by blast
qed

theorem fast_path_right_witness:
  "\<exists>p. region_mapped (mem machine_test) p \<and> take_bit 12 p = take_bit 12 0x80003100 \<and>
    PowerPC_Read hw_test 4 0x80003100 machine_test = and_then (host_read 4 p (mem machine_test)) (\<lambda>v. Inr (v, machine_test)) \<and>
    PowerPC_Write hw_test 4 7 0x80003100 machine_test = and_then (host_write 4 7 p (mem machine_test)) (\<lambda>m. Inr (machine_test\<lparr>mem := m\<rparr>))"
proof (rule fast_path_right)
  show b: "dbat_table (mmu machine_test) =
      build_bats (bWii machine_test) (memchecks machine_test) (mem machine_test) (ppc machine_test) SPR_DBAT0U SPR_DBAT4U"
    by (simp add: machine_test_def Let_def DBATUpdated_def)
  show "\<not> crosses_page 0x80003100 4" by (simp add: crosses_page_def)
  have f: "BAT_BL 0x80001FFF = 0x7FF" "BAT_BEPI 0x80001FFF = 0x4000" "BAT_VS 0x80001FFF" "BAT_BRPN 2 = 0"
    by (simp_all add: BAT_BL_def BAT_BEPI_def BAT_VS_def BAT_BRPN_def bit_field_def)
  have z: "\<not> bat_matches 0 a" for a by (simp add: bat_matches_def BAT_VS_def BAT_VP_def)
  have m: "bat_matches 0x80001FFF 0x80000000" by (simp add: bat_matches_def f)
  have x: "bit (0x4000 :: u32) n \<Longrightarrow> n < 15" for n using unat_less_exp_iff [of "0x4000 :: u32" 15] by auto
  have p17: "push_bit 17 0x4000 = (0x80000000 :: u32)" by (simp add: push_bit_eq_mult)
  have u: "update_bat checks mm batu batl t 0x4000 =
    (if bat_matches batu (push_bit 17 0x4000)
     then let p = push_bit 17 (BAT_BRPN batl OR (0x4000 AND BAT_BL batu)) in p OR bat_valid_bits checks mm p (push_bit 17 0x4000)
     else t 0x4000)" for checks mm batu batl t
    by (rule update_bat_at) (rule x)
  have v: "bat_valid_bits [] mm 0 v = 3" for mm v by (simp add: bat_valid_bits_def Let_def OverlapsMemcheck_def)
  have "\<not> m_pFakeVMEM (Memory_Init True False)" by (simp add: Memory_Init_def Memory_Clear_def Let_def)
  moreover have four: "[0..<4] = [0, 1, 2, 3 :: nat]" by (simp add: upt_rec)
  ultimately have "dbat_table (mmu machine_test) 0x4000 = 3"
    unfolding b by (simp add: machine_test_def Let_def build_bats_def HID4_SBE_def UpdateBATs_def four u [unfolded p17] z m f v)
  then show "IsOptimizableRAMAddress 0x80003100 machine_test"
    unfolding IsOptimizableRAMAddress_def using machine_test_ok(4) by (simp add: machine_test_def Let_def)
qed

subsection \<open>Accesses that fail\<close>

text \<open>A data exception of a load reports a store: the bit of \<open>DSISR\<close> depends on the address instead of the kind of access.\<close>

theorem load_fault_reports_store:
  assumes "bMMU M" and "a \<noteq> 0"
  shows "GenerateDSIException a False M = GenerateDSIException a True M"
    and "bit (spr (ppc (GenerateDSIException a False M)) SPR_DSISR) 25"
proof -
  have "bit ((0x42000000 :: u32)) 25" by simp
  then show "GenerateDSIException a False M = GenerateDSIException a True M"
    and "bit (spr (ppc (GenerateDSIException a False M)) SPR_DSISR) 25"
    using assms by (simp_all add: GenerateDSIException_def Let_def set_spr_def push_bit_eq_mult)
qed

text \<open>
  A load that runs over the end of the address space never returns a value when both pages are translated: the end of the loop is computed in 64 bits,
  its counter in 32. It goes on until it reads outside the memory of the host, or for ever.
\<close>

lemma read_page_bytes_no_end:
  assumes "read_page_bytes hw flag end_addr np nt addr tr var M = Some r"
  shows "2 ^ 32 \<le> end_addr \<longrightarrow> (\<exists>e. r = Inl e)"
proof (rule read_page_bytes.raw_induct [where P = "\<lambda>hw flag end_addr _ _ _ _ _ M r. 2 ^ 32 \<le> end_addr \<longrightarrow> (\<exists>e. r = Inl e)", OF _ assms], goal_cases)
  case (1 rb hw flag end_addr np nt addr tr var M r)
  show ?case
  proof
    assume e: "2 ^ 32 \<le> end_addr"
    have "unat addr < 2 ^ 32" using unsigned_less [of addr, where ?'a = nat] by simp
    with e have "unat addr < end_addr" by linarith
    define a where "a = (if addr = np then nt else tr)"
    have step: "(case ReadPhysical hw flag 1 a M of Inl e \<Rightarrow> Some (Inl e)
        | Inr (b, M1) \<Rightarrow> rb hw flag end_addr np nt (addr + 1) (a + 1) (push_bit 8 var OR b) M1) = Some r"
      using 1(2) \<open>unat addr < end_addr\<close> unfolding Let_def a_def [symmetric] by (simp only: if_True)
    show "\<exists>e. r = Inl e"
    proof (cases "ReadPhysical hw flag 1 a M")
      case (Inl x)
      with step show ?thesis by auto
    next
      case (Inr y)
      obtain b M1 where "y = (b, M1)" by (cases y)
      with step Inr have "rb hw flag end_addr np nt (addr + 1) (a + 1) (push_bit 8 var OR b) M1 = Some r" by simp
      from 1(1) [OF this] e show ?thesis by blast
    qed
  qed
qed

theorem read_over_the_top:
  assumes "MSR_DR (ppc M)" and "crosses_page a n" and "2 ^ 32 \<le> unat a + n"
    and "translate flag a M = Inr (r, M1)" and "translated r = Some p"
    and "translate flag (next_page_of a n) M1 = Inr (r2, M2)" and "translated r2 = Some p2"
  shows "\<exists>e. ReadFromHardware hw flag n a M = Inl e"
proof -
  have "\<exists>e. returned (read_page_bytes hw flag (unat a + n) (next_page_of a n) p2 a p 0 M2) = Inl e"
    using read_page_bytes_no_end [of hw flag "unat a + n" "next_page_of a n" p2 a p 0 M2] assms(3)
    by (cases "read_page_bytes hw flag (unat a + n) (next_page_of a n) p2 a p 0 M2") (auto simp: returned_def)
  then show ?thesis using assms by (simp add: ReadFromHardware_def)
qed

text \<open>
  An entry of the page table outside the memory of the host ends the emulator: the address of a group comes from the register
  \<open>SDR1\<close> of the emulated program and is not checked.
\<close>

theorem page_table_outside_memory:
  assumes "LookupTLBPageAddress flag a mm = (TLB_NOTFOUND, mm)" and "\<not> bit (sr s (EA_SR a)) 31"
    and "\<not> (IsOpcodeFlag flag \<and> bit (sr s (EA_SR a)) 28)"
    and "physical_base m (group_addr mm (SR_VSID (sr s (EA_SR a)) XOR EA_PageIndex a)) = None"
  shows "TranslatePageAddress a flag s (mm, m) = Inl HostFault"
proof -
  have "search_group 8 pte1 g m = Inl HostFault" if "physical_base m g = None" for pte1 g
    using that by (simp add: numeral_eq_Suc raw_read32_def)
  then have "search_table (sr s (EA_SR a)) a mm m = Inl HostFault"
    unfolding search_table_def Let_def using assms(4) by simp
  then show ?thesis using assms(1-3) by (simp add: TranslatePageAddress_def segment_bits Let_def)
qed

end
