(* ===== verification/PPC_Float.thy ===== *)
theory PPC_Float
  imports PPC_State
begin

text \<open>
  The conversions between the single-precision format of memory and the double-precision format of the registers
  (\<^verbatim>\<open>Core/PowerPC/Interpreter/Interpreter_FPUtils.h\<close>), which the floating-point loads and stores use. Both work on the bits of a
  number: no arithmetic of the host is involved.
\<close>

unbundle bit_operations_syntax

subsection \<open>Conversions\<close>

abbreviation (input) "DOUBLE_SIGN \<equiv> 0x8000000000000000 :: u64"
abbreviation (input) "DOUBLE_FRAC \<equiv> 0x000FFFFFFFFFFFFF :: u64"

definition ConvertToSingle :: "u64 \<Rightarrow> u32" where
  "ConvertToSingle x =
     (let exp = ucast (drop_bit 52 x AND 0x7FF) :: u32;
          same = (ucast (drop_bit 32 x) AND 0xC0000000) OR (ucast (drop_bit 29 x) AND 0x3FFFFFFF) :: u32
      in if exp > 896 \<or> x AND NOT DOUBLE_SIGN = 0 then same
         else if exp \<ge> 874 then
           let t = ucast (0x80000000 OR drop_bit 21 (x AND DOUBLE_FRAC)) :: u32; t = drop_bit (unat (905 - exp)) t
           in t OR (ucast (drop_bit 32 x) AND 0x80000000)
         else same)"

definition ConvertToSingleFTZ :: "u64 \<Rightarrow> u32" where
  "ConvertToSingleFTZ x =
     (let exp = ucast (drop_bit 52 x AND 0x7FF) :: u32 in
      if exp > 896 \<or> x AND NOT DOUBLE_SIGN = 0
      then (ucast (drop_bit 32 x) AND 0xC0000000) OR (ucast (drop_bit 29 x) AND 0x3FFFFFFF)
      else ucast (drop_bit 32 x) AND 0x80000000)"

text \<open>The loop that shifts a subnormal number until its highest bit is bit 23; it would not end on zero.\<close>

partial_function (option) normalize :: "u64 \<Rightarrow> u64 \<Rightarrow> (u64 \<times> u64) option" where
  "normalize frac exp =
     (let frac = push_bit 1 frac; exp = exp - 1 in
      if frac AND 0x00800000 = 0 then normalize frac exp else Some (frac, exp))"

definition spread :: "u64 \<Rightarrow> u64 \<Rightarrow> u64" where
  "spread x y =
     (let z = push_bit 61 y OR push_bit 60 y OR push_bit 59 y
      in push_bit 32 (x AND 0xC0000000) OR z OR push_bit 29 (x AND 0x3FFFFFFF))"

definition ConvertToDouble :: "u32 \<Rightarrow> u64 option" where
  "ConvertToDouble value =
     (let x = ucast value :: u64; exp = drop_bit 23 x AND 0xFF; frac = x AND 0x007FFFFF in
      if exp > 0 \<and> exp < 255 then Some (spread x (if drop_bit 7 exp = 0 then 1 else 0))
      else if exp = 0 \<and> frac \<noteq> 0 then
        (case normalize frac (1023 - 126) of
           None \<Rightarrow> None
         | Some (frac, exp) \<Rightarrow> Some (push_bit 32 (x AND 0x80000000) OR push_bit 52 exp OR push_bit 29 (frac AND 0x007FFFFF)))
      else Some (spread x (drop_bit 7 exp)))"

subsection \<open>The bits of a converted number\<close>

lemma mask64:
  fixes x :: u64
  shows "x AND 0xFF = take_bit 8 x" "x AND 0x7FF = take_bit 11 x" "x AND 0x7FFFFF = take_bit 23 x" "x AND 0x3FFFFFFF = take_bit 30 x"
    "x AND DOUBLE_FRAC = take_bit 52 x"
  by (simp_all add: take_bit_eq_mask mask_eq_exp_minus_1)

lemma and_bit64: "x AND 0x800000 = 0 \<longleftrightarrow> \<not> bit x 23" for x :: u64
  using and_exp_eq_0_iff [of x 23] by simp

lemma normalize_result:
  assumes "bit frac k" and "k < 23" and "\<And>i. bit frac i \<Longrightarrow> i \<le> k"
  shows "normalize frac e = Some (push_bit (23 - k) frac, e - of_nat (23 - k))"
  using assms
proof (induction "22 - k" arbitrary: frac k e)
  case 0
  then have k: "k = 22" by simp
  have "bit (push_bit 1 frac) 23" using 0(2) unfolding bit_push_bit_iff k by simp
  then show ?case by (subst normalize.simps) (simp add: Let_def and_bit64 k)
next
  case (Suc n)
  then have k: "k < 22" by simp
  have nb: "\<not> bit (push_bit 1 frac) 23" unfolding bit_push_bit_iff using Suc.prems(3) [of 22] k by auto
  have "normalize (push_bit 1 frac) (e - 1) = Some (push_bit (23 - Suc k) (push_bit 1 frac), e - 1 - of_nat (23 - Suc k))"
  proof (rule Suc.hyps(1))
    show "n = 22 - Suc k" using Suc.hyps(2) by simp
    show "bit (push_bit 1 frac) (Suc k)" unfolding bit_push_bit_iff using Suc.prems(1) k by simp
    show "Suc k < 23" using k by simp
    show "i \<le> Suc k" if "bit (push_bit 1 frac) i" for i using that Suc.prems(3) [of "i - 1"] unfolding bit_push_bit_iff by auto
  qed
  moreover have "23 - k = Suc (23 - Suc k)" using k by simp
  ultimately show ?case using nb by (subst normalize.simps) (simp add: Let_def and_bit64)
qed

lemma top_bit: "x \<noteq> 0 \<Longrightarrow> \<exists>k. bit x k \<and> (\<forall>i. bit x i \<longrightarrow> i \<le> k)" for x :: "'a::len word"
proof -
  assume "x \<noteq> 0"
  then have ne: "{i. bit x i} \<noteq> {}" by (auto simp: bit_eq_iff)
  have fin: "finite {i. bit x i}"
    by (rule finite_subset [of _ "{..<LENGTH('a)}"]) (auto dest: bit_imp_le_length)
  have "Max {i. bit x i} \<in> {i. bit x i}" using fin ne by (rule Max_in)
  moreover have "i \<le> Max {i. bit x i}" if "bit x i" for i using fin that by (simp add: Max_ge)
  ultimately show ?thesis by blast
qed

text \<open>The fields of the two formats.\<close>

definition single_exp :: "u32 \<Rightarrow> nat" where "single_exp x = unat (take_bit 8 (drop_bit 23 x))"
definition single_frac :: "u32 \<Rightarrow> nat" where "single_frac x = unat (take_bit 23 x)"
definition double_exp :: "u64 \<Rightarrow> nat" where "double_exp y = unat (take_bit 11 (drop_bit 52 y))"
definition double_frac :: "u64 \<Rightarrow> nat" where "double_frac y = unat (take_bit 52 y)"

lemma ucast_fields:
  "drop_bit 23 (ucast x :: u64) AND 0xFF = ucast (take_bit 8 (drop_bit 23 x))" "(ucast x :: u64) AND 0x7FFFFF = ucast (take_bit 23 x)" for x :: u32
  by (simp_all add: mask64) (rule bit_word_eqI, auto simp: bit_simps)+

lemma unat_u64: "unat (ucast x :: u64) = unat x" for x :: u32
  by (simp add: unsigned_ucast_eq take_bit_nat_eq_self_iff less_le_trans [OF unsigned_less])

lemma ConvertToDouble_cases:
  obtains (normal) "0 < single_exp x" "single_exp x < 255"
      "ConvertToDouble x = Some (spread (ucast x) (if single_exp x < 128 then 1 else 0))"
  | (subnormal) k where "single_exp x = 0" "bit x k" "k < 23" "\<And>i. bit (take_bit 23 x) i \<Longrightarrow> i \<le> k"
      "ConvertToDouble x = Some (push_bit 32 (ucast x AND 0x80000000) OR push_bit 52 (of_nat (874 + k)) OR
         push_bit 29 (take_bit 23 (push_bit (23 - k) (ucast (take_bit 23 x)))))"
  | (special) "single_exp x = 255 \<or> single_exp x = 0 \<and> single_frac x = 0"
      "ConvertToDouble x = Some (spread (ucast x) (if single_exp x = 255 then 1 else 0))"
proof -
  let ?e = "take_bit 8 (drop_bit 23 x)"
  have lt: "single_exp x < 256" unfolding single_exp_def by (simp only: unat_take_bit) simp
  have e0: "(0 :: u64) < ucast ?e \<longleftrightarrow> 0 < single_exp x" "(ucast ?e :: u64) = 0 \<longleftrightarrow> single_exp x = 0"
    "(ucast ?e :: u64) < 255 \<longleftrightarrow> single_exp x < 255"
    by (simp_all add: single_exp_def word_less_nat_alt unat_u64 unat_eq_0 flip: unat_eq_0)
  have d7: "unat (drop_bit 7 (ucast ?e :: u64)) = single_exp x div 128"
    unfolding unat_drop_bit_eq by (simp add: single_exp_def drop_bit_eq_div unat_u64)
  have d70: "drop_bit 7 (ucast ?e :: u64) = 0 \<longleftrightarrow> single_exp x < 128"
    using d7 unat_eq_0 [of "drop_bit 7 (ucast ?e :: u64)"] by auto
  have frac: "(ucast (take_bit 23 x) :: u64) \<noteq> 0 \<longleftrightarrow> single_frac x \<noteq> 0"
    using unat_eq_0 [of "ucast (take_bit 23 x) :: u64"] by (simp add: unat_u64 single_frac_def)
  note conv = ConvertToDouble_def [of x, unfolded Let_def ucast_fields e0 d70 frac]
  consider "0 < single_exp x \<and> single_exp x < 255" | "single_exp x = 0 \<and> single_frac x \<noteq> 0"
    | "single_exp x = 255 \<or> single_exp x = 0 \<and> single_frac x = 0" using lt by linarith
  then show thesis
  proof cases
    case 1
    then show thesis using conv by (intro normal) simp_all
  next
    case 2
    then have "take_bit 23 x \<noteq> 0" by (auto simp: single_frac_def)
    then obtain k where k: "bit (take_bit 23 x) k" "\<forall>i. bit (take_bit 23 x) i \<longrightarrow> i \<le> k" using top_bit by blast
    have "normalize (ucast (take_bit 23 x)) 897 = Some (push_bit (23 - k) (ucast (take_bit 23 x)), 897 - of_nat (23 - k))"
      using k by (intro normalize_result) (auto simp: bit_ucast_iff bit_take_bit_iff)
    moreover have "(897 :: u64) - of_nat (23 - k) = of_nat (874 + k)" using k(1) by (auto simp: bit_take_bit_iff of_nat_diff)
    ultimately show thesis using 2 k conv by (intro subnormal [of k]) (auto simp: bit_take_bit_iff mask64)
  next
    case 3
    have "(drop_bit 7 (ucast ?e) :: u64) = (if single_exp x = 255 then 1 else 0)"
      by (rule word_unat_eqI) (use 3 d7 in auto)
    then show thesis using 3 conv by (intro special) auto
  qed
qed

lemma and_sign64:
  fixes x :: u64
  shows "x AND 0xC0000000 = push_bit 30 (take_bit 2 (drop_bit 30 x))" and "x AND 0x80000000 = push_bit 31 (take_bit 1 (drop_bit 31 x))"
proof -
  have "x AND push_bit n (mask k) = push_bit n (take_bit k (drop_bit n x))" for n k
    by (rule bit_word_eqI) (auto simp: bit_simps simp del: mask_numeral)
  note e = this [of 30 2] this [of 31 1]
  show "x AND 0xC0000000 = push_bit 30 (take_bit 2 (drop_bit 30 x))" "x AND 0x80000000 = push_bit 31 (take_bit 1 (drop_bit 31 x))"
    using e by (simp_all add: push_bit_eq_mult mask_eq_exp_minus_1)
qed

lemma bit_spread:
  "bit (spread (ucast x) (if b then 1 else 0)) i \<longleftrightarrow>
     29 \<le> i \<and> i < 59 \<and> bit x (i - 29) \<or> 59 \<le> i \<and> i < 62 \<and> b \<or> 62 \<le> i \<and> i < 64 \<and> bit x (i - 32)" for x :: u32
proof -
  have one: "bit (if b then 1 else 0 :: u64) j \<longleftrightarrow> b \<and> j = 0" for j by (simp add: bit_1_iff)
  have 1: "bit (push_bit 32 (push_bit 30 (take_bit 2 (drop_bit 30 (ucast x)))) :: u64) i \<longleftrightarrow> 62 \<le> i \<and> i < 64 \<and> bit x (i - 32)"
    by (auto simp: bit_simps)
  have 2: "bit (push_bit 29 (take_bit 30 (ucast x)) :: u64) i \<longleftrightarrow> 29 \<le> i \<and> i < 59 \<and> bit x (i - 29)"
    by (auto simp: bit_simps)
  have 3: "bit (push_bit k (if b then 1 else 0) :: u64) i \<longleftrightarrow> i = k \<and> b" if "k < 64" for k
    unfolding bit_push_bit_iff one using that by auto
  show ?thesis unfolding spread_def Let_def and_sign64 mask64 bit_or_iff 1 2 using 3 [of 61] 3 [of 60] 3 [of 59] by auto
qed

lemma unat_or_disjoint:
  fixes x y :: "'a::len word"
  assumes "\<And>i. \<not> (bit x i \<and> bit y i)" and "unat x + unat y < 2 ^ LENGTH('a)"
  shows "unat (x OR y) = unat x + unat y"
proof -
  have "x + y = x OR y" using assms(1) by (intro disjunctive_add) blast
  then show ?thesis using assms(2) by (metis unat_word_ariths(1) mod_less)
qed

lemma single_exp_split: "single_exp x = (if bit x 30 then 128 else 0) + unat (take_bit 7 (drop_bit 23 x))"
proof -
  let ?w = "drop_bit 23 x"
  have t: "unat (take_bit k ?w) = unat ?w mod 2 ^ k" for k by (rule unat_take_bit)
  have "unat ?w mod (128 * 2) = 128 * (unat ?w div 128 mod 2) + unat ?w mod 128" by (rule mod_mult2_eq)
  moreover have "bit x 30 \<longleftrightarrow> odd (unat ?w div 128)"
    using bit_iff_odd [of "unat ?w" 7] by (simp add: bit_unsigned_iff bit_drop_bit_eq)
  moreover have "unat ?w div 128 mod 2 = (if odd (unat ?w div 128) then 1 else 0)" by presburger
  ultimately show ?thesis unfolding single_exp_def t by simp
qed

lemma spread_fields:
  defines "S \<equiv> \<lambda>x b. spread (ucast (x :: u32)) (if b then 1 else 0)"
  shows "double_exp (S x b) = (if bit x 30 then 1024 else 0) + (if b then 896 else 0) + unat (take_bit 7 (drop_bit 23 x))"
    and "double_frac (S x b) = single_frac x * 2 ^ 29" and "bit (S x b) 63 \<longleftrightarrow> bit x 31"
proof -
  have bs: "bit (S x b) i \<longleftrightarrow> 29 \<le> i \<and> i < 59 \<and> bit x (i - 29) \<or> 59 \<le> i \<and> i < 62 \<and> b \<or> 62 \<le> i \<and> i < 64 \<and> bit x (i - 32)" for i
    unfolding S_def by (rule bit_spread)
  let ?h = "push_bit 10 (if bit x 30 then 1 else 0) :: u64" and ?m = "push_bit 7 (if b then mask 3 else 0) :: u64"
    and ?l = "ucast (take_bit 7 (drop_bit 23 x)) :: u64"
  have bh: "bit ?h i \<longleftrightarrow> i = 10 \<and> bit x 30" for i by (auto simp: bit_push_bit_iff bit_1_iff split: if_splits)
  have bm: "bit ?m i \<longleftrightarrow> 7 \<le> i \<and> i < 10 \<and> b" for i by (auto simp: bit_push_bit_iff bit_mask_iff simp del: mask_numeral split: if_splits)
  have bl: "bit ?l i \<longleftrightarrow> i < 7 \<and> bit x (i + 23)" for i by (auto simp: bit_simps add.commute)
  have e: "take_bit 11 (drop_bit 52 (S x b)) = (?h OR ?m) OR ?l"
  proof (rule bit_word_eqI)
    fix i assume "i < LENGTH(64)"
    have "bit (take_bit 11 (drop_bit 52 (S x b))) i \<longleftrightarrow> i < 11 \<and> bit (S x b) (52 + i)"
      by (simp add: bit_take_bit_iff bit_drop_bit_eq)
    also have "\<dots> \<longleftrightarrow> bit ((?h OR ?m) OR ?l) i" unfolding bs bit_or_iff bh bm bl by (cases "i = 10") (auto simp: add.commute)
    finally show "bit (take_bit 11 (drop_bit 52 (S x b))) i \<longleftrightarrow> bit ((?h OR ?m) OR ?l) i" .
  qed
  have u: "unat ?h = (if bit x 30 then 1024 else 0)" "unat ?m = (if b then 896 else 0)" "unat ?l = unat (take_bit 7 (drop_bit 23 x))"
    by (simp_all add: push_bit_eq_mult mask_eq_exp_minus_1 unat_u64)
  have "unat (take_bit 7 (drop_bit 23 x)) < 128" by (simp only: unat_take_bit) simp
  then have "unat ((?h OR ?m) OR ?l) = (if bit x 30 then 1024 else 0) + (if b then 896 else 0) + unat (take_bit 7 (drop_bit 23 x))"
    using unat_or_disjoint [of ?h ?m] unat_or_disjoint [of "?h OR ?m" ?l] u
    by (auto simp: bit_or_iff bh bm bl simp del: push_bit_of_0)
  then show "double_exp (S x b) = (if bit x 30 then 1024 else 0) + (if b then 896 else 0) + unat (take_bit 7 (drop_bit 23 x))"
    unfolding double_exp_def e .
  have "take_bit 52 (S x b) = push_bit 29 (ucast (take_bit 23 x))"
    by (rule bit_word_eqI) (auto simp: bs bit_simps)
  moreover have "single_frac x < 2 ^ 23" unfolding single_frac_def by (simp only: unat_take_bit) simp
  ultimately show "double_frac (S x b) = single_frac x * 2 ^ 29"
    by (simp add: double_frac_def push_bit_eq_mult unat_word_ariths unat_u64 single_frac_def)
  show "bit (S x b) 63 \<longleftrightarrow> bit x 31" by (simp add: bs)
qed

subsection \<open>Loading and storing a single-precision number\<close>

text \<open>
  The values of the finite numbers of both formats: a single-precision number in units of \<open>2 ^ - 149\<close>, a double-precision
  number in units of \<open>2 ^ - 1074\<close>.
\<close>

definition single_int :: "u32 \<Rightarrow> int" where
  "single_int x = (if bit x 31 then - 1 else 1) *
     int (if single_exp x = 0 then single_frac x else (2 ^ 23 + single_frac x) * 2 ^ (single_exp x - 1))"

definition double_int :: "u64 \<Rightarrow> int" where
  "double_int y = (if bit y 63 then - 1 else 1) *
     int (if double_exp y = 0 then double_frac y else (2 ^ 52 + double_frac y) * 2 ^ (double_exp y - 1))"

lemma and_words32:
  fixes x :: u32
  shows "bit (x AND 0xC0000000) i \<longleftrightarrow> (i = 30 \<or> i = 31) \<and> bit x i" "bit (x AND 0x3FFFFFFF) i \<longleftrightarrow> i < 30 \<and> bit x i"
    "bit (x AND 0x80000000) i \<longleftrightarrow> i = 31 \<and> bit x i"
proof -
  have 1: "(0xC0000000 :: u32) = push_bit 30 (mask 2)" "(0x3FFFFFFF :: u32) = mask 30" "(0x80000000 :: u32) = push_bit 31 (mask 1)"
    by (simp_all add: push_bit_eq_mult mask_eq_exp_minus_1)
  show "bit (x AND 0xC0000000) i \<longleftrightarrow> (i = 30 \<or> i = 31) \<and> bit x i" "bit (x AND 0x3FFFFFFF) i \<longleftrightarrow> i < 30 \<and> bit x i"
    "bit (x AND 0x80000000) i \<longleftrightarrow> i = 31 \<and> bit x i"
    unfolding 1 bit_and_iff bit_push_bit_iff bit_mask_iff by (auto dest: bit_imp_le_length)
qed

lemma spread_back:
  "(ucast (drop_bit 32 (spread (ucast x) (if b then 1 else 0))) AND 0xC0000000) OR
     (ucast (drop_bit 29 (spread (ucast x) (if b then 1 else 0))) AND 0x3FFFFFFF) = x" for x :: u32
proof (rule bit_word_eqI)
  fix i assume "i < LENGTH(32)"
  then have "i = 31 \<or> i = 30 \<or> i < 30" by auto
  then show "bit ((ucast (drop_bit 32 (spread (ucast x) (if b then 1 else 0))) AND 0xC0000000) OR
     (ucast (drop_bit 29 (spread (ucast x) (if b then 1 else 0))) AND 0x3FFFFFFF) :: u32) i \<longleftrightarrow> bit x i"
    by (simp add: bit_or_iff and_words32 bit_ucast_iff bit_drop_bit_eq bit_spread) auto
qed

lemma exponent_word: "unat (ucast (drop_bit 52 y AND 0x7FF) :: u32) = double_exp y"
proof -
  have "unat (take_bit 11 (drop_bit 52 y)) < 2 ^ 11" by (simp only: unat_take_bit) simp
  then show ?thesis unfolding mask64 double_exp_def by (simp add: unsigned_ucast_eq take_bit_nat_eq_self_iff)
qed

lemma ConvertToSingle_same: "896 < double_exp y \<or> double_exp y < 874 \<Longrightarrow>
    ConvertToSingle y = (ucast (drop_bit 32 y) AND 0xC0000000) OR (ucast (drop_bit 29 y) AND 0x3FFFFFFF)"
  by (auto simp: ConvertToSingle_def Let_def word_less_nat_alt word_le_nat_alt exponent_word)

text \<open>The image of a subnormal number whose highest bit is bit \<open>k\<close>.\<close>

definition subnormal_image :: "u32 \<Rightarrow> nat \<Rightarrow> u64" where
  "subnormal_image x k = push_bit 32 (ucast x AND 0x80000000) OR push_bit 52 (of_nat (874 + k)) OR
     push_bit 29 (take_bit 23 (push_bit (23 - k) (ucast (take_bit 23 x))))"

lemma unat_of_nat_small: "n < 2 ^ 10 \<Longrightarrow> unat (of_nat n :: u64) = n"
  by (simp add: unsigned_of_nat take_bit_nat_eq_self_iff less_trans [of n "2 ^ 10" "2 ^ 64"])

lemma bit_small: "n < 2 ^ 10 \<Longrightarrow> bit (of_nat n :: u64) i \<Longrightarrow> i < 10"
proof -
  assume "n < 2 ^ 10" and b: "bit (of_nat n :: u64) i"
  then have "unat (of_nat n :: u64) < 2 ^ 10" by (simp add: unat_of_nat_small)
  with b show "i < 10" using unat_less_exp_iff [of "of_nat n :: u64" 10] by blast
qed

lemma bit_subnormal_image:
  assumes "k < 23"
  shows "bit (subnormal_image x k) i \<longleftrightarrow> i = 63 \<and> bit x 31 \<or> 52 \<le> i \<and> bit (of_nat (874 + k) :: u64) (i - 52) \<or>
    52 - k \<le> i \<and> i < 52 \<and> bit x (i + k - 52)"
proof -
  have "874 + k < 2 ^ 10" using assms by simp
  note small = bit_small [OF this]
  have 1: "bit (push_bit 32 (push_bit 31 (take_bit 1 (drop_bit 31 (ucast x)))) :: u64) i \<longleftrightarrow> i = 63 \<and> bit x 31"
    unfolding bit_push_bit_iff bit_take_bit_iff bit_drop_bit_eq bit_ucast_iff by auto
  have 2: "bit (push_bit 52 (of_nat (874 + k)) :: u64) i \<longleftrightarrow> 52 \<le> i \<and> bit (of_nat (874 + k) :: u64) (i - 52)"
    unfolding bit_push_bit_iff using small [of "i - 52"] by (auto simp: possible_bit_word)
  have 3: "bit (push_bit 29 (take_bit 23 (push_bit (23 - k) (ucast (take_bit 23 x)))) :: u64) i \<longleftrightarrow>
      52 - k \<le> i \<and> i < 52 \<and> bit x (i + k - 52)"
    using assms by (auto simp: bit_push_bit_iff bit_take_bit_iff bit_ucast_iff)
  show ?thesis unfolding subnormal_image_def and_sign64 bit_or_iff 1 2 3 by blast
qed

lemma subnormal_fields:
  assumes k: "bit x k" "k < 23" "\<And>i. bit (take_bit 23 x) i \<Longrightarrow> i \<le> k"
  shows "double_exp (subnormal_image x k) = 874 + k" and "2 ^ 52 + double_frac (subnormal_image x k) = single_frac x * 2 ^ (52 - k)"
    and "bit (subnormal_image x k) 63 \<longleftrightarrow> bit x 31"
proof -
  let ?y = "subnormal_image x k" and ?f = "take_bit 23 x"
  note b = bit_subnormal_image [OF k(2), of x]
  have lt: "874 + k < 2 ^ 10" using k(2) by simp
  note small = bit_small [OF lt]
  have "take_bit 11 (drop_bit 52 ?y) = of_nat (874 + k)"
  proof (rule bit_word_eqI)
    fix i assume "i < LENGTH(64)"
    show "bit (take_bit 11 (drop_bit 52 ?y)) i \<longleftrightarrow> bit (of_nat (874 + k) :: u64) i"
      unfolding bit_take_bit_iff bit_drop_bit_eq comp_def b using small [of i] by auto
  qed
  moreover have "unat (of_nat (874 + k) :: u64) = 874 + k" using lt by (rule unat_of_nat_small)
  ultimately show "double_exp ?y = 874 + k" by (simp only: double_exp_def)
  have up: "unat ?f < 2 ^ Suc k"
    using unat_less_exp_iff [of ?f "Suc k"] k(3) by (auto simp: less_Suc_eq_le)
  have "bit ?f k" using k by (simp add: bit_take_bit_iff)
  then have "odd (unat ?f div 2 ^ k)" using bit_iff_odd [of "unat ?f" k] by (simp add: bit_unsigned_iff)
  then have "unat ?f div 2 ^ k \<noteq> 0" by (intro notI) simp
  then have low: "2 ^ k \<le> unat ?f" by (simp add: div_eq_0_iff)
  have t52: "take_bit 52 ?y = push_bit 29 (take_bit 23 (push_bit (23 - k) (ucast ?f)))"
    by (rule bit_word_eqI) (use k(2) in \<open>auto simp: bit_take_bit_iff bit_push_bit_iff b bit_ucast_iff\<close>)
  let ?n = "unat ?f * 2 ^ (23 - k)"
  have p24: "2 ^ Suc k * 2 ^ (23 - k) = (2 ^ 24 :: nat)" using k(2) by (simp flip: power_add)
  have p23: "2 ^ k * 2 ^ (23 - k) = (2 ^ 23 :: nat)" using k(2) by (simp flip: power_add)
  have "2 ^ k * 2 ^ (23 - k) \<le> ?n" using low by (rule mult_le_mono1)
  moreover have "?n < 2 ^ Suc k * 2 ^ (23 - k)" using up by (rule mult_strict_right_mono) simp
  ultimately have n: "2 ^ 23 \<le> ?n" "?n < 2 ^ 24" unfolding p23 p24 by blast+
  have "unat (push_bit (23 - k) (ucast ?f) :: u64) = take_bit LENGTH(64) (push_bit (23 - k) (unat (ucast ?f :: u64)))"
    by (rule unsigned_push_bit_eq)
  also have "\<dots> = ?n" using n by (simp add: unat_u64 push_bit_eq_mult take_bit_nat_eq_self_iff)
  finally have p: "unat (push_bit (23 - k) (ucast ?f) :: u64) = ?n" .
  have "unat (take_bit 23 (push_bit (23 - k) (ucast ?f)) :: u64) = unat (push_bit (23 - k) (ucast ?f) :: u64) mod 2 ^ 23"
    by (rule unat_take_bit)
  also have "\<dots> = ?n - 2 ^ 23" unfolding p using n by (simp add: le_mod_geq)
  finally have r: "unat (take_bit 23 (push_bit (23 - k) (ucast ?f)) :: u64) = ?n - 2 ^ 23" .
  have "unat (push_bit 29 w) = unat w * 2 ^ 29" if "unat w < 2 ^ 23" for w :: u64
    using that by (simp add: push_bit_eq_mult unat_word_ariths)
  from this [of "take_bit 23 (push_bit (23 - k) (ucast ?f))"] have "double_frac ?y = (?n - 2 ^ 23) * 2 ^ 29"
    unfolding double_frac_def t52 r using n by simp
  then have "2 ^ 52 + double_frac ?y = ?n * 2 ^ 29" using n(1) by (simp add: diff_mult_distrib)
  also have "\<dots> = single_frac x * 2 ^ (52 - k)"
  proof -
    have "(23 - k) + 29 = 52 - k" using k(2) by simp
    then have "2 ^ (23 - k) * 2 ^ 29 = (2 ^ (52 - k) :: nat)" by (metis power_add)
    then show ?thesis by (simp only: single_frac_def mult.assoc)
  qed
  finally show "2 ^ 52 + double_frac ?y = single_frac x * 2 ^ (52 - k)" .
  show "bit ?y 63 \<longleftrightarrow> bit x 31" using small [of 11] by (auto simp: b)
qed

lemma subnormal_back:
  assumes k: "bit x k" "k < 23" "\<And>i. bit (take_bit 23 x) i \<Longrightarrow> i \<le> k" and e: "single_exp x = 0"
  shows "ConvertToSingle (subnormal_image x k) = x"
proof -
  let ?y = "subnormal_image x k"
  note b = bit_subnormal_image [OF k(2), of x] and f = subnormal_fields [OF k]
  let ?exp = "ucast (drop_bit 52 ?y AND 0x7FF) :: u32"
  have exp: "unat ?exp = 874 + k" using exponent_word [of ?y] f(1) by simp
  have nz: "?y AND NOT DOUBLE_SIGN \<noteq> 0"
  proof
    assume "?y AND NOT DOUBLE_SIGN = 0"
    then have z: "\<not> bit (?y AND NOT DOUBLE_SIGN) i" for i by simp
    have s: "bit DOUBLE_SIGN i \<longleftrightarrow> i = 63" for i
      using bit_exp_iff [of 63 i, where ?'a = "64 word"] by (auto simp: possible_bit_word)
    have "i < 63 \<Longrightarrow> \<not> bit ?y i" for i using z [of i] unfolding bit_and_iff bit_not_iff s by (simp add: possible_bit_word)
    then have "take_bit 11 (drop_bit 52 ?y) = 0" by (intro bit_word_eqI) (auto simp: bit_take_bit_iff bit_drop_bit_eq)
    then have "double_exp ?y = 0" by (simp add: double_exp_def)
    with f(1) show False by simp
  qed
  have c: "\<not> (?exp > 896)" "?exp \<ge> 874" using exp k(2) by (simp_all add: word_less_nat_alt word_le_nat_alt)
  have "unat (905 - ?exp) = 31 - k" using exp k(2) c(2) by (simp add: unat_sub_if')
  then have conv: "ConvertToSingle ?y =
      drop_bit (31 - k) (ucast (0x80000000 OR drop_bit 21 (?y AND DOUBLE_FRAC)) :: u32) OR (ucast (drop_bit 32 ?y) AND 0x80000000)"
    unfolding ConvertToSingle_def Let_def using c nz by simp
  have top: "\<not> bit x i" if "k < i" "i < 31" for i
  proof (cases "i < 23")
    case True
    then show ?thesis using k(3) [of i] that by (auto simp: bit_take_bit_iff)
  next
    case False
    have "take_bit 8 (drop_bit 23 x) = 0" using e by (simp add: single_exp_def unat_eq_0)
    then have "\<not> bit (take_bit 8 (drop_bit 23 x)) (i - 23)" by simp
    with False that show ?thesis by (simp add: bit_take_bit_iff bit_drop_bit_eq)
  qed
  define W where "W = 0x80000000 OR drop_bit 21 (?y AND DOUBLE_FRAC)"
  have w: "bit W j \<longleftrightarrow> j = 31 \<or> j < 31 \<and> 31 - k \<le> j \<and> bit x (j + k - 31)" if "j < 32" for j
  proof -
    have s: "bit (0x80000000 :: u64) j \<longleftrightarrow> j = 31"
      using bit_exp_iff [of 31 j, where ?'a = "64 word"] by (auto simp: possible_bit_word)
    have "bit (drop_bit 21 (take_bit 52 ?y)) j \<longleftrightarrow> j < 31 \<and> 31 - k \<le> j \<and> bit x (j + k - 31)"
      unfolding bit_drop_bit_eq comp_def bit_take_bit_iff b using k(2) by (auto simp: algebra_simps)
    then show ?thesis unfolding W_def bit_or_iff s mask64 by blast
  qed
  show ?thesis unfolding conv W_def [symmetric]
  proof (rule bit_word_eqI)
    fix i assume "i < LENGTH(32)"
    then have i: "i < 32" by simp
    have sign: "bit (ucast (drop_bit 32 ?y) AND 0x80000000 :: u32) i \<longleftrightarrow> i = 31 \<and> bit x 31"
      unfolding and_words32 using i f(3) by (auto simp: bit_ucast_iff bit_drop_bit_eq)
    have d: "bit (drop_bit (31 - k) (ucast W :: u32)) i \<longleftrightarrow> i \<le> k \<and> bit x i"
    proof (cases "31 - k + i < 32")
      case True
      then have "bit (drop_bit (31 - k) (ucast W :: u32)) i \<longleftrightarrow> bit W (31 - k + i)"
        unfolding bit_drop_bit_eq comp_def bit_ucast_iff by simp
      also have "\<dots> \<longleftrightarrow> i = k \<or> i < k \<and> bit x i" unfolding w [OF True] using k(2) by auto
      finally show ?thesis using k(1) by (auto simp: le_less)
    next
      case False
      then show ?thesis using k(2) unfolding bit_drop_bit_eq comp_def bit_ucast_iff by auto
    qed
    show "bit (drop_bit (31 - k) (ucast W :: u32) OR (ucast (drop_bit 32 ?y) AND 0x80000000)) i \<longleftrightarrow> bit x i"
      unfolding bit_or_iff d sign using i top [of i] k(2) by (cases "i = 31"; cases "k < i") auto
  qed
qed

lemma normal_exponent: "0 < single_exp x \<Longrightarrow> double_exp (spread (ucast x) (if single_exp x < 128 then 1 else 0)) = single_exp x + 896"
proof -
  have "unat (take_bit 7 (drop_bit 23 x)) < 128" by (simp only: unat_take_bit) simp
  then show ?thesis using spread_fields(1) [of x "single_exp x < 128"] by (simp add: single_exp_split)
qed

lemma special_exponent:
  "single_exp x = 255 \<or> single_exp x = 0 \<Longrightarrow> double_exp (spread (ucast x) (if single_exp x = 255 then 1 else 0)) = (if single_exp x = 255 then 2047 else 0)"
proof -
  have "unat (take_bit 7 (drop_bit 23 x)) < 128" by (simp only: unat_take_bit) simp
  moreover assume "single_exp x = 255 \<or> single_exp x = 0"
  ultimately show ?thesis using spread_fields(1) [of x "single_exp x = 255"] single_exp_split [of x] by (auto split: if_splits)
qed

lemma ConvertToDouble_back: "\<exists>y. ConvertToDouble x = Some y \<and> ConvertToSingle y = x"
proof (cases rule: ConvertToDouble_cases [of x])
  case normal
  then show ?thesis by (simp add: ConvertToSingle_same spread_back normal_exponent)
next
  case (subnormal k)
  then show ?thesis using subnormal_back [OF subnormal(2-4,1)] by (auto simp: subnormal_image_def)
next
  case special
  then have "ConvertToSingle (spread (ucast x) (if single_exp x = 255 then 1 else 0)) = x"
    by (subst ConvertToSingle_same) (use special_exponent [of x] in \<open>auto simp: spread_back split: if_splits\<close>)
  with special show ?thesis by simp
qed

lemma normal_int:
  assumes "0 < single_exp x"
  shows "double_int (spread (ucast x) (if single_exp x < 128 then 1 else 0)) = single_int x * 2 ^ 925" (is "double_int ?y = _")
proof -
  note f = spread_fields [of x "single_exp x < 128"] and e = normal_exponent [OF assms]
  have "29 + (single_exp x + 895) = (single_exp x - 1) + 925" using assms by simp
  then have "2 ^ 29 * 2 ^ (single_exp x + 895) = (2 ^ (single_exp x - 1) * 2 ^ 925 :: nat)" by (metis power_add)
  moreover have "2 ^ 52 + single_frac x * 2 ^ 29 = (2 ^ 23 + single_frac x) * 2 ^ 29" by (simp add: algebra_simps)
  ultimately have N: "(2 ^ 52 + single_frac x * 2 ^ 29) * 2 ^ (single_exp x + 895) = ((2 ^ 23 + single_frac x) * 2 ^ (single_exp x - 1)) * 2 ^ 925"
    by (metis mult.assoc)
  have s: "single_exp x + 896 - 1 = single_exp x + 895" by simp
  have "int ((2 ^ 52 + double_frac ?y) * 2 ^ (double_exp ?y - 1)) = int ((2 ^ 23 + single_frac x) * 2 ^ (single_exp x - 1)) * 2 ^ 925"
    unfolding e f(2) s by (simp only: N of_nat_mult of_nat_power of_nat_numeral)
  moreover have "double_exp ?y \<noteq> 0" "single_exp x \<noteq> 0" using e assms by simp_all
  ultimately show ?thesis by (simp only: double_int_def single_int_def if_False f(3) mult.assoc)
qed

lemma subnormal_int:
  assumes "single_exp x = 0" and k: "bit x k" "k < 23" "\<And>i. bit (take_bit 23 x) i \<Longrightarrow> i \<le> k"
  shows "double_int (subnormal_image x k) = single_int x * 2 ^ 925"
proof -
  have f: "double_exp (subnormal_image x k) = 874 + k" "2 ^ 52 + double_frac (subnormal_image x k) = single_frac x * 2 ^ (52 - k)"
    "bit (subnormal_image x k) 63 \<longleftrightarrow> bit x 31"
    by (rule subnormal_fields [OF k]; assumption)+
  have "(52 - k) + (874 + k - 1) = 925" using k(2) by simp
  then have "2 ^ (52 - k) * 2 ^ (874 + k - 1) = (2 ^ 925 :: nat)" by (metis power_add)
  then have N: "(2 ^ 52 + double_frac (subnormal_image x k)) * 2 ^ (double_exp (subnormal_image x k) - 1) = single_frac x * 2 ^ 925"
    unfolding f(1,2) by (simp only: mult.assoc)
  have "double_exp (subnormal_image x k) \<noteq> 0" using f(1) by simp
  then show ?thesis
    by (simp only: double_int_def single_int_def if_False f(3) N assms(1) if_True simp_thms of_nat_mult of_nat_power of_nat_numeral mult.assoc)
qed

text \<open>
  C13. Loading a single-precision number is exact, and storing it gives it back: for each of the \<open>2 ^ 32\<close> words the conversion returns; a finite
  number has the same value in the register, subnormal ones included, an infinity stays one and a NaN keeps its payload; and the conversion back
  gives the word that was loaded.
\<close>

theorem single_double_exact:
  "\<exists>y. ConvertToDouble x = Some y \<and> ConvertToSingle y = x \<and>
     (if single_exp x = 255 then double_exp y = 2047 \<and> double_frac y = single_frac x * 2 ^ 29 \<and> bit y 63 = bit x 31
      else double_int y = single_int x * 2 ^ 925)"
proof (cases rule: ConvertToDouble_cases [of x])
  case normal
  then show ?thesis using ConvertToDouble_back [of x] normal_int [of x] by auto
next
  case (subnormal k)
  then have "ConvertToDouble x = Some (subnormal_image x k)" by (simp add: subnormal_image_def)
  then show ?thesis using ConvertToDouble_back [of x] subnormal_int [OF subnormal(1-4)] subnormal(1) by auto
next
  case special
  let ?y = "spread (ucast x) (if single_exp x = 255 then 1 else 0)"
  note f = spread_fields [of x "single_exp x = 255"]
  have e: "double_exp ?y = (if single_exp x = 255 then 2047 else 0)" using special(1) by (intro special_exponent) auto
  have "ConvertToSingle ?y = x" using ConvertToDouble_back [of x] special(2) by simp
  then show ?thesis using special e f(2,3) by (auto simp: double_int_def single_int_def)
qed

end
