(* ===== verification/PPC_LoadStore.thy ===== *)
theory PPC_LoadStore
  imports PPC_FastPath PPC_Float
begin

text \<open>
  The load and store instructions of the main processor (\<^verbatim>\<open>Core/PowerPC/Interpreter/Interpreter_LoadStore.cpp\<close>), all
  functions of the file: integer and floating-point loads and stores with their update, indexed and byte-reversed forms, the loads and
  stores of several words and of strings, the reservation of \<open>lwarx\<close> and \<open>stwcxd\<close>, and the instructions
  for caches and lookaside buffers. The calls that invalidate blocks of the recompiler do nothing when the interpreter runs, as here.
\<close>

unbundle bit_operations_syntax

subsection \<open>Fields, addresses and registers\<close>

definition FD :: "UGeckoInstruction \<Rightarrow> nat" where [ppc_defs]: "FD inst = unat (bit_field 21 5 inst)"
definition FS :: "UGeckoInstruction \<Rightarrow> nat" where [ppc_defs]: "FS inst = unat (bit_field 21 5 inst)"
definition NB :: "UGeckoInstruction \<Rightarrow> nat" where [ppc_defs]: "NB inst = unat (bit_field 11 5 inst)"

abbreviation (input) "SPR_EAR \<equiv> 282 :: nat"

definition Helper_Get_EA :: "UGeckoInstruction \<Rightarrow> 'd Machine \<Rightarrow> u32" where
  "Helper_Get_EA inst M = (if RA inst \<noteq> 0 then gpr (ppc M) (RA inst) + SIMM_16 inst else SIMM_16 inst)"

definition Helper_Get_EA_U :: "UGeckoInstruction \<Rightarrow> 'd Machine \<Rightarrow> u32" where
  "Helper_Get_EA_U inst M = gpr (ppc M) (RA inst) + SIMM_16 inst"

definition Helper_Get_EA_X :: "UGeckoInstruction \<Rightarrow> 'd Machine \<Rightarrow> u32" where
  "Helper_Get_EA_X inst M = (if RA inst \<noteq> 0 then gpr (ppc M) (RA inst) + gpr (ppc M) (RB inst) else gpr (ppc M) (RB inst))"

definition Helper_Get_EA_UX :: "UGeckoInstruction \<Rightarrow> 'd Machine \<Rightarrow> u32" where
  "Helper_Get_EA_UX inst M = gpr (ppc M) (RA inst) + gpr (ppc M) (RB inst)"

definition pending_DSI :: "'d Machine \<Rightarrow> bool" where
  "pending_DSI M \<longleftrightarrow> Exceptions (ppc M) AND EXCEPTION_DSI \<noteq> 0"

definition put_gpr :: "nat \<Rightarrow> u32 \<Rightarrow> 'd Machine \<Rightarrow> 'd Machine" where
  "put_gpr n v M = M\<lparr>ppc := set_gpr n v (ppc M)\<rparr>"

definition put_ps0 :: "nat \<Rightarrow> u64 \<Rightarrow> 'd Machine \<Rightarrow> 'd Machine" where
  "put_ps0 n v M = M\<lparr>ps := (ps M)(n := (ps M n)(0 := v))\<rparr>"

definition put_ps1 :: "nat \<Rightarrow> u64 \<Rightarrow> 'd Machine \<Rightarrow> 'd Machine" where
  "put_ps1 n v M = M\<lparr>ps := (ps M)(n := (ps M n)(1 := v))\<rparr>"

type_synonym 'd instruction = "'d Machine hw \<Rightarrow> UGeckoInstruction \<Rightarrow> 'd Machine \<Rightarrow> mem_error + 'd Machine"

text \<open>
  The shapes of the instructions: a load reads, and unless an exception is pending afterwards gives its value on; a store
  with update changes its address register unless an exception is pending afterwards.
\<close>

definition load_then :: "'d Machine hw \<Rightarrow> nat \<Rightarrow> u32 \<Rightarrow> (u64 \<Rightarrow> 'd Machine \<Rightarrow> mem_error + 'd Machine) \<Rightarrow> 'd Machine \<Rightarrow> mem_error + 'd Machine" where
  "load_then hw n ea f M =
     and_then (PowerPC_Read hw n ea M) (\<lambda>(temp, M1). if pending_DSI M1 then Inr M1 else f temp M1)"

definition store_update :: "'d Machine hw \<Rightarrow> nat \<Rightarrow> u64 \<Rightarrow> u32 \<Rightarrow> nat \<Rightarrow> 'd Machine \<Rightarrow> mem_error + 'd Machine" where
  "store_update hw n v uAddress ra M =
     and_then (PowerPC_Write hw n v uAddress M) (\<lambda>M1. Inr (if pending_DSI M1 then M1 else put_gpr ra uAddress M1))"

text \<open>The value of a single-precision load goes to both halves of a register pair.\<close>

definition put_single :: "nat \<Rightarrow> u64 \<Rightarrow> 'd Machine \<Rightarrow> mem_error + 'd Machine" where
  "put_single n uTemp M =
     (case ConvertToDouble (ucast uTemp) of
        None \<Rightarrow> Inl NeverReturns
      | Some value \<Rightarrow> Inr (put_ps1 n value (put_ps0 n value M)))"

definition halfword :: "u64 \<Rightarrow> u32" where "halfword temp = scast (ucast temp :: u16)"

subsection \<open>Loads\<close>

definition lbz :: "'d instruction" where
  "lbz hw inst M =
     load_then hw 1 (Helper_Get_EA inst M) (\<lambda>temp M. Inr (put_gpr (RD inst) (ucast temp) M)) M"

definition lbzu :: "'d instruction" where
  "lbzu hw inst M =
     (let uAddress = Helper_Get_EA_U inst M in
      load_then hw 1 uAddress (\<lambda>temp M. Inr (put_gpr (RA inst) uAddress (put_gpr (RD inst) (ucast temp) M))) M)"

definition lfd :: "'d instruction" where
  "lfd hw inst M =
     load_then hw 8 (Helper_Get_EA inst M) (\<lambda>temp M. Inr (put_ps0 (FD inst) temp M)) M"

definition lfdu :: "'d instruction" where
  "lfdu hw inst M =
     (let uAddress = Helper_Get_EA_U inst M in
      load_then hw 8 uAddress (\<lambda>temp M. Inr (put_gpr (RA inst) uAddress (put_ps0 (FD inst) temp M))) M)"

definition lfdux :: "'d instruction" where
  "lfdux hw inst M =
     (let uAddress = Helper_Get_EA_UX inst M in
      load_then hw 8 uAddress (\<lambda>temp M. Inr (put_gpr (RA inst) uAddress (put_ps0 (FD inst) temp M))) M)"

definition lfdx :: "'d instruction" where
  "lfdx hw inst M =
     load_then hw 8 (Helper_Get_EA_X inst M) (\<lambda>temp M. Inr (put_ps0 (FD inst) temp M)) M"

definition lfs :: "'d instruction" where
  "lfs hw inst M =
     load_then hw 4 (Helper_Get_EA inst M) (put_single (FD inst)) M"

definition lfsu :: "'d instruction" where
  "lfsu hw inst M =
     (let uAddress = Helper_Get_EA_U inst M in
      load_then hw 4 uAddress (\<lambda>temp M. and_then (put_single (FD inst) temp M) (\<lambda>M. Inr (put_gpr (RA inst) uAddress M))) M)"

definition lfsux :: "'d instruction" where
  "lfsux hw inst M =
     (let uAddress = Helper_Get_EA_UX inst M in
      load_then hw 4 uAddress (\<lambda>temp M. and_then (put_single (FD inst) temp M) (\<lambda>M. Inr (put_gpr (RA inst) uAddress M))) M)"

definition lfsx :: "'d instruction" where
  "lfsx hw inst M =
     load_then hw 4 (Helper_Get_EA_X inst M) (put_single (FD inst)) M"

definition lha :: "'d instruction" where
  "lha hw inst M =
     load_then hw 2 (Helper_Get_EA inst M) (\<lambda>temp M. Inr (put_gpr (RD inst) (halfword temp) M)) M"

definition lhau :: "'d instruction" where
  "lhau hw inst M =
     (let uAddress = Helper_Get_EA_U inst M in
      load_then hw 2 uAddress (\<lambda>temp M. Inr (put_gpr (RA inst) uAddress (put_gpr (RD inst) (halfword temp) M))) M)"

definition lhz :: "'d instruction" where
  "lhz hw inst M =
     load_then hw 2 (Helper_Get_EA inst M) (\<lambda>temp M. Inr (put_gpr (RD inst) (ucast temp) M)) M"

definition lhzu :: "'d instruction" where
  "lhzu hw inst M =
     (let uAddress = Helper_Get_EA_U inst M in
      load_then hw 2 uAddress (\<lambda>temp M. Inr (put_gpr (RA inst) uAddress (put_gpr (RD inst) (ucast temp) M))) M)"

definition lwz :: "'d instruction" where
  "lwz hw inst M =
     load_then hw 4 (Helper_Get_EA inst M) (\<lambda>temp M. Inr (put_gpr (RD inst) (ucast temp) M)) M"

definition lwzu :: "'d instruction" where
  "lwzu hw inst M =
     (let uAddress = Helper_Get_EA_U inst M in
      load_then hw 4 uAddress (\<lambda>temp M. Inr (put_gpr (RA inst) uAddress (put_gpr (RD inst) (ucast temp) M))) M)"

definition lbzux :: "'d instruction" where
  "lbzux hw inst M =
     (let uAddress = Helper_Get_EA_UX inst M in
      load_then hw 1 uAddress (\<lambda>temp M. Inr (put_gpr (RA inst) uAddress (put_gpr (RD inst) (ucast temp) M))) M)"

definition lbzx :: "'d instruction" where
  "lbzx hw inst M =
     load_then hw 1 (Helper_Get_EA_X inst M) (\<lambda>temp M. Inr (put_gpr (RD inst) (ucast temp) M)) M"

definition lhaux :: "'d instruction" where
  "lhaux hw inst M =
     (let uAddress = Helper_Get_EA_UX inst M in
      load_then hw 2 uAddress (\<lambda>temp M. Inr (put_gpr (RA inst) uAddress (put_gpr (RD inst) (halfword temp) M))) M)"

definition lhax :: "'d instruction" where
  "lhax hw inst M =
     load_then hw 2 (Helper_Get_EA_X inst M) (\<lambda>temp M. Inr (put_gpr (RD inst) (halfword temp) M)) M"

definition lhbrx :: "'d instruction" where
  "lhbrx hw inst M =
     load_then hw 2 (Helper_Get_EA_X inst M) (\<lambda>temp M. Inr (put_gpr (RD inst) (ucast (bswap 2 temp)) M)) M"

definition lhzux :: "'d instruction" where
  "lhzux hw inst M =
     (let uAddress = Helper_Get_EA_UX inst M in
      load_then hw 2 uAddress (\<lambda>temp M. Inr (put_gpr (RA inst) uAddress (put_gpr (RD inst) (ucast temp) M))) M)"

definition lhzx :: "'d instruction" where
  "lhzx hw inst M =
     load_then hw 2 (Helper_Get_EA_X inst M) (\<lambda>temp M. Inr (put_gpr (RD inst) (ucast temp) M)) M"

definition lwbrx :: "'d instruction" where
  "lwbrx hw inst M =
     load_then hw 4 (Helper_Get_EA_X inst M) (\<lambda>temp M. Inr (put_gpr (RD inst) (swap32 (ucast temp)) M)) M"

definition lwzux :: "'d instruction" where
  "lwzux hw inst M =
     (let uAddress = Helper_Get_EA_UX inst M in
      load_then hw 4 uAddress (\<lambda>temp M. Inr (put_gpr (RA inst) uAddress (put_gpr (RD inst) (ucast temp) M))) M)"

definition lwzx :: "'d instruction" where
  "lwzx hw inst M =
     load_then hw 4 (Helper_Get_EA_X inst M) (\<lambda>temp M. Inr (put_gpr (RD inst) (ucast temp) M)) M"

subsection \<open>Stores\<close>

definition stb :: "'d instruction" where
  "stb hw inst M =
     PowerPC_Write hw 1 (ucast (ucast (gpr (ppc M) (RS inst)) :: u8)) (Helper_Get_EA inst M) M"

definition stbu :: "'d instruction" where
  "stbu hw inst M =
     store_update hw 1 (ucast (ucast (gpr (ppc M) (RS inst)) :: u8)) (Helper_Get_EA_U inst M) (RA inst) M"

definition stbux :: "'d instruction" where
  "stbux hw inst M =
     store_update hw 1 (ucast (ucast (gpr (ppc M) (RS inst)) :: u8)) (Helper_Get_EA_UX inst M) (RA inst) M"

definition stbx :: "'d instruction" where
  "stbx hw inst M =
     PowerPC_Write hw 1 (ucast (ucast (gpr (ppc M) (RS inst)) :: u8)) (Helper_Get_EA_X inst M) M"

definition stfd :: "'d instruction" where
  "stfd hw inst M =
     PowerPC_Write hw 8 (ps M (FS inst) 0) (Helper_Get_EA inst M) M"

definition stfdu :: "'d instruction" where
  "stfdu hw inst M =
     store_update hw 8 (ps M (FS inst) 0) (Helper_Get_EA_U inst M) (RA inst) M"

definition stfdux :: "'d instruction" where
  "stfdux hw inst M =
     store_update hw 8 (ps M (FS inst) 0) (Helper_Get_EA_UX inst M) (RA inst) M"

definition stfdx :: "'d instruction" where
  "stfdx hw inst M =
     PowerPC_Write hw 8 (ps M (FS inst) 0) (Helper_Get_EA_X inst M) M"

definition stfiwx :: "'d instruction" where
  "stfiwx hw inst M =
     PowerPC_Write hw 4 (ucast (ucast (ps M (FS inst) 0) :: u32)) (Helper_Get_EA_X inst M) M"

definition stfs :: "'d instruction" where
  "stfs hw inst M =
     PowerPC_Write hw 4 (ucast (ConvertToSingle (ps M (FS inst) 0))) (Helper_Get_EA inst M) M"

definition stfsu :: "'d instruction" where
  "stfsu hw inst M =
     store_update hw 4 (ucast (ConvertToSingle (ps M (FS inst) 0))) (Helper_Get_EA_U inst M) (RA inst) M"

definition stfsux :: "'d instruction" where
  "stfsux hw inst M =
     store_update hw 4 (ucast (ConvertToSingle (ps M (FS inst) 0))) (Helper_Get_EA_UX inst M) (RA inst) M"

definition stfsx :: "'d instruction" where
  "stfsx hw inst M =
     PowerPC_Write hw 4 (ucast (ConvertToSingle (ps M (FS inst) 0))) (Helper_Get_EA_X inst M) M"

definition sth :: "'d instruction" where
  "sth hw inst M =
     PowerPC_Write hw 2 (ucast (ucast (gpr (ppc M) (RS inst)) :: u16)) (Helper_Get_EA inst M) M"

definition sthu :: "'d instruction" where
  "sthu hw inst M =
     store_update hw 2 (ucast (ucast (gpr (ppc M) (RS inst)) :: u16)) (Helper_Get_EA_U inst M) (RA inst) M"

definition sthux :: "'d instruction" where
  "sthux hw inst M =
     store_update hw 2 (ucast (ucast (gpr (ppc M) (RS inst)) :: u16)) (Helper_Get_EA_UX inst M) (RA inst) M"

definition sthx :: "'d instruction" where
  "sthx hw inst M =
     PowerPC_Write hw 2 (ucast (ucast (gpr (ppc M) (RS inst)) :: u16)) (Helper_Get_EA_X inst M) M"

definition sthbrx :: "'d instruction" where
  "sthbrx hw inst M =
     PowerPC_Write hw 2 (bswap 2 (ucast (gpr (ppc M) (RS inst)))) (Helper_Get_EA_X inst M) M"

definition stw :: "'d instruction" where
  "stw hw inst M =
     PowerPC_Write hw 4 (ucast (gpr (ppc M) (RS inst))) (Helper_Get_EA inst M) M"

definition stwu :: "'d instruction" where
  "stwu hw inst M =
     store_update hw 4 (ucast (gpr (ppc M) (RS inst))) (Helper_Get_EA_U inst M) (RA inst) M"

definition stwux :: "'d instruction" where
  "stwux hw inst M =
     store_update hw 4 (ucast (gpr (ppc M) (RS inst))) (Helper_Get_EA_UX inst M) (RA inst) M"

definition stwx :: "'d instruction" where
  "stwx hw inst M =
     PowerPC_Write hw 4 (ucast (gpr (ppc M) (RS inst))) (Helper_Get_EA_X inst M) M"

definition stwbrx :: "'d instruction" where
  "stwbrx hw inst M =
     PowerPC_Write hw 4 (ucast (swap32 (gpr (ppc M) (RS inst)))) (Helper_Get_EA_X inst M) M"

subsection \<open>Several words\<close>

text \<open>The loops over the registers from \<open>RD\<close> (\<open>RS\<close>) to 31, with the number of registers that are left.\<close>

fun lmw_loop :: "'d Machine hw \<Rightarrow> nat \<Rightarrow> nat \<Rightarrow> u32 \<Rightarrow> 'd Machine \<Rightarrow> mem_error + 'd Machine" where
  "lmw_loop hw 0 iReg uAddress M = Inr M"
| "lmw_loop hw (Suc k) iReg uAddress M =
     load_then hw 4 uAddress (\<lambda>temp M. lmw_loop hw k (iReg + 1) (uAddress + 4) (put_gpr iReg (ucast temp) M)) M"

definition lmw :: "'d instruction" where
  "lmw hw inst M = lmw_loop hw (32 - RD inst) (RD inst) (Helper_Get_EA inst M) M"

fun stmw_loop :: "'d Machine hw \<Rightarrow> nat \<Rightarrow> nat \<Rightarrow> u32 \<Rightarrow> 'd Machine \<Rightarrow> mem_error + 'd Machine" where
  "stmw_loop hw 0 iReg uAddress M = Inr M"
| "stmw_loop hw (Suc k) iReg uAddress M =
     and_then (PowerPC_Write hw 4 (ucast (gpr (ppc M) iReg)) uAddress M) (\<lambda>M1.
       if pending_DSI M1 then Inr M1 else stmw_loop hw k (iReg + 1) (uAddress + 4) M1)"

definition stmw :: "'d instruction" where
  "stmw hw inst M = stmw_loop hw (32 - RS inst) (RS inst) (Helper_Get_EA inst M) M"

subsection \<open>Strings\<close>

text \<open>
  The number of bytes \<open>lswx\<close> loads is read again in every round; it is below 256. \<open>r\<close> is a signed number in the sources: it
  starts at \<open>- 1\<close> for register 0.
\<close>

definition string_count :: "'d Machine \<Rightarrow> nat" where
  "string_count M = unat (ucast (xer_stringctrl (ppc M)) :: u8)"

function lswx_loop :: "'d Machine hw \<Rightarrow> nat \<Rightarrow> nat \<Rightarrow> u32 \<Rightarrow> 'd Machine \<Rightarrow> mem_error + 'd Machine" where
  "lswx_loop hw rd n EA M =
     (if n < string_count M then
        (let reg = (rd + n div 4) mod 32; offset = n mod 4 * 8; M = (if n mod 4 = 0 then put_gpr reg 0 M else M) in
         load_then hw 1 EA (\<lambda>temp M. lswx_loop hw rd (n + 1) (EA + 1)
           (put_gpr reg (gpr (ppc M) reg OR push_bit (24 - offset) (ucast temp)) M)) M)
      else Inr M)"
  by pat_completeness auto

lemma string_count_less: "string_count M < 256"
  using unsigned_less [of "ucast (xer_stringctrl (ppc M)) :: u8", where ?'a = nat] by (simp add: string_count_def)

termination lswx_loop
proof (relation "measure (\<lambda>(hw, rd, n, EA, M). 256 - n)", goal_cases)
  case (2 hw rd n EA M)
  then show ?case using string_count_less [of M] by simp
qed simp

definition lswx :: "'d instruction" where
  "lswx hw inst M = lswx_loop hw (RD inst) 0 (Helper_Get_EA_X inst M) M"

definition next_shift :: "nat \<Rightarrow> nat" where
  "next_shift i = (if i + 8 = 32 then 0 else i + 8)"

fun lswi_loop :: "'d Machine hw \<Rightarrow> nat \<Rightarrow> int \<Rightarrow> nat \<Rightarrow> u32 \<Rightarrow> 'd Machine \<Rightarrow> mem_error + 'd Machine" where
  "lswi_loop hw 0 r i EA M = Inr M"
| "lswi_loop hw (Suc n) r i EA M =
     (let r = (if i = 0 then (r + 1) mod 32 else r); M = (if i = 0 then put_gpr (nat r) 0 M else M) in
      load_then hw 1 EA (\<lambda>temp M. lswi_loop hw n r (next_shift i) (EA + 1)
        (put_gpr (nat r) (gpr (ppc M) (nat r) OR push_bit (24 - i) (ucast temp)) M)) M)"

definition string_address :: "UGeckoInstruction \<Rightarrow> 'd Machine \<Rightarrow> u32" where
  "string_address inst M = (if RA inst = 0 then 0 else gpr (ppc M) (RA inst))"

definition string_length :: "UGeckoInstruction \<Rightarrow> nat" where
  "string_length inst = (if NB inst = 0 then 32 else NB inst)"

definition lswi :: "'d instruction" where
  "lswi hw inst M = lswi_loop hw (string_length inst) (int (RD inst) - 1) 0 (string_address inst M) M"

fun stswi_loop :: "'d Machine hw \<Rightarrow> nat \<Rightarrow> int \<Rightarrow> nat \<Rightarrow> u32 \<Rightarrow> 'd Machine \<Rightarrow> mem_error + 'd Machine" where
  "stswi_loop hw 0 r i EA M = Inr M"
| "stswi_loop hw (Suc n) r i EA M =
     (let r = (if i = 0 then (r + 1) mod 32 else r) in
      and_then (PowerPC_Write hw 1 (ucast (drop_bit (24 - i) (gpr (ppc M) (nat r)) AND 0xFF)) EA M) (\<lambda>M1.
        if pending_DSI M1 then Inr M1 else stswi_loop hw n r (next_shift i) (EA + 1) M1))"

definition stswi :: "'d instruction" where
  "stswi hw inst M = stswi_loop hw (string_length inst) (int (RS inst) - 1) 0 (string_address inst M) M"

text \<open>\<open>stswx\<close> goes on after an exception.\<close>

fun stswx_loop :: "'d Machine hw \<Rightarrow> nat \<Rightarrow> nat \<Rightarrow> nat \<Rightarrow> u32 \<Rightarrow> 'd Machine \<Rightarrow> mem_error + 'd Machine" where
  "stswx_loop hw 0 r i EA M = Inr M"
| "stswx_loop hw (Suc n) r i EA M =
     and_then (PowerPC_Write hw 1 (ucast (drop_bit (24 - i) (gpr (ppc M) r) AND 0xFF)) EA M)
       (stswx_loop hw n (if i + 8 = 32 then (r + 1) mod 32 else r) (next_shift i) (EA + 1))"

definition stswx :: "'d instruction" where
  "stswx hw inst M = stswx_loop hw (string_count M) (RS inst) 0 (Helper_Get_EA_X inst M) M"

subsection \<open>The reservation\<close>

definition lwarx :: "'d instruction" where
  "lwarx hw inst M =
     (let uAddress = Helper_Get_EA_X inst M in
      load_then hw 4 uAddress (\<lambda>temp M.
        Inr ((put_gpr (RD inst) (ucast temp) M)\<lparr>m_reserve := True, m_reserve_address := uAddress\<rparr>)) M)"

definition put_CR0 :: "u32 \<Rightarrow> 'd Machine \<Rightarrow> 'd Machine" where
  "put_CR0 flags M = M\<lparr>ppc := SetCRField 0 (flags OR GetXER_SO (ppc M)) (ppc M)\<rparr>"

definition stwcxd :: "'d instruction" where
  "stwcxd hw inst M =
     (if m_reserve M \<and> Helper_Get_EA_X inst M = m_reserve_address M then
        and_then (PowerPC_Write hw 4 (ucast (gpr (ppc M) (RS inst))) (Helper_Get_EA_X inst M) M) (\<lambda>M1.
          if \<not> pending_DSI M1 then Inr (put_CR0 2 (M1\<lparr>m_reserve := False\<rparr>)) else Inr (put_CR0 0 M1))
      else Inr (put_CR0 0 M))"

subsection \<open>Caches, lookaside buffers and external control\<close>

definition dcba :: "'d instruction" where "dcba hw inst M = Inr M"
definition dcbf :: "'d instruction" where "dcbf hw inst M = Inr M"
definition dcbi :: "'d instruction" where "dcbi hw inst M = Inr M"
definition dcbst :: "'d instruction" where "dcbst hw inst M = Inr M"
definition dcbt :: "'d instruction" where "dcbt hw inst M = Inr M"
definition dcbtst :: "'d instruction" where "dcbtst hw inst M = Inr M"
definition eieio :: "'d instruction" where "eieio hw inst M = Inr M"
definition sync :: "'d instruction" where "sync hw inst M = Inr M"
definition tlbsync :: "'d instruction" where "tlbsync hw inst M = Inr M"

definition dcbz :: "'d instruction" where
  "dcbz hw inst M =
     (if bDCBZOFF M then Inr M
      else let dcbz_addr = Helper_Get_EA_X inst M in
        if bLowDCBZHack M \<and> dcbz_addr < 0x80008000 \<and> dcbz_addr \<ge> 0x80000000 then Inr M
        else ClearCacheLine hw (dcbz_addr AND NOT 31) M)"

definition icbi :: "'d instruction" where
  "icbi hw inst M = Inr (M\<lparr>iCache := Invalidate (Helper_Get_EA_X inst M) (ppc M) (iCache M)\<rparr>)"

definition tlbie :: "'d instruction" where
  "tlbie hw inst M = Inr (M\<lparr>mmu := InvalidateTLBEntry (gpr (ppc M) (RB inst)) (mmu M)\<rparr>)"

definition raise_exception :: "u32 \<Rightarrow> 'd Machine \<Rightarrow> 'd Machine" where
  "raise_exception e M = M\<lparr>ppc := (ppc M)\<lparr>Exceptions := Exceptions (ppc M) OR e\<rparr>\<rparr>"

definition external_checks :: "u32 \<Rightarrow> 'd Machine \<Rightarrow> 'd Machine" where
  "external_checks EA M =
     (let M1 = (if spr (ppc M) SPR_EAR AND 0x80000000 = 0 then raise_exception EXCEPTION_DSI M else M)
      in if EA AND 3 \<noteq> 0 then raise_exception EXCEPTION_ALIGNMENT M1 else M1)"

definition eciwx :: "'d instruction" where
  "eciwx hw inst M =
     (let EA = Helper_Get_EA_X inst M in
      and_then (PowerPC_Read hw 4 EA (external_checks EA M)) (\<lambda>(v, M1). Inr (put_gpr (RD inst) (ucast v) M1)))"

definition ecowx :: "'d instruction" where
  "ecowx hw inst M =
     (let EA = Helper_Get_EA_X inst M; M1 = external_checks EA M in
      PowerPC_Write hw 4 (ucast (gpr (ppc M1) (RS inst))) EA M1)"

end
