(* ===== verification/PPC_Bytes.thy ===== *)
theory PPC_Bytes
  imports PPC_AccessProps
begin

text \<open>
  Memory as the emulated program sees it: one byte for each effective address that is translated by blocks (or not at all) and leads to memory. The
  accesses of every size are stores and loads of these bytes, the most significant one first.
\<close>

unbundle bit_operations_syntax

subsection \<open>The byte at an address\<close>

definition byte_pointer :: "'d Machine \<Rightarrow> u32 \<Rightarrow> u32 option" where
  "byte_pointer M a = Option.bind (data_address M a) (ram_pointer (mem M))"

definition byte_at :: "'d Machine \<Rightarrow> u32 \<Rightarrow> u8 option" where
  "byte_at M a = Option.bind (byte_pointer M a) (physical_base (mem M))"

lemma byte_pointer_goes: "byte_pointer M a \<noteq> None \<longleftrightarrow> goes_to_ram M a"
  by (auto simp: byte_pointer_def goes_to_ram_def in_ram_def split: option.splits bind_splits)

lemma mem_only:
  assumes "M' = M\<lparr>mem := m\<rparr>"
  shows "ppc M' = ppc M" and "mmu M' = mmu M" and "ps M' = ps M" and "memchecks M' = memchecks M"
  by (simp_all add: assms)

lemma byte_pointer_cong:
  "MSR_DR (ppc M') = MSR_DR (ppc M) \<Longrightarrow> mmu M' = mmu M \<Longrightarrow> ram_pointer (mem M') = ram_pointer (mem M) \<Longrightarrow> byte_pointer M' = byte_pointer M"
  by (rule ext) (simp add: byte_pointer_def data_address_def cong: if_cong)

lemma byte_at_cong:
  "MSR_DR (ppc M') = MSR_DR (ppc M) \<Longrightarrow> mmu M' = mmu M \<Longrightarrow> mem M' = mem M \<Longrightarrow> byte_at M' = byte_at M"
  by (rule ext) (simp add: byte_at_def byte_pointer_def data_address_def cong: if_cong)

lemma byte_eqI: "drop_bit 12 x = drop_bit 12 y \<Longrightarrow> take_bit 12 x = take_bit 12 y \<Longrightarrow> x = y" for x y :: u32
  by (metis bits_ident)

lemma data_address_page:
  assumes "bats_built M" and "data_address M a = Some p" and b: "drop_bit 12 b = drop_bit 12 a"
  shows "\<exists>p'. data_address M b = Some p' \<and> drop_bit 12 p' = drop_bit 12 p \<and> take_bit 12 p' = take_bit 12 b"
proof (cases "MSR_DR (ppc M)")
  case True
  let ?r = "dbat_table (mmu M) (drop_bit 17 a)"
  have d17: "drop_bit 17 b = drop_bit 17 a" by (rule drop_bit_page [OF b]) simp
  have a: "TranslateBatAddess (dbat_table (mmu M)) a = Some p" using assms(2) True by (simp add: data_address_def)
  have low: "x AND (BAT_PAGE_SIZE - 1) = take_bit 17 x" for x :: u32 by (simp add: take_bit_eq_mask mask_eq_exp_minus_1)
  have r: "?r AND 1 \<noteq> 0" and p: "p = (?r AND NOT 3) OR take_bit 17 a"
    using a unfolding TranslateBatAddess_def Let_def low by (simp_all split: if_splits)
  let ?p' = "(?r AND NOT 3) OR take_bit 17 b"
  have t: "TranslateBatAddess (dbat_table (mmu M)) b = Some ?p'"
    unfolding TranslateBatAddess_def Let_def low d17 using r by simp
  then have "take_bit 12 ?p' = take_bit 12 b" using assms(1) bat_offset unfolding bats_built_def by metis
  moreover have "drop_bit 12 (take_bit 17 x) = take_bit 5 (drop_bit 12 x)" for x :: u32 by (rule bit_word_eqI) (auto simp: bit_simps)
  then have "drop_bit 12 ?p' = drop_bit 12 p" unfolding p by (simp add: b)
  ultimately show ?thesis using t True by (simp add: data_address_def)
qed (use assms in \<open>simp add: data_address_def\<close>)

lemma byte_pointer_page:
  assumes "bats_built M" and "byte_pointer M a = Some q" and b: "drop_bit 12 b = drop_bit 12 a"
  shows "\<exists>q'. byte_pointer M b = Some q' \<and> drop_bit 12 q' = drop_bit 12 q \<and> take_bit 12 q' = take_bit 12 b"
proof -
  obtain p where p: "data_address M a = Some p" "ram_pointer (mem M) p = Some q"
    using assms(2) by (auto simp: byte_pointer_def split: bind_splits)
  obtain p' where p': "data_address M b = Some p'" "drop_bit 12 p' = drop_bit 12 p" "take_bit 12 p' = take_bit 12 b"
    using data_address_page [OF assms(1) p(1) b] by blast
  then show ?thesis using ram_pointer_page [OF p(2) p'(2)] by (auto simp: byte_pointer_def)
qed

lemma byte_pointer_offset: "bats_built M \<Longrightarrow> byte_pointer M a = Some q \<Longrightarrow> take_bit 12 q = take_bit 12 a"
  using byte_pointer_page [of M a q a] by auto

lemma byte_pointer_add:
  assumes "bats_built M" and "byte_pointer M a = Some q" and i: "unat (take_bit 12 a) + i < 4096"
  shows "byte_pointer M (a + of_nat i) = Some (q + of_nat i)"
proof -
  have off: "take_bit 12 q = take_bit 12 a" by (rule byte_pointer_offset) fact+
  then have j: "unat (take_bit 12 q) + i < 4096" using i by simp
  obtain q' where q': "byte_pointer M (a + of_nat i) = Some q'" "drop_bit 12 q' = drop_bit 12 q" "take_bit 12 q' = take_bit 12 (a + of_nat i)"
    using byte_pointer_page [OF assms(1,2) add_in_page(1) [OF i]] by blast
  have "q' = q + of_nat i" by (rule byte_eqI) (use q'(2,3) off in \<open>simp_all only: add_in_page [OF i] add_in_page [OF j]\<close>)
  with q'(1) show ?thesis by simp
qed

subsection \<open>Stores\<close>

text \<open>A store gives the bytes of its range their values and changes no other byte of the memory and nothing else of the machine.\<close>

definition stored :: "u32 \<Rightarrow> u8 list \<Rightarrow> 'd Machine \<Rightarrow> 'd Machine \<Rightarrow> bool" where
  "stored a bs M M' \<longleftrightarrow> M' = M\<lparr>mem := mem M'\<rparr> \<and> ram_pointer (mem M') = ram_pointer (mem M) \<and>
     (\<forall>i < length bs. byte_at M' (a + of_nat i) = Some (bs ! i)) \<and>
     (\<forall>q. Some q \<notin> (\<lambda>i. byte_pointer M (a + of_nat i)) ` {..<length bs} \<longrightarrow> physical_base (mem M') q = physical_base (mem M) q)"

lemma stored_pointer: "stored a bs M M' \<Longrightarrow> byte_pointer M' = byte_pointer M"
proof -
  assume s: "stored a bs M M'"
  then have "M' = M\<lparr>mem := mem M'\<rparr>" by (simp add: stored_def)
  note same = mem_only [OF this]
  from s same show ?thesis by (intro byte_pointer_cong) (simp_all add: stored_def)
qed

lemma storedI:
  assumes "M' = M\<lparr>mem := mem M'\<rparr>" and rp: "ram_pointer (mem M') = ram_pointer (mem M)"
    and own: "\<And>i. i < length bs \<Longrightarrow> \<exists>q. byte_pointer M (a + of_nat i) = Some q \<and> physical_base (mem M') q = Some (bs ! i)"
    and other: "\<And>q. Some q \<notin> (\<lambda>i. byte_pointer M (a + of_nat i)) ` {..<length bs} \<Longrightarrow> physical_base (mem M') q = physical_base (mem M) q"
  shows "stored a bs M M'"
proof -
  have bp: "byte_pointer M' = byte_pointer M" using rp mem_only [OF assms(1)] by (intro byte_pointer_cong) simp_all
  show ?thesis unfolding stored_def
  proof (intro conjI allI impI)
    show "byte_at M' (a + of_nat i) = Some (bs ! i)" if "i < length bs" for i using own [OF that] by (auto simp: byte_at_def bp)
  qed (fact assms)+
qed

text \<open>Nor do the addresses that reach other bytes see a difference.\<close>

lemma stored_other:
  assumes "stored a bs M M'" and "byte_pointer M b \<notin> (\<lambda>i. byte_pointer M (a + of_nat i)) ` {..<length bs}"
  shows "byte_at M' b = byte_at M b"
  using assms by (cases "byte_pointer M b") (auto simp: byte_at_def stored_pointer [OF assms(1)], auto simp: stored_def)

lemma rev_le_bytes: "n \<le> 8 \<Longrightarrow> le_bytes n (bswap n v) = rev (le_bytes n v)"
  using le_bytes_value [of "rev (le_bytes n v)"] by (simp add: bswap_def)

definition bytes_mapped :: "'d Machine \<Rightarrow> u32 \<Rightarrow> nat \<Rightarrow> bool" where
  "bytes_mapped M a n \<longleftrightarrow> (\<forall>i < n. byte_at M (a + of_nat i) \<noteq> None)"

lemma bytes_mapped_pointer: "bytes_mapped M a n \<Longrightarrow> i < n \<Longrightarrow> \<exists>q. byte_pointer M (a + of_nat i) = Some q \<and> physical_base (mem M) q \<noteq> None"
  by (auto simp: bytes_mapped_def byte_at_def split: bind_splits)

lemma in_one_page_iff: "n \<le> 8 \<Longrightarrow> i < n \<Longrightarrow> \<not> crosses_page a n \<Longrightarrow> unat (take_bit 12 a) + i < 4096"
  by (simp add: crosses_page_def and_eq_bits)

lemma WritePhysical_stored:
  assumes "n \<le> 8" and m: "bytes_mapped M a n" and built: "bats_built M" and "\<not> crosses_page a n" and "0 < n" and p: "data_address M a = Some p"
  shows "\<exists>M'. WritePhysical hw flag n p v M = Inr M' \<and> stored a (rev (le_bytes n v)) M M'"
proof -
  obtain q where q: "byte_pointer M a = Some q" using bytes_mapped_pointer [OF m \<open>0 < n\<close>] by auto
  then have rp: "ram_pointer (mem M) p = Some q" by (simp add: byte_pointer_def p)
  have ptr: "byte_pointer M (a + of_nat i) = Some (q + of_nat i)" if "i < n" for i
    using byte_pointer_add [OF built q in_one_page_iff [OF assms(1) that assms(4)]] .
  let ?a = "patch q (rev (le_bytes n v)) (physical_base (mem M))"
  have "physical_base (mem M) (q + of_nat i) \<noteq> None" if "i < n" for i
    using bytes_mapped_pointer [OF m that] ptr [OF that] by auto
  then have w: "host_write n v q (mem M) = Inr ((mem M)\<lparr>physical_base := ?a\<rparr>)"
    using assms(1) by (simp add: host_write_Inr_iff rev_le_bytes)
  let ?M = "M\<lparr>mem := (mem M)\<lparr>physical_base := ?a\<rparr>\<rparr>"
  have "stored a (rev (le_bytes n v)) M ?M"
  proof (rule storedI)
    show "ram_pointer (mem ?M) = ram_pointer (mem M)" using ram_pointer_write [OF w assms(1)] by (simp add: fun_eq_iff)
    show "\<exists>q. byte_pointer M (a + of_nat i) = Some q \<and> physical_base (mem ?M) q = Some (rev (le_bytes n v) ! i)"
      if "i < length (rev (le_bytes n v))" for i
      using that assms(1) ptr [of i] by (simp add: patch_def unat_of_nat_u32)
    show "physical_base (mem ?M) x = physical_base (mem M) x"
      if "Some x \<notin> (\<lambda>i. byte_pointer M (a + of_nat i)) ` {..<length (rev (le_bytes n v))}" for x
    proof -
      have "\<not> unat (x - q) < n"
      proof
        assume l: "unat (x - q) < n"
        from ptr [OF l] have "byte_pointer M (a + of_nat (unat (x - q))) = Some x" by simp
        with that l show False by (metis imageI lessThan_iff length_rev length_le_bytes)
      qed
      then show ?thesis by (simp add: patch_def)
    qed
  qed simp
  moreover have "WritePhysical hw flag n p v M = Inr ?M" using w by (simp add: WritePhysical_ram [OF rp])
  ultimately show ?thesis by blast
qed

lemma write_each_total:
  assumes "\<forall>a \<in> fst ` set xs. \<exists>p. ram_pointer (mem M) a = Some p \<and> physical_base (mem M) p \<noteq> None"
  shows "\<exists>M'. write_each hw flag xs M = Inr M'"
  using assms
proof (induction xs arbitrary: M)
  case (Cons x xs)
  obtain a b where x: "x = (a, b)" by (cases x)
  obtain p where p: "ram_pointer (mem M) a = Some p" "physical_base (mem M) p \<noteq> None" using Cons.prems by (auto simp: x)
  let ?m = "(mem M)\<lparr>physical_base := (physical_base (mem M))(p \<mapsto> ucast (ucast b :: u64))\<rparr>"
  have w: "host_write 1 (ucast b) p (mem M) = Inr ?m" using p(2) by (simp add: host_write_1 del: One_nat_def)
  then have "WritePhysical hw flag 1 a (ucast b) M = Inr (M\<lparr>mem := ?m\<rparr>)" by (simp add: WritePhysical_ram [OF p(1)] del: One_nat_def)
  moreover have "\<exists>M'. write_each hw flag xs (M\<lparr>mem := ?m\<rparr>) = Inr M'"
  proof (rule Cons.IH, intro ballI)
    fix c assume "c \<in> fst ` set xs"
    then obtain q where "ram_pointer (mem M) c = Some q" "physical_base (mem M) q \<noteq> None" using Cons.prems by auto
    then show "\<exists>p. ram_pointer (mem (M\<lparr>mem := ?m\<rparr>)) c = Some p \<and> physical_base (mem (M\<lparr>mem := ?m\<rparr>)) p \<noteq> None"
      using ram_pointer_write [OF w] by auto
  qed
  ultimately show ?case by (simp add: x del: One_nat_def)
qed simp

text \<open>The pointers of the bytes of an access that crosses a page.\<close>

lemma byte_addr_pointer:
  assumes built: "bats_built M" and "data_address M a = Some p" and "data_address M b = Some p2"
    and "byte_pointer M a \<noteq> None" and "byte_pointer M b \<noteq> None"
    and d: "d = 4096 - unat (take_bit 12 a)" "b = a + of_nat d" "take_bit 12 b = 0" and j: "j < n" "n \<le> 8"
  shows "byte_pointer M (a + of_nat j) = ram_pointer (mem M) (byte_addr p p2 d j)"
proof -
  have page: "byte_pointer M (x + of_nat i) = ram_pointer (mem M) (y + of_nat i)"
    if x: "data_address M x = Some y" "byte_pointer M x \<noteq> None" and i: "unat (take_bit 12 x) + i < 4096" for x y i
  proof -
    have "take_bit 12 y = take_bit 12 x" "drop_bit 12 y = drop_bit 12 y"
      using data_address_page [OF built x(1) refl] x(1) by auto
    then have i': "unat (take_bit 12 y) + i < 4096" using i by simp
    obtain z where z: "data_address M (x + of_nat i) = Some z" "drop_bit 12 z = drop_bit 12 y" "take_bit 12 z = take_bit 12 (x + of_nat i)"
      using data_address_page [OF built x(1) add_in_page(1) [OF i]] by blast
    have "z = y + of_nat i"
      by (rule byte_eqI) (use z(2,3) \<open>take_bit 12 y = take_bit 12 x\<close> in \<open>simp_all only: add_in_page [OF i] add_in_page [OF i']\<close>)
    with z(1) show ?thesis by (simp add: byte_pointer_def)
  qed
  show ?thesis
  proof (cases "j < d")
    case True
    then show ?thesis using page [OF assms(2,4)] d(1) by (simp add: byte_addr_def)
  next
    case False
    then have e: "a + of_nat j = b + of_nat (j - d)" by (simp add: d(2) of_nat_diff)
    have "unat (take_bit 12 b) + (j - d) < 4096" using d(3) j by simp
    from page [OF assms(3,5) this] show ?thesis using False unfolding e byte_addr_def by (simp only: if_False)
  qed
qed

lemma goes_to_ram_address: "byte_pointer M a \<noteq> None \<Longrightarrow> \<exists>p. data_address M a = Some p \<and> in_ram (mem M) p"
  by (auto simp: byte_pointer_def in_ram_def split: bind_splits)

lemma translate_data:
  "data_address M a = Some p \<Longrightarrow> MSR_DR (ppc M) \<Longrightarrow> \<not> IsOpcodeFlag flag \<Longrightarrow> translate flag a M = Inr (BAT_TRANSLATED p, M)"
  using translate_bat by (simp add: data_address_def)

definition access_ok :: "'d Machine \<Rightarrow> u32 \<Rightarrow> nat \<Rightarrow> bool" where
  "access_ok M a n \<longleftrightarrow> n \<in> {1, 2, 4, 8} \<and> unat a + n \<le> 2 ^ 32 \<and> bats_built M \<and> bytes_mapped M a n \<and>
     (crosses_page a n \<longrightarrow> MSR_DR (ppc M))"

lemma crossing_bytes:
  assumes "access_ok M a n" and cross: "crosses_page a n"
  obtains p p2 d where "data_address M a = Some p" and "data_address M (next_page_of a n) = Some p2" and "unat (next_page_of a n) = unat a + d"
    and "0 < d" and "d < n" and "unat a + n < 2 ^ 32"
    and "\<And>j. j < n \<Longrightarrow> byte_pointer M (a + of_nat j) = ram_pointer (mem M) (byte_addr p p2 d j)"
    and "distinct (map (\<lambda>j. ram_pointer (mem M) (byte_addr p p2 d j)) [0..<n])"
proof -
  have n8: "n \<le> 8" "0 < n" and top: "unat a + n \<le> 2 ^ 32" and built: "bats_built M" and m: "bytes_mapped M a n"
    using assms(1) by (auto simp: access_ok_def)
  let ?d = "4096 - unat (take_bit 12 a)" and ?b = "next_page_of a n"
  note np = next_page_props [OF cross n8(1) top]
  have b: "?b = a + of_nat ?d"
  proof (rule word_unat_eqI)
    have "unat (of_nat ?d :: u32) = ?d" using np(4) n8 by (intro unat_of_nat_u32) simp
    moreover have "unat a + ?d < 2 ^ 32" using np(1) unsigned_less [of ?b, where ?'a = nat] by simp
    ultimately have "unat (a + of_nat ?d) = unat a + ?d" by (simp only: unat_word_ariths) simp
    then show "unat ?b = unat (a + of_nat ?d)" by (simp only: np(1))
  qed
  have pa: "byte_pointer M a \<noteq> None" using bytes_mapped_pointer [OF m n8(2)] by auto
  have pb: "byte_pointer M ?b \<noteq> None" using bytes_mapped_pointer [OF m np(4)] b by auto
  obtain p where p: "data_address M a = Some p" "in_ram (mem M) p" using goes_to_ram_address [OF pa] by blast
  obtain p2 where p2: "data_address M ?b = Some p2" "in_ram (mem M) p2" using goes_to_ram_address [OF pb] by blast
  have off: "take_bit 12 p = take_bit 12 a" "take_bit 12 p2 = 0"
    using data_address_page [OF built p(1) refl] data_address_page [OF built p2(1) refl] p(1) p2(1) np(2) by auto
  show thesis
    by (rule that [OF p(1) p2(1) np(1,3,4,5) byte_addr_pointer [OF built p(1) p2(1) pa pb refl b np(2) _ n8(1)]
          byte_pointers_distinct(2) [OF off refl np(4) n8(1) p(2) p2(2)]])
qed

lemma hardware_write:
  assumes ok: "access_ok M a n" and flag: "\<not> IsOpcodeFlag flag"
  shows "\<exists>M'. WriteToHardware hw flag n a v M = Inr M' \<and> stored a (rev (le_bytes n v)) M M'"
proof -
  have n: "n \<in> {1, 2, 4, 8}" "n \<le> 8" "0 < n" and built: "bats_built M" and m: "bytes_mapped M a n"
    and dr: "crosses_page a n \<Longrightarrow> MSR_DR (ppc M)" using ok by (auto simp: access_ok_def)
  show ?thesis
  proof (cases "crosses_page a n")
    case False
    have pa: "byte_pointer M a \<noteq> None" using bytes_mapped_pointer [OF m n(3)] by auto
    obtain p where p: "data_address M a = Some p" using goes_to_ram_address [OF pa] by blast
    have "WriteToHardware hw flag n a v M = WritePhysical hw flag n p v M"
      using False p translate_data [OF p _ flag] by (auto simp: WriteToHardware_def data_address_def split: if_splits)
    with WritePhysical_stored [OF n(2) m built False n(3) p] show ?thesis by simp
  next
    case True
    show ?thesis
    proof (rule crossing_bytes [OF ok True], goal_cases)
      case (1 p p2 d)
      let ?val = "bswap n v"
      let ?xs = "map (\<lambda>j. (byte_addr p p2 d j, ucast (drop_bit (j * 8) ?val) :: u8)) [0..<n]"
      have a0: "byte_addr p p2 d 0 = p" using 1(4) by (simp add: byte_addr_def)
      have "WriteToHardware hw flag n a v M = write_page_bytes hw flag n a (next_page_of a n) p2 ?val 0 p M"
        using dr [OF True] True crosses_unaligned [OF True n(1)] translate_data [OF 1(1) _ flag] translate_data [OF 1(2) _ flag]
        by (simp add: WriteToHardware_def)
      also have "\<dots> = write_each hw flag ?xs M" by (simp add: write_page_bytes_each [OF 1(3) a0 [symmetric], where k = n])
      finally have w: "WriteToHardware hw flag n a v M = write_each hw flag ?xs M" .
      have ptr: "\<exists>q. ram_pointer (mem M) (byte_addr p p2 d j) = Some q \<and> physical_base (mem M) q \<noteq> None" if "j < n" for j
        using bytes_mapped_pointer [OF m that] 1(7) [OF that] by auto
      then obtain M' where M': "write_each hw flag ?xs M = Inr M'" using write_each_total [of ?xs M hw flag] by auto
      have eff: "M' = M\<lparr>mem := mem M'\<rparr> \<and> ram_pointer (mem M') = ram_pointer (mem M) \<and>
          (\<forall>(a, b) \<in> set ?xs. physical_base (mem M') (the (ram_pointer (mem M) a)) = Some b) \<and>
          (\<forall>q. q \<notin> (\<lambda>x. the (ram_pointer (mem M) (fst x))) ` set ?xs \<longrightarrow> physical_base (mem M') q = physical_base (mem M) q)"
      proof (rule write_each_effect [OF M'])
        show "\<forall>c \<in> fst ` set ?xs. in_ram (mem M) c" using ptr by (fastforce simp: in_ram_def)
        show "distinct (map (ram_pointer (mem M) \<circ> fst) ?xs)" using 1(8) by (simp add: comp_def)
      qed
      have "stored a (rev (le_bytes n v)) M M'"
      proof (rule storedI)
        show "M' = M\<lparr>mem := mem M'\<rparr>" "ram_pointer (mem M') = ram_pointer (mem M)" using eff by blast+
        show "\<exists>q. byte_pointer M (a + of_nat i) = Some q \<and> physical_base (mem M') q = Some (rev (le_bytes n v) ! i)"
          if "i < length (rev (le_bytes n v))" for i
        proof -
          have i: "i < n" using that by simp
          obtain q where q: "ram_pointer (mem M) (byte_addr p p2 d i) = Some q" using ptr [OF i] by blast
          have "(byte_addr p p2 d i, ucast (drop_bit (i * 8) ?val)) \<in> set ?xs" using i by auto
          then have "physical_base (mem M') q = Some (ucast (drop_bit (i * 8) ?val))" using eff q by fastforce
          moreover have "ucast (drop_bit (i * 8) ?val) = rev (le_bytes n v) ! i"
            using i n(2) by (simp only: nth_le_bytes [symmetric] rev_le_bytes)
          ultimately show ?thesis using 1(7) [OF i] q by simp
        qed
        show "physical_base (mem M') q = physical_base (mem M) q"
          if nq: "Some q \<notin> (\<lambda>i. byte_pointer M (a + of_nat i)) ` {..<length (rev (le_bytes n v))}" for q
        proof -
          have "q \<noteq> the (ram_pointer (mem M) (byte_addr p p2 d j))" if "j < n" for j
            using nq ptr [OF that] 1(7) [OF that] that by force
          then have "q \<notin> (\<lambda>x. the (ram_pointer (mem M) (fst x))) ` set ?xs" by fastforce
          with eff show ?thesis by blast
        qed
      qed
      with w M' show ?case by simp
    qed
  qed
qed

subsection \<open>Loads\<close>

lemma hardware_read:
  assumes ok: "access_ok M a n" and flag: "\<not> IsOpcodeFlag flag" and bs: "length bs = n" "\<And>i. i < n \<Longrightarrow> byte_at M (a + of_nat i) = Some (bs ! i)"
  shows "ReadFromHardware hw flag n a M = Inr (le_value (rev bs), M)"
proof -
  have n: "n \<in> {1, 2, 4, 8}" "n \<le> 8" "0 < n" and built: "bats_built M" and m: "bytes_mapped M a n"
    and dr: "crosses_page a n \<Longrightarrow> MSR_DR (ppc M)" using ok by (auto simp: access_ok_def)
  show ?thesis
  proof (cases "crosses_page a n")
    case False
    obtain q where q: "byte_pointer M a = Some q" using bytes_mapped_pointer [OF m n(3)] by auto
    then obtain p where p: "data_address M a = Some p" and rp: "ram_pointer (mem M) p = Some q"
      by (auto simp: byte_pointer_def split: bind_splits)
    have ptr: "byte_pointer M (a + of_nat i) = Some (q + of_nat i)" if "i < n" for i
      using byte_pointer_add [OF built q in_one_page_iff [OF n(2) that False]] .
    have "load_bytes n q (physical_base (mem M)) = Inr bs"
      unfolding load_bytes_Inr_iff using bs ptr by (auto simp: byte_at_def)
    moreover have "bswap n (le_value bs) = le_value (rev bs)" using bs(1) n(2) le_bytes_value [of bs] by (simp add: bswap_def)
    ultimately have "ReadPhysical hw flag n p M = Inr (le_value (rev bs), M)"
      by (simp add: ReadPhysical_ram [OF rp] host_read_def)
    moreover have "ReadFromHardware hw flag n a M = ReadPhysical hw flag n p M"
      using False p translate_data [OF p _ flag] by (auto simp: ReadFromHardware_def data_address_def split: if_splits)
    ultimately show ?thesis by simp
  next
    case True
    show ?thesis
    proof (rule crossing_bytes [OF ok True], goal_cases)
      case (1 p p2 d)
      have a0: "byte_addr p p2 d 0 = p" using 1(4) by (simp add: byte_addr_def)
      have "\<exists>q. ram_pointer (mem M) (byte_addr p p2 d i) = Some q \<and> physical_base (mem M) q = Some (bs ! i)" if "i < n" for i
        using bs(2) [OF that] 1(7) [OF that] by (auto simp: byte_at_def split: bind_splits)
      then have "list_all2 (\<lambda>a b. \<exists>q. ram_pointer (mem M) a = Some q \<and> physical_base (mem M) q = Some b) (map (byte_addr p p2 d) [0..<n]) bs"
        using bs(1) by (simp add: list_all2_conv_all_nth)
      then have "read_each hw flag (map (byte_addr p p2 d) [0..<n]) 0 M = Inr (le_value (rev bs), M)"
        using read_each_value fold_bytes [of "rev bs"] by fastforce
      then have "read_page_bytes hw flag (unat a + n) (next_page_of a n) p2 a p 0 M = Some (Inr (le_value (rev bs), M))"
        using read_page_bytes_each [OF 1(3) a0 [symmetric], where k = n and hw = hw and flag = flag and var = 0 and M = M] 1(6) by simp
      then show ?case
        using dr [OF True] True translate_data [OF 1(1) _ flag] translate_data [OF 1(2) _ flag] by (simp add: ReadFromHardware_def returned_def)
    qed
  qed
qed

end
