(* ===== verification/PPC_LoadStoreProps.thy ===== *)
theory PPC_LoadStoreProps
  imports PPC_LoadStore PPC_Bytes
begin

text \<open>
  What the load and store instructions do with the bytes of memory: pairs of a store and a load, the instructions for several words and
  for strings, faults, the reservation and the clearing of cache lines.
\<close>

unbundle bit_operations_syntax

subsection \<open>Accesses without breakpoints\<close>

lemma Memcheck_none [simp]: "memchecks M = [] \<Longrightarrow> Memcheck a w n M = M"
  by (simp add: Memcheck_def GetMemCheck_def)

lemma PowerPC_Write_stored:
  "access_ok M a n \<Longrightarrow> memchecks M = [] \<Longrightarrow> \<exists>M'. PowerPC_Write hw n v a M = Inr M' \<and> stored a (rev (le_bytes n v)) M M'"
  using hardware_write [of M a n FLAG_WRITE hw v] by (simp add: PowerPC_Write_def IsOpcodeFlag_def)

lemma PowerPC_Read_bytes:
  assumes "access_ok M a n" and "memchecks M = []" and "length bs = n" and "\<And>i. i < n \<Longrightarrow> byte_at M (a + of_nat i) = Some (bs ! i)"
  shows "PowerPC_Read hw n a M = Inr (le_value (rev bs), M)"
  using hardware_read [OF assms(1) _ assms(3,4), of FLAG_READ hw] assms(2) by (simp add: PowerPC_Read_def IsOpcodeFlag_def)

lemma stored_same:
  assumes "stored a bs M M'"
  shows "ppc M' = ppc M" and "mmu M' = mmu M" and "ps M' = ps M" and "memchecks M' = memchecks M" and "pending_DSI M' = pending_DSI M"
    and "m_reserve M' = m_reserve M" and "m_reserve_address M' = m_reserve_address M"
proof -
  have e: "M' = M\<lparr>mem := mem M'\<rparr>" using assms by (simp add: stored_def)
  show "ppc M' = ppc M" "mmu M' = mmu M" "ps M' = ps M" "memchecks M' = memchecks M" using mem_only [OF e] by simp_all
  then show "pending_DSI M' = pending_DSI M" by (simp add: pending_DSI_def)
  show "m_reserve M' = m_reserve M" "m_reserve_address M' = m_reserve_address M" by (subst e, simp)+
qed

lemma stored_byte: "stored a bs M M' \<Longrightarrow> i < length bs \<Longrightarrow> byte_at M' (a + of_nat i) = Some (bs ! i)"
  by (simp add: stored_def)

lemma stored_mapped: "stored a bs M M' \<Longrightarrow> byte_at M b \<noteq> None \<Longrightarrow> byte_at M' b \<noteq> None"
proof (cases "byte_pointer M b \<in> (\<lambda>i. byte_pointer M (a + of_nat i)) ` {..<length bs}")
  case True
  assume s: "stored a bs M M'"
  from True obtain i where i: "i < length bs" "byte_pointer M b = byte_pointer M (a + of_nat i)" by auto
  then have "byte_at M' b = byte_at M' (a + of_nat i)" by (simp add: byte_at_def stored_pointer [OF s])
  with stored_byte [OF s i(1)] show ?thesis by simp
qed (simp add: stored_other)

lemma stored_access_ok: "stored a bs M M' \<Longrightarrow> access_ok M x n \<Longrightarrow> access_ok M' x n"
  using stored_same [of a bs M M'] stored_mapped [of a bs M M'] by (auto simp: access_ok_def bytes_mapped_def bats_built_def)

lemma stored_append:
  assumes 1: "stored a bs M M1" and 2: "stored (a + of_nat (length bs)) cs M1 M2"
    and inj: "inj_on (\<lambda>i. byte_pointer M (a + of_nat i)) {..<length bs + length cs}"
  shows "stored a (bs @ cs) M M2"
proof -
  have e: "M1 = M\<lparr>mem := mem M1\<rparr>" "M2 = M1\<lparr>mem := mem M2\<rparr>" using 1 2 by (simp_all add: stored_def)
  have "M1\<lparr>mem := m\<rparr> = M\<lparr>mem := m\<rparr>" for m by (subst e(1)) simp
  with e(2) have e3: "M2 = M\<lparr>mem := mem M2\<rparr>" by simp
  have bp: "byte_pointer M1 = byte_pointer M" by (rule stored_pointer [OF 1])
  have addr: "a + of_nat (length bs) + of_nat i = a + of_nat (length bs + i)" for i by simp
  have split: "{..<length (bs @ cs)} = {..<length bs} \<union> (\<lambda>i. length bs + i) ` {..<length cs}"
  proof (intro set_eqI iffI)
    fix x assume "x \<in> {..<length (bs @ cs)}"
    then show "x \<in> {..<length bs} \<union> (\<lambda>i. length bs + i) ` {..<length cs}"
      by (cases "x < length bs") (auto intro!: image_eqI [where x = "x - length bs"])
  qed auto
  show ?thesis unfolding stored_def
  proof (intro conjI allI impI)
    show "M2 = M\<lparr>mem := mem M2\<rparr>" by (rule e3)
    show "ram_pointer (mem M2) = ram_pointer (mem M)" using 1 2 by (simp add: stored_def)
    show "byte_at M2 (a + of_nat i) = Some ((bs @ cs) ! i)" if i: "i < length (bs @ cs)" for i
    proof (cases "i < length bs")
      case True
      have "byte_pointer M (a + of_nat i) \<noteq> byte_pointer M (a + of_nat (length bs + j))" if "j < length cs" for j
        using inj_onD [OF inj, of i "length bs + j"] True that by auto
      then have "byte_at M2 (a + of_nat i) = byte_at M1 (a + of_nat i)" 
        using stored_other [OF 2, of "a + of_nat i"] unfolding bp addr by auto
      with True show ?thesis using stored_byte [OF 1 True] by (simp add: nth_append)
    next
      case False
      with stored_byte [OF 2, of "i - length bs"] i show ?thesis unfolding addr by (auto simp: nth_append)
    qed
    show "physical_base (mem M2) q = physical_base (mem M) q" if b: "Some q \<notin> (\<lambda>i. byte_pointer M (a + of_nat i)) ` {..<length (bs @ cs)}" for q
    proof -
      have "Some q \<notin> (\<lambda>i. byte_pointer M (a + of_nat i)) ` {..<length bs}"
        "Some q \<notin> (\<lambda>i. byte_pointer M (a + of_nat (length bs + i))) ` {..<length cs}"
        using b unfolding split image_Un image_image by blast+
      then show ?thesis using 1 2 unfolding stored_def bp addr by simp
    qed
  qed
qed

lemma stored_Nil: "stored a [] M M" by (simp add: stored_def)

subsection \<open>Several words\<close>

text \<open>A machine whose general registers have been overwritten.\<close>

definition with_gpr :: "(nat \<Rightarrow> u32) \<Rightarrow> 'd Machine \<Rightarrow> 'd Machine" where
  "with_gpr g M = M\<lparr>ppc := (ppc M)\<lparr>gpr := g\<rparr>\<rparr>"

lemma with_gpr_simps [simp]:
  "byte_at (with_gpr g M) = byte_at M" "byte_pointer (with_gpr g M) = byte_pointer M" "access_ok (with_gpr g M) = access_ok M"
  "memchecks (with_gpr g M) = memchecks M" "pending_DSI (with_gpr g M) = pending_DSI M" "gpr (ppc (with_gpr g M)) = g"
  "m_reserve (with_gpr g M) = m_reserve M" "m_reserve_address (with_gpr g M) = m_reserve_address M"
  "mem (with_gpr g M) = mem M" "mmu (with_gpr g M) = mmu M" "ps (with_gpr g M) = ps M"
  by (simp_all add: with_gpr_def fun_eq_iff byte_at_def byte_pointer_def data_address_def access_ok_def bytes_mapped_def bats_built_def
      MSR_DR_def pending_DSI_def)

lemma with_gpr_same [simp]: "with_gpr (gpr (ppc M)) M = M"
  by (simp add: with_gpr_def)

definition be_bytes :: "u32 \<Rightarrow> u8 list" where "be_bytes w = rev (le_bytes 4 (ucast w))"

lemma length_be_bytes [simp]: "length (be_bytes w) = 4" by (simp add: be_bytes_def)

lemma u32_u64 [simp]: "(ucast (ucast w :: u64) :: u32) = w" "take_bit 32 (ucast w :: u64) = ucast w" for w :: u32
  by (rule bit_word_eqI; auto simp: bit_simps dest: bit_imp_le_length)+

lemma be_bytes_value: "le_value (rev (be_bytes w)) = ucast w"
  by (simp add: be_bytes_def le_value_bytes)

definition words_ok :: "'d Machine \<Rightarrow> u32 \<Rightarrow> nat \<Rightarrow> bool" where
  "words_ok M a k \<longleftrightarrow> (\<forall>i < k. access_ok M (a + of_nat (4 * i)) 4) \<and> inj_on (\<lambda>i. byte_pointer M (a + of_nat i)) {..<4 * k}"

definition register_bytes :: "(nat \<Rightarrow> u32) \<Rightarrow> nat \<Rightarrow> nat \<Rightarrow> u8 list" where
  "register_bytes g r k = map (\<lambda>i. be_bytes (g (r + i div 4)) ! (i mod 4)) [0..<4 * k]"

lemma length_register_bytes [simp]: "length (register_bytes g r k) = 4 * k"
  by (simp add: register_bytes_def)

lemma register_bytes_Suc: "register_bytes g r (Suc k) = be_bytes (g r) @ register_bytes g (Suc r) k"
proof (rule nth_equalityI)
  fix i assume "i < length (register_bytes g r (Suc k))"
  then have "i < 4 + 4 * k" by simp
  moreover have "(i - 4) div 4 = i div 4 - 1" "(i - 4) mod 4 = i mod 4" "i div 4 \<noteq> 0" if "\<not> i < 4"
    using that le_div_geq [of 4 i] le_mod_geq [of 4 i] by auto
  ultimately show "register_bytes g r (Suc k) ! i = (be_bytes (g r) @ register_bytes g (Suc r) k) ! i"
    by (cases "i < 4") (auto simp: register_bytes_def nth_append)
qed simp

lemma words_ok_with_gpr [simp]: "words_ok (with_gpr g M) a k = words_ok M a k"
  by (simp add: words_ok_def)

lemma words_ok_Suc: "words_ok M a (Suc k) \<Longrightarrow> access_ok M a 4 \<and> words_ok M (a + 4) k"
proof -
  assume ok: "words_ok M a (Suc k)"
  have "access_ok M (a + 4 + of_nat (4 * i)) 4" if "i < k" for i
    using ok that by (simp add: words_ok_def) (metis Suc_less_eq ab_semigroup_add_class.add_ac(1) mult_Suc_right of_nat_Suc of_nat_add of_nat_mult of_nat_numeral)
  moreover have "inj_on (\<lambda>i. byte_pointer M (a + 4 + of_nat i)) {..<4 * k}"
  proof (rule inj_onI)
    fix i j assume i: "i \<in> {..<4 * k}" and j: "j \<in> {..<4 * k}" and eq: "byte_pointer M (a + 4 + of_nat i) = byte_pointer M (a + 4 + of_nat j)"
    have "a + 4 + of_nat x = a + of_nat (4 + x)" for x by simp
    with eq ok i j have "4 + i = 4 + j" unfolding words_ok_def by (intro inj_onD [of "\<lambda>i. byte_pointer M (a + of_nat i)" "{..<4 * Suc k}"]) auto
    then show "i = j" by simp
  qed
  ultimately show ?thesis using ok by (auto simp: words_ok_def)
qed

lemma words_ok_stored: "stored b bs M M' \<Longrightarrow> words_ok M a k \<Longrightarrow> words_ok M' a k"
  by (auto simp: words_ok_def stored_pointer stored_access_ok)

lemma stmw_loop_stores:
  assumes "words_ok M a k" and "memchecks M = []" and "\<not> pending_DSI M"
  shows "\<exists>M'. stmw_loop hw k r a M = Inr M' \<and> stored a (register_bytes (gpr (ppc M)) r k) M M'"
  using assms
proof (induction k arbitrary: r a M)
  case 0
  then show ?case by (simp add: register_bytes_def stored_Nil)
next
  case (Suc k)
  note ok = words_ok_Suc [OF Suc.prems(1)]
  obtain M1 where w: "PowerPC_Write hw 4 (ucast (gpr (ppc M) r)) a M = Inr M1" and s: "stored a (be_bytes (gpr (ppc M) r)) M M1"
    using PowerPC_Write_stored [OF _ Suc.prems(2), of a 4 hw "ucast (gpr (ppc M) r)"] ok by (auto simp: be_bytes_def)
  note same = stored_same [OF s]
  obtain M' where M': "stmw_loop hw k (Suc r) (a + 4) M1 = Inr M'" and s2: "stored (a + 4) (register_bytes (gpr (ppc M)) (Suc r) k) M1 M'"
    using Suc.IH [OF words_ok_stored [OF s, of "a + 4" k], of "Suc r"] ok Suc.prems same by auto
  have "stored a (be_bytes (gpr (ppc M) r) @ register_bytes (gpr (ppc M)) (Suc r) k) M M'"
    using Suc.prems(1) s2 by (intro stored_append [OF s]) (simp_all add: words_ok_def)
  then show ?case using w M' same Suc.prems(3) by (simp add: register_bytes_Suc)
qed

lemma lmw_loop_loads:
  assumes "words_ok M a k" and "memchecks M = []" and "\<not> pending_DSI M" and "\<And>i. i < 4 * k \<Longrightarrow> byte_at M (a + of_nat i) = Some (register_bytes f r k ! i)"
  shows "lmw_loop hw k r a M = Inr (with_gpr (\<lambda>j. if r \<le> j \<and> j < r + k then f j else gpr (ppc M) j) M)"
  using assms
proof (induction k arbitrary: r a M)
  case (0 r a M)
  have "(\<lambda>j. if r \<le> j \<and> j < r + 0 then f j else gpr (ppc M) j) = gpr (ppc M)" by (rule ext) auto
  then show ?case by simp
next
  case (Suc k)
  note ok = words_ok_Suc [OF Suc.prems(1)]
  have "byte_at M (a + of_nat i) = Some (be_bytes (f r) ! i)" if "i < 4" for i
    using Suc.prems(4) [of i] that by (simp add: register_bytes_Suc nth_append)
  then have rd: "PowerPC_Read hw 4 a M = Inr (ucast (f r), M)"
    using PowerPC_Read_bytes [OF conjunct1 [OF ok] Suc.prems(2), of "be_bytes (f r)" hw] by (simp add: be_bytes_value)
  let ?M = "put_gpr r (f r) M"
  have same: "byte_at ?M = byte_at M" "byte_pointer ?M = byte_pointer M" "access_ok ?M = access_ok M"
    by (simp_all add: fun_eq_iff put_gpr_def set_gpr_def byte_at_def byte_pointer_def data_address_def access_ok_def bytes_mapped_def bats_built_def MSR_DR_def)
  have "lmw_loop hw k (Suc r) (a + 4) ?M = Inr (with_gpr (\<lambda>j. if Suc r \<le> j \<and> j < Suc r + k then f j else gpr (ppc ?M) j) ?M)"
  proof (rule Suc.IH)
    show "words_ok ?M (a + 4) k" using ok by (simp add: words_ok_def same)
    show "memchecks ?M = []" "\<not> pending_DSI ?M" using Suc.prems by (simp_all add: put_gpr_def set_gpr_def pending_DSI_def)
    show "byte_at ?M (a + 4 + of_nat i) = Some (register_bytes f (Suc r) k ! i)" if "i < 4 * k" for i
      using Suc.prems(4) [of "4 + i"] that by (simp add: same register_bytes_Suc nth_append add.assoc)
  qed
  moreover have "(\<lambda>j. if Suc r \<le> j \<and> j < Suc r + k then f j else gpr (ppc ?M) j) = (\<lambda>j. if r \<le> j \<and> j < r + Suc k then f j else gpr (ppc M) j)"
    by (auto simp: put_gpr_def set_gpr_def fun_eq_iff)
  moreover have "with_gpr g ?M = with_gpr g M" for g by (simp add: put_gpr_def set_gpr_def with_gpr_def)
  ultimately show ?case using rd Suc.prems(3) by (simp add: load_then_def)
qed

text \<open>
  C12. The registers a function saves come back: \<open>stmw\<close> to a range of words in memory, aligned or not, over any number of pages, whose bytes are
  distinct, returns, stores exactly the bytes of the registers there and changes no other byte of the memory and nothing else of the machine; and \<open>lmw\<close> from the same address, whatever the registers hold by then, returns and gives
  each of the registers its old value.
\<close>

theorem store_multiple_load_multiple:
  assumes "words_ok M (Helper_Get_EA inst M) (32 - RS inst)" and "memchecks M = []" and "\<not> pending_DSI M"
    and "RA inst = 0 \<or> g (RA inst) = gpr (ppc M) (RA inst)"
  shows "\<exists>M1. stmw hw inst M = Inr M1 \<and> stored (Helper_Get_EA inst M) (register_bytes (gpr (ppc M)) (RS inst) (32 - RS inst)) M M1 \<and>
    lmw hw inst (with_gpr g M1) = Inr (with_gpr (\<lambda>k. if RS inst \<le> k \<and> k < 32 then gpr (ppc M) k else g k) M1)"
proof -
  let ?a = "Helper_Get_EA inst M" and ?r = "RS inst"
  have r: "RD inst = ?r" "?r < 32" by (simp_all add: RD_def RS_def bit_field_def unat_take_bit)
  obtain M1 where M1: "stmw hw inst M = Inr M1" and s: "stored ?a (register_bytes (gpr (ppc M)) ?r (32 - ?r)) M M1"
    using stmw_loop_stores [OF assms(1-3), of hw "RS inst"] by (auto simp: stmw_def)
  note same = stored_same [OF s]
  have ea: "Helper_Get_EA inst (with_gpr g M1) = ?a" using assms(4) by (auto simp: Helper_Get_EA_def)
  have "lmw_loop hw (32 - ?r) ?r ?a (with_gpr g M1) =
      Inr (with_gpr (\<lambda>j. if ?r \<le> j \<and> j < ?r + (32 - ?r) then gpr (ppc M) j else gpr (ppc (with_gpr g M1)) j) (with_gpr g M1))"
    using words_ok_stored [OF s assms(1)] assms(2,3) same stored_byte [OF s] by (intro lmw_loop_loads) simp_all
  moreover have "with_gpr h (with_gpr g M1) = with_gpr h M1" for h by (simp add: with_gpr_def)
  ultimately have "lmw hw inst (with_gpr g M1) = Inr (with_gpr (\<lambda>k. if ?r \<le> k \<and> k < 32 then gpr (ppc M) k else g k) M1)"
    using r by (simp add: lmw_def ea cong: if_cong)
  with M1 s show ?thesis by blast
qed

text \<open>The addresses of a test machine that its block translation maps.\<close>

lemma mem_ok_byte: "mem_ok (mem M) \<Longrightarrow> byte_pointer M a = Some q \<Longrightarrow> byte_at M a \<noteq> None"
  using ram_pointer_mapped [of "mem M"] by (auto simp: byte_at_def byte_pointer_def mem_ok_def split: bind_splits)

lemma machine_test_byte:
  assumes "i < 0x2000"
  shows "byte_pointer machine_test (0x80000000 + of_nat i) = Some (of_nat i)" and "byte_at machine_test (0x80000000 + of_nat i) \<noteq> None"
proof -
  let ?a = "0x80000000 + of_nat i :: u32"
  have i: "unat (of_nat i :: u32) = i" using assms by (intro unat_of_nat_u32) simp
  have a: "unat ?a = 0x80000000 + i" using assms by (simp add: unat_word_ariths i)
  have "drop_bit 28 ?a = 8" unfolding drop_bit_eq_numeral a using assms by simp
  moreover have t: "take_bit 28 ?a = of_nat i" 
  proof (rule word_unat_eqI)
    have "(0x80000000 + i) mod 0x10000000 = i" by (rule mod_nat_eqI) (use assms in simp_all)
    then show "unat (take_bit 28 ?a) = unat (of_nat i :: u32)" by (simp add: unat_take_bit a i)
  qed
  ultimately have d: "data_address machine_test ?a = Some (of_nat i)" by (simp add: machine_test_address)
  have "drop_bit 27 (of_nat i :: u32) = 0" "take_bit 25 (of_nat i :: u32) = of_nat i"
    using assms by (intro word_unat_eqI, simp add: unat_drop_u32 i, intro word_unat_eqI, simp add: unat_take_bit i)
  then have "ram_pointer (mem machine_test) (of_nat i) = Some (of_nat i)" by (simp add: ram_pointer_eq)
  with d show p: "byte_pointer machine_test ?a = Some (of_nat i)" by (simp add: byte_pointer_def)
  show "byte_at machine_test ?a \<noteq> None" by (rule mem_ok_byte [OF _ p]) (use machine_test_ok(1) in \<open>simp add: host_ok_def\<close>)
qed

lemma machine_test_access: "n \<in> {1, 2, 4, 8} \<Longrightarrow> i + n \<le> 0x2000 \<Longrightarrow> access_ok machine_test (0x80000000 + of_nat i) n"
proof -
  assume n: "n \<in> {1, 2, 4, 8}" and i: "i + n \<le> 0x2000"
  have "unat (of_nat i :: u32) = i" using i by (intro unat_of_nat_u32) simp
  then have "unat (0x80000000 + of_nat i :: u32) = 0x80000000 + i" using i by (simp add: unat_word_ariths)
  moreover have "bytes_mapped machine_test (0x80000000 + of_nat i) n" unfolding bytes_mapped_def
  proof (intro allI impI)
    fix j assume "j < n"
    then show "byte_at machine_test (0x80000000 + of_nat i + of_nat j) \<noteq> None" using machine_test_byte(2) [of "i + j"] i by (simp add: add.assoc)
  qed
  ultimately show ?thesis using n i machine_test_ok by (auto simp: access_ok_def)
qed

lemma machine_test_inj: "i + n \<le> 0x2000 \<Longrightarrow> inj_on (\<lambda>j. byte_pointer machine_test (0x80000000 + of_nat i + of_nat j)) {..<n}"
proof (rule inj_onI)
  fix x y assume i: "i + n \<le> 0x2000" and x: "x \<in> {..<n}" and y: "y \<in> {..<n}"
    and eq: "byte_pointer machine_test (0x80000000 + of_nat i + of_nat x) = byte_pointer machine_test (0x80000000 + of_nat i + of_nat y)"
  have "(of_nat (i + x) :: u32) = of_nat (i + y)"
    using eq machine_test_byte(1) [of "i + x"] machine_test_byte(1) [of "i + y"] i x y by (simp add: add.assoc)
  then have "unat (of_nat (i + x) :: u32) = unat (of_nat (i + y) :: u32)" by simp
  moreover have "unat (of_nat (i + z) :: u32) = i + z" if "z < n" for z using i that by (intro unat_of_nat_u32) simp
  ultimately show "x = y" using x y by simp
qed

lemma machine_test_words: "i + 4 * k \<le> 0x2000 \<Longrightarrow> words_ok machine_test (0x80000000 + of_nat i) k"
proof -
  assume i: "i + 4 * k \<le> 0x2000"
  have "access_ok machine_test (0x80000000 + of_nat i + of_nat (4 * j)) 4" if "j < k" for j
    using machine_test_access [of 4 "i + 4 * j"] i that by (simp add: add.assoc)
  then show ?thesis using machine_test_inj [OF i] by (simp add: words_ok_def)
qed

lemma machine_test_quiet [simp]: "memchecks machine_test = []" "\<not> pending_DSI machine_test"
  by (simp_all add: machine_test_def Let_def pending_DSI_def ppc_zero_def)

theorem store_multiple_load_multiple_witness:
  "\<exists>M1. stmw hw_test 0xBFA10000 (with_gpr (\<lambda>_. 0x80000FF6) machine_test) = Inr M1"
proof -
  have f: "RS 0xBFA10000 = 29" "RA 0xBFA10000 = 1" "SIMM_16 0xBFA10000 = 0" by (simp_all add: ppc_defs bit_field_def)
  have "words_ok machine_test (0x80000000 + of_nat 0xFF6) 3" by (rule machine_test_words) simp
  then show ?thesis
    using store_multiple_load_multiple [of "with_gpr (\<lambda>_. 0x80000FF6) machine_test" "0xBFA10000" "\<lambda>_. 0x80000FF6" hw_test]
    by (auto simp: Helper_Get_EA_def f)
qed

end
