(* ===== verification/PPC_LoadStoreForms.thy ===== *)
theory PPC_LoadStoreForms
  imports PPC_LoadStoreProps
begin

text \<open>
  The loads and stores of one value as two tables, and the properties all of them share.
\<close>

unbundle bit_operations_syntax

subsection \<open>The tables\<close>

text \<open>
  A row has the instruction, its effective address, its size, for a store the value it stores and for a load what it does with the value
  it has read, and whether it also writes the address to \<open>RA\<close>.
\<close>

definition val_byte :: "UGeckoInstruction \<Rightarrow> 'd Machine \<Rightarrow> u64" where "val_byte inst M = ucast (ucast (gpr (ppc M) (RS inst)) :: u8)"
definition val_half :: "UGeckoInstruction \<Rightarrow> 'd Machine \<Rightarrow> u64" where "val_half inst M = ucast (ucast (gpr (ppc M) (RS inst)) :: u16)"
definition val_word :: "UGeckoInstruction \<Rightarrow> 'd Machine \<Rightarrow> u64" where "val_word inst M = ucast (gpr (ppc M) (RS inst))"
definition val_half_swapped :: "UGeckoInstruction \<Rightarrow> 'd Machine \<Rightarrow> u64" where "val_half_swapped inst M = bswap 2 (ucast (gpr (ppc M) (RS inst)))"
definition val_word_swapped :: "UGeckoInstruction \<Rightarrow> 'd Machine \<Rightarrow> u64" where "val_word_swapped inst M = ucast (swap32 (gpr (ppc M) (RS inst)))"
definition val_double :: "UGeckoInstruction \<Rightarrow> 'd Machine \<Rightarrow> u64" where "val_double inst M = ps M (FS inst) 0"
definition val_double_word :: "UGeckoInstruction \<Rightarrow> 'd Machine \<Rightarrow> u64" where "val_double_word inst M = ucast (ucast (ps M (FS inst) 0) :: u32)"
definition val_single :: "UGeckoInstruction \<Rightarrow> 'd Machine \<Rightarrow> u64" where "val_single inst M = ucast (ConvertToSingle (ps M (FS inst) 0))"

definition store_forms :: "('d instruction \<times> (UGeckoInstruction \<Rightarrow> 'd Machine \<Rightarrow> u32) \<times> nat \<times> (UGeckoInstruction \<Rightarrow> 'd Machine \<Rightarrow> u64) \<times> bool) list" where
  "store_forms =
     [(stb, Helper_Get_EA, 1, val_byte, False), (stbu, Helper_Get_EA_U, 1, val_byte, True),
      (stbx, Helper_Get_EA_X, 1, val_byte, False), (stbux, Helper_Get_EA_UX, 1, val_byte, True),
      (sth, Helper_Get_EA, 2, val_half, False), (sthu, Helper_Get_EA_U, 2, val_half, True),
      (sthx, Helper_Get_EA_X, 2, val_half, False), (sthux, Helper_Get_EA_UX, 2, val_half, True),
      (stw, Helper_Get_EA, 4, val_word, False), (stwu, Helper_Get_EA_U, 4, val_word, True),
      (stwx, Helper_Get_EA_X, 4, val_word, False), (stwux, Helper_Get_EA_UX, 4, val_word, True),
      (sthbrx, Helper_Get_EA_X, 2, val_half_swapped, False), (stwbrx, Helper_Get_EA_X, 4, val_word_swapped, False),
      (stfd, Helper_Get_EA, 8, val_double, False), (stfdu, Helper_Get_EA_U, 8, val_double, True),
      (stfdx, Helper_Get_EA_X, 8, val_double, False), (stfdux, Helper_Get_EA_UX, 8, val_double, True),
      (stfs, Helper_Get_EA, 4, val_single, False), (stfsu, Helper_Get_EA_U, 4, val_single, True),
      (stfsx, Helper_Get_EA_X, 4, val_single, False), (stfsux, Helper_Get_EA_UX, 4, val_single, True),
      (stfiwx, Helper_Get_EA_X, 4, val_double_word, False)]"

definition res_zero :: "UGeckoInstruction \<Rightarrow> u64 \<Rightarrow> 'd Machine \<Rightarrow> 'd Machine" where "res_zero inst v = put_gpr (RD inst) (ucast v)"
definition res_sign :: "UGeckoInstruction \<Rightarrow> u64 \<Rightarrow> 'd Machine \<Rightarrow> 'd Machine" where "res_sign inst v = put_gpr (RD inst) (halfword v)"
definition res_half_swapped :: "UGeckoInstruction \<Rightarrow> u64 \<Rightarrow> 'd Machine \<Rightarrow> 'd Machine" where "res_half_swapped inst v = put_gpr (RD inst) (ucast (bswap 2 v))"
definition res_word_swapped :: "UGeckoInstruction \<Rightarrow> u64 \<Rightarrow> 'd Machine \<Rightarrow> 'd Machine" where "res_word_swapped inst v = put_gpr (RD inst) (swap32 (ucast v))"
definition res_double :: "UGeckoInstruction \<Rightarrow> u64 \<Rightarrow> 'd Machine \<Rightarrow> 'd Machine" where "res_double inst v = put_ps0 (FD inst) v"
definition res_single :: "UGeckoInstruction \<Rightarrow> u64 \<Rightarrow> 'd Machine \<Rightarrow> 'd Machine" where
  "res_single inst v M = (let d = the (ConvertToDouble (ucast v)) in put_ps1 (FD inst) d (put_ps0 (FD inst) d M))"

definition load_forms :: "('d instruction \<times> (UGeckoInstruction \<Rightarrow> 'd Machine \<Rightarrow> u32) \<times> nat \<times> (UGeckoInstruction \<Rightarrow> u64 \<Rightarrow> 'd Machine \<Rightarrow> 'd Machine) \<times> bool) list" where
  "load_forms =
     [(lbz, Helper_Get_EA, 1, res_zero, False), (lbzu, Helper_Get_EA_U, 1, res_zero, True),
      (lbzx, Helper_Get_EA_X, 1, res_zero, False), (lbzux, Helper_Get_EA_UX, 1, res_zero, True),
      (lhz, Helper_Get_EA, 2, res_zero, False), (lhzu, Helper_Get_EA_U, 2, res_zero, True),
      (lhzx, Helper_Get_EA_X, 2, res_zero, False), (lhzux, Helper_Get_EA_UX, 2, res_zero, True),
      (lha, Helper_Get_EA, 2, res_sign, False), (lhau, Helper_Get_EA_U, 2, res_sign, True),
      (lhax, Helper_Get_EA_X, 2, res_sign, False), (lhaux, Helper_Get_EA_UX, 2, res_sign, True),
      (lwz, Helper_Get_EA, 4, res_zero, False), (lwzu, Helper_Get_EA_U, 4, res_zero, True),
      (lwzx, Helper_Get_EA_X, 4, res_zero, False), (lwzux, Helper_Get_EA_UX, 4, res_zero, True),
      (lhbrx, Helper_Get_EA_X, 2, res_half_swapped, False), (lwbrx, Helper_Get_EA_X, 4, res_word_swapped, False),
      (lfd, Helper_Get_EA, 8, res_double, False), (lfdu, Helper_Get_EA_U, 8, res_double, True),
      (lfdx, Helper_Get_EA_X, 8, res_double, False), (lfdux, Helper_Get_EA_UX, 8, res_double, True),
      (lfs, Helper_Get_EA, 4, res_single, False), (lfsu, Helper_Get_EA_U, 4, res_single, True),
      (lfsx, Helper_Get_EA_X, 4, res_single, False), (lfsux, Helper_Get_EA_UX, 4, res_single, True)]"

lemma store_form_run:
  "(st, ea, n, val, up) \<in> set store_forms \<Longrightarrow>
    st hw inst M = (if up then store_update hw n (val inst M) (ea inst M) (RA inst) M else PowerPC_Write hw n (val inst M) (ea inst M) M)"
  unfolding store_forms_def list.set insert_iff empty_iff prod.inject
  by (elim disjE conjE)
    (simp_all add: stb_def stbu_def stbx_def stbux_def sth_def sthu_def sthx_def sthux_def stw_def stwu_def stwx_def stwux_def sthbrx_def stwbrx_def
      stfd_def stfdu_def stfdx_def stfdux_def stfs_def stfsu_def stfsx_def stfsux_def stfiwx_def val_byte_def val_half_def val_word_def
      val_half_swapped_def val_word_swapped_def val_double_def val_double_word_def val_single_def del: One_nat_def)

lemma put_single_result: "put_single (FD inst) v M = Inr (res_single inst v M)"
  using ConvertToDouble_back [of "ucast v"] by (auto simp: put_single_def res_single_def Let_def)

lemma load_form_run:
  "(ld, ea, n, res, up) \<in> set load_forms \<Longrightarrow>
    ld hw inst M = load_then hw n (ea inst M) (\<lambda>v M1. Inr ((if up then put_gpr (RA inst) (ea inst M) else id) (res inst v M1))) M"
  unfolding load_forms_def list.set insert_iff empty_iff prod.inject
  by (elim disjE conjE)
    (simp_all add: lbz_def lbzu_def lbzx_def lbzux_def lhz_def lhzu_def lhzx_def lhzux_def lha_def lhau_def lhax_def lhaux_def lwz_def lwzu_def lwzx_def lwzux_def
      lhbrx_def lwbrx_def lfd_def lfdu_def lfdx_def lfdux_def lfs_def lfsu_def lfsx_def lfsux_def Let_def put_single_result [abs_def]
      res_zero_def res_sign_def res_half_swapped_def res_word_swapped_def res_double_def del: One_nat_def)

lemma form_size: "(st, ea, n, val, up) \<in> set store_forms \<Longrightarrow> n \<in> {1, 2, 4, 8}"
  unfolding store_forms_def list.set insert_iff empty_iff prod.inject by (elim disjE conjE) simp_all

subsection \<open>What is stored is loaded\<close>

lemma access_ok_size: "access_ok M a n \<Longrightarrow> n \<le> 8"
  by (auto simp: access_ok_def)

lemma put_gpr_simps [simp]:
  "byte_at (put_gpr k x M) = byte_at M" "access_ok (put_gpr k x M) = access_ok M" "memchecks (put_gpr k x M) = memchecks M"
  "pending_DSI (put_gpr k x M) = pending_DSI M" "ps (put_gpr k x M) = ps M"
  by (simp_all add: put_gpr_def set_gpr_def fun_eq_iff byte_at_def byte_pointer_def data_address_def access_ok_def bytes_mapped_def
      bats_built_def MSR_DR_def pending_DSI_def)

lemma store_form_stores:
  assumes st: "(st, ea, n, val, up) \<in> set store_forms" and ok: "access_ok M (ea inst M) n" and "memchecks M = []" and "\<not> pending_DSI M"
  shows "\<exists>M1. stored (ea inst M) (rev (le_bytes n (val inst M))) M M1 \<and>
    st hw inst M = Inr (if up then put_gpr (RA inst) (ea inst M) M1 else M1)"
proof -
  obtain M1 where "PowerPC_Write hw n (val inst M) (ea inst M) M = Inr M1" and s: "stored (ea inst M) (rev (le_bytes n (val inst M))) M M1"
    using PowerPC_Write_stored [OF ok assms(3)] by blast
  then show ?thesis using assms(4) stored_same [OF s] by (auto simp: store_form_run [OF st] store_update_def)
qed

lemma load_form_loads:
  assumes ld: "(ld, ea, n, res, up) \<in> set load_forms" and ok: "access_ok M (ea inst M) n" and "memchecks M = []" and "\<not> pending_DSI M"
    and "length bs = n" and "\<And>i. i < n \<Longrightarrow> byte_at M (ea inst M + of_nat i) = Some (bs ! i)"
  shows "ld hw inst M = Inr ((if up then put_gpr (RA inst) (ea inst M) else id) (res inst (le_value (rev bs)) M))"
  using PowerPC_Read_bytes [OF ok assms(3,5,6)] assms(4) by (simp add: load_form_run [OF ld] load_then_def)

text \<open>
  C4. Every store of one value returns and can be undone by every load of its size, in all forms (with update, indexed, byte-reversed, integer and
  floating-point): for an access to memory, aligned or not, the load from the same address, whatever the general registers hold by then,
  gets exactly the value that was stored, cut to its size; nothing else of the machine changes.
\<close>

theorem stored_value_loaded:
  assumes "(st, ea, n, val, up) \<in> set store_forms" and "(ld, ea', n, res, up') \<in> set load_forms"
    and "access_ok M (ea inst M) n" and "memchecks M = []" and "\<not> pending_DSI M" and "\<And>m. ea' inst' (with_gpr g m) = ea inst M"
  shows "\<exists>M1. stored (ea inst M) (rev (le_bytes n (val inst M))) M M1 \<and>
    st hw inst M = Inr (if up then put_gpr (RA inst) (ea inst M) M1 else M1) \<and>
    ld hw inst' (with_gpr g M1) =
      Inr ((if up' then put_gpr (RA inst') (ea inst M) else id) (res inst' (take_bit (8 * n) (val inst M)) (with_gpr g M1)))"
proof -
  obtain M1 where s: "stored (ea inst M) (rev (le_bytes n (val inst M))) M M1"
    and st: "st hw inst M = Inr (if up then put_gpr (RA inst) (ea inst M) M1 else M1)"
    using store_form_stores [OF assms(1,3,4,5)] by blast
  note same = stored_same [OF s]
  have "ld hw inst' (with_gpr g M1) =
      Inr ((if up' then put_gpr (RA inst') (ea' inst' (with_gpr g M1)) else id) (res inst' (le_value (rev (rev (le_bytes n (val inst M))))) (with_gpr g M1)))"
  proof (rule load_form_loads [OF assms(2)])
    show "access_ok (with_gpr g M1) (ea' inst' (with_gpr g M1)) n" using stored_access_ok [OF s assms(3)] by (simp add: assms(6))
    show "byte_at (with_gpr g M1) (ea' inst' (with_gpr g M1) + of_nat i) = Some (rev (le_bytes n (val inst M)) ! i)" if "i < n" for i
      using stored_byte [OF s] that by (simp add: assms(6))
  qed (use assms(4,5) same in simp_all)
  with s st show ?thesis by (auto simp: assms(6) le_value_bytes)
qed

theorem stored_value_loaded_witness:
  "\<exists>M1. sthx hw_test 0x7C60032E (with_gpr (\<lambda>_. 0x80000FFF) machine_test) = Inr M1 \<and>
     lha hw_test 0xA8810000 (with_gpr (\<lambda>_. 0x80000FFF) M1) = Inr (put_gpr 4 0x00000FFF (with_gpr (\<lambda>_. 0x80000FFF) M1))"
proof -
  let ?M = "with_gpr (\<lambda>_. 0x80000FFF) machine_test"
  have st: "(sthx, Helper_Get_EA_X, 2, val_half, False) \<in> set store_forms" by (simp add: store_forms_def del: One_nat_def)
  have ld: "(lha, Helper_Get_EA, 2, res_sign, False) \<in> set load_forms" by (simp add: load_forms_def del: One_nat_def)
  have f: "RS 0x7C60032E = 3" "RA 0x7C60032E = 0" "RB 0x7C60032E = 0" "RD 0xA8810000 = 4" "RA 0xA8810000 = 1" "SIMM_16 0xA8810000 = 0"
    by (simp_all add: ppc_defs bit_field_def)
  have ok: "access_ok ?M (Helper_Get_EA_X 0x7C60032E ?M) 2"
    using machine_test_access [of 2 "0xFFF"] by (simp add: Helper_Get_EA_X_def f)
  have ea: "Helper_Get_EA 0xA8810000 (with_gpr (\<lambda>_. 0x80000FFF) m) = Helper_Get_EA_X 0x7C60032E ?M" for m :: "unit Machine"
    by (simp add: Helper_Get_EA_X_def Helper_Get_EA_def f)
  show ?thesis
    using stored_value_loaded [OF st ld ok _ _ ea, of hw_test] by (auto simp: val_half_def res_sign_def f halfword_def)
qed

text \<open>
  Loads and stores that go together: the load keeps enough of the value for the store to write the same bytes.
\<close>

definition copy_pairs :: "('d instruction \<times> (UGeckoInstruction \<Rightarrow> 'd Machine \<Rightarrow> u32) \<times> 'd instruction \<times> (UGeckoInstruction \<Rightarrow> 'd Machine \<Rightarrow> u32) \<times> nat) list" where
  "copy_pairs =
     [(lbz, Helper_Get_EA, stb, Helper_Get_EA, 1), (lhz, Helper_Get_EA, sth, Helper_Get_EA, 2), (lha, Helper_Get_EA, sth, Helper_Get_EA, 2),
      (lwz, Helper_Get_EA, stw, Helper_Get_EA, 4), (lwzx, Helper_Get_EA_X, stwx, Helper_Get_EA_X, 4),
      (lhbrx, Helper_Get_EA_X, sthbrx, Helper_Get_EA_X, 2), (lwbrx, Helper_Get_EA_X, stwbrx, Helper_Get_EA_X, 4),
      (lfd, Helper_Get_EA, stfd, Helper_Get_EA, 8), (lfdx, Helper_Get_EA_X, stfdx, Helper_Get_EA_X, 8),
      (lfs, Helper_Get_EA, stfs, Helper_Get_EA, 4), (lfsx, Helper_Get_EA_X, stfsx, Helper_Get_EA_X, 4)]"

lemma copy_pair_rows:
  assumes "(ld, ea, st, ea', n) \<in> set copy_pairs" and "RD inst = RS inst'"
  obtains res val where "(ld, ea, n, res, False) \<in> set load_forms" and "(st, ea', n, val, False) \<in> set store_forms" and "n \<le> 8"
    and "\<And>bs M. length bs = n \<Longrightarrow> le_bytes n (val inst' (res inst (le_value bs) M)) = bs"
    and "\<And>v M. byte_at (res inst v M) = byte_at M" and "\<And>v M. access_ok (res inst v M) = access_ok M"
    and "\<And>v M. memchecks (res inst v M) = memchecks M" and "\<And>v M. pending_DSI (res inst v M) = pending_DSI M"
proof -
  have frame: "byte_at (put_ps0 k x M) = byte_at M" "byte_at (put_ps1 k x M) = byte_at M" "access_ok (put_ps0 k x M) = access_ok M"
    "access_ok (put_ps1 k x M) = access_ok M" "memchecks (put_ps0 k x M) = memchecks M" "memchecks (put_ps1 k x M) = memchecks M"
    "pending_DSI (put_ps0 k x M) = pending_DSI M" "pending_DSI (put_ps1 k x M) = pending_DSI M" for k x and M :: "'a Machine"
    by (simp_all add: put_ps0_def put_ps1_def fun_eq_iff byte_at_def byte_pointer_def data_address_def access_ok_def bytes_mapped_def
        bats_built_def MSR_DR_def pending_DSI_def)
  have inv: "le_bytes k (le_value bs) = bs" if "length bs = k" "k \<le> 8" for k and bs
    using that le_bytes_value [of bs] by simp
  have cut: "le_bytes k w = le_bytes k v" if "take_bit (8 * k) w = take_bit (8 * k) v" for k and v w :: u64
    by (metis le_bytes_take_bit le_refl that)
  have b1: "take_bit (8 * 1) (ucast (ucast (ucast v :: u32) :: u8)) = take_bit (8 * 1) v" for v :: u64
    by (rule bit_word_eqI) (auto simp: bit_simps)
  have h1: "take_bit (8 * 2) (ucast (ucast (ucast v :: u32) :: u16)) = take_bit (8 * 2) v"
    "take_bit (8 * 2) (ucast (ucast (halfword v) :: u16)) = take_bit (8 * 2) v" "take_bit (8 * 2) (ucast (ucast v :: u32)) = take_bit (8 * 2) v" for v :: u64
    unfolding halfword_def by (rule bit_word_eqI; auto simp: bit_simps)+
  have w1: "take_bit (8 * 4) (ucast (ucast v :: u32)) = take_bit (8 * 4) v" for v :: u64
    by (rule bit_word_eqI) (auto simp: bit_simps)
  have b: "le_bytes 1 (ucast (ucast (ucast (le_value bs) :: u32) :: u8)) = bs" if "length bs = 1" for bs
    by (rule trans [OF cut [OF b1] inv [OF that]]) simp
  have h: "le_bytes 2 (ucast (ucast (ucast (le_value bs) :: u32) :: u16)) = bs" "le_bytes 2 (ucast (ucast (halfword (le_value bs)) :: u16)) = bs"
    if "length bs = 2" for bs
    by (rule trans [OF cut [OF h1(1)] inv [OF that]], simp, rule trans [OF cut [OF h1(2)] inv [OF that]], simp)
  have hs: "le_bytes 2 (bswap 2 (ucast (ucast (bswap 2 (le_value bs)) :: u32))) = bs" if "length bs = 2" for bs
  proof -
    have "le_bytes 2 (bswap 2 (ucast (ucast (bswap 2 (le_value bs)) :: u32))) = rev (le_bytes 2 (bswap 2 (le_value bs)))"
      by (subst rev_le_bytes, simp, subst cut [OF h1(3)], rule refl)
    also have "\<dots> = bs" by (subst rev_le_bytes, simp, simp add: inv [OF that])
    finally show ?thesis .
  qed
  have w: "le_bytes 4 (ucast (ucast (le_value bs) :: u32)) = bs" if "length bs = 4" for bs
    by (rule trans [OF cut [OF w1] inv [OF that]]) simp
  have sg: "ConvertToSingle (the (ConvertToDouble x)) = x" for x using ConvertToDouble_back [of x] by auto
  note vals = val_byte_def val_half_def val_word_def val_half_swapped_def val_word_swapped_def val_double_def val_single_def
  note ress = res_zero_def res_sign_def res_half_swapped_def res_word_swapped_def res_double_def res_single_def
  have get: "gpr (ppc (put_gpr k x M)) k = x" "ps (put_ps0 k' y M) k' 0 = y" "ps (put_ps1 k' y M) k' 0 = ps M k' 0" for k x k' y and M :: "'a Machine"
    by (simp_all add: put_gpr_def set_gpr_def put_ps0_def put_ps1_def)
  have fs: "FD inst = FS inst'" using assms(2) by (simp add: FD_def FS_def RD_def RS_def)
  note rows = load_forms_def store_forms_def
  from assms(1) show thesis
    unfolding copy_pairs_def list.set insert_iff empty_iff prod.inject
  proof (elim disjE conjE, goal_cases)
    case 1
    then show ?case by (intro that [of res_zero val_byte]) (simp_all add: rows vals ress get b assms(2) del: One_nat_def)
  next
    case 2
    then show ?case by (intro that [of res_zero val_half]) (simp_all add: rows vals ress get h assms(2) del: One_nat_def)
  next
    case 3
    then show ?case by (intro that [of res_sign val_half]) (simp_all add: rows vals ress get h assms(2) del: One_nat_def)
  next
    case 4
    then show ?case by (intro that [of res_zero val_word]) (simp_all add: rows vals ress get w assms(2) del: One_nat_def)
  next
    case 5
    then show ?case by (intro that [of res_zero val_word]) (simp_all add: rows vals ress get w assms(2) del: One_nat_def)
  next
    case 6
    then show ?case by (intro that [of res_half_swapped val_half_swapped]) (simp_all add: rows vals ress get hs assms(2) del: One_nat_def)
  next
    case 7
    then show ?case by (intro that [of res_word_swapped val_word_swapped]) (simp_all add: rows vals ress get w assms(2) del: One_nat_def)
  next
    case 8
    then show ?case by (intro that [of res_double val_double]) (simp_all add: rows vals ress get inv fs frame del: One_nat_def)
  next
    case 9
    then show ?case by (intro that [of res_double val_double]) (simp_all add: rows vals ress get inv fs frame del: One_nat_def)
  next
    case 10
    then show ?case by (intro that [of res_single val_single]) (simp_all add: rows vals ress get w sg fs frame Let_def del: One_nat_def)
  next
    case 11
    then show ?case by (intro that [of res_single val_single]) (simp_all add: rows vals ress get w sg fs frame Let_def del: One_nat_def)
  qed simp_all
qed

text \<open>
  C15. A load followed by the matching store copies memory exactly, through the general registers and through the floating-point registers: for
  bytes, halfwords (zero- or sign-extended), words, byte-reversed values and doubles, and also for single-precision values of any kind (subnormal
  numbers and NaNs included), which are converted to double precision and back.
\<close>

theorem memory_copies:
  assumes "(ld, ea, st, ea', n) \<in> set copy_pairs" and "RD inst = RS inst'" and "access_ok M (ea inst M) n" and "memchecks M = []" and "\<not> pending_DSI M"
  shows "\<exists>M1. ld hw inst M = Inr M1 \<and> (access_ok M1 (ea' inst' M1) n \<longrightarrow>
    (\<exists>M2. st hw inst' M1 = Inr M2 \<and> (\<forall>i < n. byte_at M2 (ea' inst' M1 + of_nat i) = byte_at M (ea inst M + of_nat i))))"
proof (rule copy_pair_rows [OF assms(1,2)], goal_cases)
  case (1 res val)
  note frame = 1(5-8)
  have "\<exists>b. byte_at M (ea inst M + of_nat i) = Some b" if "i < n" for i using assms(3) that by (auto simp: access_ok_def bytes_mapped_def)
  then obtain f where f: "byte_at M (ea inst M + of_nat i) = Some (f i)" if "i < n" for i by metis
  define bs where "bs = map f [0..<n]"
  have bs: "length bs = n" "byte_at M (ea inst M + of_nat i) = Some (bs ! i)" if "i < n" for i using f that by (simp_all add: bs_def)
  have len: "length bs = n" by (simp add: bs_def)
  have l: "ld hw inst M = Inr (res inst (le_value (rev bs)) M)" (is "_ = Inr ?M1")
    using load_form_loads [OF 1(1) assms(3-5) len bs(2), of hw] by simp
  have "\<exists>M2. st hw inst' ?M1 = Inr M2 \<and> (\<forall>i < n. byte_at M2 (ea' inst' ?M1 + of_nat i) = byte_at M (ea inst M + of_nat i))"
    if ok: "access_ok ?M1 (ea' inst' ?M1) n"
  proof -
    obtain M2 where s: "stored (ea' inst' ?M1) (rev (le_bytes n (val inst' ?M1))) ?M1 M2" and st: "st hw inst' ?M1 = Inr M2"
      using store_form_stores [OF 1(2) ok, of hw] assms(4,5) frame by auto
    have "rev (le_bytes n (val inst' ?M1)) = bs" using 1(4) [of "rev bs" M] len by simp
    with st stored_byte [OF s] bs(2) len show ?thesis by auto
  qed
  with l show ?case by blast
qed

theorem memory_copies_witness:
  "\<exists>M1. lfs hw_test 0xC0210002 (with_gpr (\<lambda>_. 0x80000FFC) machine_test) = Inr M1"
proof -
  have c: "(lfs, Helper_Get_EA, stfs, Helper_Get_EA, 4) \<in> set copy_pairs" by (simp add: copy_pairs_def del: One_nat_def)
  have f: "RD 0xC0210002 = RS 0xC0210002" "RA 0xC0210002 = 1" "SIMM_16 0xC0210002 = 2" by (simp_all add: ppc_defs bit_field_def)
  have ok: "access_ok (with_gpr (\<lambda>_. 0x80000FFC) machine_test) (Helper_Get_EA 0xC0210002 (with_gpr (\<lambda>_. 0x80000FFC) machine_test)) 4"
    using machine_test_access [of 4 "0xFFE"] by (simp add: Helper_Get_EA_def f)
  show ?thesis using memory_copies [OF c f(1) ok, of hw_test] by auto
qed

subsection \<open>Faults\<close>

text \<open>What of a machine an instruction may not lose when it faults, and devices that leave it alone.\<close>

definition cpu_view :: "'d Machine \<Rightarrow> PowerPCState \<times> (nat \<Rightarrow> nat \<Rightarrow> u64) \<times> TMemCheck list \<times> bool \<times> u32" where
  "cpu_view M = (ppc M, ps M, memchecks M, m_reserve M, m_reserve_address M)"

definition devices_keep_processor :: "'d Machine hw \<Rightarrow> bool" where
  "devices_keep_processor hw \<longleftrightarrow> (\<forall>M.
     (\<forall>x y. cpu_view (snd (PeekZ hw x y M)) = cpu_view M \<and> cpu_view (snd (PeekColor hw x y M)) = cpu_view M) \<and>
     (\<forall>x y d. cpu_view (PokeZ hw x y d M) = cpu_view M \<and> cpu_view (PokeColor hw x y d M) = cpu_view M) \<and>
     (\<forall>n a. cpu_view (snd (mmio_Read hw n a M)) = cpu_view M) \<and> (\<forall>n a v. cpu_view (mmio_Write hw n a v M) = cpu_view M) \<and>
     (\<forall>n v. cpu_view (GPFifo_Write hw n v M) = cpu_view M))"

text \<open>After an access the processor is as before, or has an exception for an address.\<close>

definition view_or_fault :: "u32 set \<Rightarrow> 'd Machine \<Rightarrow> 'd Machine \<Rightarrow> bool" where
  "view_or_fault A M M' \<longleftrightarrow> cpu_view M' = cpu_view M \<or> (\<exists>a \<in> A. \<exists>w. cpu_view M' = cpu_view (GenerateDSIException a w M))"

lemma cpu_view_mem [simp]: "cpu_view (M\<lparr>mem := m\<rparr>) = cpu_view M" "cpu_view (M\<lparr>mmu := mm\<rparr>) = cpu_view M"
  by (simp_all add: cpu_view_def)

lemma translate_view: "translate flag a M = Inr (r, M') \<Longrightarrow> cpu_view M' = cpu_view M \<and> bMMU M' = bMMU M"
  by (auto simp: translate_def and_then_eq_Inr_conv cpu_view_def)

lemma GenerateDSI_view: "cpu_view M1 = cpu_view M \<Longrightarrow> bMMU M1 = bMMU M \<Longrightarrow> a \<in> A \<Longrightarrow> view_or_fault A M (GenerateDSIException a w M1)"
  by (auto simp: view_or_fault_def GenerateDSIException_def cpu_view_def Let_def)

lemma ReadPhysical_view: "devices_keep_processor hw \<Longrightarrow> ReadPhysical hw flag n a M = Inr (v, M') \<Longrightarrow> cpu_view M' = cpu_view M"
  by (auto simp: ReadPhysical_def EFB_Read_def devices_keep_processor_def Let_def and_then_eq_Inr_conv map_prod_def
      split: option.splits if_splits prod.splits) (metis snd_conv)+

lemma WritePhysical_view: "devices_keep_processor hw \<Longrightarrow> WritePhysical hw flag n a v M = Inr M' \<Longrightarrow> cpu_view M' = cpu_view M"
  by (auto simp: WritePhysical_def EFB_Write_def devices_keep_processor_def Let_def and_then_eq_Inr_conv split: option.splits if_splits)

lemma read_page_bytes_view:
  assumes "read_page_bytes hw flag e np nt addr tr var M = Some (Inr (v, M'))" and "devices_keep_processor hw"
  shows "cpu_view M' = cpu_view M"
proof -
  have "\<forall>v M'. x = Inr (v, M') \<longrightarrow> cpu_view M' = cpu_view M"
    if "read_page_bytes hw flag e np nt addr tr var M = Some x" for x
  proof (rule read_page_bytes.raw_induct [where P = "\<lambda>hw flag e np nt addr tr var M x. devices_keep_processor hw \<longrightarrow> (\<forall>v M'. x = Inr (v, M') \<longrightarrow> cpu_view M' = cpu_view M)",
        OF _ that, THEN mp, OF _ assms(2)], goal_cases)
    case (1 f hw flag e np nt addr tr var M x)
    show ?case
    proof (intro impI allI)
      fix v M' assume q: "devices_keep_processor hw" and x: "x = Inr (v, M')"
      show "cpu_view M' = cpu_view M"
      proof (cases "unat addr < e")
        case True
        let ?tr = "if addr = np then nt else tr"
        from 1(2) True x obtain b M1 where r: "ReadPhysical hw flag 1 ?tr M = Inr (b, M1)"
          and f: "f hw flag e np nt (addr + 1) (?tr + 1) (push_bit 8 var OR b) M1 = Some x"
          by (auto simp: Let_def split: sum.splits)
        have "cpu_view M' = cpu_view M1" using 1(1) [OF f] q x by blast
        with ReadPhysical_view [OF q r] show ?thesis by simp
      qed (use 1(2) x in simp)
    qed
  qed
  with assms(1) show ?thesis by blast
qed

lemma write_page_bytes_view:
  "write_page_bytes hw flag k em np nt val i tr M = Inr M' \<Longrightarrow> devices_keep_processor hw \<Longrightarrow> cpu_view M' = cpu_view M"
proof (induction k arbitrary: i tr M)
  case (Suc k)
  then show ?case by (auto simp: Let_def and_then_eq_Inr_conv dest!: WritePhysical_view)
qed simp

lemma same_view: "cpu_view M' = cpu_view M \<Longrightarrow> view_or_fault A M M'"
  by (simp add: view_or_fault_def)

lemma Memcheck_view: "view_or_fault A M M' \<Longrightarrow> memchecks M = [] \<Longrightarrow> Memcheck a w n M' = M'"
proof -
  assume "view_or_fault A M M'" and "memchecks M = []"
  then have "memchecks M' = []" by (auto simp: view_or_fault_def cpu_view_def GenerateDSIException_def Let_def split: if_splits)
  then show "Memcheck a w n M' = M'" by simp
qed

lemma PowerPC_Read_view:
  assumes "devices_keep_processor hw" and "memchecks M = []" and r: "PowerPC_Read hw n a M = Inr (v, M')"
  shows "view_or_fault {a, next_page_of a n} M M'"
proof -
  let ?A = "{a, next_page_of a n}"
  obtain M1 where h: "ReadFromHardware hw FLAG_READ n a M = Inr (v, M1)" and M': "M' = Memcheck a False n M1"
    using r by (auto simp: PowerPC_Read_def and_then_eq_Inr_conv)
  have phys: "view_or_fault ?A M M1" if "ReadPhysical hw FLAG_READ n p N = Inr (v, M1)" "cpu_view N = cpu_view M" for p N
    using ReadPhysical_view [OF assms(1) that(1)] that(2) by (simp add: view_or_fault_def)
  have "view_or_fault ?A M M1"
  proof (cases "MSR_DR (ppc M)")
    case False
    then show ?thesis using h phys [of a M] by (simp add: ReadFromHardware_def)
  next
    case True
    then obtain t N where t: "translate FLAG_READ a M = Inr (t, N)"
      and c: "(case translated t of None \<Rightarrow> Inr (0, GenerateDSIException a False N)
        | Some p \<Rightarrow> if crosses_page a n then and_then (translate FLAG_READ (next_page_of a n) N) (\<lambda>(r2, M2). case translated r2 of
              None \<Rightarrow> Inr (0, GenerateDSIException (next_page_of a n) False M2)
            | Some a2 \<Rightarrow> returned (read_page_bytes hw FLAG_READ (unat a + n) (next_page_of a n) a2 a p 0 M2))
          else ReadPhysical hw FLAG_READ n p N) = Inr (v, M1)"
      using h by (auto simp: ReadFromHardware_def and_then_eq_Inr_conv Let_def cong: option.case_cong if_cong)
    note N = translate_view [OF t]
    show ?thesis
    proof (cases "translated t")
      case None
      with c N show ?thesis by (auto intro: GenerateDSI_view)
    next
      case (Some p)
      show ?thesis
      proof (cases "crosses_page a n")
        case False
        with c Some N show ?thesis by (auto intro: phys)
      next
        case cross: True
        with c Some obtain r2 M2 where t2: "translate FLAG_READ (next_page_of a n) N = Inr (r2, M2)"
          and c2: "(case translated r2 of None \<Rightarrow> Inr (0, GenerateDSIException (next_page_of a n) False M2)
            | Some a2 \<Rightarrow> returned (read_page_bytes hw FLAG_READ (unat a + n) (next_page_of a n) a2 a p 0 M2)) = Inr (v, M1)"
          by (auto simp: and_then_eq_Inr_conv)
        note M2 = translate_view [OF t2]
        show ?thesis
        proof (cases "translated r2")
          case None
          with c2 N M2 show ?thesis by (auto intro: GenerateDSI_view)
        next
          case (Some a2)
          with c2 have "read_page_bytes hw FLAG_READ (unat a + n) (next_page_of a n) a2 a p 0 M2 = Some (Inr (v, M1))"
            by (auto simp: returned_def split: option.splits)
          from read_page_bytes_view [OF this assms(1)] N M2 show ?thesis by (auto intro: same_view)
        qed
      qed
    qed
  qed
  with Memcheck_view [OF this assms(2)] show ?thesis by (simp add: M')
qed

lemma PowerPC_Write_view:
  assumes "devices_keep_processor hw" and "memchecks M = []" and r: "PowerPC_Write hw n v a M = Inr M1"
  shows "view_or_fault {a, next_page_of a n} M M1"
proof -
  let ?A = "{a, next_page_of a n}"
  have h: "WriteToHardware hw FLAG_WRITE n a v M = Inr M1" using r assms(2) by (simp add: PowerPC_Write_def)
  have phys: "view_or_fault ?A M M1" if "WritePhysical hw FLAG_WRITE n p v N = Inr M1" "cpu_view N = cpu_view M" for p N
    using WritePhysical_view [OF assms(1) that(1)] that(2) by (simp add: view_or_fault_def)
  show ?thesis
  proof (cases "MSR_DR (ppc M)")
    case False
    then show ?thesis using h phys [of a M] by (simp add: WriteToHardware_def)
  next
    case True
    let ?cross = "a AND (of_nat n - 1) \<noteq> 0 \<and> crosses_page a n"
    from True obtain t N where t: "translate FLAG_WRITE a M = Inr (t, N)"
      and c: "(case translated t of None \<Rightarrow> Inr (GenerateDSIException a True N)
        | Some p \<Rightarrow> if ?cross then and_then (translate FLAG_WRITE (next_page_of a n) N) (\<lambda>(r2, M2). case translated r2 of
              None \<Rightarrow> Inr (GenerateDSIException (next_page_of a n) True M2)
            | Some a2 \<Rightarrow> write_page_bytes hw FLAG_WRITE n a (next_page_of a n) a2 (bswap n v) 0 p M2)
          else WritePhysical hw FLAG_WRITE n p v N) = Inr M1"
      using h by (auto simp: WriteToHardware_def and_then_eq_Inr_conv Let_def cong: option.case_cong if_cong)
    note N = translate_view [OF t]
    show ?thesis
    proof (cases "translated t")
      case None
      with c N show ?thesis by (auto intro: GenerateDSI_view)
    next
      case (Some p)
      show ?thesis
      proof (cases ?cross)
        case False
        with c Some N show ?thesis by (auto intro: phys)
      next
        case cross: True
        with c Some obtain r2 M2 where t2: "translate FLAG_WRITE (next_page_of a n) N = Inr (r2, M2)"
          and c2: "(case translated r2 of None \<Rightarrow> Inr (GenerateDSIException (next_page_of a n) True M2)
            | Some a2 \<Rightarrow> write_page_bytes hw FLAG_WRITE n a (next_page_of a n) a2 (bswap n v) 0 p M2) = Inr M1"
          by (auto simp: and_then_eq_Inr_conv)
        note M2 = translate_view [OF t2]
        show ?thesis
        proof (cases "translated r2")
          case None
          with c2 N M2 show ?thesis by (auto intro: GenerateDSI_view)
        next
          case (Some a2)
          with c2 have "write_page_bytes hw FLAG_WRITE n a (next_page_of a n) a2 (bswap n v) 0 p M2 = Inr M1" by simp
          from write_page_bytes_view [OF this assms(1)] N M2 show ?thesis by (auto intro: same_view)
        qed
      qed
    qed
  qed
qed

definition single_accesses :: "('d instruction \<times> (UGeckoInstruction \<Rightarrow> 'd Machine \<Rightarrow> u32) \<times> nat) list" where
  "single_accesses = map (\<lambda>(op, ea, n, _). (op, ea, n)) load_forms @ map (\<lambda>(op, ea, n, _). (op, ea, n)) store_forms"

lemma faulting_view:
  assumes "(op, ea, n) \<in> set single_accesses" and "devices_keep_processor hw" and "memchecks M = []" and e: "Exceptions (ppc M) = 0"
    and op: "op hw inst M = Inr M'" and d: "pending_DSI M'"
  shows "\<exists>a \<in> {ea inst M, next_page_of (ea inst M) n}. \<exists>w. cpu_view M' = cpu_view (GenerateDSIException a w M)"
proof -
  let ?A = "{ea inst M, next_page_of (ea inst M) n}"
  have no: "\<not> pending_DSI N" if "cpu_view N = cpu_view M" for N using that e by (simp add: pending_DSI_def cpu_view_def)
  have keep: "pending_DSI (put_gpr k x N) = pending_DSI N" "pending_DSI (put_ps0 k y N) = pending_DSI N" "pending_DSI (put_ps1 k y N) = pending_DSI N"
    for k x y and N :: "'a Machine" by (simp_all add: pending_DSI_def put_ps0_def put_ps1_def put_gpr_def set_gpr_def)
  have res: "pending_DSI (res inst v N) = pending_DSI N" if "(ld, ea', m, res, up) \<in> set load_forms" for ld ea' m res up v and N :: "'a Machine"
    using that unfolding load_forms_def list.set insert_iff empty_iff prod.inject
    by (elim disjE conjE) (simp_all add: res_zero_def res_sign_def res_half_swapped_def res_word_swapped_def res_double_def res_single_def Let_def keep)
  from assms(1) consider (load) res up where "(op, ea, n, res, up) \<in> set load_forms" | (store) val up where "(op, ea, n, val, up) \<in> set store_forms"
    by (auto simp: single_accesses_def)
  then have "view_or_fault ?A M M'"
  proof cases
    case load
    obtain v M1 where r: "PowerPC_Read hw n (ea inst M) M = Inr (v, M1)"
      and "(if pending_DSI M1 then Inr M1 else Inr ((if up then put_gpr (RA inst) (ea inst M) else id) (res inst v M1))) = (Inr M' :: mem_error + _)"
      using op unfolding load_form_run [OF load] load_then_def and_then_eq_Inr_conv by auto
    then have M': "M' = (if pending_DSI M1 then M1 else (if up then put_gpr (RA inst) (ea inst M) else id) (res inst v M1))" by (auto split: if_splits)
    have "pending_DSI M1" using d M' res [OF load] by (auto simp: keep split: if_splits)
    then show ?thesis using PowerPC_Read_view [OF assms(2,3) r] M' by simp
  next
    case store
    obtain M1 where w: "PowerPC_Write hw n (val inst M) (ea inst M) M = Inr M1"
      and M': "M' = (if up \<and> \<not> pending_DSI M1 then put_gpr (RA inst) (ea inst M) M1 else M1)"
      using op unfolding store_form_run [OF store] store_update_def by (cases up) (auto simp: and_then_eq_Inr_conv)
    have "pending_DSI M1" using d M' by (auto simp: keep split: if_splits)
    then show ?thesis using PowerPC_Write_view [OF assms(2,3) w] M' by simp
  qed
  with no d show ?thesis by (auto simp: view_or_fault_def)
qed

text \<open>
  C5. A faulting access can be restarted: when a load or store of one value (not \<open>lmw\<close>, \<open>lswi\<close> and \<open>lswx\<close>, which have changed the registers
  before the fault), with update or without, raises an exception, it has
  changed no register, neither its target nor its address register, and no reservation; the processor goes to the handler at 0x300 with the address
  of the access, or of the page its end is in, in \<open>DAR\<close>; and a return from the handler executes the instruction again.
\<close>

theorem faulting_access_restarts:
  assumes "(op, ea, n) \<in> set single_accesses" and "devices_keep_processor hw" and "memchecks M = []" and "Exceptions (ppc M) = 0"
    and "op hw inst M = Inr M'" and "pending_DSI M'"
  shows "let s = CheckExceptions (ppc M') in
    gpr s = gpr (ppc M) \<and> cr_val s = cr_val (ppc M) \<and> ps M' = ps M \<and> m_reserve M' = m_reserve M \<and> m_reserve_address M' = m_reserve_address M \<and>
    pc s = 0x300 \<and> spr s SPR_DAR \<in> {ea inst M, next_page_of (ea inst M) n} \<and> Exceptions s = 0 \<and> npc (rfi i s) = pc (ppc M)"
proof -
  obtain a w where a: "a \<in> {ea inst M, next_page_of (ea inst M) n}" and v: "cpu_view M' = cpu_view (GenerateDSIException a w M)"
    using faulting_view [OF assms] by blast
  have mmu: "bMMU M"
  proof (rule ccontr)
    assume "\<not> bMMU M"
    with v have "cpu_view M' = cpu_view M" by (simp add: GenerateDSIException_def)
    with assms(4,6) show False by (simp add: cpu_view_def pending_DSI_def)
  qed
  have p: "ppc M' = ppc (GenerateDSIException a w M)" "ps M' = ps M" "m_reserve M' = m_reserve M" "m_reserve_address M' = m_reserve_address M"
    using v by (simp_all add: cpu_view_def GenerateDSIException_def Let_def split: if_splits)
  have f: "Exceptions (ppc M') = 8" "pc (ppc M') = pc (ppc M)" "gpr (ppc M') = gpr (ppc M)" "cr_val (ppc M') = cr_val (ppc M)" "spr (ppc M') SPR_DAR = a"
    unfolding p(1) using mmu assms(4) by (simp_all add: GenerateDSIException_def set_spr_def Let_def)
  have "CheckExceptions (ppc M') = enter_exception (pc (ppc M')) 0 0x300 EXCEPTION_DSI (ppc M')"
    by (simp add: CheckExceptions_def f(1))
  then show ?thesis using a f p(2-4) by (simp add: Let_def enter_exception_def set_spr_def rfi_def)
qed

text \<open>A machine all of whose segments are direct-store segments.\<close>

definition machine_fault :: "unit Machine" where
  "machine_fault = machine_test\<lparr>mmu := mmu_test, ppc := (ppc machine_test)\<lparr>sr := (\<lambda>_. 0x80000000), gpr := (\<lambda>_. 0x1000)\<rparr>\<rparr>"

lemma machine_fault_read: "PowerPC_Read hw_test 4 0x1004 machine_fault = Inr (0, GenerateDSIException 0x1004 False machine_fault)"
proof -
  have dr: "MSR_DR (ppc machine_fault)" by (simp add: machine_fault_def machine_test_def MSR_DR_def Let_def)
  have m: "memchecks (GenerateDSIException 0x1004 False machine_fault) = []"
    by (simp add: GenerateDSIException_def Let_def machine_fault_def)
  have bat: "TranslateBatAddess (dbat_table mmu_test) 0x1004 = None" by (simp add: mmu_test_def TranslateBatAddess_def)
  have "LookupTLBPageAddress FLAG_READ 0x1004 mmu_test = (TLB_NOTFOUND, mmu_test)"
    by (simp add: LookupTLBPageAddress_def mmu_test_def TLBEntry_new_def Let_def)
  then have "TranslateAddress FLAG_READ 0x1004 (ppc machine_fault) (mmu machine_fault, mem machine_fault) =
      Inr (DIRECT_STORE_SEGMENT, mmu machine_fault, mem machine_fault)"
    using bat by (simp add: TranslateAddress_def TranslatePageAddress_def machine_fault_def IsOpcodeFlag_def Let_def)
  then have "translate FLAG_READ 0x1004 machine_fault = Inr (DIRECT_STORE_SEGMENT, machine_fault)" by (simp add: translate_def)
  then show ?thesis using dr m by (simp add: PowerPC_Read_def ReadFromHardware_def)
qed

theorem faulting_access_restarts_witness:
  "\<exists>M'. lwzu hw_test 0x84610004 machine_fault = Inr M' \<and> pc (CheckExceptions (ppc M')) = 0x300 \<and> gpr (CheckExceptions (ppc M')) = (\<lambda>_. 0x1000)"
proof -
  let ?M' = "GenerateDSIException 0x1004 False machine_fault"
  have f: "RA 0x84610004 = 1" "SIMM_16 0x84610004 = 4" by (simp_all add: ppc_defs bit_field_def)
  have g: "gpr (ppc machine_fault) = (\<lambda>_. 0x1000)" "Exceptions (ppc machine_fault) = 0" "memchecks machine_fault = []"
    by (simp_all add: machine_fault_def) (simp add: machine_test_def Let_def ppc_zero_def)
  have d: "pending_DSI ?M'" by (simp add: pending_DSI_def GenerateDSIException_def Let_def g machine_fault_def set_spr_def)
      (simp add: machine_test_def Let_def ppc_zero_def)
  have op: "lwzu hw_test 0x84610004 machine_fault = Inr ?M'"
    by (simp add: lwzu_def Helper_Get_EA_U_def f g load_then_def machine_fault_read d)
  have row: "(lwzu, Helper_Get_EA_U, 4) \<in> set single_accesses" by (simp add: single_accesses_def load_forms_def del: One_nat_def)
  have keep: "devices_keep_processor hw_test" by (simp add: devices_keep_processor_def hw_test_def)
  from faulting_access_restarts [OF row keep g(3,2) op d] op show ?thesis by (auto simp: Let_def g)
qed

end
