(* ===== verification/PPC_Reservation.thy ===== *)
theory PPC_Reservation
  imports PPC_LoadStoreProps
begin

text \<open>
  The reservation of \<open>lwarx\<close> and \<open>stwcxd\<close>, with which programs make atomic updates, and the clearing of a cache line.
\<close>

unbundle bit_operations_syntax

subsection \<open>The reservation\<close>

lemma stwcxd_fails: "\<not> (m_reserve M \<and> Helper_Get_EA_X inst M = m_reserve_address M) \<Longrightarrow> stwcxd hw inst M = Inr (put_CR0 0 M)"
  by (auto simp: stwcxd_def)

lemma stwcxd_succeeds:
  assumes "m_reserve M" and "Helper_Get_EA_X inst M = m_reserve_address M" and "access_ok M (m_reserve_address M) 4" and "memchecks M = []"
    and "\<not> pending_DSI M"
  shows "\<exists>M1. stored (m_reserve_address M) (be_bytes (gpr (ppc M) (RS inst))) M M1 \<and>
    stwcxd hw inst M = Inr (put_CR0 2 (M1\<lparr>m_reserve := False\<rparr>))"
proof -
  obtain M1 where w: "PowerPC_Write hw 4 (ucast (gpr (ppc M) (RS inst))) (m_reserve_address M) M = Inr M1"
    and s: "stored (m_reserve_address M) (be_bytes (gpr (ppc M) (RS inst))) M M1"
    using PowerPC_Write_stored [OF assms(3,4), of hw "ucast (gpr (ppc M) (RS inst))"] by (auto simp: be_bytes_def)
  then show ?thesis using assms stored_same [OF s] by (auto simp: stwcxd_def)
qed

lemma put_CR0_simps [simp]:
  "byte_at (put_CR0 f M) = byte_at M" "access_ok (put_CR0 f M) = access_ok M" "memchecks (put_CR0 f M) = memchecks M"
  "pending_DSI (put_CR0 f M) = pending_DSI M" "m_reserve (put_CR0 f M) = m_reserve M" "m_reserve_address (put_CR0 f M) = m_reserve_address M"
  "gpr (ppc (put_CR0 f M)) = gpr (ppc M)" "xer_ok (ppc (put_CR0 f M)) = xer_ok (ppc M)"
  "byte_at (M\<lparr>m_reserve := r\<rparr>) = byte_at M" "byte_at (M\<lparr>m_reserve := r, m_reserve_address := ra\<rparr>) = byte_at M"
  "access_ok (M\<lparr>m_reserve := r, m_reserve_address := ra\<rparr>) = access_ok M" "pending_DSI (M\<lparr>m_reserve := r, m_reserve_address := ra\<rparr>) = pending_DSI M"
  by (simp_all add: put_CR0_def SetCRField_def fun_eq_iff byte_at_def byte_pointer_def data_address_def access_ok_def bytes_mapped_def
      bats_built_def MSR_DR_def pending_DSI_def xer_ok_def)

lemma EA_X_gpr: "Helper_Get_EA_X j (with_gpr g N) = Helper_Get_EA_X j (with_gpr g M)"
  by (simp add: Helper_Get_EA_X_def)

lemma xer_ok_SO: "xer_ok s \<Longrightarrow> GetXER_SO s = 0 \<or> GetXER_SO s = 1"
proof -
  assume "xer_ok s"
  then have "unat (xer_so_ov s) \<le> 3" by (simp add: xer_ok_def word_le_nat_alt)
  then have "unat (xer_so_ov s) div 2 = 0 \<or> unat (xer_so_ov s) div 2 = 1" by linarith
  moreover have "unat (drop_bit 1 (xer_so_ov s)) = unat (xer_so_ov s) div 2" unfolding unat_drop_bit_eq by (simp add: drop_bit_eq_div)
  ultimately have "unat (drop_bit 1 (xer_so_ov s)) = 0 \<or> unat (drop_bit 1 (xer_so_ov s)) = 1" by simp
  then have "drop_bit 1 (xer_so_ov s) = 0 \<or> drop_bit 1 (xer_so_ov s) = 1"
    by (metis unat_eq_0 unat_1 word_unat_eqI)
  then show ?thesis by (auto simp: GetXER_SO_def)
qed

text \<open>Bit 2 of the condition register is \<open>EQ\<close> of field 0.\<close>

lemma put_CR0_EQ: "xer_ok (ppc M) \<Longrightarrow> GetCRBit 2 (ppc (put_CR0 f M)) = (if f = 2 then 1 else 0)" if "f = 0 \<or> f = 2"
proof -
  assume "xer_ok (ppc M)"
  then have "GetXER_SO (ppc M) = 0 \<or> GetXER_SO (ppc M) = 1" by (rule xer_ok_SO)
  with that show ?thesis by (auto simp: put_CR0_def GetCRBit_SetCRField)
qed

lemma stored_xer_ok: "stored a bs M M' \<Longrightarrow> xer_ok (ppc M') = xer_ok (ppc M)"
  by (simp add: stored_same)

text \<open>
  C14. \<open>lwarx\<close> and \<open>stwcxd\<close> make an atomic update: \<open>lwarx\<close> loads the word; a \<open>stwcxd\<close> to the same address that follows it, with any
  computation in the general registers between them, stores its word, says so in \<open>EQ\<close> and uses the reservation up: the next \<open>stwcxd\<close>, to any address,
  stores nothing and clears \<open>EQ\<close>.
\<close>

theorem reservation_protocol:
  assumes "access_ok M (Helper_Get_EA_X i M) 4" and "memchecks M = []" and "\<not> pending_DSI M" and "xer_ok (ppc M)"
    and "\<And>k. k < 4 \<Longrightarrow> byte_at M (Helper_Get_EA_X i M + of_nat k) = Some (be_bytes w ! k)"
    and "Helper_Get_EA_X j (with_gpr g M) = Helper_Get_EA_X i M"
  shows "\<exists>M1 M2. lwarx hw i M = Inr M1 \<and> gpr (ppc M1) (RD i) = w \<and> stwcxd hw j (with_gpr g M1) = Inr M2 \<and>
    (\<forall>k < 4. byte_at M2 (Helper_Get_EA_X i M + of_nat k) = Some (be_bytes (g (RS j)) ! k)) \<and> GetCRBit 2 (ppc M2) = 1 \<and>
    stwcxd hw l (with_gpr h M2) = Inr (put_CR0 0 (with_gpr h M2)) \<and> GetCRBit 2 (ppc (put_CR0 0 (with_gpr h M2))) = 0"
proof -
  let ?a = "Helper_Get_EA_X i M"
  let ?M1 = "(put_gpr (RD i) w M)\<lparr>m_reserve := True, m_reserve_address := ?a\<rparr>"
  have "PowerPC_Read hw 4 ?a M = Inr (ucast w, M)"
    using PowerPC_Read_bytes [OF assms(1,2) _ assms(5), of hw] by (simp add: be_bytes_value)
  then have l: "lwarx hw i M = Inr ?M1" using assms(3) by (simp add: lwarx_def load_then_def)
  have put: "access_ok (put_gpr k x N) = access_ok N" "pending_DSI (put_gpr k x N) = pending_DSI N" "memchecks (put_gpr k x N) = memchecks N"
    "xer_ok (ppc (put_gpr k x N)) = xer_ok (ppc N)" for k x and N :: "'a Machine"
    by (simp_all add: put_gpr_def set_gpr_def fun_eq_iff byte_at_def byte_pointer_def data_address_def access_ok_def bytes_mapped_def
        bats_built_def MSR_DR_def pending_DSI_def xer_ok_def)
  have xg: "xer_ok (ppc (with_gpr f N)) = xer_ok (ppc N)" for f and N :: "'a Machine" by (simp add: with_gpr_def xer_ok_def)
  obtain M3 where s: "stored ?a (be_bytes (g (RS j))) (with_gpr g ?M1) M3" and st: "stwcxd hw j (with_gpr g ?M1) = Inr (put_CR0 2 (M3\<lparr>m_reserve := False\<rparr>))"
    using stwcxd_succeeds [of "with_gpr g ?M1" j hw] assms(1-3,6) EA_X_gpr [of j g ?M1 M] by (auto simp: put)
  let ?M2 = "put_CR0 2 (M3\<lparr>m_reserve := False\<rparr>)"
  have x: "xer_ok (ppc M3)" using stored_xer_ok [OF s] assms(4) by (simp add: xg put)
  have "\<forall>k < 4. byte_at ?M2 (?a + of_nat k) = Some (be_bytes (g (RS j)) ! k)" using stored_byte [OF s] by simp
  moreover have "GetCRBit 2 (ppc ?M2) = 1" using x by (subst put_CR0_EQ) simp_all
  moreover have "stwcxd hw l (with_gpr h ?M2) = Inr (put_CR0 0 (with_gpr h ?M2))" by (rule stwcxd_fails) simp
  moreover have "GetCRBit 2 (ppc (put_CR0 0 (with_gpr h ?M2))) = 0" using x by (subst put_CR0_EQ) (simp_all add: xg)
  moreover have "gpr (ppc ?M1) (RD i) = w" by (simp add: put_gpr_def set_gpr_def)
  ultimately show ?thesis using l st by blast
qed

theorem reservation_protocol_witness:
  "\<exists>M1 M2. lwarx hw_test 0x7C600828 (with_gpr (\<lambda>_. 0x80000100) machine_test) = Inr M1 \<and>
     stwcxd hw_test 0x7C60092D (with_gpr (\<lambda>_. 0x80000100) M1) = Inr M2 \<and> GetCRBit 2 (ppc M2) = 1"
proof -
  let ?g = "\<lambda>_ :: nat. 0x80000100 :: u32"
  let ?M = "with_gpr ?g machine_test"
  have f: "RA 0x7C600828 = 0" "RB 0x7C600828 = 1" "RA 0x7C60092D = 0" "RB 0x7C60092D = 1" by (simp_all add: ppc_defs bit_field_def)
  have a: "Helper_Get_EA_X 0x7C600828 ?M = 0x80000100" "Helper_Get_EA_X 0x7C60092D (with_gpr ?g ?M) = 0x80000100"
    by (simp_all add: Helper_Get_EA_X_def f)
  have ok: "access_ok machine_test 0x80000100 4" using machine_test_access [of 4 "0x100"] by simp
  then have m: "bytes_mapped machine_test 0x80000100 4" by (simp add: access_ok_def)
  have "\<exists>b. byte_at machine_test (0x80000100 + of_nat k) = Some b" if "k < 4" for k using m that by (auto simp: bytes_mapped_def)
  then obtain f where f: "byte_at machine_test (0x80000100 + of_nat k) = Some (f k)" if "k < 4" for k by metis
  define w where "w = (ucast (le_value (rev (map f [0..<4]))) :: u32)"
  have "ucast w = take_bit 32 (le_value (rev (map f [0..<4])))"
    unfolding w_def by (rule bit_word_eqI) (auto simp: bit_simps)
  then have "be_bytes w = rev (le_bytes 4 (take_bit 32 (le_value (rev (map f [0..<4])))))" by (simp add: be_bytes_def)
  also have "\<dots> = map f [0..<4]" using le_bytes_value [of "rev (map f [0..<4])"] by (simp add: le_bytes_take_bit)
  finally have w: "be_bytes w = map f [0..<4]" .
  have b: "byte_at ?M (Helper_Get_EA_X 0x7C600828 ?M + of_nat k) = Some (be_bytes w ! k)" if "k < 4" for k
    using f [OF that] that by (simp add: a w)
  have x: "xer_ok (ppc ?M)" by (simp add: with_gpr_def machine_test_def Let_def xer_ok_def ppc_zero_def)
  have "access_ok ?M (Helper_Get_EA_X 0x7C600828 ?M) 4" using ok by (simp add: a)
  from reservation_protocol [OF this _ _ x b, where j = "0x7C60092D" and g = ?g and hw = hw_test] show ?thesis
    by (simp add: a(2) a(1)) blast
qed

text \<open>
  C40. A \<open>stwcxd\<close> to another address does not take the reservation away, as the dummy \<open>stwcx.\<close> with which operating systems end the
  reservations of the task they interrupt expects: afterwards another task can store to the reserved word, and the \<open>stwcxd\<close> of the interrupted one
  still stores over it and reports success.
\<close>

theorem reservation_survives_dummy_store:
  assumes "m_reserve M" and "Helper_Get_EA_X i M \<noteq> m_reserve_address M" and "access_ok M (m_reserve_address M) 4" and "memchecks M = []"
    and "\<not> pending_DSI M" and "xer_ok (ppc M)" and "Helper_Get_EA_X j (with_gpr g M) = m_reserve_address M"
  shows "stwcxd hw i M = Inr (put_CR0 0 M) \<and>
    (\<exists>M1. PowerPC_Write hw 4 (ucast (x :: u32)) (m_reserve_address M) (put_CR0 0 M) = Inr M1 \<and>
      (\<exists>M2. stwcxd hw j (with_gpr g M1) = Inr M2 \<and> GetCRBit 2 (ppc M2) = 1 \<and>
        (\<forall>k < 4. byte_at M2 (m_reserve_address M + of_nat k) = Some (be_bytes (g (RS j)) ! k))))"
proof -
  let ?a = "m_reserve_address M" and ?M = "put_CR0 0 M"
  have xg: "xer_ok (ppc (with_gpr f N)) = xer_ok (ppc N)" for f and N :: "'a Machine" by (simp add: with_gpr_def xer_ok_def)
  obtain M1 where w: "PowerPC_Write hw 4 (ucast x) ?a ?M = Inr M1" and s: "stored ?a (rev (le_bytes 4 (ucast x))) ?M M1"
    using PowerPC_Write_stored [of ?M ?a 4 hw "ucast x"] assms(3,4) by auto
  note same = stored_same [OF s]
  obtain M3 where s3: "stored ?a (be_bytes (g (RS j))) (with_gpr g M1) M3" and st: "stwcxd hw j (with_gpr g M1) = Inr (put_CR0 2 (M3\<lparr>m_reserve := False\<rparr>))"
    using stwcxd_succeeds [of "with_gpr g M1" j hw] assms(1,4,5,7) same stored_access_ok [OF s, of ?a 4] assms(3) EA_X_gpr [of j g M1 M] by auto
  have "xer_ok (ppc M3)" using stored_xer_ok [OF s3] stored_xer_ok [OF s] assms(6) by (simp add: xg)
  then have "GetCRBit 2 (ppc (put_CR0 2 (M3\<lparr>m_reserve := False\<rparr>))) = 1" by (subst put_CR0_EQ) simp_all
  moreover have "\<forall>k < 4. byte_at (put_CR0 2 (M3\<lparr>m_reserve := False\<rparr>)) (?a + of_nat k) = Some (be_bytes (g (RS j)) ! k)"
    using stored_byte [OF s3] by simp
  moreover have "stwcxd hw i M = Inr ?M" using assms(2) by (intro stwcxd_fails) simp
  ultimately show ?thesis using w st by blast
qed

theorem reservation_survives_dummy_store_witness:
  "\<exists>M1 M2. PowerPC_Write hw_test 4 (ucast (7 :: u32)) 0x80000100
       (put_CR0 0 ((with_gpr (\<lambda>k. if k = 1 then 0x80000200 else 0x80000100) machine_test)\<lparr>m_reserve := True, m_reserve_address := 0x80000100\<rparr>)) = Inr M1 \<and>
     stwcxd hw_test 0x7C60112D (with_gpr (\<lambda>k. if k = 1 then 0x80000200 else 0x80000100) M1) = Inr M2 \<and> GetCRBit 2 (ppc M2) = 1"
proof -
  let ?g = "\<lambda>k :: nat. if k = 1 then 0x80000200 else 0x80000100 :: u32"
  let ?M = "(with_gpr ?g machine_test)\<lparr>m_reserve := True, m_reserve_address := 0x80000100\<rparr>"
  have f: "RA 0x7C60092D = 0" "RB 0x7C60092D = 1" "RA 0x7C60112D = 0" "RB 0x7C60112D = 2" by (simp_all add: ppc_defs bit_field_def)
  have g: "gpr (ppc ?M) = ?g" by (simp add: with_gpr_def)
  have a: "Helper_Get_EA_X 0x7C60092D ?M = 0x80000200" "Helper_Get_EA_X 0x7C60112D (with_gpr ?g ?M) = m_reserve_address ?M"
    unfolding Helper_Get_EA_X_def f g by simp_all
  have ok: "access_ok ?M (m_reserve_address ?M) 4" using machine_test_access [of 4 "0x100"] by simp
  have x: "xer_ok (ppc ?M)" by (simp add: with_gpr_def machine_test_def Let_def xer_ok_def ppc_zero_def)
  have ne: "Helper_Get_EA_X 0x7C60092D ?M \<noteq> m_reserve_address ?M" unfolding a(1) by simp
  have "m_reserve ?M" "memchecks ?M = []" "\<not> pending_DSI ?M" by simp_all
  from reservation_survives_dummy_store [OF this(1) ne ok this(2,3) x a(2), where hw = hw_test and x = 7] show ?thesis by auto
qed

subsection \<open>Clearing a cache line\<close>

lemma data_address_add:
  assumes built: "bats_built M" and p: "data_address M a = Some p" and i: "unat (take_bit 12 a) + i < 4096"
  shows "data_address M (a + of_nat i) = Some (p + of_nat i)"
proof -
  have off: "take_bit 12 p = take_bit 12 a" using data_address_page [OF built p refl] p by auto
  then have i': "unat (take_bit 12 p) + i < 4096" using i by simp
  obtain z where z: "data_address M (a + of_nat i) = Some z" "drop_bit 12 z = drop_bit 12 p" "take_bit 12 z = take_bit 12 (a + of_nat i)"
    using data_address_page [OF built p add_in_page(1) [OF i]] by blast
  have "z = p + of_nat i" by (rule byte_eqI) (use z(2,3) off in \<open>simp_all only: add_in_page [OF i] add_in_page [OF i']\<close>)
  with z(1) show ?thesis by simp
qed

lemma stored_data_address: "stored a bs M M' \<Longrightarrow> data_address M' b = data_address M b"
  by (simp add: data_address_def stored_same)

lemma le_bytes_zero: "le_bytes n 0 = replicate n 0"
  by (induction n) simp_all

lemma clear_words_stored:
  assumes "bats_built M" and "bytes_mapped M a (8 * k)" and "unat (take_bit 12 a) + 8 * k \<le> 4096" and "data_address M a = Some p" and "k \<le> 4"
  shows "\<exists>M'. clear_words hw k p M = Inr M' \<and> stored a (replicate (8 * k) 0) M M'"
  using assms
proof (induction k arbitrary: a p M)
  case 0
  then show ?case by (simp add: stored_Nil)
next
  case (Suc k)
  have nc: "\<not> crosses_page a 8" using Suc.prems(3) by (simp add: crosses_page_def and_eq_bits)
  have m8: "bytes_mapped M a 8" using Suc.prems(2) by (simp add: bytes_mapped_def)
  obtain M1 where w: "WritePhysical hw FLAG_WRITE 8 p 0 M = Inr M1" and s: "stored a (rev (le_bytes 8 0)) M M1"
    using WritePhysical_stored [OF _ m8 Suc.prems(1) nc _ Suc.prems(4), of hw FLAG_WRITE 0] by auto
  have s8: "stored a (replicate 8 0) M M1" using s by (simp add: le_bytes_zero)
  have addr: "a + 8 + of_nat i = a + of_nat (8 + i)" for i by simp
  have "\<exists>M'. clear_words hw k (p + 8) M1 = Inr M' \<and> stored (a + 8) (replicate (8 * k) 0) M1 M'"
  proof (cases "k = 0")
    case False
    then have k: "unat (take_bit 12 a) + 8 < 4096" using Suc.prems(3) by simp
    note page = add_in_page [of a 8, OF k]
    have "unat (take_bit 12 a + 8) = unat (take_bit 12 a) + 8" using k by (simp add: unat_word_ariths)
    then have t: "unat (take_bit 12 (a + 8)) = unat (take_bit 12 a) + 8" using page(2) by simp
    show ?thesis
    proof (rule Suc.IH)
      show "bats_built M1" using Suc.prems(1) by (simp add: bats_built_def stored_same [OF s])
      show "bytes_mapped M1 (a + 8) (8 * k)"
        unfolding bytes_mapped_def addr
      proof (intro allI impI)
        fix i assume "i < 8 * k"
        then show "byte_at M1 (a + of_nat (8 + i)) \<noteq> None"
          using Suc.prems(2) [unfolded bytes_mapped_def, rule_format, of "8 + i"] by (intro stored_mapped [OF s]) simp
      qed
      show "unat (take_bit 12 (a + 8)) + 8 * k \<le> 4096" using Suc.prems(3) t by simp
      show "data_address M1 (a + 8) = Some (p + 8)"
        using data_address_add [OF Suc.prems(1,4) k] by (simp add: stored_data_address [OF s])
    qed (use Suc.prems in simp)
  qed (simp add: stored_Nil)
  then obtain M' where c: "clear_words hw k (p + 8) M1 = Inr M'" and s2: "stored (a + 8) (replicate (8 * k) 0) M1 M'" by blast
  have inj: "inj_on (\<lambda>i. byte_pointer M (a + of_nat i)) {..<8 + 8 * k}"
  proof (rule inj_onI)
    fix i j assume i: "i \<in> {..<8 + 8 * k}" and j: "j \<in> {..<8 + 8 * k}" and eq: "byte_pointer M (a + of_nat i) = byte_pointer M (a + of_nat j)"
    obtain q where q: "byte_pointer M a = Some q" using bytes_mapped_pointer [OF m8, of 0] by auto
    have ptr: "byte_pointer M (a + of_nat x) = Some (q + of_nat x)" if "x < 8 + 8 * k" for x
      using Suc.prems(3) that by (intro byte_pointer_add [OF Suc.prems(1) q]) simp
    have "(of_nat i :: u32) = of_nat j" using eq ptr [of i] ptr [of j] i j by simp
    moreover have "unat (of_nat x :: u32) = x" if "x < 8 + 8 * k" for x using that Suc.prems(5) by (intro unat_of_nat_u32) simp
    ultimately show "i = j" using i j by (metis lessThan_iff)
  qed
  have "stored a (replicate 8 0 @ replicate (8 * k) 0) M M'" using inj s2 by (intro stored_append [OF s8]) simp_all
  then show ?case using w c by (simp add: replicate_add [symmetric])
qed

text \<open>
  C39. \<open>dcbz\<close> sets the 32 bytes of the cache line of its address to zero, whatever the alignment of the address, and changes nothing else; with
  either of the two settings that switch it off it changes nothing.
\<close>

theorem dcbz_clears_line:
  assumes "bats_built M" and "bytes_mapped M (Helper_Get_EA_X inst M AND NOT 31) 32"
  shows "\<exists>M'. dcbz hw inst M = Inr M' \<and>
    (if bDCBZOFF M \<or> bLowDCBZHack M \<and> unat (Helper_Get_EA_X inst M) div 0x8000 = 0x10000 then M' = M
     else stored (Helper_Get_EA_X inst M AND NOT 31) (replicate 32 0) M M')"
proof -
  let ?e = "Helper_Get_EA_X inst M" and ?a = "Helper_Get_EA_X inst M AND NOT 31"
  have low: "?e < 0x80008000 \<and> ?e \<ge> 0x80000000 \<longleftrightarrow> unat ?e div 0x8000 = 0x10000"
    by (simp add: word_less_nat_alt word_le_nat_alt) linarith
  have "(NOT 31 :: u32) = push_bit 5 (mask 27)" by (simp add: push_bit_eq_mult mask_eq_exp_minus_1)
  then have a: "?a = push_bit 5 (drop_bit 5 ?e)" by (simp only: and_top)
  have "take_bit 12 (push_bit 5 (drop_bit 5 ?e)) = push_bit 5 (take_bit 7 (drop_bit 5 ?e))" by (rule bit_word_eqI) (auto simp: bit_simps)
  moreover have "unat (take_bit 7 (drop_bit 5 ?e)) < 2 ^ 7" by (simp only: unat_take_bit) simp
  ultimately have page: "unat (take_bit 12 ?a) + 32 \<le> 4096"
    unfolding a by (simp add: push_bit_eq_mult unat_word_ariths)
  obtain p where p: "data_address M ?a = Some p"
    using bytes_mapped_pointer [OF assms(2), of 0] goes_to_ram_address [of M ?a] by auto
  obtain M' where c: "clear_words hw 4 p M = Inr M'" and s: "stored ?a (replicate 32 0) M M'"
    using clear_words_stored [OF assms(1) _ _ p, of 4 hw] assms(2) page by auto
  have "ClearCacheLine hw ?a M = Inr M'"
  proof (cases "MSR_DR (ppc M)")
    case True
    then show ?thesis using c translate_data [OF p True, of FLAG_WRITE] by (simp add: ClearCacheLine_def IsOpcodeFlag_def)
  next
    case False
    then have "p = ?a" using p by (simp add: data_address_def)
    then show ?thesis using False c by (simp add: ClearCacheLine_def)
  qed
  then show ?thesis using s low by (auto simp: dcbz_def Let_def)
qed

theorem dcbz_clears_line_witness:
  "\<exists>M'. dcbz hw_test 0x7C0007EC (with_gpr (\<lambda>_. 0x80000123) machine_test) = Inr M' \<and>
     stored 0x80000120 (replicate 32 0) (with_gpr (\<lambda>_. 0x80000123) machine_test) M'"
proof -
  let ?M = "with_gpr (\<lambda>_. 0x80000123) machine_test"
  have f: "RA 0x7C0007EC = 0" "RB 0x7C0007EC = 0" by (simp_all add: ppc_defs bit_field_def)
  have a: "Helper_Get_EA_X 0x7C0007EC ?M = 0x80000123" by (simp add: Helper_Get_EA_X_def f)
  have "byte_at ?M (0x80000120 + of_nat i) \<noteq> None" if "i < 32" for i
    using machine_test_byte(2) [of "0x120 + i"] that by (simp add: add.assoc [symmetric])
  then have m: "bytes_mapped ?M (Helper_Get_EA_X 0x7C0007EC ?M AND NOT 31) 32" by (simp add: a bytes_mapped_def)
  have b: "bats_built ?M" using machine_test_ok(3) by (simp add: bats_built_def)
  have "\<not> bDCBZOFF ?M" "\<not> bLowDCBZHack ?M" by (simp_all add: with_gpr_def machine_test_def Let_def)
  with dcbz_clears_line [OF b m, of hw_test] show ?thesis by (simp add: a)
qed

end
