(* ===== verification/PPC_Strings.thy ===== *)
theory PPC_Strings
  imports PPC_LoadStoreProps
begin

text \<open>
  The string instructions \<open>stswi\<close> and \<open>lswi\<close>: the bytes of up to eight registers, which may run over register 31 to register 0, are stored
  and loaded.
\<close>

unbundle bit_operations_syntax

subsection \<open>Positions in a string\<close>

definition string_reg :: "nat \<Rightarrow> nat \<Rightarrow> nat" where "string_reg rd t = (rd + t div 4) mod 32"

text \<open>The variables of the loops when \<open>t\<close> bytes are done.\<close>

definition loop_pos :: "nat \<Rightarrow> nat \<Rightarrow> int \<Rightarrow> nat \<Rightarrow> bool" where
  "loop_pos rd t r i \<longleftrightarrow> i = 8 * (t mod 4) \<and> (if t mod 4 = 0 then (r + 1) mod 32 else r) = int (string_reg rd t)"

lemma loop_pos_start: "loop_pos rd 0 (int rd - 1) 0"
  by (simp add: loop_pos_def string_reg_def zmod_int)

lemma loop_pos_zero: "loop_pos rd t r i \<Longrightarrow> i = 0 \<longleftrightarrow> t mod 4 = 0"
  by (auto simp: loop_pos_def)

lemma loop_pos_reg: "loop_pos rd t r i \<Longrightarrow> (if i = 0 then (r + 1) mod 32 else r) = int (string_reg rd t)"
  by (auto simp: loop_pos_def split: if_splits)

lemma loop_pos_Suc: "loop_pos rd t r i \<Longrightarrow> loop_pos rd (Suc t) (int (string_reg rd t)) (next_shift i)"
proof -
  assume p: "loop_pos rd t r i"
  have t: "t mod 4 < 4" by simp
  show ?thesis
  proof (cases "t mod 4 = 3")
    case True
    then have s: "Suc t mod 4 = 0" "Suc t div 4 = Suc (t div 4)" by (simp_all add: mod_Suc div_Suc)
    have "(int (string_reg rd t) + 1) mod 32 = int (string_reg rd (Suc t))"
      by (simp add: string_reg_def s zmod_int mod_simps ac_simps)
    then show ?thesis using p True by (simp add: loop_pos_def s(1) next_shift_def)
  next
    case False
    then have s: "Suc t mod 4 = Suc (t mod 4)" "Suc t div 4 = t div 4" using t by (simp_all add: mod_Suc div_Suc)
    then show ?thesis using p False by (simp add: loop_pos_def string_reg_def next_shift_def)
  qed
qed

definition string_byte :: "(nat \<Rightarrow> u32) \<Rightarrow> nat \<Rightarrow> nat \<Rightarrow> u8" where
  "string_byte f rd t = ucast (drop_bit (24 - 8 * (t mod 4)) (f (string_reg rd t)))"

definition bytes_ok :: "'d Machine \<Rightarrow> u32 \<Rightarrow> nat \<Rightarrow> bool" where
  "bytes_ok M a n \<longleftrightarrow> (\<forall>j < n. access_ok M (a + of_nat j) 1) \<and> inj_on (\<lambda>j. byte_pointer M (a + of_nat j)) {..<n}"

lemma bytes_ok_Suc: "bytes_ok M a (Suc n) \<Longrightarrow> access_ok M a 1 \<and> bytes_ok M (a + 1) n"
proof -
  assume ok: "bytes_ok M a (Suc n)"
  have addr: "a + 1 + of_nat j = a + of_nat (Suc j)" for j by simp
  have "inj_on (\<lambda>j. byte_pointer M (a + 1 + of_nat j)) {..<n}"
  proof (rule inj_onI)
    fix i j assume i: "i \<in> {..<n}" and j: "j \<in> {..<n}" and "byte_pointer M (a + 1 + of_nat i) = byte_pointer M (a + 1 + of_nat j)"
    with ok have "Suc i = Suc j" unfolding bytes_ok_def addr by (intro inj_onD [of "\<lambda>j. byte_pointer M (a + of_nat j)" "{..<Suc n}"]) auto
    then show "i = j" by simp
  qed
  moreover have "access_ok M (a + 1 + of_nat j) 1" if "j < n" for j
    using ok that unfolding bytes_ok_def addr by (meson Suc_less_eq)
  moreover have "access_ok M (a + of_nat 0) 1" using ok unfolding bytes_ok_def by (meson zero_less_Suc)
  ultimately show ?thesis by (simp add: bytes_ok_def)
qed

lemma bytes_ok_stored: "stored b bs M M' \<Longrightarrow> bytes_ok M a n \<Longrightarrow> bytes_ok M' a n"
  by (auto simp: bytes_ok_def stored_pointer stored_access_ok)

lemma bytes_ok_gpr [simp]: "bytes_ok (with_gpr g M) a n = bytes_ok M a n"
  by (simp add: bytes_ok_def)

subsection \<open>Storing\<close>

lemma map_upt_Suc0: "map f [0..<Suc n] = f 0 # map (\<lambda>j. f (Suc j)) [0..<n]"
  by (simp add: upt_conv_Cons map_Suc_upt [symmetric] comp_def del: upt_Suc map_Suc_upt)

lemma stswi_loop_stores:
  assumes "loop_pos rd t r i" and "bytes_ok M a n" and "memchecks M = []" and "\<not> pending_DSI M"
  shows "\<exists>M'. stswi_loop hw n r i a M = Inr M' \<and> stored a (map (\<lambda>j. string_byte (gpr (ppc M)) rd (t + j)) [0..<n]) M M'"
  using assms
proof (induction n arbitrary: t r i a M)
  case 0
  then show ?case by (simp add: stored_Nil)
next
  case (Suc n)
  let ?r = "int (string_reg rd t)" and ?g = "gpr (ppc M)"
  let ?v = "ucast (drop_bit (24 - i) (?g (nat ?r)) AND 0xFF) :: u64"
  note ok = bytes_ok_Suc [OF Suc.prems(2)]
  have i: "i = 8 * (t mod 4)" using Suc.prems(1) by (simp add: loop_pos_def)
  have "(ucast (ucast (x AND 0xFF) :: u64) :: u8) = ucast x" for x :: u32
  proof -
    have "x AND 0xFF = take_bit 8 x" by (simp add: take_bit_eq_mask mask_eq_exp_minus_1)
    then show ?thesis by (simp only:) (rule bit_word_eqI, auto simp: bit_simps)
  qed
  then have v: "rev (le_bytes 1 ?v) = [string_byte ?g rd t]" by (simp add: le_bytes_1 string_byte_def i del: One_nat_def)
  obtain M1 where w: "PowerPC_Write hw 1 ?v a M = Inr M1" and s: "stored a [string_byte ?g rd t] M M1"
    using PowerPC_Write_stored [OF conjunct1 [OF ok] Suc.prems(3), of hw ?v] unfolding v by blast
  note same = stored_same [OF s]
  obtain M' where M': "stswi_loop hw n ?r (next_shift i) (a + 1) M1 = Inr M'"
    and s2: "stored (a + 1) (map (\<lambda>j. string_byte (gpr (ppc M1)) rd (Suc t + j)) [0..<n]) M1 M'"
    using Suc.IH [OF loop_pos_Suc [OF Suc.prems(1)] bytes_ok_stored [OF s conjunct2 [OF ok]]] same Suc.prems(3,4) by auto
  have "stored a ([string_byte ?g rd t] @ map (\<lambda>j. string_byte ?g rd (Suc t + j)) [0..<n]) M M'"
    using s2 Suc.prems(2) same(1) by (intro stored_append [OF s]) (simp_all add: bytes_ok_def)
  moreover have "stswi_loop hw (Suc n) r i a M = Inr M'"
    unfolding stswi_loop.simps Let_def loop_pos_reg [OF Suc.prems(1)] using w M' same(5) Suc.prems(4) by (simp del: One_nat_def)
  ultimately show ?case by (simp only: map_upt_Suc0 add_Suc_right add_Suc add_0_right append_Cons append_Nil) auto
qed

subsection \<open>Loading\<close>

text \<open>One byte arrives in a register file; the first of a register clears it.\<close>

definition string_step :: "(nat \<Rightarrow> u32) \<Rightarrow> nat \<Rightarrow> nat \<Rightarrow> (nat \<Rightarrow> u32) \<Rightarrow> nat \<Rightarrow> u32" where
  "string_step f rd t g = (let k = string_reg rd t in
     g(k := (if t mod 4 = 0 then 0 else g k) OR push_bit (24 - 8 * (t mod 4)) (ucast (string_byte f rd t))))"

lemma lswi_loop_loads:
  assumes "loop_pos rd t r i" and "bytes_ok M a n" and "memchecks M = []" and "\<not> pending_DSI M"
    and "\<And>j. j < n \<Longrightarrow> byte_at M (a + of_nat j) = Some (string_byte f rd (t + j))"
  shows "lswi_loop hw n r i a M = Inr (with_gpr (fold (string_step f rd) [t..<t + n] (gpr (ppc M))) M)"
  using assms
proof (induction n arbitrary: t r i a M)
  case (Suc n)
  let ?r = "string_reg rd t"
  note ok = bytes_ok_Suc [OF Suc.prems(2)]
  let ?M = "if i = 0 then put_gpr ?r 0 M else M"
  have put: "byte_at (put_gpr k x N) = byte_at N" "access_ok (put_gpr k x N) = access_ok N" "bytes_ok (put_gpr k x N) b m = bytes_ok N b m"
    "memchecks (put_gpr k x N) = memchecks N" "pending_DSI (put_gpr k x N) = pending_DSI N" for k x b m and N :: "'a Machine"
    using with_gpr_simps(1-5) [of "(gpr (ppc N))(k := x)" N] bytes_ok_gpr [of "(gpr (ppc N))(k := x)" N]
    by (simp_all add: put_gpr_def set_gpr_def with_gpr_def)
  have "PowerPC_Read hw 1 a ?M = Inr (le_value (rev [string_byte f rd t]), ?M)"
    using ok Suc.prems(3) Suc.prems(5) [of 0] by (intro PowerPC_Read_bytes) (simp_all add: put)
  then have rd: "PowerPC_Read hw 1 a ?M = Inr (ucast (string_byte f rd t), ?M)" by simp
  have b32: "ucast (ucast (b :: u8) :: u64) = (ucast b :: u32)" for b by (rule bit_word_eqI) (auto simp: bit_simps)
  have i: "i = 8 * (t mod 4)" using Suc.prems(1) by (simp add: loop_pos_def)
  have p: "\<not> pending_DSI ?M" using Suc.prems(4) by (simp add: put)
  let ?M1 = "put_gpr ?r (gpr (ppc ?M) ?r OR push_bit (24 - i) (ucast (string_byte f rd t))) ?M"
  have g: "gpr (ppc ?M1) = string_step f rd t (gpr (ppc M))"
    using loop_pos_zero [OF Suc.prems(1)] by (auto simp: string_step_def Let_def put_gpr_def set_gpr_def i fun_eq_iff)
  have "lswi_loop hw (Suc n) r i a M = lswi_loop hw n (int ?r) (next_shift i) (a + 1) ?M1"
    unfolding lswi_loop.simps Let_def loop_pos_reg [OF Suc.prems(1)] nat_int load_then_def rd and_then_Inr prod.case if_not_P [OF p] b32 by (rule refl)
  also have "\<dots> = Inr (with_gpr (fold (string_step f rd) [Suc t..<Suc t + n] (gpr (ppc ?M1))) ?M1)"
  proof (rule Suc.IH [OF loop_pos_Suc [OF Suc.prems(1)]])
    show "byte_at ?M1 (a + 1 + of_nat j) = Some (string_byte f rd (Suc t + j))" if "j < n" for j
      using Suc.prems(5) [of "Suc j"] that by (simp add: put add.assoc)
  qed (use ok Suc.prems(3,4) in \<open>simp_all add: put\<close>)
  also have "\<dots> = Inr (with_gpr (fold (string_step f rd) [t..<t + Suc n] (gpr (ppc M))) M)"
  proof -
    have "with_gpr h ?M1 = with_gpr h M" for h by (simp add: with_gpr_def put_gpr_def set_gpr_def)
    moreover have "[t..<t + Suc n] = t # [Suc t..<Suc t + n]" by (simp add: upt_conv_Cons)
    ultimately show ?thesis by (simp only: g fold_simps)
  qed
  finally show ?case .
qed simp

text \<open>The register file when \<open>t\<close> bytes have arrived.\<close>

definition string_regs :: "(nat \<Rightarrow> u32) \<Rightarrow> nat \<Rightarrow> nat \<Rightarrow> (nat \<Rightarrow> u32) \<Rightarrow> nat \<Rightarrow> u32" where
  "string_regs f rd t g = (\<lambda>k. let j = (k + 32 - rd) mod 32 in
     if k < 32 \<and> 4 * j < t then f k AND NOT (mask (8 * (4 - min 4 (t - 4 * j)))) else g k)"

lemma string_regs_step:
  assumes "rd < 32" and "t < 32"
  shows "string_step f rd t (string_regs f rd t g) = string_regs f rd (Suc t) g"
proof
  fix k
  let ?k = "string_reg rd t" and ?m = "t mod 4"
  have t8: "t div 4 < 8" "t = 4 * (t div 4) + ?m" "?m < 4" using assms(2) by auto
  have k32: "?k < 32" by (simp add: string_reg_def)
  have j: "(?k + 32 - rd) mod 32 = t div 4"
  proof (cases "rd + t div 4 < 32")
    case True
    then have "?k = rd + t div 4" by (simp add: string_reg_def)
    then show ?thesis using t8(1) by simp
  next
    case False
    then have "?k = rd + t div 4 - 32" using assms(1) t8(1) by (simp add: string_reg_def le_mod_geq)
    then show ?thesis using False t8(1) assms(1) by simp
  qed
  show "string_step f rd t (string_regs f rd t g) k = string_regs f rd (Suc t) g k"
  proof (cases "k = ?k")
    case True
    have old: "(if ?m = 0 then 0 else string_regs f rd t g ?k) = f ?k AND NOT (mask (8 * (4 - ?m)))"
    proof (cases "?m = 0")
      case True
      have "f ?k AND NOT (mask 32) = 0" by (rule bit_word_eqI) (auto simp: bit_simps)
      with True show ?thesis by simp
    next
      case False
      then have "4 * (t div 4) < t" "t - 4 * (t div 4) = ?m" "min 4 ?m = ?m" using t8 by linarith+
      then show ?thesis using False k32 by (simp only: string_regs_def Let_def j) simp
    qed
    have new: "string_regs f rd (Suc t) g ?k = f ?k AND NOT (mask (8 * (3 - ?m)))"
    proof -
      have "4 * (t div 4) < Suc t" "min 4 (Suc t - 4 * (t div 4)) = Suc ?m" using t8 by linarith+
      then show ?thesis using k32 by (simp only: string_regs_def Let_def j) simp
    qed
    have "f ?k AND NOT (mask (8 * (4 - ?m))) OR push_bit (24 - 8 * ?m) (ucast (ucast (drop_bit (24 - 8 * ?m) (f ?k)) :: u8)) =
        f ?k AND NOT (mask (8 * (3 - ?m)))"
    proof (rule bit_word_eqI)
      fix n assume n: "n < LENGTH(32)"
      have "8 * (4 - x) = 8 * (3 - x) + 8 \<and> 24 - 8 * x = 8 * (3 - x)" if "x < 4" for x :: nat using that by arith
      then have e: "8 * (4 - ?m) = 8 * (3 - ?m) + 8" "24 - 8 * ?m = 8 * (3 - ?m)" using t8(3) by blast+
      show "bit (f ?k AND NOT (mask (8 * (4 - ?m))) OR push_bit (24 - 8 * ?m) (ucast (ucast (drop_bit (24 - 8 * ?m) (f ?k)) :: u8))) n =
          bit (f ?k AND NOT (mask (8 * (3 - ?m)))) n"
        unfolding e using n by (auto simp: bit_simps simp del: mask_numeral)
    qed
    then show ?thesis unfolding True new by (simp only: string_step_def Let_def fun_upd_same old string_byte_def)
  next
    case False
    have "4 * ((k + 32 - rd) mod 32) < Suc t \<longleftrightarrow> 4 * ((k + 32 - rd) mod 32) < t" if "k < 32"
    proof -
      have "(k + 32 - rd) mod 32 \<noteq> t div 4"
      proof
        assume "(k + 32 - rd) mod 32 = t div 4"
        with j have "(k + 32 - rd) mod 32 = (?k + 32 - rd) mod 32" by simp
        then have "(k + 32 - rd + rd) mod 32 = (?k + 32 - rd + rd) mod 32" by (metis mod_add_left_eq)
        with that k32 assms(1) False show False by simp
      qed
      with t8 show ?thesis by linarith
    qed
    moreover have "min 4 (Suc t - 4 * x) = min 4 (t - 4 * x)" if "4 * x < t" "x \<noteq> t div 4" for x using that t8 by linarith
    moreover have "(k + 32 - rd) mod 32 \<noteq> t div 4" if "k < 32"
    proof
      assume "(k + 32 - rd) mod 32 = t div 4"
      with j have "(k + 32 - rd) mod 32 = (?k + 32 - rd) mod 32" by simp
      then have "(k + 32 - rd + rd) mod 32 = (?k + 32 - rd + rd) mod 32" by (metis mod_add_left_eq)
      with that k32 assms(1) False show False by simp
    qed
    ultimately show ?thesis using False by (auto simp: string_step_def string_regs_def Let_def)
  qed
qed

lemma string_regs_fold: "rd < 32 \<Longrightarrow> n \<le> 32 \<Longrightarrow> fold (string_step f rd) [0..<n] g = string_regs f rd n g"
proof (induction n)
  case 0
  then show ?case by (simp add: string_regs_def Let_def fun_eq_iff)
qed (simp add: string_regs_step)

lemma string_length_le: "string_length inst \<le> 32"
  using unsigned_less [of "take_bit 5 (drop_bit 11 inst)", where ?'a = nat] by (simp add: string_length_def NB_def bit_field_def unat_take_bit less_imp_le)

text \<open>
  C38. A string of registers comes back: \<open>stswi\<close> of 1 to 32 bytes from any register on, over register 31 to register 0 where it goes so far,
  returns and changes nothing but its bytes of memory, and \<open>lswi\<close> with the same operands gives every register that was stored whole its value, the register
  of the last bytes these bytes followed by zeros, and leaves the other registers alone.
\<close>

theorem store_string_load_string:
  assumes "bytes_ok M (string_address inst M) (string_length inst)" and "memchecks M = []" and "\<not> pending_DSI M"
    and "RA inst = 0 \<or> g (RA inst) = gpr (ppc M) (RA inst)"
  shows "\<exists>M1. stswi hw inst M = Inr M1 \<and> M1 = M\<lparr>mem := mem M1\<rparr> \<and>
    lswi hw inst (with_gpr g M1) = Inr (with_gpr (\<lambda>k. let j = (k + 32 - RS inst) mod 32; n = string_length inst in
      if k < 32 \<and> 4 * j < n then gpr (ppc M) k AND NOT (mask (8 * (4 - min 4 (n - 4 * j)))) else g k) M1)"
proof -
  let ?a = "string_address inst M" and ?n = "string_length inst" and ?f = "gpr (ppc M)"
  have r: "RD inst = RS inst" "RS inst < 32" by (simp_all add: RD_def RS_def bit_field_def unat_take_bit)
  obtain M1 where st: "stswi hw inst M = Inr M1" and s: "stored ?a (map (string_byte ?f (RS inst)) [0..<?n]) M M1"
    using stswi_loop_stores [OF loop_pos_start assms(1-3), of hw "RS inst"] by (auto simp: stswi_def)
  note same = stored_same [OF s]
  have a: "string_address inst (with_gpr g M1) = ?a" using assms(4) by (auto simp: string_address_def)
  have "lswi_loop hw ?n (int (RS inst) - 1) 0 ?a (with_gpr g M1) =
      Inr (with_gpr (fold (string_step ?f (RS inst)) [0..<0 + ?n] (gpr (ppc (with_gpr g M1)))) (with_gpr g M1))"
    using bytes_ok_stored [OF s assms(1)] assms(2,3) same stored_byte [OF s] by (intro lswi_loop_loads [OF loop_pos_start]) simp_all
  moreover have "with_gpr h (with_gpr g M1) = with_gpr h M1" for h by (simp add: with_gpr_def)
  ultimately have "lswi hw inst (with_gpr g M1) = Inr (with_gpr (string_regs ?f (RS inst) ?n g) M1)"
    using string_regs_fold [OF r(2) string_length_le] by (simp add: lswi_def a r(1))
  with st s show ?thesis by (auto simp: stored_def string_regs_def Let_def)
qed

lemma machine_test_bytes: "i + n \<le> 0x2000 \<Longrightarrow> bytes_ok machine_test (0x80000000 + of_nat i) n"
proof -
  assume i: "i + n \<le> 0x2000"
  have "access_ok machine_test (0x80000000 + of_nat i + of_nat j) 1" if "j < n" for j
    using machine_test_access [of 1 "i + j"] i that by (simp add: add.assoc)
  then show ?thesis using machine_test_inj [OF i] by (simp add: bytes_ok_def)
qed

theorem store_string_load_string_witness:
  "\<exists>M1. stswi hw_test 0x7FC14DAA (with_gpr (\<lambda>_. 0x80000FFC) machine_test) = Inr M1"
proof -
  have f: "RS 0x7FC14DAA = 30" "RA 0x7FC14DAA = 1" "NB 0x7FC14DAA = 9" by (simp_all add: ppc_defs bit_field_def)
  have "bytes_ok machine_test (0x80000000 + of_nat 0xFFC) 9" by (rule machine_test_bytes) simp
  then show ?thesis
    using store_string_load_string [of "with_gpr (\<lambda>_. 0x80000FFC) machine_test" "0x7FC14DAA" "\<lambda>_. 0x80000FFC" hw_test]
    by (auto simp: string_address_def string_length_def f)
qed

end
