(* ===== verification/PPC_Timers.thy ===== *)
theory PPC_Timers
  imports PPC_Exceptions CoreTiming
begin

text \<open>
  The decrementer and the time base of the main processor, and the clock of the cheat engine
  (\<^verbatim>\<open>Core/HW/SystemTimers.cpp\<close>). Both registers count once in \<open>TIMER_RATIO\<close> cycles of the processor; the emulator keeps
  the value and the time of the last write and computes a register when it is read. An event of the scheduler stands
  for the interrupt of the decrementer.
\<close>

unbundle bit_operations_syntax

abbreviation (input) "SPR_DEC \<equiv> 22 :: nat"
abbreviation (input) "SPR_TL \<equiv> 268 :: nat"
abbreviation (input) "SPR_TU \<equiv> 269 :: nat"
abbreviation (input) "TIMER_RATIO \<equiv> 12"

subsection \<open>Operations\<close>

text \<open>\<open>GetTicks\<close> has 64 bits.\<close>

definition ticks :: "CoreTiming \<Rightarrow> u64" where "ticks g = word_of_int (GetTicks g)"

definition DecrementerCallback :: "PowerPCState \<Rightarrow> PowerPCState" where
  "DecrementerCallback s =
     (let s1 = set_spr SPR_DEC 0xFFFFFFFF s in s1\<lparr>Exceptions := Exceptions s1 OR EXCEPTION_DECREMENTER\<rparr>)"

text \<open>\<open>decValue * TIMER_RATIO\<close> is a product of 32 bits.\<close>

definition DecrementerSet :: "PowerPCState \<Rightarrow> CoreTiming \<Rightarrow> CoreTiming" where
  "DecrementerSet s g =
     (let decValue = spr s SPR_DEC; g1 = RemoveEvent ''DecCallback'' g in
      if decValue AND 0x80000000 = 0 then
        let g2 = SetFakeDecStartTicks (ticks g1) g1;
            g3 = SetFakeDecStartValue decValue g2
        in ScheduleEvent (uint (decValue * TIMER_RATIO)) ''DecCallback'' 0 True g3
      else g1)"

definition GetFakeDecrementer :: "CoreTiming \<Rightarrow> u32" where
  "GetFakeDecrementer g = GetFakeDecStartValue g - ucast ((ticks g - GetFakeDecStartTicks g) div TIMER_RATIO)"

text \<open>\<open>TL\<close> and \<open>TU\<close> are neighbours in the array \<open>spr\<close> and are read as one word of 64 bits, \<open>TL\<close> the lower half.\<close>

definition TimeBaseSet :: "PowerPCState \<Rightarrow> CoreTiming \<Rightarrow> CoreTiming" where
  "TimeBaseSet s g =
     SetFakeTBStartValue (push_bit 32 (ucast (spr s SPR_TU)) OR ucast (spr s SPR_TL)) (SetFakeTBStartTicks (ticks g) g)"

definition GetFakeTimeBase :: "CoreTiming \<Rightarrow> u64" where
  "GetFakeTimeBase g = GetFakeTBStartValue g + (ticks g - GetFakeTBStartTicks g) div TIMER_RATIO"

datatype Timer_Mode = GC | Wii

text \<open>The clock \<open>s_cpu_core_clock\<close> comes first.\<close>

definition ChangePPCClock :: "Timer_Mode \<Rightarrow> u32 \<times> CoreTiming \<Rightarrow> u32 \<times> CoreTiming" where
  "ChangePPCClock mode c =
     (let clock = (if mode = Wii then 729000000 else 486000000)
      in (clock, AdjustEventQueueTimes clock (fst c) (snd c)))"

text \<open>
  \<open>PatchEngineCallback\<close>: \<open>patched\<close> is the result of \<open>ApplyFramePatches\<close> and \<open>vi_interval\<close> that of
  \<open>GetTicksPerField\<close>. The sum and the remainder are unsigned, of 64 bits.
\<close>

definition PatchEngineCallback :: "u32 \<Rightarrow> bool \<Rightarrow> u64 \<Rightarrow> int \<Rightarrow> CoreTiming \<Rightarrow> CoreTiming" where
  "PatchEngineCallback vi_interval patched ud cycles_late g =
     (let cycles_pruned = uint ((ud + word_of_int cycles_late) mod ucast vi_interval) in
      if patched
      then ScheduleEvent (uint vi_interval - cycles_pruned) ''PatchEngine'' 0 True g
      else ScheduleEvent 1000 ''PatchEngine'' (word_of_int (cycles_pruned + 1000)) True g)"

subsection \<open>Time\<close>

lemma GetTicks_fields [simp]:
  "GetTicks (RemoveEvent ty g) = GetTicks g" "GetTicks (SetFakeDecStartTicks t g) = GetTicks g"
  "GetTicks (SetFakeDecStartValue v g) = GetTicks g" "GetTicks (SetFakeTBStartTicks t g) = GetTicks g"
  "GetTicks (SetFakeTBStartValue w g) = GetTicks g"
  by (simp_all add: GetTicks_def DowncountToCycles_def RemoveEvent_def SetFakeDecStartTicks_def SetFakeDecStartValue_def
      SetFakeTBStartTicks_def SetFakeTBStartValue_def Let_def)

lemma queue_ok_starts [simp]:
  "queue_ok (SetFakeDecStartTicks t g) = queue_ok g" "queue_ok (SetFakeDecStartValue v g) = queue_ok g"
  "s_event_queue (SetFakeDecStartTicks t g) = s_event_queue g" "s_event_queue (SetFakeDecStartValue v g) = s_event_queue g"
  by (simp_all add: queue_ok_def SetFakeDecStartTicks_def SetFakeDecStartValue_def)

lemma ScheduleEvent_starts [simp]:
  "s_fake_dec_start_value (ScheduleEvent c ty ud b g) = s_fake_dec_start_value g"
  "s_fake_dec_start_ticks (ScheduleEvent c ty ud b g) = s_fake_dec_start_ticks g"
  by (simp_all add: ScheduleEvent_def ForceExceptionCheck_def enqueue_def Let_def)

lemma elapsed:
  fixes d :: int
  assumes "0 \<le> d" and "d < 2 ^ 64"
  shows "(word_of_int (t + d) - word_of_int t :: u64) div TIMER_RATIO = word_of_int (d div TIMER_RATIO)"
proof -
  have "(word_of_int (t + d) - word_of_int t :: u64) = word_of_int d" by simp
  moreover have "uint (word_of_int d :: u64) = d" using assms by (simp add: uint_word_of_int)
  moreover have "uint (word_of_int d div TIMER_RATIO :: u64) = uint (word_of_int d :: u64) div uint (TIMER_RATIO :: u64)" by (rule uint_div)
  ultimately have "uint ((word_of_int (t + d) - word_of_int t :: u64) div TIMER_RATIO) = d div 12" by simp
  then show ?thesis by (metis word_of_int_uint)
qed

text \<open>The times of the interrupts the scheduler holds.\<close>

definition event_times :: "string \<Rightarrow> CoreTiming \<Rightarrow> int multiset" where
  "event_times ty g = {#ev_time e. e \<in># filter_mset (\<lambda>e. ev_type e = ty) (mset (s_event_queue g))#}"

lemma pending_Schedule:
  "queue_ok g \<Longrightarrow> event_times ty (ScheduleEvent c ty' ud True g) =
     (if ty' = ty then add_mset (GetTicks g + c) (event_times ty g) else event_times ty g)"
  using ScheduleEvent_cpu(2) [of g c ty' ud] by (auto simp: event_times_def)

lemma pending_Remove: "queue_ok g \<Longrightarrow> event_times ty (RemoveEvent ty' g) = (if ty' = ty then {#} else event_times ty g)"
  by (auto simp: event_times_def RemoveEvent_ok(2) filter_filter_mset intro: arg_cong [where f = "image_mset ev_time"] filter_mset_cong)

lemma pending_starts [simp]:
  "event_times ty (SetFakeDecStartTicks t g) = event_times ty g" "event_times ty (SetFakeDecStartValue v g) = event_times ty g"
  by (simp_all add: event_times_def)

lemma DecrementerSet_pending:
  assumes "queue_ok g" and "\<not> bit (spr s SPR_DEC) 31"
  shows "event_times ty (DecrementerSet s g) =
    (if ty = ''DecCallback'' then {#GetTicks g + uint (spr s SPR_DEC) * 12 mod 2 ^ 32#} else event_times ty g)"
    and "queue_ok (DecrementerSet s g)"
    and "s_fake_dec_start_value (DecrementerSet s g) = spr s SPR_DEC"
    and "s_fake_dec_start_ticks (DecrementerSet s g) = ticks g"
proof -
  have n: "spr s SPR_DEC AND 0x80000000 = 0" using assms(2) and_exp_eq_0_iff [of "spr s SPR_DEC" 31] by simp
  have u: "uint (spr s SPR_DEC * 12) = uint (spr s SPR_DEC) * 12 mod 2 ^ 32" by (simp add: uint_word_ariths)
  note d = DecrementerSet_def Let_def
  show "event_times ty (DecrementerSet s g) =
    (if ty = ''DecCallback'' then {#GetTicks g + uint (spr s SPR_DEC) * 12 mod 2 ^ 32#} else event_times ty g)"
    using assms(1) n by (simp add: d pending_Schedule pending_Remove RemoveEvent_ok(1) u)
  show "queue_ok (DecrementerSet s g)"
    using assms(1) n by (simp add: d RemoveEvent_ok(1) ScheduleEvent_cpu(1))
  show "s_fake_dec_start_value (DecrementerSet s g) = spr s SPR_DEC" "s_fake_dec_start_ticks (DecrementerSet s g) = ticks g"
    using n by (simp_all add: d SetFakeDecStartValue_def SetFakeDecStartTicks_def ticks_def)
qed

text \<open>A reading later, when the decrementer has not been set again.\<close>

lemma GetFakeDecrementer_later:
  assumes "s_fake_dec_start_value g' = v" and "s_fake_dec_start_ticks g' = ticks g"
    and "GetTicks g' = GetTicks g + d" and "0 \<le> d" and "d < 2 ^ 64"
  shows "GetFakeDecrementer g' = v - word_of_int (d div 12)"
proof -
  have "(ticks g' - ticks g) div 12 = word_of_int (d div 12)"
    unfolding ticks_def assms(3) by (rule elapsed [OF assms(4,5)])
  moreover have "ucast (word_of_int (d div 12) :: u64) = (word_of_int (d div 12) :: u32)"
    by (rule bit_word_eqI) (auto simp: bit_simps)
  ultimately show ?thesis by (simp add: GetFakeDecrementer_def GetFakeDecStartValue_def GetFakeDecStartTicks_def assms(1,2))
qed

lemma GetFakeTimeBase_later:
  assumes "fake_TB_start_value g' = fake_TB_start_value (TimeBaseSet s g)"
    and "fake_TB_start_ticks g' = fake_TB_start_ticks (TimeBaseSet s g)"
    and "GetTicks g' = GetTicks g + d" and "0 \<le> d" and "d < 2 ^ 64"
  shows "GetFakeTimeBase g' = (push_bit 32 (ucast (spr s SPR_TU)) OR ucast (spr s SPR_TL)) + word_of_int (d div 12)"
proof -
  have "(ticks g' - ticks g) div 12 = word_of_int (d div 12)"
    unfolding ticks_def assms(3) by (rule elapsed [OF assms(4,5)])
  then show ?thesis
    by (simp add: GetFakeTimeBase_def GetFakeTBStartValue_def GetFakeTBStartTicks_def assms(1,2) TimeBaseSet_def
        SetFakeTBStartValue_def SetFakeTBStartTicks_def)
qed

subsection \<open>The clock of the cheat engine\<close>

text \<open>
  The clock of the cheat engine does not drift: with patches applied or retried, and however late its callback runs, the time
  of the next call less the number the event carries has the same remainder modulo the length of a field as before; a call
  after applied patches carries no such number, and the next call is always in the future.
\<close>

theorem patch_engine_keeps_phase:
  assumes "queue_ok g" and "GetTicks g = T + late" and "0 \<le> late" and "uint ud + late < 2 ^ 64" and "0 < vi"
  shows "\<exists>e. mset (s_event_queue (PatchEngineCallback vi patched ud late g)) = add_mset e (mset (s_event_queue g)) \<and>
    ev_type e = ''PatchEngine'' \<and> (ev_time e - uint (userdata e)) mod uint vi = (T - uint ud) mod uint vi \<and>
    GetTicks g < ev_time e \<and> (patched \<longrightarrow> userdata e = 0)"
proof -
  define p where "p = uint ((ud + word_of_int late) mod ucast vi)"
  have vi: "0 < uint vi" "uint vi < 2 ^ 32" using assms(5) uint_lt2p [of vi] by (simp_all add: word_less_def)
  have "uint (ud + word_of_int late) = uint ud + late"
    using assms(3,4) by (simp add: uint_word_ariths uint_word_of_int mod_add_right_eq)
  then have p: "p = (uint ud + late) mod uint vi"
    by (simp add: p_def uint_mod uint_up_ucast is_up)
  have p_less: "0 \<le> p" "p < uint vi" using vi by (simp_all add: p)
  have phase: "(T + late - p) mod uint vi = (T - uint ud) mod uint vi"
  proof -
    have "(T + late - p) mod uint vi = (T + late - (uint ud + late)) mod uint vi" unfolding p by (rule mod_diff_right_eq)
    then show ?thesis by simp
  qed
  show ?thesis
  proof (cases patched)
    case True
    have t: "(T + late + (uint vi - p)) mod uint vi = (T - uint ud) mod uint vi"
      using phase mod_add_self2 [of "T + late - p" "uint vi"] by (simp add: algebra_simps)
    show ?thesis
      using ScheduleEvent_cpu(2) [OF assms(1), of "uint vi - p" "''PatchEngine''" 0] True t p_less
      by (auto simp: PatchEngineCallback_def Let_def assms(2) simp flip: p_def)
  next
    case False
    have u: "uint (word_of_int (p + 1000) :: u64) = p + 1000" unfolding uint_word_of_int using p_less vi by simp
    have t: "(T + late + 1000 - (p + 1000)) mod uint vi = (T - uint ud) mod uint vi" using phase by simp
    show ?thesis
      using ScheduleEvent_cpu(2) [OF assms(1), of 1000 "''PatchEngine''" "word_of_int (p + 1000)"] False t u
      by (auto simp: PatchEngineCallback_def Let_def assms(2) simp flip: p_def)
  qed
qed

end
