(* ===== verification/PPC_SystemRegisters.thy ===== *)
theory PPC_SystemRegisters
  imports PPC_LoadStore PPC_Timers
begin

text \<open>
  The instructions for system registers (\<^verbatim>\<open>Core/PowerPC/Interpreter/Interpreter_SystemRegisters.cpp\<close>), all
  functions of the file but \<open>mtmsr\<close>, which is with the exceptions: the logic of condition bits, moves from and to the
  condition register, the segment registers, the special registers with what a write to them does, and the
  status register of floating point.

  \<open>FPSCRtoFPUSettings\<close> sets the rounding of the host, which the model does not have; messages to the user
  and the assertions have no effect.
\<close>

unbundle bit_operations_syntax

definition FM :: "UGeckoInstruction \<Rightarrow> u32" where [ppc_defs]: "FM inst = bit_field 17 8 inst"
definition FB :: "UGeckoInstruction \<Rightarrow> nat" where [ppc_defs]: "FB inst = unat (bit_field 11 5 inst)"

abbreviation (input) "SPR_TL_W \<equiv> 284 :: nat"
abbreviation (input) "SPR_TU_W \<equiv> 285 :: nat"
abbreviation (input) "SPR_WPAR \<equiv> 921 :: nat"
abbreviation (input) "SPR_DMAU \<equiv> 922 :: nat"
abbreviation (input) "SPR_DMAL \<equiv> 923 :: nat"

subsection \<open>Condition register\<close>

definition crand :: "UGeckoInstruction \<Rightarrow> PowerPCState \<Rightarrow> PowerPCState" where
  "crand inst s = SetCRBit (CRBD inst) (GetCRBit (CRBA inst) s AND GetCRBit (CRBB inst) s) s"

definition crandc :: "UGeckoInstruction \<Rightarrow> PowerPCState \<Rightarrow> PowerPCState" where
  "crandc inst s = SetCRBit (CRBD inst) (GetCRBit (CRBA inst) s AND (1 XOR GetCRBit (CRBB inst) s)) s"

definition creqv :: "UGeckoInstruction \<Rightarrow> PowerPCState \<Rightarrow> PowerPCState" where
  "creqv inst s = SetCRBit (CRBD inst) (1 XOR (GetCRBit (CRBA inst) s XOR GetCRBit (CRBB inst) s)) s"

definition crnand :: "UGeckoInstruction \<Rightarrow> PowerPCState \<Rightarrow> PowerPCState" where
  "crnand inst s = SetCRBit (CRBD inst) (1 XOR (GetCRBit (CRBA inst) s AND GetCRBit (CRBB inst) s)) s"

definition crnor :: "UGeckoInstruction \<Rightarrow> PowerPCState \<Rightarrow> PowerPCState" where
  "crnor inst s = SetCRBit (CRBD inst) (1 XOR (GetCRBit (CRBA inst) s OR GetCRBit (CRBB inst) s)) s"

definition cror :: "UGeckoInstruction \<Rightarrow> PowerPCState \<Rightarrow> PowerPCState" where
  "cror inst s = SetCRBit (CRBD inst) (GetCRBit (CRBA inst) s OR GetCRBit (CRBB inst) s) s"

definition crorc :: "UGeckoInstruction \<Rightarrow> PowerPCState \<Rightarrow> PowerPCState" where
  "crorc inst s = SetCRBit (CRBD inst) (GetCRBit (CRBA inst) s OR (1 XOR GetCRBit (CRBB inst) s)) s"

definition crxor :: "UGeckoInstruction \<Rightarrow> PowerPCState \<Rightarrow> PowerPCState" where
  "crxor inst s = SetCRBit (CRBD inst) (GetCRBit (CRBA inst) s XOR GetCRBit (CRBB inst) s) s"

definition mcrf :: "UGeckoInstruction \<Rightarrow> PowerPCState \<Rightarrow> PowerPCState" where
  "mcrf inst s = (let cr_f = GetCRField (CRFS inst) s in SetCRField (CRFD inst) cr_f s)"

definition mcrxr :: "UGeckoInstruction \<Rightarrow> PowerPCState \<Rightarrow> PowerPCState" where
  "mcrxr inst s = (SetCRField (CRFD inst) (drop_bit 28 (GetXER s)) s)\<lparr>xer_ca := 0, xer_so_ov := 0\<rparr>"

definition mfcr :: "UGeckoInstruction \<Rightarrow> PowerPCState \<Rightarrow> PowerPCState" where
  "mfcr inst s = set_gpr (RD inst) (GetCR s) s"

text \<open>The loop of \<open>mtcrf\<close> and \<open>mtfsfx\<close> that turns eight bits into the mask of eight fields.\<close>

definition mask_fields :: "u32 \<Rightarrow> u32" where
  "mask_fields fm = fold (\<lambda>i m. if fm AND push_bit i 1 \<noteq> 0 then m OR push_bit (i * 4) 0xF else m) [0..<8] 0"

definition mtcrf :: "UGeckoInstruction \<Rightarrow> PowerPCState \<Rightarrow> PowerPCState" where
  "mtcrf inst s =
     (let crm = CRM inst in
      if crm = 0xFF then SetCR (gpr s (RS inst)) s
      else let m = mask_fields crm in SetCR ((GetCR s AND NOT m) OR (gpr s (RS inst) AND m)) s)"

subsection \<open>Machine state and segment registers\<close>

definition mfmsr :: "UGeckoInstruction \<Rightarrow> PowerPCState \<Rightarrow> PowerPCState" where
  "mfmsr inst s = set_gpr (RD inst) (msr s) s"

definition mfsr :: "UGeckoInstruction \<Rightarrow> PowerPCState \<Rightarrow> PowerPCState" where
  "mfsr inst s = set_gpr (RD inst) (sr s (SR inst)) s"

definition mfsrin :: "UGeckoInstruction \<Rightarrow> PowerPCState \<Rightarrow> PowerPCState" where
  "mfsrin inst s = (let index = unat (drop_bit 28 (gpr s (RB inst)) AND 0xF) in set_gpr (RD inst) (sr s index) s)"

definition SetSR :: "nat \<Rightarrow> u32 \<Rightarrow> PowerPCState \<Rightarrow> PowerPCState" where
  "SetSR index value s = s\<lparr>sr := (sr s)(index := value)\<rparr>"

definition mtsr :: "UGeckoInstruction \<Rightarrow> PowerPCState \<Rightarrow> PowerPCState" where
  "mtsr inst s = (let index = SR inst; value = gpr s (RS inst) in SetSR index value s)"

definition mtsrin :: "UGeckoInstruction \<Rightarrow> PowerPCState \<Rightarrow> PowerPCState" where
  "mtsrin inst s =
     (let index = unat (drop_bit 28 (gpr s (RB inst)) AND 0xF); value = gpr s (RS inst) in SetSR index value s)"

definition isync :: "UGeckoInstruction \<Rightarrow> PowerPCState \<Rightarrow> PowerPCState" where "isync inst s = s"

subsection \<open>Reading special registers\<close>

text \<open>\<open>memcpy\<close> of the time base to \<open>TL\<close> fills \<open>TL\<close> and \<open>TU\<close>.\<close>

definition refresh_spr :: "nat \<Rightarrow> CoreTiming \<Rightarrow> PowerPCState \<Rightarrow> PowerPCState" where
  "refresh_spr iIndex g s =
     (if iIndex = SPR_DEC then
        if spr s iIndex AND 0x80000000 = 0 then set_spr iIndex (GetFakeDecrementer g) s else s
      else if iIndex = SPR_TL \<or> iIndex = SPR_TU then
        let time_base = GetFakeTimeBase g
        in set_spr SPR_TU (ucast (drop_bit 32 time_base)) (set_spr SPR_TL (ucast time_base) s)
      else if iIndex = SPR_WPAR then set_spr iIndex (spr s iIndex AND NOT 1) s
      else if iIndex = SPR_XER then set_spr iIndex (GetXER s) s
      else s)"

definition mfspr_index :: "UGeckoInstruction \<Rightarrow> nat" where
  "mfspr_index inst = unat (push_bit 5 (SPR inst AND 0x1F) + (drop_bit 5 (SPR inst) AND 0x1F))"

definition mfspr :: "UGeckoInstruction \<Rightarrow> 'd Machine \<Rightarrow> 'd Machine" where
  "mfspr inst M =
     (let iIndex = mfspr_index inst; s = refresh_spr iIndex (timing M) (ppc M)
      in M\<lparr>ppc := set_gpr (RD inst) (spr s iIndex) s\<rparr>)"

definition mftb :: "UGeckoInstruction \<Rightarrow> 'd Machine \<Rightarrow> 'd Machine" where "mftb inst M = mfspr inst M"

subsection \<open>Writing special registers\<close>

definition put_spr :: "nat \<Rightarrow> u32 \<Rightarrow> 'd Machine \<Rightarrow> 'd Machine" where
  "put_spr n v M = M\<lparr>ppc := set_spr n v (ppc M)\<rparr>"

definition TimeBase_written :: "'d Machine \<Rightarrow> 'd Machine" where
  "TimeBase_written M = M\<lparr>timing := TimeBaseSet (ppc M) (timing M)\<rparr>"

text \<open>Bit 11 of \<open>HID0\<close> is \<open>ICFI\<close>.\<close>

definition HID0_written :: "'d Machine \<Rightarrow> 'd Machine" where
  "HID0_written M =
     (if bit (spr (ppc M) SPR_HID0) 11
      then (put_spr SPR_HID0 (unset_bit 11 (spr (ppc M) SPR_HID0)) M)\<lparr>iCache := ICache_Reset (iCache M)\<rparr>
      else M)"

definition update_DBAT :: "'d Machine \<Rightarrow> 'd Machine" where
  "update_DBAT M = M\<lparr>mmu := DBATUpdated (bWii M) (memchecks M) (mem M) (ppc M) (mmu M)\<rparr>"

definition update_IBAT :: "'d Machine \<Rightarrow> 'd Machine" where
  "update_IBAT M = M\<lparr>mmu := IBATUpdated (bWii M) (memchecks M) (mem M) (ppc M) (mmu M)\<rparr>"

text \<open>Fields of \<open>DMAU\<close> and \<open>DMAL\<close>: bit 1 is \<open>DMA_T\<close>, bit 4 \<open>DMA_LD\<close>.\<close>

definition dma_length :: "u32 \<Rightarrow> u32 \<Rightarrow> u32" where
  "dma_length dmau dmal =
     (let iLength = push_bit 2 (bit_field 0 5 dmau) OR bit_field 2 2 dmal in if iLength = 0 then 128 else iLength)"

definition DMAL_written :: "'d Machine hw \<Rightarrow> 'd Machine \<Rightarrow> mem_error + 'd Machine" where
  "DMAL_written hw M =
     (let dmau = spr (ppc M) SPR_DMAU; dmal = spr (ppc M) SPR_DMAL;
          dwMemAddress = push_bit 5 (bit_field 5 27 dmau); dwCacheAddress = push_bit 5 (bit_field 5 27 dmal)
      in and_then
          (if bit dmal 1 then
             if bit dmal 4 then DMA_MemoryToLC hw dwCacheAddress dwMemAddress (dma_length dmau dmal) M
             else DMA_LCToMemory hw dwMemAddress dwCacheAddress (dma_length dmau dmal) M
           else Inr M)
          (\<lambda>M1. Inr (put_spr SPR_DMAL (unset_bit 1 (spr (ppc M1) SPR_DMAL)) M1)))"

definition DEC_written :: "u32 \<Rightarrow> u32 \<Rightarrow> 'd Machine \<Rightarrow> 'd Machine" where
  "DEC_written oldValue value M =
     (let M1 = (if drop_bit 31 oldValue = 0 \<and> drop_bit 31 value \<noteq> 0
                then M\<lparr>ppc := (ppc M)\<lparr>Exceptions := Exceptions (ppc M) OR EXCEPTION_DECREMENTER\<rparr>\<rparr> else M)
      in M1\<lparr>timing := DecrementerSet (ppc M1) (timing M1)\<rparr>)"

text \<open>The switch of \<open>mtspr\<close>, after the register itself has been written.\<close>

definition spr_written :: "'d Machine hw \<Rightarrow> nat \<Rightarrow> u32 \<Rightarrow> u32 \<Rightarrow> 'd Machine \<Rightarrow> mem_error + 'd Machine" where
  "spr_written hw iIndex oldValue value M =
     (if iIndex = SPR_TL_W then Inr (TimeBase_written (put_spr SPR_TL value M))
      else if iIndex = SPR_TU_W then Inr (TimeBase_written (put_spr SPR_TU value M))
      else if iIndex = SPR_HID0 then Inr (HID0_written M)
      else if iIndex = SPR_HID4 then
        Inr (if oldValue \<noteq> spr (ppc M) iIndex then update_DBAT (update_IBAT M) else M)
      else if iIndex = SPR_WPAR then Inr (ResetGatherPipe hw M)
      else if iIndex = SPR_DMAL then DMAL_written hw M
      else if iIndex = SPR_DEC then Inr (DEC_written oldValue value M)
      else if iIndex = SPR_SDR then Inr (M\<lparr>mmu := SDRUpdated (ppc M) (mmu M)\<rparr>)
      else if iIndex = SPR_XER then Inr (M\<lparr>ppc := SetXER (spr (ppc M) iIndex) (ppc M)\<rparr>)
      else if 536 \<le> iIndex \<and> iIndex \<le> 543 \<or> 568 \<le> iIndex \<and> iIndex \<le> 575 then
        Inr (if oldValue \<noteq> spr (ppc M) iIndex then update_DBAT M else M)
      else if 528 \<le> iIndex \<and> iIndex \<le> 535 \<or> 560 \<le> iIndex \<and> iIndex \<le> 567 then
        Inr (if oldValue \<noteq> spr (ppc M) iIndex then update_IBAT M else M)
      else Inr M)"

definition mtspr_index :: "UGeckoInstruction \<Rightarrow> nat" where
  "mtspr_index inst = unat (push_bit 5 (SPRU inst) OR (SPRL inst AND 0x1F))"

definition mtspr :: "'d Machine hw \<Rightarrow> UGeckoInstruction \<Rightarrow> 'd Machine \<Rightarrow> mem_error + 'd Machine" where
  "mtspr hw inst M =
     (let iIndex = mtspr_index inst; oldValue = spr (ppc M) iIndex; value = gpr (ppc M) (RD inst)
      in spr_written hw iIndex oldValue value (put_spr iIndex value M))"

subsection \<open>Status of floating point\<close>

definition FPSCR_VX_ANY :: u32 where "FPSCR_VX_ANY = 0x01F80700"
definition FPSCR_ANY_X :: u32 where "FPSCR_ANY_X = 0x1FF80700"

definition SetFPException :: "u32 \<Rightarrow> u32 \<Rightarrow> u32" where
  "SetFPException m fp = (if fp AND m \<noteq> m then set_bit 31 fp else fp) OR m"

definition UpdateFPSCR :: "u32 \<Rightarrow> u32" where
  "UpdateFPSCR fp =
     (let fp1 = (if fp AND FPSCR_VX_ANY \<noteq> 0 then set_bit 29 fp else unset_bit 29 fp) in unset_bit 30 fp1)"

definition mtfsb0x :: "UGeckoInstruction \<Rightarrow> 'd Machine \<Rightarrow> 'd Machine" where
  "mtfsb0x inst M = (let b = drop_bit (CRBD inst) 0x80000000 in M\<lparr>fpscr := fpscr M AND NOT b\<rparr>)"

definition mtfsb1x :: "UGeckoInstruction \<Rightarrow> 'd Machine \<Rightarrow> 'd Machine" where
  "mtfsb1x inst M =
     (let b = drop_bit (CRBD inst) 0x80000000
      in M\<lparr>fpscr := (if b AND FPSCR_ANY_X \<noteq> 0 then SetFPException b (fpscr M) else fpscr M OR b)\<rparr>)"

definition mtfsfix :: "UGeckoInstruction \<Rightarrow> 'd Machine \<Rightarrow> 'd Machine" where
  "mtfsfix inst M =
     (let m = drop_bit (4 * CRFD inst) 0xF0000000; imm = push_bit 16 inst AND 0xF0000000
      in M\<lparr>fpscr := (fpscr M AND NOT m) OR drop_bit (4 * CRFD inst) imm\<rparr>)"

definition mtfsfx :: "UGeckoInstruction \<Rightarrow> 'd Machine \<Rightarrow> 'd Machine" where
  "mtfsfx inst M =
     (let m = mask_fields (FM inst) in M\<lparr>fpscr := (fpscr M AND NOT m) OR (ucast (ps M (FB inst) 0) AND m)\<rparr>)"

text \<open>The bits \<open>mcrfs\<close> clears in each field.\<close>

definition cleared_by_mcrfs :: "nat \<Rightarrow> u32" where
  "cleared_by_mcrfs f =
     (if f = 0 then 0x90000000 else if f = 1 then 0x0F000000 else if f = 2 then 0x00F00000 else if f = 3 then 0x00080000
      else if f = 5 then 0x00000700 else 0)"

definition mcrfs :: "UGeckoInstruction \<Rightarrow> 'd Machine \<Rightarrow> 'd Machine" where
  "mcrfs inst M =
     (let fp = UpdateFPSCR (fpscr M); fpflags = drop_bit (4 * (7 - CRFS inst)) fp AND 0xF
      in M\<lparr>fpscr := fp AND NOT (cleared_by_mcrfs (CRFS inst)), ppc := SetCRField (CRFD inst) fpflags (ppc M)\<rparr>)"

definition mffsx :: "UGeckoInstruction \<Rightarrow> 'd Machine \<Rightarrow> 'd Machine" where
  "mffsx inst M =
     (let fp = UpdateFPSCR (fpscr M) in put_ps0 (FD inst) (0xFFF8000000000000 OR ucast fp) (M\<lparr>fpscr := fp\<rparr>))"

end
