(* ===== verification/PPC_SystemProps.thy ===== *)
theory PPC_SystemProps
  imports PPC_SystemRegisters
begin

text \<open>
  What the instructions for system registers promise: the condition register computes as one word, block translation
  follows its registers, the time base and the decrementer count, and transfers of the locked cache copy memory.
\<close>

unbundle bit_operations_syntax

subsection \<open>Condition register\<close>

lemma unat_bit_field_less: "unat (bit_field lo n x) < 2 ^ n"
  by (simp add: unat_less_exp_iff)

lemma CR_fields_less: "CRBD inst < 32" "CRBA inst < 32" "CRBB inst < 32" "CRFD inst < 8" "CRFS inst < 8"
  using unat_bit_field_less [of 21 5 inst] unat_bit_field_less [of 16 5 inst] unat_bit_field_less [of 11 5 inst]
    unat_bit_field_less [of 23 3 inst] unat_bit_field_less [of 18 3 inst]
  by (simp_all add: ppc_defs)

text \<open>\<open>f\<close> puts the value of \<open>op\<close> on two bits of the condition register into a third one, and changes nothing else.\<close>

definition computes_bit :: "(bool \<Rightarrow> bool \<Rightarrow> bool) \<Rightarrow> (UGeckoInstruction \<Rightarrow> PowerPCState \<Rightarrow> PowerPCState) \<Rightarrow> bool" where
  "computes_bit op f \<longleftrightarrow> (\<forall>inst s.
     GetCR (f inst s) =
       (if op (bit (GetCR s) (31 - CRBA inst)) (bit (GetCR s) (31 - CRBB inst)) then set_bit (31 - CRBD inst) (GetCR s)
        else unset_bit (31 - CRBD inst) (GetCR s)) \<and>
     f inst s = s\<lparr>cr_val := cr_val (f inst s)\<rparr>)"

lemma SetCR_only: "SetCRField n v s = s\<lparr>cr_val := cr_val (SetCRField n v s)\<rparr>" "SetCRBit b v s = s\<lparr>cr_val := cr_val (SetCRBit b v s)\<rparr>"
  by (simp_all add: SetCRField_def SetCRBit_def)

lemma computes_bitI:
  assumes "\<And>inst s. f inst s = SetCRBit (CRBD inst) (g (GetCRBit (CRBA inst) s) (GetCRBit (CRBB inst) s)) s"
    and "\<And>a b. bit (g (of_bool a) (of_bool b)) 0 = op a b"
  shows "computes_bit op f"
  unfolding computes_bit_def assms(1)
proof (intro allI conjI)
  fix inst s
  let ?v = "g (GetCRBit (CRBA inst) s) (GetCRBit (CRBB inst) s)"
  have "bit ?v 0 = op (bit (GetCR s) (31 - CRBA inst)) (bit (GetCR s) (31 - CRBB inst))"
    by (simp only: GetCRBit_word CR_fields_less assms(2))
  then show "GetCR (SetCRBit (CRBD inst) ?v s) =
       (if op (bit (GetCR s) (31 - CRBA inst)) (bit (GetCR s) (31 - CRBB inst)) then set_bit (31 - CRBD inst) (GetCR s)
        else unset_bit (31 - CRBD inst) (GetCR s))"
    using condition_register_parts(3) [of 0 0 "CRBD inst" ?v s] CR_fields_less by simp
qed (rule SetCR_only(2))

lemma bit_mask_fields: "bit (mask_fields fm) n \<longleftrightarrow> n < 32 \<and> bit fm (n div 4)"
proof -
  have f: "bit (fold (\<lambda>i m. if fm AND push_bit i 1 \<noteq> 0 then m OR push_bit (i * 4) 0xF else m) is m0) n \<longleftrightarrow>
      bit m0 n \<or> (\<exists>i \<in> set is. fm AND push_bit i 1 \<noteq> 0 \<and> bit (push_bit (i * 4) (0xF :: u32)) n)" for "is" and m0 :: u32
    by (induction "is" arbitrary: m0) (auto simp: bit_or_iff)
  have b: "fm AND push_bit i 1 \<noteq> 0 \<longleftrightarrow> bit fm i" for i
    using and_exp_eq_0_iff [of fm i] by (simp add: push_bit_eq_mult)
  have m: "(0xF :: u32) = mask 4" by (simp add: mask_eq_exp_minus_1)
  have k: "bit (0xF :: u32) k \<longleftrightarrow> k < 4" for k unfolding m bit_mask_iff by auto
  have p: "bit (push_bit (i * 4) (0xF :: u32)) n \<longleftrightarrow> n < 32 \<and> n div 4 = i" for i
    unfolding bit_push_bit_iff k by (auto simp: possible_bit_word intro: div_nat_eqI)
  show ?thesis unfolding mask_fields_def f unfolding b p using less_mult_imp_div_less [of n 8 4] by auto
qed

lemma GetCR_SetCR [simp]: "GetCR (SetCR x s) = x"
  using condition_register_parts(1) [of 0 0 0] by simp

lemma GetCR_mtcrf:
  "GetCR (mtcrf inst s) = (GetCR s AND NOT (mask_fields (CRM inst))) OR (gpr s (RS inst) AND mask_fields (CRM inst))"
proof (cases "CRM inst = 0xFF")
  case True
  have "(0xFF :: u32) = mask 8" by (simp add: mask_eq_exp_minus_1)
  then have "bit (0xFF :: u32) (n div 4)" if "n < 32" for n using that less_mult_imp_div_less [of n 8 4]
    by (simp only: bit_mask_iff possible_bit_word) simp
  then have "mask_fields (CRM inst) = NOT 0"
    unfolding True by (intro bit_word_eqI) (simp add: bit_mask_fields bit_not_iff del: bit_numeral_iff)
  with True show ?thesis by (simp add: mtcrf_def)
qed (simp add: mtcrf_def Let_def)

lemma GetXER_field: "drop_bit 28 (GetXER s) < 16"
  by (rule less_16I) (auto simp: bit_drop_bit_eq dest: bit_imp_le_length)

text \<open>
  The condition register computes as one word of 32 bits, although it is kept as eight numbers: each of the eight
  logical instructions sets the bit it names to its function of two bits and changes nothing else; \<open>mtcrf\<close> replaces exactly the fields
  its mask names by those of the register, \<open>mfcr\<close> reads the word, \<open>mcrf\<close> copies a field and \<open>mcrxr\<close> moves the upper
  bits of the exception register.
\<close>

theorem condition_register_instructions:
  "computes_bit (\<and>) crand \<and> computes_bit (\<lambda>a b. a \<and> \<not> b) crandc \<and> computes_bit (=) creqv \<and>
   computes_bit (\<lambda>a b. \<not> (a \<and> b)) crnand \<and> computes_bit (\<lambda>a b. \<not> (a \<or> b)) crnor \<and> computes_bit (\<or>) cror \<and>
   computes_bit (\<lambda>a b. a \<or> \<not> b) crorc \<and> computes_bit (\<noteq>) crxor \<and>
   GetCR (mtcrf inst s) = (GetCR s AND NOT (mask_fields (CRM inst))) OR (gpr s (RS inst) AND mask_fields (CRM inst)) \<and>
   (bit (mask_fields (CRM inst)) n \<longleftrightarrow> n < 32 \<and> bit (CRM inst) (n div 4)) \<and>
   gpr (mfcr inst s) (RD inst) = GetCR s \<and>
   GetCRField f (mcrf inst s) = (if f = CRFD inst then GetCRField (CRFS inst) s else GetCRField f s) \<and>
   GetCRField f (mcrxr inst s) = (if f = CRFD inst then drop_bit 28 (GetXER s) else GetCRField f s) \<and>
   GetXER (mcrxr inst s) = ucast (xer_stringctrl s)"
proof (intro conjI)
  have bits: "bit (of_bool a AND of_bool b :: u32) 0 = (a \<and> b)" "bit (of_bool a AND (1 XOR of_bool b) :: u32) 0 = (a \<and> \<not> b)"
    "bit (1 XOR (of_bool a XOR of_bool b) :: u32) 0 = (a = b)" "bit (1 XOR (of_bool a AND of_bool b) :: u32) 0 = (\<not> (a \<and> b))"
    "bit (1 XOR (of_bool a OR of_bool b) :: u32) 0 = (\<not> (a \<or> b))" "bit (of_bool a OR of_bool b :: u32) 0 = (a \<or> b)"
    "bit (of_bool a OR (1 XOR of_bool b) :: u32) 0 = (a \<or> \<not> b)" "bit (of_bool a XOR of_bool b :: u32) 0 = (a \<noteq> b)" for a b
    by (cases a; cases b; simp)+
  show "computes_bit (\<and>) crand" "computes_bit (\<lambda>a b. a \<and> \<not> b) crandc" "computes_bit (=) creqv"
    "computes_bit (\<lambda>a b. \<not> (a \<and> b)) crnand" "computes_bit (\<lambda>a b. \<not> (a \<or> b)) crnor" "computes_bit (\<or>) cror"
    "computes_bit (\<lambda>a b. a \<or> \<not> b) crorc" "computes_bit (\<noteq>) crxor"
    by (rule computes_bitI, (rule crand_def crandc_def creqv_def crnand_def crnor_def cror_def crorc_def crxor_def), rule bits)+
  show "GetCRField f (mcrxr inst s) = (if f = CRFD inst then drop_bit 28 (GetXER s) else GetCRField f s)"
    using GetCRField_SetCRField [OF GetXER_field] by (simp add: mcrxr_def GetCRField_def)
  show "GetCRField f (mcrf inst s) = (if f = CRFD inst then GetCRField (CRFS inst) s else GetCRField f s)"
    by (simp add: mcrf_def GetCRField_SetCRField)
qed (auto simp: GetCR_mtcrf bit_mask_fields mfcr_def set_gpr_def mcrxr_def GetXER_def SetCRField_def)

subsection \<open>Block translation follows its registers\<close>

text \<open>The tables are those of the registers.\<close>

definition bats_match :: "'d Machine \<Rightarrow> bool" where
  "bats_match M \<longleftrightarrow>
     dbat_table (mmu M) = build_bats (bWii M) (memchecks M) (mem M) (ppc M) SPR_DBAT0U SPR_DBAT4U \<and>
     ibat_table (mmu M) = build_bats (bWii M) (memchecks M) (mem M) (ppc M) SPR_IBAT0U SPR_IBAT4U"

definition hw_keeps_bats :: "'d Machine hw \<Rightarrow> bool" where
  "hw_keeps_bats hw \<longleftrightarrow> (\<forall>M. bats_match M \<longrightarrow>
     (\<forall>x y. bats_match (snd (PeekZ hw x y M)) \<and> bats_match (snd (PeekColor hw x y M))) \<and>
     (\<forall>x y d. bats_match (PokeZ hw x y d M) \<and> bats_match (PokeColor hw x y d M)) \<and>
     (\<forall>n a. bats_match (snd (mmio_Read hw n a M))) \<and> (\<forall>n a v. bats_match (mmio_Write hw n a v M)) \<and>
     bats_match (ResetGatherPipe hw M))"

definition bat_spr :: "nat \<Rightarrow> bool" where
  "bat_spr k \<longleftrightarrow> 528 \<le> k \<and> k \<le> 543 \<or> 560 \<le> k \<and> k \<le> 575 \<or> k = SPR_HID4"

lemma build_bats_cong:
  assumes "\<And>k. base \<le> k \<and> k < base + 8 \<or> ext \<le> k \<and> k < ext + 8 \<or> k = SPR_HID4 \<Longrightarrow> spr s' k = spr s k"
    and "m_pFakeVMEM m' = m_pFakeVMEM m" and "m_pEXRAM m' = m_pEXRAM m"
  shows "build_bats w c m' s' base ext = build_bats w c m s base ext"
proof -
  have b: "bat_block c m' = bat_block c m"
    by (simp add: fun_eq_iff bat_block_def bat_valid_bits_def assms(2,3))
  then have u: "update_bat c m' = update_bat c m" by (intro ext) (simp only: update_bat_def b)
  have "UpdateBATs c m' s' b t = UpdateBATs c m s b t" if "b = base \<or> b = ext" for b t
  proof -
    have "spr s' (b + i * 2) = spr s (b + i * 2) \<and> spr s' (b + i * 2 + 1) = spr s (b + i * 2 + 1)" if "i < 4" for i
      using that \<open>b = base \<or> b = ext\<close> assms(1) [of "b + i * 2"] assms(1) [of "b + i * 2 + 1"] by auto
    then show ?thesis unfolding UpdateBATs_def u by (intro fold_cong) auto
  qed
  then show ?thesis
    using assms(1) [of SPR_HID4] by (simp add: build_bats_def HID4_SBE_def assms(2) Let_def cong: if_cong)
qed

lemma bats_match_cong:
  assumes "bats_match M" and "\<And>k. bat_spr k \<Longrightarrow> spr (ppc M') k = spr (ppc M) k"
    and "m_pFakeVMEM (mem M') = m_pFakeVMEM (mem M)" "m_pEXRAM (mem M') = m_pEXRAM (mem M)"
    and "memchecks M' = memchecks M" "bWii M' = bWii M"
    and "dbat_table (mmu M') = dbat_table (mmu M)" "ibat_table (mmu M') = ibat_table (mmu M)"
  shows "bats_match M'"
proof -
  have "build_bats (bWii M) (memchecks M) (mem M') (ppc M') 536 568 = build_bats (bWii M) (memchecks M) (mem M) (ppc M) 536 568"
    "build_bats (bWii M) (memchecks M) (mem M') (ppc M') 528 560 = build_bats (bWii M) (memchecks M) (mem M) (ppc M) 528 560"
    by (rule build_bats_cong [OF assms(2-4)]; auto simp: bat_spr_def)+
  then show ?thesis using assms(1,5-8) by (simp add: bats_match_def)
qed

text \<open>The result of an operation, if it returns, satisfies \<open>P\<close>.\<close>

definition ends :: "('d Machine \<Rightarrow> bool) \<Rightarrow> mem_error + 'd Machine \<Rightarrow> bool" where
  "ends P r \<longleftrightarrow> (case r of Inl e \<Rightarrow> True | Inr M' \<Rightarrow> P M')"

lemma ends_simps [simp]: "ends P (Inl e)" "ends P (Inr M') = P M'"
  by (simp_all add: ends_def)

lemma ends_bind: "(\<And>v. r = Inr v \<Longrightarrow> ends P (f v)) \<Longrightarrow> ends P (and_then r f)"
  by (cases r) auto

lemma ends_words:
  assumes "\<And>i M. P M \<Longrightarrow> ends P (f i M)" and "P M"
  shows "ends P (dma_words f k i M)"
  using assms(2)
proof (induction k arbitrary: i M)
  case (Suc k)
  from assms(1) [OF Suc(2), of i] Suc(1) show ?case by (cases "f i M") auto
qed simp

lemma mem_write_bats:
  "bats_match M \<Longrightarrow> m_pFakeVMEM m = m_pFakeVMEM (mem M) \<Longrightarrow> m_pEXRAM m = m_pEXRAM (mem M) \<Longrightarrow> bats_match (M\<lparr>mem := m\<rparr>)"
  by (erule bats_match_cong) simp_all

lemma EFB_bats:
  assumes "hw_keeps_bats hw" and "bats_match M"
  shows "bats_match (snd (EFB_Read hw a M))" and "bats_match (EFB_Write hw v a M)"
  using assms by (auto simp: hw_keeps_bats_def EFB_Read_def EFB_Write_def Let_def)

lemma LCToMemory_bats:
  assumes hw: "hw_keeps_bats hw" and "bats_match M"
  shows "ends bats_match (DMA_LCToMemory hw a c n M)"
  unfolding DMA_LCToMemory_def Let_def
proof (split if_split, intro conjI impI)
  show "ends bats_match (dma_words (\<lambda>i M. and_then (read32 (l1_pointer (c + i)) (mem M)) (\<lambda>v. Inr (EFB_Write hw v (a + i) M)))
      (unat (32 * n) div 4) 0 M)"
    using EFB_bats [OF hw] by (intro ends_words ends_bind assms(2)) simp
  show "ends bats_match (if a AND 0x0F000000 = 0x0C000000
     then dma_words (\<lambda>i M. and_then (read32 (l1_pointer (c + i)) (mem M)) (\<lambda>v. Inr (mmio_Write hw 4 (a + i) (ucast v) M)))
       (unat (32 * n) div 4) 0 M
     else case GetPointer a (mem M) of
        None \<Rightarrow> Inr M
      | Some dst \<Rightarrow> and_then (load_bytes (unat (32 * n)) (l1_pointer c) (physical_base (mem M))) (\<lambda>bs.
          and_then (store_bytes bs dst (physical_base (mem M))) (\<lambda>a. Inr (M\<lparr>mem := (mem M)\<lparr>physical_base := a\<rparr>\<rparr>))))"
    using hw assms(2)
    by (auto simp: hw_keeps_bats_def intro!: ends_words ends_bind mem_write_bats split: option.split)
qed

lemma host_write_bats: "bats_match M \<Longrightarrow> ends bats_match (and_then (host_write 4 v p (mem M)) (\<lambda>m. Inr (M\<lparr>mem := m\<rparr>)))"
proof (rule ends_bind)
  fix m assume "bats_match M" and h: "host_write 4 v p (mem M) = Inr m"
  with host_write_keeps(2,3) [OF h] show "ends bats_match (Inr (M\<lparr>mem := m\<rparr>))" by (simp add: mem_write_bats)
qed

lemma MemoryToLC_bats:
  assumes hw: "hw_keeps_bats hw" and "bats_match M"
  shows "ends bats_match (DMA_MemoryToLC hw c a n M)"
  unfolding DMA_MemoryToLC_def Let_def
proof (split if_split, intro conjI impI)
  show "ends bats_match (dma_words (\<lambda>i M. case EFB_Read hw (a + i) M of (v, M1) \<Rightarrow>
      and_then (host_write 4 (ucast v) (l1_pointer (c + i)) (mem M1)) (\<lambda>m. Inr (M1\<lparr>mem := m\<rparr>))) (unat (32 * n) div 4) 0 M)"
    unfolding case_prod_beta by (intro ends_words assms(2) host_write_bats EFB_bats(1) [OF hw])
  have io: "bats_match N \<Longrightarrow> bats_match (snd (mmio_Read hw k x N))" for k x N using hw by (simp add: hw_keeps_bats_def)
  show "ends bats_match (if a AND 0x0F000000 = 0x0C000000
     then dma_words (\<lambda>i M. case mmio_Read hw 4 (a + i) M of (v, M1) \<Rightarrow>
       and_then (host_write 4 (ucast (ucast v)) (l1_pointer (c + i)) (mem M1)) (\<lambda>m. Inr (M1\<lparr>mem := m\<rparr>))) (unat (32 * n) div 4) 0 M
     else case GetPointer a (mem M) of
        None \<Rightarrow> Inr M
      | Some src \<Rightarrow> and_then (load_bytes (unat (32 * n)) src (physical_base (mem M))) (\<lambda>bs.
          and_then (store_bytes bs (l1_pointer c) (physical_base (mem M))) (\<lambda>a. Inr (M\<lparr>mem := (mem M)\<lparr>physical_base := a\<rparr>\<rparr>))))"
    unfolding case_prod_beta using assms(2)
    by (auto intro!: ends_words ends_bind mem_write_bats host_write_bats io split: option.split)
qed

lemma put_spr_simps [simp]:
  "spr (ppc (put_spr n v M)) k = (if k = n then v else spr (ppc M) k)" "mmu (put_spr n v M) = mmu M" "mem (put_spr n v M) = mem M"
  "timing (put_spr n v M) = timing M" "memchecks (put_spr n v M) = memchecks M" "bWii (put_spr n v M) = bWii M"
  "gpr (ppc (put_spr n v M)) = gpr (ppc M)" "iCache (put_spr n v M) = iCache M"
  by (simp_all add: put_spr_def set_spr_def)

lemma put_spr_same [simp]: "put_spr n (spr (ppc M) n) M = M"
  by (simp add: put_spr_def set_spr_def)

lemma put_spr_bats: "bats_match M \<Longrightarrow> \<not> bat_spr n \<Longrightarrow> bats_match (put_spr n v M)"
  by (erule bats_match_cong) auto

lemma update_bats:
  "ibat_table (mmu M) = build_bats (bWii M) (memchecks M) (mem M) (ppc M) SPR_IBAT0U SPR_IBAT4U \<Longrightarrow> bats_match (update_DBAT M)"
  "dbat_table (mmu M) = build_bats (bWii M) (memchecks M) (mem M) (ppc M) SPR_DBAT0U SPR_DBAT4U \<Longrightarrow> bats_match (update_IBAT M)"
  "bats_match (update_DBAT (update_IBAT M))"
  by (simp_all add: bats_match_def update_DBAT_def update_IBAT_def DBATUpdated_def IBATUpdated_def)

lemma DMAL_bats:
  assumes "hw_keeps_bats hw" and "bats_match M"
  shows "ends bats_match (DMAL_written hw M)"
proof -
  have p: "ends bats_match (and_then r (\<lambda>M1. Inr (put_spr SPR_DMAL (f M1) M1)))" if "ends bats_match r" for r and f :: "'a Machine \<Rightarrow> u32"
    using that by (cases r) (auto intro!: put_spr_bats simp: bat_spr_def)
  show ?thesis
    unfolding DMAL_written_def Let_def using LCToMemory_bats [OF assms] MemoryToLC_bats [OF assms] assms(2) by (intro p) simp
qed

lemma SDRUpdated_bats: "dbat_table (SDRUpdated s mm) = dbat_table mm" "ibat_table (SDRUpdated s mm) = ibat_table mm"
  by (simp_all add: SDRUpdated_def Let_def)

text \<open>A write to a register of one of the two tables leaves the other one right.\<close>

lemma other_bats:
  assumes "bats_match M" and "\<not> (536 \<le> n \<and> n \<le> 543 \<or> 568 \<le> n \<and> n \<le> 575) \<or> \<not> (528 \<le> n \<and> n \<le> 535 \<or> 560 \<le> n \<and> n \<le> 567)"
    and "n \<noteq> SPR_HID4"
  shows "\<not> (528 \<le> n \<and> n \<le> 535 \<or> 560 \<le> n \<and> n \<le> 567) \<Longrightarrow> bats_match (update_DBAT (put_spr n v M))"
    and "\<not> (536 \<le> n \<and> n \<le> 543 \<or> 568 \<le> n \<and> n \<le> 575) \<Longrightarrow> bats_match (update_IBAT (put_spr n v M))"
proof -
  assume "\<not> (528 \<le> n \<and> n \<le> 535 \<or> 560 \<le> n \<and> n \<le> 567)"
  then have "build_bats (bWii M) (memchecks M) (mem M) (ppc (put_spr n v M)) 528 560 = build_bats (bWii M) (memchecks M) (mem M) (ppc M) 528 560"
    using assms(3) by (intro build_bats_cong) auto
  with assms(1) show "bats_match (update_DBAT (put_spr n v M))" by (intro update_bats) (simp add: bats_match_def)
next
  assume "\<not> (536 \<le> n \<and> n \<le> 543 \<or> 568 \<le> n \<and> n \<le> 575)"
  then have "build_bats (bWii M) (memchecks M) (mem M) (ppc (put_spr n v M)) 536 568 = build_bats (bWii M) (memchecks M) (mem M) (ppc M) 536 568"
    using assms(3) by (intro build_bats_cong) auto
  with assms(1) show "bats_match (update_IBAT (put_spr n v M))" by (intro update_bats) (simp add: bats_match_def)
qed

lemma spr_written_block:
  assumes "old \<noteq> spr (ppc M) n"
  shows "536 \<le> n \<and> n \<le> 543 \<or> 568 \<le> n \<and> n \<le> 575 \<Longrightarrow> spr_written hw n old v M = Inr (update_DBAT M)"
    and "528 \<le> n \<and> n \<le> 535 \<or> 560 \<le> n \<and> n \<le> 567 \<Longrightarrow> spr_written hw n old v M = Inr (update_IBAT M)"
  using assms by (elim disjE; simp add: spr_written_def)+

lemma spr_written_HID4:
  "spr_written hw SPR_HID4 old v M = Inr (if old \<noteq> spr (ppc M) SPR_HID4 then update_DBAT (update_IBAT M) else M)"
  by (simp add: spr_written_def)

lemma spr_written_same: "bat_spr n \<Longrightarrow> spr_written hw n (spr (ppc M) n) v M = Inr M"
  unfolding bat_spr_def by (elim disjE; simp add: spr_written_def)

lemma spr_written_other:
  assumes "bats_match M" and "\<not> bat_spr n" and hw: "hw_keeps_bats hw"
  shows "ends bats_match (spr_written hw n old v M)"
proof -
  have keep: "bats_match M'" if "spr (ppc M') = spr (ppc M)" "mem M' = mem M" "memchecks M' = memchecks M" "bWii M' = bWii M"
    "dbat_table (mmu M') = dbat_table (mmu M)" "ibat_table (mmu M') = ibat_table (mmu M)" for M' :: "'a Machine"
    using assms(1) by (rule bats_match_cong) (simp_all add: that)
  have tb: "bats_match (TimeBase_written (put_spr k v M))" if "\<not> bat_spr k" for k
    using put_spr_bats [OF assms(1) that, of v] by (rule bats_match_cong) (simp_all add: TimeBase_written_def)
  have tb': "bats_match (TimeBase_written (put_spr SPR_TL v M))" "bats_match (TimeBase_written (put_spr SPR_TU v M))"
    by (rule tb, simp add: bat_spr_def)+
  have h: "bats_match (HID0_written M)"
    by (rule bats_match_cong [OF assms(1)]) (auto simp: HID0_written_def bat_spr_def)
  have r: "bats_match (ResetGatherPipe hw M)" using hw assms(1) by (simp add: hw_keeps_bats_def)
  have x: "bats_match (M\<lparr>ppc := SetXER w (ppc M)\<rparr>)" for w by (rule keep) (simp_all add: SetXER_def)
  have d: "bats_match (DEC_written old v M)" by (rule keep) (simp_all add: DEC_written_def Let_def)
  have s: "bats_match (M\<lparr>mmu := SDRUpdated (ppc M) (mmu M)\<rparr>)" by (rule keep) (simp_all add: SDRUpdated_bats)
  have n: "n \<noteq> SPR_HID4" "(536 \<le> n \<and> n \<le> 543 \<or> 568 \<le> n \<and> n \<le> 575) = False"
    "(528 \<le> n \<and> n \<le> 535 \<or> 560 \<le> n \<and> n \<le> 567) = False"
    using assms(2) by (auto simp: bat_spr_def)
  show ?thesis
    using assms(1) n(1) tb' h r x d s DMAL_bats [OF hw assms(1)] unfolding spr_written_def n(2,3) by simp
qed

lemma spr_written_bats:
  assumes "bats_match M" and hw: "hw_keeps_bats hw"
  shows "ends bats_match (spr_written hw n (spr (ppc M) n) v (put_spr n v M))"
proof (cases "bat_spr n")
  case True
  show ?thesis
  proof (cases "v = spr (ppc M) n")
    case same: True
    with spr_written_same [OF True, of hw M v] assms(1) show ?thesis by simp
  next
    case False
    then have ne: "spr (ppc M) n \<noteq> spr (ppc (put_spr n v M)) n" by simp
    from True consider (hid4) "n = SPR_HID4" | (d) "536 \<le> n \<and> n \<le> 543 \<or> 568 \<le> n \<and> n \<le> 575"
      | (i) "528 \<le> n \<and> n \<le> 535 \<or> 560 \<le> n \<and> n \<le> 567" unfolding bat_spr_def by linarith
    then show ?thesis
    proof cases
      case hid4
      show ?thesis using ne update_bats(3) [of "put_spr n v M"] unfolding hid4 spr_written_HID4 by simp
    next
      case d
      then have "bats_match (update_DBAT (put_spr n v M))" by (intro other_bats [OF assms(1)]) auto
      then show ?thesis using spr_written_block(1) [OF ne d, of hw v] by simp
    next
      case i
      then have "bats_match (update_IBAT (put_spr n v M))" by (intro other_bats [OF assms(1)]) auto
      then show ?thesis using spr_written_block(2) [OF ne i, of hw v] by simp
    qed
  qed
next
  case False
  show ?thesis by (rule spr_written_other [OF put_spr_bats [OF assms(1) False] False hw])
qed



subsection \<open>Time base and decrementer\<close>

lemma mtspr_at:
  "mtspr_index inst = n \<Longrightarrow> mtspr hw inst M = spr_written hw n (spr (ppc M) n) (gpr (ppc M) (RD inst)) (put_spr n (gpr (ppc M) (RD inst)) M)"
  by (simp add: mtspr_def Let_def)

lemma mtspr_time:
  "mtspr_index inst = SPR_TL_W \<Longrightarrow> mtspr hw inst M =
     Inr (TimeBase_written (put_spr SPR_TL (gpr (ppc M) (RD inst)) (put_spr SPR_TL_W (gpr (ppc M) (RD inst)) M)))"
  "mtspr_index inst = SPR_TU_W \<Longrightarrow> mtspr hw inst M =
     Inr (TimeBase_written (put_spr SPR_TU (gpr (ppc M) (RD inst)) (put_spr SPR_TU_W (gpr (ppc M) (RD inst)) M)))"
  by (simp_all add: mtspr_at spr_written_def)

lemma mfspr_time:
  "mfspr_index inst = SPR_TL \<Longrightarrow> gpr (ppc (mftb inst M)) (RD inst) = ucast (GetFakeTimeBase (timing M))"
  "mfspr_index inst = SPR_TU \<Longrightarrow> gpr (ppc (mftb inst M)) (RD inst) = ucast (drop_bit 32 (GetFakeTimeBase (timing M)))"
  by (simp_all add: mftb_def mfspr_def refresh_spr_def Let_def set_gpr_def set_spr_def)

text \<open>
  The time base counts: after its upper and then its lower half have been written, the two halves read at any later time, before it is
  written again, are those of the 64-bit number written plus one for each twelve cycles that have passed, with the carry from the lower
  half into the upper one.
\<close>

theorem time_base_counts:
  assumes "mtspr_index i1 = SPR_TU_W" and "mtspr_index i2 = SPR_TL_W" and "mfspr_index j = SPR_TL" and "mfspr_index k = SPR_TU"
    and "mtspr hw i1 M = Inr M1" and "mtspr hw i2 M1 = Inr M2"
    and "fake_TB_start_value (timing N) = fake_TB_start_value (timing M2)" and "fake_TB_start_ticks (timing N) = fake_TB_start_ticks (timing M2)"
    and "GetTicks (timing N) = GetTicks (timing M2) + d" and "0 \<le> d" and "d < 2 ^ 64"
  shows "let tb = (push_bit 32 (ucast (gpr (ppc M) (RD i1))) OR ucast (gpr (ppc M) (RD i2)) :: u64) + word_of_int (d div 12)
    in gpr (ppc (mftb j N)) (RD j) = ucast tb \<and> gpr (ppc (mftb k N)) (RD k) = ucast (drop_bit 32 tb)"
proof -
  have M1: "M1 = TimeBase_written (put_spr SPR_TU (gpr (ppc M) (RD i1)) (put_spr SPR_TU_W (gpr (ppc M) (RD i1)) M))"
    using assms(5) mtspr_time(2) [OF assms(1), of hw M] by simp
  let ?P = "put_spr SPR_TL (gpr (ppc M1) (RD i2)) (put_spr SPR_TL_W (gpr (ppc M1) (RD i2)) M1)"
  have M2: "M2 = TimeBase_written ?P" using assms(6) mtspr_time(1) [OF assms(2), of hw M1] by simp
  have P: "gpr (ppc M1) = gpr (ppc M)" "spr (ppc ?P) SPR_TL = gpr (ppc M) (RD i2)" "spr (ppc ?P) SPR_TU = gpr (ppc M) (RD i1)"
    by (simp_all add: M1 TimeBase_written_def)
  have ticks: "GetTicks (timing M2) = GetTicks (timing ?P)" by (simp add: M2 TimeBase_written_def TimeBaseSet_def)
  have "GetFakeTimeBase (timing N) = (push_bit 32 (ucast (gpr (ppc M) (RD i1))) OR ucast (gpr (ppc M) (RD i2))) + word_of_int (d div 12)"
    unfolding P(2,3) [symmetric]
    by (rule GetFakeTimeBase_later [where g = "timing ?P"]) (use assms(7-11) ticks in \<open>simp_all add: M2 TimeBase_written_def\<close>)
  then show ?thesis by (simp add: Let_def mfspr_time(1) [OF assms(3)] mfspr_time(2) [OF assms(4)])
qed

theorem time_base_counts_witness:
  "\<exists>M1 M2. mtspr hw_test 0x7C7D43A6 (put_gpr 3 5 (put_gpr 4 0xFFFFFFFF machine_test)) = Inr M1 \<and> mtspr hw_test 0x7C9C43A6 M1 = Inr M2 \<and>
     (let N = M2\<lparr>timing := (timing M2)\<lparr>global_timer := 12\<rparr>\<rparr>
      in gpr (ppc (mftb 0x7CAC42E6 N)) 5 = 0 \<and> gpr (ppc (mftb 0x7CCD42E6 N)) 6 = 6)"
proof -
  let ?M = "put_gpr 3 5 (put_gpr 4 0xFFFFFFFF machine_test)"
  have i: "mtspr_index 0x7C7D43A6 = SPR_TU_W" "RD 0x7C7D43A6 = 3" "mtspr_index 0x7C9C43A6 = SPR_TL_W" "RD 0x7C9C43A6 = 4"
    "mfspr_index 0x7CAC42E6 = SPR_TL" "RD 0x7CAC42E6 = 5" "mfspr_index 0x7CCD42E6 = SPR_TU" "RD 0x7CCD42E6 = 6"
    by (simp_all add: mtspr_index_def mfspr_index_def SPR_def SPRU_def SPRL_def RD_def bit_field_def)
  define M1 where "M1 = TimeBase_written (put_spr SPR_TU 5 (put_spr SPR_TU_W 5 ?M))"
  define M2 where "M2 = TimeBase_written (put_spr SPR_TL 0xFFFFFFFF (put_spr SPR_TL_W 0xFFFFFFFF M1))"
  have g: "gpr (ppc ?M) 3 = 5" "gpr (ppc ?M) 4 = 0xFFFFFFFF" "gpr (ppc M1) 4 = 0xFFFFFFFF"
    by (simp_all add: put_gpr_def set_gpr_def M1_def TimeBase_written_def)
  have m: "mtspr hw_test 0x7C7D43A6 ?M = Inr M1" "mtspr hw_test 0x7C9C43A6 M1 = Inr M2"
    using mtspr_time(2) [OF i(1), of hw_test ?M] mtspr_time(1) [OF i(3), of hw_test M1] unfolding i g by (simp_all add: M1_def M2_def)
  have t: "s_is_global_timer_sane (timing M2)" "global_timer (timing M2) = 0"
    by (simp_all add: M2_def M1_def TimeBase_written_def TimeBaseSet_def SetFakeTBStartValue_def SetFakeTBStartTicks_def
        put_gpr_def machine_test_def timing_zero_def Let_def)
  show ?thesis
    using time_base_counts [OF i(1,3,5,7) m, of "M2\<lparr>timing := (timing M2)\<lparr>global_timer := 12\<rparr>\<rparr>" 12] i g m t
    by (simp add: Let_def GetTicks_def)
qed

text \<open>
  A write of the lower half alone sets the upper half back: the new time base takes it from the register \<open>TU\<close>, which holds the value
  of the last read (or 0), and not from the counter as it is now.
\<close>

theorem time_base_write_loses_upper_half:
  assumes "mtspr_index inst = SPR_TL_W" and "mtspr hw inst M = Inr M'"
  shows "GetFakeTimeBase (timing M') = push_bit 32 (ucast (spr (ppc M) SPR_TU)) OR ucast (gpr (ppc M) (RD inst))"
proof -
  let ?P = "put_spr SPR_TL (gpr (ppc M) (RD inst)) (put_spr SPR_TL_W (gpr (ppc M) (RD inst)) M)"
  have M': "M' = TimeBase_written ?P" using assms(2) mtspr_time(1) [OF assms(1), of hw M] by simp
  have "GetFakeTimeBase (timing M') = (push_bit 32 (ucast (spr (ppc ?P) SPR_TU)) OR ucast (spr (ppc ?P) SPR_TL)) + word_of_int (0 div 12)"
    by (rule GetFakeTimeBase_later [where g = "timing ?P"]) (simp_all add: M' TimeBase_written_def TimeBaseSet_def)
  then show ?thesis by simp
qed

theorem time_base_write_loses_upper_half_witness:
  "\<exists>(M :: unit Machine) M'. drop_bit 32 (GetFakeTimeBase (timing M)) = 7 \<and> gpr (ppc M) 4 = 1 \<and>
     mtspr hw_test 0x7C9C43A6 M = Inr M' \<and> GetFakeTimeBase (timing M') = 1"
proof -
  let ?M = "put_gpr 4 1 machine_test\<lparr>timing := timing_zero\<lparr>fake_TB_start_value := 0x700000000\<rparr>\<rparr>"
  have i: "mtspr_index 0x7C9C43A6 = SPR_TL_W" "RD 0x7C9C43A6 = 4"
    by (simp_all add: mtspr_index_def SPRU_def SPRL_def RD_def bit_field_def)
  obtain M' where M': "mtspr hw_test 0x7C9C43A6 ?M = Inr M'" using mtspr_time(1) [OF i(1)] by blast
  have "spr (ppc ?M) SPR_TU = 0" "gpr (ppc ?M) 4 = 1" by (simp_all add: put_gpr_def set_gpr_def machine_test_def Let_def ppc_zero_def)
  moreover have "drop_bit 32 (GetFakeTimeBase (timing ?M)) = 7"
    by (simp add: GetFakeTimeBase_def GetFakeTBStartValue_def GetFakeTBStartTicks_def ticks_def GetTicks_def timing_zero_def)
  ultimately show ?thesis using M' time_base_write_loses_upper_half [OF i(1) M'] i(2) by (intro exI [of _ ?M] exI [of _ M']) simp
qed

lemma DEC_written_pending:
  assumes "mtspr_index i = SPR_DEC" and "\<not> bit (gpr (ppc M) (RD i)) 31" and "queue_ok (timing M)" and "mtspr hw i M = Inr M'"
  shows "event_times ty (timing M') = (if ty = ''DecCallback'' then {#GetTicks (timing M) + uint (gpr (ppc M) (RD i)) * 12 mod 2 ^ 32#}
      else event_times ty (timing M))"
    and "queue_ok (timing M')" and "s_fake_dec_start_value (timing M') = gpr (ppc M) (RD i)"
    and "s_fake_dec_start_ticks (timing M') = ticks (timing M)"
proof -
  let ?P = "put_spr SPR_DEC (gpr (ppc M) (RD i)) M"
  have "\<not> bit (gpr (ppc M) (RD i)) (31 + n)" for n
    using assms(2) bit_imp_le_length [of "gpr (ppc M) (RD i)" "31 + n"] by (cases n) auto
  then have "drop_bit 31 (gpr (ppc M) (RD i)) = 0" by (intro bit_word_eqI) (simp add: bit_drop_bit_eq)
  then have M': "timing M' = DecrementerSet (ppc ?P) (timing M)"
    using assms(4) mtspr_at [OF assms(1), of hw M] by (auto simp: spr_written_def DEC_written_def Let_def)
  have b: "\<not> bit (spr (ppc ?P) SPR_DEC) 31" using assms(2) by simp
  show "event_times ty (timing M') = (if ty = ''DecCallback'' then {#GetTicks (timing M) + uint (gpr (ppc M) (RD i)) * 12 mod 2 ^ 32#}
      else event_times ty (timing M))"
    "queue_ok (timing M')" "s_fake_dec_start_value (timing M') = gpr (ppc M) (RD i)"
    "s_fake_dec_start_ticks (timing M') = ticks (timing M)"
    unfolding M' using DecrementerSet_pending [OF assms(3) b] by simp_all
qed

text \<open>
  The decrementer counts down and its interrupt is on time: a value below 357913942 that is written to it makes the scheduler hold
  exactly one interrupt, twelve cycles per unit from now, in place of any earlier one, and leaves the other events as they are; and the register
  read at any time before the interrupt is the value less one for each twelve cycles that have passed, 0 at the time of the interrupt.
\<close>

theorem decrementer_counts:
  assumes "mtspr_index i = SPR_DEC" and "gpr (ppc M) (RD i) = v" and "v < 357913942" and "queue_ok (timing M)"
    and "mtspr hw i M = Inr M'" and "s_fake_dec_start_value (timing N) = s_fake_dec_start_value (timing M')"
    and "s_fake_dec_start_ticks (timing N) = s_fake_dec_start_ticks (timing M')" and "\<not> bit (spr (ppc N) SPR_DEC) 31"
    and "GetTicks (timing N) = GetTicks (timing M) + d" and "0 \<le> d" and "d < 2 ^ 64" and "mfspr_index j = SPR_DEC"
  shows "event_times ''DecCallback'' (timing M') = {#GetTicks (timing M) + 12 * uint v#} \<and> queue_ok (timing M') \<and>
    (\<forall>ty. ty \<noteq> ''DecCallback'' \<longrightarrow> event_times ty (timing M') = event_times ty (timing M)) \<and>
    gpr (ppc (mfspr j N)) (RD j) = v - word_of_int (d div 12)"
proof -
  have v: "uint v < 357913942" using assms(3) by (simp add: word_less_def)
  have "unat v < 2 ^ 31" using assms(3) by (simp add: word_less_nat_alt)
  then have "\<not> bit v 31" unfolding unat_less_exp_iff by blast
  then have b: "\<not> bit (gpr (ppc M) (RD i)) 31" by (simp add: assms(2))
  note w = DEC_written_pending [OF assms(1) b assms(4,5), unfolded assms(2)]
  have "spr (ppc N) SPR_DEC AND 0x80000000 = 0" using assms(8) and_exp_eq_0_iff [of "spr (ppc N) SPR_DEC" 31] by simp
  then have "gpr (ppc (mfspr j N)) (RD j) = GetFakeDecrementer (timing N)"
    by (simp add: mfspr_def assms(12) refresh_spr_def Let_def set_gpr_def set_spr_def)
  also have "\<dots> = v - word_of_int (d div 12)"
    using assms(6,7) w(3,4) by (intro GetFakeDecrementer_later [OF _ _ assms(9-11)]) simp_all
  finally show ?thesis using w(1,2) v by (simp add: mult.commute)
qed

theorem decrementer_counts_witness:
  "\<exists>M'. mtspr hw_test 0x7C7603A6 (put_gpr 3 100 machine_test) = Inr M' \<and> event_times ''DecCallback'' (timing M') = {#1200#} \<and>
     gpr (ppc (mfspr 0x7C9602A6 (M'\<lparr>timing := (timing M')\<lparr>global_timer := 24\<rparr>\<rparr>))) 4 = 98"
proof -
  let ?M = "put_gpr 3 100 machine_test"
  have i: "mtspr_index 0x7C7603A6 = SPR_DEC" "RD 0x7C7603A6 = 3" "mfspr_index 0x7C9602A6 = SPR_DEC" "RD 0x7C9602A6 = 4"
    by (simp_all add: mtspr_index_def mfspr_index_def SPR_def SPRU_def SPRL_def RD_def bit_field_def)
  have M: "gpr (ppc ?M) 3 = 100" "spr (ppc ?M) SPR_DEC = 0" "timing ?M = timing_zero"
    by (simp_all add: put_gpr_def set_gpr_def machine_test_def Let_def ppc_zero_def)
  obtain M' where M': "mtspr hw_test 0x7C7603A6 ?M = Inr M'" by (simp add: mtspr_at [OF i(1)] spr_written_def)
  then have D: "M' = DEC_written 0 100 (put_spr SPR_DEC 100 ?M)" by (simp add: mtspr_at [OF i(1)] spr_written_def i M)
  have z: "queue_ok timing_zero" "GetTicks timing_zero = 0" by (simp_all add: queue_ok_def timing_zero_def GetTicks_def is_heap_def)
  let ?N = "M'\<lparr>timing := (timing M')\<lparr>global_timer := 24\<rparr>\<rparr>"
  have "timing M' = DecrementerSet (ppc (put_spr SPR_DEC 100 ?M)) timing_zero" by (simp add: D DEC_written_def M Let_def)
  then have "s_is_global_timer_sane (timing M')"
    by (simp add: DecrementerSet_def Let_def timing_zero_def RemoveEvent_def SetFakeDecStartValue_def SetFakeDecStartTicks_def
        ScheduleEvent_def enqueue_def)
  then have N: "GetTicks (timing ?N) = 24" by (simp add: GetTicks_def)
  have "spr (ppc ?N) SPR_DEC = 100" by (simp add: D DEC_written_def Let_def)
  then have b: "\<not> bit (spr (ppc ?N) SPR_DEC) 31" by simp
  show ?thesis
    using decrementer_counts [OF i(1) _ _ _ M', of 100 ?N 24 "0x7C9602A6"] b i M z M' N by simp
qed

text \<open>
  A value of 357913942 or more interrupts too early: the product of the value and the ratio of the clocks wraps at 32 bits, so that
  the interrupt comes while the register still has a positive value. (The largest right value is about 8.8 seconds.)
\<close>

theorem decrementer_interrupt_too_early:
  assumes "mtspr_index i = SPR_DEC" and "gpr (ppc M) (RD i) = v" and "357913942 \<le> v" and "v < 0x80000000" and "queue_ok (timing M)"
    and "mtspr hw i M = Inr M'"
  shows "\<exists>t. event_times ''DecCallback'' (timing M') = {#t#} \<and> t < GetTicks (timing M) + 12 * uint v"
proof -
  have "unat v < 2 ^ 31" using assms(4) by (simp add: word_less_nat_alt)
  then have "\<not> bit v 31" unfolding unat_less_exp_iff by blast
  moreover have "uint v * 12 mod 2 ^ 32 < 12 * uint v"
  proof -
    have "357913942 \<le> uint v" using assms(3) by (simp add: word_le_def)
    have "uint v * 12 mod 2 ^ 32 < 2 ^ 32" by (rule pos_mod_bound) simp
    also have "\<dots> \<le> 12 * uint v" using \<open>357913942 \<le> uint v\<close> by simp
    finally show ?thesis .
  qed
  ultimately show ?thesis using DEC_written_pending(1) [OF assms(1) _ assms(5,6), of "''DecCallback''"] assms(2) by simp
qed

theorem decrementer_interrupt_too_early_witness:
  "\<exists>M' t. mtspr hw_test 0x7C7603A6 (put_gpr 3 357913942 machine_test) = Inr M' \<and>
     event_times ''DecCallback'' (timing M') = {#t#} \<and> t < 4294967304"
proof -
  let ?M = "put_gpr 3 357913942 machine_test"
  have i: "mtspr_index 0x7C7603A6 = SPR_DEC" "RD 0x7C7603A6 = 3"
    by (simp_all add: mtspr_index_def SPRU_def SPRL_def RD_def bit_field_def)
  have M: "gpr (ppc ?M) 3 = 357913942" "timing ?M = timing_zero" by (simp_all add: put_gpr_def set_gpr_def machine_test_def Let_def)
  obtain M' where M': "mtspr hw_test 0x7C7603A6 ?M = Inr M'" by (simp add: mtspr_at [OF i(1)] spr_written_def)
  have "queue_ok timing_zero" "GetTicks timing_zero = 0" by (simp_all add: queue_ok_def timing_zero_def GetTicks_def is_heap_def)
  then show ?thesis using decrementer_interrupt_too_early [OF i(1) _ _ _ _ M'] i M M' by auto
qed

subsection \<open>Locked cache\<close>

lemma dma_length_bytes: "unat (32 * dma_length u v) = 32 * unat (dma_length u v)" "0 < dma_length u v" "unat (dma_length u v) \<le> 128"
proof -
  have "unat (push_bit 2 (bit_field 0 5 u) OR bit_field 2 2 v) < 2 ^ 7"
    unfolding unat_less_exp_iff by (auto simp: bit_or_iff bit_push_bit_iff)
  then have le: "unat (dma_length u v) \<le> 128" by (simp add: dma_length_def Let_def)
  then show "unat (dma_length u v) \<le> 128" .
  show "0 < dma_length u v" by (simp add: dma_length_def Let_def word_gt_0)
  show "unat (32 * dma_length u v) = 32 * unat (dma_length u v)" using le by (simp add: unat_word_ariths)
qed

text \<open>The two addresses and the length of a transfer, and its addresses in the arena.\<close>

definition dma_memory :: "u32 \<Rightarrow> u32" where "dma_memory u = push_bit 5 (bit_field 5 27 u)"

definition dma_bytes :: "u32 \<Rightarrow> u32 \<Rightarrow> nat" where "dma_bytes u v = 32 * unat (dma_length u v)"

definition copied :: "u32 \<Rightarrow> u32 \<Rightarrow> nat \<Rightarrow> Memory \<Rightarrow> Memory \<Rightarrow> bool" where
  "copied src dst n m m' \<longleftrightarrow> m' = m\<lparr>physical_base := physical_base m'\<rparr> \<and>
     (\<forall>k < n. physical_base m' (dst + of_nat k) = physical_base m (src + of_nat k)) \<and>
     (\<forall>q. (\<forall>k < n. q \<noteq> dst + of_nat k) \<longrightarrow> physical_base m' q = physical_base m q)"

lemma copied_patch:
  assumes "load_bytes n src (physical_base m) = Inr bs" and "n < 2 ^ 32"
  shows "copied src dst n m (m\<lparr>physical_base := patch dst bs (physical_base m)\<rparr>)"
proof -
  have l: "length bs = n" "\<And>k. k < n \<Longrightarrow> physical_base m (src + of_nat k) = Some (bs ! k)"
    using assms(1) by (simp_all add: load_bytes_Inr_iff)
  have "patch dst bs a q = a q" if "\<forall>k < n. q \<noteq> dst + of_nat k" for a q
  proof -
    have "q = dst + of_nat (unat (q - dst))" by simp
    then show ?thesis using that by (metis l(1) patch_def)
  qed
  then show ?thesis using assms(2) l by (simp add: copied_def patch_def unat_of_nat_u32)
qed

lemma DMAL_memory:
  assumes "mtspr_index i = SPR_DMAL" and "v = gpr (ppc M) (RD i)" and "u = spr (ppc M) SPR_DMAU" and "bit v 1"
    and "dma_memory u AND 0x0F000000 \<noteq> 0x08000000" and "dma_memory u AND 0x0F000000 \<noteq> 0x0C000000"
    and "GetPointer (dma_memory u) (mem M) = Some p"
    and "lc = l1_pointer (dma_memory v)"
  shows "mtspr hw i M = and_then (load_bytes (dma_bytes u v) (if bit v 4 then p else lc) (physical_base (mem M))) (\<lambda>bs.
    and_then (store_bytes bs (if bit v 4 then lc else p) (physical_base (mem M))) (\<lambda>a.
      Inr ((put_spr SPR_DMAL (unset_bit 1 v) M)\<lparr>mem := (mem M)\<lparr>physical_base := a\<rparr>\<rparr>)))"
proof -
  have "mtspr hw i M = DMAL_written hw (put_spr SPR_DMAL v M)"
    using assms(2) by (simp add: mtspr_at [OF assms(1)] spr_written_def)
  also have "\<dots> = and_then (load_bytes (dma_bytes u v) (if bit v 4 then p else lc) (physical_base (mem M))) (\<lambda>bs.
    and_then (store_bytes bs (if bit v 4 then lc else p) (physical_base (mem M))) (\<lambda>a.
      Inr ((put_spr SPR_DMAL (unset_bit 1 v) M)\<lparr>mem := (mem M)\<lparr>physical_base := a\<rparr>\<rparr>)))"
    using assms(3-8)
    by (simp add: DMAL_written_def Let_def DMA_MemoryToLC_def DMA_LCToMemory_def dma_memory_def dma_bytes_def dma_length_bytes(1)
        and_then_def put_spr_def set_spr_def split: sum.split)
  finally show ?thesis .
qed

text \<open>
  A transfer of the locked cache copies memory: a write to \<open>DMAL\<close> that starts one copies the number of cache lines the two registers
  say (128 when they say 0) between memory and the locked cache, in the direction of its bit, changes no other byte and no other
  register, and leaves \<open>DMAL\<close> with the start bit off.
\<close>

theorem locked_cache_transfer:
  assumes "mtspr_index i = SPR_DMAL" and "v = gpr (ppc M) (RD i)" and "u = spr (ppc M) SPR_DMAU" and "bit v 1"
    and "dma_memory u AND 0x0F000000 \<noteq> 0x08000000" and "dma_memory u AND 0x0F000000 \<noteq> 0x0C000000"
    and "GetPointer (dma_memory u) (mem M) = Some p" and "lc = l1_pointer (dma_memory v)"
    and "\<And>k. k < dma_bytes u v \<Longrightarrow> physical_base (mem M) (p + of_nat k) \<noteq> None \<and> physical_base (mem M) (lc + of_nat k) \<noteq> None"
  shows "\<exists>m. mtspr hw i M = Inr ((put_spr SPR_DMAL (unset_bit 1 v) M)\<lparr>mem := m\<rparr>) \<and>
    (if bit v 4 then copied p lc (dma_bytes u v) (mem M) m else copied lc p (dma_bytes u v) (mem M) m)"
proof -
  let ?src = "if bit v 4 then p else lc" and ?dst = "if bit v 4 then lc else p"
  have n: "dma_bytes u v < 2 ^ 32" using dma_length_bytes(3) [of u v] by (simp add: dma_bytes_def)
  obtain bs where bs: "load_bytes (dma_bytes u v) ?src (physical_base (mem M)) = Inr bs" "length bs = dma_bytes u v"
    using assms(9) by (rule_tac load_bytes_total [of "dma_bytes u v" "physical_base (mem M)" ?src]) auto
  have "store_bytes bs ?dst (physical_base (mem M)) = Inr (patch ?dst bs (physical_base (mem M)))"
    using assms(9) bs(2) n by (subst store_bytes_Inr_iff) auto
  then show ?thesis
    using copied_patch [OF bs(1) n, of ?dst] unfolding DMAL_memory [OF assms(1-8)] bs(1) by auto
qed

end
