(* ===== verification/Spec2Isabelle.thy ===== *)
theory Spec2Isabelle
  imports DSP_SaveState PPC_Branch PPC_LoadStoreForms PPC_Reservation PPC_Strings PPC_SystemProps
begin

text \<open>
  A verification development for the Dolphin emulator: the low-level emulation of the audio
  processor of the GameCube and Wii (the DSP, \<^verbatim>\<open>Source/Core/Core/DSP\<close>), the event scheduler
  (\<^verbatim>\<open>Core/CoreTiming.cpp\<close>) and the interpreter of the main processor (\<^verbatim>\<open>Core/PowerPC\<close>).

  The program. The DSP core keeps its whole state in one global structure \<^verbatim>\<open>g_dsp\<close>.
  \<^verbatim>\<open>DSPCore.cpp\<close> initialises it, delivers exceptions and runs the interpreter for a
  number of cycles. The interpreter (\<^verbatim>\<open>Interpreter/\<close>) fetches an instruction through
  \<^verbatim>\<open>DSPMemoryMap.cpp\<close>, finds its function in the tables of \<^verbatim>\<open>DSPTables.cpp\<close> and calls
  it; data accesses go to DRAM, the coefficient ROM or the hardware registers of
  \<^verbatim>\<open>DSPHWInterface.cpp\<close> (mailboxes, DMA, accelerator). Calls, loops and exceptions use
  the four hardware stacks of \<^verbatim>\<open>DSPStacks.cpp\<close>; where loops end is known from the
  static analysis of \<^verbatim>\<open>DSPAnalyzer.cpp\<close>. \<^verbatim>\<open>HW/DSPLLE\<close> starts and runs the core and saves it.
  The scheduler of \<^verbatim>\<open>CoreTiming.cpp\<close> keeps a heap of events and tells the main processor how long it may run;
  the main processor keeps its registers in \<^verbatim>\<open>ppcState\<close> and has one function per instruction. Its loads, stores and
  fetches go through \<^verbatim>\<open>PowerPC/MMU.cpp\<close>, which translates addresses with block registers or the page table and reaches the memory
  regions of \<^verbatim>\<open>HW/Memmap.cpp\<close> or a device; fetches go through the instruction cache of \<^verbatim>\<open>PPCCache.cpp\<close>.

  Theories, in the order of their imports:
  \<^item> \<open>DSP_Prelude\<close>: machine integers, fallible operations, 40-bit numbers.
  \<^item> \<open>DSP_State\<close>: \<open>SDSP\<close>, \<open>DSP_Regs\<close>, the unions of the register file.
  \<^item> \<open>DSP_Stacks\<close>: the hardware stacks; they refine bounded stacks.
  \<^item> \<open>DSP_Tables\<close>: the opcode tables; every word decodes, to the one template it matches or to that of a constant word.
  \<^item> \<open>DSP_IMem\<close>, \<open>DSP_Analyzer\<close>: instruction memory and the analyser, which marks exactly the ends of loops.
  \<^item> \<open>DSP_Accelerator\<close>, \<open>DSP_HWInterface\<close>, \<open>DSP_MemoryMap\<close>: audio memory, hardware
    registers, DMA and data memory.
  \<^item> \<open>DSP_IntUtil\<close>, \<open>DSP_IntCC\<close>, \<open>DSP_Arithmetic\<close>, \<open>DSP_Multiplier\<close>, \<open>DSP_AddrRing\<close>, \<open>DSP_Misc\<close>,
    \<open>DSP_LoadStore\<close>, \<open>DSP_Branch\<close>, \<open>DSP_ExtOps\<close>: the instructions, one definition each: exact
    arithmetic with flags, circular addressing, hardware loops.
  \<^item> \<open>DSP_Dispatch\<close>: the functions of the tables; an extended opcode runs in parallel with its main opcode.
  \<^item> \<open>Common_Hash\<close>, \<open>DSP_Core\<close>, \<open>DSP_Interpreter\<close>, \<open>DSP_Liveness\<close>: ROM checksum, life cycle,
    exceptions, one step and the run loops: those of a running core end, and it is stated when that of a stepping or stopped core does.
  \<^item> \<open>Common_ChunkFile\<close>, \<open>DSP_LLE\<close>, \<open>DSP_SaveState\<close>: saved states, the plugin around the core and its invariant, the round
    trip of a saved state.
  \<^item> \<open>Std_Heap\<close>, \<open>CoreTiming\<close>: the binary heap of the C++ library and the scheduler: the queue stays
    ordered, events fire in the order of their times and arrival, without overclocking, events in the past and changes of the clock rate.
  \<^item> \<open>PPC_State\<close>, \<open>PPC_Exceptions\<close>, \<open>PPC_Integer\<close>, \<open>PPC_Branch\<close>: registers, exceptions, the integer and branch
    instructions of the main processor.
  \<^item> \<open>Memmap\<close>, \<open>PPC_Cache\<close>: the memory of the host with its mapped regions, byte order and device accesses; the instruction
    cache, which cannot be seen when written lines are invalidated.
  \<^item> \<open>PPC_MMU\<close>, \<open>PPC_BAT\<close>: the page table with its lookaside buffers, which cannot be seen either; memory breakpoints and the
    tables of block translation, which agree with the registers.
  \<^item> \<open>PPC_Access\<close>, \<open>PPC_AccessProps\<close>, \<open>PPC_FastPath\<close>: the accesses of processor and debugger on a machine of registers, translation,
    cache, memory and devices; with a page table inside memory they stay in memory, what is stored is loaded, and the direct accesses of the recompiler
    agree with them.
  \<^item> \<open>PPC_Float\<close>, \<open>PPC_LoadStore\<close>, \<open>PPC_Bytes\<close>, \<open>PPC_LoadStoreProps\<close>, \<open>PPC_LoadStoreForms\<close>, \<open>PPC_Reservation\<close>, \<open>PPC_Strings\<close>: the
    conversions between single and double precision and the load and store instructions: which bytes each form stores and loads, faults,
    multiple words, strings, reservations and cache lines.
  \<^item> \<open>PPC_Timers\<close>, \<open>PPC_SystemRegisters\<close>, \<open>PPC_SystemProps\<close>: the decrementer and the time base (\<^verbatim>\<open>HW/SystemTimers.cpp\<close>) and the
    instructions for system registers. Block translation follows its registers under every \<open>mtspr\<close>; the logic of the condition
    register, both timers and the transfers of the locked cache do what the registers say; a large decrementer has its interrupt too early
    and a write to half of the time base sets the other half back.

  Conventions. An operation of the source that changes \<^verbatim>\<open>g_dsp\<close> or \<^verbatim>\<open>ppcState\<close> is a function from the
  state to the new state; one that can leave the memory it may use, exit the process
  or not return has a sum type as result, with the error on the left. Logging, the
  capture logger and the user interface have no effect on the state and are left out.
  No definition uses fuel: loops are structural, have a measure, or are partial functions whose result is
  \<open>None\<close> when they do not return, and the theorems on the run loops say that they return. Bounds that matter: the hardware stacks have 32 entries,
  the scheduler converts cycles with single-precision numbers, exact below \<open>2 ^ 24\<close>, and a slice is at most 20000 cycles.

  Not modelled: the recompilers (JIT) of both processors, the assembler and disassembler, the high-level
  emulation of the DSP, the thread of the DSP plugin, logging and summaries of the scheduler, floating-point
  arithmetic of the main processor (the host computes it, in its rounding mode), devices behind hardware registers, IOS, video and audio output, disc images and user interfaces.
\<close>

end
